(* ===== verification/Dm_Prelude.thy ===== *)
theory Dm_Prelude
  imports Main "HOL-Library.Word"
begin

text \<open>
  Shared material of the development: the C integer types as words, the ways a C function of
  the device model can fail to return (\<^verbatim>\<open>hw_error\<close>, \<^verbatim>\<open>exit\<close>, \<^verbatim>\<open>abort\<close>), the error monad
  that threads them, and the bit-level lemmas every device proof uses. Word lemmas that turn a
  masking or shifting idiom of the C code into a statement about bits are collected in
  \<open>bit_facts\<close>; facts that unfold a byte split or reassembly are collected in \<open>byte_facts\<close>.
\<close>

unbundle bit_operations_syntax

named_theorems bit_facts
named_theorems byte_facts

type_synonym u8 = "8 word"
type_synonym u16 = "16 word"
type_synonym u32 = "32 word"
type_synonym u64 = "64 word"

section \<open>Ways of not returning\<close>

text \<open>
  \<^verbatim>\<open>hw_error\<close> prints a message and calls \<^verbatim>\<open>abort\<close>; \<^verbatim>\<open>exit(n)\<close> ends the process; a direct
  \<^verbatim>\<open>abort()\<close> ends it as well. None of them returns to the caller, so a computation that meets
  one has no resulting state. \<open>Loops\<close> is the outcome of a C loop whose body has been shown to leave
  its state unchanged while the loop condition holds; \<open>Div_by_zero\<close> is the trap of an integer division;
  \<open>Bad_access\<close> is undefined behaviour: a call through a null function pointer or an access outside
  the C object it is made on.
\<close>

datatype dm_error = Hw_error string | Exit int | Abort | Loops | Div_by_zero | Bad_access

type_synonym 'a res = "dm_error + 'a"

fun res_bind :: "'a res \<Rightarrow> ('a \<Rightarrow> 'b res) \<Rightarrow> 'b res" where
  "res_bind (Inl e) f = Inl e"
| "res_bind (Inr a) f = f a"

lemma res_bind_Inr_iff: "res_bind r f = Inr b \<longleftrightarrow> (\<exists>a. r = Inr a \<and> f a = Inr b)"
  by (cases r) auto

lemma res_bind_Inr_right [simp]: "res_bind r Inr = r"
  by (cases r) auto

lemma res_bind_assoc: "res_bind (res_bind r f) g = res_bind r (\<lambda>a. res_bind (f a) g)"
  by (cases r) auto

text \<open>A \<^verbatim>\<open>for\<close> loop over the elements of a list.\<close>

fun res_fold :: "('x \<Rightarrow> 'm \<Rightarrow> 'm res) \<Rightarrow> 'x list \<Rightarrow> 'm \<Rightarrow> 'm res" where
  "res_fold f [] m = Inr m"
| "res_fold f (x # xs) m = res_bind (f x m) (res_fold f xs)"

lemma res_fold_Nil [simp]: "res_fold f [] = Inr"
  by (rule ext) simp

lemma res_fold_append: "res_fold f (xs @ ys) m = res_bind (res_fold f xs m) (res_fold f ys)"
proof (induction xs arbitrary: m)
  case (Cons x xs)
  then show ?case by (cases "f x m") auto
qed simp

lemma res_fold_inv:
  assumes "\<And>x m. x \<in> set xs \<Longrightarrow> P m \<Longrightarrow> \<exists>m'. f x m = Inr m' \<and> P m'"
  shows "P m \<Longrightarrow> \<exists>m'. res_fold f xs m = Inr m' \<and> P m'"
  using assms by (induction xs arbitrary: m) fastforce+

text \<open>A computation that returns, with a result that satisfies \<open>P\<close>.\<close>

definition returns :: "('a \<Rightarrow> bool) \<Rightarrow> 'a res \<Rightarrow> bool" where
  "returns P r \<longleftrightarrow> (\<exists>x. r = Inr x \<and> P x)"

lemma returns_simps [simp]: "returns P (Inr x) = P x" "\<not> returns P (Inl e)"
  by (simp_all add: returns_def)

lemma returns_bind: "returns Q r \<Longrightarrow> (\<And>x. Q x \<Longrightarrow> returns P (f x)) \<Longrightarrow> returns P (res_bind r f)"
  by (auto simp: returns_def)

lemma returns_mono: "returns Q r \<Longrightarrow> (\<And>x. Q x \<Longrightarrow> P x) \<Longrightarrow> returns P r"
  by (auto simp: returns_def)

lemma returnsD: "returns P r \<Longrightarrow> r = Inr x \<Longrightarrow> P x"
  by (auto simp: returns_def)

lemma returnsE: "returns P r \<Longrightarrow> (\<And>x. r = Inr x \<Longrightarrow> P x \<Longrightarrow> thesis) \<Longrightarrow> thesis"
  by (auto simp: returns_def)

lemma returns_fold: "(\<And>x m. x \<in> set xs \<Longrightarrow> P m \<Longrightarrow> returns P (f x m)) \<Longrightarrow> P m \<Longrightarrow> returns P (res_fold f xs m)"
  using res_fold_inv [of xs P f m] by (simp add: returns_def)

text \<open>A computation that returns with a result that satisfies \<open>P\<close>, or stops in one of the ways \<open>E\<close>.\<close>

definition ends :: "dm_error set \<Rightarrow> ('a \<Rightarrow> bool) \<Rightarrow> 'a res \<Rightarrow> bool" where
  "ends E P r = (case r of Inl e \<Rightarrow> e \<in> E | Inr x \<Rightarrow> P x)"

lemma ends_simps [simp]: "ends E P (Inr x) = P x" "ends E P (Inl e) = (e \<in> E)"
  by (simp_all add: ends_def)

lemma ends_bind: "ends E Q r \<Longrightarrow> (\<And>x. Q x \<Longrightarrow> ends E P (f x)) \<Longrightarrow> ends E P (res_bind r f)"
  by (cases r) auto

lemma ends_mono: "ends E Q r \<Longrightarrow> (\<And>x. Q x \<Longrightarrow> P x) \<Longrightarrow> ends E P r"
  by (cases r) auto

lemma ends_fold: "(\<And>x m. x \<in> set xs \<Longrightarrow> P m \<Longrightarrow> ends E P (f x m)) \<Longrightarrow> P m \<Longrightarrow> ends E P (res_fold f xs m)"
proof (induction xs arbitrary: m)
  case (Cons x xs)
  then show ?case by (auto intro!: ends_bind [of E P])
qed simp

lemma ends_conj: "ends E P r \<Longrightarrow> (\<And>x. r = Inr x \<Longrightarrow> P x \<Longrightarrow> Q x) \<Longrightarrow> ends E Q r"
  by (cases r) auto

section \<open>Bits\<close>

text \<open>The simplifier turns a shifted 1 into a power of two; the single-bit idioms are stated so.\<close>

declare and_exp_eq_0_iff_not_bit [bit_facts]

lemma word_nonzero_has_bit:
  "(w::'a::len word) \<noteq> 0 \<longleftrightarrow> (\<exists>n < LENGTH('a). bit w n)"
  by (auto simp: bit_eq_iff)

lemma bit_clear_exp [bit_facts]:
  "bit (w AND NOT (2 ^ n)) k \<longleftrightarrow> bit w k \<and> k \<noteq> n" for w :: "'a::len word"
  by (auto simp: bit_simps dest: bit_imp_le_length)

lemma bit_set_exp [bit_facts]:
  "n < LENGTH('a) \<Longrightarrow> bit (w OR 2 ^ n) k \<longleftrightarrow> bit w k \<or> k = n" for w :: "'a::len word"
  by (auto simp: bit_simps)

lemma bit_4_iff [bit_facts]: "bit (4::int) n \<longleftrightarrow> n = 2"
  using bit_exp_iff [where 'a = int, of 2 n] by auto

lemma and_le_right: "(w::'a::len word) AND m \<le> m"
  by (rule word_and_le1)

lemma unat_and_le: "unat ((w::'a::len word) AND m) \<le> unat m"
  by (meson and_le_right word_le_nat_alt)

text \<open>Masking with \<open>7\<close> is reduction modulo 8: the rotation of an 8259's priorities.\<close>

lemma unat_and_7 [bit_facts]: "unat ((w::'a::len word) AND 7) = unat w mod 8" if "3 \<le> LENGTH('a)"
proof -
  have "w AND 7 = take_bit 3 w"
    by (simp add: take_bit_eq_mask mask_numeral)
  then show ?thesis
    by (simp only: unsigned_take_bit_eq) (simp add: take_bit_eq_mod)
qed

text \<open>Masking with all ones below a power of two keeps the low bits.\<close>

lemma and_low_bits [bit_facts]:
  "(w::'a::len word) AND 1 = take_bit 1 w" "w AND 3 = take_bit 2 w" "w AND 7 = take_bit 3 w"
  "w AND 0xF = take_bit 4 w" "w AND 0x1F = take_bit 5 w" "w AND 0x7F = take_bit 7 w"
  "w AND 0xFF = take_bit 8 w" "w AND 0xFFFF = take_bit 16 w"
  by (simp_all add: take_bit_eq_mask mask_numeral)

lemma unat_bound: "unat (w::'a::len word) < 2 ^ LENGTH('a)"
  by (rule unsigned_less)

lemma unat_take_bit: "unat (take_bit n (w::'a::len word)) = unat w mod 2 ^ n"
  by (simp only: unsigned_take_bit_eq) (simp only: take_bit_eq_mod)

lemma and_high_byte [bit_facts]: "(w::u16) AND 0xFF00 = push_bit 8 (drop_bit 8 w)"
proof -
  have "0xFF00 = (NOT (mask 8) :: u16)" by (simp add: mask_numeral)
  then have "w AND 0xFF00 = w AND NOT (mask 8)" by (rule arg_cong)
  then show ?thesis by (simp only:) (rule bit_word_eqI, auto simp: bit_simps)
qed

lemma sint_small_u32: "uint (x::u32) < 2 ^ 31 \<Longrightarrow> sint x = uint x"
proof -
  assume "uint x < 2 ^ 31"
  then have "signed_take_bit 31 (uint x) = uint x"
    using order_trans [OF _ uint_ge_0, of "- (2 ^ 31)" x] by (intro signed_take_bit_int_eq_self) simp_all
  then show ?thesis by (simp add: sint_uint)
qed

section \<open>Bytes of a word\<close>

text \<open>The big-endian bytes of a 16, 32 and 64 bit value, as the migration stream carries them.\<close>

definition be16_bytes :: "u16 \<Rightarrow> u8 list" where
  "be16_bytes v = [ucast (drop_bit 8 v), ucast v]"

definition be32_bytes :: "u32 \<Rightarrow> u8 list" where
  "be32_bytes v = [ucast (drop_bit 24 v), ucast (drop_bit 16 v), ucast (drop_bit 8 v), ucast v]"

definition be64_bytes :: "u64 \<Rightarrow> u8 list" where
  "be64_bytes v = be32_bytes (ucast (drop_bit 32 v)) @ be32_bytes (ucast v)"

lemma be16_join [byte_facts]:
  "push_bit 8 (ucast (ucast (drop_bit 8 v) :: u8)) OR ucast (ucast v :: u8) = (v::u16)"
  by (rule bit_word_eqI) (auto simp: bit_simps)

lemma be32_join [byte_facts]:
  "push_bit 24 (ucast (ucast (drop_bit 24 v) :: u8)) OR push_bit 16 (ucast (ucast (drop_bit 16 v) :: u8))
     OR push_bit 8 (ucast (ucast (drop_bit 8 v) :: u8)) OR ucast (ucast v :: u8) = (v::u32)"
proof (rule bit_word_eqI)
  fix n assume "n < LENGTH(32)"
  then consider "n < 8" | "8 \<le> n" "n < 16" | "16 \<le> n" "n < 24" | "24 \<le> n" "n < 32"
    by (cases "n < 8"; cases "n < 16"; cases "n < 24") auto
  then show "bit (push_bit 24 (ucast (ucast (drop_bit 24 v) :: u8))
      OR push_bit 16 (ucast (ucast (drop_bit 16 v) :: u8))
      OR push_bit 8 (ucast (ucast (drop_bit 8 v) :: u8)) OR ucast (ucast v :: u8) :: u32) n = bit v n"
    by cases (auto simp: bit_simps)
qed

lemma be64_join [byte_facts]:
  "push_bit 32 (ucast (ucast (drop_bit 32 v) :: u32)) OR ucast (ucast v :: u32) = (v::u64)"
  by (rule bit_word_eqI) (auto simp: bit_simps)

section \<open>Byte sinks and byte sources\<close>

text \<open>
  A writer appends bytes to what it has written; a reader takes bytes from the front of what is
  left. \<open>emits\<close> and \<open>consumes\<close> describe an operation by the bytes it moves, and compose along
  the error monad, so that an encoder and its decoder are proved by walking their code once.
\<close>

definition emits :: "('f \<Rightarrow> bool) \<Rightarrow> ('f \<Rightarrow> u8 list) \<Rightarrow> ('f \<Rightarrow> 'f res) \<Rightarrow> u8 list \<Rightarrow> bool" where
  "emits ok written op bs \<longleftrightarrow>
     (\<forall>f. ok f \<longrightarrow> (\<exists>f'. op f = Inr f' \<and> ok f' \<and> written f' = written f @ bs))"

definition consumes ::
  "('f \<Rightarrow> bool) \<Rightarrow> ('f \<Rightarrow> u8 list) \<Rightarrow> ('f \<Rightarrow> ('a \<times> 'f) res) \<Rightarrow> u8 list \<Rightarrow> 'a \<Rightarrow> bool" where
  "consumes ok left op bs v \<longleftrightarrow>
     (\<forall>f xs. ok f \<longrightarrow> left f = bs @ xs \<longrightarrow> (\<exists>f'. op f = Inr (v, f') \<and> ok f' \<and> left f' = xs))"

lemma emitsD: "emits ok wr op bs \<Longrightarrow> ok f \<Longrightarrow> \<exists>f'. op f = Inr f' \<and> ok f' \<and> wr f' = wr f @ bs"
  by (simp add: emits_def)

lemma consumesD:
  "consumes ok lf op bs v \<Longrightarrow> ok f \<Longrightarrow> lf f = bs @ xs \<Longrightarrow> \<exists>f'. op f = Inr (v, f') \<and> ok f' \<and> lf f' = xs"
  by (simp add: consumes_def)

lemma emits_bind:
  assumes "emits ok wr p a" and "emits ok wr q b"
  shows "emits ok wr (\<lambda>f. res_bind (p f) q) (a @ b)"
  unfolding emits_def
proof (intro allI impI)
  fix f assume "ok f"
  with assms(1) obtain f1 where f1: "p f = Inr f1" "ok f1" "wr f1 = wr f @ a"
    unfolding emits_def by blast
  with assms(2) obtain f2 where "q f1 = Inr f2" "ok f2" "wr f2 = wr f1 @ b"
    unfolding emits_def by blast
  with f1 show "\<exists>f'. res_bind (p f) q = Inr f' \<and> ok f' \<and> wr f' = wr f @ a @ b"
    by simp
qed

lemma emits_return: "emits ok wr Inr []"
  by (simp add: emits_def)

lemma consumes_bind:
  assumes "consumes ok lf p a x" and "consumes ok lf (q x) b y"
  shows "consumes ok lf (\<lambda>f. res_bind (p f) (\<lambda>(v, f'). q v f')) (a @ b) y"
  unfolding consumes_def
proof (intro allI impI)
  fix f xs assume "ok f" "lf f = (a @ b) @ xs"
  then obtain f1 where f1: "p f = Inr (x, f1)" "ok f1" "lf f1 = b @ xs"
    using assms(1) unfolding consumes_def by (metis append.assoc)
  with assms(2) obtain f2 where "q x f1 = Inr (y, f2)" "ok f2" "lf f2 = xs"
    unfolding consumes_def by blast
  with f1 show "\<exists>f'. res_bind (p f) (\<lambda>(v, f'). q v f') = Inr (y, f') \<and> ok f' \<and> lf f' = xs"
    by simp
qed

lemma consumes_return: "consumes ok lf (\<lambda>f. Inr (v, f)) [] v"
  by (simp add: consumes_def)

lemma consumes_else:
  "\<not> c \<Longrightarrow> consumes ok lf q bs v \<Longrightarrow> consumes ok lf (\<lambda>f. if c then p f else q f) bs v"
  by (simp add: consumes_def)

locale byte_sink =
  fixes put :: "'f \<Rightarrow> u8 \<Rightarrow> 'f res"
    and ok :: "'f \<Rightarrow> bool"
    and written :: "'f \<Rightarrow> u8 list"
  assumes put_emits: "emits ok written (\<lambda>f. put f v) [v]"
begin

primrec put_list :: "'f \<Rightarrow> u8 list \<Rightarrow> 'f res" where
  "put_list f [] = Inr f"
| "put_list f (b # bs) = res_bind (put f b) (\<lambda>f. put_list f bs)"

lemma put_list_emits: "emits ok written (\<lambda>f. put_list f bs) bs"
proof (induction bs)
  case Nil
  show ?case by (simp add: emits_def)
next
  case (Cons b bs)
  from emits_bind [OF put_emits Cons.IH] show ?case by simp
qed

end

locale byte_source =
  fixes get :: "'f \<Rightarrow> (u8 \<times> 'f) res"
    and ok :: "'f \<Rightarrow> bool"
    and left :: "'f \<Rightarrow> u8 list"
  assumes get_consumes: "consumes ok left get [v] v"
begin

primrec get_list :: "nat \<Rightarrow> 'f \<Rightarrow> (u8 list \<times> 'f) res" where
  "get_list 0 f = Inr ([], f)"
| "get_list (Suc n) f =
     res_bind (get f) (\<lambda>(b, f). res_bind (get_list n f) (\<lambda>(bs, f). Inr (b # bs, f)))"

lemma get_list_consumes: "consumes ok left (get_list (length bs)) bs bs"
proof (induction bs)
  case Nil
  show ?case by (simp add: consumes_def)
next
  case (Cons b bs)
  have "consumes ok left (\<lambda>f. res_bind (get_list (length bs) f) (\<lambda>(bs, f). Inr (b # bs, f)))
      (bs @ []) (b # bs)"
    by (rule consumes_bind [OF Cons.IH]) (rule consumes_return)
  from consumes_bind [OF get_consumes, of "\<lambda>b f. res_bind (get_list (length bs) f)
      (\<lambda>(bs, f). Inr (b # bs, f))", OF this]
  show ?case by simp
qed

end

end
