(* ===== verification/Port_Device.thy ===== *)
theory Port_Device
  imports Dm_Prelude
begin

text \<open>
  The interface between the I/O port dispatcher and a device: a read handler and a write handler
  over the device's state, as \<^verbatim>\<open>register_ioport_read\<close> and \<^verbatim>\<open>register_ioport_write\<close> take them.
  A device that promises to keep its invariant on each access keeps it on every sequence of
  guest accesses (\<open>port_device\<close>); one whose handlers never abort also survives every such
  sequence (\<open>total_port_device\<close>). Each device theory interprets one of the two locales on its
  own handlers.
\<close>

datatype port_op = In u32 | Out u32 u32

fun port_run ::
  "('s \<Rightarrow> u32 \<Rightarrow> u32 \<times> 's) \<Rightarrow> ('s \<Rightarrow> u32 \<Rightarrow> u32 \<Rightarrow> 's res) \<Rightarrow> 's \<Rightarrow> port_op list \<Rightarrow> (u32 list \<times> 's) res"
where
  "port_run rd wr s [] = Inr ([], s)"
| "port_run rd wr s (In a # ops) =
     (let (v, s1) = rd s a in res_bind (port_run rd wr s1 ops) (\<lambda>(vs, s2). Inr (v # vs, s2)))"
| "port_run rd wr s (Out a v # ops) = res_bind (wr s a v) (\<lambda>s1. port_run rd wr s1 ops)"

locale port_device =
  fixes inv :: "'s \<Rightarrow> bool"
    and rd :: "'s \<Rightarrow> u32 \<Rightarrow> u32 \<times> 's"
    and wr :: "'s \<Rightarrow> u32 \<Rightarrow> u32 \<Rightarrow> 's res"
  assumes rd_inv: "inv s \<Longrightarrow> inv (snd (rd s a))"
    and wr_inv: "inv s \<Longrightarrow> wr s a v = Inr s' \<Longrightarrow> inv s'"
begin

lemma run_inv: "inv s \<Longrightarrow> port_run rd wr s ops = Inr (vs, s') \<Longrightarrow> inv s'"
proof (induction ops arbitrary: s vs)
  case Nil
  then show ?case by simp
next
  case (Cons x ops)
  show ?case
  proof (cases x)
    case (In a)
    obtain v s1 where rd: "rd s a = (v, s1)" by fastforce
    with Cons.prems In obtain vs1 where "port_run rd wr s1 ops = Inr (vs1, s')"
      by (auto simp: res_bind_Inr_iff)
    with Cons.IH rd_inv [OF Cons.prems(1), of a] rd show ?thesis by auto
  next
    case (Out a v)
    with Cons.prems obtain s1 where "wr s a v = Inr s1" "port_run rd wr s1 ops = Inr (vs, s')"
      by (auto simp: res_bind_Inr_iff)
    with Cons.IH wr_inv [OF Cons.prems(1)] show ?thesis by blast
  qed
qed

end

locale total_port_device = port_device +
  assumes wr_total: "inv s \<Longrightarrow> \<exists>s'. wr s a v = Inr s'"
begin

lemma run_total: "inv s \<Longrightarrow> \<exists>vs s'. port_run rd wr s ops = Inr (vs, s') \<and> inv s'"
proof (induction ops arbitrary: s)
  case Nil
  then show ?case by simp
next
  case (Cons x ops)
  show ?case
  proof (cases x)
    case (In a)
    obtain v s1 where rd: "rd s a = (v, s1)" by fastforce
    with rd_inv [OF Cons.prems, of a] Cons.IH [of s1] In show ?thesis by auto
  next
    case (Out a v)
    from wr_total [OF Cons.prems] obtain s1 where "wr s a v = Inr s1" by blast
    with wr_inv [OF Cons.prems] Cons.IH [of s1] Out show ?thesis by auto
  qed
qed

end

end
