(* ===== verification/Qemu_File.thy ===== *)
theory Qemu_File
  imports Dm_Prelude
begin

text \<open>
  The buffered file of \<^verbatim>\<open>savevm.c\<close>, on its standard-I/O backend: every device snapshot goes
  through it. \<open>qf_file\<close> is the contents of the \<^verbatim>\<open>FILE\<close> behind \<^verbatim>\<open>opaque\<close>; \<open>qf_put_buffer\<close>
  and \<open>qf_get_buffer\<close> say whether the two function pointers are set (to \<^verbatim>\<open>file_put_buffer\<close> and
  \<^verbatim>\<open>file_get_buffer\<close>); the 32768-byte array \<^verbatim>\<open>buf\<close> is a function from indices. Offsets and
  indices are natural numbers: they are bounded by the buffer size or by the length of the file.
  The lemmas show that a writer appends exactly the bytes put to it, across every flush, that a
  reader delivers exactly the bytes of the file, across every refill, and that the big-endian
  encoders and decoders are inverse.
\<close>

section \<open>State and operations\<close>

definition IO_BUF_SIZE :: nat where
  "IO_BUF_SIZE = 32768"

record qemu_file =
  qf_put_buffer :: bool
  qf_get_buffer :: bool
  qf_file :: "u8 list"
  qf_is_write :: bool
  qf_buf_offset :: nat
  qf_buf_index :: nat
  qf_buf_size :: nat
  qf_buf :: "nat \<Rightarrow> u8"
  qf_has_error :: bool

definition qemu_fopen_ops :: "u8 list \<Rightarrow> bool \<Rightarrow> bool \<Rightarrow> qemu_file" where
  "qemu_fopen_ops file put get =
     \<lparr>qf_put_buffer = put, qf_get_buffer = get, qf_file = file, qf_is_write = False,
      qf_buf_offset = 0, qf_buf_index = 0, qf_buf_size = 0, qf_buf = (\<lambda>_. 0),
      qf_has_error = False\<rparr>"

text \<open>\<^verbatim>\<open>fopen\<close> with mode \<^verbatim>\<open>wb\<close> truncates the file, with \<^verbatim>\<open>rb\<close> keeps its contents; any other
  mode falls through to \<^verbatim>\<open>fail\<close>. \<open>None\<close> is the null result, \<open>openable\<close> the outcome of \<^verbatim>\<open>fopen\<close>.\<close>

definition qemu_fopen :: "bool \<Rightarrow> u8 list \<Rightarrow> string \<Rightarrow> qemu_file option" where
  "qemu_fopen openable file mode =
     (if \<not> openable then None
      else if mode = ''wb'' then Some (qemu_fopen_ops [] True False)
      else if mode = ''rb'' then Some (qemu_fopen_ops file False True)
      else None)"

text \<open>\<^verbatim>\<open>fseek\<close> then \<^verbatim>\<open>fwrite\<close>: a gap past the end of the file reads as zeros.\<close>

definition file_put_buffer :: "u8 list \<Rightarrow> u8 list \<Rightarrow> nat \<Rightarrow> u8 list \<times> int" where
  "file_put_buffer file data pos =
     (take pos (file @ replicate (pos - length file) 0) @ data @ drop (pos + length data) file,
      int (length data))"

definition file_get_buffer :: "u8 list \<Rightarrow> nat \<Rightarrow> nat \<Rightarrow> u8 list" where
  "file_get_buffer file pos sz = take sz (drop pos file)"

definition qemu_fflush :: "qemu_file \<Rightarrow> qemu_file" where
  "qemu_fflush f =
     (if \<not> qf_put_buffer f then f
      else if qf_is_write f \<and> qf_buf_index f > 0 then
        (let (file', len) = file_put_buffer (qf_file f) (map (qf_buf f) [0..<qf_buf_index f])
                              (qf_buf_offset f);
             f1 = f\<lparr>qf_file := file'\<rparr>;
             f2 = (if len > 0 then f1\<lparr>qf_buf_offset := qf_buf_offset f1 + qf_buf_index f1\<rparr>
                   else f1\<lparr>qf_has_error := True\<rparr>)
         in f2\<lparr>qf_buf_index := 0\<rparr>)
      else f)"

definition qemu_fill_buffer :: "qemu_file \<Rightarrow> qemu_file res" where
  "qemu_fill_buffer f =
     (if \<not> qf_get_buffer f then Inr f
      else if qf_is_write f then Inl Abort
      else
        (let data = file_get_buffer (qf_file f) (qf_buf_offset f) IO_BUF_SIZE; len = length data;
             f1 = f\<lparr>qf_buf := (\<lambda>i. if i < len then data ! i else qf_buf f i)\<rparr>
         in Inr (if len > 0
                 then f1\<lparr>qf_buf_index := 0, qf_buf_size := len,
                          qf_buf_offset := qf_buf_offset f1 + len\<rparr>
                 else f1\<lparr>qf_has_error := True\<rparr>)))"

text \<open>\<^verbatim>\<open>qemu_fclose\<close> flushes; the stdio \<^verbatim>\<open>close\<close> returns 0 and what remains is the file.\<close>

definition qemu_fclose :: "qemu_file \<Rightarrow> u8 list \<times> int" where
  "qemu_fclose f = (qf_file (qemu_fflush f), 0)"

definition put_refused :: "qemu_file \<Rightarrow> bool" where
  "put_refused f \<longleftrightarrow> \<not> qf_has_error f \<and> \<not> qf_is_write f \<and> qf_buf_index f > 0"

text \<open>
  The copy loop of \<^verbatim>\<open>qemu_put_buffer\<close>. When the buffer is full and nothing can flush it (no
  \<^verbatim>\<open>put_buffer\<close>), an iteration copies nothing and flushes nothing, and the loop never ends.
\<close>

definition put_chunk :: "qemu_file \<Rightarrow> u8 list \<Rightarrow> nat \<Rightarrow> qemu_file" where
  "put_chunk f data l =
     (let f1 = f\<lparr>qf_buf := (\<lambda>i. if qf_buf_index f \<le> i \<and> i < qf_buf_index f + l
                               then data ! (i - qf_buf_index f) else qf_buf f i),
                 qf_is_write := True, qf_buf_index := qf_buf_index f + l\<rparr>
      in if qf_buf_index f1 \<ge> IO_BUF_SIZE then qemu_fflush f1 else f1)"

lemma put_chunk_full_flushes:
  "qf_put_buffer f \<Longrightarrow> IO_BUF_SIZE \<le> qf_buf_index f \<Longrightarrow> qf_buf_index (put_chunk f data 0) = 0"
  by (simp add: put_chunk_def qemu_fflush_def file_put_buffer_def IO_BUF_SIZE_def Let_def)

lemma put_chunk_put_buffer [simp]: "qf_put_buffer (put_chunk f data l) = qf_put_buffer f"
  by (simp add: put_chunk_def qemu_fflush_def file_put_buffer_def Let_def)

function put_buffer_loop :: "qemu_file \<Rightarrow> u8 list \<Rightarrow> qemu_file res" where
  "put_buffer_loop f data =
     (if qf_has_error f \<or> data = [] then Inr f
      else
        (let l = min (IO_BUF_SIZE - qf_buf_index f) (length data)
         in if l = 0 \<and> \<not> qf_put_buffer f then Inl Loops
            else put_buffer_loop (put_chunk f data l) (drop l data)))"
  by pat_completeness auto
termination
proof (relation "measures [\<lambda>(f, data). length data,
                           \<lambda>(f, data). if qf_buf_index f < IO_BUF_SIZE then 0 else 1]", goal_cases)
  case 1
  show ?case by simp
next
  case (2 f data l)
  show ?case
  proof (cases "l = 0")
    case True
    with 2 have "IO_BUF_SIZE \<le> qf_buf_index f" and "qf_put_buffer f"
      by (auto simp: min_def split: if_splits)
    with True show ?thesis
      using put_chunk_full_flushes [of f data] by (auto simp: IO_BUF_SIZE_def)
  next
    case False
    with 2 show ?thesis by auto
  qed
qed

declare put_buffer_loop.simps [simp del]

definition qemu_put_buffer :: "qemu_file \<Rightarrow> u8 list \<Rightarrow> qemu_file res" where
  "qemu_put_buffer f data = (if put_refused f then Inl Abort else put_buffer_loop f data)"

definition qemu_put_byte :: "qemu_file \<Rightarrow> u8 \<Rightarrow> qemu_file res" where
  "qemu_put_byte f v =
     (if put_refused f then Inl Abort
      else
        (let f1 = f\<lparr>qf_buf := (qf_buf f)(qf_buf_index f := v), qf_buf_index := qf_buf_index f + 1,
                    qf_is_write := True\<rparr>
         in Inr (if qf_buf_index f1 \<ge> IO_BUF_SIZE then qemu_fflush f1 else f1)))"

text \<open>The copy loop of \<^verbatim>\<open>qemu_get_buffer\<close>; the result is the bytes copied to the caller.\<close>

function get_buffer_loop :: "qemu_file \<Rightarrow> nat \<Rightarrow> u8 list \<Rightarrow> (u8 list \<times> qemu_file) res" where
  "get_buffer_loop f sz acc =
     (if sz = 0 then Inr (acc, f)
      else
        res_bind (if qf_buf_size f - qf_buf_index f = 0 then qemu_fill_buffer f else Inr f)
          (\<lambda>f1. let l = min (qf_buf_size f1 - qf_buf_index f1) sz
                in if l = 0 then Inr (acc, f1)
                   else get_buffer_loop (f1\<lparr>qf_buf_index := qf_buf_index f1 + l\<rparr>) (sz - l)
                          (acc @ map (qf_buf f1) [qf_buf_index f1..<qf_buf_index f1 + l])))"
  by pat_completeness auto
termination
  by (relation "measure (\<lambda>(f, sz, acc). sz)") auto

declare get_buffer_loop.simps [simp del]

definition qemu_get_buffer :: "qemu_file \<Rightarrow> nat \<Rightarrow> (u8 list \<times> qemu_file) res" where
  "qemu_get_buffer f sz = (if qf_is_write f then Inl Abort else get_buffer_loop f sz [])"

definition qemu_get_byte :: "qemu_file \<Rightarrow> (u8 \<times> qemu_file) res" where
  "qemu_get_byte f =
     (if qf_is_write f then Inl Abort
      else
        res_bind (if qf_buf_index f \<ge> qf_buf_size f then qemu_fill_buffer f else Inr f)
          (\<lambda>f1. if qf_buf_index f1 \<ge> qf_buf_size f1 then Inr (0, f1)
                else Inr (qf_buf f1 (qf_buf_index f1), f1\<lparr>qf_buf_index := qf_buf_index f1 + 1\<rparr>)))"

definition qemu_ftell :: "qemu_file \<Rightarrow> int" where
  "qemu_ftell f = int (qf_buf_offset f) - int (qf_buf_size f) + int (qf_buf_index f)"

datatype whence = SEEK_SET | SEEK_CUR | SEEK_END

text \<open>A negative target would be stored in \<^verbatim>\<open>buf_offset\<close> and make the next \<^verbatim>\<open>fseek\<close> fail; no
  caller of the program seeks there, and the model is stated for targets from 0 on.\<close>

definition qemu_fseek :: "qemu_file \<Rightarrow> int \<Rightarrow> whence \<Rightarrow> int \<times> qemu_file" where
  "qemu_fseek f pos wh =
     (if wh = SEEK_END then (-1, f)
      else
        (let pos1 = (if wh = SEEK_CUR then pos + qemu_ftell f else pos)
         in if qf_put_buffer f then (pos1, (qemu_fflush f)\<lparr>qf_buf_offset := nat pos1\<rparr>)
            else (pos1, f\<lparr>qf_buf_offset := nat pos1, qf_buf_index := 0, qf_buf_size := 0\<rparr>)))"

definition qemu_put_8s :: "u8 \<Rightarrow> qemu_file \<Rightarrow> qemu_file res" where
  "qemu_put_8s v f = qemu_put_byte f v"

definition qemu_put_be16 :: "u16 \<Rightarrow> qemu_file \<Rightarrow> qemu_file res" where
  "qemu_put_be16 v f =
     res_bind (qemu_put_byte f (ucast (drop_bit 8 v))) (\<lambda>f. qemu_put_byte f (ucast v))"

definition qemu_put_be32 :: "u32 \<Rightarrow> qemu_file \<Rightarrow> qemu_file res" where
  "qemu_put_be32 v f =
     res_bind (qemu_put_byte f (ucast (drop_bit 24 v))) (\<lambda>f.
     res_bind (qemu_put_byte f (ucast (drop_bit 16 v))) (\<lambda>f.
     res_bind (qemu_put_byte f (ucast (drop_bit 8 v))) (\<lambda>f.
     qemu_put_byte f (ucast v))))"

definition qemu_put_be64 :: "u64 \<Rightarrow> qemu_file \<Rightarrow> qemu_file res" where
  "qemu_put_be64 v f =
     res_bind (qemu_put_be32 (ucast (drop_bit 32 v)) f) (\<lambda>f. qemu_put_be32 (ucast v) f)"

definition qemu_get_be16 :: "qemu_file \<Rightarrow> (u16 \<times> qemu_file) res" where
  "qemu_get_be16 f =
     res_bind (qemu_get_byte f) (\<lambda>(b1, f).
     res_bind (qemu_get_byte f) (\<lambda>(b0, f).
     Inr (push_bit 8 (ucast b1) OR ucast b0, f)))"

definition qemu_get_be32 :: "qemu_file \<Rightarrow> (u32 \<times> qemu_file) res" where
  "qemu_get_be32 f =
     res_bind (qemu_get_byte f) (\<lambda>(b3, f).
     res_bind (qemu_get_byte f) (\<lambda>(b2, f).
     res_bind (qemu_get_byte f) (\<lambda>(b1, f).
     res_bind (qemu_get_byte f) (\<lambda>(b0, f).
     Inr (push_bit 24 (ucast b3) OR push_bit 16 (ucast b2) OR push_bit 8 (ucast b1) OR ucast b0, f)))))"

definition qemu_get_be64 :: "qemu_file \<Rightarrow> (u64 \<times> qemu_file) res" where
  "qemu_get_be64 f =
     res_bind (qemu_get_be32 f) (\<lambda>(hi, f).
     res_bind (qemu_get_be32 f) (\<lambda>(lo, f).
     Inr (push_bit 32 (ucast hi) OR ucast lo, f)))"

section \<open>The writer appends\<close>

definition qf_writer :: "qemu_file \<Rightarrow> bool" where
  "qf_writer f \<longleftrightarrow> qf_put_buffer f \<and> \<not> qf_has_error f \<and> (qf_is_write f \<or> qf_buf_index f = 0)
     \<and> qf_buf_index f < IO_BUF_SIZE \<and> qf_buf_offset f = length (qf_file f)"

definition qf_written :: "qemu_file \<Rightarrow> u8 list" where
  "qf_written f = qf_file f @ map (qf_buf f) [0..<qf_buf_index f]"

lemma writer_not_refused: "qf_writer f \<Longrightarrow> \<not> put_refused f"
  by (auto simp: qf_writer_def put_refused_def)

lemma flush_full:
  assumes "qf_put_buffer f" "qf_is_write f" "0 < qf_buf_index f" "qf_buf_offset f = length (qf_file f)"
    "\<not> qf_has_error f"
  shows "qf_writer (qemu_fflush f) \<and> qf_written (qemu_fflush f) = qf_written f"
  using assms
  by (simp add: qemu_fflush_def file_put_buffer_def qf_writer_def qf_written_def IO_BUF_SIZE_def Let_def)

lemma flush_writer:
  assumes "qf_writer f"
  shows "qf_writer (qemu_fflush f) \<and> qf_written (qemu_fflush f) = qf_written f
    \<and> qf_file (qemu_fflush f) = qf_written f"
  using assms
  by (cases "qf_buf_index f = 0")
    (auto simp: qemu_fflush_def file_put_buffer_def qf_writer_def qf_written_def IO_BUF_SIZE_def Let_def)

lemma put_byte_emits: "emits qf_writer qf_written (\<lambda>f. qemu_put_byte f v) [v]"
  unfolding emits_def
proof (intro allI impI)
  fix f assume w: "qf_writer f"
  let ?f1 = "f\<lparr>qf_buf := (qf_buf f)(qf_buf_index f := v), qf_buf_index := qf_buf_index f + 1,
              qf_is_write := True\<rparr>"
  have wr: "qf_written ?f1 = qf_written f @ [v]"
    by (simp add: qf_written_def)
  have full: "qf_writer (qemu_fflush ?f1) \<and> qf_written (qemu_fflush ?f1) = qf_written ?f1"
    using w by (intro flush_full) (auto simp: qf_writer_def)
  have part: "\<not> IO_BUF_SIZE \<le> qf_buf_index ?f1 \<Longrightarrow> qf_writer ?f1"
    using w by (auto simp: qf_writer_def)
  show "\<exists>f'. qemu_put_byte f v = Inr f' \<and> qf_writer f' \<and> qf_written f' = qf_written f @ [v]"
    using full part wr writer_not_refused [OF w] by (auto simp: qemu_put_byte_def Let_def)
qed

interpretation qsink: byte_sink qemu_put_byte qf_writer qf_written
  by unfold_locales (rule put_byte_emits)

lemma put_chunk_writer:
  assumes "qf_writer f" "0 < l" "l \<le> length data" "qf_buf_index f + l \<le> IO_BUF_SIZE"
  shows "qf_writer (put_chunk f data l) \<and> qf_written (put_chunk f data l) = qf_written f @ take l data"
proof -
  let ?i = "qf_buf_index f"
  let ?f1 = "f\<lparr>qf_buf := (\<lambda>k. if ?i \<le> k \<and> k < ?i + l then data ! (k - ?i) else qf_buf f k),
              qf_is_write := True, qf_buf_index := ?i + l\<rparr>"
  have "map (qf_buf ?f1) [?i..<?i + l] = take l data"
    using assms(3) by (intro nth_equalityI) auto
  moreover have "map (qf_buf ?f1) [0..<?i] = map (qf_buf f) [0..<?i]"
    by auto
  ultimately have wr: "qf_written ?f1 = qf_written f @ take l data"
    unfolding qf_written_def by (simp add: upt_add_eq_append [of 0 "?i" l])
  have "qf_writer (qemu_fflush ?f1) \<and> qf_written (qemu_fflush ?f1) = qf_written ?f1"
    using assms by (intro flush_full) (auto simp: qf_writer_def)
  then show ?thesis
    using assms wr by (auto simp: put_chunk_def Let_def qf_writer_def)
qed

lemma put_buffer_loop_writer:
  "qf_writer f \<Longrightarrow>
     \<exists>f'. put_buffer_loop f data = Inr f' \<and> qf_writer f' \<and> qf_written f' = qf_written f @ data"
proof (induction f data rule: put_buffer_loop.induct)
  case (1 f data)
  show ?case
  proof (cases "data = []")
    case True
    with "1.prems" show ?thesis by (simp add: put_buffer_loop.simps)
  next
    case False
    let ?l = "min (IO_BUF_SIZE - qf_buf_index f) (length data)"
    from False "1.prems" have l: "0 < ?l" "?l \<le> length data" "qf_buf_index f + ?l \<le> IO_BUF_SIZE"
      and ne: "\<not> qf_has_error f"
      by (auto simp: qf_writer_def)
    note chunk = put_chunk_writer [OF "1.prems" l]
    from "1.IH" [OF _ refl] False ne l chunk obtain f' where
      "put_buffer_loop (put_chunk f data ?l) (drop ?l data) = Inr f'" "qf_writer f'"
      "qf_written f' = qf_written (put_chunk f data ?l) @ drop ?l data"
      by (auto simp: Let_def)
    moreover have "qf_written (put_chunk f data ?l) @ drop ?l data = qf_written f @ data"
      using chunk by (metis append.assoc append_take_drop_id)
    ultimately show ?thesis
      using False ne l by (auto simp: put_buffer_loop.simps [of f data] Let_def)
  qed
qed

lemma put_buffer_emits: "emits qf_writer qf_written (\<lambda>f. qemu_put_buffer f data) data"
  using put_buffer_loop_writer by (auto simp: emits_def qemu_put_buffer_def writer_not_refused)

lemma put_8s_emits: "emits qf_writer qf_written (qemu_put_8s v) [v]"
  using put_byte_emits [of v] by (simp add: emits_def qemu_put_8s_def)

lemma put_be16_emits: "emits qf_writer qf_written (qemu_put_be16 v) (be16_bytes v)"
proof -
  have "emits qf_writer qf_written (qemu_put_be16 v) ([ucast (drop_bit 8 v)] @ [ucast v])"
    unfolding qemu_put_be16_def by (intro emits_bind qsink.put_emits)
  then show ?thesis by (simp add: be16_bytes_def)
qed

lemma put_be32_emits: "emits qf_writer qf_written (qemu_put_be32 v) (be32_bytes v)"
proof -
  have "emits qf_writer qf_written (qemu_put_be32 v)
     ([ucast (drop_bit 24 v)] @ [ucast (drop_bit 16 v)] @ [ucast (drop_bit 8 v)] @ [ucast v])"
    unfolding qemu_put_be32_def by (intro emits_bind qsink.put_emits)
  then show ?thesis by (simp add: be32_bytes_def)
qed

lemma put_be64_emits: "emits qf_writer qf_written (qemu_put_be64 v) (be64_bytes v)"
  unfolding qemu_put_be64_def be64_bytes_def by (intro emits_bind put_be32_emits)

section \<open>The reader delivers\<close>

definition qf_source :: "qemu_file \<Rightarrow> bool" where
  "qf_source f \<longleftrightarrow> qf_get_buffer f \<and> \<not> qf_is_write f \<and> qf_buf_index f \<le> qf_buf_size f"

text \<open>A source that has not met the end of its file.\<close>

definition qf_reader :: "qemu_file \<Rightarrow> bool" where
  "qf_reader f \<longleftrightarrow> qf_source f \<and> \<not> qf_has_error f"

definition qf_left :: "qemu_file \<Rightarrow> u8 list" where
  "qf_left f = map (qf_buf f) [qf_buf_index f..<qf_buf_size f] @ drop (qf_buf_offset f) (qf_file f)"

lemma fill_reader:
  assumes "qf_source f" "qf_buf_index f = qf_buf_size f"
  shows "\<exists>f1. qemu_fill_buffer f = Inr f1 \<and> qf_source f1 \<and> qf_left f1 = qf_left f
    \<and> (qf_buf_index f1 < qf_buf_size f1 \<longleftrightarrow> qf_left f \<noteq> [])
    \<and> (qf_left f \<noteq> [] \<longrightarrow> qf_has_error f1 = qf_has_error f) \<and> (qf_left f = [] \<longrightarrow> qf_has_error f1)"
proof -
  let ?d = "take IO_BUF_SIZE (drop (qf_buf_offset f) (qf_file f))"
  have left: "qf_left f = drop (qf_buf_offset f) (qf_file f)"
    using assms by (simp add: qf_left_def)
  show ?thesis
  proof (cases "?d = []")
    case True
    with assms left show ?thesis
      by (auto simp: qemu_fill_buffer_def file_get_buffer_def qf_source_def IO_BUF_SIZE_def Let_def
          qf_left_def)
  next
    case False
    let ?f1 = "f\<lparr>qf_buf := (\<lambda>i. if i < length ?d then ?d ! i else qf_buf f i), qf_buf_index := 0,
                qf_buf_size := length ?d, qf_buf_offset := qf_buf_offset f + length ?d\<rparr>"
    have "map (\<lambda>i. if i < length ?d then ?d ! i else qf_buf f i) [0..<length ?d] = ?d"
      by (rule nth_equalityI) (auto simp del: length_take length_drop)
    then have "qf_left ?f1 = ?d @ drop (qf_buf_offset f + length ?d) (qf_file f)"
      by (simp add: qf_left_def del: length_take length_drop)
    also have "\<dots> = qf_left f"
      unfolding left
      by (simp add: min_def IO_BUF_SIZE_def)
        (metis (no_types) add.commute append_take_drop_id drop_drop)
    finally have "qf_left ?f1 = qf_left f" .
    moreover have "qemu_fill_buffer f = Inr ?f1"
      using False assms by (auto simp: qemu_fill_buffer_def file_get_buffer_def qf_source_def Let_def)
    moreover have "qf_source ?f1" "qf_buf_index ?f1 < qf_buf_size ?f1" "qf_left f \<noteq> []"
      using False assms left by (auto simp: qf_source_def)
    ultimately show ?thesis by (intro exI [of _ ?f1]) simp
  qed
qed

lemma refill:
  assumes "qf_source f"
  shows "\<exists>f1. (if qf_buf_index f \<ge> qf_buf_size f then qemu_fill_buffer f else Inr f) = Inr f1
    \<and> qf_source f1 \<and> qf_left f1 = qf_left f
    \<and> (qf_buf_index f1 < qf_buf_size f1 \<longleftrightarrow> qf_left f \<noteq> [])
    \<and> (qf_left f \<noteq> [] \<longrightarrow> qf_has_error f1 = qf_has_error f) \<and> (qf_left f = [] \<longrightarrow> qf_has_error f1)"
proof (cases "qf_buf_index f \<ge> qf_buf_size f")
  case True
  with assms have "qf_buf_index f = qf_buf_size f" by (simp add: qf_source_def)
  with fill_reader [OF assms] True show ?thesis by simp
next
  case False
  with assms show ?thesis by (auto simp: qf_left_def)
qed

lemma left_take:
  assumes "l \<le> qf_buf_size f - qf_buf_index f" "qf_buf_index f \<le> qf_buf_size f"
  shows "qf_left f = map (qf_buf f) [qf_buf_index f..<qf_buf_index f + l]
    @ qf_left (f\<lparr>qf_buf_index := qf_buf_index f + l\<rparr>)"
proof -
  have "[qf_buf_index f..<qf_buf_size f] =
      [qf_buf_index f..<qf_buf_index f + l] @ [qf_buf_index f + l..<qf_buf_size f]"
    using assms upt_add_eq_append [of "qf_buf_index f" "qf_buf_index f + l"
        "qf_buf_size f - (qf_buf_index f + l)"] by simp
  then show ?thesis by (simp add: qf_left_def)
qed

lemma get_byte_consumes: "consumes qf_reader qf_left qemu_get_byte [v] v"
  unfolding consumes_def
proof (intro allI impI)
  fix f xs assume r: "qf_reader f" and l: "qf_left f = [v] @ xs"
  from r have s: "qf_source f" "\<not> qf_has_error f" by (simp_all add: qf_reader_def)
  from refill [OF s(1)] l obtain f1 where f1:
    "(if qf_buf_index f \<ge> qf_buf_size f then qemu_fill_buffer f else Inr f) = Inr f1"
    "qf_source f1" "qf_left f1 = qf_left f" "qf_buf_index f1 < qf_buf_size f1" "qf_has_error f1 = qf_has_error f"
    by auto
  have "qf_left f1 = map (qf_buf f1) [qf_buf_index f1..<qf_buf_index f1 + 1]
      @ qf_left (f1\<lparr>qf_buf_index := qf_buf_index f1 + 1\<rparr>)"
    using f1 by (intro left_take) auto
  then show "\<exists>f'. qemu_get_byte f = Inr (v, f') \<and> qf_reader f' \<and> qf_left f' = xs"
    using f1 l s by (auto simp: qemu_get_byte_def qf_reader_def qf_source_def)
qed

interpretation qsrc: byte_source qemu_get_byte qf_reader qf_left
  by unfold_locales (rule get_byte_consumes)

lemma get_byte_eof:
  assumes "qf_source f" "qf_left f = []"
  shows "\<exists>f'. qemu_get_byte f = Inr (0, f') \<and> qf_has_error f' \<and> qf_source f'"
proof -
  from refill [OF assms(1)] assms(2) obtain f1 where
    "(if qf_buf_index f \<ge> qf_buf_size f then qemu_fill_buffer f else Inr f) = Inr f1"
    "qf_source f1" "\<not> qf_buf_index f1 < qf_buf_size f1" "qf_has_error f1"
    by auto
  then show ?thesis
    using assms(1) by (auto simp: qemu_get_byte_def qf_source_def)
qed

lemma get_buffer_loop_reader:
  "qf_source f \<Longrightarrow> \<exists>f'. get_buffer_loop f sz acc = Inr (acc @ take sz (qf_left f), f')
     \<and> qf_source f' \<and> qf_left f' = drop sz (qf_left f)
     \<and> (sz \<le> length (qf_left f) \<longrightarrow> qf_has_error f' = qf_has_error f)"
proof (induction f sz acc rule: get_buffer_loop.induct)
  case (1 f sz acc)
  show ?case
  proof (cases "sz = 0")
    case True
    with "1.prems" show ?thesis by (simp add: get_buffer_loop.simps)
  next
    case False
    from refill [OF "1.prems"] obtain f1 where f1:
      "(if qf_buf_size f - qf_buf_index f = 0 then qemu_fill_buffer f else Inr f) = Inr f1"
      "qf_source f1" "qf_left f1 = qf_left f" "qf_buf_index f1 < qf_buf_size f1 \<longleftrightarrow> qf_left f \<noteq> []"
      "qf_left f \<noteq> [] \<longrightarrow> qf_has_error f1 = qf_has_error f"
      by auto
    let ?l = "min (qf_buf_size f1 - qf_buf_index f1) sz"
    let ?f2 = "f1\<lparr>qf_buf_index := qf_buf_index f1 + ?l\<rparr>"
    show ?thesis
    proof (cases "?l = 0")
      case True
      with f1 False have "qf_left f = []" by (auto simp: min_def split: if_splits)
      with True f1 False show ?thesis
        by (auto simp: get_buffer_loop.simps [of f] Let_def)
    next
      case l: False
      let ?c = "map (qf_buf f1) [qf_buf_index f1..<qf_buf_index f1 + ?l]"
      have split: "qf_left f = ?c @ qf_left ?f2"
        using left_take [of ?l f1] f1 by (simp add: qf_source_def)
      have "qf_source ?f2" using f1 by (auto simp: qf_source_def)
      with "1.IH" [OF False refl l] obtain f' where
        "get_buffer_loop ?f2 (sz - ?l) (acc @ ?c) = Inr ((acc @ ?c) @ take (sz - ?l) (qf_left ?f2), f')"
        "qf_source f'" "qf_left f' = drop (sz - ?l) (qf_left ?f2)"
        "sz - ?l \<le> length (qf_left ?f2) \<longrightarrow> qf_has_error f' = qf_has_error ?f2"
        by blast
      moreover have "take sz (qf_left f) = ?c @ take (sz - ?l) (qf_left ?f2)"
        "drop sz (qf_left f) = drop (sz - ?l) (qf_left ?f2)"
        using split by auto
      moreover have "get_buffer_loop f sz acc = get_buffer_loop ?f2 (sz - ?l) (acc @ ?c)"
        by (subst get_buffer_loop.simps) (simp only: False f1(1) l if_False res_bind.simps Let_def)
      moreover have "qf_has_error ?f2 = qf_has_error f" "sz \<le> length (qf_left f) \<longrightarrow> sz - ?l \<le> length (qf_left ?f2)"
        using f1 l split by auto
      ultimately show ?thesis by simp
    qed
  qed
qed

lemma get_buffer_consumes:
  "consumes qf_reader qf_left (\<lambda>f. qemu_get_buffer f (length bs)) bs bs"
  unfolding consumes_def
proof (intro allI impI)
  fix f xs assume "qf_reader f" "qf_left f = bs @ xs"
  with get_buffer_loop_reader [of f "length bs" "[]"]
  show "\<exists>f'. qemu_get_buffer f (length bs) = Inr (bs, f') \<and> qf_reader f' \<and> qf_left f' = xs"
    by (auto simp: qemu_get_buffer_def qf_reader_def qf_source_def)
qed

lemma get_be16_consumes: "consumes qf_reader qf_left qemu_get_be16 (be16_bytes v) v"
proof -
  let ?h = "ucast (drop_bit 8 v) :: u8" and ?l = "ucast v :: u8"
  have "consumes qf_reader qf_left qemu_get_be16 ([?h] @ [?l] @ []) (push_bit 8 (ucast ?h) OR ucast ?l)"
    unfolding qemu_get_be16_def
    by (rule consumes_bind qsrc.get_consumes consumes_return)+
  then show ?thesis by (simp add: be16_bytes_def byte_facts)
qed

lemma get_be32_consumes: "consumes qf_reader qf_left qemu_get_be32 (be32_bytes v) v"
proof -
  let ?b3 = "ucast (drop_bit 24 v) :: u8" and ?b2 = "ucast (drop_bit 16 v) :: u8"
    and ?b1 = "ucast (drop_bit 8 v) :: u8" and ?b0 = "ucast v :: u8"
  have "consumes qf_reader qf_left qemu_get_be32 ([?b3] @ [?b2] @ [?b1] @ [?b0] @ [])
      (push_bit 24 (ucast ?b3) OR push_bit 16 (ucast ?b2) OR push_bit 8 (ucast ?b1) OR ucast ?b0)"
    unfolding qemu_get_be32_def
    by (rule consumes_bind qsrc.get_consumes consumes_return)+
  then show ?thesis by (simp only: be32_bytes_def byte_facts append.simps)
qed

lemma get_be64_consumes: "consumes qf_reader qf_left qemu_get_be64 (be64_bytes v) v"
proof -
  let ?h = "ucast (drop_bit 32 v) :: u32" and ?l = "ucast v :: u32"
  have "consumes qf_reader qf_left qemu_get_be64 (be32_bytes ?h @ be32_bytes ?l @ [])
      (push_bit 32 (ucast ?h) OR ucast ?l)"
    unfolding qemu_get_be64_def
    by (rule consumes_bind get_be32_consumes consumes_return)+
  then show ?thesis by (simp only: be64_bytes_def byte_facts append_Nil2)
qed

lemmas qemu_put_emits =
  put_byte_emits put_8s_emits put_buffer_emits put_be16_emits put_be32_emits put_be64_emits

lemmas qemu_get_consumes =
  get_byte_consumes get_buffer_consumes get_be16_consumes get_be32_consumes get_be64_consumes

text \<open>Signed values of a C type travel as the word of the same width.\<close>

definition fits :: "nat \<Rightarrow> int \<Rightarrow> bool" where
  "fits n x \<longleftrightarrow> - (2 ^ n) \<le> x \<and> x < 2 ^ n"

lemma sint_fits:
  "fits 31 x \<Longrightarrow> sint (word_of_int x :: u32) = x" "fits 63 x \<Longrightarrow> sint (word_of_int x :: u64) = x"
  by (simp_all add: fits_def signed_of_int signed_take_bit_int_eq_self)

definition int_bytes :: "int \<Rightarrow> u8 list" where
  "int_bytes x = be32_bytes (word_of_int x)"

definition int64_bytes :: "int \<Rightarrow> u8 list" where
  "int64_bytes x = be64_bytes (word_of_int x)"

section \<open>A whole file\<close>

lemma open_wb_writer:
  "qemu_fopen True file ''wb'' = Some f \<Longrightarrow> qf_writer f \<and> qf_written f = []"
  by (auto simp: qemu_fopen_def qemu_fopen_ops_def qf_writer_def qf_written_def IO_BUF_SIZE_def)

lemma open_rb_reader:
  "qemu_fopen True file ''rb'' = Some f \<Longrightarrow> qf_reader f \<and> qf_left f = file"
  by (auto simp: qemu_fopen_def qemu_fopen_ops_def qf_reader_def qf_source_def qf_left_def)

lemma fclose_file: "qf_writer f \<Longrightarrow> qemu_fclose f = (qf_written f, 0)"
  by (simp add: qemu_fclose_def flush_writer)

lemma save_then_load:
  assumes "emits qf_writer qf_written sv bs" and "consumes qf_reader qf_left ld bs v"
    and "qemu_fopen True old ''wb'' = Some f"
  shows "\<exists>f1 g g1. sv f = Inr f1 \<and> qemu_fopen True (fst (qemu_fclose f1)) ''rb'' = Some g
    \<and> ld g = Inr (v, g1)"
proof -
  from open_wb_writer [OF assms(3)] assms(1) obtain f1 where
    f1: "sv f = Inr f1" "qf_writer f1" "qf_written f1 = bs"
    unfolding emits_def by fastforce
  obtain g where g: "qemu_fopen True bs ''rb'' = Some g"
    by (simp add: qemu_fopen_def)
  with open_rb_reader [OF g] assms(2) obtain g1 where "ld g = Inr (v, g1)"
    unfolding consumes_def by (metis append_Nil2)
  with f1 g fclose_file [OF f1(2)] show ?thesis by auto
qed

text \<open>
  What \<^verbatim>\<open>register_savevm\<close> expects of a device: \<open>save\<close> emits some bytes, and \<open>load\<close> at the
  current version takes exactly these bytes and rebuilds the saved fields inside the state it is
  given (\<open>restore target saved\<close> keeps the fields of the target that are not saved).
\<close>

locale snapshot_device =
  fixes save :: "'s \<Rightarrow> qemu_file \<Rightarrow> qemu_file res"
    and load :: "'s \<Rightarrow> int \<Rightarrow> qemu_file \<Rightarrow> ((int \<times> 's) \<times> qemu_file) res"
    and version :: int
    and bytes :: "'s \<Rightarrow> u8 list"
    and restore :: "'s \<Rightarrow> 's \<Rightarrow> 's"
  assumes save_emits: "emits qf_writer qf_written (save s) (bytes s)"
    and load_consumes: "consumes qf_reader qf_left (load t version) (bytes s) (0, restore t s)"
begin

lemma file_roundtrip:
  assumes "qemu_fopen True old ''wb'' = Some f"
  shows "\<exists>f1 g g1. save s f = Inr f1 \<and> qemu_fopen True (fst (qemu_fclose f1)) ''rb'' = Some g
    \<and> load t version g = Inr ((0, restore t s), g1)"
  by (rule save_then_load [OF save_emits load_consumes assms])

lemma stream_pair:
  "emits qf_writer qf_written (\<lambda>f. res_bind (save s f) (save s')) (bytes s @ bytes s')"
  by (rule emits_bind [OF save_emits save_emits])

end

end
