(* ===== verification/I8259.thy ===== *)
theory I8259
  imports Port_Device Qemu_File "HOL-Library.While_Combinator"
begin

text \<open>
  The pair of 8259 interrupt controllers of \<^verbatim>\<open>hw/i8259.c\<close> (master and slave, cascaded on IRQ 2),
  for the i386 target (the \<^verbatim>\<open>TARGET_MIPS\<close>/\<^verbatim>\<open>TARGET_PPC\<close> lowering of the parent line is not
  compiled there). The back pointer \<^verbatim>\<open>pics_state\<close> and the test
  \<^verbatim>\<open>s == &s->pics_state->pics[0]\<close> become a selector: an operation on one chip takes the pair and
  which chip it works on. Calls out of the chip (the parent line, the IOAPIC callback
  \<^verbatim>\<open>alt_irq_func\<close>) are recorded in order in \<open>pic_events\<close>. A result of \<^verbatim>\<open>-1\<close> is \<open>None\<close>.
\<close>

section \<open>State\<close>

record pic_state =
  last_irr :: u8
  irr :: u8
  imr :: u8
  isr :: u8
  priority_add :: u8
  irq_base :: u8
  read_reg_select :: u8
  poll :: u8
  special_mask :: u8
  init_state :: u8
  auto_eoi :: u8
  rotate_on_auto_eoi :: u8
  special_fully_nested_mode :: u8
  init4 :: u8
  single_mode :: u8
  elcr :: u8
  elcr_mask :: u8

datatype pic_sel = Master | Slave

datatype pic_event = Parent_irq int | Alt_irq nat int

record pic_state2 =
  pics :: "pic_sel \<Rightarrow> pic_state"
  alt_irq_func :: bool
  pic_events :: "pic_event list"

definition upd_pic :: "pic_sel \<Rightarrow> (pic_state \<Rightarrow> pic_state) \<Rightarrow> pic_state2 \<Rightarrow> pic_state2" where
  "upd_pic w g s = s\<lparr>pics := (pics s)(w := g (pics s w))\<rparr>"

definition emit_pic :: "pic_event \<Rightarrow> pic_state2 \<Rightarrow> pic_state2" where
  "emit_pic e s = s\<lparr>pic_events := pic_events s @ [e]\<rparr>"

section \<open>Operations\<close>

definition pic_set_irq1 :: "nat \<Rightarrow> int \<Rightarrow> pic_state \<Rightarrow> pic_state" where
  "pic_set_irq1 irq level s =
     (let m = push_bit irq 1 in
      if elcr s AND m \<noteq> 0 then
        (if level \<noteq> 0 then s\<lparr>irr := irr s OR m, last_irr := last_irr s OR m\<rparr>
         else s\<lparr>irr := irr s AND NOT m, last_irr := last_irr s AND NOT m\<rparr>)
      else if level \<noteq> 0 then
        (let s1 = (if last_irr s AND m = 0 then s\<lparr>irr := irr s OR m\<rparr> else s)
         in s1\<lparr>last_irr := last_irr s1 OR m\<rparr>)
      else s\<lparr>last_irr := last_irr s AND NOT m\<rparr>)"

definition get_priority :: "pic_state \<Rightarrow> u8 \<Rightarrow> nat" where
  "get_priority s m =
     (if m = 0 then 8
      else while (\<lambda>priority. m AND push_bit ((priority + unat (priority_add s)) mod 8) 1 = 0) Suc 0)"

definition pic_get_irq :: "pic_state2 \<Rightarrow> pic_sel \<Rightarrow> nat option" where
  "pic_get_irq s2 w =
     (let s = pics s2 w;
          priority = get_priority s (irr s AND NOT (imr s))
      in if priority = 8 then None
         else
           (let mask1 = isr s;
                mask2 = (if special_mask s \<noteq> 0 then mask1 AND NOT (imr s) else mask1);
                mask3 = (if special_fully_nested_mode s \<noteq> 0 \<and> w = Master
                         then mask2 AND NOT (push_bit 2 1) else mask2);
                cur_priority = get_priority s mask3
            in if priority < cur_priority then Some ((priority + unat (priority_add s)) mod 8)
               else None))"

definition pic_update_irq :: "pic_state2 \<Rightarrow> pic_state2" where
  "pic_update_irq s =
     (let s1 = (case pic_get_irq s Slave of
                  None \<Rightarrow> s
                | Some _ \<Rightarrow> upd_pic Master (\<lambda>p. pic_set_irq1 2 0 (pic_set_irq1 2 1 p)) s)
      in case pic_get_irq s1 Master of
           None \<Rightarrow> s1
         | Some _ \<Rightarrow> emit_pic (Parent_irq 1) s1)"

text \<open>The input lines 0 to 15: \<^verbatim>\<open>irq >> 3\<close> selects the chip.\<close>

definition i8259_set_irq :: "nat \<Rightarrow> int \<Rightarrow> pic_state2 \<Rightarrow> pic_state2" where
  "i8259_set_irq irq level s =
     (let s1 = upd_pic (if irq div 8 = 0 then Master else Slave) (pic_set_irq1 (irq mod 8) level) s;
          s2 = (if alt_irq_func s1 then emit_pic (Alt_irq irq level) s1 else s1)
      in pic_update_irq s2)"

definition pic_intack :: "nat \<Rightarrow> pic_state \<Rightarrow> pic_state" where
  "pic_intack irq s =
     (let s1 = (if auto_eoi s \<noteq> 0 then
                  (if rotate_on_auto_eoi s \<noteq> 0
                   then s\<lparr>priority_add := of_nat ((irq + 1) mod 8)\<rparr> else s)
                else s\<lparr>isr := isr s OR push_bit irq 1\<rparr>)
      in if elcr s1 AND push_bit irq 1 = 0 then s1\<lparr>irr := irr s1 AND NOT (push_bit irq 1)\<rparr> else s1)"

definition pic_read_irq :: "pic_state2 \<Rightarrow> nat \<times> pic_state2" where
  "pic_read_irq s =
     (case pic_get_irq s Master of
        Some irq \<Rightarrow>
          (let s1 = upd_pic Master (pic_intack irq) s in
           if irq = 2 then
             (let (irq2, s2) = (case pic_get_irq s1 Slave of
                                  Some irq2 \<Rightarrow> (irq2, upd_pic Slave (pic_intack irq2) s1)
                                | None \<Rightarrow> (7, s1))
              in (unat (irq_base (pics s2 Slave)) + irq2, pic_update_irq s2))
           else (unat (irq_base (pics s1 Master)) + irq, pic_update_irq s1))
      | None \<Rightarrow> (unat (irq_base (pics s Master)) + 7, pic_update_irq s))"

definition pic_reset :: "pic_state \<Rightarrow> pic_state" where
  "pic_reset s =
     s\<lparr>last_irr := 0, irr := 0, imr := 0, isr := 0, priority_add := 0, irq_base := 0,
       read_reg_select := 0, poll := 0, special_mask := 0, init_state := 0, auto_eoi := 0,
       rotate_on_auto_eoi := 0, special_fully_nested_mode := 0, init4 := 0, single_mode := 0\<rparr>"

text \<open>Command port, bit 4 clear and bit 3 clear: operation control word 2.\<close>

definition pic_ocw2 :: "pic_sel \<Rightarrow> u32 \<Rightarrow> pic_state2 \<Rightarrow> pic_state2" where
  "pic_ocw2 w val s2 =
     (let cmd = unat (drop_bit 5 val); s = pics s2 w in
      if cmd = 0 \<or> cmd = 4 then upd_pic w (\<lambda>s. s\<lparr>rotate_on_auto_eoi := of_nat (cmd div 4)\<rparr>) s2
      else if cmd = 1 \<or> cmd = 5 then
        (let priority = get_priority s (isr s) in
         if priority \<noteq> 8 then
           (let irq = (priority + unat (priority_add s)) mod 8;
                s3 = upd_pic w (\<lambda>s. s\<lparr>isr := isr s AND NOT (push_bit irq 1)\<rparr>) s2;
                s4 = (if cmd = 5 then upd_pic w (\<lambda>s. s\<lparr>priority_add := of_nat ((irq + 1) mod 8)\<rparr>) s3
                      else s3)
            in pic_update_irq s4)
         else s2)
      else if cmd = 3 then
        pic_update_irq (upd_pic w (\<lambda>s. s\<lparr>isr := isr s AND NOT (push_bit (unat (val AND 7)) 1)\<rparr>) s2)
      else if cmd = 6 then
        pic_update_irq (upd_pic w (\<lambda>s. s\<lparr>priority_add := ucast ((val + 1) AND 7)\<rparr>) s2)
      else if cmd = 7 then
        pic_update_irq (upd_pic w (\<lambda>s. s\<lparr>isr := isr s AND NOT (push_bit (unat (val AND 7)) 1),
                                          priority_add := ucast (((val AND 7) + 1) AND 7)\<rparr>) s2)
      else s2)"

definition pic_ocw3 :: "pic_sel \<Rightarrow> u32 \<Rightarrow> pic_state2 \<Rightarrow> pic_state2" where
  "pic_ocw3 w val s2 =
     upd_pic w (\<lambda>s.
       (let s1 = (if val AND 0x04 \<noteq> 0 then s\<lparr>poll := 1\<rparr> else s);
            s2 = (if val AND 0x02 \<noteq> 0 then s1\<lparr>read_reg_select := ucast (val AND 1)\<rparr> else s1)
        in if val AND 0x40 \<noteq> 0 then s2\<lparr>special_mask := ucast (drop_bit 5 val AND 1)\<rparr> else s2)) s2"

definition pic_icw1 :: "pic_sel \<Rightarrow> u32 \<Rightarrow> pic_state2 \<Rightarrow> pic_state2 res" where
  "pic_icw1 w val s2 =
     (let s3 = emit_pic (Parent_irq 0) (upd_pic w pic_reset s2);
          s4 = upd_pic w (\<lambda>s. s\<lparr>init_state := 1, init4 := ucast (val AND 1),
                                single_mode := ucast (val AND 2)\<rparr>) s3
      in if val AND 0x08 \<noteq> 0 then Inl (Hw_error ''level sensitive irq not supported'') else Inr s4)"

definition pic_data_write :: "pic_sel \<Rightarrow> u32 \<Rightarrow> pic_state2 \<Rightarrow> pic_state2" where
  "pic_data_write w val s2 =
     (let s = pics s2 w in
      if init_state s = 0 then pic_update_irq (upd_pic w (\<lambda>s. s\<lparr>imr := ucast val\<rparr>) s2)
      else if init_state s = 1 then
        upd_pic w (\<lambda>s. s\<lparr>irq_base := ucast (val AND 0xf8),
                        init_state := (if single_mode s \<noteq> 0 then (if init4 s \<noteq> 0 then 3 else 0) else 2)\<rparr>) s2
      else if init_state s = 2 then
        upd_pic w (\<lambda>s. s\<lparr>init_state := (if init4 s \<noteq> 0 then 3 else 0)\<rparr>) s2
      else if init_state s = 3 then
        upd_pic w (\<lambda>s. s\<lparr>special_fully_nested_mode := ucast (drop_bit 4 val AND 1),
                        auto_eoi := ucast (drop_bit 1 val AND 1), init_state := 0\<rparr>) s2
      else s2)"

definition pic_ioport_write :: "pic_sel \<Rightarrow> pic_state2 \<Rightarrow> u32 \<Rightarrow> u32 \<Rightarrow> pic_state2 res" where
  "pic_ioport_write w s2 addr val =
     (if addr AND 1 = 0 then
        (if val AND 0x10 \<noteq> 0 then pic_icw1 w val s2
         else if val AND 0x08 \<noteq> 0 then Inr (pic_ocw3 w val s2)
         else Inr (pic_ocw2 w val s2))
      else Inr (pic_data_write w val s2))"

definition pic_poll_read :: "pic_sel \<Rightarrow> u32 \<Rightarrow> pic_state2 \<Rightarrow> nat \<times> pic_state2" where
  "pic_poll_read w addr1 s2 =
     (case pic_get_irq s2 w of
        Some ret \<Rightarrow>
          (let hi = drop_bit 7 addr1 \<noteq> 0;
               s3 = (if hi then upd_pic Master (\<lambda>s. s\<lparr>isr := isr s AND NOT (push_bit 2 1),
                                                      irr := irr s AND NOT (push_bit 2 1)\<rparr>) s2
                     else s2);
               s4 = upd_pic w (\<lambda>s. s\<lparr>irr := irr s AND NOT (push_bit ret 1),
                                     isr := isr s AND NOT (push_bit ret 1)\<rparr>) s3
           in (ret, if hi \<or> ret \<noteq> 2 then pic_update_irq s4 else s4))
      | None \<Rightarrow> (7, pic_update_irq s2))"

definition pic_ioport_read :: "pic_sel \<Rightarrow> pic_state2 \<Rightarrow> u32 \<Rightarrow> u32 \<times> pic_state2" where
  "pic_ioport_read w s2 addr1 =
     (let s = pics s2 w in
      if poll s \<noteq> 0 then
        (let (ret, s3) = pic_poll_read w addr1 s2 in (of_nat ret, upd_pic w (\<lambda>s. s\<lparr>poll := 0\<rparr>) s3))
      else if addr1 AND 1 = 0 then
        (ucast (if read_reg_select s \<noteq> 0 then isr s else irr s), s2)
      else (ucast (imr s), s2))"

definition pic_intack_read :: "pic_state2 \<Rightarrow> nat \<times> pic_state2" where
  "pic_intack_read s =
     (let (ret, s1) = pic_poll_read Master 0x00 s;
          (ret', s2) = (if ret = 2 then (let (r, t) = pic_poll_read Slave 0x80 s1 in (r + 8, t))
                        else (ret, s1))
      in (ret', upd_pic Master (\<lambda>p. p\<lparr>read_reg_select := 1\<rparr>) s2))"

definition elcr_ioport_write :: "pic_sel \<Rightarrow> pic_state2 \<Rightarrow> u32 \<Rightarrow> u32 \<Rightarrow> pic_state2" where
  "elcr_ioport_write w s addr val = upd_pic w (\<lambda>p. p\<lparr>elcr := ucast (val AND ucast (elcr_mask p))\<rparr>) s"

definition elcr_ioport_read :: "pic_sel \<Rightarrow> pic_state2 \<Rightarrow> u32 \<Rightarrow> u32" where
  "elcr_ioport_read w s addr1 = ucast (elcr (pics s w))"

definition pic_save :: "pic_state \<Rightarrow> qemu_file \<Rightarrow> qemu_file res" where
  "pic_save s f =
     res_bind (qemu_put_8s (last_irr s) f) (\<lambda>f.
     res_bind (qemu_put_8s (irr s) f) (\<lambda>f.
     res_bind (qemu_put_8s (imr s) f) (\<lambda>f.
     res_bind (qemu_put_8s (isr s) f) (\<lambda>f.
     res_bind (qemu_put_8s (priority_add s) f) (\<lambda>f.
     res_bind (qemu_put_8s (irq_base s) f) (\<lambda>f.
     res_bind (qemu_put_8s (read_reg_select s) f) (\<lambda>f.
     res_bind (qemu_put_8s (poll s) f) (\<lambda>f.
     res_bind (qemu_put_8s (special_mask s) f) (\<lambda>f.
     res_bind (qemu_put_8s (init_state s) f) (\<lambda>f.
     res_bind (qemu_put_8s (auto_eoi s) f) (\<lambda>f.
     res_bind (qemu_put_8s (rotate_on_auto_eoi s) f) (\<lambda>f.
     res_bind (qemu_put_8s (special_fully_nested_mode s) f) (\<lambda>f.
     res_bind (qemu_put_8s (init4 s) f) (\<lambda>f.
     res_bind (qemu_put_8s (single_mode s) f) (\<lambda>f.
     qemu_put_8s (elcr s) f)))))))))))))))"

text \<open>The result is the return code, the loaded state and the file; 22 is \<^verbatim>\<open>EINVAL\<close>.\<close>

definition pic_load :: "pic_state \<Rightarrow> int \<Rightarrow> qemu_file \<Rightarrow> ((int \<times> pic_state) \<times> qemu_file) res" where
  "pic_load s version_id f =
     (if version_id \<noteq> 1 then Inr ((-22, s), f)
      else
        res_bind (qemu_get_byte f) (\<lambda>(v1, f).
        res_bind (qemu_get_byte f) (\<lambda>(v2, f).
        res_bind (qemu_get_byte f) (\<lambda>(v3, f).
        res_bind (qemu_get_byte f) (\<lambda>(v4, f).
        res_bind (qemu_get_byte f) (\<lambda>(v5, f).
        res_bind (qemu_get_byte f) (\<lambda>(v6, f).
        res_bind (qemu_get_byte f) (\<lambda>(v7, f).
        res_bind (qemu_get_byte f) (\<lambda>(v8, f).
        res_bind (qemu_get_byte f) (\<lambda>(v9, f).
        res_bind (qemu_get_byte f) (\<lambda>(v10, f).
        res_bind (qemu_get_byte f) (\<lambda>(v11, f).
        res_bind (qemu_get_byte f) (\<lambda>(v12, f).
        res_bind (qemu_get_byte f) (\<lambda>(v13, f).
        res_bind (qemu_get_byte f) (\<lambda>(v14, f).
        res_bind (qemu_get_byte f) (\<lambda>(v15, f).
        res_bind (qemu_get_byte f) (\<lambda>(v16, f).
        Inr ((0, s\<lparr>last_irr := v1, irr := v2, imr := v3, isr := v4, priority_add := v5,
                  irq_base := v6, read_reg_select := v7, poll := v8, special_mask := v9,
                  init_state := v10, auto_eoi := v11, rotate_on_auto_eoi := v12,
                  special_fully_nested_mode := v13, init4 := v14, single_mode := v15,
                  elcr := v16\<rparr>), f))))))))))))))))))"

definition pic_zero :: pic_state where
  "pic_zero =
     \<lparr>last_irr = 0, irr = 0, imr = 0, isr = 0, priority_add = 0, irq_base = 0, read_reg_select = 0,
      poll = 0, special_mask = 0, init_state = 0, auto_eoi = 0, rotate_on_auto_eoi = 0,
      special_fully_nested_mode = 0, init4 = 0, single_mode = 0, elcr = 0, elcr_mask = 0\<rparr>"

definition i8259_init :: pic_state2 where
  "i8259_init =
     \<lparr>pics = (\<lambda>w. case w of Master \<Rightarrow> pic_zero\<lparr>elcr_mask := 0xf8\<rparr> | Slave \<Rightarrow> pic_zero\<lparr>elcr_mask := 0xde\<rparr>),
      alt_irq_func = False, pic_events = []\<rparr>"

definition pic_set_alt_irq_func :: "bool \<Rightarrow> pic_state2 \<Rightarrow> pic_state2" where
  "pic_set_alt_irq_func fn s = s\<lparr>alt_irq_func := fn\<rparr>"

section \<open>Priority resolution\<close>

text \<open>
  The rank of an input under the current rotation: 0 for the input after the last rotated one.
  \<open>pic_pending\<close> and \<open>pic_blocking\<close> are the two sets the chip compares: inputs that request service,
  and inputs in service that count against a new request.
\<close>

definition pic_rank :: "pic_state \<Rightarrow> nat \<Rightarrow> nat" where
  "pic_rank s n = (n + (8 - unat (priority_add s) mod 8)) mod 8"

definition pic_pending :: "pic_state \<Rightarrow> nat \<Rightarrow> bool" where
  "pic_pending s n \<longleftrightarrow> n < 8 \<and> bit (irr s) n \<and> \<not> bit (imr s) n"

definition pic_blocking :: "pic_sel \<Rightarrow> pic_state \<Rightarrow> nat \<Rightarrow> bool" where
  "pic_blocking w s n \<longleftrightarrow> n < 8 \<and> bit (isr s) n \<and> \<not> (special_mask s \<noteq> 0 \<and> bit (imr s) n)
     \<and> \<not> (special_fully_nested_mode s \<noteq> 0 \<and> w = Master \<and> n = 2)"

lemma rank_lt [simp]: "pic_rank s n < 8"
  by (simp add: pic_rank_def)

lemma complement_mod_8: "(n + (8 - a mod 8 + a)) mod 8 = n mod 8" for a n :: nat
proof -
  obtain q r where a: "a = 8 * q + r" "r < 8"
    by (metis mod_less_divisor mult_div_mod_eq zero_less_numeral)
  then have "n + (8 - a mod 8 + a) = n + 8 * (q + 1)" by simp
  then show ?thesis by (metis mod_mult_self2)
qed

lemma rank_inverse: "n < 8 \<Longrightarrow> (pic_rank s n + unat (priority_add s)) mod 8 = n"
  unfolding pic_rank_def by (metis add.assoc complement_mod_8 mod_add_left_eq mod_less)

lemma rank_of_sum: "p < 8 \<Longrightarrow> pic_rank s ((p + unat (priority_add s)) mod 8) = p"
  unfolding pic_rank_def
  by (metis add.assoc add.commute complement_mod_8 mod_add_left_eq mod_less)

lemma get_priority_loop:
  assumes "m \<noteq> 0"
  shows "bit m ((get_priority s m + unat (priority_add s)) mod 8) \<and> get_priority s m < 8
    \<and> (\<forall>q < get_priority s m. \<not> bit m ((q + unat (priority_add s)) mod 8))"
proof -
  from assms obtain n where n: "n < 8" "bit m n"
    by (auto simp: word_nonzero_has_bit)
  have hit: "bit m ((pic_rank s n + unat (priority_add s)) mod 8)"
    using n by (simp add: rank_inverse)
  let ?I = "\<lambda>p. p \<le> pic_rank s n \<and> (\<forall>q < p. \<not> bit m ((q + unat (priority_add s)) mod 8))"
  have "?I (get_priority s m) \<and> bit m ((get_priority s m + unat (priority_add s)) mod 8)"
    unfolding get_priority_def if_not_P [OF assms]
  proof (rule while_rule [where P = ?I and r = "measure (\<lambda>p. 8 - p)"], goal_cases)
    case (2 p)
    then have "\<not> bit m ((p + unat (priority_add s)) mod 8)"
      by (simp add: bit_facts)
    with 2 hit have "p \<noteq> pic_rank s n" by metis
    with 2 \<open>\<not> bit m _\<close> show ?case by (auto simp: less_Suc_eq)
  next
    case (5 p)
    then have "p < 8" using rank_lt [of s n] by linarith
    then show ?case by simp
  qed (auto simp: bit_facts)
  moreover have "pic_rank s n < 8" by simp
  ultimately show ?thesis by (meson le_less_trans)
qed

lemma get_priority_zero [simp]: "get_priority s 0 = 8"
  by (simp add: get_priority_def)

lemma get_priority_eq_8_iff: "get_priority s m = 8 \<longleftrightarrow> m = 0"
  using get_priority_loop [of m s] by (cases "m = 0") auto

lemma get_priority_le_rank: "n < 8 \<Longrightarrow> bit m n \<Longrightarrow> get_priority s m \<le> pic_rank s n"
proof (rule ccontr)
  assume n: "n < 8" "bit m n" and "\<not> get_priority s m \<le> pic_rank s n"
  then have "pic_rank s n < get_priority s m" and "m \<noteq> 0" by auto
  with get_priority_loop [of m s] rank_inverse [OF n(1), of s] n(2) show False by metis
qed

lemma get_priority_bit:
  assumes "m \<noteq> 0"
  obtains n where "n < 8" "bit m n" "get_priority s m = pic_rank s n"
    "n = (get_priority s m + unat (priority_add s)) mod 8"
proof -
  let ?n = "(get_priority s m + unat (priority_add s)) mod 8"
  show thesis
    using get_priority_loop [OF assms, of s] by (intro that [of ?n]) (auto simp: rank_of_sum)
qed

lemma get_priority_less_iff:
  "r < 8 \<Longrightarrow> r < get_priority s m \<longleftrightarrow> (\<forall>n < 8. bit m n \<longrightarrow> r < pic_rank s n)"
proof (cases "m = 0")
  case False
  assume "r < 8"
  obtain n where "n < 8" "bit m n" "get_priority s m = pic_rank s n"
    using get_priority_bit [OF False] by metis
  then show ?thesis using get_priority_le_rank [of _ m s] by fastforce
qed simp

lemma blocking_mask:
  "n < 8 \<Longrightarrow>
   bit (let m = isr s; m = (if special_mask s \<noteq> 0 then m AND NOT (imr s) else m)
        in if special_fully_nested_mode s \<noteq> 0 \<and> w = Master then m AND NOT (push_bit 2 1) else m) n
   \<longleftrightarrow> pic_blocking w s n"
  by (auto simp: pic_blocking_def Let_def bit_simps bit_4_iff)

lemma pic_get_irq_Some_iff:
  "pic_get_irq s2 w = Some n \<longleftrightarrow>
     pic_pending (pics s2 w) n
     \<and> (\<forall>m. pic_pending (pics s2 w) m \<longrightarrow> pic_rank (pics s2 w) n \<le> pic_rank (pics s2 w) m)
     \<and> (\<forall>m. pic_blocking w (pics s2 w) m \<longrightarrow> pic_rank (pics s2 w) n < pic_rank (pics s2 w) m)"
  (is "?L \<longleftrightarrow> ?R")
proof -
  let ?s = "pics s2 w"
  let ?m = "irr ?s AND NOT (imr ?s)"
  let ?b = "let m = isr ?s; m = (if special_mask ?s \<noteq> 0 then m AND NOT (imr ?s) else m)
        in if special_fully_nested_mode ?s \<noteq> 0 \<and> w = Master then m AND NOT (push_bit 2 1) else m"
  have pend: "bit ?m k \<longleftrightarrow> pic_pending ?s k" if "k < 8" for k
    using that by (simp add: pic_pending_def bit_simps)
  have get: "?L \<longleftrightarrow> get_priority ?s ?m \<noteq> 8 \<and> get_priority ?s ?m < get_priority ?s ?b
      \<and> n = (get_priority ?s ?m + unat (priority_add ?s)) mod 8"
    by (auto simp: pic_get_irq_def Let_def)
  show ?thesis
  proof (cases "?m = 0")
    case True
    then have "\<not> pic_pending ?s n" using pend [of n] by (auto simp: pic_pending_def)
    with True get show ?thesis by simp
  next
    case False
    then obtain k where k: "k < 8" "bit ?m k" "get_priority ?s ?m = pic_rank ?s k"
      "k = (get_priority ?s ?m + unat (priority_add ?s)) mod 8"
      by (rule get_priority_bit)
    have least: "pic_rank ?s k \<le> pic_rank ?s m" if "pic_pending ?s m" for m
      using that get_priority_le_rank [of m ?m ?s] pend [of m] k(3) by (auto simp: pic_pending_def)
    have inj: "a = b" if "a < 8" "b < 8" "pic_rank ?s a = pic_rank ?s b" for a b
      using that by (metis rank_inverse)
    have blk: "get_priority ?s ?m < get_priority ?s ?b \<longleftrightarrow>
        (\<forall>m. pic_blocking w ?s m \<longrightarrow> pic_rank ?s k < pic_rank ?s m)"
    proof -
      define b where "b = ?b"
      have "bit b m \<longleftrightarrow> pic_blocking w ?s m" if "m < 8" for m
        unfolding b_def using that by (rule blocking_mask)
      then have "pic_rank ?s k < get_priority ?s b \<longleftrightarrow>
          (\<forall>m. pic_blocking w ?s m \<longrightarrow> pic_rank ?s k < pic_rank ?s m)"
        unfolding get_priority_less_iff [OF rank_lt] by (auto simp: pic_blocking_def)
      then show ?thesis unfolding k(3) b_def .
    qed
    have "?L \<longleftrightarrow> n = k \<and> (\<forall>m. pic_blocking w ?s m \<longrightarrow> pic_rank ?s k < pic_rank ?s m)"
      unfolding get blk k(4) [symmetric] get_priority_eq_8_iff using False by blast
    also have "\<dots> \<longleftrightarrow> ?R"
    proof -
      have "pic_pending ?s k" using k(1,2) pend by blast
      moreover have "n = k" if "pic_pending ?s n" "pic_rank ?s n \<le> pic_rank ?s k"
      proof (rule inj)
        show "n < 8" using that(1) unfolding pic_pending_def by blast
        show "pic_rank ?s n = pic_rank ?s k" using that least by (blast intro: le_antisym)
      qed (rule k(1))
      ultimately show ?thesis using least by blast
    qed
    finally show ?thesis .
  qed
qed

section \<open>Frame facts\<close>

lemma pics_upd [simp]: "pics (upd_pic w g s) v = (if v = w then g (pics s w) else pics s v)"
  by (simp add: upd_pic_def)

lemma pics_emit [simp]: "pics (emit_pic e s) = pics s"
  by (simp add: emit_pic_def)

lemma events_upd [simp]: "pic_events (upd_pic w g s) = pic_events s"
  by (simp add: upd_pic_def)

lemma alt_irq_upd [simp]: "alt_irq_func (upd_pic w g s) = alt_irq_func s"
  by (simp add: upd_pic_def)

lemma set_irq1_frame [simp]:
  "imr (pic_set_irq1 n l s) = imr s" "isr (pic_set_irq1 n l s) = isr s"
  "priority_add (pic_set_irq1 n l s) = priority_add s" "irq_base (pic_set_irq1 n l s) = irq_base s"
  "init_state (pic_set_irq1 n l s) = init_state s" "elcr (pic_set_irq1 n l s) = elcr s"
  "elcr_mask (pic_set_irq1 n l s) = elcr_mask s" "special_mask (pic_set_irq1 n l s) = special_mask s"
  "special_fully_nested_mode (pic_set_irq1 n l s) = special_fully_nested_mode s"
  "auto_eoi (pic_set_irq1 n l s) = auto_eoi s"
  "rotate_on_auto_eoi (pic_set_irq1 n l s) = rotate_on_auto_eoi s"
  by (simp_all add: pic_set_irq1_def Let_def)

text \<open>\<^verbatim>\<open>pic_update_irq\<close> writes nothing but the request latches of the master's cascade input.\<close>

lemma update_irq_slave [simp]: "pics (pic_update_irq s) Slave = pics s Slave"
  by (simp add: pic_update_irq_def Let_def split: option.splits)

lemma update_irq_master:
  "pics (pic_update_irq s) Master = pics s Master \<or>
   pics (pic_update_irq s) Master = pic_set_irq1 2 0 (pic_set_irq1 2 1 (pics s Master))"
  by (simp add: pic_update_irq_def Let_def split: option.splits)

lemma update_irq_frame [simp]:
  "imr (pics (pic_update_irq s) w) = imr (pics s w)" "isr (pics (pic_update_irq s) w) = isr (pics s w)"
  "priority_add (pics (pic_update_irq s) w) = priority_add (pics s w)"
  "irq_base (pics (pic_update_irq s) w) = irq_base (pics s w)"
  "init_state (pics (pic_update_irq s) w) = init_state (pics s w)"
  "elcr (pics (pic_update_irq s) w) = elcr (pics s w)"
  "elcr_mask (pics (pic_update_irq s) w) = elcr_mask (pics s w)"
  using update_irq_master [of s] by (cases w; auto)+

section \<open>Well-formedness\<close>

definition pic_wf :: "pic_state \<Rightarrow> bool" where
  "pic_wf p \<longleftrightarrow> unat (priority_add p) < 8 \<and> unat (init_state p) \<le> 3 \<and> irq_base p AND 7 = 0
     \<and> elcr p AND NOT (elcr_mask p) = 0"

definition pics_wf :: "pic_state2 \<Rightarrow> bool" where
  "pics_wf s \<longleftrightarrow> (\<forall>w. pic_wf (pics s w))"

lemma pics_wf_upd [intro]: "pics_wf s \<Longrightarrow> pic_wf (g (pics s w)) \<Longrightarrow> pics_wf (upd_pic w g s)"
  by (simp add: pics_wf_def)

lemma pics_wf_emit [simp]: "pics_wf (emit_pic e s) = pics_wf s"
  by (simp add: pics_wf_def)

lemma pics_wfD: "pics_wf s \<Longrightarrow> pic_wf (pics s w)"
  by (simp add: pics_wf_def)

lemma set_irq1_wf [simp]: "pic_wf (pic_set_irq1 n l p) = pic_wf p"
  by (simp add: pic_wf_def)

lemma update_irq_wf [simp]: "pics_wf (pic_update_irq s) = pics_wf s"
  by (simp add: pics_wf_def pic_wf_def)

lemma unat_rotated [simp]: "unat (of_nat ((n + 1) mod 8) :: u8) < 8"
proof -
  have "(n + 1) mod 8 < 8" by simp
  then show ?thesis by (simp add: unsigned_of_nat take_bit_eq_mod del: mod_Suc_eq)
qed

lemma unat_and_7_u8 [simp]: "unat (ucast (v AND 7 :: u32) :: u8) < 8"
proof -
  have "ucast (v AND 7) = (ucast v AND 7 :: u8)" by (simp add: unsigned_and_eq)
  then show ?thesis using unat_and_7 [where 'a = 8, of "ucast v"] by simp
qed

lemma intack_wf: "pic_wf p \<Longrightarrow> pic_wf (pic_intack n p)"
  by (simp add: pic_intack_def pic_wf_def Let_def del: One_nat_def)

lemma reset_wf: "pic_wf p \<Longrightarrow> pic_wf (pic_reset p)"
  by (simp add: pic_reset_def pic_wf_def)

lemma i8259_set_irq_wf: "pics_wf s \<Longrightarrow> pics_wf (i8259_set_irq n l s)"
  by (auto simp: i8259_set_irq_def Let_def pics_wfD)

lemma read_irq_wf: "pics_wf s \<Longrightarrow> pics_wf (snd (pic_read_irq s))"
  by (auto simp: pic_read_irq_def Let_def intack_wf pics_wfD pics_wf_upd split: option.splits)

lemma ocw2_wf: "pics_wf s \<Longrightarrow> pics_wf (pic_ocw2 w v s)"
  unfolding pic_ocw2_def Let_def
  by (simp del: One_nat_def add: pics_wf_def pic_wf_def)

lemma ocw3_wf: "pics_wf s \<Longrightarrow> pics_wf (pic_ocw3 w v s)"
  unfolding pic_ocw3_def Let_def by (simp add: pics_wf_def pic_wf_def)

lemma icw1_wf: "pics_wf s \<Longrightarrow> pic_icw1 w v s = Inr s' \<Longrightarrow> pics_wf s'"
  by (auto simp: pic_icw1_def Let_def pics_wf_def pic_wf_def pic_reset_def split: if_splits)

lemma base_mask: "ucast (v AND 0xf8 :: u32) AND (7::u8) = 0"
  by (simp add: unsigned_and_eq and.assoc)

lemma data_write_wf: "pics_wf s \<Longrightarrow> pics_wf (pic_data_write w v s)"
  unfolding pic_data_write_def Let_def
  by (simp add: pics_wf_def pic_wf_def base_mask)

lemma ioport_write_wf: "pics_wf s \<Longrightarrow> pic_ioport_write w s a v = Inr s' \<Longrightarrow> pics_wf s'"
  by (auto simp: pic_ioport_write_def ocw2_wf ocw3_wf icw1_wf data_write_wf split: if_splits)

lemma poll_read_wf: "pics_wf s \<Longrightarrow> pics_wf (snd (pic_poll_read w a s))"
  by (auto simp: pic_poll_read_def Let_def pics_wf_def pic_wf_def split: option.splits)

lemma ioport_read_wf: "pics_wf s \<Longrightarrow> pics_wf (snd (pic_ioport_read w s a))"
  using poll_read_wf [of s w a]
  by (auto simp: pic_ioport_read_def Let_def pics_wf_def pic_wf_def split: prod.splits)

lemma intack_read_wf: "pics_wf s \<Longrightarrow> pics_wf (snd (pic_intack_read s))"
  using poll_read_wf [of s Master 0] poll_read_wf [of "snd (pic_poll_read Master 0 s)" Slave "0x80"]
  by (auto simp: pic_intack_read_def Let_def pics_wf_def pic_wf_def split: prod.splits if_splits)

lemma elcr_write_wf: "pics_wf s \<Longrightarrow> pics_wf (elcr_ioport_write w s a v)"
  by (auto simp: elcr_ioport_write_def pics_wf_def pic_wf_def unsigned_and_eq bit_eq_iff bit_simps)

lemma init_pics:
  "pics i8259_init Master = pic_zero\<lparr>elcr_mask := 0xf8\<rparr>"
  "pics i8259_init Slave = pic_zero\<lparr>elcr_mask := 0xde\<rparr>" "\<not> alt_irq_func i8259_init"
  by (simp_all add: i8259_init_def)

lemma init_wf: "pics_wf i8259_init"
  by (simp add: pics_wf_def i8259_init_def pic_zero_def pic_wf_def split: pic_sel.splits)

interpretation pic_ports: port_device pics_wf "pic_ioport_read w" "pic_ioport_write w" for w
  by unfold_locales (auto intro: ioport_read_wf ioport_write_wf)

section \<open>Snapshot\<close>

definition pic_bytes :: "pic_state \<Rightarrow> u8 list" where
  "pic_bytes s =
     [last_irr s, irr s, imr s, isr s, priority_add s, irq_base s, read_reg_select s, poll s,
      special_mask s, init_state s, auto_eoi s, rotate_on_auto_eoi s, special_fully_nested_mode s,
      init4 s, single_mode s, elcr s]"

lemma pic_save_emits: "emits qf_writer qf_written (pic_save s) (pic_bytes s)"
proof -
  have "emits qf_writer qf_written (pic_save s)
     ([last_irr s] @ [irr s] @ [imr s] @ [isr s] @ [priority_add s] @ [irq_base s] @ [read_reg_select s]
      @ [poll s] @ [special_mask s] @ [init_state s] @ [auto_eoi s] @ [rotate_on_auto_eoi s]
      @ [special_fully_nested_mode s] @ [init4 s] @ [single_mode s] @ [elcr s])"
    unfolding pic_save_def by (intro emits_bind put_8s_emits)
  then show ?thesis by (simp add: pic_bytes_def)
qed

lemma pic_load_consumes:
  "consumes qf_reader qf_left (pic_load t 1) (pic_bytes s) (0, s\<lparr>elcr_mask := elcr_mask t\<rparr>)"
proof -
  have "consumes qf_reader qf_left (pic_load t 1)
     ([last_irr s] @ [irr s] @ [imr s] @ [isr s] @ [priority_add s] @ [irq_base s] @ [read_reg_select s]
      @ [poll s] @ [special_mask s] @ [init_state s] @ [auto_eoi s] @ [rotate_on_auto_eoi s]
      @ [special_fully_nested_mode s] @ [init4 s] @ [single_mode s] @ [elcr s] @ [])
     (0, t\<lparr>last_irr := last_irr s, irr := irr s, imr := imr s, isr := isr s,
          priority_add := priority_add s, irq_base := irq_base s,
          read_reg_select := read_reg_select s, poll := poll s, special_mask := special_mask s,
          init_state := init_state s, auto_eoi := auto_eoi s,
          rotate_on_auto_eoi := rotate_on_auto_eoi s,
          special_fully_nested_mode := special_fully_nested_mode s, init4 := init4 s,
          single_mode := single_mode s, elcr := elcr s\<rparr>)"
    unfolding pic_load_def
    by (rule consumes_else, simp) (rule consumes_bind get_byte_consumes consumes_return)+
  then show ?thesis by (cases s; cases t) (simp add: pic_bytes_def)
qed

interpretation pic_snap: snapshot_device pic_save pic_load 1 pic_bytes
  "\<lambda>t s. s\<lparr>elcr_mask := elcr_mask t\<rparr>"
  by unfold_locales (rule pic_save_emits, rule pic_load_consumes)

section \<open>Delivery\<close>

lemma no_pending_get_irq: "irr (pics s w) = 0 \<Longrightarrow> pic_get_irq s w = None"
  by (simp add: pic_get_irq_def)

lemma single_pending_get_irq:
  assumes "n < 8" "irr (pics s w) = 2 ^ n" "isr (pics s w) = 0" "\<not> bit (imr (pics s w)) n"
  shows "pic_get_irq s w = Some n"
  unfolding pic_get_irq_Some_iff using assms
  by (auto simp: pic_pending_def pic_blocking_def bit_simps)

lemma set_irq1_rising:
  "n < 8 \<Longrightarrow> irr p = 0 \<Longrightarrow> \<not> bit (last_irr p) n \<Longrightarrow> irr (pic_set_irq1 n 1 p) = 2 ^ n"
  by (simp add: pic_set_irq1_def Let_def bit_facts)

lemma intack_isr: "auto_eoi p = 0 \<Longrightarrow> isr (pic_intack n p) = isr p OR 2 ^ n"
  by (simp add: pic_intack_def Let_def)

lemma intack_irr:
  "irr (pic_intack n p) = (if bit (elcr p) n then irr p else irr p AND NOT (2 ^ n))"
  by (simp add: pic_intack_def Let_def bit_facts)

inductive pic_reach :: "pic_state2 \<Rightarrow> bool" where
  pic_start: "pic_reach i8259_init"
| pic_alt: "pic_reach s \<Longrightarrow> pic_reach (pic_set_alt_irq_func b s)"
| pic_line: "pic_reach s \<Longrightarrow> n < 16 \<Longrightarrow> pic_reach (i8259_set_irq n l s)"
| pic_out: "pic_reach s \<Longrightarrow> pic_ioport_write w s a v = Inr s' \<Longrightarrow> pic_reach s'"
| pic_in: "pic_reach s \<Longrightarrow> pic_reach (snd (pic_ioport_read w s a))"
| pic_elcr: "pic_reach s \<Longrightarrow> pic_reach (elcr_ioport_write w s a v)"
| pic_ack: "pic_reach s \<Longrightarrow> pic_reach (snd (pic_read_irq s))"
| pic_poll_ack: "pic_reach s \<Longrightarrow> pic_reach (snd (pic_intack_read s))"
| pic_rst: "pic_reach s \<Longrightarrow> pic_reach (upd_pic w pic_reset s)"

lemma pic_reach_wf: "pic_reach s \<Longrightarrow> pics_wf s"
proof (induction rule: pic_reach.induct)
  case (pic_alt s b)
  then show ?case by (simp add: pic_set_alt_irq_func_def pics_wf_def)
next
  case (pic_rst s w)
  then show ?case by (blast intro: reset_wf pics_wfD)
qed (auto intro: init_wf i8259_set_irq_wf ioport_write_wf ioport_read_wf elcr_write_wf read_irq_wf
      intack_read_wf)

section \<open>Properties\<close>

text \<open>C10: The interrupt a chip asks for is exactly the pending, unmasked input that comes first in the
  rotated priority order and comes strictly before every in-service input that still counts
  (special mask mode and special fully nested mode taken into account); if there is none, no
  interrupt is asked for.\<close>

theorem pic_get_irq_resolution:
  "pic_get_irq s2 w = Some n \<longleftrightarrow>
     pic_pending (pics s2 w) n
     \<and> (\<forall>m. pic_pending (pics s2 w) m \<longrightarrow> pic_rank (pics s2 w) n \<le> pic_rank (pics s2 w) m)
     \<and> (\<forall>m. pic_blocking w (pics s2 w) m \<longrightarrow> pic_rank (pics s2 w) n < pic_rank (pics s2 w) m)"
  by (rule pic_get_irq_Some_iff)

definition pic_demo :: pic_state2 where
  "pic_demo = upd_pic Master (\<lambda>p. p\<lparr>irr := 0x28, isr := 0x40, priority_add := 4\<rparr>) i8259_init"

theorem pic_get_irq_resolution_witness:
  "pic_get_irq pic_demo Master = Some 5 \<and> pic_pending (pics pic_demo Master) 3
     \<and> pic_rank (pics pic_demo Master) 5 \<le> pic_rank (pics pic_demo Master) 3"
proof -
  have get: "pic_get_irq pic_demo Master = Some 5"
    by (simp add: pic_demo_def upd_pic_def i8259_init_def pic_zero_def pic_get_irq_def
        get_priority_def while_unfold)
  have "pic_pending (pics pic_demo Master) 3"
    by (simp add: pic_demo_def upd_pic_def i8259_init_def pic_zero_def pic_pending_def)
  with get pic_get_irq_resolution [of pic_demo Master 5] show ?thesis by blast
qed

text \<open>C11: Whatever the guest and the devices do to the controllers from power-on (line changes, command
  and data writes, polls, acknowledges, trigger-mode writes, resets), the rotation stays below 8,
  the initialisation sequence counter within its four states, the vector base a multiple of 8, and
  no input that must be edge triggered becomes level triggered.\<close>

theorem pic_reachable_wf:
  "pic_reach s \<Longrightarrow> unat (priority_add (pics s w)) < 8 \<and> unat (init_state (pics s w)) \<le> 3
     \<and> irq_base (pics s w) AND 7 = 0 \<and> elcr (pics s w) AND NOT (elcr_mask (pics s w)) = 0"
  using pic_reach_wf [of s] by (simp add: pics_wf_def pic_wf_def)

theorem pic_reachable_wf_witness:
  "unat (priority_add (pics (i8259_set_irq 3 1 i8259_init) Master)) < 8"
proof -
  have "pic_reach (i8259_set_irq 3 1 i8259_init)"
    by (rule pic_reach.pic_line [OF pic_reach.pic_start]) simp
  from pic_reachable_wf [OF this, of Master] show ?thesis by blast
qed

text \<open>C12: A rising edge on an unmasked master input of an idle pair of controllers raises the CPU's
  interrupt line, and the acknowledge that follows returns the vector base plus the input number,
  marks the input in service and, for an edge-triggered input, takes the request away.\<close>

theorem pic_request_delivered:
  assumes "n < 8" "n \<noteq> 2" "\<not> alt_irq_func s"
    and "irr (pics s Master) = 0" "isr (pics s Master) = 0" "irr (pics s Slave) = 0"
    and "\<not> bit (imr (pics s Master)) n" "\<not> bit (last_irr (pics s Master)) n"
    and "auto_eoi (pics s Master) = 0"
  shows "pic_events (i8259_set_irq n 1 s) = pic_events s @ [Parent_irq 1]
    \<and> fst (pic_read_irq (i8259_set_irq n 1 s)) = unat (irq_base (pics s Master)) + n
    \<and> isr (pics (snd (pic_read_irq (i8259_set_irq n 1 s))) Master) = 2 ^ n
    \<and> (\<not> bit (elcr (pics s Master)) n \<longrightarrow>
        irr (pics (snd (pic_read_irq (i8259_set_irq n 1 s))) Master) = 0)"
proof -
  let ?p = "pic_set_irq1 n 1 (pics s Master)"
  let ?u = "upd_pic Master (pic_set_irq1 n 1) s"
  have irr: "irr ?p = 2 ^ n" using assms by (intro set_irq1_rising)
  have slave: "pic_get_irq ?u Slave = None" using assms by (intro no_pending_get_irq) simp
  have master: "pic_get_irq ?u Master = Some n"
    using assms irr by (intro single_pending_get_irq) simp_all
  have line: "i8259_set_irq n 1 s = emit_pic (Parent_irq 1) ?u"
    using assms slave master by (simp add: i8259_set_irq_def pic_update_irq_def)
  have same: "pic_get_irq (emit_pic (Parent_irq 1) ?u) Master = Some n"
    using master by (simp add: pic_get_irq_def)
  let ?a = "upd_pic Master (pic_intack n) (emit_pic (Parent_irq 1) ?u)"
  have read: "pic_read_irq (i8259_set_irq n 1 s) =
      (unat (irq_base (pics ?a Master)) + n, pic_update_irq ?a)"
    using assms(2) same by (simp add: line pic_read_irq_def Let_def)
  have no_slave: "pic_get_irq ?a Slave = None" using assms by (intro no_pending_get_irq) simp
  have "irq_base (pic_intack n ?p) = irq_base (pics s Master)"
    by (simp add: pic_intack_def Let_def)
  moreover have "isr (pic_intack n ?p) = 2 ^ n" using assms by (simp add: intack_isr)
  moreover have "\<not> bit (elcr (pics s Master)) n \<Longrightarrow> irr (pics (pic_update_irq ?a) Master) = 0"
    using no_slave irr by (simp add: pic_update_irq_def intack_irr Let_def split: option.splits)
  ultimately show ?thesis unfolding read by (simp add: line emit_pic_def)
qed

theorem pic_request_delivered_witness:
  "fst (pic_read_irq (i8259_set_irq 4 1 i8259_init)) = 4"
  using pic_request_delivered [of 4 i8259_init] by (simp add: init_pics pic_zero_def)

text \<open>The non-specific end-of-interrupt command clears exactly one in-service bit, that of the
  in-service input first in the rotated priority order, and leaves the other chip's in-service
  register alone; with nothing in service it changes nothing.\<close>

theorem pic_nonspecific_eoi:
  assumes "pic_ioport_write w s 0x20 0x20 = Inr s'"
  shows "if isr (pics s w) = 0 then s' = s
    else \<exists>n < 8. bit (isr (pics s w)) n
      \<and> (\<forall>m < 8. bit (isr (pics s w)) m \<longrightarrow> pic_rank (pics s w) n \<le> pic_rank (pics s w) m)
      \<and> isr (pics s' w) = isr (pics s w) AND NOT (2 ^ n)
      \<and> (\<forall>v. v \<noteq> w \<longrightarrow> isr (pics s' v) = isr (pics s v))"
proof (cases "isr (pics s w) = 0")
  case True
  then show ?thesis using assms by (auto simp: pic_ioport_write_def pic_ocw2_def Let_def)
next
  case False
  then obtain n where n: "n < 8" "bit (isr (pics s w)) n"
    "get_priority (pics s w) (isr (pics s w)) = pic_rank (pics s w) n"
    "n = (get_priority (pics s w) (isr (pics s w)) + unat (priority_add (pics s w))) mod 8"
    by (rule get_priority_bit)
  have ne8: "get_priority (pics s w) (isr (pics s w)) \<noteq> 8"
    using False by (simp add: get_priority_eq_8_iff)
  have "s' = pic_update_irq (upd_pic w (\<lambda>p. p\<lparr>isr := isr p AND NOT (push_bit n 1)\<rparr>) s)"
    using assms ne8 n(4) [symmetric] by (simp add: pic_ioport_write_def pic_ocw2_def Let_def)
  then have "isr (pics s' w) = isr (pics s w) AND NOT (2 ^ n)"
    "\<forall>v. v \<noteq> w \<longrightarrow> isr (pics s' v) = isr (pics s v)" by simp_all
  moreover have "\<forall>m < 8. bit (isr (pics s w)) m \<longrightarrow> pic_rank (pics s w) n \<le> pic_rank (pics s w) m"
    using get_priority_le_rank [of _ "isr (pics s w)" "pics s w"] unfolding n(3) by blast
  ultimately show ?thesis using False n(1,2) by auto
qed

theorem pic_nonspecific_eoi_witness:
  "\<exists>s'. pic_ioport_write Master pic_demo 0x20 0x20 = Inr s' \<and> isr (pics s' Master) \<noteq> 0x40"
proof -
  obtain s' where s': "pic_ioport_write Master pic_demo 0x20 0x20 = Inr s'"
    by (simp add: pic_ioport_write_def)
  have "isr (pics pic_demo Master) = 0x40"
    by (simp add: pic_demo_def)
  with pic_nonspecific_eoi [OF s'] obtain n where "bit (0x40::u8) n"
    "isr (pics s' Master) = 0x40 AND NOT (2 ^ n)" by auto
  then have "bit (isr (pics s' Master)) n \<noteq> bit (0x40::u8) n" by (simp add: bit_simps)
  with s' show ?thesis by metis
qed

text \<open>The four-word initialisation sequence of a cascaded controller (ICW1 with cascade and ICW4, the
  vector base, the cascade word, ICW4) always succeeds, whatever the state before: it leaves the
  chip with empty request, mask and service registers, the chosen base rounded down to a multiple
  of 8, the chosen end-of-interrupt and nesting modes, ready for operation words, and does not
  touch the other chip.\<close>

theorem pic_icw_sequence:
  assumes "v1 AND 0x10 \<noteq> 0" "v1 AND 0x08 = 0" "v1 AND 0x02 = 0" "v1 AND 0x01 \<noteq> 0"
  shows "\<exists>s'. port_run (pic_ioport_read w) (pic_ioport_write w) s
        [Out 0 v1, Out 1 v2, Out 1 v3, Out 1 v4] = Inr ([], s')
    \<and> irr (pics s' w) = 0 \<and> imr (pics s' w) = 0 \<and> isr (pics s' w) = 0 \<and> init_state (pics s' w) = 0
    \<and> irq_base (pics s' w) = ucast v2 AND 0xf8
    \<and> auto_eoi (pics s' w) = ucast (drop_bit 1 v4 AND 1)
    \<and> special_fully_nested_mode (pics s' w) = ucast (drop_bit 4 v4 AND 1)
    \<and> (\<forall>v. v \<noteq> w \<longrightarrow> pics s' v = pics s v)"
proof -
  have "bit v1 0"
    using assms(4) and_exp_eq_0_iff_not_bit [of v1 0] by simp
  then have "bit (ucast (v1 AND 1) :: u8) 0"
    by (simp only: bit_simps) simp
  then have "ucast (v1 AND 1) \<noteq> (0::u8)" by auto
  then show ?thesis
    using assms by (simp add: pic_ioport_write_def pic_icw1_def pic_data_write_def Let_def
        pic_reset_def unsigned_and_eq)
qed

theorem pic_icw_sequence_witness:
  "\<exists>s'. port_run (pic_ioport_read Master) (pic_ioport_write Master) pic_demo
        [Out 0 0x11, Out 1 0x43, Out 1 4, Out 1 1] = Inr ([], s') \<and> irq_base (pics s' Master) = 0x40"
  using pic_icw_sequence [of "0x11" Master pic_demo "0x43" 4 1] by auto

text \<open>A level-triggered request stays pending through its acknowledge and disappears exactly when the
  device lowers the line; an edge-triggered one survives the line going low until it is
  acknowledged.\<close>

theorem pic_trigger_modes:
  "n < 8 \<Longrightarrow>
     (bit (elcr p) n \<longrightarrow> bit (irr (pic_intack n (pic_set_irq1 n 1 p))) n
        \<and> \<not> bit (irr (pic_set_irq1 n 0 (pic_set_irq1 n 1 p))) n)
     \<and> (\<not> bit (elcr p) n \<longrightarrow> \<not> bit (last_irr p) n \<longrightarrow>
        bit (irr (pic_set_irq1 n 0 (pic_set_irq1 n 1 p))) n
        \<and> \<not> bit (irr (pic_intack n (pic_set_irq1 n 1 p))) n)"
  by (auto simp: pic_set_irq1_def intack_irr Let_def bit_facts bit_simps)

theorem pic_trigger_modes_witness:
  "bit (irr (pic_intack 4 (pic_set_irq1 4 1 (pic_zero\<lparr>elcr := 0x10\<rparr>)))) 4
     \<and> \<not> bit (irr (pic_intack 4 (pic_set_irq1 4 1 pic_zero))) 4"
  using pic_trigger_modes [of 4 "pic_zero\<lparr>elcr := 0x10\<rparr>"] pic_trigger_modes [of 4 pic_zero]
  by (simp add: pic_zero_def)

text \<open>A controller saved to a migration file and loaded from it again is the same controller: all
  sixteen saved registers come back, the hard-wired trigger mask is the one of the machine that
  loads, and the return code is 0.\<close>

theorem pic_snapshot_roundtrip:
  "qemu_fopen True old ''wb'' = Some f \<Longrightarrow>
     \<exists>f1 g g1. pic_save s f = Inr f1 \<and> qemu_fopen True (fst (qemu_fclose f1)) ''rb'' = Some g
       \<and> pic_load t 1 g = Inr ((0, s\<lparr>elcr_mask := elcr_mask t\<rparr>), g1)"
  by (rule pic_snap.file_roundtrip)

theorem pic_snapshot_roundtrip_witness:
  "\<exists>f1 g g1. pic_save (pics pic_demo Master) (qemu_fopen_ops [] True False) = Inr f1
       \<and> qemu_fopen True (fst (qemu_fclose f1)) ''rb'' = Some g
       \<and> pic_load pic_zero 1 g = Inr ((0, (pics pic_demo Master)\<lparr>elcr_mask := elcr_mask pic_zero\<rparr>), g1)"
  using pic_snapshot_roundtrip [of "[]" "qemu_fopen_ops [] True False" "pics pic_demo Master" pic_zero]
  by (simp add: qemu_fopen_def)

end
