(* ===== verification/Bounded_Queue.thy ===== *)
theory Bounded_Queue
  imports Dm_Prelude
begin

text \<open>
  The contract of a fixed-size ring of the device model, as its users rely on it: below capacity
  a put appends, at capacity it leaves the contents alone, a get takes the oldest element. The
  receive FIFO of the UART and the PS/2 event queue are interpretations. The client lemmas are
  order preservation and loss only by overrun.
\<close>

section \<open>Rings in an array\<close>

text \<open>The \<open>c\<close> elements from index \<open>t\<close> on, wrapping at the end of the array.\<close>

definition ring :: "'a list \<Rightarrow> nat \<Rightarrow> nat \<Rightarrow> 'a list" where
  "ring d t c = map (\<lambda>i. d ! ((t + i) mod length d)) [0..<c]"

lemma length_ring [simp]: "length (ring d t c) = c"
  by (simp add: ring_def)

lemma ring_eq_Nil [simp]: "ring d t c = [] \<longleftrightarrow> c = 0"
  by (simp add: ring_def)

lemma ring_advance: "0 < c \<Longrightarrow> ((t + 1) mod n + (c - 1)) mod n = (t + c) mod (n::nat)"
proof -
  assume "0 < c"
  then have "t + 1 + (c - 1) = t + c" by simp
  then show ?thesis by (metis mod_add_left_eq)
qed

lemma ring_slot_neq:
  assumes "i < c" "c < n"
  shows "(t + i) mod n \<noteq> (t + c) mod (n::nat)"
proof
  assume "(t + i) mod n = (t + c) mod n"
  then have "n dvd (t + c) - (t + i)"
    using assms mod_eq_dvd_iff_nat [of "t + i" "t + c" n] by simp
  then have "n dvd c - i" by simp
  with assms show False by (auto dest: dvd_imp_le)
qed

lemma ring_put:
  assumes "c < length d"
  shows "ring (d[(t + c) mod length d := x]) t (c + 1) = ring d t c @ [x]"
proof -
  have "0 < length d" using assms by linarith
  then have "(t + c) mod length d < length d" by simp
  moreover have "map (\<lambda>i. d[(t + c) mod length d := x] ! ((t + i) mod length d)) [0..<c] = ring d t c"
    unfolding ring_def using ring_slot_neq [of _ c "length d" t] assms
    by (intro map_cong refl) (metis atLeastLessThan_iff nth_list_update_neq set_upt)
  ultimately show ?thesis by (simp add: ring_def)
qed

lemma ring_get:
  assumes "0 < c" "t < length d"
  shows "ring d t c = d ! t # ring d ((t + 1) mod length d) (c - 1)"
proof -
  obtain k where c: "c = Suc k" using assms(1) by (cases c) auto
  have "(t + (i + 1)) mod length d = ((t + 1) mod length d + i) mod length d" for i
    by (metis add.assoc add.commute mod_add_left_eq)
  then have "map (\<lambda>i. d ! ((t + i) mod length d)) (map Suc [0..<k])
      = map (\<lambda>i. d ! (((t + 1) mod length d + i) mod length d)) [0..<k]"
    by simp
  then show ?thesis using assms(2) unfolding ring_def c by (simp add: upt_conv_Cons map_Suc_upt del: upt_Suc)
qed

section \<open>The contract\<close>

locale bounded_queue =
  fixes inv :: "'q \<Rightarrow> bool"
    and contents :: "'q \<Rightarrow> 'a list"
    and cap :: nat
    and put :: "'a \<Rightarrow> 'q \<Rightarrow> 'q"
    and get :: "'q \<Rightarrow> 'a \<times> 'q"
  assumes inv_put: "inv q \<Longrightarrow> inv (put x q)"
    and inv_get: "inv q \<Longrightarrow> contents q \<noteq> [] \<Longrightarrow> inv (snd (get q))"
    and put_below: "inv q \<Longrightarrow> length (contents q) < cap \<Longrightarrow> contents (put x q) = contents q @ [x]"
    and put_full: "inv q \<Longrightarrow> \<not> length (contents q) < cap \<Longrightarrow> contents (put x q) = contents q"
    and get_cons: "inv q \<Longrightarrow> contents q = x # xs \<Longrightarrow> fst (get q) = x \<and> contents (snd (get q)) = xs"
    and within: "inv q \<Longrightarrow> length (contents q) \<le> cap"
begin

lemma inv_puts: "inv q \<Longrightarrow> inv (fold put xs q)"
  by (induction xs arbitrary: q) (auto intro: inv_put)

lemma puts_contents: "inv q \<Longrightarrow> contents (fold put xs q) = take cap (contents q @ xs)"
proof (induction xs arbitrary: q)
  case Nil
  then show ?case using within [OF Nil.prems] by simp
next
  case (Cons x xs)
  note IH = Cons.IH [OF inv_put [OF Cons.prems], of x]
  show ?case
  proof (cases "length (contents q) < cap")
    case True
    then show ?thesis using IH put_below [OF Cons.prems True] by simp
  next
    case False
    with within [OF Cons.prems] have "length (contents q) = cap" by simp
    then show ?thesis using IH put_full [OF Cons.prems False] by simp
  qed
qed

primrec gets :: "nat \<Rightarrow> 'q \<Rightarrow> 'a list \<times> 'q" where
  "gets 0 q = ([], q)"
| "gets (Suc n) q = (let (x, q1) = get q; (xs, q2) = gets n q1 in (x # xs, q2))"

lemma gets_contents:
  "inv q \<Longrightarrow> n \<le> length (contents q) \<Longrightarrow>
     fst (gets n q) = take n (contents q) \<and> contents (snd (gets n q)) = drop n (contents q)
     \<and> inv (snd (gets n q))"
proof (induction n arbitrary: q)
  case 0
  then show ?case by simp
next
  case (Suc n)
  then obtain x xs where c: "contents q = x # xs" by (cases "contents q") auto
  obtain y q1 where g: "get q = (y, q1)" by fastforce
  with get_cons [OF Suc.prems(1) c] inv_get [OF Suc.prems(1)] c have "y = x" "contents q1 = xs" "inv q1"
    by auto
  moreover from this Suc.prems c have "n \<le> length (contents q1)" by simp
  ultimately show ?case using Suc.IH [of q1] c g by (auto simp: Let_def split: prod.splits)
qed

lemma fifo_order:
  assumes "inv q" "contents q = []" "length xs \<le> cap"
  shows "fst (gets (length xs) (fold put xs q)) = xs"
  using assms gets_contents [OF inv_puts [OF assms(1)], of "length xs" xs]
  by (simp add: puts_contents)

end

end
