(* ===== verification/Serial.thy ===== *)
theory Serial
  imports Port_Device Qemu_File Bounded_Queue
begin

text \<open>
  The 16550A UART of \<^verbatim>\<open>hw/serial.c\<close>. The character back end and the clock are the environment:
  \<open>env_write\<close> is the result of \<^verbatim>\<open>qemu_chr_write\<close> of a byte, \<open>env_tiocm\<close> what
  \<^verbatim>\<open>CHR_IOCTL_SERIAL_GET_TIOCM\<close> delivers (\<open>None\<close> for \<^verbatim>\<open>-ENOTSUP\<close>), \<open>env_flags0\<close> the
  indeterminate value of the local \<^verbatim>\<open>flags\<close> that is used when that ioctl fails,
  \<open>env_now\<close> and \<open>env_later\<close> two readings of \<^verbatim>\<open>vm_clock\<close>, \<open>env_ticks\<close> the constant
  \<^verbatim>\<open>ticks_per_sec\<close>. What the UART does to its environment is recorded in order in
  \<open>uart_events\<close>. FIFO indices are natural numbers; the invariant keeps them inside the array.
\<close>

section \<open>State\<close>

abbreviation (input) "UART_LCR_DLAB \<equiv> (0x80::u8)"
abbreviation (input) "UART_IER_MSI \<equiv> (0x08::u8)"
abbreviation (input) "UART_IER_RLSI \<equiv> (0x04::u8)"
abbreviation (input) "UART_IER_THRI \<equiv> (0x02::u8)"
abbreviation (input) "UART_IER_RDI \<equiv> (0x01::u8)"
abbreviation (input) "UART_IIR_NO_INT \<equiv> (0x01::u8)"
abbreviation (input) "UART_IIR_MSI \<equiv> (0x00::u8)"
abbreviation (input) "UART_IIR_THRI \<equiv> (0x02::u8)"
abbreviation (input) "UART_IIR_RDI \<equiv> (0x04::u8)"
abbreviation (input) "UART_IIR_RLSI \<equiv> (0x06::u8)"
abbreviation (input) "UART_IIR_CTI \<equiv> (0x0C::u8)"
abbreviation (input) "UART_IIR_FE \<equiv> (0xC0::u8)"
abbreviation (input) "UART_MCR_LOOP \<equiv> (0x10::u8)"
abbreviation (input) "UART_MSR_DCD \<equiv> (0x80::u8)"
abbreviation (input) "UART_MSR_RI \<equiv> (0x40::u8)"
abbreviation (input) "UART_MSR_DSR \<equiv> (0x20::u8)"
abbreviation (input) "UART_MSR_CTS \<equiv> (0x10::u8)"
abbreviation (input) "UART_MSR_TERI \<equiv> (0x04::u8)"
abbreviation (input) "UART_MSR_ANY_DELTA \<equiv> (0x0F::u8)"
abbreviation (input) "UART_LSR_TEMT \<equiv> (0x40::u8)"
abbreviation (input) "UART_LSR_THRE \<equiv> (0x20::u8)"
abbreviation (input) "UART_LSR_BI \<equiv> (0x10::u8)"
abbreviation (input) "UART_LSR_OE \<equiv> (0x02::u8)"
abbreviation (input) "UART_LSR_DR \<equiv> (0x01::u8)"
abbreviation (input) "UART_LSR_INT_ANY \<equiv> (0x1E::u8)"
abbreviation (input) "UART_FCR_FE \<equiv> (0x01::u8)"
abbreviation (input) "UART_FIFO_LENGTH \<equiv> (16::nat)"
abbreviation (input) "MAX_XMIT_RETRY \<equiv> (4::int)"

datatype fifo_sel = XMIT_FIFO | RECV_FIFO

record serial_fifo =
  fifo_data :: "u8 list"
  fifo_count :: nat
  fifo_itl :: nat
  fifo_tail :: nat
  fifo_head :: nat

datatype uart_timer = Fifo_timeout_timer | Transmit_timer | Modem_status_poll

datatype uart_event =
    Uart_irq int
  | Uart_del_timer uart_timer
  | Uart_mod_timer uart_timer int
  | Chr_set_params int char int int
  | Chr_set_break int
  | Chr_set_tiocm u32
  | Chr_write u8
  | Chr_accept_input

record serial_state =
  divider :: u16
  rbr :: u8
  thr :: u8
  tsr :: u8
  ier :: u8
  iir :: u8
  lcr :: u8
  mcr :: u8
  lsr :: u8
  msr :: u8
  scr :: u8
  fcr :: u8
  thr_ipending :: bool
  last_break_enable :: int
  it_shift :: nat
  baudbase :: int
  tsr_retry :: int
  last_xmit_ts :: int
  recv_fifo :: serial_fifo
  xmit_fifo :: serial_fifo
  timeout_ipending :: bool
  char_transmit_time :: int
  poll_msl :: int
  uart_events :: "uart_event list"

record uart_env =
  env_write :: "u8 \<Rightarrow> int"
  env_tiocm :: "u32 option"
  env_flags0 :: u32
  env_now :: int
  env_later :: int
  env_ticks :: int

definition uemit :: "uart_event \<Rightarrow> serial_state \<Rightarrow> serial_state" where
  "uemit e s = s\<lparr>uart_events := uart_events s @ [e]\<rparr>"

section \<open>FIFOs\<close>

definition get_fifo :: "fifo_sel \<Rightarrow> serial_state \<Rightarrow> serial_fifo" where
  "get_fifo w s = (case w of RECV_FIFO \<Rightarrow> recv_fifo s | XMIT_FIFO \<Rightarrow> xmit_fifo s)"

definition set_fifo :: "fifo_sel \<Rightarrow> serial_fifo \<Rightarrow> serial_state \<Rightarrow> serial_state" where
  "set_fifo w f s = (case w of RECV_FIFO \<Rightarrow> s\<lparr>recv_fifo := f\<rparr> | XMIT_FIFO \<Rightarrow> s\<lparr>xmit_fifo := f\<rparr>)"

definition fifo_clear :: "fifo_sel \<Rightarrow> serial_state \<Rightarrow> serial_state" where
  "fifo_clear w s =
     set_fifo w ((get_fifo w s)\<lparr>fifo_data := replicate UART_FIFO_LENGTH 0, fifo_count := 0,
                               fifo_head := 0, fifo_tail := 0\<rparr>) s"

definition fifo_put :: "fifo_sel \<Rightarrow> u8 \<Rightarrow> serial_state \<Rightarrow> serial_state" where
  "fifo_put w c s =
     (let f = get_fifo w s;
          f1 = (if w = XMIT_FIFO \<or> fifo_count f < UART_FIFO_LENGTH then
                  f\<lparr>fifo_data := (fifo_data f)[fifo_head f := c],
                    fifo_head := (if fifo_head f + 1 = UART_FIFO_LENGTH then 0 else fifo_head f + 1)\<rparr>
                else f)
      in if fifo_count f1 < UART_FIFO_LENGTH
         then set_fifo w (f1\<lparr>fifo_count := fifo_count f1 + 1\<rparr>) s
         else if w = RECV_FIFO then (set_fifo w f1 s)\<lparr>lsr := lsr s OR UART_LSR_OE\<rparr>
         else set_fifo w f1 s)"

definition fifo_get :: "fifo_sel \<Rightarrow> serial_state \<Rightarrow> u8 \<times> serial_state" where
  "fifo_get w s =
     (let f = get_fifo w s in
      if fifo_count f = 0 then (0, s)
      else (fifo_data f ! fifo_tail f,
            set_fifo w (f\<lparr>fifo_tail := (if fifo_tail f + 1 = UART_FIFO_LENGTH then 0 else fifo_tail f + 1),
                          fifo_count := fifo_count f - 1\<rparr>) s))"

section \<open>Interrupt, line parameters, modem status\<close>

definition serial_update_irq :: "serial_state \<Rightarrow> serial_state" where
  "serial_update_irq s =
     (let tmp_iir =
        (if ier s AND UART_IER_RLSI \<noteq> 0 \<and> lsr s AND UART_LSR_INT_ANY \<noteq> 0 then UART_IIR_RLSI
         else if ier s AND UART_IER_RDI \<noteq> 0 \<and> timeout_ipending s then UART_IIR_CTI
         else if ier s AND UART_IER_RDI \<noteq> 0 \<and> lsr s AND UART_LSR_DR \<noteq> 0
                 \<and> (fcr s AND UART_FCR_FE = 0 \<or> fifo_count (recv_fifo s) \<ge> fifo_itl (recv_fifo s))
              then UART_IIR_RDI
         else if ier s AND UART_IER_THRI \<noteq> 0 \<and> thr_ipending s then UART_IIR_THRI
         else if ier s AND UART_IER_MSI \<noteq> 0 \<and> msr s AND UART_MSR_ANY_DELTA \<noteq> 0 then UART_IIR_MSI
         else UART_IIR_NO_INT)
      in uemit (Uart_irq (if tmp_iir \<noteq> UART_IIR_NO_INT then 1 else 0))
           (s\<lparr>iir := tmp_iir OR (iir s AND 0xF0)\<rparr>))"

text \<open>\<^verbatim>\<open>ticks_per_sec / speed\<close> traps when the programmed speed is 0.\<close>

definition serial_update_parameters :: "uart_env \<Rightarrow> serial_state \<Rightarrow> serial_state res" where
  "serial_update_parameters e s =
     (if divider s = 0 then Inr s
      else
        (let parity = (if lcr s AND 0x08 \<noteq> 0 then (if lcr s AND 0x10 \<noteq> 0 then CHR ''E'' else CHR ''O'')
                       else CHR ''N'');
             frame_size0 = (if lcr s AND 0x08 \<noteq> 0 then 1 else 0);
             stop_bits = (if lcr s AND 0x04 \<noteq> 0 then 2 else 1);
             data_bits = uint (lcr s AND 0x03) + 5;
             frame_size = frame_size0 + (data_bits + stop_bits);
             speed = baudbase s div uint (divider s)
         in if speed = 0 then Inl Div_by_zero
            else Inr (uemit (Chr_set_params speed parity data_bits stop_bits)
                   (s\<lparr>char_transmit_time := (env_ticks e div speed) * frame_size\<rparr>))))"

definition msr_line :: "u32 \<Rightarrow> u32 \<Rightarrow> u8 \<Rightarrow> u8 \<Rightarrow> u8" where
  "msr_line flags tiocm b m = (if flags AND tiocm \<noteq> 0 then m OR b else m AND NOT b)"

definition serial_update_msl :: "uart_env \<Rightarrow> serial_state \<Rightarrow> serial_state" where
  "serial_update_msl e s =
     (let s1 = uemit (Uart_del_timer Modem_status_poll) s in
      case env_tiocm e of
        None \<Rightarrow> s1\<lparr>poll_msl := -1\<rparr>
      | Some flags \<Rightarrow>
          (let omsr = msr s1;
               m1 = msr_line flags 0x020 UART_MSR_CTS omsr;
               m2 = msr_line flags 0x100 UART_MSR_DSR m1;
               m3 = msr_line flags 0x040 UART_MSR_DCD m2;
               m4 = msr_line flags 0x080 UART_MSR_RI m3;
               s2 = s1\<lparr>msr := m4\<rparr>;
               s3 = (if m4 \<noteq> omsr then
                       (let m5 = m4 OR (drop_bit 4 m4 XOR drop_bit 4 omsr);
                            m6 = (if m5 AND UART_MSR_TERI \<noteq> 0 \<and> omsr AND UART_MSR_RI = 0
                                  then m5 AND NOT UART_MSR_TERI else m5)
                        in serial_update_irq (s2\<lparr>msr := m6\<rparr>))
                     else s2)
           in if poll_msl s3 \<noteq> 0
              then uemit (Uart_mod_timer Modem_status_poll (env_now e + env_ticks e div 100)) s3
              else s3))"

section \<open>Receive and transmit\<close>

definition serial_receive1 :: "uart_env \<Rightarrow> u8 list \<Rightarrow> serial_state \<Rightarrow> serial_state" where
  "serial_receive1 e buf s =
     serial_update_irq
       (if fcr s AND UART_FCR_FE \<noteq> 0 then
          (let s1 = fold (fifo_put RECV_FIFO) buf s;
               s2 = s1\<lparr>lsr := lsr s1 OR UART_LSR_DR\<rparr>
           in uemit (Uart_mod_timer Fifo_timeout_timer (env_now e + char_transmit_time s2 * 4)) s2)
        else s\<lparr>rbr := hd buf, lsr := lsr s OR UART_LSR_DR\<rparr>)"

definition serial_xmit_load :: "serial_state \<Rightarrow> serial_state" where
  "serial_xmit_load s =
     (if tsr_retry s \<le> 0 then
        (if fcr s AND UART_FCR_FE \<noteq> 0 then
           (let (c, s1) = fifo_get XMIT_FIFO s; s2 = s1\<lparr>tsr := c\<rparr>
            in if fifo_count (xmit_fifo s2) = 0 then s2\<lparr>lsr := lsr s2 OR UART_LSR_THRE\<rparr> else s2)
         else s\<lparr>tsr := thr s, lsr := lsr s OR UART_LSR_THRE\<rparr>)
      else s)"

definition serial_xmit_done :: "uart_env \<Rightarrow> serial_state \<Rightarrow> serial_state" where
  "serial_xmit_done e s =
     (let s1 = s\<lparr>last_xmit_ts := env_later e\<rparr> in
      if lsr s1 AND UART_LSR_THRE = 0
      then uemit (Uart_mod_timer Transmit_timer (last_xmit_ts s1 + char_transmit_time s1)) s1
      else serial_update_irq (s1\<lparr>lsr := lsr s1 OR UART_LSR_TEMT, thr_ipending := True\<rparr>))"

definition serial_xmit :: "uart_env \<Rightarrow> serial_state \<Rightarrow> serial_state" where
  "serial_xmit e s =
     (let new_xmit_ts = env_now e; s1 = serial_xmit_load s in
      if mcr s1 AND UART_MCR_LOOP \<noteq> 0 then serial_xmit_done e (serial_receive1 e [tsr s1] s1)
      else
        (let s2 = uemit (Chr_write (tsr s1)) s1 in
         if env_write e (tsr s1) \<noteq> 1 then
           (if tsr_retry s2 > 0 \<and> tsr_retry s2 \<le> MAX_XMIT_RETRY then
              uemit (Uart_mod_timer Transmit_timer (new_xmit_ts + char_transmit_time s2))
                (s2\<lparr>tsr_retry := tsr_retry s2 + 1\<rparr>)
            else if poll_msl s2 < 0 then serial_xmit_done e (s2\<lparr>tsr_retry := -1\<rparr>)
            else serial_xmit_done e s2)
         else serial_xmit_done e (s2\<lparr>tsr_retry := 0\<rparr>)))"

section \<open>Register writes\<close>

definition serial_write_thr :: "uart_env \<Rightarrow> u32 \<Rightarrow> serial_state \<Rightarrow> serial_state" where
  "serial_write_thr e val s =
     (let s1 = s\<lparr>thr := ucast val\<rparr>;
          s2 = (if fcr s1 AND UART_FCR_FE \<noteq> 0 then
                  (let t = fifo_put XMIT_FIFO (thr s1) s1
                   in serial_update_irq (t\<lparr>thr_ipending := False,
                        lsr := (lsr t AND NOT UART_LSR_TEMT) AND NOT UART_LSR_THRE\<rparr>))
                else serial_update_irq (s1\<lparr>thr_ipending := False, lsr := lsr s1 AND NOT UART_LSR_THRE\<rparr>))
      in serial_xmit e s2)"

definition serial_write_ier :: "uart_env \<Rightarrow> u32 \<Rightarrow> serial_state \<Rightarrow> serial_state" where
  "serial_write_ier e val s =
     (let s1 = s\<lparr>ier := ucast (val AND 0x0f)\<rparr>;
          s2 = (if poll_msl s1 \<ge> 0 then
                  (if ier s1 AND UART_IER_MSI \<noteq> 0 then serial_update_msl e (s1\<lparr>poll_msl := 1\<rparr>)
                   else (uemit (Uart_del_timer Modem_status_poll) s1)\<lparr>poll_msl := 0\<rparr>)
                else s1)
      in if lsr s2 AND UART_LSR_THRE \<noteq> 0 then serial_update_irq (s2\<lparr>thr_ipending := True\<rparr>) else s2)"

definition fcr_itl :: "u8 \<Rightarrow> nat" where
  "fcr_itl val = (if val AND 0xC0 = 0x00 then 1 else if val AND 0xC0 = 0x40 then 4
                  else if val AND 0xC0 = 0x80 then 8 else 14)"

definition serial_write_fcr :: "u32 \<Rightarrow> serial_state \<Rightarrow> serial_state" where
  "serial_write_fcr val0 s =
     (let v0 = ucast (val0 AND 0xFF) :: u8 in
      if fcr s = v0 then s
      else
        (let val = (if (v0 XOR fcr s) AND UART_FCR_FE \<noteq> 0 then v0 OR 0x06 else v0);
             s1 = (if val AND 0x02 \<noteq> 0 then
                     fifo_clear RECV_FIFO ((uemit (Uart_del_timer Fifo_timeout_timer) s)\<lparr>timeout_ipending := False\<rparr>)
                   else s);
             s2 = (if val AND 0x04 \<noteq> 0 then fifo_clear XMIT_FIFO s1 else s1);
             s3 = (if val AND UART_FCR_FE \<noteq> 0
                   then s2\<lparr>iir := iir s2 OR UART_IIR_FE, recv_fifo := (recv_fifo s2)\<lparr>fifo_itl := fcr_itl val\<rparr>\<rparr>
                   else s2\<lparr>iir := iir s2 AND NOT UART_IIR_FE\<rparr>)
         in serial_update_irq (s3\<lparr>fcr := val AND 0xC9\<rparr>)))"

definition serial_write_lcr :: "uart_env \<Rightarrow> u32 \<Rightarrow> serial_state \<Rightarrow> serial_state res" where
  "serial_write_lcr e val s =
     res_bind (serial_update_parameters e (s\<lparr>lcr := ucast val\<rparr>)) (\<lambda>s1.
       let break_enable = uint (drop_bit 6 val AND 1) in
       Inr (if break_enable \<noteq> last_break_enable s1
            then uemit (Chr_set_break break_enable) (s1\<lparr>last_break_enable := break_enable\<rparr>) else s1))"

definition serial_write_mcr :: "uart_env \<Rightarrow> u32 \<Rightarrow> serial_state \<Rightarrow> serial_state" where
  "serial_write_mcr e val s =
     (let old_mcr = mcr s; s1 = s\<lparr>mcr := ucast (val AND 0x1f)\<rparr> in
      if val AND 0x10 \<noteq> 0 then s1
      else if poll_msl s1 \<ge> 0 \<and> old_mcr \<noteq> mcr s1 then
        (let flags0 = (case env_tiocm e of Some fl \<Rightarrow> fl | None \<Rightarrow> env_flags0 e);
             flags1 = flags0 AND NOT (0x004 OR 0x002);
             flags2 = (if val AND 0x02 \<noteq> 0 then flags1 OR 0x004 else flags1);
             flags3 = (if val AND 0x01 \<noteq> 0 then flags2 OR 0x002 else flags2)
         in uemit (Uart_mod_timer Modem_status_poll (env_now e + char_transmit_time s1))
              (uemit (Chr_set_tiocm flags3) s1))
      else s1)"

definition serial_ioport_write :: "uart_env \<Rightarrow> serial_state \<Rightarrow> u32 \<Rightarrow> u32 \<Rightarrow> serial_state res" where
  "serial_ioport_write e s addr0 val =
     (let addr = addr0 AND 7 in
      if addr = 0 then
        (if lcr s AND UART_LCR_DLAB \<noteq> 0
         then serial_update_parameters e (s\<lparr>divider := (divider s AND 0xff00) OR ucast val\<rparr>)
         else Inr (serial_write_thr e val s))
      else if addr = 1 then
        (if lcr s AND UART_LCR_DLAB \<noteq> 0
         then serial_update_parameters e (s\<lparr>divider := (divider s AND 0x00ff) OR ucast (push_bit 8 val)\<rparr>)
         else Inr (serial_write_ier e val s))
      else if addr = 2 then Inr (serial_write_fcr val s)
      else if addr = 3 then serial_write_lcr e val s
      else if addr = 4 then Inr (serial_write_mcr e val s)
      else if addr = 5 \<or> addr = 6 then Inr s
      else Inr (s\<lparr>scr := ucast val\<rparr>))"

section \<open>Register reads\<close>

definition serial_read_rbr :: "uart_env \<Rightarrow> serial_state \<Rightarrow> u32 \<times> serial_state" where
  "serial_read_rbr e s =
     (let (ret, s1) =
        (if fcr s AND UART_FCR_FE \<noteq> 0 then
           (let (c, t) = fifo_get RECV_FIFO s;
                t1 = (if fifo_count (recv_fifo t) = 0
                      then t\<lparr>lsr := lsr t AND NOT (UART_LSR_DR OR UART_LSR_BI)\<rparr>
                      else uemit (Uart_mod_timer Fifo_timeout_timer (env_now e + char_transmit_time t * 4)) t)
            in (c, t1\<lparr>timeout_ipending := False\<rparr>))
         else (rbr s, s\<lparr>lsr := lsr s AND NOT (UART_LSR_DR OR UART_LSR_BI)\<rparr>));
          s2 = serial_update_irq s1
      in (ucast ret, if mcr s2 AND UART_MCR_LOOP = 0 then uemit Chr_accept_input s2 else s2))"

definition serial_read_msr :: "uart_env \<Rightarrow> serial_state \<Rightarrow> u32 \<times> serial_state" where
  "serial_read_msr e s =
     (if mcr s AND UART_MCR_LOOP \<noteq> 0 then
        (push_bit 4 (ucast (mcr s AND 0x0c)) OR push_bit 3 (ucast (mcr s AND 0x02))
           OR push_bit 5 (ucast (mcr s AND 0x01)), s)
      else
        (let s1 = (if poll_msl s \<ge> 0 then serial_update_msl e s else s);
             ret = ucast (msr s1)
         in (ret, if msr s1 AND UART_MSR_ANY_DELTA \<noteq> 0
                  then serial_update_irq (s1\<lparr>msr := msr s1 AND 0xF0\<rparr>) else s1)))"

definition serial_ioport_read :: "uart_env \<Rightarrow> serial_state \<Rightarrow> u32 \<Rightarrow> u32 \<times> serial_state" where
  "serial_ioport_read e s addr0 =
     (let addr = addr0 AND 7 in
      if addr = 0 then
        (if lcr s AND UART_LCR_DLAB \<noteq> 0 then (ucast (divider s AND 0xff), s) else serial_read_rbr e s)
      else if addr = 1 then
        (if lcr s AND UART_LCR_DLAB \<noteq> 0 then (ucast (drop_bit 8 (divider s) AND 0xff), s)
         else (ucast (ier s), s))
      else if addr = 2 then
        (ucast (iir s), if iir s AND UART_IIR_THRI \<noteq> 0
                        then serial_update_irq (s\<lparr>thr_ipending := False\<rparr>) else s)
      else if addr = 3 then (ucast (lcr s), s)
      else if addr = 4 then (ucast (mcr s), s)
      else if addr = 5 then
        (ucast (lsr s), if lsr s AND (UART_LSR_BI OR UART_LSR_OE) \<noteq> 0
                        then serial_update_irq (s\<lparr>lsr := lsr s AND NOT (UART_LSR_BI OR UART_LSR_OE)\<rparr>)
                        else s)
      else if addr = 6 then serial_read_msr e s
      else (ucast (scr s), s))"

section \<open>Back-end callbacks, reset, snapshot\<close>

definition serial_can_receive :: "serial_state \<Rightarrow> int" where
  "serial_can_receive s =
     (if fcr s AND UART_FCR_FE \<noteq> 0 then
        (if fifo_count (recv_fifo s) < UART_FIFO_LENGTH then
           (if fifo_count (recv_fifo s) \<le> fifo_itl (recv_fifo s)
            then int (fifo_itl (recv_fifo s)) - int (fifo_count (recv_fifo s)) else 1)
         else 0)
      else if lsr s AND UART_LSR_DR = 0 then 1 else 0)"

definition serial_receive_break :: "serial_state \<Rightarrow> serial_state" where
  "serial_receive_break s =
     serial_update_irq (s\<lparr>rbr := 0, lsr := lsr s OR (UART_LSR_BI OR UART_LSR_DR)\<rparr>)"

definition fifo_timeout_int :: "serial_state \<Rightarrow> serial_state" where
  "fifo_timeout_int s =
     (if fifo_count (recv_fifo s) \<noteq> 0 then serial_update_irq (s\<lparr>timeout_ipending := True\<rparr>) else s)"

definition serial_event :: "int \<Rightarrow> serial_state \<Rightarrow> serial_state" where
  "serial_event event s = (if event = 0 then serial_receive_break s else s)"

definition serial_save :: "serial_state \<Rightarrow> qemu_file \<Rightarrow> qemu_file res" where
  "serial_save s f =
     res_bind (qemu_put_be16 (divider s) f) (\<lambda>f.
     res_bind (qemu_put_8s (rbr s) f) (\<lambda>f.
     res_bind (qemu_put_8s (ier s) f) (\<lambda>f.
     res_bind (qemu_put_8s (iir s) f) (\<lambda>f.
     res_bind (qemu_put_8s (lcr s) f) (\<lambda>f.
     res_bind (qemu_put_8s (mcr s) f) (\<lambda>f.
     res_bind (qemu_put_8s (lsr s) f) (\<lambda>f.
     res_bind (qemu_put_8s (msr s) f) (\<lambda>f.
     res_bind (qemu_put_8s (scr s) f) (\<lambda>f.
     qemu_put_8s (fcr s) f)))))))))"

definition serial_load ::
  "uart_env \<Rightarrow> serial_state \<Rightarrow> int \<Rightarrow> qemu_file \<Rightarrow> ((int \<times> serial_state) \<times> qemu_file) res" where
  "serial_load e s version_id f =
     (if version_id > 3 then Inr ((-22, s), f)
      else
        res_bind (if version_id \<ge> 2 then qemu_get_be16 f
                  else res_bind (qemu_get_byte f) (\<lambda>(b, f). Inr (ucast b, f))) (\<lambda>(v0, f).
        res_bind (qemu_get_byte f) (\<lambda>(v1, f).
        res_bind (qemu_get_byte f) (\<lambda>(v2, f).
        res_bind (qemu_get_byte f) (\<lambda>(v3, f).
        res_bind (qemu_get_byte f) (\<lambda>(v4, f).
        res_bind (qemu_get_byte f) (\<lambda>(v5, f).
        res_bind (qemu_get_byte f) (\<lambda>(v6, f).
        res_bind (qemu_get_byte f) (\<lambda>(v7, f).
        res_bind (qemu_get_byte f) (\<lambda>(v8, f).
        res_bind (if version_id \<ge> 2 then qemu_get_byte f else Inr (0, f)) (\<lambda>(vf, f).
        res_bind (serial_ioport_write e (s\<lparr>divider := v0, rbr := v1, ier := v2, iir := v3, lcr := v4,
                    mcr := v5, lsr := v6, msr := v7, scr := v8\<rparr>) 2 (ucast vf)) (\<lambda>s1.
        Inr ((0, s1), f)))))))))))))"

definition serial_reset :: "uart_env \<Rightarrow> serial_state \<Rightarrow> serial_state" where
  "serial_reset e s =
     (let s1 = s\<lparr>rbr := 0, ier := 0, iir := UART_IIR_NO_INT, lcr := 0,
                 lsr := UART_LSR_TEMT OR UART_LSR_THRE,
                 msr := UART_MSR_DCD OR UART_MSR_DSR OR UART_MSR_CTS, divider := 0x0C, mcr := 0x08,
                 scr := 0, tsr_retry := 0, char_transmit_time := (env_ticks e div 9600) * 9,
                 poll_msl := 0\<rparr>;
          s2 = fifo_clear XMIT_FIFO (fifo_clear RECV_FIFO s1)
      in uemit (Uart_irq 0)
           (s2\<lparr>last_xmit_ts := env_now e, thr_ipending := False, last_break_enable := 0\<rparr>))"

definition serial_zero :: serial_state where
  "serial_zero =
     \<lparr>divider = 0, rbr = 0, thr = 0, tsr = 0, ier = 0, iir = 0, lcr = 0, mcr = 0, lsr = 0, msr = 0,
      scr = 0, fcr = 0, thr_ipending = False, last_break_enable = 0, it_shift = 0, baudbase = 0,
      tsr_retry = 0, last_xmit_ts = 0,
      recv_fifo = \<lparr>fifo_data = replicate 16 0, fifo_count = 0, fifo_itl = 0, fifo_tail = 0, fifo_head = 0\<rparr>,
      xmit_fifo = \<lparr>fifo_data = replicate 16 0, fifo_count = 0, fifo_itl = 0, fifo_tail = 0, fifo_head = 0\<rparr>,
      timeout_ipending = False, char_transmit_time = 0, poll_msl = 0, uart_events = []\<rparr>"

definition serial_init :: "uart_env \<Rightarrow> int \<Rightarrow> serial_state" where
  "serial_init e base_baud = serial_reset e (serial_zero\<lparr>baudbase := base_baud\<rparr>)"

definition serial_mm_readb :: "uart_env \<Rightarrow> serial_state \<Rightarrow> u32 \<Rightarrow> u32 \<times> serial_state" where
  "serial_mm_readb e s addr =
     (let (v, s1) = serial_ioport_read e s (drop_bit (it_shift s) addr) in (v AND 0xFF, s1))"

definition serial_mm_writeb :: "uart_env \<Rightarrow> serial_state \<Rightarrow> u32 \<Rightarrow> u32 \<Rightarrow> serial_state res" where
  "serial_mm_writeb e s addr val = serial_ioport_write e s (drop_bit (it_shift s) addr) (val AND 0xFF)"

definition serial_mm_readw :: "uart_env \<Rightarrow> serial_state \<Rightarrow> u32 \<Rightarrow> u32 \<times> serial_state" where
  "serial_mm_readw e s addr =
     (let (v, s1) = serial_ioport_read e s (drop_bit (it_shift s) addr) in (v AND 0xFFFF, s1))"

definition serial_mm_writew :: "uart_env \<Rightarrow> serial_state \<Rightarrow> u32 \<Rightarrow> u32 \<Rightarrow> serial_state res" where
  "serial_mm_writew e s addr val = serial_ioport_write e s (drop_bit (it_shift s) addr) (val AND 0xFFFF)"

definition serial_mm_readl :: "uart_env \<Rightarrow> serial_state \<Rightarrow> u32 \<Rightarrow> u32 \<times> serial_state" where
  "serial_mm_readl e s addr = serial_ioport_read e s (drop_bit (it_shift s) addr)"

definition serial_mm_writel :: "uart_env \<Rightarrow> serial_state \<Rightarrow> u32 \<Rightarrow> u32 \<Rightarrow> serial_state res" where
  "serial_mm_writel e s addr val = serial_ioport_write e s (drop_bit (it_shift s) addr) val"

section \<open>FIFO lemmas\<close>

definition fifo_ok :: "serial_fifo \<Rightarrow> bool" where
  "fifo_ok f \<longleftrightarrow> length (fifo_data f) = 16 \<and> fifo_head f < 16 \<and> fifo_tail f < 16 \<and> fifo_count f \<le> 16"

definition recv_ok :: "serial_state \<Rightarrow> bool" where
  "recv_ok s \<longleftrightarrow> fifo_ok (recv_fifo s)
     \<and> fifo_head (recv_fifo s) = (fifo_tail (recv_fifo s) + fifo_count (recv_fifo s)) mod 16"

definition recv_contents :: "serial_state \<Rightarrow> u8 list" where
  "recv_contents s = ring (fifo_data (recv_fifo s)) (fifo_tail (recv_fifo s)) (fifo_count (recv_fifo s))"

lemma wrap_16: "n < 16 \<Longrightarrow> (if n + 1 = 16 then 0 else n + 1) = (n + 1) mod (16::nat)"
  by auto

lemma recv_put_below:
  assumes "recv_ok s" "length (recv_contents s) < 16"
  shows "recv_contents (fifo_put RECV_FIFO c s) = recv_contents s @ [c]
    \<and> recv_ok (fifo_put RECV_FIFO c s) \<and> lsr (fifo_put RECV_FIFO c s) = lsr s"
proof -
  let ?f = "recv_fifo s"
  have l: "length (fifo_data ?f) = 16" and h: "fifo_head ?f = (fifo_tail ?f + fifo_count ?f) mod 16"
    and c: "fifo_count ?f < 16"
    using assms by (auto simp: recv_ok_def fifo_ok_def recv_contents_def)
  have put: "fifo_put RECV_FIFO c s = s\<lparr>recv_fifo := ?f\<lparr>fifo_data := (fifo_data ?f)[fifo_head ?f := c],
      fifo_head := (fifo_head ?f + 1) mod 16, fifo_count := fifo_count ?f + 1\<rparr>\<rparr>"
    using assms c wrap_16 [of "fifo_head ?f"]
    by (simp add: fifo_put_def get_fifo_def set_fifo_def recv_ok_def fifo_ok_def Let_def)
  have "recv_contents (fifo_put RECV_FIFO c s) = recv_contents s @ [c]"
    using ring_put [of "fifo_count ?f" "fifo_data ?f" "fifo_tail ?f" c] c l
    by (simp add: put recv_contents_def h)
  moreover have "recv_ok (fifo_put RECV_FIFO c s)"
    using assms c h by (simp add: put recv_ok_def fifo_ok_def mod_Suc_eq)
  ultimately show ?thesis by (simp add: put)
qed

lemma recv_put_full:
  assumes "recv_ok s" "\<not> length (recv_contents s) < 16"
  shows "fifo_put RECV_FIFO c s = s\<lparr>lsr := lsr s OR UART_LSR_OE\<rparr>"
  using assms by (simp add: fifo_put_def get_fifo_def set_fifo_def recv_contents_def Let_def)

lemma recv_get:
  assumes "recv_ok s" "recv_contents s = x # xs"
  shows "fst (fifo_get RECV_FIFO s) = x \<and> recv_contents (snd (fifo_get RECV_FIFO s)) = xs
    \<and> recv_ok (snd (fifo_get RECV_FIFO s))"
proof -
  let ?f = "recv_fifo s"
  have l: "length (fifo_data ?f) = 16" and h: "fifo_head ?f = (fifo_tail ?f + fifo_count ?f) mod 16"
    and t: "fifo_tail ?f < 16" and c: "0 < fifo_count ?f" and c16: "fifo_count ?f \<le> 16"
    using assms length_ring [of "fifo_data ?f" "fifo_tail ?f" "fifo_count ?f"]
    by (auto simp: recv_ok_def fifo_ok_def recv_contents_def)
  have get: "fifo_get RECV_FIFO s = (fifo_data ?f ! fifo_tail ?f,
      s\<lparr>recv_fifo := ?f\<lparr>fifo_tail := (fifo_tail ?f + 1) mod 16, fifo_count := fifo_count ?f - 1\<rparr>\<rparr>)"
    using c wrap_16 [OF t] by (simp add: fifo_get_def get_fifo_def set_fifo_def Let_def)
  have "recv_contents s = fifo_data ?f ! fifo_tail ?f #
      ring (fifo_data ?f) ((fifo_tail ?f + 1) mod 16) (fifo_count ?f - 1)"
    unfolding recv_contents_def using ring_get [OF c, of "fifo_tail ?f" "fifo_data ?f"] t l by simp
  moreover have "((fifo_tail ?f + 1) mod 16 + (fifo_count ?f - 1)) mod 16 = fifo_head ?f"
    unfolding h by (rule ring_advance [OF c])
  ultimately show ?thesis
    using assms c16 by (simp add: get recv_contents_def recv_ok_def fifo_ok_def)
qed

lemma recv_get_ok: "recv_ok s \<Longrightarrow> recv_ok (snd (fifo_get RECV_FIFO s))"
  using recv_get [of s] by (cases "recv_contents s") (auto simp: recv_contents_def fifo_get_def get_fifo_def Let_def)

lemma recv_put_ok: "recv_ok s \<Longrightarrow> recv_ok (fifo_put RECV_FIFO c s)"
  using recv_put_below [of s c] recv_put_full [of s c]
  by (cases "length (recv_contents s) < 16") (auto simp: recv_ok_def)

interpretation recvq: bounded_queue recv_ok recv_contents 16 "fifo_put RECV_FIFO" "fifo_get RECV_FIFO"
proof (unfold_locales, goal_cases)
  case (4 q x)
  then show ?case using recv_put_full [of q x] by (simp add: recv_contents_def)
next
  case (6 q)
  then show ?case by (simp add: recv_contents_def recv_ok_def fifo_ok_def)
qed (auto simp: recv_put_ok recv_get_ok recv_put_below dest: recv_get)

section \<open>Invariant\<close>

text \<open>The level last driven on the interrupt output, from the recorded events.\<close>

definition uart_line :: "serial_state \<Rightarrow> int" where
  "uart_line s = foldl (\<lambda>l e. case e of Uart_irq x \<Rightarrow> x | _ \<Rightarrow> l) 0 (uart_events s)"

definition uart_core :: "serial_state \<Rightarrow> bool" where
  "uart_core s \<longleftrightarrow> recv_ok s \<and> fifo_ok (xmit_fifo s) \<and> 65535 \<le> baudbase s \<and> fcr s AND 0xC9 = fcr s"

definition uart_lined :: "serial_state \<Rightarrow> bool" where
  "uart_lined s \<longleftrightarrow> uart_line s = (if iir s AND UART_IIR_NO_INT = 0 then 1 else 0)"

definition uart_inv :: "serial_state \<Rightarrow> bool" where
  "uart_inv s \<longleftrightarrow> uart_core s \<and> uart_lined s"

lemmas uart_defs = uart_inv_def uart_core_def recv_ok_def uart_lined_def uart_line_def uemit_def

lemma update_irq_fields [simp]:
  "recv_fifo (serial_update_irq s) = recv_fifo s" "xmit_fifo (serial_update_irq s) = xmit_fifo s"
  "baudbase (serial_update_irq s) = baudbase s" "fcr (serial_update_irq s) = fcr s"
  "lsr (serial_update_irq s) = lsr s" "mcr (serial_update_irq s) = mcr s"
  "lcr (serial_update_irq s) = lcr s" "rbr (serial_update_irq s) = rbr s"
  "ier (serial_update_irq s) = ier s" "msr (serial_update_irq s) = msr s"
  "divider (serial_update_irq s) = divider s" "scr (serial_update_irq s) = scr s"
  "poll_msl (serial_update_irq s) = poll_msl s" "thr_ipending (serial_update_irq s) = thr_ipending s"
  "tsr_retry (serial_update_irq s) = tsr_retry s" "thr (serial_update_irq s) = thr s"
  "char_transmit_time (serial_update_irq s) = char_transmit_time s" "tsr (serial_update_irq s) = tsr s"
  by (simp_all add: serial_update_irq_def uemit_def Let_def)

lemma uemit_fields [simp]:
  "recv_fifo (uemit e s) = recv_fifo s" "xmit_fifo (uemit e s) = xmit_fifo s"
  "baudbase (uemit e s) = baudbase s" "fcr (uemit e s) = fcr s" "iir (uemit e s) = iir s"
  "lsr (uemit e s) = lsr s" "mcr (uemit e s) = mcr s" "lcr (uemit e s) = lcr s"
  "rbr (uemit e s) = rbr s" "ier (uemit e s) = ier s" "msr (uemit e s) = msr s"
  "divider (uemit e s) = divider s" "scr (uemit e s) = scr s" "poll_msl (uemit e s) = poll_msl s"
  "thr_ipending (uemit e s) = thr_ipending s" "tsr_retry (uemit e s) = tsr_retry s"
  "tsr (uemit e s) = tsr s" "thr (uemit e s) = thr s"
  by (simp_all add: uemit_def)

lemma uemit_line [simp]: "uart_line (uemit e s) = (case e of Uart_irq x \<Rightarrow> x | _ \<Rightarrow> uart_line s)"
  by (cases e) (simp_all add: uemit_def uart_line_def)

lemma update_irq_lined: "uart_lined (serial_update_irq s)"
proof -
  have low: "(t OR (x AND 0xF0)) AND 1 = t AND (1::u8)" for t x
    by (rule bit_word_eqI) (auto simp: bit_simps bit_1_iff)
  show ?thesis
    unfolding uart_lined_def by (simp add: serial_update_irq_def Let_def low)
qed

lemma inv_update_irq: "uart_core s \<Longrightarrow> uart_inv (serial_update_irq s)"
  by (simp add: uart_inv_def update_irq_lined) (simp add: uart_core_def recv_ok_def)

lemma core_cong:
  "uart_core s \<Longrightarrow> recv_fifo t = recv_fifo s \<Longrightarrow> xmit_fifo t = xmit_fifo s \<Longrightarrow> baudbase t = baudbase s \<Longrightarrow>
     fcr t = fcr s \<Longrightarrow> uart_core t"
  by (simp add: uart_core_def recv_ok_def)

lemma inv_cong:
  "uart_inv s \<Longrightarrow> recv_fifo t = recv_fifo s \<Longrightarrow> xmit_fifo t = xmit_fifo s \<Longrightarrow> baudbase t = baudbase s \<Longrightarrow>
     fcr t = fcr s \<Longrightarrow> iir t = iir s \<Longrightarrow> uart_line t = uart_line s \<Longrightarrow> uart_inv t"
  by (simp add: uart_defs)

lemma inv_core: "uart_inv s \<Longrightarrow> uart_core s"
  by (simp add: uart_inv_def)

lemma uart_line_upd [simp]:
  "uart_line (s\<lparr>divider := a\<rparr>) = uart_line s" "uart_line (s\<lparr>char_transmit_time := b\<rparr>) = uart_line s"
  "uart_line (s\<lparr>poll_msl := b\<rparr>) = uart_line s" "uart_line (s\<lparr>lcr := c\<rparr>) = uart_line s"
  "uart_line (s\<lparr>last_break_enable := b\<rparr>) = uart_line s" "uart_line (s\<lparr>mcr := c\<rparr>) = uart_line s"
  "uart_line (s\<lparr>scr := c\<rparr>) = uart_line s" "uart_line (s\<lparr>msr := c\<rparr>) = uart_line s"
  "uart_line (s\<lparr>ier := c\<rparr>) = uart_line s" "uart_line (s\<lparr>tsr_retry := b\<rparr>) = uart_line s"
  "uart_line (s\<lparr>last_xmit_ts := b\<rparr>) = uart_line s" "uart_line (s\<lparr>tsr := c\<rparr>) = uart_line s"
  "uart_line (s\<lparr>lsr := c\<rparr>) = uart_line s" "uart_line (s\<lparr>xmit_fifo := fi\<rparr>) = uart_line s"
  "uart_line (s\<lparr>recv_fifo := fi\<rparr>) = uart_line s" "uart_line (s\<lparr>thr := c\<rparr>) = uart_line s"
  by (simp_all add: uart_line_def)

lemma xmit_put_ok: "uart_core s \<Longrightarrow> uart_core (fifo_put XMIT_FIFO c s)"
  by (auto simp: uart_core_def recv_ok_def fifo_ok_def fifo_put_def get_fifo_def set_fifo_def Let_def)

lemma xmit_get_ok: "uart_core s \<Longrightarrow> uart_core (snd (fifo_get XMIT_FIFO s))"
  by (auto simp: uart_core_def recv_ok_def fifo_ok_def fifo_get_def get_fifo_def set_fifo_def Let_def)

lemma recv_put_core: "uart_core s \<Longrightarrow> uart_core (fifo_put RECV_FIFO c s)"
  using recv_put_ok [of s c]
  by (auto simp: uart_core_def fifo_put_def get_fifo_def set_fifo_def Let_def)

lemma recv_get_core: "uart_core s \<Longrightarrow> uart_core (snd (fifo_get RECV_FIFO s))"
  using recv_get_ok [of s]
  by (auto simp: uart_core_def fifo_get_def get_fifo_def set_fifo_def Let_def)

lemma clear_core: "uart_core s \<Longrightarrow> uart_core (fifo_clear w s)"
  by (cases w) (auto simp: uart_core_def recv_ok_def fifo_ok_def fifo_clear_def get_fifo_def set_fifo_def)

lemma puts_core: "uart_core s \<Longrightarrow> uart_core (fold (fifo_put RECV_FIFO) buf s)"
  by (induction buf arbitrary: s) (auto intro: recv_put_core)

lemma receive1_inv: "uart_core s \<Longrightarrow> uart_inv (serial_receive1 e buf s)"
  unfolding serial_receive1_def Let_def
  by (rule inv_update_irq) (auto intro: core_cong [OF puts_core [of s buf]] core_cong [of s])

lemma fifo_get_line [simp]:
  "uart_line (snd (fifo_get w s)) = uart_line s" "iir (snd (fifo_get w s)) = iir s"
  by (cases w; simp add: fifo_get_def get_fifo_def set_fifo_def Let_def uart_line_def)+

lemma xmit_load_inv: "uart_inv s \<Longrightarrow> uart_inv (serial_xmit_load s)"
proof -
  assume a: "uart_inv s"
  then have "uart_inv (snd (fifo_get XMIT_FIFO s))"
    using xmit_get_ok [of s] by (simp add: uart_inv_def uart_lined_def)
  with a show ?thesis
    by (auto simp: serial_xmit_load_def Let_def split: prod.splits intro: inv_cong)
qed

lemma xmit_done_inv: "uart_inv s \<Longrightarrow> uart_inv (serial_xmit_done e s)"
  unfolding serial_xmit_done_def Let_def
  by (auto intro: inv_cong [of s] intro!: inv_update_irq core_cong [OF inv_core [of s]])

lemma xmit_inv:
  assumes "uart_inv s"
  shows "uart_inv (serial_xmit e s)"
proof -
  let ?l = "serial_xmit_load s"
  note l = xmit_load_inv [OF assms]
  have w: "uart_inv (uemit (Chr_write (tsr ?l)) ?l)"
    by (rule inv_cong [OF l]) simp_all
  have w': "uart_inv (uemit (Chr_write (tsr ?l)) ?l\<lparr>tsr_retry := r\<rparr>)" for r
    by (rule inv_cong [OF w]) simp_all
  have r: "uart_inv (uemit (Uart_mod_timer Transmit_timer t) (uemit (Chr_write (tsr ?l)) ?l\<lparr>tsr_retry := k\<rparr>))"
    for t k
    by (rule inv_cong [OF w]) simp_all
  show ?thesis
    unfolding serial_xmit_def Let_def
    using xmit_done_inv [OF receive1_inv [OF inv_core [OF l]]] xmit_done_inv [OF w] xmit_done_inv [OF w'] r
    by simp
qed

lemma write_thr_inv: "uart_inv s \<Longrightarrow> uart_inv (serial_write_thr e v s)"
proof -
  assume "uart_inv s"
  then have c: "uart_core (s\<lparr>thr := ucast v\<rparr>)" by (auto intro: core_cong inv_core)
  have "uart_inv (serial_update_irq (s\<lparr>thr := ucast v, thr_ipending := False, lsr := l\<rparr>))" for l
    by (rule inv_update_irq, rule core_cong [OF c]) simp_all
  moreover have "uart_inv (serial_update_irq (fifo_put XMIT_FIFO b (s\<lparr>thr := ucast v\<rparr>)
      \<lparr>thr_ipending := False, lsr := l\<rparr>))" for l b
    by (rule inv_update_irq, rule core_cong [OF xmit_put_ok [OF c]]) simp_all
  ultimately show ?thesis
    unfolding serial_write_thr_def Let_def by (intro xmit_inv) simp
qed

lemma update_msl_inv: "uart_inv s \<Longrightarrow> uart_inv (serial_update_msl e s)"
proof -
  assume a: "uart_inv s"
  have plain: "uart_inv t" if "recv_fifo t = recv_fifo s" "xmit_fifo t = xmit_fifo s"
      "baudbase t = baudbase s" "fcr t = fcr s" "iir t = iir s" "uart_line t = uart_line s" for t
    by (rule inv_cong [OF a that])
  have irq: "uart_inv (serial_update_irq t)" if "recv_fifo t = recv_fifo s" "xmit_fifo t = xmit_fifo s"
      "baudbase t = baudbase s" "fcr t = fcr s" for t
    by (rule inv_update_irq [OF core_cong [OF inv_core [OF a] that]])
  have tm: "uart_inv (uemit (Uart_mod_timer x y) t)" if "uart_inv t" for t x y
    by (rule inv_cong [OF that]) simp_all
  show ?thesis
    unfolding serial_update_msl_def Let_def
    by (auto simp: plain irq intro!: tm split: option.splits)
qed

lemma write_ier_inv: "uart_inv s \<Longrightarrow> uart_inv (serial_write_ier e v s)"
proof -
  assume a: "uart_inv s"
  let ?s1 = "s\<lparr>ier := ucast (v AND 0x0f)\<rparr>"
  have s1: "uart_inv ?s1" by (rule inv_cong [OF a]) simp_all
  have "uart_inv (?s1\<lparr>poll_msl := 1\<rparr>)" by (rule inv_cong [OF s1]) simp_all
  note m = update_msl_inv [OF this, of e]
  have d: "uart_inv (uemit (Uart_del_timer Modem_status_poll) ?s1\<lparr>poll_msl := 0\<rparr>)"
    by (rule inv_cong [OF s1]) simp_all
  have t: "uart_inv (serial_update_irq (t\<lparr>thr_ipending := True\<rparr>))" if "uart_inv t" for t
    by (rule inv_update_irq, rule core_cong [OF inv_core [OF that]]) simp_all
  show ?thesis
    unfolding serial_write_ier_def Let_def using s1 m d by (auto intro: t)
qed

lemma write_fcr_inv: "uart_inv s \<Longrightarrow> uart_inv (serial_write_fcr v s)"
proof -
  assume a: "uart_inv s"
  define rx where "rx = fifo_clear RECV_FIFO ((uemit (Uart_del_timer Fifo_timeout_timer) s)\<lparr>timeout_ipending := False\<rparr>)"
  have rx: "uart_core rx"
    unfolding rx_def by (rule clear_core, rule core_cong [OF inv_core [OF a]]) simp_all
  have fe: "uart_core (t\<lparr>iir := i, recv_fifo := (recv_fifo t)\<lparr>fifo_itl := n\<rparr>, fcr := val AND 0xC9\<rparr>)"
    if "uart_core t" for t i n and val :: u8
    using that by (simp add: uart_core_def recv_ok_def fifo_ok_def and.assoc)
  have nofe: "uart_core (t\<lparr>iir := i, fcr := val AND 0xC9\<rparr>)" if "uart_core t" for t i and val :: u8
    using that by (simp add: uart_core_def recv_ok_def fifo_ok_def and.assoc)
  show ?thesis
    unfolding serial_write_fcr_def Let_def rx_def [symmetric]
    using a rx inv_core [OF a] by (auto intro!: inv_update_irq fe nofe clear_core)
qed

lemma update_parameters_ok:
  "uart_inv s \<Longrightarrow> \<exists>s'. serial_update_parameters e s = Inr s' \<and> uart_inv s' \<and> divider s' = divider s
     \<and> lcr s' = lcr s \<and> iir s' = iir s"
proof -
  assume a: "uart_inv s"
  have "baudbase s div uint (divider s) \<noteq> 0" if "divider s \<noteq> 0"
  proof -
    have "0 < uint (divider s)" using that by (simp add: word_neq_0_conv word_less_def)
    moreover have "uint (divider s) \<le> baudbase s"
      using a uint_lt2p [of "divider s"] by (simp add: uart_inv_def uart_core_def)
    ultimately have "0 < baudbase s div uint (divider s)" by (simp add: pos_imp_zdiv_pos_iff)
    then show ?thesis by simp
  qed
  moreover have "uart_inv (uemit (Chr_set_params p q r k) (s\<lparr>char_transmit_time := t\<rparr>))" for p q r k t
    by (rule inv_cong [OF a]) simp_all
  ultimately show ?thesis
    using a by (auto simp: serial_update_parameters_def Let_def)
qed

lemma write_lcr_ok: "uart_inv s \<Longrightarrow> \<exists>s'. serial_write_lcr e v s = Inr s' \<and> uart_inv s'"
proof -
  assume a: "uart_inv s"
  have "uart_inv (s\<lparr>lcr := ucast v\<rparr>)" by (rule inv_cong [OF a]) simp_all
  then obtain s1 where s1: "serial_update_parameters e (s\<lparr>lcr := ucast v\<rparr>) = Inr s1" "uart_inv s1"
    using update_parameters_ok by blast
  have "uart_inv (uemit (Chr_set_break b) (s1\<lparr>last_break_enable := b\<rparr>))" for b
    by (rule inv_cong [OF s1(2)]) simp_all
  with s1 show ?thesis by (simp add: serial_write_lcr_def Let_def)
qed

lemma write_mcr_inv: "uart_inv s \<Longrightarrow> uart_inv (serial_write_mcr e v s)"
  unfolding serial_write_mcr_def Let_def by (auto intro: inv_cong)

lemma ioport_write_ok: "uart_inv s \<Longrightarrow> \<exists>s'. serial_ioport_write e s a v = Inr s' \<and> uart_inv s'"
proof -
  assume i: "uart_inv s"
  have "uart_inv (s\<lparr>divider := d\<rparr>)" for d by (rule inv_cong [OF i]) simp_all
  note par = update_parameters_ok [OF this]
  have "uart_inv (s\<lparr>scr := ucast v\<rparr>)" by (rule inv_cong [OF i]) simp_all
  then show ?thesis
    unfolding serial_ioport_write_def Let_def
    using i par write_thr_inv [OF i] write_ier_inv [OF i] write_fcr_inv [OF i] write_lcr_ok [OF i]
      write_mcr_inv [OF i] by (auto split: if_split) blast+
qed

lemma read_rbr_inv: "uart_inv s \<Longrightarrow> uart_inv (snd (serial_read_rbr e s))"
proof -
  assume a: "uart_inv s"
  obtain c u where g: "fifo_get RECV_FIFO s = (c, u)" by fastforce
  with recv_get_core [OF inv_core [OF a]] have u: "uart_core u" by simp
  have irq: "uart_inv (serial_update_irq t)" if "uart_core t" for t
    by (rule inv_update_irq [OF that])
  have acc: "uart_inv (uemit Chr_accept_input t)" if "uart_inv t" for t
    by (rule inv_cong [OF that]) simp_all
  have "uart_core (s\<lparr>lsr := l\<rparr>)" "uart_core (u\<lparr>lsr := l, timeout_ipending := False\<rparr>)"
    "uart_core (uemit (Uart_mod_timer x y) u\<lparr>timeout_ipending := False\<rparr>)" for l x y
    by (rule core_cong [OF inv_core [OF a]] core_cong [OF u], simp_all)+
  then show ?thesis
    unfolding serial_read_rbr_def Let_def g by (auto intro!: acc irq)
qed

lemma read_msr_inv: "uart_inv s \<Longrightarrow> uart_inv (snd (serial_read_msr e s))"
proof -
  assume a: "uart_inv s"
  have "uart_inv (serial_update_irq (t\<lparr>msr := m\<rparr>))" if "uart_inv t" for t m
    by (rule inv_update_irq, rule core_cong [OF inv_core [OF that]]) simp_all
  with a update_msl_inv [OF a] show ?thesis by (auto simp: serial_read_msr_def Let_def)
qed

lemma serial_read_inv: "uart_inv s \<Longrightarrow> uart_inv (snd (serial_ioport_read e s a))"
proof -
  assume i: "uart_inv s"
  have "uart_inv (serial_update_irq (s\<lparr>thr_ipending := b\<rparr>))" "uart_inv (serial_update_irq (s\<lparr>lsr := l\<rparr>))" for b l
    by (rule inv_update_irq, rule core_cong [OF inv_core [OF i]], simp_all)+
  with i read_rbr_inv [OF i] read_msr_inv [OF i] show ?thesis
    by (simp add: serial_ioport_read_def Let_def)
qed

lemma timeout_inv: "uart_inv s \<Longrightarrow> uart_inv (fifo_timeout_int s)"
  unfolding fifo_timeout_int_def by (auto intro!: inv_update_irq core_cong [OF inv_core [of s]])

lemma event_inv: "uart_inv s \<Longrightarrow> uart_inv (serial_event ev s)"
  unfolding serial_event_def serial_receive_break_def by (auto intro!: inv_update_irq core_cong [OF inv_core [of s]])

interpretation uart_ports: total_port_device uart_inv "serial_ioport_read e" "serial_ioport_write e" for e
proof (unfold_locales, goal_cases)
  case (2 s a v s')
  then show ?case using ioport_write_ok by (metis sum.inject(2))
next
  case (3 s a v)
  then show ?case using ioport_write_ok by blast
qed (rule serial_read_inv)

lemma serial_init_inv: "65535 \<le> b \<Longrightarrow> uart_inv (serial_init e b)"
  by (simp add: serial_init_def serial_reset_def serial_zero_def fifo_clear_def get_fifo_def set_fifo_def
      uart_defs fifo_ok_def Let_def)

section \<open>Receive path\<close>

lemma contents_upd [simp]:
  "recv_contents (serial_update_irq s) = recv_contents s" "recv_contents (uemit e s) = recv_contents s"
  "recv_contents (s\<lparr>lsr := l\<rparr>) = recv_contents s" "recv_contents (s\<lparr>timeout_ipending := b\<rparr>) = recv_contents s"
  "recv_ok (serial_update_irq s) = recv_ok s" "recv_ok (uemit e s) = recv_ok s"
  "recv_ok (s\<lparr>lsr := l\<rparr>) = recv_ok s" "recv_ok (s\<lparr>timeout_ipending := b\<rparr>) = recv_ok s"
  by (simp_all add: recv_contents_def recv_ok_def)

lemma fifo_get_regs [simp]:
  "fcr (snd (fifo_get w s)) = fcr s" "lcr (snd (fifo_get w s)) = lcr s"
  by (cases w; simp add: fifo_get_def get_fifo_def set_fifo_def Let_def)+

lemma fifo_put_regs [simp]:
  "fcr (fifo_put w c s) = fcr s" "lcr (fifo_put w c s) = lcr s"
  by (cases w; simp add: fifo_put_def get_fifo_def set_fifo_def Let_def)+

lemma fifo_puts_regs [simp]:
  "fcr (fold (fifo_put w) cs s) = fcr s" "lcr (fold (fifo_put w) cs s) = lcr s"
  by (induction cs arbitrary: s) simp_all

lemma read_data_step:
  assumes "fcr t AND UART_FCR_FE \<noteq> 0" "lcr t AND UART_LCR_DLAB = 0" "recv_ok t" "recv_contents t = x # xs"
  shows "\<exists>t'. serial_ioport_read e t 0 = (ucast x, t') \<and> recv_contents t' = xs \<and> recv_ok t'
    \<and> fcr t' = fcr t \<and> lcr t' = lcr t"
proof -
  obtain c u where g: "fifo_get RECV_FIFO t = (c, u)" by fastforce
  with recv_get [OF assms(3,4)] fifo_get_regs [of RECV_FIFO t]
  have "c = x" "recv_contents u = xs" "recv_ok u" "fcr u = fcr t" "lcr u = lcr t" by auto
  with assms(1,2) g show ?thesis
    by (simp add: serial_ioport_read_def serial_read_rbr_def Let_def)
qed

lemma read_data_run:
  "fcr t AND UART_FCR_FE \<noteq> 0 \<Longrightarrow> lcr t AND UART_LCR_DLAB = 0 \<Longrightarrow> recv_ok t \<Longrightarrow> n \<le> length (recv_contents t) \<Longrightarrow>
     \<exists>t'. port_run (serial_ioport_read e) (serial_ioport_write e) t (replicate n (In 0))
        = Inr (map ucast (take n (recv_contents t)), t')"
proof (induction n arbitrary: t)
  case 0
  then show ?case by simp
next
  case (Suc n)
  then obtain x xs where c: "recv_contents t = x # xs" by (cases "recv_contents t") auto
  from read_data_step [OF Suc.prems(1-3) c] obtain t1 where t1: "serial_ioport_read e t 0 = (ucast x, t1)"
    "recv_contents t1 = xs" "recv_ok t1" "fcr t1 = fcr t" "lcr t1 = lcr t" by blast
  with Suc.IH [of t1] Suc.prems c show ?case by auto
qed

lemma receive1_fifo:
  assumes "recv_ok s" "fcr s AND UART_FCR_FE \<noteq> 0"
  shows "recv_contents (serial_receive1 e buf s) = take 16 (recv_contents s @ buf)
    \<and> recv_ok (serial_receive1 e buf s)
    \<and> fcr (serial_receive1 e buf s) = fcr s \<and> lcr (serial_receive1 e buf s) = lcr s"
  using assms recvq.puts_contents [OF assms(1)] recvq.inv_puts [OF assms(1)]
  by (simp add: serial_receive1_def Let_def)

section \<open>Snapshot\<close>

definition serial_bytes :: "serial_state \<Rightarrow> u8 list" where
  "serial_bytes s = be16_bytes (divider s) @ [rbr s, ier s, iir s, lcr s, mcr s, lsr s, msr s, scr s, fcr s]"

text \<open>Loading writes the nine registers, then programs the FIFO control register.\<close>

definition serial_restored :: "serial_state \<Rightarrow> serial_state \<Rightarrow> serial_state" where
  "serial_restored t s =
     serial_write_fcr (ucast (fcr s)) (t\<lparr>divider := divider s, rbr := rbr s, ier := ier s, iir := iir s,
       lcr := lcr s, mcr := mcr s, lsr := lsr s, msr := msr s, scr := scr s\<rparr>)"

lemma serial_save_emits: "emits qf_writer qf_written (serial_save s) (serial_bytes s)"
proof -
  have "emits qf_writer qf_written (serial_save s) (be16_bytes (divider s) @ [rbr s] @ [ier s] @ [iir s]
      @ [lcr s] @ [mcr s] @ [lsr s] @ [msr s] @ [scr s] @ [fcr s])"
    unfolding serial_save_def by (intro emits_bind put_8s_emits put_be16_emits)
  then show ?thesis by (simp add: serial_bytes_def)
qed

lemma serial_load_consumes:
  "consumes qf_reader qf_left (serial_load e t 2) (serial_bytes s) (0, serial_restored t s)"
proof -
  have w: "serial_ioport_write e u 2 v = Inr (serial_write_fcr v u)" for u v
    by (simp add: serial_ioport_write_def)
  have "consumes qf_reader qf_left (serial_load e t 2) (be16_bytes (divider s) @ [rbr s] @ [ier s] @ [iir s]
      @ [lcr s] @ [mcr s] @ [lsr s] @ [msr s] @ [scr s] @ [fcr s] @ []) (0, serial_restored t s)"
    unfolding serial_load_def serial_restored_def w res_bind.simps
    by (rule consumes_else, simp, simp only: order_refl if_True)
      (rule consumes_bind get_be16_consumes get_byte_consumes consumes_return)+
  then show ?thesis by (simp add: serial_bytes_def)
qed

interpretation uart_snap: snapshot_device serial_save "serial_load e" 2 serial_bytes serial_restored for e
  by unfold_locales (rule serial_save_emits, rule serial_load_consumes)

lemma fifo_clear_regs [simp]:
  "divider (fifo_clear w s) = divider s" "rbr (fifo_clear w s) = rbr s" "ier (fifo_clear w s) = ier s"
  "lcr (fifo_clear w s) = lcr s" "mcr (fifo_clear w s) = mcr s" "lsr (fifo_clear w s) = lsr s"
  "msr (fifo_clear w s) = msr s" "scr (fifo_clear w s) = scr s" "fcr (fifo_clear w s) = fcr s"
  by (cases w; simp add: fifo_clear_def get_fifo_def set_fifo_def)+

lemma write_fcr_regs [simp]:
  "divider (serial_write_fcr v s) = divider s" "rbr (serial_write_fcr v s) = rbr s"
  "ier (serial_write_fcr v s) = ier s" "lcr (serial_write_fcr v s) = lcr s"
  "mcr (serial_write_fcr v s) = mcr s" "lsr (serial_write_fcr v s) = lsr s"
  "msr (serial_write_fcr v s) = msr s" "scr (serial_write_fcr v s) = scr s"
  by (simp_all add: serial_write_fcr_def Let_def)

lemma write_fcr_value:
  fixes c :: u8
  assumes "c AND 0xC9 = c"
  shows "fcr (serial_write_fcr (ucast c) s) = c"
proof -
  have byte: "ucast (ucast c AND (0xFF::u32)) = c"
    unfolding and_low_bits by (rule bit_word_eqI) (auto simp: bit_simps)
  have "(c OR 6) AND 0xC9 = c AND 0xC9"
    by (simp add: bit.conj_disj_distrib2)
  then show ?thesis
    unfolding serial_write_fcr_def Let_def byte using assms by simp
qed

section \<open>Properties\<close>

text \<open>C13: Whatever sequence of register reads and writes a guest performs on a freshly initialised UART,
  no access traps (in particular no programmed divisor makes the line speed 0 and divides by it),
  both FIFOs stay within their 16 bytes with their indices inside the array, and the level driven
  on the interrupt output always agrees with the pending bit of the identification register.\<close>

theorem uart_guest_safe:
  "65535 \<le> baud \<Longrightarrow>
     \<exists>vs s'. port_run (serial_ioport_read e) (serial_ioport_write e) (serial_init e baud) ops = Inr (vs, s')
       \<and> fifo_count (recv_fifo s') \<le> 16 \<and> fifo_head (recv_fifo s') < 16 \<and> fifo_tail (recv_fifo s') < 16
       \<and> fifo_count (xmit_fifo s') \<le> 16 \<and> fifo_head (xmit_fifo s') < 16 \<and> fifo_tail (xmit_fifo s') < 16
       \<and> uart_line s' = (if iir s' AND UART_IIR_NO_INT = 0 then 1 else 0)"
proof -
  assume "65535 \<le> baud"
  then have "uart_inv (serial_init e baud)" by (rule serial_init_inv)
  from uart_ports.run_total [OF this, of e ops] obtain vs s' where
    "port_run (serial_ioport_read e) (serial_ioport_write e) (serial_init e baud) ops = Inr (vs, s')"
    "uart_inv s'" by blast
  then show ?thesis
    by (auto simp: uart_inv_def uart_core_def recv_ok_def fifo_ok_def uart_lined_def)
qed

definition uart_demo_env :: uart_env where
  "uart_demo_env = \<lparr>env_write = (\<lambda>_. 1), env_tiocm = None, env_flags0 = 0, env_now = 1000,
     env_later = 1001, env_ticks = 1000000000\<rparr>"

theorem uart_guest_safe_witness:
  "\<exists>vs s'. port_run (serial_ioport_read uart_demo_env) (serial_ioport_write uart_demo_env)
       (serial_init uart_demo_env 115200) [Out 3 0x80, Out 0 0xff, Out 1 0xff, In 2] = Inr (vs, s')
     \<and> fifo_count (recv_fifo s') \<le> 16"
  using uart_guest_safe [of 115200 uart_demo_env "[Out 3 0x80, Out 0 0xff, Out 1 0xff, In 2]"] by auto

text \<open>C14: In FIFO mode the bytes the back end delivers to an empty receive FIFO are read by the guest from
  the data register in the order they arrived, each exactly once, for up to 16 bytes.\<close>

theorem uart_receive_order:
  assumes "recv_ok s" "recv_contents s = []" "fcr s AND UART_FCR_FE \<noteq> 0" "lcr s AND UART_LCR_DLAB = 0"
    and "length buf \<le> 16"
  shows "\<exists>s'. port_run (serial_ioport_read e) (serial_ioport_write e) (serial_receive1 e buf s)
      (replicate (length buf) (In 0)) = Inr (map ucast buf, s')"
proof -
  note r = receive1_fifo [OF assms(1,3), of e buf]
  then have c: "recv_contents (serial_receive1 e buf s) = buf" using assms by simp
  from read_data_run [of "serial_receive1 e buf s" "length buf" e] r c assms show ?thesis by simp
qed

definition uart_demo :: serial_state where
  "uart_demo = (serial_init uart_demo_env 115200)\<lparr>fcr := 1\<rparr>"

lemma uart_demo_facts:
  "recv_ok uart_demo" "recv_contents uart_demo = []" "fcr uart_demo = 1" "lcr uart_demo = 0"
  by (simp_all add: uart_demo_def serial_init_def serial_reset_def serial_zero_def fifo_clear_def
      get_fifo_def set_fifo_def recv_ok_def fifo_ok_def recv_contents_def Let_def)

theorem uart_receive_order_witness:
  "\<exists>s'. port_run (serial_ioport_read uart_demo_env) (serial_ioport_write uart_demo_env)
      (serial_receive1 uart_demo_env [72, 105] uart_demo) [In 0, In 0] = Inr ([72, 105], s')"
proof -
  have n: "replicate (length [72::u8, 105]) (In 0) = [In 0, In 0]" by (simp add: eval_nat_numeral)
  show ?thesis
    using uart_receive_order [of uart_demo "[72, 105]" uart_demo_env] uart_demo_facts unfolding n by simp
qed

text \<open>Receive overrun: a byte arriving at a full FIFO is dropped, the 16 bytes already there stay as
  they are, and the overrun bit of the line status register is set.\<close>

theorem uart_overrun:
  assumes "recv_ok s" "length (recv_contents s) = 16" "fcr s AND UART_FCR_FE \<noteq> 0"
  shows "recv_contents (serial_receive1 e [c] s) = recv_contents s
    \<and> lsr (serial_receive1 e [c] s) AND UART_LSR_OE \<noteq> 0"
proof -
  have "lsr (serial_receive1 e [c] s) = (lsr s OR UART_LSR_OE) OR UART_LSR_DR"
    using assms recv_put_full [of s c] by (simp add: serial_receive1_def Let_def)
  moreover have "bit ((lsr s OR UART_LSR_OE) OR UART_LSR_DR) 1" by (simp add: bit_simps)
  moreover have "x AND UART_LSR_OE \<noteq> 0 \<longleftrightarrow> bit x 1" for x
    using and_exp_eq_0_iff_not_bit [of x 1] by simp
  ultimately show ?thesis using receive1_fifo [OF assms(1,3), of e "[c]"] assms(2) by simp
qed

theorem uart_overrun_witness:
  "lsr (serial_receive1 uart_demo_env [1] (serial_receive1 uart_demo_env (replicate 16 7) uart_demo))
     AND UART_LSR_OE \<noteq> 0"
proof -
  note f = receive1_fifo [of uart_demo uart_demo_env "replicate 16 7"]
  show ?thesis
    using uart_overrun [of "serial_receive1 uart_demo_env (replicate 16 7) uart_demo" uart_demo_env 1]
      f uart_demo_facts by simp
qed

text \<open>The bytes handed to the character back end so far.\<close>

definition sent :: "serial_state \<Rightarrow> u8 list" where
  "sent s = concat (map (\<lambda>x. case x of Chr_write c \<Rightarrow> [c] | _ \<Rightarrow> []) (uart_events s))"

lemma sent_simps [simp]:
  "sent (serial_update_irq s) = sent s" "sent (uemit (Uart_mod_timer t n) s) = sent s"
  "sent (uemit (Chr_write c) s) = sent s @ [c]"
  "sent (s\<lparr>thr := a\<rparr>) = sent s" "sent (s\<lparr>tsr := a\<rparr>) = sent s" "sent (s\<lparr>lsr := a\<rparr>) = sent s"
  "sent (s\<lparr>rbr := a\<rparr>) = sent s" "sent (s\<lparr>thr_ipending := b\<rparr>) = sent s"
  "sent (s\<lparr>last_xmit_ts := n\<rparr>) = sent s"
  by (simp_all add: sent_def serial_update_irq_def uemit_def Let_def)

lemma xmit_done_frame [simp]:
  "rbr (serial_xmit_done e s) = rbr s" "fcr (serial_xmit_done e s) = fcr s"
  "lcr (serial_xmit_done e s) = lcr s" "sent (serial_xmit_done e s) = sent s"
  by (simp_all add: serial_xmit_done_def Let_def)

text \<open>Loopback: with the FIFOs off and the loop bit of the modem control register set, a byte written
  to the transmit register comes back from the receive register, and nothing is sent to the back
  end.\<close>

theorem uart_loopback:
  assumes "fcr s AND UART_FCR_FE = 0" "mcr s AND UART_MCR_LOOP \<noteq> 0" "lcr s AND UART_LCR_DLAB = 0"
    and "tsr_retry s \<le> 0"
  shows "\<exists>s'. serial_ioport_write e s 0 v = Inr s' \<and> fst (serial_ioport_read e s' 0) = ucast (ucast v :: u8)
    \<and> sent s' = sent s"
proof -
  define s1 where "s1 = serial_update_irq
    (s\<lparr>thr := ucast v, thr_ipending := False, lsr := lsr s AND NOT UART_LSR_THRE\<rparr>)"
  define s2 where "s2 = s1\<lparr>tsr := thr s1, lsr := lsr s1 OR UART_LSR_THRE\<rparr>"
  define s3 where "s3 = serial_xmit_done e (serial_receive1 e [thr s1] s2)"
  have s1: "fcr s1 = fcr s" "mcr s1 = mcr s" "tsr_retry s1 = tsr_retry s" "lcr s1 = lcr s"
    "thr s1 = ucast v" "sent s1 = sent s"
    unfolding s1_def by simp_all
  have x: "serial_xmit e s1 = s3"
    using assms s1 by (simp add: serial_xmit_def serial_xmit_load_def s2_def s3_def)
  have w: "serial_ioport_write e s 0 v = Inr s3"
    using assms x by (simp add: serial_ioport_write_def serial_write_thr_def s1_def)
  have s3: "fcr s3 = fcr s" "lcr s3 = lcr s" "rbr s3 = ucast v" "sent s3 = sent s"
    unfolding s3_def using assms(1) by (simp_all add: serial_receive1_def s2_def s1)
  then show ?thesis using w assms by (simp add: serial_ioport_read_def serial_read_rbr_def Let_def)
qed

theorem uart_loopback_witness:
  "\<exists>s'. serial_ioport_write uart_demo_env (serial_zero\<lparr>mcr := 0x10\<rparr>) 0 0x5a = Inr s'
     \<and> fst (serial_ioport_read uart_demo_env s' 0) = 0x5a"
  using uart_loopback [of "serial_zero\<lparr>mcr := 0x10\<rparr>" uart_demo_env "0x5a"]
  by (auto simp: serial_zero_def)

text \<open>With the divisor latch open, writing the low and then the high byte sets the 16-bit divisor, and
  the two bytes read back; no other register changes its value on the way.\<close>

theorem uart_divisor_latch:
  assumes "uart_inv s" "lcr s AND UART_LCR_DLAB \<noteq> 0"
  shows "\<exists>s'. port_run (serial_ioport_read e) (serial_ioport_write e) s
      [Out 0 (ucast (lo::u8)), Out 1 (ucast (hi::u8)), In 0, In 1] = Inr ([ucast lo, ucast hi], s')
    \<and> divider s' = push_bit 8 (ucast hi) OR ucast lo \<and> iir s' = iir s \<and> lcr s' = lcr s"
proof -
  let ?d1 = "(divider s AND 0xff00) OR ucast lo :: u16"
  let ?d2 = "(?d1 AND 0x00ff) OR ucast (push_bit 8 (ucast hi) :: u32) :: u16"
  have lo0: "(ucast (ucast lo :: u32) :: u16) = ucast lo" by (rule bit_word_eqI) (auto simp: bit_simps)
  have d2: "?d2 = push_bit 8 (ucast hi) OR ucast lo"
    unfolding and_low_bits and_high_byte
    by (rule bit_word_eqI) (auto simp: bit_simps dest: bit_imp_le_length)
  have rd: "ucast (?d2 AND 0xff) = (ucast lo :: u32)" "ucast (drop_bit 8 ?d2 AND 0xff) = (ucast hi :: u32)"
    unfolding d2 unfolding and_low_bits
    by (rule bit_word_eqI, auto simp: bit_simps dest: bit_imp_le_length)+
  have "uart_inv (s\<lparr>divider := ?d1\<rparr>)" by (rule inv_cong [OF assms(1)]) simp_all
  then obtain s1 where s1: "serial_update_parameters e (s\<lparr>divider := ?d1\<rparr>) = Inr s1" "uart_inv s1"
    "divider s1 = ?d1" "lcr s1 = lcr s" "iir s1 = iir s" using update_parameters_ok by fastforce
  have "uart_inv (s1\<lparr>divider := ?d2\<rparr>)" by (rule inv_cong [OF s1(2)]) simp_all
  then obtain s2 where s2: "serial_update_parameters e (s1\<lparr>divider := ?d2\<rparr>) = Inr s2"
    "divider s2 = ?d2" "lcr s2 = lcr s" "iir s2 = iir s" using update_parameters_ok s1 by fastforce
  show ?thesis
    using assms(2) s1 s2 d2 rd by (simp add: serial_ioport_write_def serial_ioport_read_def lo0)
qed

theorem uart_divisor_latch_witness:
  "\<exists>s'. port_run (serial_ioport_read uart_demo_env) (serial_ioport_write uart_demo_env)
      ((serial_init uart_demo_env 115200)\<lparr>lcr := 0x80\<rparr>)
      [Out 0 (ucast (0x34::u8)), Out 1 (ucast (0x12::u8)), In 0, In 1]
        = Inr ([ucast (0x34::u8), ucast (0x12::u8)], s')
    \<and> divider s' = push_bit 8 (ucast (0x12::u8)) OR ucast (0x34::u8)"
proof -
  have "uart_inv ((serial_init uart_demo_env 115200)\<lparr>lcr := 0x80\<rparr>)"
    by (rule inv_cong [OF serial_init_inv [of 115200 uart_demo_env]]) simp_all
  then show ?thesis
    using uart_divisor_latch [of "(serial_init uart_demo_env 115200)\<lparr>lcr := 0x80\<rparr>" uart_demo_env "0x34" "0x12"]
    by auto
qed

text \<open>Save and restore: the registers of a UART saved to a snapshot file are all restored by a load of
  that file into a UART in any state (the interrupt identification register is then recomputed,
  and the FIFO contents, which the format does not carry, are not restored).\<close>

theorem uart_snapshot:
  assumes "qemu_fopen True old ''wb'' = Some f" "fcr s AND 0xC9 = fcr s"
  shows "\<exists>f1 g g1 t'. serial_save s f = Inr f1 \<and> qemu_fopen True (fst (qemu_fclose f1)) ''rb'' = Some g
    \<and> serial_load e t 2 g = Inr ((0, t'), g1)
    \<and> divider t' = divider s \<and> rbr t' = rbr s \<and> ier t' = ier s \<and> lcr t' = lcr s \<and> mcr t' = mcr s
    \<and> lsr t' = lsr s \<and> msr t' = msr s \<and> scr t' = scr s \<and> fcr t' = fcr s"
proof -
  obtain f1 g g1 where "serial_save s f = Inr f1" "qemu_fopen True (fst (qemu_fclose f1)) ''rb'' = Some g"
    "serial_load e t 2 g = Inr ((0, serial_restored t s), g1)"
    using uart_snap.file_roundtrip [OF assms(1)] by blast
  then show ?thesis using write_fcr_value [OF assms(2)] by (auto simp: serial_restored_def)
qed

theorem uart_snapshot_witness:
  "\<exists>f1 g g1 t'. serial_save uart_demo (qemu_fopen_ops [] True False) = Inr f1
    \<and> qemu_fopen True (fst (qemu_fclose f1)) ''rb'' = Some g
    \<and> serial_load uart_demo_env serial_zero 2 g = Inr ((0, t'), g1) \<and> fcr t' = 1"
  using uart_snapshot [of "[]" "qemu_fopen_ops [] True False" uart_demo uart_demo_env serial_zero]
  by (auto simp: qemu_fopen_def uart_demo_facts)

text \<open>A transmitter interrupt is lost when the identification register is read while it shows the
  receiver line status: the code tests the read value against the transmitter-empty code 0x02,
  which the line status code 0x06 contains, so the pending transmitter interrupt is cleared although
  the value read did not announce it.\<close>

theorem uart_iir_read_drops_thri:
  assumes "iir s AND 0x0F = UART_IIR_RLSI" "thr_ipending s"
  shows "fst (serial_ioport_read e s 2) AND 0x0F = 0x06 \<and> \<not> thr_ipending (snd (serial_ioport_read e s 2))"
proof -
  have b: "bit (iir s) 1" using arg_cong [OF assms(1), of "\<lambda>w. bit w 1"] by (simp add: bit_simps)
  then have "iir s AND 2 \<noteq> 0" using and_exp_eq_0_iff_not_bit [of "iir s" 1] by simp
  moreover have "(ucast (iir s) :: u32) AND 0x0F = ucast (iir s AND 0x0F)"
    unfolding and_low_bits by (rule bit_word_eqI) (auto simp: bit_simps)
  ultimately show ?thesis using assms by (simp add: serial_ioport_read_def)
qed

theorem uart_iir_read_drops_thri_witness:
  "\<not> thr_ipending (snd (serial_ioport_read uart_demo_env (serial_zero\<lparr>iir := 6, thr_ipending := True\<rparr>) 2))"
  using uart_iir_read_drops_thri [of "serial_zero\<lparr>iir := 6, thr_ipending := True\<rparr>" uart_demo_env] by simp

end
