(* ===== verification/Timers.thy ===== *)
theory Timers
  imports Qemu_File
begin

text \<open>
  Timers of \<^verbatim>\<open>vl.c\<close>: the two lists of active timers, kept sorted by expiry, and the loop that runs
  the expired ones; and \<^verbatim>\<open>muldiv64\<close>, the scaling of clock values. A \<^verbatim>\<open>QEMUTimer\<close> is a number;
  the lists linked through \<^verbatim>\<open>next\<close> are lists of numbers. The call-backs are functions on the
  whole machine, which contains the timer state, so that they may rearm timers.
  \<open>qemu_run_timers\<close> has fuel: \<open>None\<close> means it has not ended yet.
\<close>

section \<open>State and operations\<close>

datatype clock_type = QEMU_TIMER_REALTIME | QEMU_TIMER_VIRTUAL

record timer_state =
  active_timers :: "clock_type \<Rightarrow> nat list"
  expire_time :: "nat \<Rightarrow> int"
  timer_clock :: "nat \<Rightarrow> clock_type"

definition qemu_del_timer :: "nat \<Rightarrow> 'a timer_state_scheme \<Rightarrow> 'a timer_state_scheme" where
  "qemu_del_timer ts m =
     (let k = timer_clock m ts in m\<lparr>active_timers := (active_timers m)(k := remove1 ts (active_timers m k))\<rparr>)"

definition insert_timer :: "nat \<Rightarrow> int \<Rightarrow> (nat \<Rightarrow> int) \<Rightarrow> nat list \<Rightarrow> nat list" where
  "insert_timer ts e expire l =
     takeWhile (\<lambda>t. \<not> expire t > e) l @ ts # dropWhile (\<lambda>t. \<not> expire t > e) l"

definition qemu_mod_timer :: "nat \<Rightarrow> int \<Rightarrow> 'a timer_state_scheme \<Rightarrow> 'a timer_state_scheme" where
  "qemu_mod_timer ts e m =
     (let m1 = qemu_del_timer ts m; k = timer_clock m1 ts in
      m1\<lparr>active_timers := (active_timers m1)(k := insert_timer ts e (expire_time m1) (active_timers m1 k)),
         expire_time := (expire_time m1)(ts := e)\<rparr>)"

definition qemu_advance_timer :: "nat \<Rightarrow> int \<Rightarrow> 'a timer_state_scheme \<Rightarrow> 'a timer_state_scheme" where
  "qemu_advance_timer ts e m = (if expire_time m ts > e then qemu_mod_timer ts e m else m)"

text \<open>A null timer is \<open>None\<close>.\<close>

definition qemu_timer_pending :: "nat option \<Rightarrow> 'a timer_state_scheme \<Rightarrow> bool" where
  "qemu_timer_pending ts m =
     (case ts of None \<Rightarrow> False | Some t \<Rightarrow> t \<in> set (active_timers m (timer_clock m t)))"

definition qemu_timer_expired :: "nat option \<Rightarrow> int \<Rightarrow> 'a timer_state_scheme \<Rightarrow> bool" where
  "qemu_timer_expired head now m = (case head of None \<Rightarrow> False | Some t \<Rightarrow> expire_time m t \<le> now)"

fun qemu_run_timers ::
  "(nat \<Rightarrow> 'a timer_state_scheme \<Rightarrow> 'a timer_state_scheme res) \<Rightarrow> nat \<Rightarrow> clock_type \<Rightarrow> int
     \<Rightarrow> 'a timer_state_scheme \<Rightarrow> 'a timer_state_scheme res option" where
  "qemu_run_timers cb 0 k now m = None"
| "qemu_run_timers cb (Suc fuel) k now m =
     (case active_timers m k of
        [] \<Rightarrow> Some (Inr m)
      | ts # rest \<Rightarrow>
          if expire_time m ts > now then Some (Inr m)
          else (case cb ts (m\<lparr>active_timers := (active_timers m)(k := rest)\<rparr>) of
                  Inl e \<Rightarrow> Some (Inl e)
                | Inr m1 \<Rightarrow> qemu_run_timers cb fuel k now m1))"

definition qemu_put_timer :: "nat option \<Rightarrow> 'a timer_state_scheme \<Rightarrow> qemu_file \<Rightarrow> qemu_file res" where
  "qemu_put_timer ts m f =
     qemu_put_be64 (case ts of Some t \<Rightarrow> if qemu_timer_pending ts m then word_of_int (expire_time m t) else -1
                             | None \<Rightarrow> -1) f"

definition qemu_get_timer ::
  "nat option \<Rightarrow> 'a timer_state_scheme \<Rightarrow> qemu_file \<Rightarrow> ('a timer_state_scheme \<times> qemu_file) res" where
  "qemu_get_timer ts m f =
     res_bind (qemu_get_be64 f) (\<lambda>(e, f).
       Inr (case ts of None \<Rightarrow> m
            | Some t \<Rightarrow> if e \<noteq> -1 then qemu_mod_timer t (sint e) m else qemu_del_timer t m, f))"

text \<open>\<^verbatim>\<open>muldiv64\<close>: 64 by 32 bit multiplication and division in two 32-bit steps.\<close>

definition muldiv64 :: "u64 \<Rightarrow> u32 \<Rightarrow> u32 \<Rightarrow> u64 res" where
  "muldiv64 a b c =
     (if c = 0 then Inl Div_by_zero
      else
        (let rl = take_bit 32 a * ucast b;
             rh = drop_bit 32 a * ucast b + drop_bit 32 rl;
             high = ucast (rh div ucast c) :: u32;
             low = ucast ((push_bit 32 (rh mod ucast c) + take_bit 32 rl) div ucast c) :: u32
         in Inr (push_bit 32 (ucast high) OR ucast low)))"

section \<open>Sorted lists\<close>

definition timers_sorted :: "clock_type \<Rightarrow> 'a timer_state_scheme \<Rightarrow> bool" where
  "timers_sorted k m \<longleftrightarrow> sorted (map (expire_time m) (active_timers m k)) \<and> distinct (active_timers m k)
     \<and> (\<forall>t \<in> set (active_timers m k). timer_clock m t = k)"

lemma sorted_drop_above:
  "sorted (map f l) \<Longrightarrow> x \<in> set (dropWhile (\<lambda>t. \<not> f t > (e::int)) l) \<Longrightarrow> e < f x"
proof (induction l)
  case (Cons a l)
  then show ?case by (cases "f a > e") auto
qed simp

lemma sorted_map_split:
  fixes f :: "'b \<Rightarrow> int"
  shows "sorted (map f (xs @ ys)) \<Longrightarrow>
    sorted (map f xs) \<and> sorted (map f ys) \<and> (\<forall>x \<in> set xs. \<forall>y \<in> set ys. f x \<le> f y)"
  by (auto simp: sorted_append)

lemma insert_sorted_timer:
  assumes "sorted (map f l)" "distinct l" "ts \<notin> set l"
  shows "sorted (map (f(ts := e)) (insert_timer ts e f l)) \<and> distinct (insert_timer ts e f l)
    \<and> set (insert_timer ts e f l) = insert ts (set l)"
proof -
  let ?P = "\<lambda>t. \<not> f t > e"
  have l: "takeWhile ?P l @ dropWhile ?P l = l" by simp
  have m: "map (f(ts := e)) xs = map f xs" if "ts \<notin> set xs" for xs using that by (induction xs) auto
  have notin: "ts \<notin> set (takeWhile ?P l)" "ts \<notin> set (dropWhile ?P l)"
    using assms(3) by (auto dest: set_takeWhileD set_dropWhileD)
  have s: "sorted (map f (takeWhile ?P l))" "sorted (map f (dropWhile ?P l))"
    "\<forall>x \<in> set (takeWhile ?P l). \<forall>y \<in> set (dropWhile ?P l). f x \<le> f y"
    using sorted_map_split [of f "takeWhile ?P l" "dropWhile ?P l"] assms(1) unfolding l by blast+
  have "\<forall>x \<in> set (takeWhile ?P l). f x \<le> e" by (auto dest: set_takeWhileD)
  moreover have "\<forall>y \<in> set (dropWhile ?P l). e \<le> f y" using sorted_drop_above [OF assms(1)] less_imp_le by blast
  ultimately have "sorted (map (f(ts := e)) (insert_timer ts e f l))"
    unfolding insert_timer_def using s m notin by (auto simp: sorted_append)
  moreover have "distinct (insert_timer ts e f l)"
    using assms(2) l notin unfolding insert_timer_def
    by (metis (no_types, lifting) distinct.simps(2) distinct_append disjoint_insert(1) list.simps(15))
  moreover have "set (insert_timer ts e f l) = insert ts (set l)"
    unfolding insert_timer_def by (metis Un_insert_right l list.simps(15) set_append)
  ultimately show ?thesis by blast
qed

lemma del_timer_sorted:
  assumes "timers_sorted k m"
  shows "timers_sorted k (qemu_del_timer ts m)"
proof -
  have "sorted (map f (remove1 x xs))" if "sorted (map f xs)" for f :: "nat \<Rightarrow> int" and x xs
    using that by (induction xs) (auto dest: notin_set_remove1)
  then show ?thesis using assms by (auto simp: timers_sorted_def qemu_del_timer_def Let_def dest: notin_set_remove1)
qed

lemma mod_timer_sorted:
  assumes "timers_sorted k m"
  shows "timers_sorted k (qemu_mod_timer ts e m)"
proof -
  let ?m1 = "qemu_del_timer ts m"
  have c: "timer_clock ?m1 = timer_clock m" by (simp add: qemu_del_timer_def Let_def)
  have s: "timers_sorted k ?m1" by (rule del_timer_sorted [OF assms(1)])
  show ?thesis
  proof (cases "timer_clock m ts = k")
    case True
    then have n: "ts \<notin> set (active_timers ?m1 k)" using assms by (simp add: timers_sorted_def qemu_del_timer_def Let_def)
    show ?thesis
      using s n c True insert_sorted_timer [of "expire_time ?m1" "active_timers ?m1 k" ts e]
      by (auto simp: timers_sorted_def qemu_mod_timer_def Let_def)
  next
    case False
    then have "ts \<notin> set (active_timers m k)" using assms by (auto simp: timers_sorted_def)
    then have "map ((expire_time m)(ts := e)) (active_timers m k) = map (expire_time m) (active_timers m k)" by auto
    then show ?thesis using assms False by (auto simp: timers_sorted_def qemu_mod_timer_def qemu_del_timer_def Let_def)
  qed
qed

section \<open>Running\<close>

text \<open>The timers of a clock that are due, in list order.\<close>

definition due :: "clock_type \<Rightarrow> int \<Rightarrow> 'a timer_state_scheme \<Rightarrow> nat list" where
  "due k now m = takeWhile (\<lambda>t. expire_time m t \<le> now) (active_timers m k)"

lemma due_filter:
  assumes "timers_sorted k m"
  shows "due k now m = filter (\<lambda>t. expire_time m t \<le> now) (active_timers m k)"
proof -
  let ?P = "\<lambda>t. expire_time m t \<le> now" and ?l = "active_timers m k"
  have "filter ?P (dropWhile ?P ?l) = []"
    using sorted_drop_above [of "expire_time m" ?l _ now] assms by (fastforce simp: timers_sorted_def not_less filter_empty_conv)
  moreover have "filter ?P (takeWhile ?P ?l) = takeWhile ?P ?l" by (auto simp: filter_id_conv dest: set_takeWhileD)
  ultimately have "filter ?P (takeWhile ?P ?l @ dropWhile ?P ?l) = due k now m" by (simp only: filter_append due_def) simp
  then show ?thesis by (simp only: takeWhile_dropWhile_id)
qed

text \<open>A change of the timers that makes none due: due timers may be cancelled or postponed, and timers armed for later.\<close>

definition nothing_new :: "clock_type \<Rightarrow> int \<Rightarrow> 'a timer_state_scheme \<Rightarrow> 'a timer_state_scheme \<Rightarrow> bool" where
  "nothing_new k now m m' \<longleftrightarrow> timers_sorted k m' \<and> due k now m' = filter (\<lambda>t. t \<in> set (due k now m')) (due k now m)"

text \<open>Call-backs that arm timers, their own or others, for later than now only. They are called on sorted lists, after their own timer has
  been taken out.\<close>

definition rearms_later :: "(nat \<Rightarrow> 'a timer_state_scheme \<Rightarrow> 'a timer_state_scheme res) \<Rightarrow> clock_type \<Rightarrow> int \<Rightarrow> bool" where
  "rearms_later cb k now \<longleftrightarrow>
     (\<forall>t m m'. timers_sorted k m \<and> t \<notin> set (active_timers m k) \<and> cb t m = Inr m' \<longrightarrow> nothing_new k now m m')"

lemma filter_kept:
  assumes "ys = filter (\<lambda>x. x \<in> set ys) xs" "zs = filter (\<lambda>x. x \<in> set zs) ys"
  shows "zs = filter (\<lambda>x. x \<in> set zs) xs"
proof -
  have "set zs \<subseteq> set ys" using assms(2) by (metis filter_is_subset)
  then have "filter (\<lambda>x. x \<in> set zs) xs = filter (\<lambda>x. x \<in> set zs) (filter (\<lambda>x. x \<in> set ys) xs)" by (auto intro: filter_cong)
  then show ?thesis using assms by simp
qed

lemma nothing_new_trans: "nothing_new k now m m1 \<Longrightarrow> nothing_new k now m1 m2 \<Longrightarrow> nothing_new k now m m2"
  unfolding nothing_new_def using filter_kept by blast

lemma nothing_new_refl: "timers_sorted k m \<Longrightarrow> nothing_new k now m m"
  by (simp add: nothing_new_def)

lemma filter_kept_neq: "ys = filter (\<lambda>x. x \<noteq> y) xs \<Longrightarrow> ys = filter (\<lambda>x. x \<in> set ys) xs"
  by (auto intro: filter_cong)

lemma del_timer_nothing_new:
  assumes "timers_sorted k m"
  shows "nothing_new k now m (qemu_del_timer ts m)"
proof -
  let ?P = "\<lambda>t. expire_time m t \<le> now"
  have "due k now (qemu_del_timer ts m) = filter (\<lambda>t. t \<noteq> ts) (due k now m) \<or> due k now (qemu_del_timer ts m) = due k now m"
  proof (cases "timer_clock m ts = k")
    case True
    have "remove1 ts (active_timers m k) = filter (\<lambda>t. t \<noteq> ts) (active_timers m k)"
      using assms by (simp add: timers_sorted_def distinct_remove1_removeAll removeAll_filter_not_eq)
        (metis (mono_tags, lifting) filter_cong)
    then show ?thesis using True assms del_timer_sorted [OF assms, of ts]
      by (simp add: due_filter qemu_del_timer_def Let_def conj_commute)
  qed (simp add: due_def qemu_del_timer_def Let_def)
  then show ?thesis unfolding nothing_new_def using del_timer_sorted [OF assms] filter_kept_neq by (metis filter_True)
qed

lemma mod_timer_nothing_new:
  assumes "timers_sorted k m" "now < e"
  shows "nothing_new k now m (qemu_mod_timer ts e m)"
proof -
  let ?m1 = "qemu_del_timer ts m" and ?m2 = "qemu_mod_timer ts e m"
  have s1: "timers_sorted k ?m1" by (rule del_timer_sorted [OF assms(1)])
  have s2: "timers_sorted k ?m2" by (rule mod_timer_sorted [OF assms(1)])
  have c: "timer_clock ?m1 = timer_clock m" by (simp add: qemu_del_timer_def Let_def)
  have out: "ts \<notin> set (active_timers ?m1 k)"
    using assms(1) by (cases "timer_clock m ts = k") (auto simp: timers_sorted_def qemu_del_timer_def Let_def)
  have "due k now ?m2 = due k now ?m1"
  proof (cases "timer_clock m ts = k")
    case True
    let ?l = "active_timers ?m1 k" and ?Q = "\<lambda>t. \<not> expire_time ?m1 t > e" and ?P = "\<lambda>t. expire_time ?m1 t \<le> now"
    have "due k now ?m2 = filter (\<lambda>t. t \<noteq> ts \<and> ?P t) (takeWhile ?Q ?l @ ts # dropWhile ?Q ?l)"
      unfolding due_filter [OF s2] using True assms(2)
      by (auto simp: qemu_mod_timer_def Let_def c insert_timer_def cong: conj_cong)
    also have "\<dots> = filter (\<lambda>t. t \<noteq> ts \<and> ?P t) (takeWhile ?Q ?l @ dropWhile ?Q ?l)" by (simp only: filter_append) simp
    also have "\<dots> = filter (\<lambda>t. t \<noteq> ts \<and> ?P t) ?l" by (simp only: takeWhile_dropWhile_id)
    also have "\<dots> = filter ?P ?l" using out by (auto intro!: filter_cong)
    finally show ?thesis by (simp add: due_filter [OF s1])
  next
    case False
    then have "active_timers ?m2 k = active_timers ?m1 k" by (simp add: qemu_mod_timer_def Let_def c)
    then show ?thesis unfolding due_filter [OF s1] due_filter [OF s2] using out
      by (auto simp: qemu_mod_timer_def Let_def intro!: filter_cong)
  qed
  then show ?thesis using del_timer_nothing_new [OF assms(1), of now ts] s2 by (simp add: nothing_new_def)
qed

text \<open>The reference for the run loop: the timers that are due at the start are taken in order, and each that is still due when its turn comes
  is unlinked and called.\<close>

definition fire where
  "fire cb k now t m =
     (if t \<in> set (active_timers m k) \<and> expire_time m t \<le> now
      then cb t (m\<lparr>active_timers := (active_timers m)(k := remove1 t (active_timers m k))\<rparr>) else Inr m)"

lemma run_timers_due:
  assumes "rearms_later cb k now"
  shows "timers_sorted k m \<Longrightarrow> distinct ds \<Longrightarrow> due k now m = filter (\<lambda>t. t \<in> set (due k now m)) ds \<Longrightarrow> length (due k now m) < fuel \<Longrightarrow>
    qemu_run_timers cb fuel k now m = Some (res_fold (fire cb k now) ds m)
    \<and> (\<forall>m'. res_fold (fire cb k now) ds m = Inr m' \<longrightarrow> due k now m' = [] \<and> timers_sorted k m')"
proof (induction ds arbitrary: m fuel)
  case Nil
  obtain f where f: "fuel = Suc f" using Nil(4) by (cases fuel) auto
  show ?case
  proof (cases "active_timers m k")
    case (Cons t ts)
    then have "\<not> expire_time m t \<le> now" using Nil(3) by (auto simp: due_def split: if_splits)
    then show ?thesis using Cons Nil(1,3) f by simp
  qed (use Nil(1,3) f in simp)
next
  case (Cons t ds)
  have mem: "t \<in> set (due k now m) \<longleftrightarrow> t \<in> set (active_timers m k) \<and> expire_time m t \<le> now" by (simp add: due_filter [OF Cons.prems(1)] conj_commute)
  show ?case
  proof (cases "t \<in> set (due k now m)")
    case False
    then have "due k now m = filter (\<lambda>t. t \<in> set (due k now m)) ds" "fire cb k now t m = Inr m" using Cons.prems(3) mem by (auto simp: fire_def)
    then show ?thesis using Cons.IH [OF Cons.prems(1) _ _ Cons.prems(4)] Cons.prems(2) by simp
  next
    case True
    then have due: "due k now m = t # filter (\<lambda>t. t \<in> set (due k now m)) ds" using Cons.prems(3) by simp
    obtain f where f: "fuel = Suc f" using Cons.prems(4) by (cases fuel) auto
    obtain ts where ts: "active_timers m k = t # ts" "expire_time m t \<le> now"
      using due by (cases "active_timers m k") (auto simp: due_def split: if_splits)
    let ?m0 = "m\<lparr>active_timers := (active_timers m)(k := ts)\<rparr>"
    have s0: "timers_sorted k ?m0" "t \<notin> set (active_timers ?m0 k)" using Cons.prems(1) ts(1) by (auto simp: timers_sorted_def)
    have d0: "due k now m = t # due k now ?m0" using ts by (simp add: due_def)
    have d1: "due k now ?m0 = filter (\<lambda>t. t \<in> set (due k now ?m0)) ds"
    proof -
      have "filter (\<lambda>t. t \<in> set (due k now m)) ds = filter (\<lambda>t. t \<in> set (due k now ?m0)) ds"
        using Cons.prems(2) by (intro filter_cong) (auto simp: d0)
      then show ?thesis using due d0 by simp
    qed
    have fire: "fire cb k now t m = cb t ?m0" using ts by (simp add: fire_def)
    show ?thesis
    proof (cases "cb t ?m0")
      case (Inl e)
      then show ?thesis using ts f fire by simp
    next
      case (Inr m1)
      then have n: "nothing_new k now ?m0 m1" using assms s0 unfolding rearms_later_def by blast
      then have "length (due k now m1) \<le> length (due k now ?m0)" unfolding nothing_new_def by (metis length_filter_le)
      then have "length (due k now m1) < f" using Cons.prems(4) d0 f by simp
      from Cons.IH [OF _ _ filter_kept [OF d1] this] n Cons.prems(2) show ?thesis
        using Inr ts f fire by (auto simp: nothing_new_def)
    qed
  qed
qed

section \<open>Scaling\<close>

lemma muldiv_nat:
  fixes A B C :: nat
  assumes "A < 2 ^ 64" "B < 2 ^ 32" "0 < C" "C < 2 ^ 32"
  defines "rl \<equiv> (A mod 2 ^ 32) * B"
  defines "rh \<equiv> (A div 2 ^ 32) * B + rl div 2 ^ 32"
  shows "rl < 2 ^ 64" "rh < 2 ^ 64" "(rh mod C) * 2 ^ 32 + rl mod 2 ^ 32 < 2 ^ 64"
    "((rh mod C) * 2 ^ 32 + rl mod 2 ^ 32) div C < 2 ^ 32"
    "A * B div C = (rh div C) * 2 ^ 32 + ((rh mod C) * 2 ^ 32 + rl mod 2 ^ 32) div C"
proof -
  let ?M = "2 ^ 32 :: nat"
  have lo: "A mod ?M \<le> ?M - 1" and hi: "A div ?M \<le> ?M - 1" and b: "B \<le> ?M - 1"
    using assms(1,2) by (simp, simp add: less_mult_imp_div_less, simp)
  have p: "x * B \<le> (?M - 1) * (?M - 1)" if "x \<le> ?M - 1" for x using that b by (rule mult_le_mono)
  have rl: "rl \<le> (?M - 1) * (?M - 1)" unfolding rl_def by (rule p [OF lo])
  then show "rl < 2 ^ 64" by simp
  have "rl div ?M < ?M" using rl by (simp add: less_mult_imp_div_less)
  then show "rh < 2 ^ 64" using p [OF hi] unfolding rh_def by simp
  have m: "rh mod C < C" "rl mod ?M < ?M" using assms(3) by simp_all
  have t: "(rh mod C) * ?M + rl mod ?M < C * ?M"
  proof -
    have "(rh mod C) * ?M + rl mod ?M < (rh mod C + 1) * ?M" using m(2) by simp
    also have "\<dots> \<le> C * ?M" using m(1) by (intro mult_right_mono) simp_all
    finally show ?thesis .
  qed
  also have "C * ?M \<le> 2 ^ 64" using assms(4) by simp
  finally show "(rh mod C) * ?M + rl mod ?M < 2 ^ 64" .
  show "((rh mod C) * ?M + rl mod ?M) div C < ?M"
    using t assms(3) by (simp add: less_mult_imp_div_less mult.commute)
  have "A * B = (A div ?M * ?M + A mod ?M) * B" by simp
  also have "\<dots> = (A div ?M) * B * ?M + rl" unfolding rl_def by (simp only: add_mult_distrib add_mult_distrib2 mult_ac)
  also have "\<dots> = (A div ?M) * B * ?M + (rl div ?M * ?M + rl mod ?M)" by simp
  also have "\<dots> = rh * ?M + rl mod ?M" unfolding rh_def by (simp only: distrib_right add.assoc)
  also have "\<dots> = (rh div C * C + rh mod C) * ?M + rl mod ?M" by simp
  also have "\<dots> = ((rh mod C) * ?M + rl mod ?M) + C * (rh div C * ?M)"
    by (simp only: add_mult_distrib add_mult_distrib2 add_ac mult_ac)
  finally have e: "A * B = ((rh mod C) * ?M + rl mod ?M) + C * (rh div C * ?M)" .
  show "A * B div C = (rh div C) * ?M + ((rh mod C) * ?M + rl mod ?M) div C"
    unfolding e using assms(3) by simp
qed

lemma u64_split: "x < 2 ^ 32 \<Longrightarrow> y < 2 ^ 32 \<Longrightarrow>
   unat (push_bit 32 (ucast (of_nat x :: u32)) OR ucast (of_nat y :: u32) :: u64) = x * 2 ^ 32 + y"
proof -
  assume xy: "x < 2 ^ 32" "y < 2 ^ 32"
  have d: "push_bit 32 (ucast (of_nat x :: u32)) AND (ucast (of_nat y :: u32) :: u64) = 0"
    by (rule bit_word_eqI) (auto simp: bit_simps dest: bit_imp_le_length)
  have "push_bit 32 (ucast (of_nat x :: u32)) OR ucast (of_nat y :: u32)
      = (push_bit 32 (ucast (of_nat x :: u32)) + ucast (of_nat y :: u32) :: u64)"
    using d by (rule disjunctive_add_eq_or [symmetric])
  also have "\<dots> = of_nat (x * 2 ^ 32 + y)"
    using xy by (simp add: push_bit_eq_mult unsigned_of_nat take_bit_nat_eq_self)
  finally have e: "push_bit 32 (ucast (of_nat x :: u32)) OR ucast (of_nat y :: u32) = (of_nat (x * 2 ^ 32 + y) :: u64)" .
  have "x * 2 ^ 32 + y < 2 ^ 64" using xy by simp
  then show ?thesis unfolding e by (simp only: unat_of_nat) (simp add: take_bit_nat_eq_self)
qed

lemma unat_mult_u64: "unat x * unat y < 2 ^ 64 \<Longrightarrow> unat (x * y :: u64) = unat x * unat y"
  by (simp add: unat_word_ariths)

lemma unat_add_u64: "unat x + unat y < 2 ^ 64 \<Longrightarrow> unat (x + y :: u64) = unat x + unat y"
  by (simp add: unat_word_ariths)

lemma unat_ucast_u32: "unat (ucast (b::u32) :: u64) = unat b"
  using unat_bound [of b] by (simp add: unsigned_ucast_eq take_bit_nat_eq_self)

lemma unat_high_u64: "unat (drop_bit 32 (a::u64)) = unat a div 2 ^ 32"
  by (simp add: drop_bit_eq_div unat_div)

section \<open>Properties\<close>

text \<open>Scaling is exact: whenever the true quotient fits 64 bits, \<^verbatim>\<open>muldiv64\<close> returns the integer part
  of \<open>a * b / c\<close> although the product may need 96 bits; a zero divisor traps.\<close>

theorem muldiv64_exact:
  assumes "c \<noteq> 0" "unat a * unat b div unat c < 2 ^ 64"
  shows "\<exists>r. muldiv64 a b c = Inr r \<and> unat r = unat a * unat b div unat c"
proof -
  let ?A = "unat a" and ?B = "unat b" and ?C = "unat c"
  have bounds: "?A < 2 ^ 64" "?B < 2 ^ 32" "0 < ?C" "?C < 2 ^ 32"
    using unat_bound [of a] unat_bound [of b] unat_bound [of c] assms(1) by (auto simp: unat_gt_0)
  note n = muldiv_nat [OF bounds]
  let ?rl = "(?A mod 2 ^ 32) * ?B"
  let ?rh = "(?A div 2 ^ 32) * ?B + ?rl div 2 ^ 32"
  let ?lo = "((?rh mod ?C) * 2 ^ 32 + ?rl mod 2 ^ 32) div ?C"
  define RL where "RL = take_bit 32 a * ucast b"
  define RH where "RH = drop_bit 32 a * ucast b + drop_bit 32 RL"
  have rl: "unat RL = ?rl"
    unfolding RL_def using n(1) by (simp only: unat_mult_u64 unat_take_bit unat_ucast_u32)
  have "?A div 2 ^ 32 * ?B < 2 ^ 64" using n(2) by (rule add_lessD1)
  then have rh: "unat RH = ?rh"
    unfolding RH_def using n(2) by (simp only: unat_add_u64 unat_mult_u64 unat_high_u64 unat_ucast_u32 rl)
  have "unat (push_bit 32 (RH mod ucast c)) = ?rh mod ?C * 2 ^ 32"
    unfolding push_bit_eq_mult using n(3) unat_mult_u64 [of "RH mod ucast c" "2 ^ 32"]
    by (simp add: unat_mod unat_ucast_u32 rh)
  then have lo: "unat ((push_bit 32 (RH mod ucast c) + take_bit 32 RL) div ucast c) = ?lo"
    using n(3) by (simp only: unat_div unat_ucast_u32 unat_add_u64 unat_take_bit rl)
  have hi: "unat (RH div ucast c) = ?rh div ?C" by (simp only: unat_div unat_ucast_u32 rh)
  have u: "(ucast w :: u32) = of_nat (unat w)" for w :: u64 by simp
  have "?rh div ?C < 2 ^ 32" using n(5) assms(2) by (simp add: n(4))
  then have "unat (push_bit 32 (ucast (ucast (RH div ucast c) :: u32))
      OR ucast (ucast ((push_bit 32 (RH mod ucast c) + take_bit 32 RL) div ucast c) :: u32) :: u64) = ?A * ?B div ?C"
    unfolding u hi lo n(5) using n(4) by (rule u64_split)
  then show ?thesis using assms(1) by (simp add: muldiv64_def Let_def RL_def RH_def)
qed

theorem muldiv64_exact_witness:
  "\<exists>r. muldiv64 0xFFFFFFFFFFFF 1193182 1000000000 = Inr r \<and> unat r = 0xFFFFFFFFFFFF * 1193182 div 1000000000"
  using muldiv64_exact [of 1000000000 "0xFFFFFFFFFFFF" 1193182] by simp

text \<open>C16: Timers fire in order: on a list sorted by expiry, with call-backs that arm timers only for later than now, the run loop takes exactly the timers that
  are due, each once, earliest first (equal times in the order they were armed), calls each that an earlier call-back has not cancelled or
  postponed, and ends with a sorted list in which no timer is due. Arming a timer, with whatever time and on whatever clock, keeps the list sorted. One
  round per due timer and one more is enough fuel.\<close>

theorem timers_fire_in_order:
  assumes "timers_sorted k m" "rearms_later cb k now" "length (active_timers m k) < fuel"
  shows "sorted (map (expire_time m) (due k now m)) \<and> distinct (due k now m)
    \<and> set (due k now m) = {t \<in> set (active_timers m k). expire_time m t \<le> now}
    \<and> qemu_run_timers cb fuel k now m = Some (res_fold (fire cb k now) (due k now m) m)
    \<and> (\<forall>m'. res_fold (fire cb k now) (due k now m) m = Inr m' \<longrightarrow> due k now m' = [] \<and> timers_sorted k m')
    \<and> (\<forall>ts e. timers_sorted k (qemu_mod_timer ts e m))"
proof -
  let ?l = "active_timers m k" and ?P = "\<lambda>t. expire_time m t \<le> now"
  have s: "sorted (map (expire_time m) (takeWhile ?P ?l @ dropWhile ?P ?l))" "distinct ?l"
    using assms(1) by (simp_all add: timers_sorted_def)
  have "set (due k now m) = {t \<in> set ?l. ?P t}" by (auto simp: due_filter [OF assms(1)])
  moreover have "length (due k now m) < fuel"
    using assms(3) length_takeWhile_le [of ?P ?l] by (simp add: due_def)
  moreover have d: "sorted (map (expire_time m) (due k now m))" "distinct (due k now m)"
    using sorted_map_split [OF s(1)] s(2) by (simp_all add: due_def distinct_takeWhile)
  moreover have "due k now m = filter (\<lambda>t. t \<in> set (due k now m)) (due k now m)" by simp
  ultimately show ?thesis using run_timers_due [OF assms(2,1) d(2)] mod_timer_sorted [OF assms(1)] by blast
qed

text \<open>Two timers that are due, whose call-backs arm themselves again and postpone a third one, which is due as well.\<close>

definition demo_timers :: timer_state where
  "demo_timers = \<lparr>active_timers = (\<lambda>k. if k = QEMU_TIMER_VIRTUAL then [2, 1, 7] else []),
     expire_time = (\<lambda>t. if t = 7 then 14 else if t = 1 then 12 else 10), timer_clock = (\<lambda>_. QEMU_TIMER_VIRTUAL)\<rparr>"

definition periodic :: "nat \<Rightarrow> timer_state \<Rightarrow> timer_state res" where
  "periodic t m = Inr (qemu_mod_timer t (15 + 10) (qemu_mod_timer 7 (15 + 5) m))"

lemma periodic_rearms_later: "rearms_later periodic k 15"
  unfolding rearms_later_def
proof (intro allI impI, elim conjE)
  fix t and m m' :: timer_state assume m: "timers_sorted k m" "periodic t m = Inr m'"
  then have m': "m' = qemu_mod_timer t 25 (qemu_mod_timer 7 20 m)" by (simp add: periodic_def)
  show "nothing_new k 15 m m'" unfolding m'
    by (rule nothing_new_trans [OF mod_timer_nothing_new [OF m(1)] mod_timer_nothing_new [OF mod_timer_sorted [OF m(1)]]]) simp_all
qed

theorem timers_fire_in_order_witness:
  "due QEMU_TIMER_VIRTUAL 15 demo_timers = [2, 1, 7] \<and>
   (\<exists>m'. qemu_run_timers periodic 4 QEMU_TIMER_VIRTUAL 15 demo_timers = Some (Inr m')
     \<and> due QEMU_TIMER_VIRTUAL 15 m' = [] \<and> active_timers m' QEMU_TIMER_VIRTUAL = [7, 2, 1])"
proof -
  have d: "due QEMU_TIMER_VIRTUAL 15 demo_timers = [2, 1, 7]" by (simp add: due_def demo_timers_def)
  have h: "timers_sorted QEMU_TIMER_VIRTUAL demo_timers" "length (active_timers demo_timers QEMU_TIMER_VIRTUAL) < 4"
    by (simp_all add: timers_sorted_def demo_timers_def)
  have "\<exists>m'. res_fold (fire periodic QEMU_TIMER_VIRTUAL 15) [2, 1, 7] demo_timers = Inr m' \<and> active_timers m' QEMU_TIMER_VIRTUAL = [7, 2, 1]"
    by (simp add: fire_def periodic_def demo_timers_def qemu_mod_timer_def qemu_del_timer_def insert_timer_def Let_def)
  then show ?thesis using timers_fire_in_order [OF h(1) periodic_rearms_later h(2)] d by auto
qed

end
