(* ===== verification/Rtc.thy ===== *)
theory Rtc
  imports Timers "HOL-Library.Signed_Division"
begin

text \<open>
  The MC146818 real-time clock and CMOS RAM of \<^verbatim>\<open>hw/mc146818rtc.c\<close>: register access, the
  conversion between the broken-down time and the (BCD or binary, 12 or 24 hour) registers, the
  once-a-second update with its calendar, alarm and interrupt flags, the periodic interrupt, and
  the snapshot format. C divisions are the truncating ones. A timer field is \<open>Some t\<close> when the timer is
  armed for \<open>t\<close>; \<open>timers_null\<close> tells that the three timer pointers are null, as \<^verbatim>\<open>rtc_init\<close> leaves
  them under \<^verbatim>\<open>CONFIG_DM\<close>. \<^verbatim>\<open>IRQ_COALESCE_HACK\<close> is not defined. The environment gives the HPET's legacy
  mode, the virtual clock and \<^verbatim>\<open>ticks_per_sec\<close>.
\<close>

section \<open>State\<close>

record tm =
  tm_sec :: int
  tm_min :: int
  tm_hour :: int
  tm_wday :: int
  tm_mday :: int
  tm_mon :: int
  tm_year :: int

datatype rtc_event = Rtc_irq_raise | Rtc_irq_lower

record rtc_state =
  cmos_data :: "u8 list"
  cmos_index :: u8
  current_tm :: tm
  base_year :: int
  rtc_it_shift :: nat
  timers_null :: bool
  periodic_timer :: "int option"
  next_periodic_time :: int
  next_second_time :: int
  second_timer :: "int option"
  second_timer2 :: "int option"
  rtc_events :: "rtc_event list"

record rtc_env =
  rtc_hpet_legacy :: bool
  rtc_now :: int
  rtc_ticks :: int

abbreviation (input) "RTC_SECONDS \<equiv> (0::nat)"
abbreviation (input) "RTC_SECONDS_ALARM \<equiv> (1::nat)"
abbreviation (input) "RTC_MINUTES \<equiv> (2::nat)"
abbreviation (input) "RTC_MINUTES_ALARM \<equiv> (3::nat)"
abbreviation (input) "RTC_HOURS \<equiv> (4::nat)"
abbreviation (input) "RTC_HOURS_ALARM \<equiv> (5::nat)"
abbreviation (input) "RTC_DAY_OF_WEEK \<equiv> (6::nat)"
abbreviation (input) "RTC_DAY_OF_MONTH \<equiv> (7::nat)"
abbreviation (input) "RTC_MONTH \<equiv> (8::nat)"
abbreviation (input) "RTC_YEAR \<equiv> (9::nat)"
abbreviation (input) "RTC_REG_A \<equiv> (10::nat)"
abbreviation (input) "RTC_REG_B \<equiv> (11::nat)"
abbreviation (input) "RTC_REG_C \<equiv> (12::nat)"
abbreviation (input) "RTC_REG_D \<equiv> (13::nat)"
abbreviation (input) "REG_A_UIP \<equiv> (0x80::u8)"
abbreviation (input) "REG_B_SET \<equiv> (0x80::u8)"
abbreviation (input) "REG_B_PIE \<equiv> (0x40::u8)"
abbreviation (input) "REG_B_AIE \<equiv> (0x20::u8)"
abbreviation (input) "REG_B_UIE \<equiv> (0x10::u8)"
abbreviation (input) "REG_B_DM \<equiv> (0x04::u8)"

definition reg :: "rtc_state \<Rightarrow> nat \<Rightarrow> u8" where
  "reg s i = cmos_data s ! i"

definition set_reg :: "nat \<Rightarrow> u8 \<Rightarrow> rtc_state \<Rightarrow> rtc_state" where
  "set_reg i v s = s\<lparr>cmos_data := (cmos_data s)[i := v]\<rparr>"

definition rtc_irq_raise :: "rtc_env \<Rightarrow> rtc_state \<Rightarrow> rtc_state" where
  "rtc_irq_raise e s = (if \<not> rtc_hpet_legacy e then s\<lparr>rtc_events := rtc_events s @ [Rtc_irq_raise]\<rparr> else s)"

section \<open>Periodic interrupt\<close>

definition period_of :: "u8 \<Rightarrow> nat" where
  "period_of code = 2 ^ ((if unat code \<le> 2 then unat code + 7 else unat code) - 1)"

definition rtc_timer_update :: "rtc_env \<Rightarrow> int \<Rightarrow> rtc_state \<Rightarrow> rtc_state res" where
  "rtc_timer_update e current_time s =
     (let period_code = reg s RTC_REG_A AND 0x0f in
      if period_code \<noteq> 0 \<and> reg s RTC_REG_B AND REG_B_PIE \<noteq> 0 \<and> \<not> rtc_hpet_legacy e then
        res_bind (muldiv64 (word_of_int current_time) 32768 (word_of_int (rtc_ticks e))) (\<lambda>cur_clock.
          let period = of_nat (period_of period_code) :: u64;
              next_irq_clock = (cur_clock AND NOT (period - 1)) + period
          in res_bind (muldiv64 next_irq_clock (word_of_int (rtc_ticks e)) 32768) (\<lambda>t.
               let s1 = s\<lparr>next_periodic_time := sint (t + 1)\<rparr>
               in if timers_null s1 then Inl Bad_access
                  else Inr (s1\<lparr>periodic_timer := Some (next_periodic_time s1)\<rparr>)))
      else if timers_null s then Inl Bad_access
      else Inr (s\<lparr>periodic_timer := None\<rparr>))"

definition rtc_periodic_timer :: "rtc_env \<Rightarrow> rtc_state \<Rightarrow> rtc_state res" where
  "rtc_periodic_timer e s =
     res_bind (rtc_timer_update e (next_periodic_time s) s) (\<lambda>s.
       Inr (rtc_irq_raise e (set_reg RTC_REG_C (reg s RTC_REG_C OR 0xc0) s)))"

section \<open>Time and registers\<close>

definition to_bcd :: "rtc_state \<Rightarrow> int \<Rightarrow> int" where
  "to_bcd s a = (if reg s RTC_REG_B AND REG_B_DM \<noteq> 0 then a
                 else push_bit 4 (a sdiv 10) OR (a smod 10))"

definition from_bcd :: "rtc_state \<Rightarrow> int \<Rightarrow> int" where
  "from_bcd s a = (if reg s RTC_REG_B AND REG_B_DM \<noteq> 0 then a
                   else drop_bit 4 a * 10 + (a AND 0x0f))"

definition rtc_set_time :: "rtc_state \<Rightarrow> rtc_state" where
  "rtc_set_time s =
     (let hour0 = from_bcd s (uint (reg s RTC_HOURS AND 0x7f));
          hour = (if reg s RTC_REG_B AND 0x02 = 0 \<and> reg s RTC_HOURS AND 0x80 \<noteq> 0 then hour0 + 12 else hour0)
      in s\<lparr>current_tm :=
           \<lparr>tm_sec = from_bcd s (uint (reg s RTC_SECONDS)),
            tm_min = from_bcd s (uint (reg s RTC_MINUTES)),
            tm_hour = hour,
            tm_wday = from_bcd s (uint (reg s RTC_DAY_OF_WEEK)) - 1,
            tm_mday = from_bcd s (uint (reg s RTC_DAY_OF_MONTH)),
            tm_mon = from_bcd s (uint (reg s RTC_MONTH)) - 1,
            tm_year = from_bcd s (uint (reg s RTC_YEAR)) + base_year s - 1900\<rparr>\<rparr>)"

definition set_bcd :: "nat \<Rightarrow> int \<Rightarrow> rtc_state \<Rightarrow> rtc_state" where
  "set_bcd i v s = set_reg i (word_of_int (to_bcd s v)) s"

definition copy_hours :: "tm \<Rightarrow> rtc_state \<Rightarrow> rtc_state" where
  "copy_hours t s =
     (if reg s RTC_REG_B AND 0x02 \<noteq> 0 then set_bcd RTC_HOURS (tm_hour t) s
      else
        (let s1 = set_bcd RTC_HOURS (tm_hour t smod 12) s in
         if tm_hour t \<ge> 12 then set_reg RTC_HOURS (reg s1 RTC_HOURS OR 0x80) s1 else s1))"

definition rtc_copy_date :: "rtc_state \<Rightarrow> rtc_state" where
  "rtc_copy_date s =
     (let t = current_tm s;
          s1 = set_bcd RTC_SECONDS (tm_sec t) s;
          s2 = set_bcd RTC_MINUTES (tm_min t) s1;
          s3 = copy_hours t s2;
          s4 = set_bcd RTC_DAY_OF_WEEK (tm_wday t + 1) s3;
          s5 = set_bcd RTC_DAY_OF_MONTH (tm_mday t) s4;
          s6 = set_bcd RTC_MONTH (tm_mon t + 1) s5;
          year = (tm_year t - base_year s) smod 100
      in set_bcd RTC_YEAR (if year < 0 then year + 100 else year) s6)"

section \<open>Calendar\<close>

definition days_tab :: "int list" where
  "days_tab = [31, 28, 31, 30, 31, 30, 31, 31, 30, 31, 30, 31]"

definition get_days_in_month :: "int \<Rightarrow> int \<Rightarrow> int" where
  "get_days_in_month month year =
     (if month < 0 \<or> month \<ge> 12 then 31
      else
        (let d = days_tab ! nat month in
         if month = 1 \<and> year smod 4 = 0 \<and> (year smod 100 \<noteq> 0 \<or> year smod 400 = 0) then d + 1 else d))"

text \<open>The comparison \<^verbatim>\<open>(unsigned)x >= n\<close> also holds of a negative \<open>x\<close>.\<close>

definition next_day :: "tm \<Rightarrow> tm" where
  "next_day t =
     (let t1 = t\<lparr>tm_wday := (if tm_wday t + 1 < 0 \<or> tm_wday t + 1 \<ge> 7 then 0 else tm_wday t + 1)\<rparr>;
          days_in_month = get_days_in_month (tm_mon t1) (tm_year t1 + 1900);
          t2 = t1\<lparr>tm_mday := tm_mday t1 + 1\<rparr>
      in if tm_mday t2 < 1 then t2\<lparr>tm_mday := 1\<rparr>
         else if tm_mday t2 > days_in_month then
           (let t3 = t2\<lparr>tm_mday := 1, tm_mon := tm_mon t2 + 1\<rparr>
            in if tm_mon t3 \<ge> 12 then t3\<lparr>tm_mon := 0, tm_year := tm_year t3 + 1\<rparr> else t3)
         else t2)"

definition rtc_next_second :: "tm \<Rightarrow> tm" where
  "rtc_next_second t =
     (let t1 = t\<lparr>tm_sec := tm_sec t + 1\<rparr> in
      if tm_sec t1 < 0 \<or> tm_sec t1 \<ge> 60 then
        (let t2 = t1\<lparr>tm_sec := 0, tm_min := tm_min t1 + 1\<rparr> in
         if tm_min t2 < 0 \<or> tm_min t2 \<ge> 60 then
           (let t3 = t2\<lparr>tm_min := 0, tm_hour := tm_hour t2 + 1\<rparr> in
            if tm_hour t3 < 0 \<or> tm_hour t3 \<ge> 24 then next_day (t3\<lparr>tm_hour := 0\<rparr>) else t3)
         else t2)
      else t1)"

section \<open>Second update\<close>

definition rtc_update_second :: "rtc_env \<Rightarrow> rtc_state \<Rightarrow> rtc_state res" where
  "rtc_update_second e s =
     (if timers_null s then Inl Bad_access
      else if reg s RTC_REG_A AND 0x70 \<noteq> 0x20 then
        (let s1 = s\<lparr>next_second_time := next_second_time s + rtc_ticks e\<rparr>
         in Inr (s1\<lparr>second_timer := Some (next_second_time s1)\<rparr>))
      else
        (let s1 = s\<lparr>current_tm := rtc_next_second (current_tm s)\<rparr>;
             s2 = (if reg s1 RTC_REG_B AND REG_B_SET = 0
                   then set_reg RTC_REG_A (reg s1 RTC_REG_A OR REG_A_UIP) s1 else s1);
             delay = max 1 (rtc_ticks e sdiv 100)
         in Inr (s2\<lparr>second_timer2 := Some (next_second_time s2 + delay)\<rparr>)))"

definition alarm_field :: "u8 \<Rightarrow> int \<Rightarrow> bool" where
  "alarm_field r v \<longleftrightarrow> r AND 0xc0 = 0xc0 \<or> uint r = v"

text \<open>The minutes alarm is compared with the month, as in the source.\<close>

definition rtc_alarm :: "rtc_state \<Rightarrow> bool" where
  "rtc_alarm s \<longleftrightarrow> alarm_field (reg s RTC_SECONDS_ALARM) (tm_sec (current_tm s))
     \<and> alarm_field (reg s RTC_MINUTES_ALARM) (tm_mon (current_tm s))
     \<and> alarm_field (reg s RTC_HOURS_ALARM) (tm_hour (current_tm s))"

definition rtc_update_second2 :: "rtc_env \<Rightarrow> rtc_state \<Rightarrow> rtc_state res" where
  "rtc_update_second2 e s =
     (let s1 = (if reg s RTC_REG_B AND REG_B_SET = 0 then rtc_copy_date s else s);
          s2 = (if reg s1 RTC_REG_B AND REG_B_AIE \<noteq> 0 \<and> rtc_alarm s1
                then rtc_irq_raise e (set_reg RTC_REG_C (reg s1 RTC_REG_C OR 0xa0) s1) else s1);
          s3 = (if reg s2 RTC_REG_B AND REG_B_UIE \<noteq> 0
                then rtc_irq_raise e (set_reg RTC_REG_C (reg s2 RTC_REG_C OR 0x90) s2) else s2);
          s4 = set_reg RTC_REG_A (reg s3 RTC_REG_A AND NOT REG_A_UIP) s3;
          s5 = s4\<lparr>next_second_time := next_second_time s4 + rtc_ticks e\<rparr>
      in if timers_null s5 then Inl Bad_access else Inr (s5\<lparr>second_timer := Some (next_second_time s5)\<rparr>))"

section \<open>Register access\<close>

definition cmos_write_data :: "rtc_env \<Rightarrow> u32 \<Rightarrow> rtc_state \<Rightarrow> rtc_state res" where
  "cmos_write_data e data s =
     (let i = unat (cmos_index s) in
      if i \<in> {RTC_SECONDS_ALARM, RTC_MINUTES_ALARM, RTC_HOURS_ALARM} then Inr (set_reg i (ucast data) s)
      else if i \<in> {RTC_SECONDS, RTC_MINUTES, RTC_HOURS, RTC_DAY_OF_WEEK, RTC_DAY_OF_MONTH, RTC_MONTH, RTC_YEAR} then
        (let s1 = set_reg i (ucast data) s in
         Inr (if reg s1 RTC_REG_B AND REG_B_SET = 0 then rtc_set_time s1 else s1))
      else if i = RTC_REG_A then
        rtc_timer_update e (rtc_now e)
          (set_reg RTC_REG_A (ucast (data AND NOT 0x80) OR (reg s RTC_REG_A AND REG_A_UIP)) s)
      else if i = RTC_REG_B then
        (let (s1, d) = (if data AND 0x80 \<noteq> 0
                        then (set_reg RTC_REG_A (reg s RTC_REG_A AND NOT REG_A_UIP) s, data AND NOT 0x10)
                        else (if reg s RTC_REG_B AND REG_B_SET \<noteq> 0 then rtc_set_time s else s, data))
         in rtc_timer_update e (rtc_now e) (set_reg RTC_REG_B (ucast d) s1))
      else if i = RTC_REG_C \<or> i = RTC_REG_D then Inr s
      else if i < 128 then Inr (set_reg i (ucast data) s)
      else Inl Bad_access)"

definition cmos_ioport_write :: "rtc_env \<Rightarrow> u32 \<Rightarrow> u32 \<Rightarrow> rtc_state \<Rightarrow> rtc_state res" where
  "cmos_ioport_write e addr data s =
     (if addr AND 1 = 0 then Inr (s\<lparr>cmos_index := ucast (data AND 0x7f)\<rparr>) else cmos_write_data e data s)"

definition cmos_ioport_read :: "u32 \<Rightarrow> rtc_state \<Rightarrow> (u32 \<times> rtc_state) res" where
  "cmos_ioport_read addr s =
     (if addr AND 1 = 0 then Inr (0xff, s)
      else
        (let i = unat (cmos_index s) in
         if i \<ge> 128 then Inl Bad_access
         else if i = RTC_REG_C
         then Inr (ucast (reg s i), set_reg RTC_REG_C 0 (s\<lparr>rtc_events := rtc_events s @ [Rtc_irq_lower]\<rparr>))
         else Inr (ucast (reg s i), s)))"

definition rtc_set_memory :: "int \<Rightarrow> int \<Rightarrow> rtc_state \<Rightarrow> rtc_state" where
  "rtc_set_memory addr val s = (if 0 \<le> addr \<and> addr \<le> 127 then set_reg (nat addr) (word_of_int val) s else s)"

definition rtc_set_date :: "tm \<Rightarrow> rtc_state \<Rightarrow> rtc_state" where
  "rtc_set_date t s = rtc_copy_date (s\<lparr>current_tm := t\<rparr>)"

definition rtc_set_date_from_host :: "tm \<Rightarrow> rtc_state \<Rightarrow> rtc_state" where
  "rtc_set_date_from_host t s =
     (let s1 = rtc_set_date t s; val = to_bcd s1 (tm_year t sdiv 100 + 19)
      in rtc_set_memory 0x37 val (rtc_set_memory 0x32 val s1))"

definition rtc_init :: "tm \<Rightarrow> int \<Rightarrow> rtc_state" where
  "rtc_init host_tm byear =
     rtc_set_date_from_host host_tm
       \<lparr>cmos_data = (replicate 128 0)[RTC_REG_A := 0x26, RTC_REG_B := 0x02, RTC_REG_C := 0, RTC_REG_D := 0x80],
        cmos_index = 0, current_tm = \<lparr>tm_sec = 0, tm_min = 0, tm_hour = 0, tm_wday = 0, tm_mday = 0, tm_mon = 0, tm_year = 0\<rparr>,
        base_year = byear, rtc_it_shift = 0, timers_null = True, periodic_timer = None, next_periodic_time = 0,
        next_second_time = 0, second_timer = None, second_timer2 = None, rtc_events = []\<rparr>"

definition rtc_mm_init :: "rtc_env \<Rightarrow> tm \<Rightarrow> int \<Rightarrow> rtc_state" where
  "rtc_mm_init e host_tm byear =
     (let s = (rtc_init host_tm byear)\<lparr>timers_null := False, next_second_time := rtc_now e + (rtc_ticks e * 99) sdiv 100\<rparr>
      in s\<lparr>second_timer2 := Some (next_second_time s)\<rparr>)"

section \<open>Snapshot\<close>

definition put_tm :: "tm \<Rightarrow> qemu_file \<Rightarrow> qemu_file res" where
  "put_tm t f =
     res_bind (qemu_put_be32 (word_of_int (tm_sec t)) f) (\<lambda>f.
     res_bind (qemu_put_be32 (word_of_int (tm_min t)) f) (\<lambda>f.
     res_bind (qemu_put_be32 (word_of_int (tm_hour t)) f) (\<lambda>f.
     res_bind (qemu_put_be32 (word_of_int (tm_wday t)) f) (\<lambda>f.
     res_bind (qemu_put_be32 (word_of_int (tm_mday t)) f) (\<lambda>f.
     res_bind (qemu_put_be32 (word_of_int (tm_mon t)) f) (\<lambda>f.
     qemu_put_be32 (word_of_int (tm_year t)) f))))))"

text \<open>\<^verbatim>\<open>qemu_put_timer\<close> and \<^verbatim>\<open>qemu_get_timer\<close> on one of the clock's own timers: an idle or null timer is
  written as all ones; a null timer's value is read and dropped.\<close>

definition put_own_timer :: "int option \<Rightarrow> qemu_file \<Rightarrow> qemu_file res" where
  "put_own_timer t f = qemu_put_be64 (case t of Some e \<Rightarrow> word_of_int e | None \<Rightarrow> -1) f"

definition get_own_timer :: "bool \<Rightarrow> int option \<Rightarrow> qemu_file \<Rightarrow> (int option \<times> qemu_file) res" where
  "get_own_timer null t f = res_bind (qemu_get_be64 f) (\<lambda>(e, f).
     Inr (if null then t else if e \<noteq> -1 then Some (sint e) else None, f))"

definition rtc_save :: "rtc_state \<Rightarrow> qemu_file \<Rightarrow> qemu_file res" where
  "rtc_save s f =
     res_bind (qemu_put_buffer f (cmos_data s)) (\<lambda>f.
     res_bind (qemu_put_8s (cmos_index s) f) (\<lambda>f.
     res_bind (put_tm (current_tm s) f) (\<lambda>f.
     res_bind (put_own_timer (periodic_timer s) f) (\<lambda>f.
     res_bind (qemu_put_be64 (word_of_int (next_periodic_time s)) f) (\<lambda>f.
     res_bind (qemu_put_be64 (word_of_int (next_second_time s)) f) (\<lambda>f.
     res_bind (put_own_timer (second_timer s) f) (\<lambda>f.
     put_own_timer (second_timer2 s) f)))))))"

definition get_int :: "qemu_file \<Rightarrow> (int \<times> qemu_file) res" where
  "get_int f = res_bind (qemu_get_be32 f) (\<lambda>(v, f). Inr (sint v, f))"

definition get_int64 :: "qemu_file \<Rightarrow> (int \<times> qemu_file) res" where
  "get_int64 f = res_bind (qemu_get_be64 f) (\<lambda>(v, f). Inr (sint v, f))"

definition get_tm :: "qemu_file \<Rightarrow> (tm \<times> qemu_file) res" where
  "get_tm f =
     res_bind (get_int f) (\<lambda>(sec, f). res_bind (get_int f) (\<lambda>(mn, f).
     res_bind (get_int f) (\<lambda>(hour, f). res_bind (get_int f) (\<lambda>(wday, f).
     res_bind (get_int f) (\<lambda>(mday, f). res_bind (get_int f) (\<lambda>(mon, f).
     res_bind (get_int f) (\<lambda>(year, f).
       Inr (\<lparr>tm_sec = sec, tm_min = mn, tm_hour = hour, tm_wday = wday, tm_mday = mday,
             tm_mon = mon, tm_year = year\<rparr>, f))))))))"

definition rtc_load :: "rtc_state \<Rightarrow> int \<Rightarrow> qemu_file \<Rightarrow> ((int \<times> rtc_state) \<times> qemu_file) res" where
  "rtc_load s version_id f =
     (if version_id \<noteq> 1 then Inr ((- 22, s), f)
      else
        res_bind (qemu_get_buffer f 128) (\<lambda>(data, f). res_bind (qemu_get_byte f) (\<lambda>(index, f).
        res_bind (get_tm f) (\<lambda>(t, f).
        res_bind (get_own_timer (timers_null s) (periodic_timer s) f) (\<lambda>(pt, f).
        res_bind (get_int64 f) (\<lambda>(npt, f). res_bind (get_int64 f) (\<lambda>(nst, f).
        res_bind (get_own_timer (timers_null s) (second_timer s) f) (\<lambda>(st, f).
        res_bind (get_own_timer (timers_null s) (second_timer2 s) f) (\<lambda>(st2, f).
          Inr ((0, s\<lparr>cmos_data := data @ drop (length data) (cmos_data s), cmos_index := index, current_tm := t,
                 periodic_timer := pt, next_periodic_time := npt, next_second_time := nst,
                 second_timer := st, second_timer2 := st2\<rparr>), f))))))))))"

section \<open>Memory mapped interface\<close>

definition cmos_mm_readb :: "u64 \<Rightarrow> rtc_state \<Rightarrow> (u32 \<times> rtc_state) res" where
  "cmos_mm_readb addr s = res_bind (cmos_ioport_read (ucast (drop_bit (rtc_it_shift s) addr)) s) (\<lambda>(v, s). Inr (v AND 0xFF, s))"

definition cmos_mm_writeb :: "rtc_env \<Rightarrow> u64 \<Rightarrow> u32 \<Rightarrow> rtc_state \<Rightarrow> rtc_state res" where
  "cmos_mm_writeb e addr value s = cmos_ioport_write e (ucast (drop_bit (rtc_it_shift s) addr)) (value AND 0xFF) s"

definition cmos_mm_readw :: "u64 \<Rightarrow> rtc_state \<Rightarrow> (u32 \<times> rtc_state) res" where
  "cmos_mm_readw addr s = res_bind (cmos_ioport_read (ucast (drop_bit (rtc_it_shift s) addr)) s) (\<lambda>(v, s). Inr (v AND 0xFFFF, s))"

definition cmos_mm_writew :: "rtc_env \<Rightarrow> u64 \<Rightarrow> u32 \<Rightarrow> rtc_state \<Rightarrow> rtc_state res" where
  "cmos_mm_writew e addr value s = cmos_ioport_write e (ucast (drop_bit (rtc_it_shift s) addr)) (value AND 0xFFFF) s"

definition cmos_mm_readl :: "u64 \<Rightarrow> rtc_state \<Rightarrow> (u32 \<times> rtc_state) res" where
  "cmos_mm_readl addr s = cmos_ioport_read (ucast (drop_bit (rtc_it_shift s) addr)) s"

definition cmos_mm_writel :: "rtc_env \<Rightarrow> u64 \<Rightarrow> u32 \<Rightarrow> rtc_state \<Rightarrow> rtc_state res" where
  "cmos_mm_writel e addr value s = cmos_ioport_write e (ucast (drop_bit (rtc_it_shift s) addr)) value s"

section \<open>The calendar against a day count\<close>

definition leap :: "int \<Rightarrow> bool" where
  "leap y \<longleftrightarrow> 4 dvd y \<and> (\<not> 100 dvd y \<or> 400 dvd y)"

definition month_len :: "int \<Rightarrow> nat \<Rightarrow> int" where
  "month_len y m = (if m = 1 then 28 + of_bool (leap y) else if m \<in> {3, 5, 8, 10} then 30 else 31)"

definition days_before_year :: "int \<Rightarrow> int" where
  "days_before_year y = 365 * (y - 1) + (y - 1) div 4 - (y - 1) div 100 + (y - 1) div 400"

definition days_before_month :: "int \<Rightarrow> nat \<Rightarrow> int" where
  "days_before_month y m = (\<Sum>i<m. month_len y i)"

text \<open>Days since 1 January of year 1 of the Gregorian calendar, a Monday, and seconds since its midnight.\<close>

definition day_number :: "tm \<Rightarrow> int" where
  "day_number t = days_before_year (tm_year t + 1900) + days_before_month (tm_year t + 1900) (nat (tm_mon t)) + tm_mday t - 1"

definition second_number :: "tm \<Rightarrow> int" where
  "second_number t = ((day_number t * 24 + tm_hour t) * 60 + tm_min t) * 60 + tm_sec t"

definition date_valid :: "tm \<Rightarrow> bool" where
  "date_valid t \<longleftrightarrow> 0 < tm_year t + 1900 \<and> 0 \<le> tm_mon t \<and> tm_mon t < 12 \<and> 1 \<le> tm_mday t
     \<and> tm_mday t \<le> month_len (tm_year t + 1900) (nat (tm_mon t)) \<and> tm_wday t = (day_number t + 1) mod 7"

definition tm_valid :: "tm \<Rightarrow> bool" where
  "tm_valid t \<longleftrightarrow> date_valid t \<and> 0 \<le> tm_hour t \<and> tm_hour t < 24 \<and> 0 \<le> tm_min t \<and> tm_min t < 60
     \<and> 0 \<le> tm_sec t \<and> tm_sec t < 60"

lemma smod_nonneg: "0 \<le> a \<Longrightarrow> 0 < b \<Longrightarrow> a smod b = a mod (b::int)"
  by (cases "a = 0") (simp_all add: signed_modulo_int_def)

lemma sdiv_nonneg: "0 \<le> a \<Longrightarrow> 0 < b \<Longrightarrow> a sdiv b = a div (b::int)"
  by (cases "a = 0") (simp_all add: signed_divide_int_def)

lemma month_cases:
  assumes "0 \<le> m" "m < (12::int)"
  obtains "m = 0" | "m = 1" | "m = 2" | "m = 3" | "m = 4" | "m = 5" | "m = 6" | "m = 7" | "m = 8" | "m = 9" | "m = 10" | "m = 11"
proof -
  have "m = 0 \<or> m = 1 \<or> m = 2 \<or> m = 3 \<or> m = 4 \<or> m = 5 \<or> m = 6 \<or> m = 7 \<or> m = 8 \<or> m = 9 \<or> m = 10 \<or> m = 11"
    using assms by arith
  then show ?thesis using that by blast
qed

lemma days_in_month_correct:
  assumes "0 < y" "0 \<le> m" "m < 12"
  shows "get_days_in_month m y = month_len y (nat m)"
  using assms(2,3)
  by (cases rule: month_cases)
    (use assms(1) in \<open>simp_all add: get_days_in_month_def days_tab_def month_len_def leap_def smod_nonneg dvd_eq_mod_eq_0\<close>)

lemma div_step: "0 < k \<Longrightarrow> y div k = (y - 1) div k + of_bool (k dvd y)" for y k :: int
proof (cases "k dvd y")
  case True
  assume k: "0 < k"
  obtain q where y: "y = k * q" using True by blast
  have "(y - 1) div k = q - 1"
    by (rule int_div_pos_eq [where r = "k - 1"]) (use k in \<open>auto simp: y algebra_simps\<close>)
  then show ?thesis using True k by (simp add: y)
next
  case False
  assume k: "0 < k"
  have r: "0 < y mod k" using False k by (simp add: dvd_eq_mod_eq_0 less_le)
  have "(y - 1) div k = y div k"
    by (rule int_div_pos_eq [where r = "y mod k - 1"])
      (use k r pos_mod_bound [OF k, of y] in \<open>auto simp: algebra_simps\<close>)
  then show ?thesis using False by simp
qed

lemma year_step: "days_before_year (y + 1) = days_before_year y + 365 + of_bool (leap y)"
proof -
  have d: "100 dvd y \<Longrightarrow> 4 dvd y" "400 dvd y \<Longrightarrow> 100 dvd y" by (auto elim!: dvdE)
  have q: "y div 4 = (y - 1) div 4 + of_bool (4 dvd y)" "y div 100 = (y - 1) div 100 + of_bool (100 dvd y)"
    "y div 400 = (y - 1) div 400 + of_bool (400 dvd y)"
    by (rule div_step, simp)+
  have "of_bool (leap y) = of_bool (4 dvd y) - of_bool (100 dvd y) + (of_bool (400 dvd y) :: int)"
    unfolding leap_def using d by (cases "4 dvd y"; cases "100 dvd y"; cases "400 dvd y") simp_all
  then show ?thesis unfolding days_before_year_def using q by simp
qed

lemma month_step: "days_before_month y (Suc m) = days_before_month y m + month_len y m"
  by (simp add: days_before_month_def)

lemma year_of_months: "days_before_month y 12 = 365 + of_bool (leap y)"
proof -
  have "(12::nat) = Suc (Suc (Suc (Suc (Suc (Suc (Suc (Suc (Suc (Suc (Suc (Suc 0)))))))))))" by simp
  then show ?thesis
    by (simp only: days_before_month_def sum.lessThan_Suc) (simp add: month_len_def)
qed

lemma wday_wrap: "0 \<le> r \<Longrightarrow> r < 7 \<Longrightarrow> (if r + 1 < 0 \<or> r + 1 \<ge> 7 then 0 else r + 1) = (r + 1) mod (7::int)"
  by (cases "r = 6") (auto simp: mod_pos_pos_trivial)

lemma wday_step: "(if (d + 1) mod 7 + 1 < 0 \<or> (d + 1) mod 7 + 1 \<ge> 7 then 0 else (d + 1) mod 7 + 1) = (d + 2) mod (7::int)"
proof -
  have "(d + 2) mod 7 = ((d + 1) mod 7 + 1) mod 7" by (simp add: mod_simps add.commute)
  then show ?thesis using wday_wrap [of "(d + 1) mod 7"] by simp
qed

lemma next_day_correct:
  assumes "date_valid t"
  shows "date_valid (next_day t) \<and> day_number (next_day t) = day_number t + 1 \<and> tm_hour (next_day t) = tm_hour t
    \<and> tm_min (next_day t) = tm_min t \<and> tm_sec (next_day t) = tm_sec t"
proof -
  let ?y = "tm_year t + 1900" and ?m = "tm_mon t"
  have v: "0 < ?y" "0 \<le> ?m" "?m < 12" "1 \<le> tm_mday t" "tm_mday t \<le> month_len ?y (nat ?m)"
    "tm_wday t = (day_number t + 1) mod 7"
    using assms by (auto simp: date_valid_def)
  let ?w = "if tm_wday t + 1 < 0 \<or> tm_wday t + 1 \<ge> 7 then 0 else tm_wday t + 1"
  have w: "?w = (day_number t + 2) mod 7" unfolding v(6) by (rule wday_step)
  have dim: "get_days_in_month ?m ?y = month_len ?y (nat ?m)" by (rule days_in_month_correct [OF v(1-3)])
  have len: "1 \<le> month_len y n" for y n by (simp add: month_len_def)
  consider (in_month) "tm_mday t < month_len ?y (nat ?m)"
    | (in_year) "tm_mday t = month_len ?y (nat ?m)" "?m < 11"
    | (year_end) "tm_mday t = month_len ?y (nat ?m)" "?m = 11" using v by linarith
  then show ?thesis
  proof cases
    case in_month
    have n: "next_day t = t\<lparr>tm_wday := ?w, tm_mday := tm_mday t + 1\<rparr>"
      using in_month v dim by (simp add: next_day_def Let_def)
    have d: "day_number (next_day t) = day_number t + 1" by (simp add: n day_number_def)
    then show ?thesis using in_month v w by (simp add: date_valid_def n add.commute [of 2])
  next
    case in_year
    have n: "next_day t = t\<lparr>tm_wday := ?w, tm_mday := 1, tm_mon := ?m + 1\<rparr>"
      using in_year v dim by (simp add: next_day_def Let_def)
    have m: "nat (?m + 1) = Suc (nat ?m)" using v(2) by simp
    have d: "day_number (next_day t) = day_number t + 1" by (simp add: n day_number_def m month_step in_year(1))
    then show ?thesis using in_year(2) v w by (simp add: date_valid_def n len add.commute [of 2])
  next
    case year_end
    have n: "next_day t = t\<lparr>tm_wday := ?w, tm_mday := 1, tm_mon := 0, tm_year := tm_year t + 1\<rparr>"
      using year_end v dim by (simp add: next_day_def Let_def)
    have m: "days_before_month ?y 11 + month_len ?y 11 = 365 + of_bool (leap ?y)"
      using month_step [of ?y 11] year_of_months [of ?y] by simp
    have y: "days_before_year (tm_year t + 1901) = days_before_year ?y + 365 + of_bool (leap ?y)"
      using year_step [of ?y] by (simp add: algebra_simps)
    have d: "day_number (next_day t) = day_number t + 1"
      using m y year_end by (simp add: n day_number_def days_before_month_def add.commute [of 1901])
    then show ?thesis using v w by (simp add: date_valid_def n len add.commute [of 2])
  qed
qed

text \<open>C17: Calendar. On a valid broken-down time \<open>rtc_next_second\<close> advances the time by exactly one second
  of the Gregorian calendar, leap years and the day of the week included, and yields a valid time again.\<close>

theorem rtc_next_second_calendar:
  assumes "tm_valid t"
  shows "tm_valid (rtc_next_second t) \<and> second_number (rtc_next_second t) = second_number t + 1"
proof -
  have v: "date_valid t" "0 \<le> tm_hour t" "tm_hour t < 24" "0 \<le> tm_min t" "tm_min t < 60" "0 \<le> tm_sec t" "tm_sec t < 60"
    using assms by (auto simp: tm_valid_def)
  have dv: "date_valid (t\<lparr>tm_sec := a\<rparr>) = date_valid t" "day_number (t\<lparr>tm_sec := a\<rparr>) = day_number t"
    "date_valid (t\<lparr>tm_sec := a, tm_min := b\<rparr>) = date_valid t" "day_number (t\<lparr>tm_sec := a, tm_min := b\<rparr>) = day_number t"
    "date_valid (t\<lparr>tm_sec := a, tm_min := b, tm_hour := c\<rparr>) = date_valid t"
    "day_number (t\<lparr>tm_sec := a, tm_min := b, tm_hour := c\<rparr>) = day_number t" for a b c
    by (simp_all add: date_valid_def day_number_def)
  let ?u = "t\<lparr>tm_sec := 0, tm_min := 0, tm_hour := 0\<rparr>"
  consider "tm_sec t < 59" | "tm_sec t = 59" "tm_min t < 59" | "tm_sec t = 59" "tm_min t = 59" "tm_hour t < 23"
    | (midnight) "tm_sec t = 59" "tm_min t = 59" "tm_hour t = 23" using v by linarith
  then show ?thesis
  proof cases
    case midnight
    have "rtc_next_second t = next_day ?u" using midnight by (simp add: rtc_next_second_def)
    then show ?thesis
      using next_day_correct [of ?u] v midnight by (simp add: tm_valid_def second_number_def dv)
  qed (use v in \<open>simp_all add: rtc_next_second_def tm_valid_def second_number_def dv\<close>)
qed

text \<open>The last second of February 2000, a Tuesday: the next day is Wednesday 1 March.\<close>

definition leap_eve :: tm where
  "leap_eve = \<lparr>tm_sec = 59, tm_min = 59, tm_hour = 23, tm_wday = 2, tm_mday = 29, tm_mon = 1, tm_year = 100\<rparr>"

theorem rtc_next_second_calendar_witness:
  "tm_valid leap_eve \<and> second_number (rtc_next_second leap_eve) = second_number leap_eve + 1
    \<and> rtc_next_second leap_eve = \<lparr>tm_sec = 0, tm_min = 0, tm_hour = 0, tm_wday = 3, tm_mday = 1, tm_mon = 2, tm_year = 100\<rparr>"
proof -
  have v: "tm_valid leap_eve" by code_simp
  have n: "rtc_next_second leap_eve = \<lparr>tm_sec = 0, tm_min = 0, tm_hour = 0, tm_wday = 3, tm_mday = 1, tm_mon = 2, tm_year = 100\<rparr>"
    by code_simp
  show ?thesis using rtc_next_second_calendar [OF v] v n by simp
qed

section \<open>Registers\<close>

lemma reg_set_reg: "reg (set_reg i v s) j = (if i = j \<and> i < length (cmos_data s) then v else reg s j)"
  by (cases "i = j") (auto simp: reg_def set_reg_def not_less list_update_beyond)

lemma set_reg_fields [simp]:
  "length (cmos_data (set_reg i v s)) = length (cmos_data s)" "current_tm (set_reg i v s) = current_tm s"
  "base_year (set_reg i v s) = base_year s" "timers_null (set_reg i v s) = timers_null s"
  "cmos_index (set_reg i v s) = cmos_index s" "rtc_events (set_reg i v s) = rtc_events s"
  "next_second_time (set_reg i v s) = next_second_time s"
  by (simp_all add: set_reg_def)

lemma to_bcd_set_reg [simp]: "i \<noteq> 11 \<Longrightarrow> to_bcd (set_reg i v s) = to_bcd s" "i \<noteq> 11 \<Longrightarrow> from_bcd (set_reg i v s) = from_bcd s"
  by (rule ext, simp add: to_bcd_def from_bcd_def reg_set_reg)+

lemma bcd_value:
  assumes "0 \<le> v" "v < 100"
  shows "push_bit 4 (v sdiv 10) OR (v smod 10) = v div 10 * 16 + v mod (10::int)"
proof -
  have "v mod 10 < 2 ^ 4" using pos_mod_bound [of 10 v] by simp
  then have t: "take_bit 4 (v mod 10) = v mod 10" by (simp add: take_bit_int_eq_self)
  have "push_bit 4 (v div 10) AND take_bit 4 (v mod 10) = 0"
    by (rule bit_eqI) (auto simp: bit_simps)
  then have "push_bit 4 (v div 10) AND (v mod 10) = 0" unfolding t .
  from disjunctive_add_eq_or [OF this] show ?thesis
    using assms by (simp add: smod_nonneg sdiv_nonneg push_bit_eq_mult)
qed

lemma uint_byte: "0 \<le> c \<Longrightarrow> c < 256 \<Longrightarrow> uint (word_of_int c :: u8) = c"
  by (simp add: uint_word_of_int)

lemma int_and_15: "c AND 0x0f = c mod (16::int)"
  using take_bit_eq_mask [of 4 c] by (simp add: mask_numeral take_bit_eq_mod)

lemma bcd_bound:
  assumes "0 \<le> v" "v < 100"
  shows "0 \<le> to_bcd s v" "to_bcd s v < 256" "from_bcd s (to_bcd s v) = v" "v < 80 \<Longrightarrow> to_bcd s v < 128"
proof -
  let ?c = "v div 10 * 16 + v mod 10"
  have q: "v div 10 < 10" "0 \<le> v div 10" "0 \<le> v mod 10" "v mod 10 < 10" using assms by auto
  then have c: "0 \<le> ?c" "?c < 256" "?c div 16 = v div 10" "?c mod 16 = v mod 10" by auto
  have "v < 80 \<Longrightarrow> v div 10 < 8" by simp
  then have "v < 80 \<Longrightarrow> ?c < 128" using q assms by linarith
  then show "0 \<le> to_bcd s v" "to_bcd s v < 256" "from_bcd s (to_bcd s v) = v" "v < 80 \<Longrightarrow> to_bcd s v < 128"
    using assms c by (auto simp: to_bcd_def from_bcd_def bcd_value drop_bit_eq_div int_and_15)
qed

lemma bcd_roundtrip:
  "0 \<le> v \<Longrightarrow> v < 100 \<Longrightarrow> from_bcd s (uint (word_of_int (to_bcd s v) :: u8)) = v"
  by (simp add: uint_byte bcd_bound)

lemma hour_bits:
  assumes "0 \<le> c" "c < 128"
  shows "(word_of_int c :: u8) AND 0x7f = word_of_int c" "(word_of_int c :: u8) AND 0x80 = 0"
    "(word_of_int c OR 0x80 :: u8) AND 0x7f = word_of_int c" "(word_of_int c OR 0x80 :: u8) AND 0x80 \<noteq> 0"
proof -
  let ?w = "word_of_int c :: u8"
  have t: "take_bit 7 ?w = ?w"
    by (rule word_uint_eqI) (use assms in \<open>simp add: unsigned_take_bit_eq uint_byte take_bit_int_eq_self\<close>)
  then show a: "?w AND 0x7f = ?w" by (simp add: bit_facts)
  have k: "(0x80::u8) = 2 ^ 7" by simp
  have "\<not> bit (take_bit 7 ?w) 7" by (simp add: bit_take_bit_iff)
  then have "\<not> bit ?w 7" unfolding t .
  then show "?w AND 0x80 = 0" unfolding k by (simp only: and_exp_eq_0_iff_not_bit not_False_eq_True)
  show "(?w OR 0x80) AND 0x7f = ?w"
    using a by (simp add: bit.conj_disj_distrib2)
  show "(?w OR 0x80) AND 0x80 \<noteq> 0"
    by (simp add: bit.conj_disj_distrib2 word_bw_comms)
qed

text \<open>The registers the date is copied to.\<close>

lemma copy_date_regs:
  fixes s
  assumes "length (cmos_data s) = 128"
  defines "t \<equiv> current_tm s"
  shows "reg (rtc_copy_date s) 0 = word_of_int (to_bcd s (tm_sec t))"
    "reg (rtc_copy_date s) 2 = word_of_int (to_bcd s (tm_min t))"
    "reg (rtc_copy_date s) 4 = (if reg s 11 AND 2 \<noteq> 0 then word_of_int (to_bcd s (tm_hour t))
       else if 12 \<le> tm_hour t then word_of_int (to_bcd s (tm_hour t smod 12)) OR 0x80
       else word_of_int (to_bcd s (tm_hour t smod 12)))"
    "reg (rtc_copy_date s) 6 = word_of_int (to_bcd s (tm_wday t + 1))"
    "reg (rtc_copy_date s) 7 = word_of_int (to_bcd s (tm_mday t))"
    "reg (rtc_copy_date s) 8 = word_of_int (to_bcd s (tm_mon t + 1))"
    "reg (rtc_copy_date s) 9 = (let y = (tm_year t - base_year s) smod 100
                                in word_of_int (to_bcd s (if y < 0 then y + 100 else y)))"
    "reg (rtc_copy_date s) 11 = reg s 11" "current_tm (rtc_copy_date s) = t" "base_year (rtc_copy_date s) = base_year s"
    "reg (rtc_copy_date s) 3 = reg s 3" "reg (rtc_copy_date s) 12 = reg s 12" "timers_null (rtc_copy_date s) = timers_null s"
    "length (cmos_data (rtc_copy_date s)) = 128" "rtc_events (rtc_copy_date s) = rtc_events s"
    "cmos_index (rtc_copy_date s) = cmos_index s"
  using assms by (simp_all add: rtc_copy_date_def copy_hours_def set_bcd_def reg_set_reg Let_def)

lemma year_mod: "(if z smod 100 < 0 then z smod 100 + 100 else z smod 100) = z mod (100::int)"
proof (cases "0 \<le> z")
  case True
  then show ?thesis by (simp add: smod_nonneg)
next
  case False
  then have "z smod 100 = - ((- z) mod 100)" by (simp add: signed_modulo_int_def)
  then show ?thesis by (simp add: zmod_zminus1_eq_if split: if_splits)
qed

lemma copied_hour:
  fixes s
  assumes "length (cmos_data s) = 128" "0 \<le> tm_hour (current_tm s)" "tm_hour (current_tm s) < 24"
  shows "(let h = reg (rtc_copy_date s) 4; v = from_bcd s (uint (h AND 0x7f))
          in if reg s 11 AND 2 = 0 \<and> h AND 0x80 \<noteq> 0 then v + 12 else v) = tm_hour (current_tm s)"
proof -
  let ?h = "tm_hour (current_tm s)"
  have b: "to_bcd s ?h < 128" "0 \<le> to_bcd s ?h" "from_bcd s (uint (word_of_int (to_bcd s ?h) :: u8)) = ?h"
    using assms bcd_bound bcd_roundtrip by auto
  have m: "?h smod 12 = ?h mod 12" using assms by (simp add: smod_nonneg)
  have "0 \<le> ?h mod 12" "?h mod 12 < 12" by auto
  then have c: "to_bcd s (?h mod 12) < 128" "0 \<le> to_bcd s (?h mod 12)"
    "from_bcd s (uint (word_of_int (to_bcd s (?h mod 12)) :: u8)) = ?h mod 12"
    using bcd_bound bcd_roundtrip by auto
  consider (h24) "reg s 11 AND 2 \<noteq> 0" | (pm) "reg s 11 AND 2 = 0" "12 \<le> ?h" | (am) "reg s 11 AND 2 = 0" "?h < 12" by linarith
  then show ?thesis
  proof cases
    case h24
    then show ?thesis by (simp add: copy_date_regs(3) [OF assms(1)] hour_bits [OF b(2,1)] b(3) Let_def)
  next
    case pm
    then have "?h mod 12 = ?h - 12" using assms(3) by presburger
    with pm show ?thesis
      using c hour_bits [OF c(2,1)] by (simp add: copy_date_regs(3) [OF assms(1)] Let_def m)
  next
    case am
    then have "?h mod 12 = ?h" using assms(2) by simp
    with am show ?thesis
      using c hour_bits [OF c(2,1)] by (simp add: copy_date_regs(3) [OF assms(1)] Let_def m)
  qed
qed

text \<open>Date registers. For every valid time whose year lies in the century that starts at the clock's base
  year, in BCD and binary and in 12 and 24 hour mode, decoding the date registers gives back the time that
  was copied to them.\<close>

theorem rtc_date_roundtrip:
  assumes "length (cmos_data s) = 128" "tm_valid (current_tm s)"
    and "base_year s \<le> tm_year (current_tm s) + 1900" "tm_year (current_tm s) + 1900 < base_year s + 100"
  shows "rtc_set_time (rtc_copy_date s) = rtc_copy_date s \<and> current_tm (rtc_copy_date s) = current_tm s"
proof -
  let ?t = "current_tm s" and ?s = "rtc_copy_date s"
  have v: "0 \<le> tm_hour ?t" "tm_hour ?t < 24" "0 \<le> tm_min ?t" "tm_min ?t < 60" "0 \<le> tm_sec ?t" "tm_sec ?t < 60"
    "0 \<le> tm_wday ?t" "tm_wday ?t < 7" "0 \<le> tm_mon ?t" "tm_mon ?t < 12" "1 \<le> tm_mday ?t" "tm_mday ?t \<le> 31"
    using assms(2) by (auto simp: tm_valid_def date_valid_def month_len_def of_bool_def split: if_splits)
  have f: "from_bcd ?s = from_bcd s" by (rule ext) (simp add: from_bcd_def copy_date_regs [OF assms(1)])
  note r = copy_date_regs [OF assms(1)]
  let ?y = "(tm_year ?t - base_year s) mod 100"
  have "?y = tm_year ?t + 1900 - base_year s"
    by (rule int_mod_pos_eq [where q = "-19"]) (use assms(3,4) in auto)
  moreover have "from_bcd s (uint (word_of_int (to_bcd s ?y) :: u8)) = ?y" by (rule bcd_roundtrip) auto
  ultimately have y: "from_bcd s (uint (reg ?s 9)) + base_year s - 1900 = tm_year ?t"
    by (simp add: r(7) Let_def year_mod)
  have h: "(if reg ?s 11 AND 2 = 0 \<and> reg ?s 4 AND 0x80 \<noteq> 0 then from_bcd ?s (uint (reg ?s 4 AND 0x7f)) + 12
            else from_bcd ?s (uint (reg ?s 4 AND 0x7f))) = tm_hour ?t"
    using copied_hour [OF assms(1) v(1,2)] by (simp only: Let_def f r(8))
  have "rtc_set_time ?s = ?s\<lparr>current_tm := ?t\<rparr>"
    unfolding rtc_set_time_def Let_def h
    using v by (simp add: f y r(1,2,4,5,6) r(10) bcd_roundtrip)
  then show ?thesis by (simp add: r(9) [symmetric])
qed

text \<open>A clock in 12-hour BCD mode at 23:59:59.\<close>

definition rtc_demo :: rtc_state where
  "rtc_demo = (rtc_init leap_eve 2000)\<lparr>cmos_data := (cmos_data (rtc_init leap_eve 2000))[11 := 0]\<rparr>"

lemma rtc_demo_facts:
  "length (cmos_data rtc_demo) = 128" "current_tm rtc_demo = leap_eve" "base_year rtc_demo = 2000"
  by (simp_all add: rtc_demo_def rtc_init_def rtc_set_date_from_host_def rtc_set_date_def rtc_set_memory_def Let_def copy_date_regs)

theorem rtc_date_roundtrip_witness:
  "rtc_set_time (rtc_copy_date rtc_demo) = rtc_copy_date rtc_demo \<and> current_tm (rtc_copy_date rtc_demo) = leap_eve
    \<and> reg (rtc_copy_date rtc_demo) 4 = 0x91"
proof -
  have v: "tm_valid leap_eve" by code_simp
  have "reg (rtc_copy_date rtc_demo) 4 = 0x91" by code_simp
  then show ?thesis
    using rtc_date_roundtrip [of rtc_demo] v rtc_demo_facts by (simp add: leap_eve_def)
qed

text \<open>Alarm. With the alarm interrupt enabled and the update interrupt disabled, the once-a-second update
  raises no interrupt and sets no flag whenever the minutes alarm register differs from the current month,
  whatever the current minute is: the source compares that register with the month.\<close>

theorem rtc_minute_alarm_is_month:
  assumes "length (cmos_data s) = 128" "\<not> timers_null s" "reg s 11 AND 0x10 = 0"
    and "reg s 3 AND 0xc0 \<noteq> 0xc0" "uint (reg s 3) \<noteq> tm_mon (current_tm s)"
  shows "\<exists>s'. rtc_update_second2 e s = Inr s' \<and> rtc_events s' = rtc_events s \<and> reg s' 12 = reg s 12"
proof -
  let ?s = "if reg s 11 AND 0x80 = 0 then rtc_copy_date s else s"
  note c = copy_date_regs [OF assms(1)]
  have "\<not> rtc_alarm ?s" using assms(4,5) by (simp add: rtc_alarm_def alarm_field_def c)
  moreover have "reg ?s 11 AND 0x10 = 0" "length (cmos_data ?s) = 128" "\<not> timers_null ?s"
    "rtc_events ?s = rtc_events s" "reg ?s 12 = reg s 12"
    using assms(1-3) by (simp_all add: c)
  ultimately show ?thesis
    by (auto simp: rtc_update_second2_def Let_def reg_set_reg) (auto simp: reg_def set_reg_def)
qed

text \<open>07:30:00 on 1 January 2001 in binary 24-hour mode, with the alarm set for 07:30:00.\<close>

definition alarm_demo :: rtc_state where
  "alarm_demo =
     (let s = rtc_init \<lparr>tm_sec = 0, tm_min = 30, tm_hour = 7, tm_wday = 1, tm_mday = 1, tm_mon = 0, tm_year = 101\<rparr> 2000
      in s\<lparr>timers_null := False, cmos_data := (cmos_data s)[1 := 0, 3 := 30, 5 := 7, 11 := 0x26]\<rparr>)"

theorem rtc_minute_alarm_is_month_witness:
  "reg alarm_demo 3 = 30 \<and> tm_min (current_tm alarm_demo) = 30 \<and> (\<exists>s'.
     rtc_update_second2 \<lparr>rtc_hpet_legacy = False, rtc_now = 0, rtc_ticks = 1000000000\<rparr> alarm_demo = Inr s'
     \<and> rtc_events s' = rtc_events alarm_demo \<and> reg s' 12 = reg alarm_demo 12)"
proof -
  have "length (cmos_data alarm_demo) = 128 \<and> \<not> timers_null alarm_demo \<and> reg alarm_demo 11 AND 0x10 = 0
    \<and> reg alarm_demo 3 AND 0xc0 \<noteq> 0xc0 \<and> uint (reg alarm_demo 3) \<noteq> tm_mon (current_tm alarm_demo)
    \<and> reg alarm_demo 3 = 30 \<and> tm_min (current_tm alarm_demo) = 30" by code_simp
  then show ?thesis using rtc_minute_alarm_is_month [of alarm_demo] by blast
qed

section \<open>Port accesses\<close>

definition rtc_inv :: "rtc_state \<Rightarrow> bool" where
  "rtc_inv s \<longleftrightarrow> length (cmos_data s) = 128 \<and> unat (cmos_index s) < 128"

lemma timer_update_null:
  assumes "(word_of_int (rtc_ticks e) :: u32) \<noteq> 0" "timers_null s"
  shows "rtc_timer_update e now s = Inl Bad_access"
  using assms by (simp add: rtc_timer_update_def muldiv64_def Let_def)

lemma timer_update_armed:
  assumes "(word_of_int (rtc_ticks e) :: u32) \<noteq> 0" "\<not> timers_null s"
  obtains p n where "rtc_timer_update e now s = Inr (s\<lparr>next_periodic_time := n, periodic_timer := p\<rparr>)"
proof (cases "reg s 10 AND 0x0f \<noteq> 0 \<and> reg s 11 AND 0x40 \<noteq> 0 \<and> \<not> rtc_hpet_legacy e")
  case True
  then show ?thesis using assms by (intro that) (simp add: rtc_timer_update_def muldiv64_def Let_def)
next
  case False
  then have "rtc_timer_update e now s = Inr (s\<lparr>next_periodic_time := next_periodic_time s, periodic_timer := None\<rparr>)"
    using assms(2) unfolding rtc_timer_update_def Let_def if_not_P [OF False] by simp
  then show ?thesis by (rule that)
qed

lemma set_time_fields [simp]:
  "cmos_data (rtc_set_time s) = cmos_data s" "cmos_index (rtc_set_time s) = cmos_index s"
  "timers_null (rtc_set_time s) = timers_null s"
  by (simp_all add: rtc_set_time_def Let_def)

lemma timer_update_port:
  assumes "(word_of_int (rtc_ticks e) :: u32) \<noteq> 0" "rtc_inv s"
  shows "if timers_null s then rtc_timer_update e now s = Inl Bad_access
         else \<exists>s'. rtc_timer_update e now s = Inr s' \<and> rtc_inv s'"
proof (cases "timers_null s")
  case True
  then show ?thesis using timer_update_null [OF assms(1)] by simp
next
  case False
  obtain p n where "rtc_timer_update e now s = Inr (s\<lparr>next_periodic_time := n, periodic_timer := p\<rparr>)"
    by (rule timer_update_armed [OF assms(1) False])
  then show ?thesis using False assms(2) by (simp add: rtc_inv_def)
qed

lemma index_byte: "unat (ucast ((data::u32) AND 0x7f) :: u8) < 128"
proof -
  have "(ucast (data AND 0x7f) :: u8) = take_bit 7 (ucast data)"
    by (rule bit_word_eqI) (auto simp: bit_simps and_low_bits)
  then show ?thesis by (simp add: unat_take_bit del: take_bit_word_eq_self)
qed

lemma rtc_inv_set_reg [simp]: "rtc_inv (set_reg i v s) = rtc_inv s" "rtc_inv (rtc_set_time s) = rtc_inv s"
  by (simp_all add: rtc_inv_def)

lemma write_data_port:
  assumes "(word_of_int (rtc_ticks e) :: u32) \<noteq> 0" "rtc_inv s"
  shows "if timers_null s \<and> cmos_index s \<in> {10, 11} then cmos_write_data e data s = Inl Bad_access
         else \<exists>s'. cmos_write_data e data s = Inr s' \<and> rtc_inv s'"
proof -
  let ?i = "unat (cmos_index s)"
  have i: "cmos_index s = 10 \<longleftrightarrow> ?i = 10" "cmos_index s = 11 \<longleftrightarrow> ?i = 11"
    by (simp_all add: word_unat_eq_iff)
  have upd: "if timers_null s then w = Inl Bad_access else \<exists>s'. w = Inr s' \<and> rtc_inv s'"
    if "w = rtc_timer_update e (rtc_now e) s1" "rtc_inv s1" "timers_null s1 = timers_null s" for w s1
    using timer_update_port [OF assms(1) that(2), of "rtc_now e"] that by simp
  consider (a) "?i = 10" | (b) "?i = 11" | (other) "?i \<noteq> 10" "?i \<noteq> 11" by blast
  then show ?thesis
  proof cases
    case a
    let ?s = "set_reg 10 (ucast (data AND NOT 0x80) OR (reg s 10 AND 0x80)) s"
    have "cmos_write_data e data s = rtc_timer_update e (rtc_now e) ?s"
      using a by (simp add: cmos_write_data_def)
    moreover have "rtc_inv ?s" "timers_null ?s = timers_null s" using assms(2) by simp_all
    ultimately have "if timers_null s then cmos_write_data e data s = Inl Bad_access
        else \<exists>s'. cmos_write_data e data s = Inr s' \<and> rtc_inv s'" by (rule upd)
    then show ?thesis using a i by simp
  next
    case b
    let ?d = "if data AND 0x80 \<noteq> 0 then data AND NOT 0x10 else data"
    let ?s1 = "if data AND 0x80 \<noteq> 0 then set_reg 10 (reg s 10 AND NOT 0x80) s
               else if reg s 11 AND 0x80 \<noteq> 0 then rtc_set_time s else s"
    let ?s = "set_reg 11 (ucast ?d) ?s1"
    have "cmos_write_data e data s = rtc_timer_update e (rtc_now e) ?s"
      using b by (simp add: cmos_write_data_def)
    moreover have "rtc_inv ?s" "timers_null ?s = timers_null s" using assms(2) by simp_all
    ultimately have "if timers_null s then cmos_write_data e data s = Inl Bad_access
        else \<exists>s'. cmos_write_data e data s = Inr s' \<and> rtc_inv s'" by (rule upd)
    then show ?thesis using b i by simp
  next
    case other
    then show ?thesis using assms(2) i by (auto simp: cmos_write_data_def Let_def) (auto simp: rtc_inv_def)
  qed
qed

text \<open>Port accesses. Reads never fault. Writes never fault when the timers exist; with the null timers that
  \<open>rtc_init\<close> leaves under \<open>CONFIG_DM\<close> exactly the data writes to registers A and B dereference a null
  pointer. A byte written to one of the 114 bytes of CMOS RAM is read back, and the clock is not disturbed.\<close>

theorem rtc_port_access:
  assumes "(word_of_int (rtc_ticks e) :: u32) \<noteq> 0" "rtc_inv s"
  shows "(\<exists>v s'. cmos_ioport_read addr s = Inr (v, s') \<and> rtc_inv s')
    \<and> (if addr AND 1 \<noteq> 0 \<and> timers_null s \<and> cmos_index s \<in> {10, 11}
       then cmos_ioport_write e addr data s = Inl Bad_access
       else \<exists>s'. cmos_ioport_write e addr data s = Inr s' \<and> rtc_inv s')
    \<and> (14 \<le> unat (cmos_index s) \<longrightarrow> (\<exists>s'. cmos_ioport_write e 0x71 data s = Inr s'
         \<and> cmos_ioport_read 0x71 s' = Inr (data AND 0xff, s') \<and> current_tm s' = current_tm s))"
proof (intro conjI impI)
  show "\<exists>v s'. cmos_ioport_read addr s = Inr (v, s') \<and> rtc_inv s'"
    using assms(2) by (auto simp: cmos_ioport_read_def Let_def) (auto simp: rtc_inv_def)
  show "if addr AND 1 \<noteq> 0 \<and> timers_null s \<and> cmos_index s \<in> {10, 11}
       then cmos_ioport_write e addr data s = Inl Bad_access
       else \<exists>s'. cmos_ioport_write e addr data s = Inr s' \<and> rtc_inv s'"
  proof (cases "addr AND 1 = 0")
    case True
    then show ?thesis using assms(2) index_byte by (simp add: cmos_ioport_write_def rtc_inv_def)
  next
    case False
    then show ?thesis using write_data_port [OF assms] by (simp add: cmos_ioport_write_def)
  qed
  assume i: "14 \<le> unat (cmos_index s)"
  have "ucast (ucast data :: u8) = data AND 0xff"
    by (rule bit_word_eqI) (auto simp: bit_simps and_low_bits)
  then show "\<exists>s'. cmos_ioport_write e 0x71 data s = Inr s'
      \<and> cmos_ioport_read 0x71 s' = Inr (data AND 0xff, s') \<and> current_tm s' = current_tm s"
    using i assms(2)
    by (auto simp: cmos_ioport_write_def cmos_ioport_read_def cmos_write_data_def rtc_inv_def reg_set_reg Let_def)
qed

theorem rtc_port_access_witness:
  "\<exists>s'. cmos_ioport_write \<lparr>rtc_hpet_legacy = False, rtc_now = 0, rtc_ticks = 1000000000\<rparr> 0x71 0x5a (rtc_demo\<lparr>cmos_index := 0x40\<rparr>) = Inr s'
     \<and> cmos_ioport_read 0x71 s' = Inr (0x5a, s') \<and> current_tm s' = leap_eve"
proof -
  have "rtc_inv (rtc_demo\<lparr>cmos_index := 0x40\<rparr>)" by (simp add: rtc_inv_def rtc_demo_facts)
  from rtc_port_access [OF _ this, where e = "\<lparr>rtc_hpet_legacy = False, rtc_now = 0, rtc_ticks = 1000000000\<rparr>" and data = "0x5a"]
  show ?thesis by (simp add: rtc_demo_facts)
qed

section \<open>Save and load\<close>

text \<open>The values the C types of the clock's fields can hold; an armed timer never expires at \<open>-1\<close>, the
  mark of an idle one.\<close>

definition tm_fits :: "tm \<Rightarrow> bool" where
  "tm_fits t \<longleftrightarrow> fits 31 (tm_sec t) \<and> fits 31 (tm_min t) \<and> fits 31 (tm_hour t) \<and> fits 31 (tm_wday t)
     \<and> fits 31 (tm_mday t) \<and> fits 31 (tm_mon t) \<and> fits 31 (tm_year t)"

definition timer_fits :: "int option \<Rightarrow> bool" where
  "timer_fits t \<longleftrightarrow> (case t of None \<Rightarrow> True | Some e \<Rightarrow> fits 63 e \<and> e \<noteq> -1)"

definition rtc_fits :: "rtc_state \<Rightarrow> bool" where
  "rtc_fits s \<longleftrightarrow> length (cmos_data s) = 128 \<and> tm_fits (current_tm s) \<and> fits 63 (next_periodic_time s)
     \<and> fits 63 (next_second_time s) \<and> timer_fits (periodic_timer s) \<and> timer_fits (second_timer s)
     \<and> timer_fits (second_timer2 s)"

definition timer_bytes :: "int option \<Rightarrow> u8 list" where
  "timer_bytes t = be64_bytes (case t of Some e \<Rightarrow> word_of_int e | None \<Rightarrow> -1)"

definition tm_bytes :: "tm \<Rightarrow> u8 list" where
  "tm_bytes t = int_bytes (tm_sec t) @ int_bytes (tm_min t) @ int_bytes (tm_hour t) @ int_bytes (tm_wday t)
     @ int_bytes (tm_mday t) @ int_bytes (tm_mon t) @ int_bytes (tm_year t)"

definition rtc_bytes :: "rtc_state \<Rightarrow> u8 list" where
  "rtc_bytes s = cmos_data s @ [cmos_index s] @ tm_bytes (current_tm s) @ timer_bytes (periodic_timer s)
     @ int64_bytes (next_periodic_time s) @ int64_bytes (next_second_time s) @ timer_bytes (second_timer s)
     @ timer_bytes (second_timer2 s)"

lemma put_tm_emits: "emits qf_writer qf_written (put_tm t) (tm_bytes t)"
  unfolding put_tm_def tm_bytes_def int_bytes_def by (intro emits_bind put_be32_emits)

lemma rtc_save_emits: "emits qf_writer qf_written (rtc_save s) (rtc_bytes s)"
  unfolding rtc_save_def rtc_bytes_def put_own_timer_def timer_bytes_def int64_bytes_def
  by (intro emits_bind put_buffer_emits put_8s_emits put_tm_emits put_be64_emits)

lemma get_int_consumes: "fits 31 x \<Longrightarrow> consumes qf_reader qf_left get_int (int_bytes x) x"
  using consumes_bind [OF get_be32_consumes consumes_return, of sint "word_of_int x"]
  by (simp add: get_int_def [abs_def] int_bytes_def sint_fits)

lemma get_int64_consumes: "fits 63 x \<Longrightarrow> consumes qf_reader qf_left get_int64 (int64_bytes x) x"
  using consumes_bind [OF get_be64_consumes consumes_return, of sint "word_of_int x"]
  by (simp add: get_int64_def [abs_def] int64_bytes_def sint_fits)

lemma get_timer_consumes:
  assumes "timer_fits t"
  shows "consumes qf_reader qf_left (get_own_timer null u) (timer_bytes t) (if null then u else t)"
proof -
  let ?w = "case t of Some e \<Rightarrow> word_of_int e | None \<Rightarrow> (-1::u64)"
  have v: "(if null then u else if ?w \<noteq> -1 then Some (sint ?w) else None) = (if null then u else t)"
  proof (cases t)
    case (Some x)
    then have x: "fits 63 x" "x \<noteq> -1" using assms by (simp_all add: timer_fits_def)
    then have "word_of_int x \<noteq> (-1::u64)" using sint_fits(2) [of x] by (metis sint_n1)
    then show ?thesis using Some x by (simp add: sint_fits)
  qed simp
  have "consumes qf_reader qf_left (get_own_timer null u) (be64_bytes ?w @ [])
      (if null then u else if ?w \<noteq> -1 then Some (sint ?w) else None)"
    unfolding get_own_timer_def by (rule consumes_bind [OF get_be64_consumes consumes_return])
  then show ?thesis unfolding v by (simp add: timer_bytes_def)
qed

lemma get_tm_consumes:
  assumes "tm_fits t"
  shows "consumes qf_reader qf_left get_tm (tm_bytes t) t"
proof -
  let ?t = "\<lparr>tm_sec = tm_sec t, tm_min = tm_min t, tm_hour = tm_hour t, tm_wday = tm_wday t, tm_mday = tm_mday t,
             tm_mon = tm_mon t, tm_year = tm_year t\<rparr>"
  have "consumes qf_reader qf_left get_tm (int_bytes (tm_sec t) @ int_bytes (tm_min t) @ int_bytes (tm_hour t)
      @ int_bytes (tm_wday t) @ int_bytes (tm_mday t) @ int_bytes (tm_mon t) @ int_bytes (tm_year t) @ []) ?t"
    unfolding get_tm_def
    by (rule consumes_bind [OF get_int_consumes] consumes_return, use assms in \<open>simp add: tm_fits_def\<close>)+
      (rule consumes_return)
  moreover have "?t = t" by (cases t) simp
  ultimately show ?thesis by (simp add: tm_bytes_def)
qed

definition rtc_restored :: "rtc_state \<Rightarrow> rtc_state \<Rightarrow> rtc_state" where
  "rtc_restored t s = t\<lparr>cmos_data := cmos_data s, cmos_index := cmos_index s, current_tm := current_tm s,
     periodic_timer := (if timers_null t then periodic_timer t else periodic_timer s),
     next_periodic_time := next_periodic_time s, next_second_time := next_second_time s,
     second_timer := (if timers_null t then second_timer t else second_timer s),
     second_timer2 := (if timers_null t then second_timer2 t else second_timer2 s)\<rparr>"

lemma rtc_load_consumes:
  assumes "rtc_fits s" "length (cmos_data t) = 128"
  shows "consumes qf_reader qf_left (rtc_load t 1) (rtc_bytes s) (0, rtc_restored t s)"
proof -
  note f = assms(1) [unfolded rtc_fits_def]
  have b: "consumes qf_reader qf_left (\<lambda>f. qemu_get_buffer f 128) (cmos_data s) (cmos_data s)"
    using get_buffer_consumes [of "cmos_data s"] f by simp
  have d: "drop (length (cmos_data s)) (cmos_data t) = []" using f assms(2) by simp
  have "consumes qf_reader qf_left (rtc_load t 1) (cmos_data s @ [cmos_index s] @ tm_bytes (current_tm s)
      @ timer_bytes (periodic_timer s) @ int64_bytes (next_periodic_time s) @ int64_bytes (next_second_time s)
      @ timer_bytes (second_timer s) @ timer_bytes (second_timer2 s) @ []) (0, rtc_restored t s)"
    unfolding rtc_load_def
    by (rule consumes_else, simp, rule consumes_bind [OF b], rule consumes_bind [OF get_byte_consumes],
        (rule consumes_bind [OF get_tm_consumes] consumes_bind [OF get_timer_consumes] consumes_bind [OF get_int64_consumes],
         use f in simp)+)
      (simp add: d rtc_restored_def consumes_return)
  then show ?thesis by (simp add: rtc_bytes_def)
qed

text \<open>Snapshot of the clock. A clock saved to a file and loaded, at version 1, into another has all its
  registers, its time and its expiry times again, and its timers when the target has timers; any other version
  is refused.\<close>

theorem rtc_snapshot:
  assumes "qemu_fopen True old ''wb'' = Some f" "rtc_fits s" "length (cmos_data t) = 128"
  shows "(\<exists>f1 g g1 t'. rtc_save s f = Inr f1 \<and> qemu_fopen True (fst (qemu_fclose f1)) ''rb'' = Some g
      \<and> rtc_load t 1 g = Inr ((0, t'), g1) \<and> cmos_data t' = cmos_data s \<and> cmos_index t' = cmos_index s
      \<and> current_tm t' = current_tm s \<and> next_periodic_time t' = next_periodic_time s
      \<and> next_second_time t' = next_second_time s \<and> (\<not> timers_null t \<longrightarrow> periodic_timer t' = periodic_timer s
           \<and> second_timer t' = second_timer s \<and> second_timer2 t' = second_timer2 s))
    \<and> (\<forall>v g. v \<noteq> 1 \<longrightarrow> rtc_load t v g = Inr ((- 22, t), g))"
proof
  obtain f1 g g1 where "rtc_save s f = Inr f1" "qemu_fopen True (fst (qemu_fclose f1)) ''rb'' = Some g"
    "rtc_load t 1 g = Inr ((0, rtc_restored t s), g1)"
    using save_then_load [OF rtc_save_emits rtc_load_consumes [OF assms(2,3)] assms(1)] by blast
  then show "\<exists>f1 g g1 t'. rtc_save s f = Inr f1 \<and> qemu_fopen True (fst (qemu_fclose f1)) ''rb'' = Some g
      \<and> rtc_load t 1 g = Inr ((0, t'), g1) \<and> cmos_data t' = cmos_data s \<and> cmos_index t' = cmos_index s
      \<and> current_tm t' = current_tm s \<and> next_periodic_time t' = next_periodic_time s
      \<and> next_second_time t' = next_second_time s \<and> (\<not> timers_null t \<longrightarrow> periodic_timer t' = periodic_timer s
           \<and> second_timer t' = second_timer s \<and> second_timer2 t' = second_timer2 s)"
    by (auto simp: rtc_restored_def)
  show "\<forall>v g. v \<noteq> 1 \<longrightarrow> rtc_load t v g = Inr ((- 22, t), g)" by (simp add: rtc_load_def)
qed

theorem rtc_snapshot_witness:
  "\<exists>f1 g g1 t'. rtc_save alarm_demo (qemu_fopen_ops [] True False) = Inr f1
    \<and> qemu_fopen True (fst (qemu_fclose f1)) ''rb'' = Some g
    \<and> rtc_load rtc_demo 1 g = Inr ((0, t'), g1) \<and> current_tm t' = current_tm alarm_demo"
proof -
  have "qemu_fopen True [] ''wb'' = Some (qemu_fopen_ops [] True False)" by (simp add: qemu_fopen_def)
  moreover have "rtc_fits alarm_demo" by code_simp
  ultimately show ?thesis using rtc_snapshot [of "[]" _ alarm_demo rtc_demo] rtc_demo_facts(1) by blast
qed

end
