(* ===== verification/Ps2.thy ===== *)
theory Ps2
  imports Bounded_Queue Qemu_File
begin

text \<open>
  The PS/2 keyboard and mouse of \<^verbatim>\<open>hw/ps2.c\<close>: the 256-byte event queue, the scan code translation,
  the command protocols of both devices, mouse packets, reset and the snapshot format. The call-back
  \<^verbatim>\<open>update_irq\<close> with its argument is the parameter \<open>upd\<close>, a function of the level on the state of
  the controller the device is plugged in, which is threaded through every operation. The queue's indices
  are C integers that a snapshot can set to any value; an access outside the array is \<open>Bad_access\<close>.
  The motion not yet sent is an integer without the overflow of the C type.
\<close>

section \<open>State\<close>

abbreviation (input) "PS2_QUEUE_SIZE \<equiv> (256::int)"

record ps2_state =
  q_data :: "u8 list"
  q_rptr :: int
  q_wptr :: int
  q_count :: int
  ps2_write_cmd :: int

record ps2_kbd_state = ps2_state +
  scan_enabled :: int
  translate :: int
  scancode_set :: int

record ps2_mouse_state = ps2_state +
  mouse_status :: u8
  mouse_resolution :: u8
  mouse_sample_rate :: u8
  mouse_wrap :: u8
  mouse_type :: u8
  mouse_detect_state :: u8
  mouse_dx :: int
  mouse_dy :: int
  mouse_dz :: int
  mouse_buttons :: u8

definition ps2_raw_keycode :: "u8 list" where
  "ps2_raw_keycode =
     [0,118, 22, 30, 38, 37, 46, 54, 61, 62, 70, 69, 78, 85,102, 13,
      21, 29, 36, 45, 44, 53, 60, 67, 68, 77, 84, 91, 90, 20, 28, 27,
      35, 43, 52, 51, 59, 66, 75, 76, 82, 14, 18, 93, 26, 34, 33, 42,
      50, 49, 58, 65, 73, 74, 89,124, 17, 41, 88,  5,  6,  4, 12,  3,
      11,  2, 10,  1,  9,119,126,108,117,125,123,107,115,116,121,105,
      114,122,112,113,127, 96, 97,120,  7, 15, 23, 31, 39, 47, 55, 63,
      71, 79, 86, 94,  8, 16, 24, 32, 40, 48, 56, 64, 72, 80, 87,111,
      19, 25, 57, 81, 83, 92, 95, 98, 99,100,101,103,104,106,109,110]"

section \<open>The queue\<close>

text \<open>The next value of an index, and the effect of a put and of a get whose index is inside the array.\<close>

definition ps2_next :: "int \<Rightarrow> int" where
  "ps2_next i = (if i + 1 = PS2_QUEUE_SIZE then 0 else i + 1)"

definition ps2_put :: "u8 \<Rightarrow> 'a ps2_state_scheme \<Rightarrow> 'a ps2_state_scheme" where
  "ps2_put b s =
     (if q_count s \<ge> PS2_QUEUE_SIZE then s
      else s\<lparr>q_data := (q_data s)[nat (q_wptr s) := b], q_wptr := ps2_next (q_wptr s), q_count := q_count s + 1\<rparr>)"

definition ps2_get :: "'a ps2_state_scheme \<Rightarrow> u8 \<times> 'a ps2_state_scheme" where
  "ps2_get s = (q_data s ! nat (q_rptr s), s\<lparr>q_rptr := ps2_next (q_rptr s), q_count := q_count s - 1\<rparr>)"

definition in_array :: "int \<Rightarrow> bool" where
  "in_array i \<longleftrightarrow> 0 \<le> i \<and> i < PS2_QUEUE_SIZE"

definition ps2_queue ::
  "(bool \<Rightarrow> 'k \<Rightarrow> 'k) \<Rightarrow> u8 \<Rightarrow> 'a ps2_state_scheme \<times> 'k \<Rightarrow> ('a ps2_state_scheme \<times> 'k) res" where
  "ps2_queue upd b = (\<lambda>(s, k).
     if q_count s \<ge> PS2_QUEUE_SIZE then Inr (s, k)
     else if \<not> in_array (q_wptr s) then Inl Bad_access
     else Inr (ps2_put b s, upd True k))"

text \<open>Several bytes in a row.\<close>

abbreviation ps2_send where
  "ps2_send upd bs sk \<equiv> res_fold (ps2_queue upd) bs sk"

definition ps2_read_data ::
  "(bool \<Rightarrow> 'k \<Rightarrow> 'k) \<Rightarrow> 'a ps2_state_scheme \<times> 'k \<Rightarrow> (u8 \<times> 'a ps2_state_scheme \<times> 'k) res" where
  "ps2_read_data upd = (\<lambda>(s, k).
     if q_count s = 0 then
       (let i = (if q_rptr s - 1 < 0 then PS2_QUEUE_SIZE - 1 else q_rptr s - 1)
        in if \<not> in_array i then Inl Bad_access else Inr (q_data s ! nat i, s, k))
     else if \<not> in_array (q_rptr s) then Inl Bad_access
     else (let (v, s1) = ps2_get s in Inr (v, s1, upd (q_count s1 \<noteq> 0) (upd False k))))"

definition ps2_reset :: "(bool \<Rightarrow> 'k \<Rightarrow> 'k) \<Rightarrow> 'a ps2_state_scheme \<times> 'k \<Rightarrow> 'a ps2_state_scheme \<times> 'k" where
  "ps2_reset upd = (\<lambda>(s, k). (s\<lparr>ps2_write_cmd := -1, q_rptr := 0, q_wptr := 0, q_count := 0\<rparr>, upd False k))"

section \<open>Keyboard\<close>

abbreviation (input) "KBD_REPLY_POR \<equiv> (0xAA::u8)"
abbreviation (input) "KBD_REPLY_ID \<equiv> (0xAB::u8)"
abbreviation (input) "KBD_REPLY_ACK \<equiv> (0xFA::u8)"
abbreviation (input) "KBD_REPLY_RESEND \<equiv> (0xFE::u8)"

definition ps2_put_keycode ::
  "(bool \<Rightarrow> 'k \<Rightarrow> 'k) \<Rightarrow> int \<Rightarrow> ps2_kbd_state \<times> 'k \<Rightarrow> (ps2_kbd_state \<times> 'k) res" where
  "ps2_put_keycode upd keycode = (\<lambda>(s, k).
     if translate s = 0 \<and> keycode < 0xe0 \<and> scancode_set s = 2 then
       res_bind (if keycode AND 0x80 \<noteq> 0 then ps2_queue upd 0xf0 (s, k) else Inr (s, k))
         (ps2_queue upd (ps2_raw_keycode ! nat (keycode AND 0x7f)))
     else ps2_queue upd (word_of_int keycode) (s, k))"

definition ps2_reset_keyboard :: "ps2_kbd_state \<Rightarrow> ps2_kbd_state" where
  "ps2_reset_keyboard s = s\<lparr>scan_enabled := 1, scancode_set := 2\<rparr>"

text \<open>A byte that starts a command, and the byte that follows one of the three commands with a parameter.\<close>

definition ps2_kbd_command ::
  "(bool \<Rightarrow> 'k \<Rightarrow> 'k) \<Rightarrow> int \<Rightarrow> ps2_kbd_state \<times> 'k \<Rightarrow> (ps2_kbd_state \<times> 'k) res" where
  "ps2_kbd_command upd val = (\<lambda>(s, k).
     if val = 0x00 then ps2_queue upd KBD_REPLY_ACK (s, k)
     else if val = 0x05 then ps2_queue upd KBD_REPLY_RESEND (s, k)
     else if val = 0xF2 then
       ps2_send upd [KBD_REPLY_ACK, KBD_REPLY_ID, if translate s \<noteq> 0 then 0x41 else 0x83] (s, k)
     else if val = 0xEE then ps2_queue upd 0xEE (s, k)
     else if val = 0xF4 then ps2_queue upd KBD_REPLY_ACK (s\<lparr>scan_enabled := 1\<rparr>, k)
     else if val \<in> {0xF0, 0xED, 0xF3} then ps2_queue upd KBD_REPLY_ACK (s\<lparr>ps2_write_cmd := val\<rparr>, k)
     else if val = 0xF5 then ps2_queue upd KBD_REPLY_ACK ((ps2_reset_keyboard s)\<lparr>scan_enabled := 0\<rparr>, k)
     else if val = 0xF6 then ps2_queue upd KBD_REPLY_ACK ((ps2_reset_keyboard s)\<lparr>scan_enabled := 1\<rparr>, k)
     else if val = 0xFF then ps2_send upd [KBD_REPLY_ACK, KBD_REPLY_POR] (ps2_reset_keyboard s, k)
     else ps2_queue upd KBD_REPLY_ACK (s, k))"

definition ps2_kbd_scancode ::
  "(bool \<Rightarrow> 'k \<Rightarrow> 'k) \<Rightarrow> int \<Rightarrow> ps2_kbd_state \<times> 'k \<Rightarrow> (ps2_kbd_state \<times> 'k) res" where
  "ps2_kbd_scancode upd val = (\<lambda>(s, k).
     if val = 0 then
       if scancode_set s = 1 then ps2_put_keycode upd 0x43 (s, k)
       else if scancode_set s = 2 then ps2_put_keycode upd 0x41 (s, k)
       else if scancode_set s = 3 then ps2_put_keycode upd 0x3f (s, k)
       else Inr (s, k)
     else ps2_queue upd KBD_REPLY_ACK (if 1 \<le> val \<and> val \<le> 3 then s\<lparr>scancode_set := val\<rparr> else s, k))"

definition end_command :: "'a ps2_state_scheme \<times> 'k \<Rightarrow> ('a ps2_state_scheme \<times> 'k) res" where
  "end_command = (\<lambda>(s, k). Inr (s\<lparr>ps2_write_cmd := -1\<rparr>, k))"

definition ps2_write_keyboard ::
  "(bool \<Rightarrow> 'k \<Rightarrow> 'k) \<Rightarrow> int \<Rightarrow> ps2_kbd_state \<times> 'k \<Rightarrow> (ps2_kbd_state \<times> 'k) res" where
  "ps2_write_keyboard upd val = (\<lambda>(s, k).
     if ps2_write_cmd s = 0xF0 then res_bind (ps2_kbd_scancode upd val (s, k)) end_command
     else if ps2_write_cmd s \<in> {0xED, 0xF3} then res_bind (ps2_queue upd KBD_REPLY_ACK (s, k)) end_command
     else ps2_kbd_command upd val (s, k))"

definition ps2_keyboard_set_translation :: "int \<Rightarrow> ps2_kbd_state \<Rightarrow> ps2_kbd_state" where
  "ps2_keyboard_set_translation md s = s\<lparr>translate := md\<rparr>"

section \<open>Mouse\<close>

abbreviation (input) "AUX_ACK \<equiv> (0xFA::u8)"
abbreviation (input) "MOUSE_STATUS_REMOTE \<equiv> (0x40::u8)"
abbreviation (input) "MOUSE_STATUS_ENABLED \<equiv> (0x20::u8)"
abbreviation (input) "MOUSE_STATUS_SCALE21 \<equiv> (0x10::u8)"

definition clamp :: "int \<Rightarrow> int \<Rightarrow> int" where
  "clamp n d = (if d > n then n else if d < - n then - n else d)"

text \<open>The bytes of a packet, and the \<open>dz\<close> it accounts for.\<close>

definition packet_dz :: "ps2_mouse_state \<Rightarrow> int" where
  "packet_dz s = (if mouse_type s = 3 then clamp 127 (mouse_dz s)
                  else if mouse_type s = 4 then clamp 7 (mouse_dz s) else mouse_dz s)"

definition packet_bytes :: "ps2_mouse_state \<Rightarrow> u8 list" where
  "packet_bytes s =
     (let dx1 = clamp 127 (mouse_dx s); dy1 = clamp 127 (mouse_dy s) in
      [0x08 OR (if dx1 < 0 then 0x10 else 0) OR (if dy1 < 0 then 0x20 else 0) OR (mouse_buttons s AND 0x07),
       word_of_int dx1, word_of_int dy1]
      @ (if mouse_type s = 3 then [word_of_int (packet_dz s)]
         else if mouse_type s = 4 then [(word_of_int (packet_dz s) AND 0x0f) OR push_bit 1 (mouse_buttons s AND 0x18)]
         else []))"

definition ps2_mouse_send_packet ::
  "(bool \<Rightarrow> 'k \<Rightarrow> 'k) \<Rightarrow> ps2_mouse_state \<times> 'k \<Rightarrow> (ps2_mouse_state \<times> 'k) res" where
  "ps2_mouse_send_packet upd = (\<lambda>(s, k).
     res_bind (ps2_send upd (packet_bytes s) (s, k)) (\<lambda>(s1, k1).
       Inr (s1\<lparr>mouse_dx := mouse_dx s1 - clamp 127 (mouse_dx s), mouse_dy := mouse_dy s1 - clamp 127 (mouse_dy s),
               mouse_dz := mouse_dz s1 - packet_dz s\<rparr>, k1)))"

definition deltas_zero :: "ps2_mouse_state \<Rightarrow> bool" where
  "deltas_zero s \<longleftrightarrow> mouse_dx s = 0 \<and> mouse_dy s = 0 \<and> mouse_dz s = 0"

lemma mouse_fields_put [simp]:
  "mouse_dx (ps2_put b s) = mouse_dx s" "mouse_dy (ps2_put b s) = mouse_dy s" "mouse_dz (ps2_put b s) = mouse_dz s"
  "mouse_type (ps2_put b s) = mouse_type s" "mouse_buttons (ps2_put b s) = mouse_buttons s"
  by (simp_all add: ps2_put_def)

lemma send_mouse_fields:
  "ps2_send upd bs (s, k) = Inr (s', k') \<Longrightarrow>
     mouse_dx s' = mouse_dx s \<and> mouse_dy s' = mouse_dy s \<and> mouse_dz s' = mouse_dz s
     \<and> mouse_type s' = mouse_type s \<and> mouse_buttons s' = mouse_buttons s"
proof (induction bs arbitrary: s k)
  case (Cons b bs)
  then show ?case by (auto simp: ps2_queue_def split: if_splits)
qed simp

lemma send_packet_deltas:
  "ps2_mouse_send_packet upd (s, k) = Inr (s', k') \<Longrightarrow>
     mouse_dx s' = mouse_dx s - clamp 127 (mouse_dx s) \<and> mouse_dy s' = mouse_dy s - clamp 127 (mouse_dy s)
     \<and> mouse_dz s' = mouse_dz s - packet_dz s \<and> mouse_type s' = mouse_type s \<and> mouse_buttons s' = mouse_buttons s"
  by (auto simp: ps2_mouse_send_packet_def res_bind_Inr_iff dest: send_mouse_fields)

definition motion :: "ps2_mouse_state \<Rightarrow> nat" where
  "motion s = nat \<bar>mouse_dx s\<bar> + nat \<bar>mouse_dy s\<bar> + nat \<bar>mouse_dz s\<bar>"

lemma clamp_less: "0 < n \<Longrightarrow> nat \<bar>d - clamp n d\<bar> \<le> nat \<bar>d\<bar>" "0 < n \<Longrightarrow> d \<noteq> 0 \<Longrightarrow> nat \<bar>d - clamp n d\<bar> < nat \<bar>d\<bar>"
  by (auto simp: clamp_def)

lemma packet_dz_less: "nat \<bar>mouse_dz s - packet_dz s\<bar> \<le> nat \<bar>mouse_dz s\<bar>"
  "mouse_dz s \<noteq> 0 \<Longrightarrow> nat \<bar>mouse_dz s - packet_dz s\<bar> < nat \<bar>mouse_dz s\<bar>"
  using clamp_less [of 127 "mouse_dz s"] clamp_less [of 7 "mouse_dz s"] by (auto simp: packet_dz_def)

lemma sum3_less:
  "a' \<le> a \<Longrightarrow> b' \<le> b \<Longrightarrow> c' \<le> c \<Longrightarrow> (P \<Longrightarrow> a' < a) \<Longrightarrow> (Q \<Longrightarrow> b' < b) \<Longrightarrow> (R \<Longrightarrow> c' < c) \<Longrightarrow> P \<or> Q \<or> R
     \<Longrightarrow> a' + b' + c' < a + b + (c::nat)"
  by auto

lemma send_packet_less:
  assumes "ps2_mouse_send_packet upd (s, k) = Inr (s', k')" "\<not> deltas_zero s'"
  shows "motion s' < motion s"
proof -
  note d = send_packet_deltas [OF assms(1)]
  have "\<not> deltas_zero s"
    using assms(2) d by (auto simp: deltas_zero_def clamp_def packet_dz_def split: if_splits)
  then have nz: "mouse_dx s \<noteq> 0 \<or> mouse_dy s \<noteq> 0 \<or> mouse_dz s \<noteq> 0" by (simp add: deltas_zero_def)
  have m: "motion s' = nat \<bar>mouse_dx s - clamp 127 (mouse_dx s)\<bar> + nat \<bar>mouse_dy s - clamp 127 (mouse_dy s)\<bar>
      + nat \<bar>mouse_dz s - packet_dz s\<bar>" using d by (simp add: motion_def)
  show ?thesis
    unfolding m motion_def [of s]
    by (rule sum3_less [OF _ _ _ _ _ _ nz]) (rule clamp_less packet_dz_less; simp)+
qed

text \<open>The loop of \<^verbatim>\<open>ps2_mouse_event\<close>: packets are sent until nothing is left of the motion.\<close>

function mouse_send_loop ::
  "(bool \<Rightarrow> 'k \<Rightarrow> 'k) \<Rightarrow> ps2_mouse_state \<Rightarrow> 'k \<Rightarrow> (ps2_mouse_state \<times> 'k) res" where
  "mouse_send_loop upd s k =
     (case ps2_mouse_send_packet upd (s, k) of
        Inl e \<Rightarrow> Inl e
      | Inr sk \<Rightarrow> if deltas_zero (fst sk) then Inr sk else mouse_send_loop upd (fst sk) (snd sk))"
  by pat_completeness auto
termination
  by (relation "measure (\<lambda>(upd, s, k). motion s)") (auto intro: send_packet_less)

declare mouse_send_loop.simps [simp del]

definition ps2_mouse_event ::
  "(bool \<Rightarrow> 'k \<Rightarrow> 'k) \<Rightarrow> int \<Rightarrow> int \<Rightarrow> int \<Rightarrow> int \<Rightarrow> ps2_mouse_state \<times> 'k \<Rightarrow> (ps2_mouse_state \<times> 'k) res" where
  "ps2_mouse_event upd dx dy dz buttons_state = (\<lambda>(s, k).
     if mouse_status s AND MOUSE_STATUS_ENABLED = 0 then Inr (s, k)
     else
       (let s1 = s\<lparr>mouse_dx := mouse_dx s + dx, mouse_dy := mouse_dy s - dy, mouse_dz := mouse_dz s + dz\<rparr> in
        if deltas_zero s1 \<and> uint (mouse_buttons s1) = buttons_state then Inr (s1, k)
        else
          (let s2 = s1\<lparr>mouse_buttons := word_of_int buttons_state\<rparr> in
           if mouse_status s2 AND MOUSE_STATUS_REMOTE = 0 \<and> q_count s2 < PS2_QUEUE_SIZE - 16
           then mouse_send_loop upd s2 k else Inr (s2, k))))"

definition ps2_mouse_fake_event where
  "ps2_mouse_fake_event upd sk = ps2_mouse_event upd 1 0 0 0 sk"

definition ps2_mouse_command ::
  "(bool \<Rightarrow> 'k \<Rightarrow> 'k) \<Rightarrow> int \<Rightarrow> ps2_mouse_state \<times> 'k \<Rightarrow> (ps2_mouse_state \<times> 'k) res" where
  "ps2_mouse_command upd val = (\<lambda>(s, k).
     if val = 0xE6 then ps2_queue upd AUX_ACK (s\<lparr>mouse_status := mouse_status s AND NOT MOUSE_STATUS_SCALE21\<rparr>, k)
     else if val = 0xE7 then ps2_queue upd AUX_ACK (s\<lparr>mouse_status := mouse_status s OR MOUSE_STATUS_SCALE21\<rparr>, k)
     else if val = 0xEA then ps2_queue upd AUX_ACK (s\<lparr>mouse_status := mouse_status s AND NOT MOUSE_STATUS_REMOTE\<rparr>, k)
     else if val = 0xEE then ps2_queue upd AUX_ACK (s\<lparr>mouse_wrap := 1\<rparr>, k)
     else if val = 0xF0 then ps2_queue upd AUX_ACK (s\<lparr>mouse_status := mouse_status s OR MOUSE_STATUS_REMOTE\<rparr>, k)
     else if val = 0xF2 then ps2_send upd [AUX_ACK, mouse_type s] (s, k)
     else if val \<in> {0xE8, 0xF3} then ps2_queue upd AUX_ACK (s\<lparr>ps2_write_cmd := val\<rparr>, k)
     else if val = 0xE9 then
       ps2_send upd [AUX_ACK, mouse_status s, mouse_resolution s, mouse_sample_rate s] (s, k)
     else if val = 0xEB then res_bind (ps2_queue upd AUX_ACK (s, k)) (ps2_mouse_send_packet upd)
     else if val = 0xF4 then ps2_queue upd AUX_ACK (s\<lparr>mouse_status := mouse_status s OR MOUSE_STATUS_ENABLED\<rparr>, k)
     else if val = 0xF5 then ps2_queue upd AUX_ACK (s\<lparr>mouse_status := mouse_status s AND NOT MOUSE_STATUS_ENABLED\<rparr>, k)
     else if val = 0xF6 then
       ps2_queue upd AUX_ACK (s\<lparr>mouse_sample_rate := 100, mouse_resolution := 2, mouse_status := 0\<rparr>, k)
     else if val = 0xFF then
       ps2_send upd [AUX_ACK, 0xaa, 0]
         (s\<lparr>mouse_sample_rate := 100, mouse_resolution := 2, mouse_status := 0, mouse_type := 0\<rparr>, k)
     else Inr (s, k))"

text \<open>The detection of an IMPS/2 or IMEX driver by its magic sequence of sample rates.\<close>

definition mouse_detect :: "int \<Rightarrow> ps2_mouse_state \<Rightarrow> ps2_mouse_state" where
  "mouse_detect val s =
     (if mouse_detect_state s = 1 then
        s\<lparr>mouse_detect_state := (if val = 100 then 2 else if val = 200 then 3 else 0)\<rparr>
      else if mouse_detect_state s = 2 then
        s\<lparr>mouse_type := (if val = 80 then 3 else mouse_type s), mouse_detect_state := 0\<rparr>
      else if mouse_detect_state s = 3 then
        s\<lparr>mouse_type := (if val = 80 then 4 else mouse_type s), mouse_detect_state := 0\<rparr>
      else if val = 200 then s\<lparr>mouse_detect_state := 1\<rparr> else s)"

definition ps2_write_mouse ::
  "(bool \<Rightarrow> 'k \<Rightarrow> 'k) \<Rightarrow> int \<Rightarrow> ps2_mouse_state \<times> 'k \<Rightarrow> (ps2_mouse_state \<times> 'k) res" where
  "ps2_write_mouse upd val = (\<lambda>(s, k).
     if ps2_write_cmd s = 0xF3 then
       res_bind (ps2_queue upd AUX_ACK (mouse_detect val (s\<lparr>mouse_sample_rate := word_of_int val\<rparr>), k)) end_command
     else if ps2_write_cmd s = 0xE8 then
       res_bind (ps2_queue upd AUX_ACK (s\<lparr>mouse_resolution := word_of_int val\<rparr>, k)) end_command
     else if mouse_wrap s \<noteq> 0 \<and> val = 0xEC then ps2_queue upd AUX_ACK (s\<lparr>mouse_wrap := 0\<rparr>, k)
     else if mouse_wrap s \<noteq> 0 \<and> val \<noteq> 0xFF then ps2_queue upd (word_of_int val) (s, k)
     else ps2_mouse_command upd val (s, k))"

section \<open>Snapshot and initialisation\<close>

definition ps2_common_save :: "'a ps2_state_scheme \<Rightarrow> qemu_file \<Rightarrow> qemu_file res" where
  "ps2_common_save s f =
     res_bind (qemu_put_be32 (word_of_int (ps2_write_cmd s)) f) (\<lambda>f.
     res_bind (qemu_put_be32 (word_of_int (q_rptr s)) f) (\<lambda>f.
     res_bind (qemu_put_be32 (word_of_int (q_wptr s)) f) (\<lambda>f.
     res_bind (qemu_put_be32 (word_of_int (q_count s)) f) (\<lambda>f.
     qemu_put_buffer f (q_data s)))))"

definition ps2_common_load :: "'a ps2_state_scheme \<Rightarrow> qemu_file \<Rightarrow> ('a ps2_state_scheme \<times> qemu_file) res" where
  "ps2_common_load s f =
     res_bind (qemu_get_be32 f) (\<lambda>(cmd, f). res_bind (qemu_get_be32 f) (\<lambda>(r, f).
     res_bind (qemu_get_be32 f) (\<lambda>(w, f). res_bind (qemu_get_be32 f) (\<lambda>(c, f).
     res_bind (qemu_get_buffer f 256) (\<lambda>(d, f).
       Inr (s\<lparr>ps2_write_cmd := sint cmd, q_rptr := sint r, q_wptr := sint w, q_count := sint c,
              q_data := d @ drop (length d) (q_data s)\<rparr>, f))))))"

definition ps2_kbd_save :: "ps2_kbd_state \<Rightarrow> qemu_file \<Rightarrow> qemu_file res" where
  "ps2_kbd_save s f =
     res_bind (ps2_common_save s f) (\<lambda>f.
     res_bind (qemu_put_be32 (word_of_int (scan_enabled s)) f) (\<lambda>f.
     res_bind (qemu_put_be32 (word_of_int (translate s)) f) (\<lambda>f.
     qemu_put_be32 (word_of_int (scancode_set s)) f)))"

definition ps2_kbd_load :: "ps2_kbd_state \<Rightarrow> int \<Rightarrow> qemu_file \<Rightarrow> ((int \<times> ps2_kbd_state) \<times> qemu_file) res" where
  "ps2_kbd_load s version_id f =
     (if version_id \<noteq> 2 \<and> version_id \<noteq> 3 then Inr ((- 22, s), f)
      else
        res_bind (ps2_common_load s f) (\<lambda>(s, f).
        res_bind (qemu_get_be32 f) (\<lambda>(en, f). res_bind (qemu_get_be32 f) (\<lambda>(tr, f).
        res_bind (if version_id = 3 then qemu_get_be32 f else Inr (2, f)) (\<lambda>(st, f).
          Inr ((0, s\<lparr>scan_enabled := sint en, translate := sint tr, scancode_set := sint st\<rparr>), f))))))"

definition ps2_mouse_save :: "ps2_mouse_state \<Rightarrow> qemu_file \<Rightarrow> qemu_file res" where
  "ps2_mouse_save s f =
     res_bind (ps2_common_save s f) (\<lambda>f.
     res_bind (qemu_put_8s (mouse_status s) f) (\<lambda>f. res_bind (qemu_put_8s (mouse_resolution s) f) (\<lambda>f.
     res_bind (qemu_put_8s (mouse_sample_rate s) f) (\<lambda>f. res_bind (qemu_put_8s (mouse_wrap s) f) (\<lambda>f.
     res_bind (qemu_put_8s (mouse_type s) f) (\<lambda>f. res_bind (qemu_put_8s (mouse_detect_state s) f) (\<lambda>f.
     res_bind (qemu_put_be32 (word_of_int (mouse_dx s)) f) (\<lambda>f.
     res_bind (qemu_put_be32 (word_of_int (mouse_dy s)) f) (\<lambda>f.
     res_bind (qemu_put_be32 (word_of_int (mouse_dz s)) f) (\<lambda>f.
     qemu_put_8s (mouse_buttons s) f))))))))))"

definition ps2_mouse_load :: "ps2_mouse_state \<Rightarrow> int \<Rightarrow> qemu_file \<Rightarrow> ((int \<times> ps2_mouse_state) \<times> qemu_file) res" where
  "ps2_mouse_load s version_id f =
     (if version_id \<noteq> 2 then Inr ((- 22, s), f)
      else
        res_bind (ps2_common_load s f) (\<lambda>(s, f).
        res_bind (qemu_get_byte f) (\<lambda>(st, f). res_bind (qemu_get_byte f) (\<lambda>(rs, f).
        res_bind (qemu_get_byte f) (\<lambda>(sr, f). res_bind (qemu_get_byte f) (\<lambda>(wr, f).
        res_bind (qemu_get_byte f) (\<lambda>(ty, f). res_bind (qemu_get_byte f) (\<lambda>(ds, f).
        res_bind (qemu_get_be32 f) (\<lambda>(dx, f). res_bind (qemu_get_be32 f) (\<lambda>(dy, f).
        res_bind (qemu_get_be32 f) (\<lambda>(dz, f). res_bind (qemu_get_byte f) (\<lambda>(bt, f).
          Inr ((0, s\<lparr>mouse_status := st, mouse_resolution := rs, mouse_sample_rate := sr, mouse_wrap := wr,
                 mouse_type := ty, mouse_detect_state := ds, mouse_dx := sint dx, mouse_dy := sint dy,
                 mouse_dz := sint dz, mouse_buttons := bt\<rparr>), f)))))))))))))"

definition ps2_kbd_zero :: ps2_kbd_state where
  "ps2_kbd_zero = \<lparr>q_data = replicate 256 0, q_rptr = 0, q_wptr = 0, q_count = 0, ps2_write_cmd = 0,
     scan_enabled = 0, translate = 0, scancode_set = 0\<rparr>"

definition ps2_mouse_zero :: ps2_mouse_state where
  "ps2_mouse_zero = \<lparr>q_data = replicate 256 0, q_rptr = 0, q_wptr = 0, q_count = 0, ps2_write_cmd = 0,
     mouse_status = 0, mouse_resolution = 0, mouse_sample_rate = 0, mouse_wrap = 0, mouse_type = 0,
     mouse_detect_state = 0, mouse_dx = 0, mouse_dy = 0, mouse_dz = 0, mouse_buttons = 0\<rparr>"

definition ps2_kbd_init :: "(bool \<Rightarrow> 'k \<Rightarrow> 'k) \<Rightarrow> 'k \<Rightarrow> ps2_kbd_state \<times> 'k" where
  "ps2_kbd_init upd k = ps2_reset upd (ps2_kbd_zero\<lparr>scancode_set := 2\<rparr>, k)"

definition ps2_mouse_init :: "(bool \<Rightarrow> 'k \<Rightarrow> 'k) \<Rightarrow> 'k \<Rightarrow> ps2_mouse_state \<times> 'k" where
  "ps2_mouse_init upd k = ps2_reset upd (ps2_mouse_zero, k)"

section \<open>The queue as a bounded queue\<close>

definition ps2_ok :: "'a ps2_state_scheme \<Rightarrow> bool" where
  "ps2_ok s \<longleftrightarrow> length (q_data s) = 256 \<and> in_array (q_rptr s) \<and> in_array (q_wptr s) \<and> 0 \<le> q_count s \<and> q_count s \<le> 256
     \<and> nat (q_wptr s) = (nat (q_rptr s) + nat (q_count s)) mod 256"

definition ps2_contents :: "'a ps2_state_scheme \<Rightarrow> u8 list" where
  "ps2_contents s = ring (q_data s) (nat (q_rptr s)) (nat (q_count s))"

lemma ps2_next_nat: "in_array i \<Longrightarrow> in_array (ps2_next i) \<and> nat (ps2_next i) = (nat i + 1) mod 256"
  by (cases "i = 255") (auto simp: in_array_def ps2_next_def nat_add_distrib)

lemma length_contents: "ps2_ok s \<Longrightarrow> length (ps2_contents s) = nat (q_count s)"
  by (simp add: ps2_contents_def)

lemma contents_nil: "ps2_ok s \<Longrightarrow> ps2_contents s = [] \<longleftrightarrow> q_count s = 0"
  by (auto simp: ps2_ok_def ps2_contents_def)

lemma ps2_put_below:
  assumes "ps2_ok s" "q_count s < 256"
  shows "ps2_ok (ps2_put b s) \<and> ps2_contents (ps2_put b s) = ps2_contents s @ [b]"
proof -
  note o = assms(1) [unfolded ps2_ok_def]
  let ?r = "nat (q_rptr s)" and ?c = "nat (q_count s)"
  have c: "?c < length (q_data s)" "nat (q_count s + 1) = ?c + 1" using o assms(2) by auto
  have w: "nat (ps2_next (q_wptr s)) = (?r + (?c + 1)) mod 256"
    using ps2_next_nat [of "q_wptr s"] o by (simp add: mod_simps)
  have p: "ps2_put b s = s\<lparr>q_data := (q_data s)[nat (q_wptr s) := b], q_wptr := ps2_next (q_wptr s), q_count := q_count s + 1\<rparr>"
    using assms(2) by (simp add: ps2_put_def)
  have "ps2_contents (ps2_put b s) = ps2_contents s @ [b]"
    using ring_put [OF c(1), of ?r b] o by (simp add: p ps2_contents_def c(2))
  moreover have "ps2_ok (ps2_put b s)"
    using o ps2_next_nat [of "q_wptr s"] w assms(2) c(2) by (simp add: p ps2_ok_def)
  ultimately show ?thesis by simp
qed

lemma ps2_put_full: "\<not> q_count s < 256 \<Longrightarrow> ps2_put b s = s"
  by (simp add: ps2_put_def)

lemma ps2_get_head:
  assumes "ps2_ok s" "ps2_contents s = x # xs"
  shows "fst (ps2_get s) = x \<and> ps2_contents (snd (ps2_get s)) = xs \<and> ps2_ok (snd (ps2_get s))"
proof -
  note o = assms(1) [unfolded ps2_ok_def]
  let ?r = "nat (q_rptr s)"
  obtain k where c: "nat (q_count s) = Suc k" using assms(2) length_contents [OF assms(1)] by (metis length_Cons)
  then have c': "nat (q_count s - 1) = k" "0 < q_count s" by auto
  have r: "?r < length (q_data s)" using o unfolding in_array_def by linarith
  have "ps2_contents s = q_data s ! ?r # ring (q_data s) ((?r + 1) mod 256) k"
    unfolding ps2_contents_def c using ring_get [OF _ r, of "Suc k"] o by simp
  moreover have "((?r + 1) mod 256 + k) mod 256 = nat (q_wptr s)"
    using ring_advance [of "Suc k" ?r 256] o c by simp
  ultimately show ?thesis
    using assms(2) o ps2_next_nat [of "q_rptr s"] c' by (simp add: ps2_get_def ps2_contents_def ps2_ok_def)
qed

interpretation evq: bounded_queue ps2_ok ps2_contents 256 ps2_put ps2_get
proof (unfold_locales, goal_cases)
  case (1 q x)
  then show ?case using ps2_put_below [of q x] ps2_put_full [of q x] by (cases "q_count q < 256") auto
next
  case (2 q)
  then show ?case using ps2_get_head [of q] by (cases "ps2_contents q") auto
next
  case (3 q x)
  then show ?case using ps2_put_below [of q x] by (auto simp: length_contents)
next
  case (4 q x)
  then show ?case using ps2_put_full [of q x] by (simp add: length_contents)
next
  case (5 q x xs)
  then show ?case using ps2_get_head by blast
next
  case (6 q)
  then show ?case unfolding length_contents [OF 6] by (auto simp: ps2_ok_def)
qed

lemma queue_ok:
  "ps2_ok s \<Longrightarrow> ps2_queue upd b (s, k) = Inr (ps2_put b s, if q_count s < 256 then upd True k else k)"
  by (auto simp: ps2_queue_def ps2_ok_def ps2_put_def)

lemma send_ok:
  "ps2_ok s \<Longrightarrow> \<exists>n. ps2_send upd bs (s, k) = Inr (fold ps2_put bs s, (upd True ^^ n) k)
     \<and> (n = 0 \<longrightarrow> bs = [] \<or> q_count s = 256)"
proof (induction bs arbitrary: s k)
  case Nil
  show ?case by (rule exI [of _ 0]) simp
next
  case (Cons b bs)
  note q = queue_ok [OF Cons.prems, of upd b k]
  have ok: "ps2_ok (ps2_put b s)" by (rule evq.inv_put [OF Cons.prems])
  show ?case
  proof (cases "q_count s < 256")
    case True
    from Cons.IH [OF ok, of "upd True k"] obtain n where
      "ps2_send upd bs (ps2_put b s, upd True k) = Inr (fold ps2_put bs (ps2_put b s), (upd True ^^ n) (upd True k))" by blast
    then show ?thesis using q True by (intro exI [of _ "Suc n"]) (simp add: funpow_swap1)
  next
    case False
    then have f: "q_count s = 256" using Cons.prems by (simp add: ps2_ok_def)
    from Cons.IH [OF ok, of k] obtain n where
      "ps2_send upd bs (ps2_put b s, k) = Inr (fold ps2_put bs (ps2_put b s), (upd True ^^ n) k)" by blast
    then show ?thesis using q False f by (intro exI [of _ n]) simp
  qed
qed

lemma put_fields [simp]:
  "ps2_write_cmd (ps2_put b s) = ps2_write_cmd s"
  by (simp add: ps2_put_def)

lemma ok_more: "ps2_ok s' = ps2_ok s" "ps2_contents s' = ps2_contents s"
  if "q_data s' = q_data s" "q_rptr s' = q_rptr s" "q_wptr s' = q_wptr s" "q_count s' = q_count s"
  for s :: "'a ps2_state_scheme" and s' :: "'a ps2_state_scheme"
  using that by (simp_all add: ps2_ok_def ps2_contents_def)

section \<open>What every operation does to the queue and the controller\<close>

text \<open>From \<open>(s, k)\<close> an operation succeeds, keeps the queue in order, and signals the controller exactly by some
  number of raised call-backs: none when it queued nothing.\<close>

definition runs ::
  "(bool \<Rightarrow> 'k \<Rightarrow> 'k) \<Rightarrow> 'a ps2_state_scheme \<Rightarrow> 'k \<Rightarrow> ('a ps2_state_scheme \<times> 'k) res \<Rightarrow> bool" where
  "runs upd s k r \<longleftrightarrow> (\<exists>s' n. r = Inr (s', (upd True ^^ n) k) \<and> ps2_ok s'
     \<and> (n = 0 \<longrightarrow> q_count s' = q_count s) \<and> (0 < n \<longrightarrow> 0 < q_count s'))"

definition same_queue :: "'a ps2_state_scheme \<Rightarrow> 'a ps2_state_scheme \<Rightarrow> bool" where
  "same_queue s' s \<longleftrightarrow> q_data s' = q_data s \<and> q_rptr s' = q_rptr s \<and> q_wptr s' = q_wptr s \<and> q_count s' = q_count s"

lemma same_queue_refl [simp]: "same_queue s s"
  by (simp add: same_queue_def)

lemma same_queue_ok: "same_queue s' s \<Longrightarrow> ps2_ok s \<Longrightarrow> ps2_ok s' \<and> ps2_contents s' = ps2_contents s"
  using ok_more [of s' s] by (simp add: same_queue_def)

lemma runs_same: "same_queue s' s \<Longrightarrow> ps2_ok s \<Longrightarrow> runs upd s k (Inr (s', k))"
  unfolding runs_def using same_queue_ok [of s' s]
  by (intro exI [of _ s'] exI [of _ 0]) (simp add: same_queue_def)

lemma runs_queue:
  assumes "same_queue s' s" "ps2_ok s"
  shows "runs upd s k (ps2_queue upd b (s', k))"
proof -
  have ok: "ps2_ok s'" using same_queue_ok [OF assms] by simp
  have c: "q_count s' = q_count s" using assms(1) by (simp add: same_queue_def)
  show ?thesis
  proof (cases "q_count s' < 256")
    case True
    then show ?thesis unfolding runs_def using queue_ok [OF ok, of upd b k] evq.inv_put [OF ok, of b] ok
      by (intro exI [of _ "ps2_put b s'"] exI [of _ 1]) (simp add: ps2_put_def ps2_ok_def)
  next
    case False
    then show ?thesis unfolding runs_def using queue_ok [OF ok, of upd b k] ok c
      by (intro exI [of _ s'] exI [of _ 0]) (simp add: ps2_put_def)
  qed
qed

lemma runs_bind:
  assumes "runs upd s k r" "\<And>s' k'. ps2_ok s' \<Longrightarrow> runs upd s' k' (g (s', k'))"
  shows "runs upd s k (res_bind r g)"
proof -
  obtain s1 n where r: "r = Inr (s1, (upd True ^^ n) k)" "ps2_ok s1" "n = 0 \<longrightarrow> q_count s1 = q_count s" "0 < n \<longrightarrow> 0 < q_count s1"
    using assms(1) by (auto simp: runs_def)
  obtain s2 j where g: "g (s1, (upd True ^^ n) k) = Inr (s2, (upd True ^^ j) ((upd True ^^ n) k))" "ps2_ok s2"
    "j = 0 \<longrightarrow> q_count s2 = q_count s1" "0 < j \<longrightarrow> 0 < q_count s2"
    using assms(2) [OF r(2), of "(upd True ^^ n) k"] by (auto simp: runs_def)
  show ?thesis
    unfolding runs_def using r g
    by (intro exI [of _ s2] exI [of _ "j + n"]) (auto simp: funpow_add)
qed

lemma runs_send:
  assumes "same_queue s' s" "ps2_ok s"
  shows "runs upd s k (ps2_send upd bs (s', k))"
  using assms
proof (induction bs arbitrary: s s' k)
  case Nil
  then show ?case by (simp add: runs_same)
next
  case (Cons b bs)
  have "runs upd s k (res_bind (ps2_queue upd b (s', k)) (ps2_send upd bs))"
    by (rule runs_bind [OF runs_queue [OF Cons.prems]]) (rule Cons.IH [OF same_queue_refl])
  then show ?case by simp
qed

lemma same_queue_upd [simp]:
  "same_queue (t\<lparr>ps2_write_cmd := c\<rparr>) s = same_queue t s"
  "same_queue (u\<lparr>scan_enabled := i\<rparr>) w = same_queue u w" "same_queue (u\<lparr>scancode_set := i\<rparr>) w = same_queue u w"
  "same_queue (u\<lparr>translate := i\<rparr>) w = same_queue u w" "same_queue (ps2_reset_keyboard u) w = same_queue u w"
  "same_queue (v\<lparr>mouse_status := x\<rparr>) r = same_queue v r" "same_queue (v\<lparr>mouse_wrap := x\<rparr>) r = same_queue v r"
  "same_queue (v\<lparr>mouse_type := x\<rparr>) r = same_queue v r" "same_queue (v\<lparr>mouse_resolution := x\<rparr>) r = same_queue v r"
  "same_queue (v\<lparr>mouse_sample_rate := x\<rparr>) r = same_queue v r" "same_queue (v\<lparr>mouse_detect_state := x\<rparr>) r = same_queue v r"
  "same_queue (v\<lparr>mouse_dx := d\<rparr>) r = same_queue v r" "same_queue (v\<lparr>mouse_dy := d\<rparr>) r = same_queue v r"
  "same_queue (v\<lparr>mouse_dz := d\<rparr>) r = same_queue v r" "same_queue (v\<lparr>mouse_buttons := x\<rparr>) r = same_queue v r"
  by (simp_all add: same_queue_def ps2_reset_keyboard_def)

lemma same_queue_detect [simp]: "same_queue (mouse_detect val u) s = same_queue u s"
  by (simp add: mouse_detect_def)

lemmas runs_intros = runs_queue runs_send runs_same

lemma runs_end: "ps2_ok s \<Longrightarrow> runs upd s k (end_command (s, k))"
  by (simp add: end_command_def runs_same)

lemma runs_keycode: "ps2_ok s \<Longrightarrow> runs upd s k (ps2_put_keycode upd keycode (s, k))"
  unfolding ps2_put_keycode_def
  by (auto intro!: runs_intros runs_bind simp del: res_bind.simps)

lemma runs_scancode: "ps2_ok s \<Longrightarrow> runs upd s k (ps2_kbd_scancode upd val (s, k))"
  unfolding ps2_kbd_scancode_def by (auto intro!: runs_intros runs_keycode)

lemma runs_write_keyboard: "ps2_ok s \<Longrightarrow> runs upd s k (ps2_write_keyboard upd val (s, k))"
  unfolding ps2_write_keyboard_def ps2_kbd_command_def
  by (auto intro!: runs_intros runs_bind runs_scancode runs_end simp del: res_fold.simps)

lemma runs_packet: "ps2_ok s \<Longrightarrow> runs upd s k (ps2_mouse_send_packet upd (s, k))"
  unfolding ps2_mouse_send_packet_def
  by (auto intro!: runs_intros runs_bind simp del: res_fold.simps)

lemma runs_write_mouse: "ps2_ok s \<Longrightarrow> runs upd s k (ps2_write_mouse upd val (s, k))"
  unfolding ps2_write_mouse_def ps2_mouse_command_def
  by (auto intro!: runs_intros runs_bind runs_packet runs_end simp del: res_fold.simps)

lemma runs_trans: "runs upd s k (Inr (s1, k1)) \<Longrightarrow> runs upd s1 k1 r \<Longrightarrow> runs upd s k r"
proof -
  assume a: "runs upd s k (Inr (s1, k1))" and b: "runs upd s1 k1 r"
  obtain n where n: "k1 = (upd True ^^ n) k" "n = 0 \<longrightarrow> q_count s1 = q_count s" "0 < n \<longrightarrow> 0 < q_count s1"
    using a by (auto simp: runs_def)
  obtain s2 j where j: "r = Inr (s2, (upd True ^^ j) k1)" "ps2_ok s2" "j = 0 \<longrightarrow> q_count s2 = q_count s1" "0 < j \<longrightarrow> 0 < q_count s2"
    using b by (auto simp: runs_def)
  show ?thesis unfolding runs_def using n j by (intro exI [of _ s2] exI [of _ "j + n"]) (auto simp: funpow_add)
qed

lemma runs_mouse_loop: "ps2_ok s \<Longrightarrow> runs upd s k (mouse_send_loop upd s k)"
proof (induction upd s k rule: mouse_send_loop.induct)
  case (1 upd s k)
  note p = runs_packet [OF 1(2), of upd k]
  then obtain s1 k1 where s1: "ps2_mouse_send_packet upd (s, k) = Inr (s1, k1)" "ps2_ok s1" by (auto simp: runs_def)
  show ?case
  proof (cases "deltas_zero s1")
    case True
    then show ?thesis using p s1(1) by (subst mouse_send_loop.simps) simp
  next
    case False
    have "runs upd s1 k1 (mouse_send_loop upd s1 k1)" using 1(1) [OF s1(1)] False s1(2) by simp
    then show ?thesis using runs_trans [of upd s k s1 k1] p s1(1) False by (subst mouse_send_loop.simps) simp
  qed
qed

lemma runs_mouse_event: "ps2_ok s \<Longrightarrow> runs upd s k (ps2_mouse_event upd dx dy dz bs (s, k))"
proof -
  assume ok: "ps2_ok s"
  let ?s1 = "s\<lparr>mouse_dx := mouse_dx s + dx, mouse_dy := mouse_dy s - dy, mouse_dz := mouse_dz s + dz\<rparr>"
  let ?s2 = "?s1\<lparr>mouse_buttons := word_of_int bs\<rparr>"
  have q: "same_queue ?s1 s" "same_queue ?s2 s" by (simp_all add: same_queue_def)
  have "runs upd s k (mouse_send_loop upd ?s2 k)"
    by (rule runs_trans [OF runs_same [OF q(2) ok] runs_mouse_loop]) (use same_queue_ok [OF q(2) ok] in simp)
  then show ?thesis
    using runs_same [OF q(1) ok, of upd k] runs_same [OF q(2) ok, of upd k] runs_same [OF same_queue_refl ok, of upd k]
    by (simp add: ps2_mouse_event_def Let_def)
qed

section \<open>Snapshot format\<close>

definition ps2_fits :: "'a ps2_state_scheme \<Rightarrow> bool" where
  "ps2_fits s \<longleftrightarrow> fits 31 (ps2_write_cmd s) \<and> fits 31 (q_rptr s) \<and> fits 31 (q_wptr s) \<and> fits 31 (q_count s) \<and> length (q_data s) = 256"

definition ps2_common_bytes :: "'a ps2_state_scheme \<Rightarrow> u8 list" where
  "ps2_common_bytes s = int_bytes (ps2_write_cmd s) @ int_bytes (q_rptr s) @ int_bytes (q_wptr s) @ int_bytes (q_count s) @ q_data s"

definition ps2_kbd_bytes :: "ps2_kbd_state \<Rightarrow> u8 list" where
  "ps2_kbd_bytes s = ps2_common_bytes s @ int_bytes (scan_enabled s) @ int_bytes (translate s) @ int_bytes (scancode_set s)"

lemma ps2_common_save_emits: "emits qf_writer qf_written (ps2_common_save s) (ps2_common_bytes s)"
  unfolding ps2_common_save_def ps2_common_bytes_def int_bytes_def by (intro emits_bind put_be32_emits put_buffer_emits)

lemma ps2_kbd_save_emits: "emits qf_writer qf_written (ps2_kbd_save s) (ps2_kbd_bytes s)"
  unfolding ps2_kbd_save_def ps2_kbd_bytes_def int_bytes_def by (intro emits_bind put_be32_emits ps2_common_save_emits)

lemma get_word_consumes: "consumes qf_reader qf_left qemu_get_be32 (int_bytes x) (word_of_int x)"
  unfolding int_bytes_def by (rule get_be32_consumes)

lemma ps2_common_load_consumes:
  assumes "ps2_fits s" "length (q_data t) = 256"
  shows "consumes qf_reader qf_left (ps2_common_load t) (ps2_common_bytes s)
    (t\<lparr>ps2_write_cmd := ps2_write_cmd s, q_rptr := q_rptr s, q_wptr := q_wptr s, q_count := q_count s, q_data := q_data s\<rparr>)"
proof -
  note f = assms(1) [unfolded ps2_fits_def]
  have b: "consumes qf_reader qf_left (\<lambda>f. qemu_get_buffer f 256) (q_data s) (q_data s)"
    using get_buffer_consumes [of "q_data s"] f by simp
  have "consumes qf_reader qf_left (ps2_common_load t) (int_bytes (ps2_write_cmd s) @ int_bytes (q_rptr s) @ int_bytes (q_wptr s)
      @ int_bytes (q_count s) @ q_data s @ [])
    (t\<lparr>ps2_write_cmd := ps2_write_cmd s, q_rptr := q_rptr s, q_wptr := q_wptr s, q_count := q_count s, q_data := q_data s\<rparr>)"
    unfolding ps2_common_load_def
    by (rule consumes_bind [OF get_word_consumes] consumes_bind [OF b])+
      (use f assms(2) in \<open>simp add: sint_fits consumes_return\<close>)
  then show ?thesis by (simp add: ps2_common_bytes_def)
qed

lemma ps2_kbd_load_consumes:
  assumes "ps2_fits s" "fits 31 (scan_enabled s)" "fits 31 (translate s)" "fits 31 (scancode_set s)" "length (q_data t) = 256"
  shows "consumes qf_reader qf_left (ps2_kbd_load t 3) (ps2_kbd_bytes s) (0, s)"
proof -
  let ?t = "t\<lparr>ps2_write_cmd := ps2_write_cmd s, q_rptr := q_rptr s, q_wptr := q_wptr s, q_count := q_count s, q_data := q_data s\<rparr>"
  have s: "?t\<lparr>scan_enabled := scan_enabled s, translate := translate s, scancode_set := scancode_set s\<rparr> = s"
    by (cases s; cases t) simp
  have w: "sint (word_of_int (scan_enabled s) :: u32) = scan_enabled s" "sint (word_of_int (translate s) :: u32) = translate s"
    "sint (word_of_int (scancode_set s) :: u32) = scancode_set s"
    using assms(2-4) by (auto intro: sint_fits(1))
  have "consumes qf_reader qf_left (ps2_kbd_load t 3) (ps2_common_bytes s @ int_bytes (scan_enabled s) @ int_bytes (translate s)
      @ int_bytes (scancode_set s) @ []) (0, ?t\<lparr>scan_enabled := scan_enabled s, translate := translate s, scancode_set := scancode_set s\<rparr>)"
    unfolding ps2_kbd_load_def
    by (rule consumes_else, simp, rule consumes_bind [OF ps2_common_load_consumes [OF assms(1,5)]],
        rule consumes_bind [OF get_word_consumes], rule consumes_bind [OF get_word_consumes],
        simp only: refl if_True, rule consumes_bind [OF get_word_consumes])
      (simp add: w consumes_return)
  then show ?thesis unfolding s by (simp add: ps2_kbd_bytes_def)
qed

definition ps2_mouse_bytes :: "ps2_mouse_state \<Rightarrow> u8 list" where
  "ps2_mouse_bytes s = ps2_common_bytes s @ [mouse_status s] @ [mouse_resolution s] @ [mouse_sample_rate s] @ [mouse_wrap s]
     @ [mouse_type s] @ [mouse_detect_state s] @ int_bytes (mouse_dx s) @ int_bytes (mouse_dy s) @ int_bytes (mouse_dz s)
     @ [mouse_buttons s]"

lemma ps2_mouse_save_emits: "emits qf_writer qf_written (ps2_mouse_save s) (ps2_mouse_bytes s)"
  unfolding ps2_mouse_save_def ps2_mouse_bytes_def int_bytes_def
  by (intro emits_bind put_be32_emits put_8s_emits ps2_common_save_emits)

lemma ps2_mouse_load_consumes:
  assumes "ps2_fits s" "fits 31 (mouse_dx s)" "fits 31 (mouse_dy s)" "fits 31 (mouse_dz s)" "length (q_data t) = 256"
  shows "consumes qf_reader qf_left (ps2_mouse_load t 2) (ps2_mouse_bytes s) (0, s)"
proof -
  let ?t = "t\<lparr>ps2_write_cmd := ps2_write_cmd s, q_rptr := q_rptr s, q_wptr := q_wptr s, q_count := q_count s, q_data := q_data s\<rparr>"
  let ?t' = "?t\<lparr>mouse_status := mouse_status s, mouse_resolution := mouse_resolution s, mouse_sample_rate := mouse_sample_rate s,
     mouse_wrap := mouse_wrap s, mouse_type := mouse_type s, mouse_detect_state := mouse_detect_state s, mouse_dx := mouse_dx s,
     mouse_dy := mouse_dy s, mouse_dz := mouse_dz s, mouse_buttons := mouse_buttons s\<rparr>"
  have s: "?t' = s" by (cases s; cases t) simp
  have w: "sint (word_of_int (mouse_dx s) :: u32) = mouse_dx s" "sint (word_of_int (mouse_dy s) :: u32) = mouse_dy s"
    "sint (word_of_int (mouse_dz s) :: u32) = mouse_dz s"
    using assms(2-4) by (auto intro: sint_fits(1))
  have "consumes qf_reader qf_left (ps2_mouse_load t 2) (ps2_common_bytes s @ [mouse_status s] @ [mouse_resolution s]
      @ [mouse_sample_rate s] @ [mouse_wrap s] @ [mouse_type s] @ [mouse_detect_state s] @ int_bytes (mouse_dx s)
      @ int_bytes (mouse_dy s) @ int_bytes (mouse_dz s) @ [mouse_buttons s] @ []) (0, ?t')"
    unfolding ps2_mouse_load_def
    by (rule consumes_else, simp, rule consumes_bind [OF ps2_common_load_consumes [OF assms(1,5)]],
        (rule consumes_bind [OF get_word_consumes] consumes_bind [OF get_byte_consumes])+)
      (simp add: w consumes_return)
  then show ?thesis unfolding s by (simp add: ps2_mouse_bytes_def)
qed

section \<open>Mouse packets\<close>

definition after_packet :: "ps2_mouse_state \<Rightarrow> ps2_mouse_state" where
  "after_packet s = s\<lparr>mouse_dx := mouse_dx s - clamp 127 (mouse_dx s), mouse_dy := mouse_dy s - clamp 127 (mouse_dy s),
     mouse_dz := mouse_dz s - packet_dz s\<rparr>"

text \<open>What a driver reads off a packet: the signed motion bytes, and for the two wheel protocols a signed byte
  or a signed nibble.\<close>

definition packet_x :: "u8 list \<Rightarrow> int" where "packet_x p = sint (p ! 1)"
definition packet_y :: "u8 list \<Rightarrow> int" where "packet_y p = sint (p ! 2)"
definition packet_z :: "u8 \<Rightarrow> u8 list \<Rightarrow> int" where
  "packet_z ty p = (if ty = 3 then sint (p ! 3) else signed_take_bit 3 (uint (p ! 3)))"

definition packet_ok :: "u8 \<Rightarrow> u8 list \<Rightarrow> bool" where
  "packet_ok ty p \<longleftrightarrow> length p = (if ty = 3 \<or> ty = 4 then 4 else 3) \<and> bit (p ! 0) 3
     \<and> bit (p ! 0) 4 = (packet_x p < 0) \<and> bit (p ! 0) 5 = (packet_y p < 0)"

lemma clamp_range: "0 < n \<Longrightarrow> - n \<le> clamp n d \<and> clamp n d \<le> n"
  by (simp add: clamp_def)

lemma sint_byte: "- 128 \<le> d \<Longrightarrow> d < 128 \<Longrightarrow> sint (word_of_int d :: u8) = d"
  by (simp add: signed_of_int signed_take_bit_int_eq_self)

lemma nibble_sint:
  assumes "- 8 \<le> d" "d < 8"
  shows "signed_take_bit 3 (uint ((word_of_int d AND 0x0f) OR push_bit 1 (b AND 0x18) :: u8)) = d"
proof -
  let ?w = "(word_of_int d AND 0x0f) OR push_bit 1 (b AND 0x18) :: u8"
  have "take_bit 4 (push_bit 1 (b AND 0x18)) = (0::u8)"
  proof (rule bit_word_eqI)
    fix n assume "n < LENGTH(8)"
    have "\<not> bit (0x18::u8) m" if "m < 3" for m
    proof -
      have "m = 0 \<or> m = 1 \<or> m = 2" using that by arith
      then show ?thesis by (elim disjE) simp_all
    qed
    then show "bit (take_bit 4 (push_bit 1 (b AND 0x18))) n = bit (0::u8) n"
      by (cases "n < 4") (auto simp: bit_simps)
  qed
  then have w: "take_bit 4 ?w = take_bit 4 (word_of_int d)"
    by (simp add: and_low_bits)
  have "take_bit 4 (uint ?w) = uint (take_bit 4 ?w)" by (rule unsigned_take_bit_eq [symmetric])
  also have "\<dots> = take_bit 4 (uint (word_of_int d :: u8))" unfolding w by (rule unsigned_take_bit_eq)
  also have "\<dots> = take_bit 4 d" by (simp add: uint_word_of_int_eq)
  finally have "take_bit (Suc 3) (uint ?w) = take_bit (Suc 3) d" by simp
  then have "signed_take_bit 3 (uint ?w) = signed_take_bit 3 d" by (simp only: signed_take_bit_eq_iff_take_bit_eq)
  then show ?thesis using assms by (simp add: signed_take_bit_int_eq_self)
qed

lemma packet_bytes_shape:
  "packet_bytes s ! 0 = 0x08 OR (if clamp 127 (mouse_dx s) < 0 then 0x10 else 0)
     OR (if clamp 127 (mouse_dy s) < 0 then 0x20 else 0) OR (mouse_buttons s AND 0x07)"
  "packet_bytes s ! 1 = word_of_int (clamp 127 (mouse_dx s))" "packet_bytes s ! 2 = word_of_int (clamp 127 (mouse_dy s))"
  "length (packet_bytes s) = (if mouse_type s = 3 \<or> mouse_type s = 4 then 4 else 3)"
  by (simp_all add: packet_bytes_def Let_def)

lemma packet_values:
  "packet_x (packet_bytes s) = clamp 127 (mouse_dx s)" "packet_y (packet_bytes s) = clamp 127 (mouse_dy s)"
  "mouse_type s = 3 \<or> mouse_type s = 4 \<Longrightarrow> packet_z (mouse_type s) (packet_bytes s) = packet_dz s"
proof -
  have c: "- 128 \<le> clamp 127 d \<and> clamp 127 d < 128" for d using clamp_range [of 127 d] by simp
  show "packet_x (packet_bytes s) = clamp 127 (mouse_dx s)" "packet_y (packet_bytes s) = clamp 127 (mouse_dy s)"
    unfolding packet_x_def packet_y_def packet_bytes_shape(2,3) using c by (simp_all add: sint_byte)
  assume ty: "mouse_type s = 3 \<or> mouse_type s = 4"
  have d7: "- 8 \<le> clamp 7 (mouse_dz s) \<and> clamp 7 (mouse_dz s) < 8" using clamp_range [of 7 "mouse_dz s"] by simp
  show "packet_z (mouse_type s) (packet_bytes s) = packet_dz s"
    using ty c [of "mouse_dz s"] d7 nibble_sint [of "clamp 7 (mouse_dz s)" "mouse_buttons s"]
    by (auto simp: packet_z_def packet_bytes_def packet_dz_def sint_byte Let_def)
qed

lemma low_three_bits: "\<not> bit ((b::u8) AND 0x07) n" if "3 \<le> n"
  using that by (simp add: and_low_bits bit_take_bit_iff)

lemma packet_bytes_ok: "packet_ok (mouse_type s) (packet_bytes s)"
proof -
  have k: "(0x08::u8) = 2 ^ 3" "(0x10::u8) = 2 ^ 4" "(0x20::u8) = 2 ^ 5" by simp_all
  have e: "bit (2 ^ m :: u8) n = (n = m \<and> m < 8)" for m n by (auto simp: bit_simps)
  have "bit (packet_bytes s ! 0) 3" "bit (packet_bytes s ! 0) 4 = (clamp 127 (mouse_dx s) < 0)"
    "bit (packet_bytes s ! 0) 5 = (clamp 127 (mouse_dy s) < 0)"
    unfolding packet_bytes_shape(1) k bit_or_iff using low_three_bits [of 4 "mouse_buttons s"]
      low_three_bits [of 5 "mouse_buttons s"] by (simp_all add: e split: if_splits del: power_numeral)
  then show ?thesis by (simp add: packet_ok_def packet_values packet_bytes_shape(4))
qed

lemma packet_buttons: "packet_bytes s ! 0 AND 0x07 = mouse_buttons s AND 0x07"
  unfolding packet_bytes_shape(1) by (simp add: bit.conj_disj_distrib2)

lemma send_packet_ok:
  assumes "ps2_ok s"
  shows "\<exists>s' n. ps2_mouse_send_packet upd (s, k) = Inr (s', (upd True ^^ n) k) \<and> ps2_ok s'
    \<and> ps2_contents s' = take 256 (ps2_contents s @ packet_bytes s) \<and> (n = 0 \<longrightarrow> q_count s = 256)"
proof -
  obtain n where n: "ps2_send upd (packet_bytes s) (s, k) = Inr (fold ps2_put (packet_bytes s) s, (upd True ^^ n) k)"
    "n = 0 \<longrightarrow> q_count s = 256"
    using send_ok [OF assms, of upd "packet_bytes s" k] packet_bytes_shape(4) [of s] by (auto split: if_splits)
  let ?s = "fold ps2_put (packet_bytes s) s"
  let ?s' = "?s\<lparr>mouse_dx := mouse_dx ?s - clamp 127 (mouse_dx s), mouse_dy := mouse_dy ?s - clamp 127 (mouse_dy s),
               mouse_dz := mouse_dz ?s - packet_dz s\<rparr>"
  have "ps2_mouse_send_packet upd (s, k) = Inr (?s', (upd True ^^ n) k)"
    using n by (simp add: ps2_mouse_send_packet_def)
  moreover have "ps2_ok ?s'" "ps2_contents ?s' = take 256 (ps2_contents s @ packet_bytes s)"
    using ok_more [of ?s' ?s] evq.inv_puts [OF assms, of "packet_bytes s"] evq.puts_contents [OF assms, of "packet_bytes s"]
    by simp_all
  ultimately show ?thesis using n(2) by blast
qed

definition total :: "(u8 list \<Rightarrow> int) \<Rightarrow> u8 list list \<Rightarrow> int" where
  "total f ps = sum_list (map f ps)"

lemma take_take_append: "take n (take n xs @ ys) = take n (xs @ ys)"
  by (cases "length xs \<le> n") auto

text \<open>The packets of a motion: what they add up to, and where they go.\<close>

definition packets_for :: "ps2_mouse_state \<Rightarrow> u8 list list \<Rightarrow> bool" where
  "packets_for s ps \<longleftrightarrow> (\<forall>p \<in> set ps. packet_ok (mouse_type s) p \<and> p ! 0 AND 0x07 = mouse_buttons s AND 0x07)
     \<and> total packet_x ps = mouse_dx s \<and> total packet_y ps = mouse_dy s
     \<and> (mouse_type s = 3 \<or> mouse_type s = 4 \<longrightarrow> total (packet_z (mouse_type s)) ps = mouse_dz s)"

lemma packets_for_cons:
  assumes "mouse_dx s' = mouse_dx s - clamp 127 (mouse_dx s)" "mouse_dy s' = mouse_dy s - clamp 127 (mouse_dy s)"
    "mouse_dz s' = mouse_dz s - packet_dz s" "mouse_type s' = mouse_type s" "mouse_buttons s' = mouse_buttons s"
    and "packets_for s' ps"
  shows "packets_for s (packet_bytes s # ps)"
  using assms packet_bytes_ok [of s] packet_buttons [of s]
  by (auto simp: packets_for_def total_def packet_values)

lemma packets_for_nil: "deltas_zero s \<Longrightarrow> packets_for s []"
  by (simp add: packets_for_def total_def deltas_zero_def)

lemma mouse_loop_sends:
  assumes "ps2_ok s"
  shows "\<exists>s' n ps. mouse_send_loop upd s k = Inr (s', (upd True ^^ n) k) \<and> ps2_ok s' \<and> deltas_zero s'
    \<and> ps \<noteq> [] \<and> packets_for s ps \<and> ps2_contents s' = take 256 (ps2_contents s @ concat ps)
    \<and> (n = 0 \<longrightarrow> q_count s = 256)"
  using assms
proof (induction upd s k rule: mouse_send_loop.induct)
  case (1 upd s k)
  obtain s1 n where s1: "ps2_mouse_send_packet upd (s, k) = Inr (s1, (upd True ^^ n) k)" "ps2_ok s1"
    "ps2_contents s1 = take 256 (ps2_contents s @ packet_bytes s)" "n = 0 \<longrightarrow> q_count s = 256"
    using send_packet_ok [OF 1(2), of upd k] by blast
  note d = send_packet_deltas [OF s1(1)]
  show ?case
  proof (cases "deltas_zero s1")
    case True
    have "packets_for s [packet_bytes s]" using packets_for_cons [of s1 s "[]"] d packets_for_nil [OF True] by blast
    moreover have "mouse_send_loop upd s k = Inr (s1, (upd True ^^ n) k)"
      using s1(1) True by (subst mouse_send_loop.simps) simp
    ultimately show ?thesis using s1 True by (intro exI [of _ s1] exI [of _ n] exI [of _ "[packet_bytes s]"]) simp
  next
    case False
    obtain s2 j ps where ih: "mouse_send_loop upd s1 ((upd True ^^ n) k) = Inr (s2, (upd True ^^ j) ((upd True ^^ n) k))"
      "ps2_ok s2" "deltas_zero s2" "packets_for s1 ps" "ps2_contents s2 = take 256 (ps2_contents s1 @ concat ps)"
      using 1(1) [OF s1(1)] False s1(2) by auto
    have "packets_for s (packet_bytes s # ps)" using packets_for_cons [of s1 s ps] d ih(4) by blast
    moreover have "mouse_send_loop upd s k = Inr (s2, (upd True ^^ (j + n)) k)"
      using s1(1) False ih(1) by (subst mouse_send_loop.simps) (simp add: funpow_add)
    moreover have "ps2_contents s2 = take 256 (ps2_contents s @ concat (packet_bytes s # ps))"
      unfolding ih(5) s1(3) take_take_append by simp
    ultimately show ?thesis
      using ih(2,3) s1(4) by (intro exI [of _ s2] exI [of _ "j + n"] exI [of _ "packet_bytes s # ps"]) simp
  qed
qed

section \<open>Properties\<close>

text \<open>A motion event of an enabled mouse in stream mode is sent completely: the loop ends however large the
  motion, no motion is left over, and the queue receives (up to its 256 bytes) a sequence of well formed packets of
  the mouse's protocol that carry the buttons and whose signed displacements add up to the whole motion, wheel
  included.\<close>

theorem ps2_mouse_motion_sent:
  assumes "ps2_ok s" "mouse_status s AND 0x20 \<noteq> 0" "mouse_status s AND 0x40 = 0" "q_count s < 240"
    and "\<not> (mouse_dx s + dx = 0 \<and> mouse_dy s - dy = 0 \<and> mouse_dz s + dz = 0 \<and> buttons = uint (mouse_buttons s))"
  shows "\<exists>s' k' ps. ps2_mouse_event upd dx dy dz buttons (s, k) = Inr (s', k') \<and> ps2_ok s' \<and> deltas_zero s'
    \<and> ps2_contents s' = take 256 (ps2_contents s @ concat ps)
    \<and> (\<forall>p \<in> set ps. packet_ok (mouse_type s) p \<and> p ! 0 AND 0x07 = word_of_int buttons AND 0x07)
    \<and> total packet_x ps = mouse_dx s + dx \<and> total packet_y ps = mouse_dy s - dy
    \<and> (mouse_type s = 3 \<or> mouse_type s = 4 \<longrightarrow> total (packet_z (mouse_type s)) ps = mouse_dz s + dz)"
proof -
  let ?s2 = "s\<lparr>mouse_dx := mouse_dx s + dx, mouse_dy := mouse_dy s - dy, mouse_dz := mouse_dz s + dz,
               mouse_buttons := word_of_int buttons\<rparr>"
  have "ps2_mouse_event upd dx dy dz buttons (s, k) = mouse_send_loop upd ?s2 k"
    using assms(2-5) by (auto simp: ps2_mouse_event_def Let_def deltas_zero_def)
  moreover have "ps2_ok ?s2" "ps2_contents ?s2 = ps2_contents s" using assms(1) by (simp_all add: ps2_ok_def ps2_contents_def)
  moreover obtain s' n ps where "mouse_send_loop upd ?s2 k = Inr (s', (upd True ^^ n) k)" "ps2_ok s'" "deltas_zero s'"
    "packets_for ?s2 ps" "ps2_contents s' = take 256 (ps2_contents ?s2 @ concat ps)"
    using mouse_loop_sends [OF \<open>ps2_ok ?s2\<close>, of upd k] by blast
  ultimately show ?thesis
    by (intro exI [of _ s'] exI [of _ "(upd True ^^ n) k"] exI [of _ ps]) (simp add: packets_for_def)
qed

definition mouse_demo :: ps2_mouse_state where
  "mouse_demo = ps2_mouse_zero\<lparr>mouse_status := 0x20, mouse_type := 3\<rparr>"

lemma mouse_demo_ok: "ps2_ok mouse_demo" "ps2_contents mouse_demo = []"
  by (simp_all add: mouse_demo_def ps2_mouse_zero_def ps2_ok_def ps2_contents_def in_array_def)

theorem ps2_mouse_motion_sent_witness:
  "\<exists>s' k' ps. ps2_mouse_event (\<lambda>_ k. k) 300 (-20) 1 1 (mouse_demo, ()) = Inr (s', k') \<and> deltas_zero s'
    \<and> ps2_contents s' = take 256 (concat ps) \<and> total packet_x ps = 300 \<and> total packet_y ps = 20 \<and> total (packet_z 3) ps = 1"
proof -
  have "mouse_status mouse_demo = 0x20" "mouse_type mouse_demo = 3" "q_count mouse_demo = 0" "mouse_dx mouse_demo = 0"
    "mouse_dy mouse_demo = 0" "mouse_dz mouse_demo = 0" "mouse_buttons mouse_demo = 0"
    by (simp_all add: mouse_demo_def ps2_mouse_zero_def)
  then show ?thesis
    using ps2_mouse_motion_sent [of mouse_demo 300 "-20" 1 1 "\<lambda>_ k. k" "()"] mouse_demo_ok by auto
qed

text \<open>A driver's decoder of raw set 2 scan codes.\<close>

definition raw_decode :: "u8 list \<Rightarrow> int option" where
  "raw_decode bs =
     (case bs of
        [b] \<Rightarrow> map_option int (find (\<lambda>i. ps2_raw_keycode ! i = b) [0..<128])
      | [r, b] \<Rightarrow> if r = 0xf0 then map_option (\<lambda>i. int i + 0x80) (find (\<lambda>i. ps2_raw_keycode ! i = b) [0..<128]) else None
      | _ \<Rightarrow> None)"

lemma raw_table: "length ps2_raw_keycode = 128" "distinct ps2_raw_keycode"
  by code_simp+

lemma raw_find:
  assumes "i < 128"
  shows "find (\<lambda>j. ps2_raw_keycode ! j = ps2_raw_keycode ! i) [0..<128] = Some i"
proof -
  have "ps2_raw_keycode ! j \<noteq> ps2_raw_keycode ! i" if "j < i" for j
    using that assms raw_table by (simp add: nth_eq_iff_index_eq)
  then show ?thesis
    using assms by (auto simp: find_Some_iff intro!: exI [of _ i])
qed

text \<open>C20: Scan codes can be decoded: when translation is off and set 2 is selected, what a key press or release adds
  to the queue is one or two bytes from which the key code is recovered, for every key code the translation
  applies to; the table of raw codes has no two equal entries.\<close>

theorem ps2_scancode_decodable:
  assumes "ps2_ok s" "translate s = 0" "scancode_set s = 2" "q_count s < 255" "0 \<le> keycode" "keycode < 0xe0"
  shows "\<exists>s' k' bs. ps2_put_keycode upd keycode (s, k) = Inr (s', k') \<and> ps2_ok s'
    \<and> ps2_contents s' = ps2_contents s @ bs \<and> raw_decode bs = Some keycode"
proof -
  let ?i = "nat (keycode AND 0x7f)" and ?b = "ps2_raw_keycode ! nat (keycode AND 0x7f)"
  have m: "keycode AND 0x7f = keycode mod 128" using take_bit_eq_mask [of 7 keycode] by (simp add: mask_numeral take_bit_eq_mod)
  have k7: "(0x80::int) = 2 ^ 7" by simp
  have i: "?i < 128" unfolding m using pos_mod_bound [of 128 keycode] pos_mod_sign [of 128 keycode] by linarith
  have rel: "keycode AND 0x80 \<noteq> 0 \<longleftrightarrow> 128 \<le> keycode"
  proof -
    have "keycode AND 0x80 = 0 \<longleftrightarrow> \<not> bit keycode 7" unfolding k7 by (rule and_exp_eq_0_iff_not_bit)
    also have "\<dots> \<longleftrightarrow> even (keycode div 128)" by (simp add: bit_iff_odd)
    also have "\<dots> \<longleftrightarrow> keycode < 128"
    proof -
      have "keycode div 128 = 0 \<or> keycode div 128 = 1" using assms(5,6) by linarith
      then show ?thesis using assms(5,6) by auto
    qed
    finally show ?thesis by linarith
  qed
  show ?thesis
  proof (cases "128 \<le> keycode")
    case True
    have s1: "ps2_ok (ps2_put 0xf0 s)" "ps2_contents (ps2_put 0xf0 s) = ps2_contents s @ [0xf0]" "q_count (ps2_put 0xf0 s) < 256"
      using ps2_put_below [OF assms(1), of "0xf0"] assms(4) by (simp_all add: ps2_put_def)
    have s2: "ps2_ok (ps2_put ?b (ps2_put 0xf0 s))" "ps2_contents (ps2_put ?b (ps2_put 0xf0 s)) = ps2_contents s @ [0xf0, ?b]"
      using ps2_put_below [OF s1(1,3), of ?b] s1(2) by simp_all
    have "ps2_put_keycode upd keycode (s, k) = Inr (ps2_put ?b (ps2_put 0xf0 s), upd True (upd True k))"
      using True rel assms(2,3,4,6) queue_ok [OF assms(1), of upd "0xf0" k] queue_ok [OF s1(1), of upd ?b "upd True k"] s1(3)
      by (simp add: ps2_put_keycode_def)
    moreover have "keycode mod 128 = keycode - 128"
      by (rule int_mod_pos_eq [where q = 1]) (use True assms(6) in auto)
    then have "int ?i + 128 = keycode" using True m by simp
    then have "raw_decode [0xf0, ?b] = Some keycode" using raw_find [OF i] by (simp add: raw_decode_def)
    ultimately show ?thesis using s2 by blast
  next
    case False
    have "ps2_ok (ps2_put ?b s)" "ps2_contents (ps2_put ?b s) = ps2_contents s @ [?b]"
      using ps2_put_below [OF assms(1), of ?b] assms(4) by simp_all
    moreover have "ps2_put_keycode upd keycode (s, k) = Inr (ps2_put ?b s, upd True k)"
      using False rel assms(2,3,4,6) queue_ok [OF assms(1), of upd ?b k] by (simp add: ps2_put_keycode_def)
    moreover have "int ?i = keycode" using False assms(5) m by simp
    then have "raw_decode [?b] = Some keycode" using raw_find [OF i] assms(5) by (simp add: raw_decode_def)
    ultimately show ?thesis by blast
  qed
qed

definition kbd_demo :: ps2_kbd_state where
  "kbd_demo = ps2_kbd_zero\<lparr>scancode_set := 2, scan_enabled := 1\<rparr>"

lemma kbd_demo_ok: "ps2_ok kbd_demo" "ps2_contents kbd_demo = []"
  by (simp_all add: kbd_demo_def ps2_kbd_zero_def ps2_ok_def ps2_contents_def in_array_def)

theorem ps2_scancode_decodable_witness:
  "\<exists>s' k' bs. ps2_put_keycode (\<lambda>_ k. k) 0x9e (kbd_demo, ()) = Inr (s', k') \<and> ps2_contents s' = bs \<and> raw_decode bs = Some 0x9e"
  using ps2_scancode_decodable [of kbd_demo "0x9e" "\<lambda>_ k. k" "()"] kbd_demo_ok
  by (auto simp: kbd_demo_def ps2_kbd_zero_def)

text \<open>Keyboard snapshots. A keyboard saved to a file is restored completely by a load at version 3. The load does
  not check what it reads: for every read index outside the queue's array and every non-zero count there is a
  section that loads with result 0 and makes the next read of the data port access memory outside the array.\<close>

theorem ps2_kbd_snapshot:
  assumes "qemu_fopen True old ''wb'' = Some f" "ps2_fits s" "fits 31 (scan_enabled s)" "fits 31 (translate s)"
    and "fits 31 (scancode_set s)" "length (q_data t) = 256"
  shows "\<exists>f1 g g1. ps2_kbd_save s f = Inr f1 \<and> qemu_fopen True (fst (qemu_fclose f1)) ''rb'' = Some g
    \<and> ps2_kbd_load t 3 g = Inr ((0, s), g1)
    \<and> (q_count s \<noteq> 0 \<and> \<not> in_array (q_rptr s) \<longrightarrow> ps2_read_data upd (s, k) = Inl Bad_access)"
proof -
  obtain f1 g g1 where "ps2_kbd_save s f = Inr f1" "qemu_fopen True (fst (qemu_fclose f1)) ''rb'' = Some g"
    "ps2_kbd_load t 3 g = Inr ((0, s), g1)"
    using save_then_load [OF ps2_kbd_save_emits ps2_kbd_load_consumes [OF assms(2-6)] assms(1)] by blast
  then show ?thesis by (auto simp: ps2_read_data_def)
qed

theorem ps2_kbd_snapshot_witness:
  "\<exists>f1 g g1. ps2_kbd_save (kbd_demo\<lparr>q_rptr := 70000, q_count := 1\<rparr>) (qemu_fopen_ops [] True False) = Inr f1
    \<and> qemu_fopen True (fst (qemu_fclose f1)) ''rb'' = Some g
    \<and> ps2_kbd_load ps2_kbd_zero 3 g = Inr ((0, kbd_demo\<lparr>q_rptr := 70000, q_count := 1\<rparr>), g1)
    \<and> ps2_read_data (\<lambda>_ k. k) (kbd_demo\<lparr>q_rptr := 70000, q_count := 1\<rparr>, ()) = Inl Bad_access"
proof -
  let ?s = "kbd_demo\<lparr>q_rptr := 70000, q_count := 1\<rparr>"
  have "ps2_fits ?s" "fits 31 (scan_enabled ?s)" "fits 31 (translate ?s)" "fits 31 (scancode_set ?s)"
    "length (q_data ps2_kbd_zero) = 256" "q_count ?s \<noteq> 0" "\<not> in_array (q_rptr ?s)"
    by (simp_all add: ps2_fits_def fits_def kbd_demo_def ps2_kbd_zero_def in_array_def)
  then show ?thesis
    using ps2_kbd_snapshot [of "[]" "qemu_fopen_ops [] True False" ?s ps2_kbd_zero "\<lambda>_ k. k" "()"]
    by (simp add: qemu_fopen_def)
qed

end
