(* ===== verification/Pckbd.thy ===== *)
theory Pckbd
  imports Ps2 Port_Device
begin

text \<open>
  The 8042 keyboard controller of \<^verbatim>\<open>hw/pckbd.c\<close> with the two PS/2 devices plugged into it: the command
  and data ports, the output buffer status, the two interrupt outputs, the A20 gate and the reset line. The
  calls of \<^verbatim>\<open>qemu_set_irq\<close> and \<^verbatim>\<open>qemu_system_reset_request\<close> are recorded in \<open>kbd_events\<close>; the
  A20 gate of the first processor is the field \<open>a20_gate\<close>. \<^verbatim>\<open>TARGET_I386\<close> is defined.
\<close>

section \<open>The controller\<close>

datatype kbd_event = Irq_kbd bool | Irq_mouse bool | Kbd_system_reset

record kbd_state =
  kbd_write_cmd :: u8
  kbd_status :: u8
  kbd_mode :: u8
  kbd_pending :: u8
  kbd_mask :: u64
  a20_gate :: bool
  kbd_events :: "kbd_event list"

abbreviation (input) "KBD_STAT_OBF \<equiv> (0x01::u8)"
abbreviation (input) "KBD_STAT_SELFTEST \<equiv> (0x04::u8)"
abbreviation (input) "KBD_STAT_CMD \<equiv> (0x08::u8)"
abbreviation (input) "KBD_STAT_UNLOCKED \<equiv> (0x10::u8)"
abbreviation (input) "KBD_STAT_MOUSE_OBF \<equiv> (0x20::u8)"
abbreviation (input) "KBD_MODE_KBD_INT \<equiv> (0x01::u8)"
abbreviation (input) "KBD_MODE_MOUSE_INT \<equiv> (0x02::u8)"
abbreviation (input) "KBD_MODE_DISABLE_KBD \<equiv> (0x10::u8)"
abbreviation (input) "KBD_MODE_DISABLE_MOUSE \<equiv> (0x20::u8)"
abbreviation (input) "KBD_MODE_KCC \<equiv> (0x40::u8)"
abbreviation (input) "KBD_PENDING_KBD \<equiv> (1::u8)"
abbreviation (input) "KBD_PENDING_AUX \<equiv> (2::u8)"

definition kbd_irq_levels :: "kbd_state \<Rightarrow> bool \<times> bool" where
  "kbd_irq_levels s =
     (kbd_pending s \<noteq> 0 \<and> kbd_pending s \<noteq> KBD_PENDING_AUX \<and> kbd_mode s AND KBD_MODE_KBD_INT \<noteq> 0
        \<and> kbd_mode s AND KBD_MODE_DISABLE_KBD = 0,
      kbd_pending s = KBD_PENDING_AUX \<and> kbd_mode s AND KBD_MODE_MOUSE_INT \<noteq> 0)"

definition kbd_update_irq :: "kbd_state \<Rightarrow> kbd_state" where
  "kbd_update_irq s =
     (let st0 = kbd_status s AND NOT (KBD_STAT_OBF OR KBD_STAT_MOUSE_OBF);
          st1 = (if kbd_pending s \<noteq> 0 then st0 OR KBD_STAT_OBF else st0);
          st2 = (if kbd_pending s = KBD_PENDING_AUX then st1 OR KBD_STAT_MOUSE_OBF else st1);
          (irq_kbd_level, irq_mouse_level) = kbd_irq_levels s
      in s\<lparr>kbd_status := st2, kbd_events := kbd_events s @ [Irq_kbd irq_kbd_level, Irq_mouse irq_mouse_level]\<rparr>)"

definition kbd_update_kbd_irq :: "bool \<Rightarrow> kbd_state \<Rightarrow> kbd_state" where
  "kbd_update_kbd_irq level s =
     kbd_update_irq (s\<lparr>kbd_pending := (if level then kbd_pending s OR KBD_PENDING_KBD
                                      else kbd_pending s AND NOT KBD_PENDING_KBD)\<rparr>)"

definition kbd_update_aux_irq :: "bool \<Rightarrow> kbd_state \<Rightarrow> kbd_state" where
  "kbd_update_aux_irq level s =
     kbd_update_irq (s\<lparr>kbd_pending := (if level then kbd_pending s OR KBD_PENDING_AUX
                                      else kbd_pending s AND NOT KBD_PENDING_AUX)\<rparr>)"

text \<open>The controller with its devices; the operations of a device run against the controller's call-back.\<close>

record i8042 =
  ctl :: kbd_state
  kbd :: ps2_kbd_state
  mouse :: ps2_mouse_state

definition on_kbd ::
  "((bool \<Rightarrow> kbd_state \<Rightarrow> kbd_state) \<Rightarrow> ps2_kbd_state \<times> kbd_state \<Rightarrow> (ps2_kbd_state \<times> kbd_state) res) \<Rightarrow> i8042 \<Rightarrow> i8042 res" where
  "on_kbd f m = res_bind (f kbd_update_kbd_irq (kbd m, ctl m)) (\<lambda>(s, k). Inr (m\<lparr>kbd := s, ctl := k\<rparr>))"

definition on_mouse ::
  "((bool \<Rightarrow> kbd_state \<Rightarrow> kbd_state) \<Rightarrow> ps2_mouse_state \<times> kbd_state \<Rightarrow> (ps2_mouse_state \<times> kbd_state) res) \<Rightarrow> i8042 \<Rightarrow> i8042 res" where
  "on_mouse f m = res_bind (f kbd_update_aux_irq (mouse m, ctl m)) (\<lambda>(s, k). Inr (m\<lparr>mouse := s, ctl := k\<rparr>))"

definition upd_ctl :: "(kbd_state \<Rightarrow> kbd_state) \<Rightarrow> i8042 \<Rightarrow> i8042" where
  "upd_ctl f m = m\<lparr>ctl := f (ctl m)\<rparr>"

definition kbd_emit :: "kbd_event \<Rightarrow> kbd_state \<Rightarrow> kbd_state" where
  "kbd_emit e s = s\<lparr>kbd_events := kbd_events s @ [e]\<rparr>"

definition kbd_queue :: "u8 \<Rightarrow> bool \<Rightarrow> i8042 \<Rightarrow> i8042 res" where
  "kbd_queue b aux m =
     (if aux then on_mouse (\<lambda>upd. ps2_queue upd b) m else on_kbd (\<lambda>upd. ps2_queue upd b) m)"

definition kbd_read_status :: "i8042 \<Rightarrow> u32 \<Rightarrow> u32 \<times> i8042" where
  "kbd_read_status m addr = (ucast (kbd_status (ctl m)), m)"

definition outport_value :: "kbd_state \<Rightarrow> u8" where
  "outport_value s =
     (0x01 OR (if a20_gate s then 0x02 else 0) OR (if kbd_status s AND KBD_STAT_OBF \<noteq> 0 then 0x10 else 0)
      OR (if kbd_status s AND KBD_STAT_MOUSE_OBF \<noteq> 0 then 0x20 else 0))"

definition kbd_write_command :: "i8042 \<Rightarrow> u32 \<Rightarrow> u32 \<Rightarrow> i8042 res" where
  "kbd_write_command m addr val =
     (if val = 0x20 then kbd_queue (kbd_mode (ctl m)) False m
      else if val \<in> {0x60, 0xD2, 0xD3, 0xD4, 0xD1} then Inr (upd_ctl (\<lambda>s. s\<lparr>kbd_write_cmd := ucast val\<rparr>) m)
      else if val = 0xA7 then Inr (upd_ctl (\<lambda>s. s\<lparr>kbd_mode := kbd_mode s OR KBD_MODE_DISABLE_MOUSE\<rparr>) m)
      else if val = 0xA8 then Inr (upd_ctl (\<lambda>s. s\<lparr>kbd_mode := kbd_mode s AND NOT KBD_MODE_DISABLE_MOUSE\<rparr>) m)
      else if val = 0xA9 then kbd_queue 0x00 False m
      else if val = 0xAA then
        kbd_queue 0x55 False (upd_ctl (\<lambda>s. s\<lparr>kbd_status := kbd_status s OR KBD_STAT_SELFTEST\<rparr>) m)
      else if val = 0xAB then kbd_queue 0x00 False m
      else if val = 0xAD then
        Inr (upd_ctl (\<lambda>s. kbd_update_irq (s\<lparr>kbd_mode := kbd_mode s OR KBD_MODE_DISABLE_KBD\<rparr>)) m)
      else if val = 0xAE then
        Inr (upd_ctl (\<lambda>s. kbd_update_irq (s\<lparr>kbd_mode := kbd_mode s AND NOT KBD_MODE_DISABLE_KBD\<rparr>)) m)
      else if val = 0xC0 then kbd_queue 0x00 False m
      else if val = 0xD0 then kbd_queue (outport_value (ctl m)) False m
      else if val = 0xDF then Inr (upd_ctl (\<lambda>s. s\<lparr>a20_gate := True\<rparr>) m)
      else if val = 0xDD then Inr (upd_ctl (\<lambda>s. s\<lparr>a20_gate := False\<rparr>) m)
      else if val = 0xFE then Inr (upd_ctl (kbd_emit Kbd_system_reset) m)
      else Inr m)"

definition kbd_read_data :: "i8042 \<Rightarrow> u32 \<Rightarrow> (u32 \<times> i8042) res" where
  "kbd_read_data m addr =
     (if kbd_pending (ctl m) = KBD_PENDING_AUX
      then res_bind (ps2_read_data kbd_update_aux_irq (mouse m, ctl m)) (\<lambda>(v, s, k). Inr (ucast v, m\<lparr>mouse := s, ctl := k\<rparr>))
      else res_bind (ps2_read_data kbd_update_kbd_irq (kbd m, ctl m)) (\<lambda>(v, s, k). Inr (ucast v, m\<lparr>kbd := s, ctl := k\<rparr>)))"

text \<open>\<^verbatim>\<open>val\<close> reaches the devices as an \<^verbatim>\<open>int\<close>.\<close>

definition kbd_write_outport :: "u32 \<Rightarrow> kbd_state \<Rightarrow> kbd_state" where
  "kbd_write_outport val s =
     (let s1 = s\<lparr>a20_gate := (drop_bit 1 val AND 1 \<noteq> 0)\<rparr> in if val AND 1 = 0 then kbd_emit Kbd_system_reset s1 else s1)"

definition kbd_write_mode :: "u32 \<Rightarrow> i8042 \<Rightarrow> i8042" where
  "kbd_write_mode val m =
     (let m1 = upd_ctl (\<lambda>s. s\<lparr>kbd_mode := ucast val\<rparr>) m;
          m2 = m1\<lparr>kbd := ps2_keyboard_set_translation (if kbd_mode (ctl m1) AND KBD_MODE_KCC \<noteq> 0 then 1 else 0) (kbd m1)\<rparr>
      in upd_ctl kbd_update_irq m2)"

definition kbd_write_data :: "i8042 \<Rightarrow> u32 \<Rightarrow> u32 \<Rightarrow> i8042 res" where
  "kbd_write_data m addr val =
     (let cmd = kbd_write_cmd (ctl m) in
      res_bind
        (if cmd = 0 then on_kbd (\<lambda>upd. ps2_write_keyboard upd (sint val)) m
         else if cmd = 0x60 then Inr (kbd_write_mode val m)
         else if cmd = 0xD2 then kbd_queue (ucast val) False m
         else if cmd = 0xD3 then kbd_queue (ucast val) True m
         else if cmd = 0xD1 then Inr (upd_ctl (kbd_write_outport val) m)
         else if cmd = 0xD4 then on_mouse (\<lambda>upd. ps2_write_mouse upd (sint val)) m
         else Inr m)
        (\<lambda>m. Inr (upd_ctl (\<lambda>s. s\<lparr>kbd_write_cmd := 0\<rparr>) m)))"

definition kbd_reset :: "kbd_state \<Rightarrow> kbd_state" where
  "kbd_reset s = s\<lparr>kbd_mode := KBD_MODE_KBD_INT OR KBD_MODE_MOUSE_INT, kbd_status := KBD_STAT_CMD OR KBD_STAT_UNLOCKED\<rparr>"

definition kbd_save :: "kbd_state \<Rightarrow> qemu_file \<Rightarrow> qemu_file res" where
  "kbd_save s f =
     res_bind (qemu_put_8s (kbd_write_cmd s) f) (\<lambda>f. res_bind (qemu_put_8s (kbd_status s) f) (\<lambda>f.
     res_bind (qemu_put_8s (kbd_mode s) f) (\<lambda>f. qemu_put_8s (kbd_pending s) f)))"

definition kbd_load :: "kbd_state \<Rightarrow> int \<Rightarrow> qemu_file \<Rightarrow> ((int \<times> kbd_state) \<times> qemu_file) res" where
  "kbd_load s version_id f =
     (if version_id \<noteq> 3 then Inr ((- 22, s), f)
      else
        res_bind (qemu_get_byte f) (\<lambda>(cmd, f). res_bind (qemu_get_byte f) (\<lambda>(st, f).
        res_bind (qemu_get_byte f) (\<lambda>(md, f). res_bind (qemu_get_byte f) (\<lambda>(pd, f).
          Inr ((0, s\<lparr>kbd_write_cmd := cmd, kbd_status := st, kbd_mode := md, kbd_pending := pd\<rparr>), f))))))"

definition kbd_zero :: kbd_state where
  "kbd_zero = \<lparr>kbd_write_cmd = 0, kbd_status = 0, kbd_mode = 0, kbd_pending = 0, kbd_mask = 0, a20_gate = False, kbd_events = []\<rparr>"

definition i8042_init :: i8042 where
  "i8042_init =
     (let c0 = kbd_reset kbd_zero;
          (k, c1) = ps2_kbd_init kbd_update_kbd_irq c0;
          (ms, c2) = ps2_mouse_init kbd_update_aux_irq c1
      in \<lparr>ctl = c2, kbd = k, mouse = ms\<rparr>)"

text \<open>\<^verbatim>\<open>qemu_system_reset\<close> runs the three reset handlers in the order they were registered.\<close>

definition i8042_reset :: "i8042 \<Rightarrow> i8042" where
  "i8042_reset m =
     (let (k, c1) = ps2_reset kbd_update_kbd_irq (kbd m, ctl m);
          (ms, c2) = ps2_reset kbd_update_aux_irq (mouse m, c1)
      in \<lparr>ctl = kbd_reset c2, kbd = k, mouse = ms\<rparr>)"

section \<open>Memory mapped interface\<close>

definition kbd_mm_readb :: "i8042 \<Rightarrow> u64 \<Rightarrow> (u32 \<times> i8042) res" where
  "kbd_mm_readb m addr =
     (if addr AND kbd_mask (ctl m) \<noteq> 0 then Inr (let (v, m1) = kbd_read_status m 0 in (v AND 0xff, m1))
      else res_bind (kbd_read_data m 0) (\<lambda>(v, m1). Inr (v AND 0xff, m1)))"

definition kbd_mm_writeb :: "i8042 \<Rightarrow> u64 \<Rightarrow> u32 \<Rightarrow> i8042 res" where
  "kbd_mm_writeb m addr value =
     (if addr AND kbd_mask (ctl m) \<noteq> 0 then kbd_write_command m 0 (value AND 0xff)
      else kbd_write_data m 0 (value AND 0xff))"

section \<open>Consistency of queues, status and interrupt lines\<close>

definition kbd_line :: "kbd_event list \<Rightarrow> bool" where
  "kbd_line es = foldl (\<lambda>l e. case e of Irq_kbd b \<Rightarrow> b | _ \<Rightarrow> l) False es"

definition mouse_line :: "kbd_event list \<Rightarrow> bool" where
  "mouse_line es = foldl (\<lambda>l e. case e of Irq_mouse b \<Rightarrow> b | _ \<Rightarrow> l) False es"

definition pending_of :: "bool \<Rightarrow> bool \<Rightarrow> u8" where
  "pending_of kd md = (if kd then 1 else 0) OR (if md then 2 else 0)"

text \<open>What the guest sees of a controller whose devices have data waiting as told by \<open>kd\<close> and \<open>md\<close>.\<close>

definition ctl_ok :: "bool \<Rightarrow> bool \<Rightarrow> kbd_state \<Rightarrow> bool" where
  "ctl_ok kd md c \<longleftrightarrow> kbd_pending c = pending_of kd md
     \<and> bit (kbd_status c) 0 = (kd \<or> md) \<and> bit (kbd_status c) 5 = (md \<and> \<not> kd)
     \<and> kbd_line (kbd_events c) = (kd \<and> bit (kbd_mode c) 0 \<and> \<not> bit (kbd_mode c) 4)
     \<and> mouse_line (kbd_events c) = (md \<and> \<not> kd \<and> bit (kbd_mode c) 1)"

definition i8042_inv :: "i8042 \<Rightarrow> bool" where
  "i8042_inv m \<longleftrightarrow> ps2_ok (kbd m) \<and> ps2_ok (mouse m) \<and> ctl_ok (q_count (kbd m) \<noteq> 0) (q_count (mouse m) \<noteq> 0) (ctl m)"

lemma line_append:
  "kbd_line (es @ [Irq_kbd a, Irq_mouse b]) = a" "mouse_line (es @ [Irq_kbd a, Irq_mouse b]) = b"
  "kbd_line (es @ [Kbd_system_reset]) = kbd_line es" "mouse_line (es @ [Kbd_system_reset]) = mouse_line es"
  by (simp_all add: kbd_line_def mouse_line_def)

lemma pending_cases [simp]:
  "pending_of kd md = 0 \<longleftrightarrow> \<not> kd \<and> \<not> md" "pending_of kd md = 2 \<longleftrightarrow> md \<and> \<not> kd"
  "pending_of kd md OR 1 = pending_of True md" "pending_of kd md OR 2 = pending_of kd True"
  "pending_of kd md AND - 2 = pending_of False md" "pending_of kd md AND - 3 = pending_of kd False"
  by (cases kd; cases md; simp add: pending_of_def)+

lemma bit_tests:
  "(w::u8) AND 1 = 0 \<longleftrightarrow> \<not> bit w 0" "w AND 2 = 0 \<longleftrightarrow> \<not> bit w 1" "w AND 0x10 = 0 \<longleftrightarrow> \<not> bit w 4"
  "w AND 0x20 = 0 \<longleftrightarrow> \<not> bit w 5" "w AND 0x40 = 0 \<longleftrightarrow> \<not> bit w 6"
  using and_exp_eq_0_iff_not_bit [of w 0] and_exp_eq_0_iff_not_bit [of w 1] and_exp_eq_0_iff_not_bit [of w 4]
    and_exp_eq_0_iff_not_bit [of w 5] and_exp_eq_0_iff_not_bit [of w 6] by simp_all

lemma bit_consts:
  "bit (1::u8) n \<longleftrightarrow> n = 0" "bit (4::u8) n \<longleftrightarrow> n = 2" "bit (0x10::u8) n \<longleftrightarrow> n = 4" "bit (0x20::u8) n \<longleftrightarrow> n = 5"
  using bit_exp_iff [where 'a = "8 word", of 0 n] bit_exp_iff [where 'a = "8 word", of 2 n]
    bit_exp_iff [where 'a = "8 word", of 4 n] bit_exp_iff [where 'a = "8 word", of 5 n]
  by (auto simp: possible_bit_def)

lemma update_irq_ok:
  assumes "kbd_pending c = pending_of kd md"
  shows "ctl_ok kd md (kbd_update_irq c)"
proof -
  define z :: u8 where "z = NOT (1 OR 0x20)"
  have z: "\<not> bit z 0" "\<not> bit z 5" unfolding z_def by (simp_all only: bit_not_iff bit_or_iff bit_consts) simp_all
  have "ctl_ok kd md (let st0 = kbd_status c AND z;
          st1 = (if kbd_pending c \<noteq> 0 then st0 OR 1 else st0);
          st2 = (if kbd_pending c = 2 then st1 OR 0x20 else st1)
      in c\<lparr>kbd_status := st2, kbd_events := kbd_events c @ [Irq_kbd (fst (kbd_irq_levels c)), Irq_mouse (snd (kbd_irq_levels c))]\<rparr>)"
    using assms z by (auto simp: ctl_ok_def kbd_irq_levels_def Let_def line_append bit_tests bit_or_iff bit_and_iff bit_consts)
  then show ?thesis unfolding kbd_update_irq_def z_def [symmetric] by (simp add: Let_def split_beta)
qed

lemma ctl_ok_pending: "ctl_ok kd md c \<Longrightarrow> kbd_pending c = pending_of kd md"
  by (simp add: ctl_ok_def)

lemma kbd_irq_ok: "ctl_ok kd md c \<Longrightarrow> ctl_ok l md (kbd_update_kbd_irq l c)"
  unfolding kbd_update_kbd_irq_def by (rule update_irq_ok) (cases l; simp add: ctl_ok_def)

lemma aux_irq_ok: "ctl_ok kd md c \<Longrightarrow> ctl_ok kd l (kbd_update_aux_irq l c)"
  unfolding kbd_update_aux_irq_def by (rule update_irq_ok) (cases l; simp add: ctl_ok_def)

lemma kbd_irq_pow: "ctl_ok kd md c \<Longrightarrow> 0 < n \<Longrightarrow> ctl_ok True md ((kbd_update_kbd_irq True ^^ n) c)"
  by (induction n) (auto intro: kbd_irq_ok simp: less_Suc_eq_0_disj, metis kbd_irq_ok neq0_conv funpow_0)

lemma aux_irq_pow: "ctl_ok kd md c \<Longrightarrow> 0 < n \<Longrightarrow> ctl_ok kd True ((kbd_update_aux_irq True ^^ n) c)"
  by (induction n) (auto intro: aux_irq_ok simp: less_Suc_eq_0_disj, metis aux_irq_ok neq0_conv funpow_0)

lemma inv_devices: "i8042_inv m \<Longrightarrow> ps2_ok (kbd m) \<and> ps2_ok (mouse m)"
  by (simp add: i8042_inv_def)

lemma on_kbd_inv:
  assumes "i8042_inv m" "\<And>k. runs kbd_update_kbd_irq (kbd m) k (f kbd_update_kbd_irq (kbd m, k))"
  shows "\<exists>m'. on_kbd f m = Inr m' \<and> i8042_inv m'"
proof -
  obtain s n where r: "f kbd_update_kbd_irq (kbd m, ctl m) = Inr (s, (kbd_update_kbd_irq True ^^ n) (ctl m))" "ps2_ok s"
    "n = 0 \<longrightarrow> q_count s = q_count (kbd m)" "0 < n \<longrightarrow> 0 < q_count s"
    using assms(2) [of "ctl m"] by (auto simp: runs_def)
  have "ctl_ok (q_count s \<noteq> 0) (q_count (mouse m) \<noteq> 0) ((kbd_update_kbd_irq True ^^ n) (ctl m))"
    using assms(1) r(3,4) kbd_irq_pow [of _ _ "ctl m" n] by (cases "n = 0") (auto simp: i8042_inv_def)
  then show ?thesis using assms(1) r(1,2) by (auto simp: on_kbd_def i8042_inv_def)
qed

lemma on_mouse_inv:
  assumes "i8042_inv m" "\<And>k. runs kbd_update_aux_irq (mouse m) k (f kbd_update_aux_irq (mouse m, k))"
  shows "\<exists>m'. on_mouse f m = Inr m' \<and> i8042_inv m'"
proof -
  obtain s n where r: "f kbd_update_aux_irq (mouse m, ctl m) = Inr (s, (kbd_update_aux_irq True ^^ n) (ctl m))" "ps2_ok s"
    "n = 0 \<longrightarrow> q_count s = q_count (mouse m)" "0 < n \<longrightarrow> 0 < q_count s"
    using assms(2) [of "ctl m"] by (auto simp: runs_def)
  have "ctl_ok (q_count (kbd m) \<noteq> 0) (q_count s \<noteq> 0) ((kbd_update_aux_irq True ^^ n) (ctl m))"
    using assms(1) r(3,4) aux_irq_pow [of _ _ "ctl m" n] by (cases "n = 0") (auto simp: i8042_inv_def)
  then show ?thesis using assms(1) r(1,2) by (auto simp: on_mouse_def i8042_inv_def)
qed

lemma queue_inv: "i8042_inv m \<Longrightarrow> \<exists>m'. kbd_queue b aux m = Inr m' \<and> i8042_inv m'"
  unfolding kbd_queue_def
  by (cases aux) (auto dest: inv_devices intro!: on_kbd_inv on_mouse_inv runs_queue)

lemma ctl_inv:
  assumes "i8042_inv m" "ctl_ok (q_count (kbd m) \<noteq> 0) (q_count (mouse m) \<noteq> 0) (ctl m)
      \<Longrightarrow> ctl_ok (q_count (kbd m) \<noteq> 0) (q_count (mouse m) \<noteq> 0) (f (ctl m))"
  shows "i8042_inv (upd_ctl f m)"
  using assms by (simp add: i8042_inv_def upd_ctl_def)

lemma ctl_ok_other:
  "ctl_ok kd md (c\<lparr>kbd_write_cmd := x\<rparr>) = ctl_ok kd md c" "ctl_ok kd md (c\<lparr>a20_gate := g\<rparr>) = ctl_ok kd md c"
  "ctl_ok kd md (kbd_emit Kbd_system_reset c) = ctl_ok kd md c"
  "ctl_ok kd md (c\<lparr>kbd_status := kbd_status c OR 4\<rparr>) = ctl_ok kd md c"
  "ctl_ok kd md (c\<lparr>kbd_mode := kbd_mode c OR 0x20\<rparr>) = ctl_ok kd md c"
  "ctl_ok kd md (c\<lparr>kbd_mode := kbd_mode c AND NOT 0x20\<rparr>) = ctl_ok kd md c"
  by (simp_all only: ctl_ok_def kbd_emit_def) (simp_all add: line_append bit_or_iff bit_consts,
      simp_all only: bit_and_iff bit_not_iff bit_consts, simp_all)

lemma ctl_upd_mode: "ctl_ok kd md c \<Longrightarrow> ctl_ok kd md (kbd_update_irq (c\<lparr>kbd_mode := x\<rparr>))"
  by (rule update_irq_ok) (simp add: ctl_ok_def)

lemma write_command_inv: "i8042_inv m \<Longrightarrow> \<exists>m'. kbd_write_command m a v = Inr m' \<and> i8042_inv m'"
  unfolding kbd_write_command_def
  by (auto intro!: queue_inv ctl_inv ctl_upd_mode simp: ctl_ok_other ctl_ok_other(6) [simplified])

lemma write_mode_inv: "i8042_inv m \<Longrightarrow> i8042_inv (kbd_write_mode v m)"
  unfolding kbd_write_mode_def Let_def
  by (auto simp: i8042_inv_def upd_ctl_def ps2_keyboard_set_translation_def ps2_ok_def intro: ctl_upd_mode)

lemma write_data_inv: "i8042_inv m \<Longrightarrow> \<exists>m'. kbd_write_data m a v = Inr m' \<and> i8042_inv m'"
proof -
  assume i: "i8042_inv m"
  let ?cmd = "kbd_write_cmd (ctl m)"
  let ?r = "if ?cmd = 0 then on_kbd (\<lambda>upd. ps2_write_keyboard upd (sint v)) m
         else if ?cmd = 0x60 then Inr (kbd_write_mode v m)
         else if ?cmd = 0xD2 then kbd_queue (ucast v) False m
         else if ?cmd = 0xD3 then kbd_queue (ucast v) True m
         else if ?cmd = 0xD1 then Inr (upd_ctl (kbd_write_outport v) m)
         else if ?cmd = 0xD4 then on_mouse (\<lambda>upd. ps2_write_mouse upd (sint v)) m
         else Inr m"
  have dev: "\<exists>m'. on_kbd (\<lambda>upd. ps2_write_keyboard upd (sint v)) m = Inr m' \<and> i8042_inv m'"
    "\<exists>m'. on_mouse (\<lambda>upd. ps2_write_mouse upd (sint v)) m = Inr m' \<and> i8042_inv m'"
    using inv_devices [OF i] by (auto intro!: on_kbd_inv [OF i] on_mouse_inv [OF i] runs_write_keyboard runs_write_mouse)
  have "\<exists>m1. ?r = Inr m1 \<and> i8042_inv m1"
    using i dev queue_inv [OF i] write_mode_inv [OF i]
    by (auto intro!: ctl_inv simp: kbd_write_outport_def Let_def ctl_ok_other)
  then obtain m1 where m1: "?r = Inr m1" "i8042_inv m1" by blast
  have "i8042_inv (upd_ctl (\<lambda>s. s\<lparr>kbd_write_cmd := 0\<rparr>) m1)" by (rule ctl_inv [OF m1(2)]) (simp add: ctl_ok_other)
  then show ?thesis unfolding kbd_write_data_def Let_def m1(1) by simp
qed

lemma read_data_inv: "i8042_inv m \<Longrightarrow> \<exists>v m'. kbd_read_data m a = Inr (v, m') \<and> i8042_inv m'"
proof -
  assume i: "i8042_inv m"
  have rd: "\<exists>v s' k'. ps2_read_data upd (s, k) = Inr (v, s', k') \<and> ps2_ok s'
      \<and> (if q_count s = 0 then s' = s \<and> k' = k else k' = upd (q_count s' \<noteq> 0) (upd False k))"
    if "ps2_ok s" for upd :: "bool \<Rightarrow> kbd_state \<Rightarrow> kbd_state" and s :: "'x ps2_state_scheme" and k
  proof (cases "q_count s = 0")
    case True
    then show ?thesis using that by (auto simp: ps2_read_data_def Let_def ps2_ok_def in_array_def)
  next
    case False
    have "ps2_contents s \<noteq> []" using False that length_contents [OF that] by (auto simp: ps2_ok_def)
    then have "ps2_ok (snd (ps2_get s))" using evq.inv_get [OF that] by blast
    then show ?thesis using False that by (auto simp: ps2_read_data_def split_beta Let_def ps2_ok_def)
  qed
  note o = inv_devices [OF i]
  have c: "ctl_ok (q_count (kbd m) \<noteq> 0) (q_count (mouse m) \<noteq> 0) (ctl m)" using i by (simp add: i8042_inv_def)
  show ?thesis
  proof (cases "kbd_pending (ctl m) = 2")
    case True
    obtain v s k where r: "ps2_read_data kbd_update_aux_irq (mouse m, ctl m) = Inr (v, s, k)" "ps2_ok s"
      "if q_count (mouse m) = 0 then s = mouse m \<and> k = ctl m else k = kbd_update_aux_irq (q_count s \<noteq> 0) (kbd_update_aux_irq False (ctl m))"
      using rd [of "mouse m" kbd_update_aux_irq "ctl m"] o by blast
    have "ctl_ok (q_count (kbd m) \<noteq> 0) (q_count s \<noteq> 0) k"
      using r(3) c aux_irq_ok [OF aux_irq_ok [OF c]] by (auto split: if_splits)
    then show ?thesis using True r o by (simp add: kbd_read_data_def i8042_inv_def)
  next
    case False
    obtain v s k where r: "ps2_read_data kbd_update_kbd_irq (kbd m, ctl m) = Inr (v, s, k)" "ps2_ok s"
      "if q_count (kbd m) = 0 then s = kbd m \<and> k = ctl m else k = kbd_update_kbd_irq (q_count s \<noteq> 0) (kbd_update_kbd_irq False (ctl m))"
      using rd [of "kbd m" kbd_update_kbd_irq "ctl m"] o by blast
    have "ctl_ok (q_count s \<noteq> 0) (q_count (mouse m) \<noteq> 0) k"
      using r(3) c kbd_irq_ok [OF kbd_irq_ok [OF c]] by (auto split: if_splits)
    then show ?thesis using False r o by (simp add: kbd_read_data_def i8042_inv_def)
  qed
qed

lemma reset_ps2_ok: "ps2_ok s \<Longrightarrow> ps2_ok (fst (ps2_reset upd (s, k))) \<and> q_count (fst (ps2_reset upd (s, k))) = 0"
  by (simp add: ps2_reset_def ps2_ok_def in_array_def)

lemma kbd_reset_ok: "ctl_ok False False c \<Longrightarrow> ctl_ok False False (kbd_reset c)"
proof -
  have "(0x18::u8) = 2 ^ 3 OR 2 ^ 4" by simp
  then have "\<not> bit (0x18::u8) 0" "\<not> bit (0x18::u8) 5" by simp_all
  then show "ctl_ok False False c \<Longrightarrow> ?thesis" by (simp add: ctl_ok_def kbd_reset_def)
qed

lemma i8042_reset_inv: "i8042_inv m \<Longrightarrow> i8042_inv (i8042_reset m)"
proof -
  assume i: "i8042_inv m"
  have c: "ctl_ok (q_count (kbd m) \<noteq> 0) (q_count (mouse m) \<noteq> 0) (ctl m)" using i by (simp add: i8042_inv_def)
  have "ctl_ok False False (kbd_reset (kbd_update_aux_irq False (kbd_update_kbd_irq False (ctl m))))"
    by (rule kbd_reset_ok [OF aux_irq_ok [OF kbd_irq_ok [OF c]]])
  then show ?thesis
    using inv_devices [OF i] by (simp add: i8042_reset_def ps2_reset_def i8042_inv_def ps2_ok_def in_array_def)
qed

lemma i8042_init_inv: "i8042_inv i8042_init"
proof -
  have "ctl_ok False False (kbd_update_kbd_irq False (kbd_reset kbd_zero))"
    unfolding kbd_update_kbd_irq_def
    by (rule update_irq_ok) (simp add: kbd_reset_def kbd_zero_def pending_of_def)
  from aux_irq_ok [OF this, of False] show ?thesis
    by (simp add: i8042_init_def ps2_kbd_init_def ps2_mouse_init_def ps2_reset_def i8042_inv_def ps2_ok_def in_array_def
        ps2_kbd_zero_def ps2_mouse_zero_def)
qed

section \<open>Snapshot format\<close>

definition kbd_bytes :: "kbd_state \<Rightarrow> u8 list" where
  "kbd_bytes s = [kbd_write_cmd s] @ [kbd_status s] @ [kbd_mode s] @ [kbd_pending s]"

definition kbd_restored :: "kbd_state \<Rightarrow> kbd_state \<Rightarrow> kbd_state" where
  "kbd_restored t s = t\<lparr>kbd_write_cmd := kbd_write_cmd s, kbd_status := kbd_status s, kbd_mode := kbd_mode s,
     kbd_pending := kbd_pending s\<rparr>"

interpretation kbd_snap: snapshot_device kbd_save kbd_load 3 kbd_bytes kbd_restored
proof
  show "emits qf_writer qf_written (kbd_save s) (kbd_bytes s)" for s
    unfolding kbd_save_def kbd_bytes_def by (intro emits_bind put_8s_emits)
  have "consumes qf_reader qf_left (kbd_load t 3) ([kbd_write_cmd s] @ [kbd_status s] @ [kbd_mode s] @ [kbd_pending s] @ [])
      (0, kbd_restored t s)" for t s
    unfolding kbd_load_def kbd_restored_def
    by (rule consumes_else, simp) (rule consumes_bind [OF get_byte_consumes] consumes_return)+
  then show "consumes qf_reader qf_left (kbd_load t 3) (kbd_bytes s) (0, kbd_restored t s)" for t s
    by (simp add: kbd_bytes_def)
qed

section \<open>Properties\<close>

text \<open>What can happen to the controller: guest accesses to the four port handlers, keyboard and mouse events
  from the user interface, and a system reset.\<close>

inductive i8042_step :: "i8042 \<Rightarrow> i8042 \<Rightarrow> bool" where
  read_data: "kbd_read_data m a = Inr (v, m') \<Longrightarrow> i8042_step m m'"
| write_data: "kbd_write_data m a v = Inr m' \<Longrightarrow> i8042_step m m'"
| write_command: "kbd_write_command m a v = Inr m' \<Longrightarrow> i8042_step m m'"
| key: "on_kbd (\<lambda>upd. ps2_put_keycode upd k) m = Inr m' \<Longrightarrow> i8042_step m m'"
| motion: "on_mouse (\<lambda>upd. ps2_mouse_event upd dx dy dz b) m = Inr m' \<Longrightarrow> i8042_step m m'"
| reset: "i8042_step m (i8042_reset m)"

inductive i8042_reachable :: "i8042 \<Rightarrow> bool" where
  init: "i8042_reachable i8042_init"
| step: "i8042_reachable m \<Longrightarrow> i8042_step m m' \<Longrightarrow> i8042_reachable m'"

lemma key_inv: "i8042_inv m \<Longrightarrow> \<exists>m'. on_kbd (\<lambda>upd. ps2_put_keycode upd k) m = Inr m' \<and> i8042_inv m'"
  by (rule on_kbd_inv) (auto dest: inv_devices intro: runs_keycode)

lemma motion_inv: "i8042_inv m \<Longrightarrow> \<exists>m'. on_mouse (\<lambda>upd. ps2_mouse_event upd dx dy dz b) m = Inr m' \<and> i8042_inv m'"
  by (rule on_mouse_inv) (auto dest: inv_devices intro: runs_mouse_event)

lemma i8042_step_inv: "i8042_step m m' \<Longrightarrow> i8042_inv m \<Longrightarrow> i8042_inv m'"
proof (induction rule: i8042_step.induct)
  case (read_data m a v m')
  then show ?case using read_data_inv [of m a] by auto
next
  case (write_data m a v m')
  then show ?case using write_data_inv [of m a v] by auto
next
  case (write_command m a v m')
  then show ?case using write_command_inv [of m a v] by auto
next
  case (key k m m')
  then show ?case using key_inv [of m k] by auto
next
  case (motion dx dy dz b m m')
  then show ?case using motion_inv [of m dx dy dz b] by auto
next
  case (reset m)
  then show ?case by (rule i8042_reset_inv)
qed

lemma i8042_reachable_inv: "i8042_reachable m \<Longrightarrow> i8042_inv m"
  by (induction rule: i8042_reachable.induct) (auto intro: i8042_init_inv i8042_step_inv)

text \<open>C18: In every state of the keyboard controller reached from power-on by any sequence of guest accesses, key
  strokes, mouse motions and resets, no handler accesses a queue outside its array, the output-buffer-full bit tells
  exactly that a device has data, its mouse bit that only the mouse has, and the interrupt lines agree with the
  data waiting and the mode byte.\<close>

theorem i8042_consistent:
  assumes "i8042_reachable m"
  shows "(\<exists>v m'. kbd_read_data m a = Inr (v, m')) \<and> (\<exists>m'. kbd_write_data m a x = Inr m') \<and> (\<exists>m'. kbd_write_command m a x = Inr m')
    \<and> 0 \<le> q_count (kbd m) \<and> q_count (kbd m) \<le> 256 \<and> 0 \<le> q_count (mouse m) \<and> q_count (mouse m) \<le> 256
    \<and> bit (fst (kbd_read_status m a)) 0 = (0 < q_count (kbd m) \<or> 0 < q_count (mouse m))
    \<and> bit (fst (kbd_read_status m a)) 5 = (q_count (kbd m) = 0 \<and> 0 < q_count (mouse m))
    \<and> kbd_line (kbd_events (ctl m)) = (0 < q_count (kbd m) \<and> bit (kbd_mode (ctl m)) 0 \<and> \<not> bit (kbd_mode (ctl m)) 4)
    \<and> mouse_line (kbd_events (ctl m)) = (q_count (kbd m) = 0 \<and> 0 < q_count (mouse m) \<and> bit (kbd_mode (ctl m)) 1)"
proof -
  have i: "i8042_inv m" by (rule i8042_reachable_inv [OF assms])
  then have q: "0 \<le> q_count (kbd m)" "q_count (kbd m) \<le> 256" "0 \<le> q_count (mouse m)" "q_count (mouse m) \<le> 256"
    using inv_devices [OF i] by (auto simp: ps2_ok_def)
  have st: "bit (fst (kbd_read_status m a)) n = bit (kbd_status (ctl m)) n" if "n < 8" for n
    using that by (simp add: kbd_read_status_def bit_ucast_iff)
  have c: "ctl_ok (q_count (kbd m) \<noteq> 0) (q_count (mouse m) \<noteq> 0) (ctl m)" using i by (simp add: i8042_inv_def)
  have e: "\<exists>v m'. kbd_read_data m a = Inr (v, m')" "\<exists>m'. kbd_write_data m a x = Inr m'" "\<exists>m'. kbd_write_command m a x = Inr m'"
    using read_data_inv [OF i, of a] write_data_inv [OF i, of a x] write_command_inv [OF i, of a x] by blast+
  have nz: "(q_count (kbd m) \<noteq> 0) = (0 < q_count (kbd m))" "(q_count (mouse m) \<noteq> 0) = (0 < q_count (mouse m))"
    using q by linarith+
  show ?thesis
    using c unfolding nz ctl_ok_def st [of 0, simplified] st [of 5, simplified]
    by (intro conjI e q) (use q in \<open>simp_all add: less_le conj_commute conj_left_commute\<close>)
qed

theorem i8042_consistent_witness:
  "\<exists>m. on_kbd (\<lambda>upd. ps2_put_keycode upd 0x1e) i8042_init = Inr m \<and> bit (fst (kbd_read_status m 0)) 0
    = (0 < q_count (kbd m) \<or> 0 < q_count (mouse m))"
proof -
  obtain m where m: "on_kbd (\<lambda>upd. ps2_put_keycode upd 0x1e) i8042_init = Inr m"
    using key_inv [OF i8042_init_inv] by blast
  then have "i8042_reachable m" by (auto intro: i8042_reachable.intros i8042_step.key)
  from i8042_consistent [OF this, of 0] m show ?thesis by blast
qed

text \<open>Key strokes arriving from the user interface, and the guest reading the data port a number of times.\<close>

definition type_keys :: "int list \<Rightarrow> i8042 \<Rightarrow> i8042 res" where
  "type_keys ks m = res_fold (\<lambda>k. on_kbd (\<lambda>upd. ps2_put_keycode upd k)) ks m"

fun kbd_reads :: "nat \<Rightarrow> i8042 \<Rightarrow> (u32 list \<times> i8042) res" where
  "kbd_reads 0 m = Inr ([], m)"
| "kbd_reads (Suc n) m =
     res_bind (kbd_read_data m 0x60) (\<lambda>(v, m). res_bind (kbd_reads n m) (\<lambda>(vs, m). Inr (v # vs, m)))"

lemma type_key:
  assumes "i8042_inv m" "translate (kbd m) \<noteq> 0"
  shows "\<exists>m'. on_kbd (\<lambda>upd. ps2_put_keycode upd k) m = Inr m' \<and> i8042_inv m' \<and> kbd m' = ps2_put (word_of_int k) (kbd m)"
proof -
  obtain m' where m': "on_kbd (\<lambda>upd. ps2_put_keycode upd k) m = Inr m'" "i8042_inv m'" using key_inv [OF assms(1)] by blast
  have "ps2_put_keycode kbd_update_kbd_irq k (kbd m, ctl m) = ps2_queue kbd_update_kbd_irq (word_of_int k) (kbd m, ctl m)"
    using assms(2) by (simp add: ps2_put_keycode_def)
  also have "\<dots> = Inr (ps2_put (word_of_int k) (kbd m), if q_count (kbd m) < 256 then kbd_update_kbd_irq True (ctl m) else ctl m)"
    using inv_devices [OF assms(1)] by (intro queue_ok) simp
  finally have "kbd m' = ps2_put (word_of_int k) (kbd m)" using m'(1) by (auto simp: on_kbd_def)
  with m' show ?thesis by blast
qed

lemma type_keys_ok:
  "i8042_inv m \<Longrightarrow> translate (kbd m) \<noteq> 0 \<Longrightarrow>
     \<exists>m'. type_keys ks m = Inr m' \<and> i8042_inv m' \<and> kbd m' = fold ps2_put (map word_of_int ks) (kbd m)"
proof (induction ks arbitrary: m)
  case Nil
  then show ?case by (simp add: type_keys_def)
next
  case (Cons k ks)
  obtain m1 where m1: "on_kbd (\<lambda>upd. ps2_put_keycode upd k) m = Inr m1" "i8042_inv m1" "kbd m1 = ps2_put (word_of_int k) (kbd m)"
    using type_key [OF Cons.prems] by blast
  have "translate (kbd m1) \<noteq> 0" using m1(3) Cons.prems(2) by (simp add: ps2_put_def)
  from Cons.IH [OF m1(2) this] m1 show ?case by (auto simp: type_keys_def)
qed

lemma read_key:
  assumes "i8042_inv m" "ps2_contents (kbd m) = x # xs"
  shows "\<exists>m'. kbd_read_data m a = Inr (ucast x, m') \<and> i8042_inv m' \<and> ps2_contents (kbd m') = xs"
proof -
  note o = inv_devices [OF assms(1)]
  have c: "q_count (kbd m) \<noteq> 0" using length_contents [of "kbd m"] o assms(2) by auto
  have p: "kbd_pending (ctl m) \<noteq> 2"
    using assms(1) c by (auto simp: i8042_inv_def ctl_ok_def)
  obtain v m' where r: "kbd_read_data m a = Inr (v, m')" "i8042_inv m'" using read_data_inv [OF assms(1)] by blast
  have "ps2_read_data kbd_update_kbd_irq (kbd m, ctl m) = Inr (x, snd (ps2_get (kbd m)),
      kbd_update_kbd_irq (q_count (snd (ps2_get (kbd m))) \<noteq> 0) (kbd_update_kbd_irq False (ctl m)))"
    using c o evq.get_cons [of "kbd m"] assms(2) by (auto simp: ps2_read_data_def Let_def split_beta ps2_ok_def)
  then show ?thesis using p r evq.get_cons [of "kbd m"] o assms(2) by (auto simp: kbd_read_data_def)
qed

lemma kbd_reads_ok:
  "i8042_inv m \<Longrightarrow> ps2_contents (kbd m) = xs @ ys \<Longrightarrow>
     \<exists>m'. kbd_reads (length xs) m = Inr (map ucast xs, m') \<and> i8042_inv m' \<and> ps2_contents (kbd m') = ys"
proof (induction xs arbitrary: m)
  case (Cons x xs)
  obtain m1 where m1: "kbd_read_data m 0x60 = Inr (ucast x, m1)" "i8042_inv m1" "ps2_contents (kbd m1) = xs @ ys"
    using read_key [OF Cons.prems(1), of x "xs @ ys" "0x60"] Cons.prems(2) by auto
  from Cons.IH [OF m1(2,3)] m1(1) show ?case by auto
qed simp

text \<open>C19: Keys are read in the order they were typed: from any reachable state with an empty keyboard queue and
  translation on, up to 256 key strokes are all queued, and that many reads of the data port return their codes in
  order, each once, although mouse data may be waiting at the same time; then the keyboard queue is empty again.\<close>

theorem i8042_keys_in_order:
  assumes "i8042_reachable m" "translate (kbd m) \<noteq> 0" "q_count (kbd m) = 0" "length ks \<le> 256"
  shows "\<exists>m1 m2. type_keys ks m = Inr m1 \<and> kbd_reads (length ks) m1 = Inr (map (\<lambda>k. ucast (word_of_int k :: u8)) ks, m2)
    \<and> q_count (kbd m2) = 0"
proof -
  note i = i8042_reachable_inv [OF assms(1)]
  note o = inv_devices [OF i]
  obtain m1 where m1: "type_keys ks m = Inr m1" "i8042_inv m1" "kbd m1 = fold ps2_put (map word_of_int ks) (kbd m)"
    using type_keys_ok [OF i assms(2)] by blast
  have e: "ps2_contents (kbd m) = []" using contents_nil o assms(3) by blast
  have "ps2_contents (kbd m1) = map word_of_int ks @ []"
    using evq.puts_contents [of "kbd m" "map word_of_int ks"] o e assms(4) m1(3) by simp
  from kbd_reads_ok [OF m1(2) this] obtain m2 where m2: "kbd_reads (length ks) m1 = Inr (map ucast (map word_of_int ks :: u8 list), m2)"
    "i8042_inv m2" "ps2_contents (kbd m2) = []" unfolding length_map by blast
  have "q_count (kbd m2) = 0" using m2(3) contents_nil inv_devices [OF m2(2)] by blast
  then show ?thesis using m1(1) m2(1) by (simp add: comp_def)
qed

theorem i8042_keys_in_order_witness:
  "\<exists>m0 m1 m2. kbd_write_command i8042_init 0x64 0x60 = Inr m0 \<and> (\<exists>m. kbd_write_data m0 0x60 0x41 = Inr m
     \<and> type_keys [0x1e, 0x9e] m = Inr m1 \<and> kbd_reads 2 m1 = Inr ([0x1e, 0x9e], m2))"
proof -
  obtain m0 where m0: "kbd_write_command i8042_init 0x64 0x60 = Inr m0" using write_command_inv [OF i8042_init_inv] by blast
  have r0: "i8042_reachable m0" using m0 by (auto intro: i8042_reachable.intros i8042_step.write_command)
  obtain m where m: "kbd_write_data m0 0x60 0x41 = Inr m" using write_data_inv [OF i8042_reachable_inv [OF r0]] by blast
  have r: "i8042_reachable m" using r0 m by (auto intro: i8042_reachable.intros i8042_step.write_data)
  have k0: "kbd m0 = kbd i8042_init" "kbd_write_cmd (ctl m0) = 0x60"
    using m0 by (auto simp: kbd_write_command_def upd_ctl_def)
  have "kbd m = (kbd i8042_init)\<lparr>translate := 1\<rparr>"
    using m k0 by (auto simp: kbd_write_data_def kbd_write_mode_def upd_ctl_def ps2_keyboard_set_translation_def Let_def)
  then have k: "translate (kbd m) \<noteq> 0" "q_count (kbd m) = 0"
    by (simp_all add: i8042_init_def ps2_kbd_init_def ps2_mouse_init_def ps2_reset_def ps2_kbd_zero_def)
  have two: "length [0x1e::int, 0x9e] = 2" by simp
  have w: "map (\<lambda>k. ucast (word_of_int k :: u8)) [0x1e, 0x9e] = [0x1e, 0x9e :: u32]" by simp
  obtain m1 m2 where "type_keys [0x1e, 0x9e] m = Inr m1" "kbd_reads 2 m1 = Inr ([0x1e, 0x9e], m2)"
    using i8042_keys_in_order [OF r k, of "[0x1e, 0x9e]"] unfolding two w by auto
  with m0 m show ?thesis by blast
qed

end
