(* ===== verification/Keyed_Table.thy ===== *)
theory Keyed_Table
  imports Main
begin

text \<open>
  The contract of a table whose entries are updated in place: looking up a key after an update
  of that key gives the updated entry, and the other entries are as before. The port dispatch
  tables and the memory handler tables of the device model keep this contract; what follows
  from it for updates of a whole range of keys is proved here once.
\<close>

locale keyed_table =
  fixes look :: "'s \<Rightarrow> 'k \<Rightarrow> 'v"
    and upd :: "'k \<Rightarrow> ('v \<Rightarrow> 'v) \<Rightarrow> 's \<Rightarrow> 's"
  assumes look_upd: "look (upd k f s) k' = (if k' = k then f (look s k) else look s k')"
begin

lemma look_upd_same [simp]: "look (upd k f s) k = f (look s k)"
  by (simp add: look_upd)

lemma look_upd_other [simp]: "k' \<noteq> k \<Longrightarrow> look (upd k f s) k' = look s k'"
  by (simp add: look_upd)

lemma look_fold_upd:
  "distinct ks \<Longrightarrow> look (fold (\<lambda>k. upd k f) ks s) k' = (if k' \<in> set ks then f (look s k') else look s k')"
  by (induction ks arbitrary: s) (auto simp: look_upd)

end

end
