(* ===== verification/Ioport.thy ===== *)
theory Ioport
  imports Dm_Prelude Keyed_Table
begin

text \<open>
  The I/O port dispatcher of \<^verbatim>\<open>vl.c\<close>: the two-level table of port descriptors, its lazily
  allocated pages, the default handlers, registration and the six CPU access functions.
  Function pointers are natural numbers; what they do is given by a \<open>port_code\<close>, so that a
  handler may itself change the dispatch table. An entry \<open>None\<close> of a table stands for the
  default handler of that access width (the default handlers are static functions that no
  registration passes). \<open>opaque\<close> 0 is the null pointer. A failed \<^verbatim>\<open>assert\<close> aborts.
\<close>

section \<open>State\<close>

abbreviation (input) "MAX_IOPORTS \<equiv> (65536::nat)"
abbreviation (input) "IOPORT_PAGE_ENTRIES \<equiv> (64::nat)"

record ioport_data =
  read_table :: "nat \<Rightarrow> nat option"
  write_table :: "nat \<Rightarrow> nat option"
  opaque :: nat

type_synonym ioport_page = "nat \<Rightarrow> ioport_data"

record port_bus =
  ioport_table :: "nat \<Rightarrow> ioport_page option"

record 'm port_code =
  call_port_read :: "nat \<Rightarrow> nat \<Rightarrow> u32 \<Rightarrow> 'm \<Rightarrow> (u32 \<times> 'm) res"
  call_port_write :: "nat \<Rightarrow> nat \<Rightarrow> u32 \<Rightarrow> u32 \<Rightarrow> 'm \<Rightarrow> 'm res"

definition default_ioport :: ioport_data where
  "default_ioport = \<lparr>read_table = (\<lambda>_. None), write_table = (\<lambda>_. None), opaque = 0\<rparr>"

definition ioport_create_page :: ioport_page where
  "ioport_create_page = (\<lambda>_. default_ioport)"

section \<open>Lookup\<close>

definition get_ioport :: "int \<Rightarrow> 'a port_bus_scheme \<Rightarrow> ioport_data res" where
  "get_ioport address m =
     (if 0 \<le> address \<and> address < 65536 then
        (case ioport_table m (nat address div IOPORT_PAGE_ENTRIES) of
           Some page \<Rightarrow> Inr (page (nat address mod IOPORT_PAGE_ENTRIES))
         | None \<Rightarrow> Inr default_ioport)
      else Inl Abort)"

text \<open>The descriptor behind the pointer that \<^verbatim>\<open>get_ioport_alloc\<close> returns, updated by \<open>f\<close>.\<close>

definition alloc_page :: "nat \<Rightarrow> 'a port_bus_scheme \<Rightarrow> ioport_page" where
  "alloc_page n m = (case ioport_table m n of Some page \<Rightarrow> page | None \<Rightarrow> ioport_create_page)"

definition upd_port :: "nat \<Rightarrow> (ioport_data \<Rightarrow> ioport_data) \<Rightarrow> 'a port_bus_scheme \<Rightarrow> 'a port_bus_scheme" where
  "upd_port a f m =
     (let page = alloc_page (a div IOPORT_PAGE_ENTRIES) m;
          k = a mod IOPORT_PAGE_ENTRIES
      in m\<lparr>ioport_table := (ioport_table m)(a div IOPORT_PAGE_ENTRIES := Some (page(k := f (page k))))\<rparr>)"

section \<open>Dispatch\<close>

definition default_ioport_readb :: "nat \<Rightarrow> u32 \<Rightarrow> 'm \<Rightarrow> (u32 \<times> 'm) res" where
  "default_ioport_readb op address m = Inr (0xff, m)"

definition default_ioport_writeb :: "nat \<Rightarrow> u32 \<Rightarrow> u32 \<Rightarrow> 'm \<Rightarrow> 'm res" where
  "default_ioport_writeb op address data m = Inr m"

definition ioport_read_byte ::
  "('a port_bus_scheme, 'c) port_code_scheme \<Rightarrow> u32 \<Rightarrow> 'a port_bus_scheme \<Rightarrow> (u32 \<times> 'a port_bus_scheme) res" where
  "ioport_read_byte c address m =
     res_bind (get_ioport (sint address) m) (\<lambda>port.
       (case read_table port 0 of Some fn \<Rightarrow> call_port_read c fn | None \<Rightarrow> default_ioport_readb)
         (opaque port) address m)"

definition ioport_write_byte ::
  "('a port_bus_scheme, 'c) port_code_scheme \<Rightarrow> u32 \<Rightarrow> u32 \<Rightarrow> 'a port_bus_scheme \<Rightarrow> 'a port_bus_scheme res" where
  "ioport_write_byte c address data m =
     res_bind (get_ioport (sint address) m) (\<lambda>port.
       (case write_table port 0 of Some fn \<Rightarrow> call_port_write c fn | None \<Rightarrow> default_ioport_writeb)
         (opaque port) address data m)"

definition default_ioport_readw ::
  "('a port_bus_scheme, 'c) port_code_scheme \<Rightarrow> nat \<Rightarrow> u32 \<Rightarrow> 'a port_bus_scheme \<Rightarrow> (u32 \<times> 'a port_bus_scheme) res" where
  "default_ioport_readw c op address m =
     res_bind (ioport_read_byte c address m) (\<lambda>(data, m).
     res_bind (ioport_read_byte c ((address + 1) AND 0xFFFF) m) (\<lambda>(hi, m).
       Inr (data OR push_bit 8 hi, m)))"

definition default_ioport_writew ::
  "('a port_bus_scheme, 'c) port_code_scheme \<Rightarrow> nat \<Rightarrow> u32 \<Rightarrow> u32 \<Rightarrow> 'a port_bus_scheme \<Rightarrow> 'a port_bus_scheme res" where
  "default_ioport_writew c op address data m =
     res_bind (ioport_write_byte c address (data AND 0xff) m) (\<lambda>m.
       ioport_write_byte c ((address + 1) AND 0xFFFF) (drop_bit 8 data AND 0xff) m)"

definition default_ioport_readl :: "nat \<Rightarrow> u32 \<Rightarrow> 'm \<Rightarrow> (u32 \<times> 'm) res" where
  "default_ioport_readl op address m = Inr (0xffffffff, m)"

definition default_ioport_writel :: "nat \<Rightarrow> u32 \<Rightarrow> u32 \<Rightarrow> 'm \<Rightarrow> 'm res" where
  "default_ioport_writel op address data m = Inr m"

definition default_read where
  "default_read c index = (if index = 0 then default_ioport_readb
     else if index = (1::nat) then default_ioport_readw c else default_ioport_readl)"

definition default_write where
  "default_write c index = (if index = 0 then default_ioport_writeb
     else if index = (1::nat) then default_ioport_writew c else default_ioport_writel)"

definition ioport_read ::
  "('a port_bus_scheme, 'c) port_code_scheme \<Rightarrow> nat \<Rightarrow> u32 \<Rightarrow> 'a port_bus_scheme \<Rightarrow> (u32 \<times> 'a port_bus_scheme) res" where
  "ioport_read c index address m =
     res_bind (get_ioport (sint address) m) (\<lambda>port.
       (case read_table port index of Some fn \<Rightarrow> call_port_read c fn | None \<Rightarrow> default_read c index)
         (opaque port) address m)"

definition ioport_write ::
  "('a port_bus_scheme, 'c) port_code_scheme \<Rightarrow> nat \<Rightarrow> u32 \<Rightarrow> u32 \<Rightarrow> 'a port_bus_scheme \<Rightarrow> 'a port_bus_scheme res" where
  "ioport_write c index address data m =
     res_bind (get_ioport (sint address) m) (\<lambda>port.
       (case write_table port index of Some fn \<Rightarrow> call_port_write c fn | None \<Rightarrow> default_write c index)
         (opaque port) address data m)"

definition cpu_outb where "cpu_outb c addr val m = ioport_write c 0 addr val m"
definition cpu_outw where "cpu_outw c addr val m = ioport_write c 1 addr val m"
definition cpu_outl where "cpu_outl c addr val m = ioport_write c 2 addr val m"
definition cpu_inb where "cpu_inb c addr m = ioport_read c 0 addr m"
definition cpu_inw where "cpu_inw c addr m = ioport_read c 1 addr m"
definition cpu_inl where "cpu_inl c addr m = ioport_read c 2 addr m"

section \<open>Registration\<close>

definition access_index :: "int \<Rightarrow> nat option" where
  "access_index sz = (if sz = 1 then Some 0 else if sz = 2 then Some 1 else if sz = 4 then Some 2 else None)"

text \<open>One round of the registration loops.\<close>

definition set_reader :: "nat \<Rightarrow> nat \<Rightarrow> nat \<Rightarrow> ioport_data \<Rightarrow> ioport_data" where
  "set_reader bsize fn op d = d\<lparr>read_table := (read_table d)(bsize \<mapsto> fn), opaque := op\<rparr>"

definition set_writer :: "nat \<Rightarrow> nat \<Rightarrow> nat \<Rightarrow> ioport_data \<Rightarrow> ioport_data" where
  "set_writer bsize fn op d = d\<lparr>write_table := (write_table d)(bsize \<mapsto> fn), opaque := op\<rparr>"

definition register_one ::
  "(ioport_data \<Rightarrow> ioport_data) \<Rightarrow> nat \<Rightarrow> int \<Rightarrow> 'a port_bus_scheme \<Rightarrow> 'a port_bus_scheme res" where
  "register_one f op i m =
     res_bind (get_ioport i m) (\<lambda>data.
       if opaque data \<noteq> 0 \<and> opaque data \<noteq> op then Inl (Hw_error ''register_ioport_read: invalid opaque'')
       else Inr (upd_port (nat i) f m))"

function register_loop ::
  "(ioport_data \<Rightarrow> ioport_data) \<Rightarrow> nat \<Rightarrow> int \<Rightarrow> int \<Rightarrow> int \<Rightarrow> 'a port_bus_scheme \<Rightarrow> 'a port_bus_scheme res" where
  "register_loop f op step i stop m =
     (if i < stop \<and> 0 < step
      then res_bind (register_one f op i m) (\<lambda>m. register_loop f op step (i + step) stop m)
      else Inr m)"
  by pat_completeness auto
termination
  by (relation "measure (\<lambda>(f, op, step, i, stop, m). nat (stop - i))") auto

declare register_loop.simps [simp del]

definition register_ioport_read ::
  "int \<Rightarrow> int \<Rightarrow> int \<Rightarrow> nat \<Rightarrow> nat \<Rightarrow> 'a port_bus_scheme \<Rightarrow> 'a port_bus_scheme res" where
  "register_ioport_read start len sz fn op m =
     (case access_index sz of
        None \<Rightarrow> Inl (Hw_error ''register_ioport_read: invalid size'')
      | Some bsize \<Rightarrow> register_loop (set_reader bsize fn op) op sz start (start + len) m)"

definition register_ioport_write ::
  "int \<Rightarrow> int \<Rightarrow> int \<Rightarrow> nat \<Rightarrow> nat \<Rightarrow> 'a port_bus_scheme \<Rightarrow> 'a port_bus_scheme res" where
  "register_ioport_write start len sz fn op m =
     (case access_index sz of
        None \<Rightarrow> Inl (Hw_error ''register_ioport_write: invalid size'')
      | Some bsize \<Rightarrow> register_loop (set_writer bsize fn op) op sz start (start + len) m)"

function unassign_loop :: "int \<Rightarrow> int \<Rightarrow> 'a port_bus_scheme \<Rightarrow> 'a port_bus_scheme res" where
  "unassign_loop i stop m =
     (if i < stop
      then res_bind (get_ioport i m) (\<lambda>_. unassign_loop (i + 1) stop (upd_port (nat i) (\<lambda>_. default_ioport) m))
      else Inr m)"
  by pat_completeness auto
termination
  by (relation "measure (\<lambda>(i, stop, m). nat (stop - i))") auto

declare unassign_loop.simps [simp del]

definition isa_unassign_ioport :: "int \<Rightarrow> int \<Rightarrow> 'a port_bus_scheme \<Rightarrow> 'a port_bus_scheme res" where
  "isa_unassign_ioport start len m = unassign_loop start (start + len) m"

section \<open>The table as a flat array\<close>

text \<open>The two levels and the lazy allocation are invisible: the table is an array of descriptors.\<close>

definition port_at :: "'a port_bus_scheme \<Rightarrow> nat \<Rightarrow> ioport_data" where
  "port_at m a = alloc_page (a div IOPORT_PAGE_ENTRIES) m (a mod IOPORT_PAGE_ENTRIES)"

lemma get_ioport_flat:
  "0 \<le> a \<Longrightarrow> a < 65536 \<Longrightarrow> get_ioport a m = Inr (port_at m (nat a))"
  by (simp add: get_ioport_def port_at_def alloc_page_def ioport_create_page_def split: option.split)

lemma get_ioport_bad: "\<not> (0 \<le> a \<and> a < 65536) \<Longrightarrow> get_ioport a m = Inl Abort"
  by (simp only: get_ioport_def if_False)

interpretation ports: keyed_table port_at upd_port
proof
  fix k f k' and s :: "'a port_bus_scheme"
  have "k' = k" if "k' div 64 = k div 64" "k' mod 64 = k mod (64::nat)"
    using that by (metis mult_div_mod_eq)
  then show "port_at (upd_port k f s) k' = (if k' = k then f (port_at s k) else port_at s k')"
    by (auto simp: port_at_def upd_port_def alloc_page_def Let_def)
qed

section \<open>What registration does\<close>

definition visited :: "int \<Rightarrow> int \<Rightarrow> int \<Rightarrow> nat list" where
  "visited i stop step = filter (\<lambda>a. (int a - i) mod step = 0) [nat i..<nat stop]"

lemma visited_done: "stop \<le> i \<Longrightarrow> visited i stop step = []"
  by (simp add: visited_def)

lemma visited_step:
  assumes "0 \<le> i" "i < stop" "0 < step"
  shows "visited i stop step = nat i # visited (i + step) stop step"
proof -
  let ?P = "\<lambda>a. (int a - i) mod step = 0"
  define k where "k = min (nat stop) (nat (i + step))"
  have split: "[nat i..<nat stop] = nat i # [Suc (nat i)..<k] @ [k..<nat stop]"
  proof -
    have k: "Suc (nat i) \<le> k" "k \<le> nat stop" using assms unfolding k_def by auto
    obtain d where "nat stop = k + d" using k(2) le_Suc_ex by blast
    then have "[Suc (nat i)..<nat stop] = [Suc (nat i)..<k] @ [k..<nat stop]"
      using upt_add_eq_append [OF k(1), of d] by simp
    then show ?thesis using assms by (simp add: upt_conv_Cons)
  qed
  have mid: "filter ?P [Suc (nat i)..<k] = []"
  proof -
    have "\<not> ?P a" if "a \<in> set [Suc (nat i)..<k]" for a
    proof -
      have "0 < int a - i" "int a - i < step" using that assms unfolding k_def by auto
      then show ?thesis by (simp add: mod_pos_pos_trivial)
    qed
    then show ?thesis by (simp add: filter_empty_conv)
  qed
  have shift: "filter ?P [k..<nat stop] = visited (i + step) stop step"
  proof -
    have "(int a - (i + step)) mod step = (int a - i) mod step" for a
      using minus_mod_self2 [of "int a - i" step] by (simp add: algebra_simps)
    then have "visited (i + step) stop step = filter ?P [nat (i + step)..<nat stop]"
      by (simp add: visited_def)
    moreover have "[k..<nat stop] = [nat (i + step)..<nat stop]" by (simp add: k_def min_def)
    ultimately show ?thesis by simp
  qed
  show ?thesis unfolding visited_def [of i] split using mid shift assms(1) by simp
qed

lemma visited_facts:
  "distinct (visited i stop step)"
  "0 \<le> i \<Longrightarrow> a \<in> set (visited i stop step) \<longleftrightarrow> i \<le> int a \<and> int a < stop \<and> (int a - i) mod step = 0"
  by (auto simp: visited_def)

lemma register_loop_ok:
  assumes "0 \<le> i" "stop \<le> 65536" "0 < step" "\<And>d. opaque (f d) = op"
    and "\<forall>a \<in> set (visited i stop step). opaque (port_at m a) = 0 \<or> opaque (port_at m a) = op"
  shows "register_loop f op step i stop m = Inr (fold (\<lambda>a. upd_port a f) (visited i stop step) m)"
  using assms
proof (induction f op step i stop m rule: register_loop.induct)
  case (1 f op step i stop m)
  show ?case
  proof (cases "i < stop")
    case False
    then show ?thesis by (simp add: visited_done register_loop.simps)
  next
    case True
    note v = visited_step [OF 1(2) True 1(4)]
    have "register_one f op i m = Inr (upd_port (nat i) f m)"
      using 1 True v by (auto simp: register_one_def get_ioport_flat)
    moreover have "\<forall>a \<in> set (visited (i + step) stop step).
        opaque (port_at (upd_port (nat i) f m) a) = 0 \<or> opaque (port_at (upd_port (nat i) f m) a) = op"
      using 1(5,6) v by (simp add: ports.look_upd)
    ultimately show ?thesis using 1 True v by (subst register_loop.simps) simp
  qed
qed

lemma register_loop_conflict:
  assumes "0 \<le> i" "stop \<le> 65536" "0 < step" "\<And>d. opaque (f d) = op" "op \<noteq> 0"
    and "\<exists>a \<in> set (visited i stop step). opaque (port_at m a) \<noteq> 0 \<and> opaque (port_at m a) \<noteq> op"
  shows "register_loop f op step i stop m = Inl (Hw_error ''register_ioport_read: invalid opaque'')"
  using assms
proof (induction f op step i stop m rule: register_loop.induct)
  case (1 f op step i stop m)
  have lt: "i < stop"
  proof (rule ccontr)
    assume "\<not> i < stop"
    then have "visited i stop step = []" by (simp add: visited_done)
    with 1(7) show False by simp
  qed
  note v = visited_step [OF 1(2) lt 1(4)]
  have one: "register_one f op i m = (if opaque (port_at m (nat i)) \<noteq> 0 \<and> opaque (port_at m (nat i)) \<noteq> op
      then Inl (Hw_error ''register_ioport_read: invalid opaque'') else Inr (upd_port (nat i) f m))"
    using 1(2,3) lt by (simp add: register_one_def get_ioport_flat)
  have "\<exists>a \<in> set (visited (i + step) stop step).
      opaque (port_at (upd_port (nat i) f m) a) \<noteq> 0 \<and> opaque (port_at (upd_port (nat i) f m) a) \<noteq> op"
    if "\<not> (opaque (port_at m (nat i)) \<noteq> 0 \<and> opaque (port_at m (nat i)) \<noteq> op)"
  proof -
    from 1(7) v that obtain a where a: "a \<in> set (visited (i + step) stop step)" "opaque (port_at m a) \<noteq> 0"
      "opaque (port_at m a) \<noteq> op" by auto
    moreover have "a \<noteq> nat i" using visited_facts(1) [of i stop step] v a(1) by auto
    ultimately show ?thesis by (intro bexI [of _ a]) (simp_all add: ports.look_upd)
  qed
  then show ?case using 1 lt one by (subst register_loop.simps) auto
qed

lemma unassign_loop_ok:
  "0 \<le> i \<Longrightarrow> stop \<le> 65536 \<Longrightarrow>
     unassign_loop i stop m = Inr (fold (\<lambda>a. upd_port a (\<lambda>_. default_ioport)) [nat i..<nat stop] m)"
proof (induction i stop m rule: unassign_loop.induct)
  case (1 i stop m)
  show ?case
  proof (cases "i < stop")
    case True
    have "[nat i..<nat stop] = nat i # [nat (i + 1)..<nat stop]"
      using True 1(2) upt_conv_Cons [of "nat i" "nat stop"] by (simp add: nat_add_distrib)
    then show ?thesis using 1 True
      by (subst unassign_loop.simps) (auto simp: get_ioport_flat)
  qed (simp add: unassign_loop.simps)
qed

lemma access_index_pos: "access_index sz = Some k \<Longrightarrow> 0 < sz"
  by (auto simp: access_index_def split: if_splits)

lemma get_ioport_u32: "unat (a::u32) < 65536 \<Longrightarrow> get_ioport (sint a) m = Inr (port_at m (unat a))"
proof -
  assume a: "unat a < 65536"
  then have "uint a < 65536" using uint_nat [of a] by linarith
  moreover have "signed_take_bit 31 (uint a) = uint a"
    using \<open>uint a < 65536\<close> order_trans [OF _ uint_ge_0, of "- (2 ^ 31)" a]
    by (intro signed_take_bit_int_eq_self) simp_all
  then have "sint a = uint a" by (simp add: sint_uint)
  ultimately show ?thesis using get_ioport_flat [of "uint a" m] by simp
qed

lemma port_at_read:
  "unat a < 65536 \<Longrightarrow> ioport_read c k a m =
     (case read_table (port_at m (unat a)) k of Some fn \<Rightarrow> call_port_read c fn | None \<Rightarrow> default_read c k)
       (opaque (port_at m (unat a))) a m"
  by (simp add: ioport_read_def get_ioport_u32)

lemma port_at_write:
  "unat a < 65536 \<Longrightarrow> ioport_write c k a v m =
     (case write_table (port_at m (unat a)) k of Some fn \<Rightarrow> call_port_write c fn | None \<Rightarrow> default_write c k)
       (opaque (port_at m (unat a))) a v m"
  by (simp add: ioport_write_def get_ioport_u32)

lemma ioport_read_byte_0: "ioport_read_byte c a m = ioport_read c 0 a m"
  by (simp add: ioport_read_byte_def ioport_read_def default_read_def cong: option.case_cong)

lemma ioport_write_byte_0: "ioport_write_byte c a v m = ioport_write c 0 a v m"
  by (simp add: ioport_write_byte_def ioport_write_def default_write_def cong: option.case_cong)

section \<open>Properties\<close>

text \<open>Registration and dispatch: registering a read handler for an access width over a range of ports
  succeeds when no port of the range belongs to another device; from then on an access of that
  width to a registered port calls the handler with its opaque pointer, and the descriptors of all
  other ports are unchanged. Only every \<open>sz\<close>-th port of the range is registered.\<close>

theorem ioport_register_read_dispatch:
  assumes "access_index sz = Some k" "0 \<le> start" "start + len \<le> 65536"
    and "\<forall>a \<in> set (visited start (start + len) sz). opaque (port_at m a) = 0 \<or> opaque (port_at m a) = op"
  shows "\<exists>m'. register_ioport_read start len sz fn op m = Inr m' \<and>
    (\<forall>a. if start \<le> uint a \<and> uint a < start + len \<and> (uint a - start) mod sz = 0
         then ioport_read c k a m' = call_port_read c fn op a m'
         else port_at m' (unat a) = port_at m (unat a))"
proof -
  let ?ks = "visited start (start + len) sz"
  let ?m = "fold (\<lambda>a. upd_port a (set_reader k fn op)) ?ks m"
  have ok: "register_ioport_read start len sz fn op m = Inr ?m"
    using register_loop_ok [of start "start + len" sz "set_reader k fn op" op m] assms
      access_index_pos [OF assms(1)] by (simp add: register_ioport_read_def set_reader_def)
  have look: "port_at ?m a = (if a \<in> set ?ks then set_reader k fn op (port_at m a) else port_at m a)" for a
    by (rule ports.look_fold_upd [OF visited_facts(1)])
  have mem: "unat (a::u32) \<in> set ?ks \<longleftrightarrow> start \<le> uint a \<and> uint a < start + len \<and> (uint a - start) mod sz = 0" for a
    using visited_facts(2) [OF assms(2), of "unat a"] by simp
  have "ioport_read c k a ?m = call_port_read c fn op a ?m" if "unat a \<in> set ?ks" for a
  proof -
    have "unat a < 65536" using that mem [of a] assms(3) uint_nat [of a] by linarith
    then show ?thesis using look [of "unat a"] that by (simp add: port_at_read set_reader_def)
  qed
  then have "\<forall>a. if start \<le> uint a \<and> uint a < start + len \<and> (uint a - start) mod sz = 0
      then ioport_read c k a ?m = call_port_read c fn op a ?m else port_at ?m (unat a) = port_at m (unat a)"
    unfolding mem [symmetric] by (simp add: look)
  with ok show ?thesis by blast
qed

definition empty_bus :: port_bus where
  "empty_bus = \<lparr>ioport_table = (\<lambda>_. None)\<rparr>"

lemma port_at_empty [simp]: "port_at empty_bus a = default_ioport"
  by (simp add: port_at_def alloc_page_def empty_bus_def ioport_create_page_def)

lemma default_ioport_fields [simp]:
  "opaque default_ioport = 0" "read_table default_ioport k = None" "write_table default_ioport k = None"
  by (simp_all add: default_ioport_def)

definition echo_code :: "port_bus port_code" where
  "echo_code = \<lparr>call_port_read = (\<lambda>fn op a m. Inr (of_nat fn, m)), call_port_write = (\<lambda>fn op a v m. Inr m)\<rparr>"

theorem ioport_register_read_dispatch_witness:
  "\<exists>m'. register_ioport_read 0x3f8 8 1 7 42 empty_bus = Inr m' \<and>
    (\<forall>a. if 0x3f8 \<le> uint a \<and> uint a < 0x3f8 + 8 \<and> (uint a - 0x3f8) mod 1 = 0
         then ioport_read echo_code 0 a m' = Inr (7, m')
         else port_at m' (unat a) = default_ioport)"
proof -
  have e: "call_port_read echo_code 7 42 a m = Inr (7, m)" for a m by (simp add: echo_code_def)
  show ?thesis
    using ioport_register_read_dispatch [of 1 0 "0x3f8" 8 empty_bus 42 7 echo_code] unfolding e port_at_empty
    by (simp add: access_index_def)
qed

text \<open>A port belongs to one device: registering a handler with an opaque pointer over a range that
  contains a port owned by another device ends the process with a hardware error, whatever the
  access width, so that no port is ever silently taken over.\<close>

theorem ioport_register_conflict:
  assumes "access_index sz = Some k" "0 \<le> start" "start + len \<le> 65536" "op \<noteq> 0"
    and "\<exists>a \<in> set (visited start (start + len) sz). opaque (port_at m a) \<noteq> 0 \<and> opaque (port_at m a) \<noteq> op"
  shows "register_ioport_read start len sz fn op m = Inl (Hw_error ''register_ioport_read: invalid opaque'')
    \<and> register_ioport_write start len sz fn op m = Inl (Hw_error ''register_ioport_read: invalid opaque'')"
proof -
  have "register_loop f op sz start (start + len) m = Inl (Hw_error ''register_ioport_read: invalid opaque'')"
    if "\<And>d. opaque (f d) = op" for f
    by (rule register_loop_conflict [OF assms(2,3) access_index_pos [OF assms(1)] that assms(4,5)])
  from this [of "set_reader k fn op"] this [of "set_writer k fn op"] assms(1) show ?thesis
    by (simp add: register_ioport_read_def register_ioport_write_def set_reader_def set_writer_def)
qed

theorem ioport_register_conflict_witness:
  "register_ioport_write 0x60 1 1 9 43 (upd_port 0x60 (\<lambda>d. d\<lparr>opaque := 42\<rparr>) empty_bus)
     = Inl (Hw_error ''register_ioport_read: invalid opaque'')"
proof -
  have "visited 0x60 (0x60 + 1) 1 = [0x60]" by (simp add: visited_def upt_rec)
  then show ?thesis
    using ioport_register_conflict [of 1 0 "0x60" 1 43 "upd_port 0x60 (\<lambda>d. d\<lparr>opaque := 42\<rparr>) empty_bus" 9]
    by (simp add: access_index_def ports.look_upd)
qed

text \<open>Unassigned ports float high: after a range has been unassigned, a byte or dword read of any port in
  the range returns all ones, a word read of two adjacent ports of the range returns all ones, a
  byte, word or dword write has no effect, and the ports outside the range keep their handlers.\<close>

theorem ioport_unassigned_floats:
  assumes "0 \<le> start" "start + len \<le> 65536"
  shows "\<exists>m'. isa_unassign_ioport start len m = Inr m' \<and>
    (\<forall>a::u32. \<not> (start \<le> uint a \<and> uint a < start + len) \<longrightarrow> port_at m' (unat a) = port_at m (unat a)) \<and>
    (\<forall>a. start \<le> uint a \<and> uint a < start + len \<longrightarrow>
       cpu_inb c a m' = Inr (0xff, m') \<and> cpu_inl c a m' = Inr (0xffffffff, m')
       \<and> cpu_outb c a v m' = Inr m' \<and> cpu_outl c a v m' = Inr m'
       \<and> (uint a + 1 < start + len \<longrightarrow> cpu_inw c a m' = Inr (0xffff, m') \<and> cpu_outw c a v m' = Inr m'))"
proof -
  let ?m = "fold (\<lambda>a. upd_port a (\<lambda>_. default_ioport)) [nat start..<nat (start + len)] m"
  have ok: "isa_unassign_ioport start len m = Inr ?m"
    using assms by (simp add: isa_unassign_ioport_def unassign_loop_ok)
  have look: "port_at ?m (unat a) = (if start \<le> uint a \<and> uint a < start + len then default_ioport else port_at m (unat a))"
    for a :: u32
    using ports.look_fold_upd [OF distinct_upt [of "nat start" "nat (start + len)"], of "\<lambda>_. default_ioport" m "unat a"]
    by (simp only: set_upt atLeastLessThan_iff nat_le_iff zless_nat_eq_int_zless uint_nat)
  have small: "unat a < 65536" if "uint a < start + len" for a :: u32
    using that assms(2) uint_nat [of a] by linarith
  have byte: "ioport_read c 0 a ?m = Inr (0xff, ?m)" "ioport_read c 2 a ?m = Inr (0xffffffff, ?m)"
    "ioport_write c 0 a w ?m = Inr ?m" "ioport_write c 2 a w ?m = Inr ?m"
    if "start \<le> uint a" "uint a < start + len" for a w
    using that by (simp_all add: port_at_read port_at_write small look default_read_def default_write_def
        default_ioport_readb_def default_ioport_readl_def default_ioport_writeb_def default_ioport_writel_def)
  have next_port: "uint ((a + 1) AND 0xFFFF) = uint a + 1" if "uint a + 1 < start + len" for a :: u32
  proof -
    have lt: "uint a + 1 < 65536" using that assms(2) by simp
    then have "uint (a + 1) = uint a + 1" by (simp add: uint_word_ariths(1))
    then show ?thesis using lt by (simp add: and_low_bits unsigned_take_bit_eq take_bit_int_eq_self)
  qed
  have word: "ioport_read c 1 a ?m = Inr (0xffff, ?m)" "ioport_write c 1 a w ?m = Inr ?m"
    if "start \<le> uint a" "uint a + 1 < start + len" for a w
    using that byte next_port by (simp_all add: port_at_read port_at_write small look default_read_def
        default_write_def default_ioport_readw_def default_ioport_writew_def ioport_read_byte_0 ioport_write_byte_0)
  define m' where "m' = ?m"
  show ?thesis
    using ok look byte word unfolding m'_def [symmetric]
    by (auto simp: cpu_inb_def cpu_inl_def cpu_inw_def cpu_outb_def cpu_outl_def cpu_outw_def)
qed

theorem ioport_unassigned_floats_witness:
  "\<exists>m'. isa_unassign_ioport 0x60 5 empty_bus = Inr m' \<and> cpu_inw echo_code 0x60 m' = Inr (0xffff, m')"
proof -
  obtain m' where m: "isa_unassign_ioport 0x60 5 empty_bus = Inr m'"
    "\<forall>a. 0x60 \<le> uint a \<and> uint a < 0x60 + 5 \<longrightarrow>
       (uint a + 1 < 0x60 + 5 \<longrightarrow> cpu_inw echo_code a m' = Inr (0xffff, m'))"
    using ioport_unassigned_floats [of "0x60" 5 empty_bus echo_code 0] by auto
  then show ?thesis using m(2) [THEN spec, of "0x60"] by simp
qed

end
