(* ===== verification/Phys_Mem.thy ===== *)
theory Phys_Mem
  imports Ioport
begin

text \<open>
  Guest physical memory of \<^verbatim>\<open>i386-dm/exec-dm.c\<close>: the table of memory-mapped regions, the table of
  device handlers behind them, and \<^verbatim>\<open>cpu_physical_memory_rw\<close>, which splits a transfer at page
  boundaries and into naturally aligned device accesses. Guest RAM is a byte per address; \<open>ram_page\<close>
  tells for which page frames the map cache (\<^verbatim>\<open>phys_ram_addr\<close>) has a host pointer. Handler tables
  hold function pointers (natural numbers, \<open>None\<close> for null) whose behaviour a \<open>mem_code\<close> gives.
  \<^verbatim>\<open>xc_hvm_modified_memory\<close> calls are recorded in \<open>modified\<close>. The host is little-endian.
\<close>

section \<open>State\<close>

abbreviation (input) "MAX_MMIO \<equiv> (1024::nat)"
abbreviation (input) "IO_MEM_NB_ENTRIES \<equiv> (512::nat)"
abbreviation (input) "IO_MEM_SHIFT \<equiv> (3::nat)"
abbreviation (input) "TARGET_PAGE_BITS \<equiv> (12::nat)"
abbreviation (input) "TARGET_PAGE_SIZE \<equiv> (4096::nat)"

record mmio_space =
  ms_start :: u64
  ms_size :: u64
  ms_io_index :: u64

record mem_bus = port_bus +
  mmio :: "mmio_space list"
  io_mem_read :: "nat \<Rightarrow> nat \<Rightarrow> nat option"
  io_mem_write :: "nat \<Rightarrow> nat \<Rightarrow> nat option"
  io_mem_opaque :: "nat \<Rightarrow> nat"
  io_mem_used :: "nat \<Rightarrow> bool"
  ram :: "u64 \<Rightarrow> u8"
  ram_page :: "u64 \<Rightarrow> bool"
  xen_logdirty_enable :: bool
  modified :: "(u64 \<times> u64) list"

record 'm mem_code = "'m port_code" +
  call_mem_read :: "nat \<Rightarrow> nat \<Rightarrow> u64 \<Rightarrow> 'm \<Rightarrow> (u32 \<times> 'm) res"
  call_mem_write :: "nat \<Rightarrow> nat \<Rightarrow> u64 \<Rightarrow> u32 \<Rightarrow> 'm \<Rightarrow> 'm res"

section \<open>Region and handler tables\<close>

text \<open>The index of the first element a C search loop stops at, or the length.\<close>

fun first_index :: "('a \<Rightarrow> bool) \<Rightarrow> 'a list \<Rightarrow> nat" where
  "first_index P [] = 0"
| "first_index P (x # xs) = (if P x then 0 else Suc (first_index P xs))"

definition cpu_register_physical_memory ::
  "u64 \<Rightarrow> u64 \<Rightarrow> u64 \<Rightarrow> 'a mem_bus_scheme \<Rightarrow> 'a mem_bus_scheme res" where
  "cpu_register_physical_memory start_addr sz phys_offset m =
     (let i = first_index (\<lambda>r. ms_start r = start_addr) (mmio m) in
      if i < length (mmio m) then
        Inr (m\<lparr>mmio := (mmio m)[i := (mmio m ! i)\<lparr>ms_io_index := phys_offset, ms_size := sz\<rparr>]\<rparr>)
      else if length (mmio m) = MAX_MMIO then Inl (Exit (-1))
      else Inr (m\<lparr>mmio := mmio m @ [\<lparr>ms_start = start_addr, ms_size = sz, ms_io_index = phys_offset\<rparr>]\<rparr>))"

definition get_free_io_mem_idx :: "'a mem_bus_scheme \<Rightarrow> int \<times> 'a mem_bus_scheme" where
  "get_free_io_mem_idx m =
     (case find (\<lambda>i. \<not> io_mem_used m i) [1..<IO_MEM_NB_ENTRIES] of
        Some i \<Rightarrow> (int i, m\<lparr>io_mem_used := (io_mem_used m)(i := True)\<rparr>)
      | None \<Rightarrow> (-1, m))"

text \<open>The three entries (byte, word, dword) of a handler row.\<close>

definition set_row :: "nat \<Rightarrow> (nat \<Rightarrow> nat option) \<Rightarrow> (nat \<Rightarrow> nat \<Rightarrow> nat option) \<Rightarrow> nat \<Rightarrow> nat \<Rightarrow> nat option" where
  "set_row i fns t = t(i := (\<lambda>k. if k < 3 then fns k else t i k))"

definition install_io_memory ::
  "int \<Rightarrow> (nat \<Rightarrow> nat option) \<Rightarrow> (nat \<Rightarrow> nat option) \<Rightarrow> nat \<Rightarrow> 'a mem_bus_scheme \<Rightarrow> 'a mem_bus_scheme" where
  "install_io_memory io_index rd wr op m =
     m\<lparr>io_mem_read := set_row (nat io_index) rd (io_mem_read m),
       io_mem_write := set_row (nat io_index) wr (io_mem_write m),
       io_mem_opaque := (io_mem_opaque m)(nat io_index := op)\<rparr>"

definition cpu_register_io_memory ::
  "int \<Rightarrow> (nat \<Rightarrow> nat option) \<Rightarrow> (nat \<Rightarrow> nat option) \<Rightarrow> nat \<Rightarrow> 'a mem_bus_scheme \<Rightarrow> int \<times> 'a mem_bus_scheme" where
  "cpu_register_io_memory io_index rd wr op m =
     (if io_index \<le> 0 then
        (let (i, m1) = get_free_io_mem_idx m in
         if i = -1 then (i, m1) else (i * 8, install_io_memory i rd wr op m1))
      else if io_index \<ge> int IO_MEM_NB_ENTRIES then (-1, m)
      else (io_index * 8, install_io_memory io_index rd wr op m))"

definition cpu_unregister_io_memory :: "int \<Rightarrow> 'a mem_bus_scheme \<Rightarrow> 'a mem_bus_scheme" where
  "cpu_unregister_io_memory io_table_address m =
     (let io_index = io_table_address div 8;
          i = first_index (\<lambda>r. ms_io_index r = word_of_int io_index) (mmio m);
          m1 = (if i < length (mmio m)
                then m\<lparr>mmio := (mmio m)[i := (mmio m ! i)\<lparr>ms_start := 0, ms_size := 0\<rparr>]\<rparr> else m);
          m2 = install_io_memory io_index (\<lambda>_. None) (\<lambda>_. None) 0 m1
      in m2\<lparr>io_mem_used := (io_mem_used m2)(nat io_index := False)\<rparr>)"

definition iomem_index :: "u64 \<Rightarrow> 'a mem_bus_scheme \<Rightarrow> nat" where
  "iomem_index addr m =
     (case find (\<lambda>r. addr - ms_start r < ms_size r) (mmio m) of
        Some r \<Rightarrow> unat (drop_bit IO_MEM_SHIFT (ms_io_index r) AND 511)
      | None \<Rightarrow> 0)"

definition unregister_iomem :: "u64 \<Rightarrow> 'a mem_bus_scheme \<Rightarrow> 'a mem_bus_scheme" where
  "unregister_iomem start m =
     (let i = first_index (\<lambda>r. ms_start r = start) (mmio m) in
      if i < length (mmio m) then m\<lparr>mmio := (mmio m)[i := (mmio m ! i)\<lparr>ms_size := 0\<rparr>]\<rparr> else m)"

section \<open>Transfers\<close>

text \<open>Little-endian load and store of the low bytes of a value.\<close>

primrec le_load :: "u8 list \<Rightarrow> u64" where
  "le_load [] = 0"
| "le_load (b # bs) = ucast b OR push_bit 8 (le_load bs)"

primrec le_store :: "nat \<Rightarrow> u64 \<Rightarrow> u8 list" where
  "le_store 0 v = []"
| "le_store (Suc n) v = ucast v # le_store n (drop_bit 8 v)"

definition ram_write :: "u64 \<Rightarrow> u8 list \<Rightarrow> (u64 \<Rightarrow> u8) \<Rightarrow> u64 \<Rightarrow> u8" where
  "ram_write a bs r = (\<lambda>x. if unat (x - a) < length bs then bs ! unat (x - a) else r x)"

definition ram_read :: "u64 \<Rightarrow> nat \<Rightarrow> (u64 \<Rightarrow> u8) \<Rightarrow> u8 list" where
  "ram_read a n r = map (\<lambda>k. r (a + of_nat k)) [0..<n]"

text \<open>How much can be copied before the next page boundary; the width of the next device access.\<close>

definition page_left :: "u64 \<Rightarrow> nat \<Rightarrow> nat" where
  "page_left addr len = min (TARGET_PAGE_SIZE - unat (addr AND 0xfff)) len"

definition io_width :: "u64 \<Rightarrow> nat \<Rightarrow> nat" where
  "io_width addr l = (if l \<ge> 4 \<and> addr AND 3 = 0 then 4 else if l \<ge> 2 \<and> addr AND 1 = 0 then 2 else 1)"

definition io_slot :: "nat \<Rightarrow> nat" where
  "io_slot w = (if w = 4 then 2 else if w = 2 then 1 else 0)"

definition log_dirty :: "u64 \<Rightarrow> nat \<Rightarrow> 'a mem_bus_scheme \<Rightarrow> 'a mem_bus_scheme" where
  "log_dirty addr l m =
     (if xen_logdirty_enable m then
        m\<lparr>modified := modified m @ [(drop_bit TARGET_PAGE_BITS addr,
            drop_bit TARGET_PAGE_BITS (addr + of_nat l + 4096 - 1) - drop_bit TARGET_PAGE_BITS addr)]\<rparr>
      else m)"

definition mem_write_chunk ::
  "('a mem_bus_scheme, 'c) mem_code_scheme \<Rightarrow> u64 \<Rightarrow> u8 list \<Rightarrow> 'a mem_bus_scheme \<Rightarrow> (nat \<times> 'a mem_bus_scheme) res" where
  "mem_write_chunk c addr buf m =
     (let l = page_left addr (length buf); io_index = iomem_index addr m in
      if io_index \<noteq> 0 then
        (let w = io_width addr l in
         case io_mem_write m io_index (io_slot w) of
           None \<Rightarrow> Inl Bad_access
         | Some fn \<Rightarrow>
             res_bind (call_mem_write c fn (io_mem_opaque m io_index) addr (ucast (le_load (take w buf))) m)
               (\<lambda>m1. Inr (w, m1)))
      else if ram_page m (drop_bit TARGET_PAGE_BITS addr) then
        Inr (l, log_dirty addr l (m\<lparr>ram := ram_write addr (take l buf) (ram m)\<rparr>))
      else Inr (l, m))"

text \<open>
  On unmapped addresses the C code fills the whole rest of the buffer with \<open>0xff\<close>; every later
  round of the loop overwrites its own part again, so a round contributes its \<open>l\<close> bytes.
\<close>

definition mem_read_chunk ::
  "('a mem_bus_scheme, 'c) mem_code_scheme \<Rightarrow> u64 \<Rightarrow> nat \<Rightarrow> 'a mem_bus_scheme \<Rightarrow> (u8 list \<times> 'a mem_bus_scheme) res" where
  "mem_read_chunk c addr len m =
     (let l = page_left addr len; io_index = iomem_index addr m in
      if io_index \<noteq> 0 then
        (let w = io_width addr l in
         case io_mem_read m io_index (io_slot w) of
           None \<Rightarrow> Inl Bad_access
         | Some fn \<Rightarrow>
             res_bind (call_mem_read c fn (io_mem_opaque m io_index) addr m)
               (\<lambda>(v, m1). Inr (le_store w (ucast v), m1)))
      else if ram_page m (drop_bit TARGET_PAGE_BITS addr) then Inr (ram_read addr l (ram m), m)
      else Inr (replicate l 0xff, m))"

lemma page_left_pos: "0 < len \<Longrightarrow> 0 < page_left addr len"
proof -
  have "unat (addr AND 0xfff) \<le> 0xfff" using unat_and_le [of addr "0xfff"] by simp
  then show "0 < len \<Longrightarrow> 0 < page_left addr len" by (simp add: page_left_def)
qed

lemma page_left_le: "page_left addr len \<le> len"
  by (simp add: page_left_def)

lemma io_width_bounds: "0 < l \<Longrightarrow> 0 < io_width addr l \<and> io_width addr l \<le> l"
  by (auto simp: io_width_def)

lemma write_chunk_progress:
  "buf \<noteq> [] \<Longrightarrow> mem_write_chunk c addr buf m = Inr (n, m1) \<Longrightarrow> 0 < n \<and> n \<le> length buf"
  using page_left_pos [of "length buf" addr] page_left_le [of addr "length buf"]
    io_width_bounds [of "page_left addr (length buf)" addr]
  by (fastforce simp: mem_write_chunk_def Let_def res_bind_Inr_iff split: if_splits option.splits)

lemma length_le_store [simp]: "length (le_store n v) = n"
  by (induction n arbitrary: v) auto

lemma length_ram_read [simp]: "length (ram_read a n r) = n"
  by (simp add: ram_read_def)

lemma read_chunk_progress:
  assumes "0 < len" "mem_read_chunk c addr len m = Inr (bs, m1)"
  shows "0 < length bs \<and> length bs \<le> len"
proof -
  have "length bs = page_left addr len \<or> length bs = io_width addr (page_left addr len)"
    using assms(2) by (auto simp: mem_read_chunk_def Let_def res_bind_Inr_iff split: if_splits option.splits)
  then show ?thesis
    using page_left_pos [OF assms(1), of addr] page_left_le [of addr len]
      io_width_bounds [of "page_left addr len" addr] by auto
qed

function mem_write_loop ::
  "('a mem_bus_scheme, 'c) mem_code_scheme \<Rightarrow> u64 \<Rightarrow> u8 list \<Rightarrow> 'a mem_bus_scheme \<Rightarrow> 'a mem_bus_scheme res" where
  "mem_write_loop c addr buf m =
     (if buf = [] then Inr m
      else (case mem_write_chunk c addr buf m of
              Inl e \<Rightarrow> Inl e
            | Inr r \<Rightarrow> mem_write_loop c (addr + of_nat (fst r)) (drop (fst r) buf) (snd r)))"
  by pat_completeness auto
termination
proof (relation "measure (\<lambda>(c, addr, buf, m). length buf)")
  fix c :: "('a mem_bus_scheme, 'c) mem_code_scheme" and addr buf and m :: "'a mem_bus_scheme" and r
  assume "buf \<noteq> []" "mem_write_chunk c addr buf m = Inr r"
  then show "((c, addr + of_nat (fst r), drop (fst r) buf, snd r), (c, addr, buf, m))
      \<in> measure (\<lambda>(c, addr, buf, m). length buf)"
    using write_chunk_progress [of buf c addr m "fst r" "snd r"] by simp
qed simp

function mem_read_loop ::
  "('a mem_bus_scheme, 'c) mem_code_scheme \<Rightarrow> u64 \<Rightarrow> nat \<Rightarrow> 'a mem_bus_scheme \<Rightarrow> (u8 list \<times> 'a mem_bus_scheme) res" where
  "mem_read_loop c addr len m =
     (if len = 0 then Inr ([], m)
      else (case mem_read_chunk c addr len m of
              Inl e \<Rightarrow> Inl e
            | Inr r \<Rightarrow> res_bind (mem_read_loop c (addr + of_nat (length (fst r))) (len - length (fst r)) (snd r))
                (\<lambda>(bs, m2). Inr (fst r @ bs, m2))))"
  by pat_completeness auto
termination
proof (relation "measure (\<lambda>(c, addr, len, m). len)")
  fix c :: "('a mem_bus_scheme, 'c) mem_code_scheme" and addr and len :: nat and m :: "'a mem_bus_scheme" and r
  assume "len \<noteq> 0" "mem_read_chunk c addr len m = Inr r"
  then show "((c, addr + of_nat (length (fst r)), len - length (fst r), snd r), (c, addr, len, m))
      \<in> measure (\<lambda>(c, addr, len, m). len)"
    using read_chunk_progress [of len c addr m "fst r" "snd r"] by simp
qed simp

declare mem_write_loop.simps [simp del] mem_read_loop.simps [simp del]

text \<open>
  \<open>buf\<close> is the caller's buffer. A read replaces its first \<open>len\<close> bytes; a transfer longer than the
  buffer runs past the caller's object. A negative length transfers nothing.
\<close>

definition cpu_physical_memory_rw ::
  "('a mem_bus_scheme, 'c) mem_code_scheme \<Rightarrow> u64 \<Rightarrow> u8 list \<Rightarrow> int \<Rightarrow> bool \<Rightarrow> 'a mem_bus_scheme
     \<Rightarrow> (u8 list \<times> 'a mem_bus_scheme) res" where
  "cpu_physical_memory_rw c addr buf len is_write m =
     (if len > int (length buf) then Inl Bad_access
      else if is_write then
        res_bind (mem_write_loop c addr (take (nat len) buf) m) (\<lambda>m1. Inr (buf, m1))
      else
        res_bind (mem_read_loop c addr (nat len) m) (\<lambda>(bs, m1). Inr (bs @ drop (nat len) buf, m1)))"

section \<open>Typed accessors\<close>

definition ld_phys where
  "ld_phys n c addr m =
     res_bind (cpu_physical_memory_rw c addr (replicate n 0) (int n) False m) (\<lambda>(bs, m1). Inr (le_load bs, m1))"

definition st_phys where
  "st_phys n c addr v m =
     res_bind (cpu_physical_memory_rw c addr (le_store n v) (int n) True m) (\<lambda>(bs, m1). Inr m1)"

definition ldub_phys where "ldub_phys c addr m = ld_phys 1 c addr m"
definition lduw_phys where "lduw_phys c addr m = ld_phys 2 c addr m"
definition ldl_phys where "ldl_phys c addr m = ld_phys 4 c addr m"
definition ldq_phys where "ldq_phys c addr m = ld_phys 8 c addr m"
definition stb_phys where "stb_phys c addr v m = st_phys 1 c addr v m"
definition stw_phys where "stw_phys c addr v m = st_phys 2 c addr v m"
definition stl_phys where "stl_phys c addr v m = st_phys 4 c addr v m"
definition stq_phys where "stq_phys c addr v m = st_phys 8 c addr v m"

section \<open>Flat memory\<close>

lemma ram_write_append:
  assumes "length xs + length ys \<le> 2 ^ 64"
  shows "ram_write (a + of_nat (length xs)) ys (ram_write a xs r) = ram_write a (xs @ ys) r"
proof
  fix x :: u64
  let ?n = "length xs" and ?d = "x - a"
  show "ram_write (a + of_nat ?n) ys (ram_write a xs r) x = ram_write a (xs @ ys) r x"
  proof (cases "ys = []")
    case True
    then show ?thesis by (simp add: ram_write_def)
  next
    case False
    then have n: "?n < 2 ^ 64" using assms by (cases ys) auto
    then have un: "unat (of_nat ?n :: u64) = ?n" by (simp add: unat_of_nat)
    have e: "x - (a + of_nat ?n) = ?d - of_nat ?n" by simp
    have "unat (?d - of_nat ?n) = (if ?n \<le> unat ?d then unat ?d - ?n else 2 ^ 64 + unat ?d - ?n)"
      using unat_sub_if' [of ?d "of_nat ?n :: u64"] un by (auto simp: word_le_nat_alt)
    then show ?thesis unfolding ram_write_def e using assms by (auto simp: nth_append)
  qed
qed

lemma ram_read_append: "ram_read a (i + j) r = ram_read a i r @ ram_read (a + of_nat i) j r"
  by (rule nth_equalityI) (auto simp: ram_read_def nth_append add.assoc simp flip: of_nat_add)

lemma ram_read_write: "length bs \<le> 2 ^ 64 \<Longrightarrow> ram_read a (length bs) (ram_write a bs r) = bs"
  by (rule nth_equalityI) (auto simp: ram_read_def ram_write_def unat_of_nat)

lemma ram_read_write_other:
  assumes "\<And>k. k < n \<Longrightarrow> \<not> unat (b + of_nat k - a) < length bs"
  shows "ram_read b n (ram_write a bs r) = ram_read b n r"
  using assms by (auto simp: ram_read_def ram_write_def)

text \<open>A range that is plain RAM: no region covers it and all its pages are mapped.\<close>

definition backed :: "'a mem_bus_scheme \<Rightarrow> u64 \<Rightarrow> nat \<Rightarrow> bool" where
  "backed m a n \<longleftrightarrow> n \<le> 2 ^ 64 \<and>
     (\<forall>k<n. iomem_index (a + of_nat k) m = 0 \<and> ram_page m (drop_bit TARGET_PAGE_BITS (a + of_nat k)))"

lemma iomem_index_cong: "mmio m' = mmio m \<Longrightarrow> iomem_index a m' = iomem_index a m"
  by (simp add: iomem_index_def)

lemma backed_cong: "mmio m' = mmio m \<Longrightarrow> ram_page m' = ram_page m \<Longrightarrow> backed m' a n = backed m a n"
  by (simp add: backed_def iomem_index_cong [of m' m])

lemma backed_first: "backed m a n \<Longrightarrow> 0 < n \<Longrightarrow> iomem_index a m = 0 \<and> ram_page m (drop_bit TARGET_PAGE_BITS a)"
  unfolding backed_def by fastforce

lemma backed_rest: "backed m a n \<Longrightarrow> i \<le> n \<Longrightarrow> backed m (a + of_nat i) (n - i)"
  unfolding backed_def by (auto simp: add.assoc simp flip: of_nat_add)

lemma log_dirty_fields [simp]:
  "mmio (log_dirty a l m) = mmio m" "ram_page (log_dirty a l m) = ram_page m" "ram (log_dirty a l m) = ram m"
  "xen_logdirty_enable (log_dirty a l m) = xen_logdirty_enable m"
  by (simp_all add: log_dirty_def)

lemma read_loop_ram: "backed m a n \<Longrightarrow> mem_read_loop c a n m = Inr (ram_read a n (ram m), m)"
proof (induction c a n m rule: mem_read_loop.induct)
  case (1 c a n m)
  show ?case
  proof (cases "n = 0")
    case True
    then show ?thesis by (simp add: mem_read_loop.simps ram_read_def)
  next
    case False
    let ?l = "page_left a n"
    have ch: "mem_read_chunk c a n m = Inr (ram_read a ?l (ram m), m)"
      using backed_first [OF 1(2)] False by (simp add: mem_read_chunk_def)
    have split: "ram_read a n (ram m) = ram_read a ?l (ram m) @ ram_read (a + of_nat ?l) (n - ?l) (ram m)"
      using ram_read_append [of a ?l "n - ?l" "ram m"] page_left_le [of a n] by simp
    have "mem_read_loop c (a + of_nat ?l) (n - ?l) m = Inr (ram_read (a + of_nat ?l) (n - ?l) (ram m), m)"
      using 1(1) [OF False ch] backed_rest [OF 1(2) page_left_le] by simp
    then show ?thesis using False ch split by (subst mem_read_loop.simps) simp
  qed
qed

text \<open>The pages of a range are among those reported as modified.\<close>

definition pages_logged :: "(u64 \<times> u64) list \<Rightarrow> u64 \<Rightarrow> nat \<Rightarrow> bool" where
  "pages_logged X a n \<longleftrightarrow>
     (\<forall>k<n. \<exists>(p, cnt) \<in> set X. drop_bit TARGET_PAGE_BITS (a + of_nat k) - p < cnt)"

lemma unat_plus_small: "unat (a::u64) + k < 2 ^ 64 \<Longrightarrow> unat (a + of_nat k) = unat a + k"
  by (simp add: unat_word_ariths(1) unat_of_nat mod_add_right_eq)

lemma page_number: "unat (drop_bit 12 (a::u64)) = unat a div 4096"
  by (simp add: drop_bit_eq_div unat_div)

lemma page_offset: "unat ((a::u64) AND 0xfff) = unat a mod 4096"
proof -
  have "a AND 0xfff = take_bit 12 a" by (simp add: take_bit_eq_mask mask_numeral)
  then show ?thesis by (simp only: unsigned_take_bit_eq) (simp add: take_bit_eq_mod)
qed

lemma same_page:
  assumes "k < page_left a n" "unat a + n < 2 ^ 64"
  shows "drop_bit 12 (a + of_nat k) = drop_bit 12 a"
proof -
  have k: "k < n" "unat a mod 4096 + k < 4096"
    using assms(1) by (auto simp: page_left_def page_offset)
  have "(unat a + k) div 4096 = unat a div 4096"
    using k(2) by (simp add: div_add1_eq [of "unat a" k])
  then show ?thesis
    using k(1) assms(2) by (simp add: word_unat_eq_iff page_number unat_plus_small)
qed

lemma one_page_count:
  assumes "0 < n" "unat a + n + 4096 \<le> 2 ^ 64"
  shows "drop_bit 12 (a + of_nat (page_left a n) + 4096 - 1) - drop_bit 12 a = (1::u64)"
proof -
  let ?l = "page_left a n"
  have l: "0 < ?l" "?l \<le> n" "unat a mod 4096 + ?l \<le> 4096"
    using page_left_pos [OF assms(1)] page_left_le by (auto simp: page_left_def page_offset)
  have e: "a + of_nat ?l + 4096 - 1 = a + of_nat (?l + 4095)" by simp
  have "unat (a + of_nat (?l + 4095)) = unat a + (?l + 4095)"
    using assms(2) l(2) by (intro unat_plus_small) simp
  moreover have "(unat a + (?l + 4095)) div 4096 = unat a div 4096 + 1"
  proof -
    have "(?l + 4095) div 4096 = 1" "(?l + 4095) mod 4096 = ?l - 1"
      using l(1,3) div_add1_eq [of "?l - 1" 4096 4096] mod_add_self2 [of "?l - 1" 4096]
      by (auto simp: add.commute)
    then show ?thesis using l(1,3) by (simp add: div_add1_eq [of "unat a"])
  qed
  ultimately have u: "unat (drop_bit 12 (a + of_nat (?l + 4095))) = unat (drop_bit 12 a) + 1"
    by (simp only: page_number)
  have "drop_bit 12 (a + of_nat (?l + 4095)) = drop_bit 12 a + 1"
    using arg_cong [OF u, of "of_nat :: nat \<Rightarrow> u64"] by simp
  then show ?thesis by (simp only: e) simp
qed

lemma pages_logged_step:
  assumes "0 < n" "unat a + n + 4096 \<le> 2 ^ 64"
    and "pages_logged X (a + of_nat (page_left a n)) (n - page_left a n)"
  shows "pages_logged ((drop_bit 12 a, drop_bit 12 (a + of_nat (page_left a n) + 4096 - 1) - drop_bit 12 a) # X) a n"
  unfolding pages_logged_def
proof (intro allI impI)
  let ?l = "page_left a n"
  let ?e = "(drop_bit 12 a, drop_bit 12 (a + of_nat ?l + 4096 - 1) - drop_bit 12 a)"
  fix k assume k: "k < n"
  show "\<exists>(p, cnt) \<in> set (?e # X). drop_bit 12 (a + of_nat k) - p < cnt"
  proof (cases "k < ?l")
    case True
    have "snd ?e = 1" using one_page_count [OF assms(1,2)] by simp
    moreover have "drop_bit 12 (a + of_nat k) = fst ?e" using same_page [OF True] assms(2) by simp
    ultimately show ?thesis by simp
  next
    case False
    have e: "a + of_nat ?l + of_nat (k - ?l) = a + of_nat k" using False by (simp add: add.assoc flip: of_nat_add)
    have "k - ?l < n - ?l" using False k by simp
    with assms(3) have "\<exists>(p, cnt) \<in> set X. drop_bit 12 (a + of_nat ?l + of_nat (k - ?l)) - p < cnt"
      unfolding pages_logged_def by blast
    then show ?thesis unfolding e by auto
  qed
qed

lemma write_loop_ram:
  "backed m a (length buf) \<Longrightarrow>
     \<exists>X. mem_write_loop c a buf m = Inr (m\<lparr>ram := ram_write a buf (ram m), modified := modified m @ X\<rparr>)
       \<and> (xen_logdirty_enable m \<and> unat a + length buf + 4096 \<le> 2 ^ 64 \<longrightarrow> pages_logged X a (length buf))"
proof (induction c a buf m rule: mem_write_loop.induct)
  case (1 c a buf m)
  show ?case
  proof (cases "buf = []")
    case True
    then show ?thesis
      by (intro exI [of _ "[]"]) (simp add: mem_write_loop.simps ram_write_def pages_logged_def)
  next
    case False
    let ?n = "length buf"
    let ?l = "page_left a ?n"
    let ?m1 = "log_dirty a ?l (m\<lparr>ram := ram_write a (take ?l buf) (ram m)\<rparr>)"
    let ?b = "drop ?l buf"
    have n: "0 < ?n" and l: "?l \<le> ?n" using False page_left_le by auto
    have ch: "mem_write_chunk c a buf m = Inr (?l, ?m1)"
      using backed_first [OF 1(2)] False by (simp add: mem_write_chunk_def Let_def)
    have "backed ?m1 (a + of_nat ?l) (length ?b)"
      using backed_rest [OF 1(2) l] backed_cong [of ?m1 m] by simp
    with 1(1) [OF False ch] obtain X where X: "mem_write_loop c (a + of_nat ?l) ?b ?m1
        = Inr (?m1\<lparr>ram := ram_write (a + of_nat ?l) ?b (ram ?m1), modified := modified ?m1 @ X\<rparr>)"
      "xen_logdirty_enable m \<and> unat (a + of_nat ?l) + length ?b + 4096 \<le> 2 ^ 64
        \<longrightarrow> pages_logged X (a + of_nat ?l) (length ?b)"
      by auto
    have r: "ram_write (a + of_nat ?l) ?b (ram_write a (take ?l buf) (ram m)) = ram_write a buf (ram m)"
      using ram_write_append [of "take ?l buf" ?b a "ram m"] 1(2) l by (simp add: backed_def)
    let ?Y = "if xen_logdirty_enable m
      then (drop_bit 12 a, drop_bit 12 (a + of_nat ?l + 4096 - 1) - drop_bit 12 a) # X else X"
    have "?m1\<lparr>ram := ram_write (a + of_nat ?l) ?b (ram ?m1), modified := modified ?m1 @ X\<rparr>
        = m\<lparr>ram := ram_write a buf (ram m), modified := modified m @ ?Y\<rparr>"
      using r by (simp add: log_dirty_def)
    then have run: "mem_write_loop c a buf m = Inr (m\<lparr>ram := ram_write a buf (ram m), modified := modified m @ ?Y\<rparr>)"
      using False ch X(1) by (subst mem_write_loop.simps) simp
    have "pages_logged ?Y a ?n" if hyp: "xen_logdirty_enable m" "unat a + ?n + 4096 \<le> 2 ^ 64"
    proof -
      have "unat (a + of_nat ?l) = unat a + ?l" using hyp(2) l by (intro unat_plus_small) simp
      then show ?thesis using pages_logged_step [OF n hyp(2), of X] X(2) hyp l by simp
    qed
    with run show ?thesis by blast
  qed
qed

section \<open>The memory contract\<close>

text \<open>
  What the I/O request code relies on: on a backed range a store changes exactly the bytes of that
  range, a load returns them, and neither changes which ranges are backed.
\<close>

locale byte_memory =
  fixes store :: "u64 \<Rightarrow> u8 list \<Rightarrow> 'm \<Rightarrow> 'm res"
    and load :: "u64 \<Rightarrow> nat \<Rightarrow> 'm \<Rightarrow> (u8 list \<times> 'm) res"
    and ok :: "'m \<Rightarrow> u64 \<Rightarrow> nat \<Rightarrow> bool"
    and cells :: "'m \<Rightarrow> u64 \<Rightarrow> u8"
  assumes store_ok: "ok m a (length bs) \<Longrightarrow>
      \<exists>m'. store a bs m = Inr m' \<and> cells m' = ram_write a bs (cells m) \<and> (\<forall>b n. ok m' b n = ok m b n)"
    and load_ok: "ok m a n \<Longrightarrow> load a n m = Inr (ram_read a n (cells m), m)"
    and ok_length: "ok m a n \<Longrightarrow> n \<le> 2 ^ 64"
begin

lemma store_then_load:
  assumes "ok m a (length bs)"
  shows "\<exists>m'. store a bs m = Inr m' \<and> load a (length bs) m' = Inr (bs, m')"
proof -
  obtain m' where "store a bs m = Inr m'" "cells m' = ram_write a bs (cells m)" "ok m' a (length bs)"
    using store_ok [OF assms] assms by auto
  then show ?thesis using load_ok ram_read_write [OF ok_length [OF assms]] by simp
qed

lemma copy_cells:
  assumes "ok m a n" "ok m b n"
  shows "\<exists>m'. res_bind (load a n m) (\<lambda>(bs, m). store b bs m) = Inr m'
    \<and> cells m' = ram_write b (ram_read a n (cells m)) (cells m) \<and> (\<forall>x k. ok m' x k = ok m x k)"
  using load_ok [OF assms(1)] store_ok [of m b "ram_read a n (cells m)"] assms(2) by simp

end

definition phys_store where
  "phys_store c addr bs m = res_bind (cpu_physical_memory_rw c addr bs (int (length bs)) True m) (\<lambda>r. Inr (snd r))"

definition phys_load where
  "phys_load c addr n m = cpu_physical_memory_rw c addr (replicate n 0) (int n) False m"

interpretation phys: byte_memory "phys_store c" "phys_load c" backed ram for c
proof
  fix m :: "'a mem_bus_scheme" and a :: u64 and bs :: "u8 list" and n :: nat
  show "n \<le> 2 ^ 64" if "backed m a n" using that by (simp add: backed_def)
  show "phys_load c a n m = Inr (ram_read a n (ram m), m)" if "backed m a n"
    by (simp add: phys_load_def cpu_physical_memory_rw_def read_loop_ram [OF that])
  show "\<exists>m'. phys_store c a bs m = Inr m' \<and> ram m' = ram_write a bs (ram m) \<and> (\<forall>b n. backed m' b n = backed m b n)"
    if b: "backed m a (length bs)"
  proof -
    obtain X where "mem_write_loop c a bs m = Inr (m\<lparr>ram := ram_write a bs (ram m), modified := modified m @ X\<rparr>)"
      using write_loop_ram [OF b] by blast
    then show ?thesis
      using backed_cong [of "m\<lparr>ram := ram_write a bs (ram m), modified := modified m @ X\<rparr>" m]
      by (simp add: phys_store_def cpu_physical_memory_rw_def)
  qed
qed

section \<open>Device accesses of a transfer\<close>

text \<open>The accesses a write of \<open>buf\<close> into a device region is split into.\<close>

function io_split :: "u64 \<Rightarrow> u8 list \<Rightarrow> (u64 \<times> u8 list) list" where
  "io_split a buf =
     (if buf = [] then []
      else (let w = io_width a (page_left a (length buf)) in (a, take w buf) # io_split (a + of_nat w) (drop w buf)))"
  by pat_completeness auto
termination
  by (relation "measure (\<lambda>(a, buf). length buf)")
    (auto dest: page_left_pos intro!: diff_less simp: io_width_def)

declare io_split.simps [simp del]

lemma io_split_induct:
  fixes P :: "u64 \<Rightarrow> u8 list \<Rightarrow> bool"
  assumes "\<And>a. P a []"
    and "\<And>a buf. buf \<noteq> [] \<Longrightarrow> P (a + of_nat (io_width a (page_left a (length buf))))
      (drop (io_width a (page_left a (length buf))) buf) \<Longrightarrow> P a buf"
  shows "P a buf"
  by (induction a buf rule: io_split.induct) (metis assms)

lemma io_split_concat: "concat (map snd (io_split a buf)) = buf"
proof (induction a buf rule: io_split_induct)
  case (2 a buf)
  then show ?case by (subst io_split.simps) (simp add: Let_def)
qed (simp add: io_split.simps)

lemma io_width_aligned:
  "io_width a l \<in> {1, 2, 4} \<and> unat (a::u64) mod io_width a l = 0"
proof -
  have "unat (a AND 3) = unat a mod 4" "unat (a AND 1) = unat a mod 2"
    by (simp_all only: and_low_bits unat_take_bit) simp_all
  then show ?thesis by (auto simp: io_width_def unat_eq_0)
qed

lemma io_take_length:
  "buf \<noteq> [] \<Longrightarrow> length (take (io_width a (page_left a (length buf))) buf) = io_width a (page_left a (length buf))"
  using io_width_bounds [of "page_left a (length buf)" a] page_left_pos [of "length buf" a]
    page_left_le [of a "length buf"] by auto

lemma io_split_aligned:
  "(x, bs) \<in> set (io_split a buf) \<Longrightarrow> length bs \<in> {1, 2, 4} \<and> unat x mod length bs = 0"
proof (induction a buf rule: io_split_induct)
  case (2 a buf)
  let ?w = "io_width a (page_left a (length buf))"
  have "length (take ?w buf) = ?w" by (rule io_take_length [OF 2(1)])
  then show ?case using 2 io_width_aligned [of a "page_left a (length buf)"] io_split.simps [of a buf]
    by (auto simp: Let_def simp del: length_take)
qed (simp add: io_split.simps)

text \<open>The reference: an access is as wide as its address and the bytes that are left allow; a list of accesses covers a buffer if each
  starts where the one before it has ended.\<close>

definition widest_access :: "u64 \<Rightarrow> nat \<Rightarrow> nat" where
  "widest_access x left = (if 4 dvd unat x \<and> 4 \<le> left then 4 else if 2 dvd unat x \<and> 2 \<le> left then 2 else 1)"

definition covers :: "u64 \<Rightarrow> u8 list \<Rightarrow> (u64 \<times> u8 list) list \<Rightarrow> bool" where
  "covers a buf acc \<longleftrightarrow> concat (map snd acc) = buf \<and>
     (\<forall>j < length acc. let done = length (concat (map snd (take j acc))) in
        fst (acc ! j) = a + of_nat done \<and> length (snd (acc ! j)) = widest_access (fst (acc ! j)) (length buf - done))"

lemma page_access:
  "0 < n \<Longrightarrow> io_width a (page_left a n) = widest_access a n"
proof -
  have low: "a AND 3 = 0 \<longleftrightarrow> 4 dvd unat a" "a AND 1 = 0 \<longleftrightarrow> 2 dvd unat a" "unat (a AND 0xfff) = unat a mod 4096"
  proof -
    have "unat (a AND 3) = unat a mod 4" "unat (a AND 1) = unat a mod 2" by (simp_all only: and_low_bits unat_take_bit) simp_all
    moreover have "a AND 3 = 0 \<longleftrightarrow> unat (a AND 3) = 0" "a AND 1 = 0 \<longleftrightarrow> unat (a AND 1) = 0" by (simp_all only: unat_eq_0)
    ultimately show "a AND 3 = 0 \<longleftrightarrow> 4 dvd unat a" "a AND 1 = 0 \<longleftrightarrow> 2 dvd unat a" by (simp_all only: dvd_eq_mod_eq_0)
    have "a AND 0xfff = take_bit 12 a" by (simp add: take_bit_eq_mask mask_numeral)
    then show "unat (a AND 0xfff) = unat a mod 4096" by (simp only: unat_take_bit) simp
  qed
  have room: "k \<le> 4096 - unat a mod 4096" if "k dvd unat a" "k dvd 4096" for k
  proof -
    have "k dvd 4096 - unat a mod 4096" using that by (simp add: dvd_mod dvd_diff_nat)
    then show ?thesis by (rule dvd_imp_le) simp
  qed
  have "4 dvd unat a \<Longrightarrow> 4 \<le> 4096 - unat a mod 4096" "2 dvd unat a \<Longrightarrow> 2 \<le> 4096 - unat a mod 4096" by (rule room; simp)+
  then show ?thesis by (auto simp: io_width_def page_left_def widest_access_def low)
qed

lemma io_split_covers: "covers a buf (io_split a buf)"
proof (induction a buf rule: io_split_induct)
  case (2 a buf)
  let ?w = "io_width a (page_left a (length buf))"
  let ?rest = "io_split (a + of_nat ?w) (drop ?w buf)"
  have w: "length (take ?w buf) = ?w" by (rule io_take_length [OF 2(1)])
  have e: "io_split a buf = (a, take ?w buf) # ?rest" using 2(1) by (subst io_split.simps) (simp add: Let_def)
  note IH = 2(2) [unfolded covers_def]
  show ?case unfolding covers_def
  proof (intro conjI allI impI)
    show "concat (map snd (io_split a buf)) = buf" using IH by (simp add: e)
    fix j assume j: "j < length (io_split a buf)"
    show "let done = length (concat (map snd (take j (io_split a buf)))) in
        fst (io_split a buf ! j) = a + of_nat done
        \<and> length (snd (io_split a buf ! j)) = widest_access (fst (io_split a buf ! j)) (length buf - done)"
    proof (cases j)
      case 0
      then show ?thesis using w 2(1) page_access [of "length buf" a] by (simp add: e)
    next
      case (Suc k)
      then have "k < length ?rest" using j by (simp add: e)
      then have "let done = length (concat (map snd (take k ?rest))) in fst (?rest ! k) = a + of_nat ?w + of_nat done
          \<and> length (snd (?rest ! k)) = widest_access (fst (?rest ! k)) (length (drop ?w buf) - done)" using IH by blast
      then show ?thesis using w by (simp add: e Suc Let_def add.assoc del: length_take)
    qed
  qed
qed (simp add: covers_def io_split.simps)

text \<open>The calls of the device's write handlers, in order: the handler for the width is called with the address and the little-endian value.\<close>

fun call_all where
  "call_all c row op [] m = Inr m"
| "call_all c row op ((x, bs) # xs) m =
     (case row (if length bs = 1 then 0 else if length bs = 2 then 1 else 2) of
        None \<Rightarrow> Inl Bad_access
      | Some fn \<Rightarrow> res_bind (call_mem_write c fn op x (of_nat (horner_sum unat 256 bs)) m) (\<lambda>m. call_all c row op xs m))"

lemma le_load_value: "le_load bs = of_nat (horner_sum unat 256 bs)"
proof (induction bs)
  case (Cons b bs)
  have "ucast b AND push_bit 8 x = 0" for x :: u64
    by (rule bit_word_eqI) (auto simp: bit_simps dest: bit_imp_le_length)
  then have "ucast b OR push_bit 8 x = ucast b + push_bit 8 x" for x :: u64 by (rule disjunctive_add_eq_or [symmetric])
  then show ?case using Cons by (simp add: push_bit_eq_mult)
qed simp

lemma call_all_slot:
  assumes "length bs \<in> {1, 2, 4}"
  shows "call_all c row op ((x, bs) # xs) m =
     (case row (io_slot (length bs)) of
        None \<Rightarrow> Inl Bad_access
      | Some fn \<Rightarrow> res_bind (call_mem_write c fn op x (ucast (le_load bs)) m) (\<lambda>m. call_all c row op xs m))"
proof -
  have "ucast (le_load bs) = (of_nat (horner_sum unat 256 bs) :: u32)" unfolding le_load_value by (rule bit_word_eqI) (simp add: bit_simps)
  moreover have "(if length bs = 1 then 0 else if length bs = 2 then 1 else 2) = io_slot (length bs)" using assms by (auto simp: io_slot_def)
  ultimately show ?thesis by (simp only: call_all.simps)
qed

text \<open>Write handlers that do not rearrange the memory tables.\<close>

definition keeps_tables :: "('a mem_bus_scheme, 'c) mem_code_scheme \<Rightarrow> bool" where
  "keeps_tables c \<longleftrightarrow> (\<forall>fn op x v m m'. call_mem_write c fn op x v m = Inr m' \<longrightarrow>
      mmio m' = mmio m \<and> io_mem_write m' = io_mem_write m \<and> io_mem_opaque m' = io_mem_opaque m)"

lemma write_loop_mmio:
  assumes stable: "keeps_tables c"
  shows "i \<noteq> 0 \<Longrightarrow> \<forall>k<length buf. iomem_index (a + of_nat k) m = i \<Longrightarrow>
    mem_write_loop c a buf m = call_all c (io_mem_write m i) (io_mem_opaque m i) (io_split a buf) m"
proof (induction a buf arbitrary: m rule: io_split_induct)
  case (1 a)
  show ?case by (simp add: mem_write_loop.simps io_split.simps)
next
  case (2 a buf)
  let ?w = "io_width a (page_left a (length buf))"
  have w: "length (take ?w buf) = ?w" by (rule io_take_length [OF 2(1)])
  then have "length (take ?w buf) \<in> {1, 2, 4}" using io_width_aligned [of a "page_left a (length buf)"] by (simp del: length_take)
  note step = call_all_slot [OF this, unfolded w]
  have i: "iomem_index a m = i" using 2(1) 2(4) [rule_format, of 0] by simp
  have split: "io_split a buf = (a, take ?w buf) # io_split (a + of_nat ?w) (drop ?w buf)"
    using 2(1) by (subst io_split.simps) (simp add: Let_def)
  have rest: "mem_write_loop c (a + of_nat ?w) (drop ?w buf) m1
      = call_all c (io_mem_write m i) (io_mem_opaque m i) (io_split (a + of_nat ?w) (drop ?w buf)) m1"
    if "call_mem_write c fn (io_mem_opaque m i) a v m = Inr m1" for fn v m1
  proof -
    have st: "mmio m1 = mmio m" "io_mem_write m1 = io_mem_write m" "io_mem_opaque m1 = io_mem_opaque m"
      using stable that unfolding keeps_tables_def by blast+
    have "iomem_index (a + of_nat ?w + of_nat k) m1 = i" if "k < length (drop ?w buf)" for k
      using 2(4) [rule_format, of "?w + k"] that st iomem_index_cong [of m1 m] by (simp add: add.assoc)
    then show ?thesis using 2(2) [OF 2(3), of m1] st by simp
  qed
  show ?case
  proof (cases "io_mem_write m i (io_slot ?w)")
    case None
    then show ?thesis using 2(1,3) i split by (subst mem_write_loop.simps) (simp add: step mem_write_chunk_def Let_def del: call_all.simps(2))
  next
    case (Some fn)
    then show ?thesis using 2(1,3) i split rest
      by (subst mem_write_loop.simps)
        (cases "call_mem_write c fn (io_mem_opaque m i) a (ucast (le_load (take ?w buf))) m";
          simp add: step mem_write_chunk_def Let_def del: call_all.simps(2))
  qed
qed

section \<open>Table lemmas\<close>

lemma first_index_less: "first_index P xs < length xs \<longleftrightarrow> (\<exists>x \<in> set xs. P x)"
  by (induction xs) auto

lemma first_index_nth: "first_index P xs < length xs \<Longrightarrow> P (xs ! first_index P xs)"
  by (induction xs) auto

lemma find_append: "find P (xs @ ys) = (case find P xs of Some x \<Rightarrow> Some x | None \<Rightarrow> find P ys)"
  by (induction xs) auto

lemma find_None: "find P xs = None \<longleftrightarrow> (\<forall>x \<in> set xs. \<not> P x)"
  by (induction xs) auto

lemma row_of_offset:
  assumes "1 \<le> i" "i < 512"
  shows "unat (drop_bit 3 (of_int (8 * i) :: u64) AND 511) = nat i"
proof -
  have "(of_int (8 * i) :: u64) = of_nat (8 * nat i)" using assms by simp
  moreover have "unat (of_nat (8 * nat i) :: u64) = 8 * nat i" using assms by (subst unat_of_nat) simp
  moreover have "drop_bit 3 x AND 511 = take_bit 9 (drop_bit 3 x)" for x :: u64
    by (simp add: take_bit_eq_mask mask_numeral)
  moreover have "unat (drop_bit 3 x) = unat x div 8" for x :: u64
    by (simp add: drop_bit_eq_div unat_div)
  ultimately show ?thesis using assms by (simp only: unat_take_bit) simp
qed

section \<open>Properties\<close>

definition demo_mem :: mem_bus where
  "demo_mem = \<lparr>ioport_table = (\<lambda>_. None), mmio = [], io_mem_read = (\<lambda>_ _. None), io_mem_write = (\<lambda>_ _. None),
     io_mem_opaque = (\<lambda>_. 0), io_mem_used = (\<lambda>_. False), ram = (\<lambda>_. 0), ram_page = (\<lambda>_. True),
     xen_logdirty_enable = True, modified = []\<rparr>"

definition null_code :: "mem_bus mem_code" where
  "null_code = \<lparr>call_port_read = (\<lambda>fn op a m. Inr (0, m)), call_port_write = (\<lambda>fn op a v m. Inr m),
     call_mem_read = (\<lambda>fn op a m. Inr (0, m)), call_mem_write = (\<lambda>fn op a v m. Inr m)\<rparr>"

lemma demo_backed: "n \<le> 2 ^ 64 \<Longrightarrow> backed demo_mem a n"
  by (simp add: backed_def demo_mem_def iomem_index_def)

text \<open>C7: A transfer to guest RAM is a flat copy: however it crosses page boundaries, a write of bytes to a
  range of plain RAM stores exactly these bytes, changes no other byte of RAM, and a read of the
  range returns them.\<close>

theorem phys_ram_roundtrip:
  assumes "backed m a (length bs)"
  shows "\<exists>m'. cpu_physical_memory_rw c a bs (int (length bs)) True m = Inr (bs, m')
    \<and> cpu_physical_memory_rw c a (replicate (length bs) 0) (int (length bs)) False m' = Inr (bs, m')
    \<and> (\<forall>x. \<not> unat (x - a) < length bs \<longrightarrow> ram m' x = ram m x)"
proof -
  obtain m' where s: "phys_store c a bs m = Inr m'" "ram m' = ram_write a bs (ram m)"
    using phys.store_ok [OF assms] by blast
  obtain m'' where l: "phys_store c a bs m = Inr m''" "phys_load c a (length bs) m'' = Inr (bs, m'')"
    using phys.store_then_load [OF assms] by blast
  have "cpu_physical_memory_rw c a bs (int (length bs)) True m = Inr (bs, m')"
    using s(1) by (auto simp: phys_store_def cpu_physical_memory_rw_def res_bind_Inr_iff)
  then show ?thesis using s l by (auto simp: phys_load_def ram_write_def)
qed

theorem phys_ram_roundtrip_witness:
  "\<exists>m'. cpu_physical_memory_rw null_code 0xffe [1, 2, 3, 4] 4 True demo_mem = Inr ([1, 2, 3, 4], m')
     \<and> cpu_physical_memory_rw null_code 0xffe (replicate 4 0) 4 False m' = Inr ([1, 2, 3, 4], m')"
proof -
  have n: "length [1::u8, 2, 3, 4] = 4" by simp
  show ?thesis
    using phys_ram_roundtrip [of demo_mem "0xffe" "[1, 2, 3, 4]" null_code] demo_backed [of 4 "0xffe"]
    unfolding n by auto
qed

text \<open>C8: Dirty logging is complete: with logging enabled, the page of every byte a transfer writes to RAM
  is inside one of the ranges reported to the hypervisor for that transfer.\<close>

theorem phys_write_logged:
  assumes "backed m a (length bs)" "xen_logdirty_enable m" "unat a + length bs + 4096 \<le> 2 ^ 64"
  shows "\<exists>m' X. cpu_physical_memory_rw c a bs (int (length bs)) True m = Inr (bs, m')
    \<and> modified m' = modified m @ X
    \<and> (\<forall>k<length bs. \<exists>(p, cnt) \<in> set X. drop_bit TARGET_PAGE_BITS (a + of_nat k) - p < cnt)"
proof -
  obtain X where "mem_write_loop c a bs m = Inr (m\<lparr>ram := ram_write a bs (ram m), modified := modified m @ X\<rparr>)"
    "pages_logged X a (length bs)" using write_loop_ram [OF assms(1)] assms(2,3) by blast
  then show ?thesis by (simp add: cpu_physical_memory_rw_def pages_logged_def)
qed

theorem phys_write_logged_witness:
  "\<exists>m' X. cpu_physical_memory_rw null_code 0xffe [1, 2, 3, 4] 4 True demo_mem = Inr ([1, 2, 3, 4], m')
     \<and> modified m' = modified demo_mem @ X
     \<and> (\<exists>(p, cnt) \<in> set X. drop_bit TARGET_PAGE_BITS (0xffe + 3) - p < cnt)"
proof -
  have d: "backed demo_mem 0xffe (length [1::u8, 2, 3, 4])" "xen_logdirty_enable demo_mem"
    by (simp_all add: demo_backed) (simp add: demo_mem_def)
  from phys_write_logged [OF d, of null_code] obtain m' X where k:
    "cpu_physical_memory_rw null_code 0xffe [1, 2, 3, 4] 4 True demo_mem = Inr ([1, 2, 3, 4], m')"
    "modified m' = modified demo_mem @ X"
    "\<forall>k<4. \<exists>(p, cnt) \<in> set X. drop_bit 12 (0xffe + of_nat k) - p < cnt" by auto
  from k(3) have "\<exists>(p, cnt) \<in> set X. drop_bit 12 (0xffe + of_nat 3) - p < cnt" by (elim allE [of _ 3]) simp
  with k(1,2) show ?thesis by auto
qed

text \<open>C9: A write to a device region becomes naturally aligned accesses of 1, 2 or 4 bytes that follow each other without gap or overlap: the first
  starts at the address of the transfer, each further one where the one before has ended, each is the widest that its
  alignment and the bytes left allow, their bytes put together are the bytes of the transfer in order, and the device's handler for the width is
  called for each with its address and little-endian value, in this order.\<close>

theorem mmio_write_split:
  assumes "keeps_tables c"
    and "i \<noteq> 0" "\<forall>k<length bs. iomem_index (a + of_nat k) m = i"
  shows "\<exists>acc. cpu_physical_memory_rw c a bs (int (length bs)) True m
      = res_bind (call_all c (io_mem_write m i) (io_mem_opaque m i) acc m) (\<lambda>m'. Inr (bs, m'))
    \<and> covers a bs acc \<and> (\<forall>(x, b) \<in> set acc. length b \<in> {1, 2, 4} \<and> unat x mod length b = 0)"
proof -
  have "cpu_physical_memory_rw c a bs (int (length bs)) True m
      = res_bind (call_all c (io_mem_write m i) (io_mem_opaque m i) (io_split a bs) m) (\<lambda>m'. Inr (bs, m'))"
    using write_loop_mmio [OF assms] by (simp add: cpu_physical_memory_rw_def)
  moreover have "\<forall>(x, b) \<in> set (io_split a bs). length b \<in> {1, 2, 4} \<and> unat x mod length b = 0"
    using io_split_aligned by fastforce
  ultimately show ?thesis using io_split_covers by blast
qed

definition mmio_demo :: mem_bus where
  "mmio_demo = demo_mem\<lparr>mmio := [\<lparr>ms_start = 0xfee00000, ms_size = 0x1000, ms_io_index = 8\<rparr>],
     io_mem_write := (\<lambda>i k. if i = 1 then Some k else None)\<rparr>"

lemma mmio_demo_index: "k < 4096 \<Longrightarrow> iomem_index (0xfee00000 + of_nat k) mmio_demo = 1"
proof -
  assume k: "k < 4096"
  have "(of_nat k :: u64) < 0x1000" using k by (simp add: word_less_nat_alt unat_of_nat)
  then show ?thesis by (simp add: iomem_index_def mmio_demo_def)
qed

theorem mmio_write_split_witness:
  "\<exists>acc. cpu_physical_memory_rw null_code 0xfee00002 [1, 2, 3, 4, 5, 6] 6 True mmio_demo
      = res_bind (call_all null_code (io_mem_write mmio_demo 1) (io_mem_opaque mmio_demo 1) acc mmio_demo)
          (\<lambda>m'. Inr ([1, 2, 3, 4, 5, 6], m'))
    \<and> covers 0xfee00002 [1, 2, 3, 4, 5, 6] acc"
proof -
  have s: "keeps_tables null_code" by (simp add: keeps_tables_def null_code_def)
  have "iomem_index (0xfee00002 + of_nat k) mmio_demo = 1" if "k < 6" for k
    using mmio_demo_index [of "k + 2"] that by (simp add: add.commute add.left_commute)
  then have i: "\<forall>k<length [1::u8, 2, 3, 4, 5, 6]. iomem_index (0xfee00002 + of_nat k) mmio_demo = 1" by simp
  show ?thesis
    using mmio_write_split [of null_code 1 "[1, 2, 3, 4, 5, 6]" "0xfee00002" mmio_demo, OF s _ i] by auto
qed

text \<open>Registering a region makes it visible: after \<^verbatim>\<open>cpu_register_physical_memory\<close> has succeeded, an
  address inside the new region that no other region covers selects the handler row of the
  registered offset, and an address no region of any kind covers selects none.\<close>

theorem mmio_register_lookup:
  assumes "cpu_register_physical_memory start sz off m = Inr m'" "addr - start < sz"
    and "\<forall>r \<in> set (mmio m). ms_start r \<noteq> start \<longrightarrow> \<not> addr - ms_start r < ms_size r"
    and "distinct (map ms_start (mmio m))"
  shows "iomem_index addr m' = unat (drop_bit IO_MEM_SHIFT off AND 511)"
proof (cases "\<exists>r \<in> set (mmio m). ms_start r = start")
  case False
  then have "find (\<lambda>r. addr - ms_start r < ms_size r) (mmio m) = None"
    using assms(3) by (auto simp: find_None)
  moreover have "mmio m' = mmio m @ [\<lparr>ms_start = start, ms_size = sz, ms_io_index = off\<rparr>]"
    using False assms(1) first_index_less [of "\<lambda>r. ms_start r = start" "mmio m"]
    by (auto simp: cpu_register_physical_memory_def Let_def split: if_splits)
  ultimately show ?thesis using assms(2) by (simp add: iomem_index_def find_append)
next
  case True
  let ?i = "first_index (\<lambda>r. ms_start r = start) (mmio m)"
  let ?r = "(mmio m ! ?i)\<lparr>ms_io_index := off, ms_size := sz\<rparr>"
  have i: "?i < length (mmio m)" using True by (simp add: first_index_less)
  then have st: "ms_start (mmio m ! ?i) = start" using first_index_nth [of _ "mmio m"] by blast
  have mm: "mmio m' = (mmio m)[?i := ?r]"
    using assms(1) i by (auto simp: cpu_register_physical_memory_def Let_def)
  have miss: "\<not> addr - ms_start (mmio m ! j) < ms_size (mmio m ! j)" if "j < length (mmio m)" "j \<noteq> ?i" for j
    using assms(3,4) st that i by (metis distinct_conv_nth length_map nth_map nth_mem)
  have "find (\<lambda>r. addr - ms_start r < ms_size r) (mmio m') = Some ?r"
    unfolding find_Some_iff mm using i st miss assms(2)
    by (intro exI [of _ ?i]) (auto simp: nth_list_update)
  then show ?thesis by (simp add: iomem_index_def)
qed

theorem mmio_register_lookup_witness:
  "iomem_index 0xfee00010 (demo_mem\<lparr>mmio := [\<lparr>ms_start = 0xfee00000, ms_size = 0x1000, ms_io_index = 0x28\<rparr>]\<rparr>) = 5"
  using mmio_register_lookup [of "0xfee00000" "0x1000" "0x28" demo_mem _ "0xfee00010"]
  by (simp add: cpu_register_physical_memory_def demo_mem_def)

text \<open>Unregistering a handler row leaves its region behind: the search for the region compares the stored
  offset (the row number shifted left by 3) with the bare row number, so the region is not found; the
  row is cleared all the same, and a later guest write to the region calls a null function pointer.\<close>

theorem unregister_io_memory_dangling:
  assumes "find (\<lambda>r. addr - ms_start r < ms_size r) (mmio m) = Some r" "ms_io_index r = of_int (8 * i)"
    and "1 \<le> i" "i < 512" "\<forall>q \<in> set (mmio m). ms_io_index q \<noteq> of_int i" "0 < length bs"
  shows "cpu_physical_memory_rw c addr bs (int (length bs)) True (cpu_unregister_io_memory (8 * i) m) = Inl Bad_access"
proof -
  let ?m = "cpu_unregister_io_memory (8 * i) m"
  have "\<not> first_index (\<lambda>r. ms_io_index r = word_of_int i) (mmio m) < length (mmio m)"
    using assms(5) by (simp add: first_index_less)
  then have mm: "mmio ?m = mmio m" "io_mem_write ?m (nat i) = (\<lambda>k. if k < 3 then None else io_mem_write m (nat i) k)"
    by (simp_all add: cpu_unregister_io_memory_def install_io_memory_def set_row_def Let_def)
  have "unat (drop_bit 3 (ms_io_index r) AND 511) = nat i"
    unfolding assms(2) by (rule row_of_offset [OF assms(3,4)])
  then have ix: "iomem_index addr ?m = nat i" using assms(1) mm(1) by (simp add: iomem_index_def)
  have "io_slot w < 3" for w by (simp add: io_slot_def)
  then have "mem_write_chunk c addr bs ?m = Inl Bad_access"
    using ix mm(2) assms(3) by (simp add: mem_write_chunk_def Let_def)
  then have "mem_write_loop c addr bs ?m = Inl Bad_access" using assms(6) by (subst mem_write_loop.simps) auto
  then show ?thesis by (simp add: cpu_physical_memory_rw_def)
qed

theorem unregister_io_memory_dangling_witness:
  "cpu_physical_memory_rw null_code 0xfee00000 [1] 1 True (cpu_unregister_io_memory 8 mmio_demo) = Inl Bad_access"
  using unregister_io_memory_dangling [of "0xfee00000" mmio_demo
      "\<lparr>ms_start = 0xfee00000, ms_size = 0x1000, ms_io_index = 8\<rparr>" 1 "[1]" null_code]
  by (simp add: mmio_demo_def)

end
