(* ===== verification/Dma.thy ===== *)
theory Dma
  imports Phys_Mem Qemu_File
begin

text \<open>
  The two ISA DMA controllers of \<^verbatim>\<open>hw/dma.c\<close>: channel and controller registers, the page registers,
  the scan for requesting channels, the transfer functions a device calls from its transfer
  handler, reset, save and load. A handler is \<open>Dma_phony\<close>, the one \<^verbatim>\<open>dma_init2\<close> installs, or a device's
  function, named by a number and given by the parameter \<open>h\<close>; it runs on the state of the controllers and on
  the rest of the machine, as it may call back into the controllers. The opaque pointer of a port handler is the number of
  its controller. A shift by an amount C leaves undefined and an access outside \<^verbatim>\<open>regs[4]\<close> are \<open>Bad_access\<close>.
\<close>

section \<open>State\<close>

datatype dma_handler = Dma_phony | Dma_device nat

record dma_regs =
  now_addr :: int
  now_count :: int
  base_addr :: u16
  base_count :: u16
  dma_mode :: u8
  dma_page :: u8
  dma_pageh :: u8
  dma_dack :: u8
  dma_eop :: u8
  transfer_handler :: "dma_handler option"
  dma_opaque :: nat

record dma_cont =
  dma_status :: u8
  dma_command :: u8
  dma_mask :: u8
  flip_flop :: u8
  dshift :: int
  dma_chans :: "dma_regs list"

record dma_state =
  dma_controllers :: "dma_cont list"
  bh_scheduled :: bool

type_synonym 'm dma_code = "nat \<Rightarrow> nat \<Rightarrow> int \<Rightarrow> int \<Rightarrow> int \<Rightarrow> dma_state \<times> 'm \<Rightarrow> (int \<times> dma_state \<times> 'm) res"

abbreviation (input) "CMD_NOT_SUPPORTED \<equiv> (0xfb::u32)"

definition cont_of :: "nat \<Rightarrow> dma_state \<Rightarrow> dma_cont" where
  "cont_of i s = dma_controllers s ! i"

definition upd_cont :: "nat \<Rightarrow> (dma_cont \<Rightarrow> dma_cont) \<Rightarrow> dma_state \<Rightarrow> dma_state" where
  "upd_cont i f s = s\<lparr>dma_controllers := (dma_controllers s)[i := f (cont_of i s)]\<rparr>"

definition chan_of :: "nat \<Rightarrow> nat \<Rightarrow> dma_state \<Rightarrow> dma_regs" where
  "chan_of i c s = dma_chans (cont_of i s) ! c"

definition upd_chan :: "nat \<Rightarrow> nat \<Rightarrow> (dma_regs \<Rightarrow> dma_regs) \<Rightarrow> dma_state \<Rightarrow> dma_state" where
  "upd_chan i c f s = upd_cont i (\<lambda>d. d\<lparr>dma_chans := (dma_chans d)[c := f (chan_of i c s)]\<rparr>) s"

text \<open>Left shift of a non-negative \<^verbatim>\<open>int\<close>.\<close>

definition c_shl :: "int \<Rightarrow> int \<Rightarrow> int res" where
  "c_shl x n = (if 0 \<le> n \<and> n < 32 \<and> x * 2 ^ nat n < 2 ^ 31 then Inr (x * 2 ^ nat n) else Inl Bad_access)"

section \<open>Page registers\<close>

definition channels :: "int list" where
  "channels = [-1, 2, 3, 1, -1, -1, -1, 0]"

definition page_chan :: "u32 \<Rightarrow> int" where
  "page_chan nport = channels ! unat (nport AND 7)"

definition write_page :: "nat \<Rightarrow> u32 \<Rightarrow> u32 \<Rightarrow> dma_state \<Rightarrow> dma_state" where
  "write_page i nport data s =
     (let ichan = page_chan nport in
      if ichan = -1 then s else upd_chan i (nat ichan) (\<lambda>r. r\<lparr>dma_page := ucast data\<rparr>) s)"

definition write_pageh :: "nat \<Rightarrow> u32 \<Rightarrow> u32 \<Rightarrow> dma_state \<Rightarrow> dma_state" where
  "write_pageh i nport data s =
     (let ichan = page_chan nport in
      if ichan = -1 then s else upd_chan i (nat ichan) (\<lambda>r. r\<lparr>dma_pageh := ucast data\<rparr>) s)"

definition read_page :: "nat \<Rightarrow> u32 \<Rightarrow> dma_state \<Rightarrow> u32" where
  "read_page i nport s =
     (let ichan = page_chan nport in if ichan = -1 then 0 else ucast (dma_page (chan_of i (nat ichan) s)))"

definition read_pageh :: "nat \<Rightarrow> u32 \<Rightarrow> dma_state \<Rightarrow> u32" where
  "read_pageh i nport s =
     (let ichan = page_chan nport in if ichan = -1 then 0 else ucast (dma_pageh (chan_of i (nat ichan) s)))"

section \<open>Channel registers\<close>

definition init_chan :: "nat \<Rightarrow> nat \<Rightarrow> dma_state \<Rightarrow> dma_state res" where
  "init_chan i c s =
     res_bind (c_shl (uint (base_addr (chan_of i c s))) (dshift (cont_of i s)))
       (\<lambda>a. Inr (upd_chan i c (\<lambda>r. r\<lparr>now_addr := a, now_count := 0\<rparr>) s))"

definition getff :: "nat \<Rightarrow> dma_state \<Rightarrow> int \<times> dma_state" where
  "getff i s =
     (let ff = flip_flop (cont_of i s)
      in (uint ff, upd_cont i (\<lambda>d. d\<lparr>flip_flop := (if ff = 0 then 1 else 0)\<rparr>) s))"

definition iport_of :: "nat \<Rightarrow> u32 \<Rightarrow> dma_state \<Rightarrow> nat res" where
  "iport_of i nport s =
     (let n = dshift (cont_of i s) in
      if 0 \<le> n \<and> n < 32 then Inr (unat (drop_bit (nat n) nport AND 0xf)) else Inl Bad_access)"

definition read_chan :: "nat \<Rightarrow> u32 \<Rightarrow> dma_state \<Rightarrow> (u32 \<times> dma_state) res" where
  "read_chan i nport s =
     res_bind (iport_of i nport s) (\<lambda>iport.
       (let ichan = iport div 2; nreg = iport mod 2; r = chan_of i ichan s;
            dir = (if bit (dma_mode r) 5 then -1 else 1); (ff, s1) = getff i s; n = dshift (cont_of i s) in
        if ichan \<ge> 4 then Inl Bad_access
        else
          res_bind (if nreg = 1 then res_bind (c_shl (uint (base_count r)) n) (\<lambda>b. Inr (b - now_count r))
                    else Inr (now_addr r + now_count r * dir))
            (\<lambda>val. if n + ff * 8 < 32 then Inr (word_of_int (drop_bit (nat (n + ff * 8)) val AND 0xff), s1)
                   else Inl Bad_access)))"

definition set_base :: "nat \<Rightarrow> (u16 \<Rightarrow> u16) \<Rightarrow> dma_regs \<Rightarrow> dma_regs" where
  "set_base nreg f r = (if nreg = 0 then r\<lparr>base_addr := f (base_addr r)\<rparr> else r\<lparr>base_count := f (base_count r)\<rparr>)"

definition write_chan :: "nat \<Rightarrow> u32 \<Rightarrow> u32 \<Rightarrow> dma_state \<Rightarrow> dma_state res" where
  "write_chan i nport data s =
     res_bind (iport_of i nport s) (\<lambda>iport.
       (let ichan = iport div 2; nreg = iport mod 2; (ff, s1) = getff i s in
        if ichan \<ge> 4 then Inl Bad_access
        else if ff \<noteq> 0 then
          init_chan i ichan
            (upd_chan i ichan (set_base nreg (\<lambda>b. (b AND 0xff) OR ucast (push_bit 8 data AND 0xff00))) s1)
        else Inr (upd_chan i ichan (set_base nreg (\<lambda>b. (b AND 0xff00) OR ucast (data AND 0xff))) s1)))"

section \<open>Running channels\<close>

definition dma_phony_handler :: "int \<Rightarrow> int \<Rightarrow> int \<Rightarrow> int" where
  "dma_phony_handler nchan dma_pos dma_len = dma_pos"

definition call_handler ::
  "'m dma_code \<Rightarrow> dma_handler \<Rightarrow> nat \<Rightarrow> int \<Rightarrow> int \<Rightarrow> int \<Rightarrow> dma_state \<times> 'm \<Rightarrow> (int \<times> dma_state \<times> 'm) res" where
  "call_handler h f op nchan pos len sm =
     (case f of Dma_phony \<Rightarrow> Inr (dma_phony_handler nchan pos len, sm) | Dma_device n \<Rightarrow> h n op nchan pos len sm)"

definition channel_run :: "'m dma_code \<Rightarrow> nat \<Rightarrow> nat \<Rightarrow> dma_state \<times> 'm \<Rightarrow> (dma_state \<times> 'm) res" where
  "channel_run h ncont ichan sm =
     (let r = chan_of ncont ichan (fst sm) in
      case transfer_handler r of
        None \<Rightarrow> Inr sm
      | Some f \<Rightarrow>
          res_bind (call_handler h f (dma_opaque r) (int (ichan + 4 * ncont)) (now_count r)
              ((uint (base_count r) + 1) * 2 ^ ncont) sm)
            (\<lambda>(n, s, m). Inr (upd_chan ncont ichan (\<lambda>r. r\<lparr>now_count := n\<rparr>) s, m)))"

definition requesting :: "nat \<Rightarrow> nat \<Rightarrow> dma_state \<Rightarrow> bool" where
  "requesting icont ichan s \<longleftrightarrow>
     \<not> bit (dma_mask (cont_of icont s)) ichan \<and> bit (dma_status (cont_of icont s)) (ichan + 4)"

definition all_channels :: "(nat \<times> nat) list" where
  "all_channels = [(0, 0), (0, 1), (0, 2), (0, 3), (1, 0), (1, 1), (1, 2), (1, 3)]"

definition dma_run_step ::
  "'m dma_code \<Rightarrow> nat \<times> nat \<Rightarrow> bool \<times> dma_state \<times> 'm \<Rightarrow> (bool \<times> dma_state \<times> 'm) res" where
  "dma_run_step h ch st =
     (let (rearm, sm) = st in
      if requesting (fst ch) (snd ch) (fst sm)
      then res_bind (channel_run h (fst ch) (snd ch) sm) (\<lambda>sm. Inr (True, sm))
      else Inr (rearm, sm))"

definition DMA_run :: "'m dma_code \<Rightarrow> dma_state \<times> 'm \<Rightarrow> (dma_state \<times> 'm) res" where
  "DMA_run h sm =
     res_bind (res_fold (dma_run_step h) all_channels (False, sm))
       (\<lambda>(rearm, s, m). Inr (if rearm then s\<lparr>bh_scheduled := True\<rparr> else s, m))"

definition DMA_run_bh :: "'m dma_code \<Rightarrow> dma_state \<times> 'm \<Rightarrow> (dma_state \<times> 'm) res" where
  "DMA_run_bh h sm = DMA_run h sm"

definition on_dma :: "(dma_state \<Rightarrow> dma_state) \<Rightarrow> dma_state \<times> 'm \<Rightarrow> dma_state \<times> 'm" where
  "on_dma f sm = (f (fst sm), snd sm)"

section \<open>Controller registers\<close>

definition dreq_off :: "nat \<Rightarrow> u8 \<Rightarrow> u8" where
  "dreq_off ichan st = st AND NOT (push_bit (ichan + 4) 1)"

definition dreq_on :: "nat \<Rightarrow> u8 \<Rightarrow> u8" where
  "dreq_on ichan st = st OR push_bit (ichan + 4) 1"

definition software_request :: "u32 \<Rightarrow> u8 \<Rightarrow> u8" where
  "software_request data st =
     (let ichan = unat (data AND 3)
      in (if data AND 4 \<noteq> 0 then dreq_on ichan st else dreq_off ichan st) AND NOT (push_bit ichan 1))"

definition single_mask :: "u32 \<Rightarrow> u8 \<Rightarrow> u8" where
  "single_mask data mk =
     (if data AND 4 \<noteq> 0 then mk OR push_bit (unat (data AND 3)) 1
      else mk AND NOT (push_bit (unat (data AND 3)) 1))"

definition write_cont :: "'m dma_code \<Rightarrow> nat \<Rightarrow> u32 \<Rightarrow> u32 \<Rightarrow> dma_state \<times> 'm \<Rightarrow> (dma_state \<times> 'm) res" where
  "write_cont h i nport data sm =
     res_bind (iport_of i nport (fst sm)) (\<lambda>iport.
       if iport = 0x08 then
         (if data \<noteq> 0 \<and> data AND CMD_NOT_SUPPORTED \<noteq> 0 then Inr sm
          else Inr (on_dma (upd_cont i (\<lambda>d. d\<lparr>dma_command := ucast data\<rparr>)) sm))
       else if iport = 0x09 then
         DMA_run h (on_dma (upd_cont i (\<lambda>d. d\<lparr>dma_status := software_request data (dma_status d)\<rparr>)) sm)
       else if iport = 0x0a then
         DMA_run h (on_dma (upd_cont i (\<lambda>d. d\<lparr>dma_mask := single_mask data (dma_mask d)\<rparr>)) sm)
       else if iport = 0x0b then
         Inr (on_dma (upd_chan i (unat (data AND 3)) (\<lambda>r. r\<lparr>dma_mode := ucast data\<rparr>)) sm)
       else if iport = 0x0c then Inr (on_dma (upd_cont i (\<lambda>d. d\<lparr>flip_flop := 0\<rparr>)) sm)
       else if iport = 0x0d then
         Inr (on_dma (upd_cont i (\<lambda>d. d\<lparr>flip_flop := 0, dma_mask := 0xff, dma_status := 0, dma_command := 0\<rparr>)) sm)
       else if iport = 0x0e then DMA_run h (on_dma (upd_cont i (\<lambda>d. d\<lparr>dma_mask := 0\<rparr>)) sm)
       else if iport = 0x0f then DMA_run h (on_dma (upd_cont i (\<lambda>d. d\<lparr>dma_mask := ucast data\<rparr>)) sm)
       else Inr sm)"

definition read_cont :: "nat \<Rightarrow> u32 \<Rightarrow> dma_state \<Rightarrow> (u32 \<times> dma_state) res" where
  "read_cont i nport s =
     res_bind (iport_of i nport s) (\<lambda>iport.
       if iport = 0x08 then
         Inr (ucast (dma_status (cont_of i s)), upd_cont i (\<lambda>d. d\<lparr>dma_status := dma_status d AND 0xf0\<rparr>) s)
       else if iport = 0x0f then Inr (ucast (dma_mask (cont_of i s)), s)
       else Inr (0, s))"

section \<open>Interface to the devices\<close>

definition ncont_of :: "int \<Rightarrow> nat" where
  "ncont_of nchan = (if nchan > 3 then 1 else 0)"

definition ichan_of :: "int \<Rightarrow> nat" where
  "ichan_of nchan = nat (nchan AND 3)"

definition DMA_get_channel_mode :: "int \<Rightarrow> dma_state \<Rightarrow> int" where
  "DMA_get_channel_mode nchan s = uint (dma_mode (chan_of (ncont_of nchan) (ichan_of nchan) s))"

definition DMA_hold_DREQ :: "'m dma_code \<Rightarrow> int \<Rightarrow> dma_state \<times> 'm \<Rightarrow> (dma_state \<times> 'm) res" where
  "DMA_hold_DREQ h nchan sm =
     DMA_run h (on_dma (upd_cont (ncont_of nchan) (\<lambda>d. d\<lparr>dma_status := dreq_on (ichan_of nchan) (dma_status d)\<rparr>)) sm)"

definition DMA_release_DREQ :: "'m dma_code \<Rightarrow> int \<Rightarrow> dma_state \<times> 'm \<Rightarrow> (dma_state \<times> 'm) res" where
  "DMA_release_DREQ h nchan sm =
     DMA_run h (on_dma (upd_cont (ncont_of nchan) (\<lambda>d. d\<lparr>dma_status := dreq_off (ichan_of nchan) (dma_status d)\<rparr>)) sm)"

definition DMA_register_channel :: "int \<Rightarrow> dma_handler option \<Rightarrow> nat \<Rightarrow> dma_state \<Rightarrow> dma_state" where
  "DMA_register_channel nchan f op s =
     upd_chan (ncont_of nchan) (ichan_of nchan) (\<lambda>r. r\<lparr>transfer_handler := f, dma_opaque := op\<rparr>) s"

definition transfer_addr :: "dma_regs \<Rightarrow> u64" where
  "transfer_addr r = word_of_int ((push_bit 24 (uint (dma_pageh r) AND 0x7f)) OR push_bit 16 (uint (dma_page r)) OR now_addr r)"

text \<open>The loop that copies bytes of the buffer to their mirror positions, \<open>n\<close> times.\<close>

definition mirror :: "nat \<Rightarrow> nat \<Rightarrow> u8 list \<Rightarrow> u8 list" where
  "mirror n len p = fold (\<lambda>i p. p[i := p ! (len - i - 1)]) [0..<n] p"

definition DMA_read_memory ::
  "('a mem_bus_scheme, 'c) mem_code_scheme \<Rightarrow> int \<Rightarrow> u8 list \<Rightarrow> int \<Rightarrow> int \<Rightarrow> dma_state \<times> 'a mem_bus_scheme
     \<Rightarrow> ((int \<times> u8 list) \<times> dma_state \<times> 'a mem_bus_scheme) res" where
  "DMA_read_memory c nchan buf pos len sm =
     (let r = chan_of (ncont_of nchan) (ichan_of nchan) (fst sm); addr = transfer_addr r in
      if dma_mode r AND 0x20 \<noteq> 0 then
        res_bind (cpu_physical_memory_rw c (addr - word_of_int pos - word_of_int len) buf len False (snd sm))
          (\<lambda>(p, m). Inr ((len, mirror (nat (len div 2)) (nat len) p), fst sm, m))
      else
        res_bind (cpu_physical_memory_rw c (addr + word_of_int pos) buf len False (snd sm))
          (\<lambda>(p, m). Inr ((len, p), fst sm, m)))"

definition DMA_write_memory ::
  "('a mem_bus_scheme, 'c) mem_code_scheme \<Rightarrow> int \<Rightarrow> u8 list \<Rightarrow> int \<Rightarrow> int \<Rightarrow> dma_state \<times> 'a mem_bus_scheme
     \<Rightarrow> ((int \<times> u8 list) \<times> dma_state \<times> 'a mem_bus_scheme) res" where
  "DMA_write_memory c nchan buf pos len sm =
     (let r = chan_of (ncont_of nchan) (ichan_of nchan) (fst sm); addr = transfer_addr r in
      if dma_mode r AND 0x20 \<noteq> 0 then
        res_bind (cpu_physical_memory_rw c (addr - word_of_int pos - word_of_int len) buf len True (snd sm))
          (\<lambda>(p, m). Inr ((len, mirror (nat len) (nat len) p), fst sm, m))
      else
        res_bind (cpu_physical_memory_rw c (addr + word_of_int pos) buf len True (snd sm))
          (\<lambda>(p, m). Inr ((len, p), fst sm, m)))"

section \<open>Reset, initialisation and snapshot\<close>

definition dma_reset :: "'m dma_code \<Rightarrow> nat \<Rightarrow> dma_state \<times> 'm \<Rightarrow> (dma_state \<times> 'm) res" where
  "dma_reset h i sm =
     res_bind (c_shl 0x0d (dshift (cont_of i (fst sm)))) (\<lambda>p. write_cont h i (word_of_int p) 0 sm)"

definition dma_init2 :: "'m dma_code \<Rightarrow> nat \<Rightarrow> int \<Rightarrow> dma_state \<times> 'm \<Rightarrow> (dma_state \<times> 'm) res" where
  "dma_init2 h i sh sm =
     res_bind (dma_reset h i (on_dma (upd_cont i (\<lambda>d. d\<lparr>dshift := sh\<rparr>)) sm))
       (\<lambda>sm. Inr (on_dma (upd_cont i (\<lambda>d. d\<lparr>dma_chans := map (\<lambda>r. r\<lparr>transfer_handler := Some Dma_phony\<rparr>) (dma_chans d)\<rparr>)) sm))"

definition dma_zero :: dma_state where
  "dma_zero =
     (let r = \<lparr>now_addr = 0, now_count = 0, base_addr = 0, base_count = 0, dma_mode = 0, dma_page = 0, dma_pageh = 0,
               dma_dack = 0, dma_eop = 0, transfer_handler = None, dma_opaque = 0\<rparr>;
          d = \<lparr>dma_status = 0, dma_command = 0, dma_mask = 0, flip_flop = 0, dshift = 0, dma_chans = replicate 4 r\<rparr>
      in \<lparr>dma_controllers = [d, d], bh_scheduled = False\<rparr>)"

definition DMA_init :: "'m dma_code \<Rightarrow> dma_state \<times> 'm \<Rightarrow> (dma_state \<times> 'm) res" where
  "DMA_init h sm = res_bind (dma_init2 h 0 0 sm) (dma_init2 h 1 1)"

definition put_chan :: "dma_regs \<Rightarrow> qemu_file \<Rightarrow> qemu_file res" where
  "put_chan r f =
     res_bind (qemu_put_be32 (word_of_int (now_addr r)) f) (\<lambda>f.
     res_bind (qemu_put_be32 (word_of_int (now_count r)) f) (\<lambda>f.
     res_bind (qemu_put_be16 (base_addr r) f) (\<lambda>f. res_bind (qemu_put_be16 (base_count r) f) (\<lambda>f.
     res_bind (qemu_put_8s (dma_mode r) f) (\<lambda>f. res_bind (qemu_put_8s (dma_page r) f) (\<lambda>f.
     res_bind (qemu_put_8s (dma_pageh r) f) (\<lambda>f. res_bind (qemu_put_8s (dma_dack r) f) (\<lambda>f.
     qemu_put_8s (dma_eop r) f))))))))"

definition dma_save :: "nat \<Rightarrow> dma_state \<Rightarrow> qemu_file \<Rightarrow> qemu_file res" where
  "dma_save i s f =
     (let d = cont_of i s in
      res_bind (qemu_put_8s (dma_command d) f) (\<lambda>f. res_bind (qemu_put_8s (dma_mask d) f) (\<lambda>f.
      res_bind (qemu_put_8s (flip_flop d) f) (\<lambda>f. res_bind (qemu_put_be32 (word_of_int (dshift d)) f)
        (res_fold put_chan (dma_chans d))))))"

definition get_chan :: "dma_regs \<Rightarrow> qemu_file \<Rightarrow> (dma_regs \<times> qemu_file) res" where
  "get_chan r f =
     res_bind (qemu_get_be32 f) (\<lambda>(na, f). res_bind (qemu_get_be32 f) (\<lambda>(nc, f).
     res_bind (qemu_get_be16 f) (\<lambda>(ba, f). res_bind (qemu_get_be16 f) (\<lambda>(bc, f).
     res_bind (qemu_get_byte f) (\<lambda>(md, f). res_bind (qemu_get_byte f) (\<lambda>(pg, f).
     res_bind (qemu_get_byte f) (\<lambda>(ph, f). res_bind (qemu_get_byte f) (\<lambda>(dk, f).
     res_bind (qemu_get_byte f) (\<lambda>(eo, f).
       Inr (r\<lparr>now_addr := sint na, now_count := sint nc, base_addr := ba, base_count := bc, dma_mode := md,
              dma_page := pg, dma_pageh := ph, dma_dack := dk, dma_eop := eo\<rparr>, f))))))))))"

fun get_chans :: "dma_regs list \<Rightarrow> qemu_file \<Rightarrow> (dma_regs list \<times> qemu_file) res" where
  "get_chans [] f = Inr ([], f)"
| "get_chans (r # rs) f =
     res_bind (get_chan r f) (\<lambda>(r', f). res_bind (get_chans rs f) (\<lambda>(rs', f). Inr (r' # rs', f)))"

definition dma_load ::
  "'m dma_code \<Rightarrow> nat \<Rightarrow> dma_state \<times> 'm \<Rightarrow> int \<Rightarrow> qemu_file \<Rightarrow> ((int \<times> dma_state \<times> 'm) \<times> qemu_file) res" where
  "dma_load h i sm version_id f =
     (if version_id \<noteq> 1 then Inr ((-22, sm), f)
      else
        res_bind (qemu_get_byte f) (\<lambda>(cmd, f). res_bind (qemu_get_byte f) (\<lambda>(mk, f).
        res_bind (qemu_get_byte f) (\<lambda>(ff, f). res_bind (qemu_get_be32 f) (\<lambda>(sh, f).
        res_bind (get_chans (dma_chans (cont_of i (fst sm))) f) (\<lambda>(rs, f).
        res_bind (DMA_run h (on_dma (upd_cont i (\<lambda>d. d\<lparr>dma_command := cmd, dma_mask := mk, flip_flop := ff,
            dshift := sint sh, dma_chans := rs\<rparr>)) sm))
          (\<lambda>sm. Inr ((0, sm), f))))))))"

section \<open>The guest's ports\<close>

text \<open>Which port handler of which controller \<^verbatim>\<open>DMA_init(0)\<close> registers for a port.\<close>

datatype dma_fn = Write_chan | Read_chan | Write_page | Read_page | Write_cont | Read_cont

definition page_port_list :: "nat list" where
  "page_port_list = [0x1, 0x2, 0x3, 0x7]"

fun dma_call_write :: "'m dma_code \<Rightarrow> dma_fn \<Rightarrow> nat \<Rightarrow> u32 \<Rightarrow> u32 \<Rightarrow> dma_state \<times> 'm \<Rightarrow> (dma_state \<times> 'm) res" where
  "dma_call_write h Write_chan i p v sm = res_bind (write_chan i p v (fst sm)) (\<lambda>s. Inr (s, snd sm))"
| "dma_call_write h Write_page i p v sm = Inr (on_dma (write_page i p v) sm)"
| "dma_call_write h Write_cont i p v sm = write_cont h i p v sm"
| "dma_call_write h _ i p v sm = Inl Bad_access"

fun dma_call_read :: "dma_fn \<Rightarrow> nat \<Rightarrow> u32 \<Rightarrow> dma_state \<Rightarrow> (u32 \<times> dma_state) res" where
  "dma_call_read Read_chan i p s = read_chan i p s"
| "dma_call_read Read_page i p s = Inr (read_page i p s, s)"
| "dma_call_read Read_cont i p s = read_cont i p s"
| "dma_call_read _ i p s = Inl Bad_access"

definition dma_ports2 :: "nat \<Rightarrow> nat \<Rightarrow> nat \<Rightarrow> (nat \<times> dma_fn \<times> dma_fn) list" where
  "dma_ports2 base sh page_base =
     map (\<lambda>i. (base + push_bit sh i, Write_chan, Read_chan)) [0..<8]
     @ map (\<lambda>p. (page_base + p, Write_page, Read_page)) page_port_list
     @ map (\<lambda>i. (base + push_bit sh (i + 8), Write_cont, Read_cont)) [0..<8]"

definition dma_ports :: "(nat \<times> dma_fn \<times> dma_fn \<times> nat) list" where
  "dma_ports = map (\<lambda>(p, w, r). (p, w, r, 0)) (dma_ports2 0x00 0 0x80) @ map (\<lambda>(p, w, r). (p, w, r, 1)) (dma_ports2 0xc0 1 0x88)"

section \<open>Well-formed controllers\<close>

definition dma_chan_ok :: "nat \<Rightarrow> dma_regs \<Rightarrow> bool" where
  "dma_chan_ok i r \<longleftrightarrow> dma_pageh r = 0 \<and> 0 \<le> now_addr r \<and> now_addr r \<le> 0xffff * 2 ^ i"

definition dma_cont_ok :: "nat \<Rightarrow> dma_cont \<Rightarrow> bool" where
  "dma_cont_ok i d \<longleftrightarrow> length (dma_chans d) = 4 \<and> dshift d = int i \<and> (flip_flop d = 0 \<or> flip_flop d = 1)
     \<and> (\<forall>r \<in> set (dma_chans d). dma_chan_ok i r)"

definition dma_wf :: "dma_state \<Rightarrow> bool" where
  "dma_wf s \<longleftrightarrow> length (dma_controllers s) = 2 \<and> (\<forall>i<2. dma_cont_ok i (cont_of i s))"

lemma cont_upd [simp]:
  "i < length (dma_controllers s) \<Longrightarrow> cont_of i (upd_cont i f s) = f (cont_of i s)"
  "j \<noteq> i \<Longrightarrow> cont_of j (upd_cont i f s) = cont_of j s"
  "length (dma_controllers (upd_cont i f s)) = length (dma_controllers s)"
  "bh_scheduled (upd_cont i f s) = bh_scheduled s"
  by (simp_all add: cont_of_def upd_cont_def)

lemma cont_bh [simp]: "cont_of i (s\<lparr>bh_scheduled := b\<rparr>) = cont_of i s" "chan_of i c (s\<lparr>bh_scheduled := b\<rparr>) = chan_of i c s"
  by (simp_all add: cont_of_def chan_of_def)

lemma upd_cont_wf:
  assumes "dma_wf s" "i < 2" "dma_cont_ok i (cont_of i s) \<Longrightarrow> dma_cont_ok i (f (cont_of i s))"
  shows "dma_wf (upd_cont i f s)"
proof -
  have "dma_cont_ok j (cont_of j (upd_cont i f s))" if "j < 2" for j
    using assms that by (cases "j = i") (simp_all add: dma_wf_def)
  then show ?thesis using assms by (simp add: dma_wf_def)
qed

lemma upd_chan_wf:
  assumes "dma_wf s" "i < 2" "c < 4" "dma_chan_ok i (chan_of i c s) \<Longrightarrow> dma_chan_ok i (f (chan_of i c s))"
  shows "dma_wf (upd_chan i c f s)"
proof -
  have d: "dma_cont_ok i (cont_of i s)" using assms(1,2) by (simp add: dma_wf_def)
  then have "chan_of i c s \<in> set (dma_chans (cont_of i s))" using assms(3) by (simp add: chan_of_def dma_cont_ok_def)
  then have "dma_chan_ok i (f (chan_of i c s))" using d assms(4) by (simp add: dma_cont_ok_def)
  then show ?thesis
    unfolding upd_chan_def using d
    by (intro upd_cont_wf assms(1,2)) (auto simp: dma_cont_ok_def dest!: set_update_subset_insert [THEN subsetD])
qed

lemma wf_chan: "dma_wf s \<Longrightarrow> i < 2 \<Longrightarrow> c < 4 \<Longrightarrow> dma_chan_ok i (chan_of i c s)"
  by (auto simp: dma_wf_def dma_cont_ok_def chan_of_def)

lemma wf_bh [simp]: "dma_wf (s\<lparr>bh_scheduled := b\<rparr>) = dma_wf s"
  by (simp add: dma_wf_def)

lemma shl_base: "i < 2 \<Longrightarrow> c_shl (uint (b::u16)) (int i) = Inr (uint b * 2 ^ i)"
proof -
  assume "i < 2"
  then have "i = 0 \<or> i = 1" by auto
  then show ?thesis using uint_lt2p [of b] by (auto simp: c_shl_def)
qed

lemma iport_wf: "dma_wf s \<Longrightarrow> i < 2 \<Longrightarrow> iport_of i p s = Inr (unat (drop_bit i p AND 0xf))"
  by (auto simp: iport_of_def dma_wf_def dma_cont_ok_def)

lemma iport_less: "unat ((w::u32) AND 0xf) < 16"
  using unat_and_le [of w "0xf"] by simp

lemma getff_wf:
  assumes "dma_wf s" "i < 2"
  shows "dma_wf (snd (getff i s))" "fst (getff i s) = 0 \<or> fst (getff i s) = 1"
    "chan_of j c (snd (getff i s)) = chan_of j c s" "dshift (cont_of j (snd (getff i s))) = dshift (cont_of j s)"
proof -
  have d: "dma_cont_ok i (cont_of i s)" "length (dma_controllers s) = 2" using assms by (simp_all add: dma_wf_def)
  show "dma_wf (snd (getff i s))" unfolding getff_def Let_def snd_conv
    by (rule upd_cont_wf [OF assms]) (simp add: dma_cont_ok_def)
  show "fst (getff i s) = 0 \<or> fst (getff i s) = 1" using d(1) by (auto simp: getff_def dma_cont_ok_def Let_def)
  show "chan_of j c (snd (getff i s)) = chan_of j c s" "dshift (cont_of j (snd (getff i s))) = dshift (cont_of j s)"
    using assms(2) d(2) by (cases "j = i"; simp add: getff_def chan_of_def Let_def)+
qed

lemma init_chan_wf:
  assumes "dma_wf s" "i < 2" "c < 4"
  shows "returns dma_wf (init_chan i c s)"
proof -
  have "dshift (cont_of i s) = int i" using assms(1,2) by (simp add: dma_wf_def dma_cont_ok_def)
  then have i: "init_chan i c s = Inr (upd_chan i c (\<lambda>r. r\<lparr>now_addr := uint (base_addr (chan_of i c s)) * 2 ^ i, now_count := 0\<rparr>) s)"
    using shl_base [OF assms(2)] by (simp add: init_chan_def)
  have "uint (base_addr (chan_of i c s)) * 2 ^ i \<le> 0xffff * 2 ^ i"
    using uint_lt2p [of "base_addr (chan_of i c s)"] by (intro mult_right_mono) simp_all
  then show ?thesis unfolding i using upd_chan_wf [OF assms] by (auto simp: dma_chan_ok_def)
qed

lemma set_base_ok [simp]: "dma_chan_ok i (set_base n f r) = dma_chan_ok i r"
  by (simp add: set_base_def dma_chan_ok_def)

lemma write_chan_wf:
  assumes "dma_wf s" "i < 2" "unat (drop_bit i p AND 0xf) < 8"
  shows "returns dma_wf (write_chan i p v s)"
proof -
  let ?c = "unat (drop_bit i p AND 0xf) div 2"
  have c: "?c < 4" using assms(3) by simp
  obtain ff s1 where g: "getff i s = (ff, s1)" by fastforce
  have w: "dma_wf (upd_chan i ?c (set_base n f) s1)" for n f
    using upd_chan_wf [OF _ assms(2) c] getff_wf(1) [OF assms(1,2)] g by simp
  show ?thesis
    using init_chan_wf [OF w assms(2) c] w c by (simp add: write_chan_def iport_wf [OF assms(1,2)] g Let_def)
qed

lemma read_chan_wf:
  assumes "dma_wf s" "i < 2" "unat (drop_bit i p AND 0xf) < 8"
  shows "returns (\<lambda>(v, s'). dma_wf s') (read_chan i p s)"
proof -
  let ?c = "unat (drop_bit i p AND 0xf) div 2"
  have c: "?c < 4" using assms(3) by simp
  obtain ff s1 where g: "getff i s = (ff, s1)" by fastforce
  have d: "dshift (cont_of i s) = int i" "dma_wf s1" "int i + ff * 8 < 32"
    using assms(1,2) getff_wf [OF assms(1,2)] g by (auto simp: dma_wf_def dma_cont_ok_def)
  show ?thesis using d c by (simp add: read_chan_def iport_wf [OF assms(1,2)] g Let_def shl_base [OF assms(2)])
qed

lemma page_chan_cases: "page_chan p \<in> {-1, 0, 1, 2, 3}"
proof -
  have "unat (p AND 7) < 8" using unat_and_le [of p 7] by simp
  then show ?thesis by (auto simp: page_chan_def channels_def less_Suc_eq numeral_eq_Suc)
qed

lemma write_page_wf: "dma_wf s \<Longrightarrow> i < 2 \<Longrightarrow> dma_wf (write_page i p v s)"
  using page_chan_cases [of p] by (auto simp: write_page_def Let_def dma_chan_ok_def intro!: upd_chan_wf)

lemma read_cont_wf: "dma_wf s \<Longrightarrow> i < 2 \<Longrightarrow> returns (\<lambda>(v, s'). dma_wf s') (read_cont i p s)"
  by (auto simp: read_cont_def iport_wf dma_cont_ok_def intro!: upd_cont_wf)

text \<open>Handlers that return and keep the controllers well formed.\<close>

abbreviation (input) "ok_pair \<equiv> \<lambda>sm. dma_wf (fst sm)"

definition dma_handlers_safe :: "'m dma_code \<Rightarrow> bool" where
  "dma_handlers_safe h \<longleftrightarrow> (\<forall>fn op ch pos len sm. ok_pair sm \<longrightarrow> returns (\<lambda>(n, sm'). ok_pair sm') (h fn op ch pos len sm))"

lemma channel_run_wf:
  assumes "dma_handlers_safe h" "ok_pair sm" "i < 2" "c < 4"
  shows "returns ok_pair (channel_run h i c sm)"
proof (cases "transfer_handler (chan_of i c (fst sm))")
  case None
  then show ?thesis using assms(2) by (simp add: channel_run_def)
next
  case (Some f)
  have "returns (\<lambda>(n, sm'). ok_pair sm') (call_handler h f op ch pos len sm)" for op ch pos len
    using assms(1,2) by (cases sm; cases f) (simp_all add: call_handler_def dma_handlers_safe_def)
  then show ?thesis unfolding channel_run_def Let_def Some option.case
    by (rule returns_bind) (auto simp: dma_chan_ok_def intro!: upd_chan_wf assms(3,4))
qed

lemma DMA_run_wf:
  assumes "dma_handlers_safe h" "ok_pair sm"
  shows "returns ok_pair (DMA_run h sm)"
proof -
  have "returns (\<lambda>st. ok_pair (snd st)) (dma_run_step h ch st)" if "ch \<in> set all_channels" "ok_pair (snd st)" for ch st
  proof -
    have "fst ch < 2" "snd ch < 4" using that(1) by (auto simp: all_channels_def)
    then have "returns (\<lambda>st. ok_pair (snd st)) (res_bind (channel_run h (fst ch) (snd ch) (snd st)) (\<lambda>sm. Inr (True, sm)))"
      by (intro returns_bind [OF channel_run_wf [OF assms(1) that(2)]]) simp_all
    then show ?thesis using that(2) by (simp add: dma_run_step_def Let_def split_def)
  qed
  from returns_fold [of all_channels _ "dma_run_step h", OF this] have
    "returns (\<lambda>st. ok_pair (snd st)) (res_fold (dma_run_step h) all_channels (False, sm))" using assms(2) by simp
  then show ?thesis unfolding DMA_run_def by (rule returns_bind) auto
qed

lemma write_cont_wf:
  assumes "dma_handlers_safe h" "ok_pair sm" "i < 2"
  shows "returns ok_pair (write_cont h i p v sm)"
proof -
  have u: "ok_pair (on_dma (upd_cont i f) sm)" if "\<And>d. dma_cont_ok i d \<Longrightarrow> dma_cont_ok i (f d)" for f
    using upd_cont_wf [OF assms(2,3)] that by (simp add: on_dma_def)
  have c: "ok_pair (on_dma (upd_chan i (unat (v AND 3)) (\<lambda>r. r\<lparr>dma_mode := x\<rparr>)) sm)" for x
    using upd_chan_wf [OF assms(2,3), of "unat (v AND 3)"] unat_and_le [of v 3] by (simp add: on_dma_def dma_chan_ok_def)
  have m: "returns ok_pair (DMA_run h (on_dma (upd_cont i (\<lambda>d. d\<lparr>dma_mask := f d\<rparr>)) sm))"
    "returns ok_pair (DMA_run h (on_dma (upd_cont i (\<lambda>d. d\<lparr>dma_status := g d\<rparr>)) sm))" for f g
    by (rule DMA_run_wf [OF assms(1) u]; simp add: dma_cont_ok_def)+
  have s: "ok_pair (on_dma (upd_cont i (\<lambda>d. d\<lparr>dma_command := x\<rparr>)) sm)" "ok_pair (on_dma (upd_cont i (\<lambda>d. d\<lparr>flip_flop := 0\<rparr>)) sm)"
    "ok_pair (on_dma (upd_cont i (\<lambda>d. d\<lparr>flip_flop := 0, dma_mask := 0xff, dma_status := 0, dma_command := 0\<rparr>)) sm)" for x
    by (rule u; simp add: dma_cont_ok_def)+
  show ?thesis unfolding write_cont_def iport_wf [OF assms(2,3)] res_bind.simps
    using assms(2) c m s by simp
qed

section \<open>Every port is served\<close>

text \<open>The ports of a handler decode to registers it has: channel handlers see register numbers below 8.\<close>

lemma dma_ports_eq: "dma_ports =
   [(0x00, Write_chan, Read_chan, 0), (0x01, Write_chan, Read_chan, 0), (0x02, Write_chan, Read_chan, 0), (0x03, Write_chan, Read_chan, 0),
    (0x04, Write_chan, Read_chan, 0), (0x05, Write_chan, Read_chan, 0), (0x06, Write_chan, Read_chan, 0), (0x07, Write_chan, Read_chan, 0),
    (0x81, Write_page, Read_page, 0), (0x82, Write_page, Read_page, 0), (0x83, Write_page, Read_page, 0), (0x87, Write_page, Read_page, 0),
    (0x08, Write_cont, Read_cont, 0), (0x09, Write_cont, Read_cont, 0), (0x0a, Write_cont, Read_cont, 0), (0x0b, Write_cont, Read_cont, 0),
    (0x0c, Write_cont, Read_cont, 0), (0x0d, Write_cont, Read_cont, 0), (0x0e, Write_cont, Read_cont, 0), (0x0f, Write_cont, Read_cont, 0),
    (0xc0, Write_chan, Read_chan, 1), (0xc2, Write_chan, Read_chan, 1), (0xc4, Write_chan, Read_chan, 1), (0xc6, Write_chan, Read_chan, 1),
    (0xc8, Write_chan, Read_chan, 1), (0xca, Write_chan, Read_chan, 1), (0xcc, Write_chan, Read_chan, 1), (0xce, Write_chan, Read_chan, 1),
    (0x89, Write_page, Read_page, 1), (0x8a, Write_page, Read_page, 1), (0x8b, Write_page, Read_page, 1), (0x8f, Write_page, Read_page, 1),
    (0xd0, Write_cont, Read_cont, 1), (0xd2, Write_cont, Read_cont, 1), (0xd4, Write_cont, Read_cont, 1), (0xd6, Write_cont, Read_cont, 1),
    (0xd8, Write_cont, Read_cont, 1), (0xda, Write_cont, Read_cont, 1), (0xdc, Write_cont, Read_cont, 1), (0xde, Write_cont, Read_cont, 1)]"
  by (simp add: dma_ports_def dma_ports2_def page_port_list_def upt_rec push_bit_eq_mult)

lemma dma_ports_table:
  assumes "(p, w, r, i) \<in> set dma_ports"
  shows "i < 2 \<and> p < 65536 \<and> (w = Write_chan \<and> r = Read_chan \<and> unat (drop_bit i (of_nat p :: u32) AND 0xf) < 8
       \<or> w = Write_page \<and> r = Read_page \<or> w = Write_cont \<and> r = Read_cont)"
proof -
  have "list_all (\<lambda>(p, w, r, i). i < 2 \<and> p < 65536 \<and> (w = Write_chan \<and> r = Read_chan \<and> unat (drop_bit i (of_nat p :: u32) AND 0xf) < 8
       \<or> w = Write_page \<and> r = Read_page \<or> w = Write_cont \<and> r = Read_cont)) dma_ports"
    unfolding dma_ports_eq by simp
  then show ?thesis using assms by (auto simp: list_all_iff)
qed

lemma dma_port_write_wf:
  assumes "(p, w, r, i) \<in> set dma_ports" "dma_handlers_safe h" "ok_pair sm"
  shows "returns ok_pair (dma_call_write h w i (of_nat p) v sm)"
proof -
  note t = dma_ports_table [OF assms(1)]
  consider (chan) "w = Write_chan" "unat (drop_bit i (of_nat p :: u32) AND 0xf) < 8" | (page) "w = Write_page" | (cont) "w = Write_cont"
    using t by blast
  then show ?thesis
  proof cases
    case chan
    then show ?thesis using t unfolding chan(1) dma_call_write.simps
      by (intro returns_bind [OF write_chan_wf [OF assms(3)]]) simp_all
  next
    case page
    then show ?thesis using write_page_wf [OF assms(3)] t by (simp add: on_dma_def)
  next
    case cont
    then show ?thesis using write_cont_wf [OF assms(2,3)] t by simp
  qed
qed

lemma dma_port_read_wf:
  assumes "(p, w, r, i) \<in> set dma_ports" "dma_wf s"
  shows "returns (\<lambda>(v, s'). dma_wf s') (dma_call_read r i (of_nat p) s)"
proof -
  note t = dma_ports_table [OF assms(1)]
  consider (chan) "r = Read_chan" "unat (drop_bit i (of_nat p :: u32) AND 0xf) < 8" | (page) "r = Read_page" | (cont) "r = Read_cont"
    using t by blast
  then show ?thesis using read_chan_wf [OF assms(2)] read_cont_wf [OF assms(2)] t assms(2) by cases simp_all
qed

text \<open>Whatever port a handler is called for, a call that returns keeps the controllers well formed.\<close>

lemma dma_call_write_wf:
  assumes "dma_handlers_safe h" "ok_pair sm" "i < 2" "dma_call_write h k i p v sm = Inr sm'"
  shows "ok_pair sm'"
proof (cases k)
  case Write_chan
  have "unat (drop_bit i p AND 0xf) < 8"
  proof (rule ccontr)
    assume "\<not> ?thesis"
    then have "4 \<le> unat (drop_bit i p AND 0xf) div 2" by linarith
    then have "write_chan i p v (fst sm) = Inl Bad_access"
      by (simp add: write_chan_def iport_wf [OF assms(2,3)] Let_def split_def)
    then show False using assms(4) Write_chan by simp
  qed
  then show ?thesis using assms(4) Write_chan returnsD [OF write_chan_wf [OF assms(2,3)]] by (auto simp: res_bind_Inr_iff)
next
  case Write_page
  then show ?thesis using assms(4) write_page_wf [OF assms(2,3)] by (auto simp: on_dma_def)
next
  case Write_cont
  then show ?thesis using assms(4) returnsD [OF write_cont_wf [OF assms(1-3)]] by simp
qed (use assms(4) in simp_all)

lemma dma_call_read_wf:
  assumes "dma_wf s" "i < 2" "dma_call_read k i p s = Inr (v, s')"
  shows "dma_wf s'"
proof (cases k)
  case Read_chan
  have "unat (drop_bit i p AND 0xf) < 8"
  proof (rule ccontr)
    assume "\<not> ?thesis"
    then have "4 \<le> unat (drop_bit i p AND 0xf) div 2" by linarith
    then have "read_chan i p s = Inl Bad_access" by (simp add: read_chan_def iport_wf [OF assms(1,2)] Let_def split_def)
    then show False using assms(3) Read_chan by simp
  qed
  then show ?thesis using assms(3) Read_chan returnsD [OF read_chan_wf [OF assms(1,2)]] by fastforce
next
  case Read_cont
  then show ?thesis using assms(3) returnsD [OF read_cont_wf [OF assms(1,2)]] by fastforce
qed (use assms in simp_all)

section \<open>The scan\<close>

text \<open>The reference for the scan, on the registers themselves: the request lines are the upper half of the status register, a set bit of
  the mask register disables a channel, and the channels are taken controller by controller.\<close>

definition wants_service :: "dma_state \<Rightarrow> nat \<times> nat \<Rightarrow> bool" where
  "wants_service s ch \<longleftrightarrow>
     (let d = dma_controllers s ! fst ch in bit (drop_bit 4 (dma_status d) AND NOT (dma_mask d)) (snd ch))"

definition active :: "dma_state \<Rightarrow> (nat \<times> nat) list" where
  "active s = filter (wants_service s) (List.product [0, 1] [0, 1, 2, 3])"

text \<open>Service of a channel: its handler is called with the number of the channel among the eight, the position reached, and the length
  of the transfer in bytes, which the second controller counts in words; the position it returns is stored.\<close>

definition serve_channel :: "'m dma_code \<Rightarrow> nat \<times> nat \<Rightarrow> dma_state \<times> 'm \<Rightarrow> (dma_state \<times> 'm) res" where
  "serve_channel h ch sm =
     (let (i, c) = ch; r = dma_chans (dma_controllers (fst sm) ! i) ! c;
          units = uint (base_count r) + 1; len = (if i = 0 then units else 2 * units);
          store = (\<lambda>(n, s, m). let d = dma_controllers s ! i in
            (s\<lparr>dma_controllers := (dma_controllers s)[i := d\<lparr>dma_chans := (dma_chans d)[c := (dma_chans d ! c)\<lparr>now_count := n\<rparr>]\<rparr>]\<rparr>, m)) in
      case transfer_handler r of
        None \<Rightarrow> Inr sm
      | Some Dma_phony \<Rightarrow> Inr (store (now_count r, sm))
      | Some (Dma_device f) \<Rightarrow> res_bind (h f (dma_opaque r) (int (4 * i + c)) (now_count r) len sm) (\<lambda>x. Inr (store x)))"

text \<open>Handlers may drop the request of their own channel, or run channels themselves, but leave the masks and the
  requests of the other channels alone.\<close>

definition dma_handlers_local :: "'m dma_code \<Rightarrow> bool" where
  "dma_handlers_local h \<longleftrightarrow> (\<forall>fn op i c pos len sm n sm'. h fn op (int (c + 4 * i)) pos len sm = Inr (n, sm')
     \<longrightarrow> (\<forall>ch. ch \<noteq> (i, c) \<longrightarrow> wants_service (fst sm') ch = wants_service (fst sm) ch))"

lemma requesting_iff: "requesting i c s \<longleftrightarrow> wants_service s (i, c)"
  by (auto simp: requesting_def wants_service_def cont_of_def bit_simps Let_def add.commute dest: bit_imp_le_length)

lemma active_requesting: "active s = filter (\<lambda>(i, c). requesting i c s) all_channels"
proof -
  have "(\<lambda>(i, c). requesting i c s) = wants_service s" by (auto simp: requesting_iff)
  then show ?thesis by (simp add: active_def all_channels_def)
qed

lemma channel_run_serves:
  assumes "i < 2"
  shows "channel_run h i c sm = serve_channel h (i, c) sm"
proof -
  have "i = 0 \<or> i = 1" using assms by auto
  then show ?thesis
    by (elim disjE)
      (simp_all add: channel_run_def serve_channel_def call_handler_def dma_phony_handler_def chan_of_def cont_of_def upd_chan_def upd_cont_def
        Let_def split_def algebra_simps split: option.split dma_handler.split)
qed

lemma requesting_upd_chan [simp]: "requesting j d (upd_chan i c f s) = requesting j d s"
  by (cases "i < length (dma_controllers s)"; cases "j = i")
    (simp_all add: requesting_def upd_chan_def upd_cont_def cont_of_def list_update_beyond)

lemma channel_run_local:
  assumes "dma_handlers_local h" "channel_run h i c sm = Inr sm'" "(j, d) \<noteq> (i, c)"
  shows "requesting j d (fst sm') = requesting j d (fst sm)"
proof (cases "transfer_handler (chan_of i c (fst sm))")
  case None
  then show ?thesis using assms(2) by (simp add: channel_run_def)
next
  case (Some f)
  then obtain op pos len n sm1 where r: "call_handler h f op (int (c + 4 * i)) pos len sm = Inr (n, sm1)"
    "fst sm' = upd_chan i c (\<lambda>r. r\<lparr>now_count := n\<rparr>) (fst sm1)"
    using assms(2) by (force simp: channel_run_def Let_def res_bind_Inr_iff)
  have "requesting j d (fst sm1) = requesting j d (fst sm)"
  proof (cases f)
    case (Dma_device k)
    then have "h k op (int (c + 4 * i)) pos len sm = Inr (n, sm1)" using r(1) by (simp only: call_handler_def dma_handler.case)
    from assms(1) [unfolded dma_handlers_local_def, rule_format, OF this] show ?thesis using assms(3) by (simp add: requesting_iff)
  qed (use r(1) in \<open>simp add: call_handler_def\<close>)
  then show ?thesis using r(2) by simp
qed

lemma scan_exact:
  assumes "dma_handlers_local h" "distinct xs"
  shows "res_fold (dma_run_step h) xs (b, sm) = res_bind
     (res_fold (\<lambda>(i, c). channel_run h i c) (filter (\<lambda>(i, c). requesting i c (fst sm)) xs) sm)
     (\<lambda>sm'. Inr (b \<or> filter (\<lambda>(i, c). requesting i c (fst sm)) xs \<noteq> [], sm'))"
  using assms(2)
proof (induction xs arbitrary: b sm)
  case (Cons x xs)
  obtain i c where x: "x = (i, c)" by fastforce
  show ?case
  proof (cases "requesting i c (fst sm)")
    case True
    show ?thesis
    proof (cases "channel_run h i c sm")
      case (Inr sm1)
      have "filter (\<lambda>(i, c). requesting i c (fst sm1)) xs = filter (\<lambda>(i, c). requesting i c (fst sm)) xs"
      proof (rule filter_cong [OF refl])
        fix y assume "y \<in> set xs"
        moreover obtain j d where "y = (j, d)" by fastforce
        ultimately show "(case y of (i, c) \<Rightarrow> requesting i c (fst sm1)) = (case y of (i, c) \<Rightarrow> requesting i c (fst sm))"
          using channel_run_local [OF assms(1) Inr, of j d] Cons.prems x by auto
      qed
      then show ?thesis using True Inr Cons by (simp add: x dma_run_step_def)
    qed (use True x in \<open>simp add: dma_run_step_def\<close>)
  qed (use Cons x in \<open>simp add: dma_run_step_def\<close>)
qed simp

lemma run_exact:
  assumes "dma_handlers_local h"
  shows "DMA_run h sm = res_bind (res_fold (\<lambda>(i, c). channel_run h i c) (active (fst sm)) sm)
     (\<lambda>(s, m). Inr (if active (fst sm) = [] then s else s\<lparr>bh_scheduled := True\<rparr>, m))"
proof -
  have "distinct all_channels" by (simp add: all_channels_def)
  from scan_exact [OF assms this, of False sm] show ?thesis
    unfolding DMA_run_def active_requesting by (auto simp: res_bind_assoc split_def intro!: arg_cong [of _ _ "res_bind _"])
qed

lemma run_idle: "\<forall>i c. \<not> requesting i c (fst sm) \<Longrightarrow> DMA_run h sm = Inr sm"
  by (cases sm) (simp add: DMA_run_def all_channels_def dma_run_step_def)

section \<open>Programming a channel\<close>

lemma chan_upd:
  assumes "dma_wf s" "i < 2" "c < 4"
  shows "chan_of j d (upd_chan i c f s) = (if (j, d) = (i, c) then f (chan_of i c s) else chan_of j d s)"
    "cont_of j (upd_chan i c f s) = (if j = i then (cont_of i s)\<lparr>dma_chans := (dma_chans (cont_of i s))[c := f (chan_of i c s)]\<rparr> else cont_of j s)"
proof -
  have l: "i < length (dma_controllers s)" "c < length (dma_chans (cont_of i s))"
    using assms by (simp_all add: dma_wf_def dma_cont_ok_def)
  then show c: "cont_of j (upd_chan i c f s) = (if j = i then (cont_of i s)\<lparr>dma_chans := (dma_chans (cont_of i s))[c := f (chan_of i c s)]\<rparr> else cont_of j s)"
    by (simp add: upd_chan_def)
  show "chan_of j d (upd_chan i c f s) = (if (j, d) = (i, c) then f (chan_of i c s) else chan_of j d s)"
    using l unfolding chan_of_def [of j] c by (auto simp: nth_list_update chan_of_def)
qed

definition reg_value :: "u32 \<Rightarrow> u32 \<Rightarrow> u16" where
  "reg_value lo hi = ucast (lo AND 0xff) OR ucast (push_bit 8 hi AND 0xff00)"

lemma bit_reg_value: "bit (reg_value lo hi) n \<longleftrightarrow> n < 8 \<and> bit lo n \<or> 8 \<le> n \<and> n < 16 \<and> bit hi (n - 8)"
proof -
  have m: "0xff00 = push_bit 8 (mask 8 :: u32)" by (simp add: mask_numeral)
  show ?thesis unfolding reg_value_def m and_low_bits by (auto simp: bit_simps)
qed

lemma reg_value_bytes:
  "(((b AND 0xff00) OR ucast (lo AND 0xff)) AND 0xff) OR ucast (push_bit 8 hi AND 0xff00) = reg_value lo hi"
proof -
  have "((b AND 0xff00) OR ucast (lo AND 0xff)) AND 0xff = (ucast (lo AND 0xff) :: u16)"
  proof -
    have "(b AND 0xff00) AND 0xff = 0" by (simp add: and.assoc)
    moreover have "ucast (lo AND 0xff) AND 0xff = (ucast (lo AND 0xff) :: u16)"
      unfolding and_low_bits by (auto intro!: bit_word_eqI simp: bit_simps)
    ultimately show ?thesis by (simp add: bit.conj_disj_distrib2)
  qed
  then show ?thesis by (simp add: reg_value_def)
qed

lemma reg_read_bytes:
  "word_of_int (drop_bit i (uint (reg_value lo hi) * 2 ^ i) AND 0xff) = lo AND 0xff"
  "word_of_int (drop_bit (i + 8) (uint (reg_value lo hi) * 2 ^ i) AND 0xff) = hi AND 0xff"
proof -
  have f: "(x::int) AND 0xff = take_bit 8 x" for x by (simp add: take_bit_eq_mask mask_numeral)
  have e: "drop_bit i (x * 2 ^ i) = x" "drop_bit (i + 8) (x * 2 ^ i) = drop_bit 8 x" for x :: int
    by (simp_all add: drop_bit_eq_div power_add div_mult_mult2)
  show "word_of_int (drop_bit i (uint (reg_value lo hi) * 2 ^ i) AND 0xff) = lo AND 0xff"
    "word_of_int (drop_bit (i + 8) (uint (reg_value lo hi) * 2 ^ i) AND 0xff) = hi AND 0xff"
    unfolding f e and_low_bits
    by (rule bit_word_eqI; auto simp: bit_simps bit_uint_iff bit_reg_value)+
qed

text \<open>\<open>t\<close> is \<open>s\<close> with channel \<open>c\<close> of controller \<open>i\<close> replaced and the flip-flop at \<open>ff\<close>.\<close>

definition only_chan :: "nat \<Rightarrow> nat \<Rightarrow> dma_regs \<Rightarrow> u8 \<Rightarrow> dma_state \<Rightarrow> dma_state \<Rightarrow> bool" where
  "only_chan i c r ff s t \<longleftrightarrow> dma_wf t \<and> flip_flop (cont_of i t) = ff
     \<and> (\<forall>j d. chan_of j d t = (if (j, d) = (i, c) then r else chan_of j d s))"

lemma getff_only:
  assumes "dma_wf s" "i < 2"
  shows "only_chan i c (chan_of i c s) (if flip_flop (cont_of i s) = 0 then 1 else 0) s (snd (getff i s))"
proof -
  have "length (dma_controllers s) = 2" using assms(1) by (simp add: dma_wf_def)
  then have "flip_flop (cont_of i (snd (getff i s))) = (if flip_flop (cont_of i s) = 0 then 1 else 0)"
    using assms(2) by (simp add: getff_def Let_def)
  then show ?thesis using getff_wf [OF assms] by (simp add: only_chan_def)
qed

lemma upd_only:
  assumes "only_chan i c r ff s t" "i < 2" "c < 4" "dma_chan_ok i (f r)"
  shows "only_chan i c (f r) ff s (upd_chan i c f t)"
proof -
  have t: "dma_wf t" "chan_of i c t = r" using assms(1) by (simp_all add: only_chan_def)
  then have "dma_wf (upd_chan i c f t)" using upd_chan_wf [OF t(1) assms(2,3)] assms(4) by simp
  then show ?thesis using assms(1) t chan_upd [OF t(1) assms(2,3)] by (simp add: only_chan_def)
qed

lemma write_pair:
  assumes "dma_wf s" "i < 2" "unat (drop_bit i p AND 0xf) < 8" "flip_flop (cont_of i s) = 0"
  defines "c \<equiv> unat (drop_bit i p AND 0xf) div 2" and "n \<equiv> unat (drop_bit i p AND 0xf) mod 2"
  shows "\<exists>s1 s2. write_chan i p lo s = Inr s1 \<and> write_chan i p hi s1 = Inr s2
    \<and> only_chan i c ((\<lambda>r. r\<lparr>now_addr := uint (base_addr r) * 2 ^ i, now_count := 0\<rparr>)
         (set_base n (\<lambda>_. reg_value lo hi) (chan_of i c s))) 0 s s2"
proof -
  have c: "c < 4" "\<not> 4 \<le> c" using assms(3) by (simp_all add: c_def)
  let ?r0 = "chan_of i c s"
  note ok = wf_chan [OF assms(1,2) c(1)]
  define s1 where "s1 = upd_chan i c (set_base n (\<lambda>b. (b AND 0xff00) OR ucast (lo AND 0xff))) (snd (getff i s))"
  let ?r1 = "set_base n (\<lambda>b. (b AND 0xff00) OR ucast (lo AND 0xff)) ?r0"
  have o1: "only_chan i c ?r1 1 s s1" unfolding s1_def
    using getff_only [OF assms(1,2), of c] assms(4) ok by (intro upd_only assms(2) c(1)) simp_all
  have w1: "write_chan i p lo s = Inr s1"
    using c assms(4) by (simp add: write_chan_def iport_wf [OF assms(1,2)] s1_def c_def [symmetric] n_def [symmetric] getff_def Let_def)
  have wf1: "dma_wf s1" and ff1: "flip_flop (cont_of i s1) = 1" and ch1: "chan_of i c s1 = ?r1"
    using o1 by (simp_all add: only_chan_def)
  define s2 where "s2 = upd_chan i c (set_base n (\<lambda>b. (b AND 0xff) OR ucast (push_bit 8 hi AND 0xff00))) (snd (getff i s1))"
  let ?r2 = "set_base n (\<lambda>_. reg_value lo hi) ?r0"
  have r2: "set_base n (\<lambda>b. (b AND 0xff) OR ucast (push_bit 8 hi AND 0xff00)) ?r1 = ?r2"
    using reg_value_bytes by (simp add: set_base_def)
  have g1: "only_chan i c ?r1 0 s (snd (getff i s1))"
    using getff_only [OF wf1 assms(2), of c] o1 ff1 by (simp add: only_chan_def)
  then have o2: "only_chan i c ?r2 0 s s2" unfolding s2_def r2 [symmetric]
    using ok by (intro upd_only assms(2) c(1)) simp_all
  have w2: "write_chan i p hi s1 = init_chan i c s2"
    using c ff1 by (simp add: write_chan_def iport_wf [OF wf1 assms(2)] s2_def c_def [symmetric] n_def [symmetric] getff_def Let_def)
  have wf2: "dma_wf s2" and ch2: "chan_of i c s2 = ?r2" using o2 by (simp_all add: only_chan_def)
  let ?f = "\<lambda>r. r\<lparr>now_addr := uint (base_addr r) * 2 ^ i, now_count := 0\<rparr>"
  have "init_chan i c s2 = Inr (upd_chan i c ?f s2)"
    using wf2 shl_base [OF assms(2)] assms(2)
    by (simp add: init_chan_def dma_wf_def dma_cont_ok_def upd_chan_def)
  moreover have "only_chan i c (?f ?r2) 0 s (upd_chan i c ?f s2)"
  proof (rule upd_only [OF o2 assms(2) c(1)])
    have "uint (base_addr ?r2) * 2 ^ i \<le> 0xffff * 2 ^ i"
      using uint_lt2p [of "base_addr ?r2"] by (intro mult_right_mono) simp_all
    then show "dma_chan_ok i (?f ?r2)" using ok by (simp add: dma_chan_ok_def set_base_def)
  qed
  ultimately show ?thesis using w1 w2 by (intro exI [of _ s1] exI) auto
qed

lemma read_reg:
  assumes "dma_wf s" "i < 2" "unat (drop_bit i p AND 0xf) < 8" "flip_flop (cont_of i s) = ff"
  defines "c \<equiv> unat (drop_bit i p AND 0xf) div 2" and "n \<equiv> unat (drop_bit i p AND 0xf) mod 2"
  assumes "now_count (chan_of i c s) = 0" "now_addr (chan_of i c s) = uint (base_addr (chan_of i c s)) * 2 ^ i"
    and "(if n = 0 then base_addr (chan_of i c s) else base_count (chan_of i c s)) = reg_value lo hi"
  shows "read_chan i p s = Inr (if ff = 0 then lo AND 0xff else hi AND 0xff, snd (getff i s))"
proof -
  have c: "\<not> 4 \<le> c" and n: "n = 0 \<or> n = 1" using assms(3) by (auto simp: c_def n_def)
  have d: "dshift (cont_of i s) = int i" "ff = 0 \<or> ff = 1" using assms(1,2,4) by (auto simp: dma_wf_def dma_cont_ok_def)
  have small: "int i < 24" using assms(2) by simp
  have nn: "nat (int i + 8) = i + 8" by simp
  show ?thesis
    using n d c assms(7-9) small reg_read_bytes [of i lo hi]
    by (auto simp: read_chan_def iport_wf [OF assms(1,2)] c_def [symmetric] n_def [symmetric] getff_def Let_def shl_base [OF assms(2)] assms(4) nn)
qed

section \<open>Mirroring\<close>

lemma mirror_nth:
  assumes "n \<le> length p"
  shows "k \<le> n \<Longrightarrow> length (mirror k n p) = length p
    \<and> (\<forall>j < length p. mirror k n p ! j = (if j < k then p ! max j (n - 1 - j) else p ! j))"
proof (induction k)
  case (Suc k)
  then have IH: "length (mirror k n p) = length p"
    "\<And>j. j < length p \<Longrightarrow> mirror k n p ! j = (if j < k then p ! max j (n - 1 - j) else p ! j)" by auto
  have st: "mirror (Suc k) n p = (mirror k n p)[k := mirror k n p ! (n - k - 1)]" by (simp add: mirror_def)
  have i: "n - k - 1 < length p" "k < length p" using Suc.prems assms by auto
  have v: "mirror k n p ! (n - k - 1) = p ! max k (n - 1 - k)"
  proof (cases "n - k - 1 < k")
    case True
    then have "max (n - k - 1) (n - 1 - (n - k - 1)) = k" "max k (n - 1 - k) = k" using Suc.prems by auto
    then show ?thesis using IH(2) [OF i(1)] True by simp
  next
    case False
    then have "max k (n - 1 - k) = n - k - 1" by auto
    then show ?thesis using IH(2) [OF i(1)] False by simp
  qed
  show ?case
  proof (intro conjI allI impI)
    fix j assume "j < length p"
    then show "mirror (Suc k) n p ! j = (if j < Suc k then p ! max j (n - 1 - j) else p ! j)"
      using IH v i unfolding st by (auto simp: nth_list_update less_Suc_eq)
  qed (simp add: st IH)
qed (simp add: mirror_def)

lemma mirror_half:
  assumes "length p = n"
  shows "mirror (n div 2) n p = map (\<lambda>j. p ! max j (n - 1 - j)) [0..<n]"
proof (rule nth_equalityI)
  have m: "length (mirror (n div 2) n p) = n" "\<And>j. j < n \<Longrightarrow> mirror (n div 2) n p ! j = (if j < n div 2 then p ! max j (n - 1 - j) else p ! j)"
    using mirror_nth [of n p "n div 2"] assms by auto
  show "length (mirror (n div 2) n p) = length (map (\<lambda>j. p ! max j (n - 1 - j)) [0..<n])" using m by simp
  fix j assume "j < length (mirror (n div 2) n p)"
  then have j: "j < n" using m by simp
  have "max j (n - 1 - j) = j" if "\<not> j < n div 2" using that by linarith
  then show "mirror (n div 2) n p ! j = map (\<lambda>j. p ! max j (n - 1 - j)) [0..<n] ! j" using m(2) [OF j] j by auto
qed

lemma mirror_is_rev: "map (\<lambda>j. p ! max j (length p - 1 - j)) [0..<length p] = rev p \<longleftrightarrow> rev p = p"
proof
  assume a: "map (\<lambda>j. p ! max j (length p - 1 - j)) [0..<length p] = rev p"
  have e: "p ! max j (length p - 1 - j) = p ! (length p - 1 - j)" if "j < length p" for j
    using arg_cong [OF a, of "\<lambda>xs. xs ! j"] that by (simp add: rev_nth)
  have "p ! (length p - Suc j) = p ! j" if j: "j < length p" for j
  proof (cases "j < length p - 1 - j")
    case True
    have "length p - 1 - (length p - 1 - j) = j" "length p - 1 - j < length p" using j by auto
    then show ?thesis using e [of "length p - 1 - j"] True by (simp add: max_def split: if_splits)
  next
    case False
    then show ?thesis using e [OF j] by (simp add: max_def split: if_splits)
  qed
  then show "rev p = p" by (intro nth_equalityI) (simp_all add: rev_nth)
next
  assume a: "rev p = p"
  have e: "p ! (length p - 1 - j) = p ! j" if "j < length p" for j
    using that arg_cong [OF a, of "\<lambda>xs. xs ! j"] by (simp add: rev_nth)
  have "p ! max j (length p - 1 - j) = p ! (length p - 1 - j)" if "j < length p" for j
    by (cases "j \<le> length p - 1 - j") (simp_all only: max_def if_True if_False e [OF that])
  then show "map (\<lambda>j. p ! max j (length p - 1 - j)) [0..<length p] = rev p"
    by (intro nth_equalityI) (simp_all add: rev_nth)
qed

section \<open>Reachable controllers\<close>

inductive dma_reachable :: "'m dma_code \<Rightarrow> dma_state \<times> 'm \<Rightarrow> bool" for h where
  init: "DMA_init h (dma_zero, m) = Inr sm \<Longrightarrow> dma_reachable h sm"
| port_write: "dma_reachable h sm \<Longrightarrow> (p, w, r, i) \<in> set dma_ports \<Longrightarrow> dma_call_write h w i (of_nat p) v sm = Inr sm' \<Longrightarrow> dma_reachable h sm'"
| port_read: "dma_reachable h (s, m) \<Longrightarrow> (p, w, r, i) \<in> set dma_ports \<Longrightarrow> dma_call_read r i (of_nat p) s = Inr (v, s') \<Longrightarrow> dma_reachable h (s', m)"
| register_channel: "dma_reachable h (s, m) \<Longrightarrow> dma_reachable h (DMA_register_channel nchan f op s, m)"
| hold: "dma_reachable h sm \<Longrightarrow> DMA_hold_DREQ h nchan sm = Inr sm' \<Longrightarrow> dma_reachable h sm'"
| release: "dma_reachable h sm \<Longrightarrow> DMA_release_DREQ h nchan sm = Inr sm' \<Longrightarrow> dma_reachable h sm'"
| run: "dma_reachable h sm \<Longrightarrow> DMA_run_bh h sm = Inr sm' \<Longrightarrow> dma_reachable h sm'"
| machine: "dma_reachable h (s, m) \<Longrightarrow> dma_reachable h (s, m')"

lemma chan_numbers: "ncont_of nchan < 2" "ichan_of nchan < 4"
proof -
  show "ncont_of nchan < 2" by (simp add: ncont_of_def)
  have "nchan AND 3 = nchan mod 4" using take_bit_eq_mask [of 2 nchan] by (simp add: mask_numeral take_bit_eq_mod)
  then show "ichan_of nchan < 4" by (simp add: ichan_of_def)
qed

definition dma_fresh :: dma_state where
  "dma_fresh =
     (let r = \<lparr>now_addr = 0, now_count = 0, base_addr = 0, base_count = 0, dma_mode = 0, dma_page = 0, dma_pageh = 0,
               dma_dack = 0, dma_eop = 0, transfer_handler = Some Dma_phony, dma_opaque = 0\<rparr>;
          d = \<lparr>dma_status = 0, dma_command = 0, dma_mask = 0xff, flip_flop = 0, dshift = 0, dma_chans = replicate 4 r\<rparr>
      in \<lparr>dma_controllers = [d, d\<lparr>dshift := 1\<rparr>], bh_scheduled = False\<rparr>)"

lemma DMA_init_fresh: "DMA_init h (dma_zero, m) = Inr (dma_fresh, m)"
  by (simp add: DMA_init_def dma_init2_def dma_reset_def dma_zero_def dma_fresh_def on_dma_def upd_cont_def cont_of_def
      c_shl_def write_cont_def iport_of_def Let_def map_replicate_const)

lemma dma_fresh_wf: "dma_wf dma_fresh"
  by (auto simp: dma_wf_def dma_fresh_def cont_of_def dma_cont_ok_def dma_chan_ok_def Let_def less_2_cases_iff)

lemma status_run_wf:
  assumes "dma_handlers_safe h" "ok_pair sm" "i < 2"
  shows "returns ok_pair (DMA_run h (on_dma (upd_cont i (\<lambda>d. d\<lparr>dma_status := f d\<rparr>)) sm))"
  using upd_cont_wf [OF assms(2,3)] by (intro DMA_run_wf assms(1)) (simp add: on_dma_def dma_cont_ok_def)

lemma dma_reachable_wf:
  assumes "dma_handlers_safe h"
  shows "dma_reachable h sm \<Longrightarrow> ok_pair sm"
proof (induction rule: dma_reachable.induct)
  case (init m sm)
  then show ?case using dma_fresh_wf by (auto simp: DMA_init_fresh)
next
  case (port_write sm p w r i v sm')
  then show ?case using dma_port_write_wf [OF _ assms] returnsD by metis
next
  case (port_read s m p w r i v s')
  then show ?case using returnsD [OF dma_port_read_wf [OF port_read.hyps(2)]] by fastforce
next
  case (register_channel s m nchan f op)
  then show ?case using chan_numbers by (auto simp: DMA_register_channel_def dma_chan_ok_def intro!: upd_chan_wf)
next
  case (hold sm nchan sm')
  then show ?case using returnsD [OF status_run_wf [OF assms _ chan_numbers(1)]] by (simp add: DMA_hold_DREQ_def)
next
  case (release sm nchan sm')
  then show ?case using returnsD [OF status_run_wf [OF assms _ chan_numbers(1)]] by (simp add: DMA_release_DREQ_def)
next
  case (run sm sm')
  then show ?case using returnsD [OF DMA_run_wf [OF assms]] by (simp add: DMA_run_bh_def)
qed simp

lemma transfer_addr_small:
  assumes "dma_chan_ok i r" "i < 2"
  shows "unat (transfer_addr r) < 2 ^ 24"
proof -
  have i: "i = 0 \<or> i = 1" using assms(2) by auto
  have n: "0 \<le> now_addr r" "now_addr r < 2 ^ 24" using assms(1) i by (auto simp: dma_chan_ok_def)
  have p: "push_bit 16 (uint (dma_page r)) < 2 ^ 24" "0 \<le> push_bit 16 (uint (dma_page r))"
    using uint_lt2p [of "dma_page r"] by (simp_all add: push_bit_eq_mult)
  define a where "a = push_bit 16 (uint (dma_page r)) OR now_addr r"
  have "a < 2 ^ 24" "0 \<le> a" using n p OR_upper [of "push_bit 16 (uint (dma_page r))" 24 "now_addr r"] by (simp_all add: a_def)
  moreover have "transfer_addr r = word_of_int a" using assms(1) by (simp add: transfer_addr_def dma_chan_ok_def a_def)
  ultimately show ?thesis by (simp add: unsigned_of_int take_bit_int_eq_self)
qed

section \<open>Snapshot format\<close>

definition chan_bytes :: "dma_regs \<Rightarrow> u8 list" where
  "chan_bytes r = int_bytes (now_addr r) @ int_bytes (now_count r) @ be16_bytes (base_addr r) @ be16_bytes (base_count r)
     @ [dma_mode r] @ [dma_page r] @ [dma_pageh r] @ [dma_dack r] @ [dma_eop r]"

definition dma_bytes :: "nat \<Rightarrow> dma_state \<Rightarrow> u8 list" where
  "dma_bytes i s = (let d = cont_of i s in [dma_command d] @ [dma_mask d] @ [flip_flop d] @ int_bytes (dshift d)
     @ concat (map chan_bytes (dma_chans d)))"

definition chan_restored :: "dma_regs \<Rightarrow> dma_regs \<Rightarrow> dma_regs" where
  "chan_restored t r = r\<lparr>transfer_handler := transfer_handler t, dma_opaque := dma_opaque t\<rparr>"

definition dma_restored :: "nat \<Rightarrow> dma_state \<Rightarrow> dma_state \<Rightarrow> dma_state" where
  "dma_restored i t s = upd_cont i (\<lambda>d. (cont_of i s)\<lparr>dma_status := dma_status d,
     dma_chans := map2 chan_restored (dma_chans d) (dma_chans (cont_of i s))\<rparr>) t"

definition dma_fits :: "nat \<Rightarrow> dma_state \<Rightarrow> bool" where
  "dma_fits i s \<longleftrightarrow> fits 31 (dshift (cont_of i s)) \<and> length (dma_chans (cont_of i s)) = 4
     \<and> (\<forall>r \<in> set (dma_chans (cont_of i s)). fits 31 (now_addr r) \<and> fits 31 (now_count r))"

lemma put_chan_emits: "emits qf_writer qf_written (put_chan r) (chan_bytes r)"
  unfolding put_chan_def chan_bytes_def int_bytes_def by (intro emits_bind put_be32_emits put_be16_emits put_8s_emits)

lemma put_chans_emits: "emits qf_writer qf_written (res_fold put_chan rs) (concat (map chan_bytes rs))"
proof (induction rs)
  case Nil
  show ?case by (simp add: emits_def)
next
  case (Cons r rs)
  then show ?case using emits_bind [OF put_chan_emits Cons] by simp
qed

lemma dma_save_emits: "emits qf_writer qf_written (dma_save i s) (dma_bytes i s)"
  unfolding dma_save_def dma_bytes_def int_bytes_def Let_def
  by (intro emits_bind put_be32_emits put_8s_emits put_chans_emits)

lemma get_chan_consumes:
  assumes "fits 31 (now_addr r)" "fits 31 (now_count r)"
  shows "consumes qf_reader qf_left (get_chan t) (chan_bytes r) (chan_restored t r)"
proof -
  have w: "sint (word_of_int (now_addr r) :: u32) = now_addr r" "sint (word_of_int (now_count r) :: u32) = now_count r"
    using assms by (auto intro: sint_fits(1))
  have g: "consumes qf_reader qf_left qemu_get_be32 (int_bytes x) (word_of_int x)" for x
    unfolding int_bytes_def by (rule get_be32_consumes)
  have e: "t\<lparr>now_addr := now_addr r, now_count := now_count r, base_addr := base_addr r, base_count := base_count r, dma_mode := dma_mode r,
      dma_page := dma_page r, dma_pageh := dma_pageh r, dma_dack := dma_dack r, dma_eop := dma_eop r\<rparr> = chan_restored t r"
    by (simp add: chan_restored_def)
  have "consumes qf_reader qf_left (get_chan t) (int_bytes (now_addr r) @ int_bytes (now_count r) @ be16_bytes (base_addr r)
      @ be16_bytes (base_count r) @ [dma_mode r] @ [dma_page r] @ [dma_pageh r] @ [dma_dack r] @ [dma_eop r] @ []) (chan_restored t r)"
    unfolding get_chan_def e [symmetric]
    by (rule consumes_bind [OF g] consumes_bind [OF get_be16_consumes] consumes_bind [OF get_byte_consumes])+
      (simp add: w consumes_return)
  then show ?thesis by (simp add: chan_bytes_def)
qed

lemma get_chans_consumes:
  "length ts = length rs \<Longrightarrow> \<forall>r \<in> set rs. fits 31 (now_addr r) \<and> fits 31 (now_count r) \<Longrightarrow>
   consumes qf_reader qf_left (get_chans ts) (concat (map chan_bytes rs)) (map2 chan_restored ts rs)"
proof (induction ts rs rule: list_induct2)
  case Nil
  show ?case by (simp add: consumes_return)
next
  case (Cons t ts r rs)
  have "consumes qf_reader qf_left (get_chans (t # ts)) (chan_bytes r @ concat (map chan_bytes rs) @ []) (map2 chan_restored (t # ts) (r # rs))"
    unfolding get_chans.simps using Cons by (intro consumes_bind [OF get_chan_consumes] consumes_bind) (auto simp: consumes_return)
  then show ?case by (simp del: get_chans.simps)
qed

lemma dma_load_consumes:
  assumes "dma_fits i s" "length (dma_chans (cont_of i (fst sm))) = 4"
    and "DMA_run h (dma_restored i (fst sm) s, snd sm) = Inr sm'"
  shows "consumes qf_reader qf_left (dma_load h i sm 1) (dma_bytes i s) (0, sm')"
proof -
  let ?d = "cont_of i s"
  note f = assms(1) [unfolded dma_fits_def]
  have g: "consumes qf_reader qf_left qemu_get_be32 (int_bytes (dshift ?d)) (word_of_int (dshift ?d))"
    unfolding int_bytes_def by (rule get_be32_consumes)
  have w: "sint (word_of_int (dshift ?d) :: u32) = dshift ?d" using f by (auto intro: sint_fits(1))
  have r: "upd_cont i (\<lambda>d. d\<lparr>dma_command := dma_command ?d, dma_mask := dma_mask ?d, flip_flop := flip_flop ?d, dshift := dshift ?d,
      dma_chans := map2 chan_restored (dma_chans (cont_of i (fst sm))) (dma_chans ?d)\<rparr>) (fst sm) = dma_restored i (fst sm) s"
    by (cases "cont_of i s"; cases "cont_of i (fst sm)") (simp add: dma_restored_def upd_cont_def)
  have c: "consumes qf_reader qf_left (get_chans (dma_chans (cont_of i (fst sm)))) (concat (map chan_bytes (dma_chans ?d)))
      (map2 chan_restored (dma_chans (cont_of i (fst sm))) (dma_chans ?d))"
    using f assms(2) by (intro get_chans_consumes) simp_all
  have "consumes qf_reader qf_left (dma_load h i sm 1) ([dma_command ?d] @ [dma_mask ?d] @ [flip_flop ?d] @ int_bytes (dshift ?d)
     @ concat (map chan_bytes (dma_chans ?d)) @ []) (0, sm')"
    unfolding dma_load_def
    by (rule consumes_else, simp, (rule consumes_bind [OF get_byte_consumes] consumes_bind [OF g] consumes_bind [OF c])+)
      (simp add: w on_dma_def r assms(3) consumes_return)
  then show ?thesis by (simp add: dma_bytes_def Let_def)
qed

section \<open>Properties\<close>

text \<open>C21: The DMA controllers stay in bounds. From \<^verbatim>\<open>DMA_init(0)\<close>, under any sequence of guest port accesses, device
  requests and runs of the bottom half, with transfer handlers that return and keep the controllers well formed, every
  further access to a DMA port returns (no register array is overrun), and every transfer address stays in the first 16 MiB,
  whatever the guest programmed.\<close>

theorem dma_guest_bounds:
  assumes "dma_handlers_safe h" "dma_reachable h sm"
  shows "(\<forall>(p, w, r, i) \<in> set dma_ports. (\<exists>sm'. dma_call_write h w i (of_nat p) v sm = Inr sm')
      \<and> (\<exists>x s'. dma_call_read r i (of_nat p) (fst sm) = Inr (x, s')))
    \<and> (\<forall>i < 2. \<forall>c < 4. transfer_addr (chan_of i c (fst sm)) < 0x1000000)"
proof -
  note wf = dma_reachable_wf [OF assms]
  have "transfer_addr (chan_of i c (fst sm)) < 0x1000000" if "i < 2" "c < 4" for i c
    using transfer_addr_small [OF wf_chan [OF wf that] that(1)] by (simp add: word_less_nat_alt)
  moreover have "(\<exists>sm'. dma_call_write h w i (of_nat p) v sm = Inr sm') \<and> (\<exists>x s'. dma_call_read r i (of_nat p) (fst sm) = Inr (x, s'))"
    if t: "(p, w, r, i) \<in> set dma_ports" for p w r i
    using returnsE [OF dma_port_write_wf [OF t assms(1) wf, of v]] returnsE [OF dma_port_read_wf [OF t wf]] by (metis surj_pair)
  ultimately show ?thesis by blast
qed

definition idle_handler :: "unit dma_code" where
  "idle_handler fn op nchan pos len sm = Inr (len, sm)"

lemma idle_handler_safe: "dma_handlers_safe idle_handler" "dma_handlers_local idle_handler"
  by (simp_all add: dma_handlers_safe_def dma_handlers_local_def idle_handler_def)

theorem dma_guest_bounds_witness:
  "transfer_addr (chan_of 1 2 dma_fresh) < 0x1000000 \<and> (\<exists>sm'. write_cont idle_handler 1 0xde 0x0f (dma_fresh, ()) = Inr sm')"
proof -
  have r: "dma_reachable idle_handler (dma_fresh, ())" by (rule dma_reachable.init [of _ "()"]) (simp add: DMA_init_fresh)
  have m: "(0xde, Write_cont, Read_cont, 1) \<in> set dma_ports" by (simp add: dma_ports_eq)
  from dma_guest_bounds [OF idle_handler_safe(1) r, of "0x0f"] have
    "\<forall>(p, w, r, i) \<in> set dma_ports. \<exists>sm'. dma_call_write idle_handler w i (of_nat p) 0x0f (dma_fresh, ()) = Inr sm'"
    "\<forall>i < 2. \<forall>c < 4. transfer_addr (chan_of i c dma_fresh) < 0x1000000" by auto
  then show ?thesis using m by fastforce
qed

text \<open>C22: A channel register reads back what was programmed. With the flip-flop clear, two writes to an address or count
  port set the 16-bit register from the two bytes, reload the channel's current address and position and leave every other channel
  alone; two reads then return the two bytes, low byte first, for the 8-bit and the 16-bit controller alike.\<close>

theorem dma_channel_readback:
  assumes "dma_wf s" "i < 2" "unat (drop_bit i p AND 0xf) < 8" "flip_flop (cont_of i s) = 0"
  shows "let c = unat (drop_bit i p AND 0xf) div 2; n = unat (drop_bit i p AND 0xf) mod 2 in
    \<exists>s1 s2 s3 s4. write_chan i p lo s = Inr s1 \<and> write_chan i p hi s1 = Inr s2
      \<and> read_chan i p s2 = Inr (lo AND 0xff, s3) \<and> read_chan i p s3 = Inr (hi AND 0xff, s4)
      \<and> (n = 0 \<longrightarrow> base_addr (chan_of i c s4) = reg_value lo hi \<and> base_count (chan_of i c s4) = base_count (chan_of i c s))
      \<and> (n = 1 \<longrightarrow> base_count (chan_of i c s4) = reg_value lo hi \<and> base_addr (chan_of i c s4) = base_addr (chan_of i c s))
      \<and> now_addr (chan_of i c s4) = uint (base_addr (chan_of i c s4)) * 2 ^ i \<and> now_count (chan_of i c s4) = 0
      \<and> (\<forall>j d. (j, d) \<noteq> (i, c) \<longrightarrow> chan_of j d s4 = chan_of j d s)"
proof -
  define c n where "c = unat (drop_bit i p AND 0xf) div 2" and "n = unat (drop_bit i p AND 0xf) mod 2"
  define r where "r = (\<lambda>r. r\<lparr>now_addr := uint (base_addr r) * 2 ^ i, now_count := 0\<rparr>) (set_base n (\<lambda>_. reg_value lo hi) (chan_of i c s))"
  obtain s1 s2 where w: "write_chan i p lo s = Inr s1" "write_chan i p hi s1 = Inr s2" "only_chan i c r 0 s s2"
    using write_pair [OF assms, of lo hi] by (auto simp: c_def n_def r_def)
  have n: "n = 0 \<or> n = 1" by (auto simp: n_def)
  have rr: "now_count r = 0" "now_addr r = uint (base_addr r) * 2 ^ i" "(if n = 0 then base_addr r else base_count r) = reg_value lo hi"
    using n by (auto simp: r_def set_base_def)
  note s2 = w(3) [unfolded only_chan_def]
  have rd: "read_chan i p t = Inr (if ff = 0 then lo AND 0xff else hi AND 0xff, snd (getff i t))" if t: "only_chan i c r ff s t" for t ff
  proof -
    have t: "dma_wf t" "flip_flop (cont_of i t) = ff" "chan_of i c t = r" using t by (simp_all add: only_chan_def)
    show ?thesis by (rule read_reg [OF t(1) assms(2,3) t(2)]) (use rr in \<open>simp_all only: c_def [symmetric] n_def [symmetric] t(3)\<close>)
  qed
  have r1: "read_chan i p s2 = Inr (lo AND 0xff, snd (getff i s2))" using rd [OF w(3)] by simp
  let ?s3 = "snd (getff i s2)"
  have s3: "only_chan i c r 1 s ?s3"
    using getff_only [of s2 i c] s2 assms(2) unfolding only_chan_def by auto
  have r2: "read_chan i p ?s3 = Inr (hi AND 0xff, snd (getff i ?s3))" using rd [OF s3] by simp
  have s4: "only_chan i c r 0 s (snd (getff i ?s3))"
    using getff_only [of ?s3 i c] s3 assms(2) unfolding only_chan_def by auto
  have e: "chan_of i c (snd (getff i ?s3)) = r" "\<forall>j d. (j, d) \<noteq> (i, c) \<longrightarrow> chan_of j d (snd (getff i ?s3)) = chan_of j d s"
    using s4 by (auto simp: only_chan_def)
  have b: "n = 0 \<longrightarrow> base_addr r = reg_value lo hi \<and> base_count r = base_count (chan_of i c s)"
    "n = 1 \<longrightarrow> base_count r = reg_value lo hi \<and> base_addr r = base_addr (chan_of i c s)"
    by (simp_all add: r_def set_base_def)
  show ?thesis unfolding Let_def c_def [symmetric] n_def [symmetric]
    using w(1,2) r1 r2 b rr(1,2) e by (intro exI [of _ s1] exI [of _ s2] exI [of _ ?s3] exI [of _ "snd (getff i ?s3)"] conjI) simp_all
qed

theorem dma_channel_readback_witness:
  "\<exists>s1 s2 s3 s4. write_chan 1 0xc4 0x34 dma_fresh = Inr s1 \<and> write_chan 1 0xc4 0x12 s1 = Inr s2
     \<and> read_chan 1 0xc4 s2 = Inr (0x34, s3) \<and> read_chan 1 0xc4 s3 = Inr (0x12, s4) \<and> now_addr (chan_of 1 1 s4) = 0x2468"
proof -
  have f: "flip_flop (cont_of 1 dma_fresh) = 0" by (simp add: dma_fresh_def cont_of_def Let_def)
  have v: "reg_value 0x34 0x12 = 0x1234" by (simp add: reg_value_def)
  show ?thesis using dma_channel_readback [OF dma_fresh_wf _ _ f, of "0xc4" "0x34" "0x12"] by (auto simp: Let_def v)
qed

text \<open>C23: \<^verbatim>\<open>DMA_run\<close> serves exactly the requesting channels. With handlers that may withdraw their own channel's request but
  leave masks and the other requests alone, one scan serves each channel whose request bit is set in the upper half of the status register and
  whose mask bit is clear when the scan starts, once each, controller 0 first and in channel order: it calls the handler with the
  number, the position and the length in bytes of the channel and stores the position it returns. It rearms the
  bottom half if and only if there was such a channel.\<close>

theorem dma_run_exact:
  assumes "dma_handlers_local h"
  shows "DMA_run h sm = res_bind (res_fold (serve_channel h) (active (fst sm)) sm)
     (\<lambda>(s, m). Inr (if active (fst sm) = [] then s else s\<lparr>bh_scheduled := True\<rparr>, m))"
proof -
  have same: "res_fold (\<lambda>(i, c). channel_run h i c) xs y = res_fold (serve_channel h) xs y" if "set xs \<subseteq> {0, 1} \<times> UNIV" for xs y
    using that
  proof (induction xs arbitrary: y)
    case (Cons x xs)
    then have "(case x of (i, c) \<Rightarrow> channel_run h i c) y = serve_channel h x y" by (cases x) (auto simp: channel_run_serves)
    then show ?case using Cons by (cases "serve_channel h x y") auto
  qed simp
  have "set (active (fst sm)) \<subseteq> {0, 1} \<times> UNIV" by (auto simp: active_def)
  then show ?thesis unfolding run_exact [OF assms] by (simp only: same)
qed

theorem dma_run_exact_witness:
  "DMA_run idle_handler (dma_fresh, ()) = Inr (dma_fresh, ())
   \<and> (let s = upd_cont 1 (\<lambda>d. d\<lparr>dma_mask := 0, dma_status := 0x20\<rparr>) dma_fresh in
      DMA_run idle_handler (s, ()) = res_bind (serve_channel idle_handler (1, 1) (s, ())) (\<lambda>(s, m). Inr (s\<lparr>bh_scheduled := True\<rparr>, m)))"
proof -
  have a: "active dma_fresh = []" "active (upd_cont 1 (\<lambda>d. d\<lparr>dma_mask := 0, dma_status := 0x20\<rparr>) dma_fresh) = [(1, 1)]"
    unfolding active_requesting by (code_simp, code_simp)
  then show ?thesis using dma_run_exact [OF idle_handler_safe(2), of "(dma_fresh, ())"]
    dma_run_exact [OF idle_handler_safe(2), of "(upd_cont 1 (\<lambda>d. d\<lparr>dma_mask := 0, dma_status := 0x20\<rparr>) dma_fresh, ())"]
    by (simp add: Let_def)
qed

text \<open>C24: DMA transfers in the two directions. On a channel in increment mode, what a device writes at a position is
  stored at the channel's address plus the position, and reading it back returns it. In decrement mode the code means to
  deliver the bytes below the address in reverse order, but its swap loop only copies: the device gets byte \<open>max j (n-1-j)\<close>
  of the block at every \<open>j\<close>, which is the reversed block only for blocks that read the same backwards.\<close>

theorem dma_memory_transfer:
  fixes m :: "'a mem_bus_scheme"
  assumes "length bs = n" "r = chan_of (ncont_of nchan) (ichan_of nchan) s"
    and "backed m (if dma_mode r AND 0x20 = 0 then transfer_addr r + word_of_int pos else transfer_addr r - word_of_int pos - of_nat n) n"
  shows "(dma_mode r AND 0x20 = 0 \<longrightarrow> (\<exists>m'. DMA_write_memory k nchan bs pos (int n) (s, m) = Inr ((int n, bs), s, m')
        \<and> ram m' = ram_write (transfer_addr r + word_of_int pos) bs (ram m)
        \<and> DMA_read_memory k nchan (replicate n 0) pos (int n) (s, m') = Inr ((int n, bs), s, m')))
    \<and> (dma_mode r AND 0x20 \<noteq> 0 \<longrightarrow> (let blk = ram_read (transfer_addr r - word_of_int pos - of_nat n) n (ram m);
          out = map (\<lambda>j. blk ! max j (n - 1 - j)) [0..<n] in
        DMA_read_memory k nchan (replicate n 0) pos (int n) (s, m) = Inr ((int n, out), s, m) \<and> (out = rev blk \<longleftrightarrow> rev blk = blk)))"
proof (cases "dma_mode r AND 0x20 = 0")
  case True
  let ?a = "transfer_addr r + word_of_int pos"
  have b: "backed m ?a (length bs)" using assms True by simp
  obtain m' where st: "phys_store k ?a bs m = Inr m'" "ram m' = ram_write ?a bs (ram m)" using phys.store_ok [OF b] by blast
  then have w: "cpu_physical_memory_rw k ?a bs (int n) True m = Inr (bs, m')"
    using assms(1) by (auto simp: phys_store_def cpu_physical_memory_rw_def res_bind_Inr_iff)
  have "cpu_physical_memory_rw k ?a (replicate n 0) (int n) False m' = Inr (bs, m')"
    using phys.store_then_load [OF b, of k] st(1) assms(1) by (auto simp: phys_load_def)
  then show ?thesis using True w st(2) assms(2) by (simp add: DMA_write_memory_def DMA_read_memory_def)
next
  case False
  let ?a = "transfer_addr r - word_of_int pos - of_nat n"
  let ?blk = "ram_read ?a n (ram m)"
  have "cpu_physical_memory_rw k ?a (replicate n 0) (int n) False m = Inr (?blk, m)"
    using phys.load_ok [of m ?a n k] assms(3) False by (simp add: phys_load_def)
  then have "DMA_read_memory k nchan (replicate n 0) pos (int n) (s, m) = Inr ((int n, map (\<lambda>j. ?blk ! max j (n - 1 - j)) [0..<n]), s, m)"
    using False assms(2) mirror_half [of ?blk n] by (simp add: DMA_read_memory_def nat_div_distrib)
  then show ?thesis using False mirror_is_rev [of ?blk] by (simp add: Let_def)
qed

definition decrement_demo :: dma_state where
  "decrement_demo = upd_chan 0 2 (\<lambda>r. r\<lparr>dma_mode := 0x20, now_addr := 0x1000\<rparr>) dma_fresh"

theorem dma_memory_transfer_witness:
  "let m = demo_mem\<lparr>ram := (\<lambda>a. if a = 0xffd then 1 else if a = 0xffe then 2 else 3)\<rparr> in
   DMA_read_memory null_code 2 (replicate 3 0) 0 (int 3) (decrement_demo, m) = Inr ((int 3, [3, 2, 3]), decrement_demo, m)"
proof -
  let ?m = "demo_mem\<lparr>ram := (\<lambda>a. if a = 0xffd then 1 else if a = 0xffe then 2 else 3)\<rparr>"
  let ?r = "chan_of 0 2 decrement_demo"
  have n: "ncont_of 2 = 0" "ichan_of 2 = 2" by (simp_all add: ncont_of_def ichan_of_def)
  have r: "dma_mode ?r = 0x20" "transfer_addr ?r = 0x1000" by (code_simp, code_simp)
  have "backed ?m 0xffd 3" using demo_backed [of 3 "0xffd"] backed_cong [of ?m demo_mem] by simp
  moreover have "ram_read 0xffd 3 (ram ?m) = [1, 2, 3]" by (simp add: ram_read_def numeral_eq_Suc)
  ultimately show ?thesis
    using dma_memory_transfer [of "[0, 0, 0]" 3 ?r 2 decrement_demo ?m 0 null_code] r
    by (simp add: n Let_def upt_rec)
qed

text \<open>Loading a snapshot of a controller takes its \<^verbatim>\<open>dshift\<close> from the file unchecked. With a shift of 0 in the 16-bit
  controller the section loads with result 0, and the guest's next read of port 0xc8 reads outside the channel array.\<close>

theorem dma_load_shift_unchecked:
  assumes "dma_fits 1 s" "dshift (cont_of 1 s) = 0" "length (dma_controllers t) = 2" "length (dma_chans (cont_of 1 t)) = 4"
    and "\<forall>j c. \<not> requesting j c (dma_restored 1 t s)"
    and "qemu_fopen True old ''wb'' = Some f"
  shows "\<exists>f1 g g1 t'. dma_save 1 s f = Inr f1 \<and> qemu_fopen True (fst (qemu_fclose f1)) ''rb'' = Some g
    \<and> dma_load h 1 (t, m) 1 g = Inr ((0, t', m), g1) \<and> read_chan 1 0xc8 t' = Inl Bad_access"
proof -
  obtain f1 g g1 where "dma_save 1 s f = Inr f1" "qemu_fopen True (fst (qemu_fclose f1)) ''rb'' = Some g"
    "dma_load h 1 (t, m) 1 g = Inr ((0, dma_restored 1 t s, m), g1)"
    using save_then_load [OF dma_save_emits dma_load_consumes [of 1 s "(t, m)" h "(dma_restored 1 t s, m)"] assms(6)] assms(1,4,5)
    by (auto simp: run_idle)
  moreover have "dshift (cont_of 1 (dma_restored 1 t s)) = 0" using assms(2,3) by (simp add: dma_restored_def)
  then have "read_chan 1 0xc8 (dma_restored 1 t s) = Inl Bad_access"
    by (simp add: read_chan_def iport_of_def Let_def split_def)
  ultimately show ?thesis by blast
qed

end
