(* ===== verification/Pc_Bus.thy ===== *)
theory Pc_Bus
  imports Ioport Dma
begin

text \<open>
  The port registrations of the devices \<^verbatim>\<open>hw/pc.c\<close> puts on the I/O bus, as their init functions make them, and
  what each leaves in the port table. A function pointer is a number.
\<close>

section \<open>Registrations\<close>

abbreviation (input) "SERIAL_IOPORT_READ \<equiv> (1::nat)"
abbreviation (input) "SERIAL_IOPORT_WRITE \<equiv> (2::nat)"
abbreviation (input) "CMOS_IOPORT_READ \<equiv> (3::nat)"
abbreviation (input) "CMOS_IOPORT_WRITE \<equiv> (4::nat)"
abbreviation (input) "KBD_READ_DATA \<equiv> (5::nat)"
abbreviation (input) "KBD_WRITE_DATA \<equiv> (6::nat)"
abbreviation (input) "KBD_READ_STATUS \<equiv> (7::nat)"
abbreviation (input) "KBD_WRITE_COMMAND \<equiv> (8::nat)"

abbreviation (input) "IOPORT92_READ \<equiv> (9::nat)"
abbreviation (input) "IOPORT92_WRITE \<equiv> (10::nat)"

definition serial_register :: "int \<Rightarrow> nat \<Rightarrow> 'a port_bus_scheme \<Rightarrow> 'a port_bus_scheme res" where
  "serial_register base s m =
     res_bind (register_ioport_write base 8 1 SERIAL_IOPORT_WRITE s m)
       (register_ioport_read base 8 1 SERIAL_IOPORT_READ s)"

definition rtc_register :: "int \<Rightarrow> nat \<Rightarrow> 'a port_bus_scheme \<Rightarrow> 'a port_bus_scheme res" where
  "rtc_register base s m =
     res_bind (register_ioport_write base 2 1 CMOS_IOPORT_WRITE s m)
       (register_ioport_read base 2 1 CMOS_IOPORT_READ s)"

definition i8042_register :: "int \<Rightarrow> nat \<Rightarrow> 'a port_bus_scheme \<Rightarrow> 'a port_bus_scheme res" where
  "i8042_register io_base s m =
     res_bind (register_ioport_read io_base 1 1 KBD_READ_DATA s m) (\<lambda>m.
     res_bind (register_ioport_write io_base 1 1 KBD_WRITE_DATA s m) (\<lambda>m.
     res_bind (register_ioport_read (io_base + 4) 1 1 KBD_READ_STATUS s m)
       (register_ioport_write (io_base + 4) 1 1 KBD_WRITE_COMMAND s)))"

definition port92_register :: "'a port_bus_scheme \<Rightarrow> 'a port_bus_scheme res" where
  "port92_register m = res_bind (register_ioport_read 0x92 1 1 IOPORT92_READ 0 m) (register_ioport_write 0x92 1 1 IOPORT92_WRITE 0)"

fun dma_fn_code :: "dma_fn \<Rightarrow> nat" where
  "dma_fn_code Write_chan = 11" | "dma_fn_code Read_chan = 12" | "dma_fn_code Write_page = 13"
| "dma_fn_code Read_page = 14" | "dma_fn_code Write_cont = 15" | "dma_fn_code Read_cont = 16"

definition dma_register_one :: "nat \<Rightarrow> nat \<times> dma_fn \<times> dma_fn \<Rightarrow> 'a port_bus_scheme \<Rightarrow> 'a port_bus_scheme res" where
  "dma_register_one op = (\<lambda>(p, w, r) m.
     res_bind (register_ioport_write (int p) 1 1 (dma_fn_code w) op m) (register_ioport_read (int p) 1 1 (dma_fn_code r) op))"

definition dma_register :: "nat \<Rightarrow> nat \<Rightarrow> nat \<Rightarrow> nat \<Rightarrow> 'a port_bus_scheme \<Rightarrow> 'a port_bus_scheme res" where
  "dma_register base sh page_base op = res_fold (dma_register_one op) (dma_ports2 base sh page_base)"

section \<open>Their effect on the port table\<close>

lemma port_at_table: "ioport_table m' = ioport_table m \<Longrightarrow> port_at m' a = port_at m a"
  by (simp add: port_at_def alloc_page_def)

text \<open>\<open>m'\<close> is \<open>m\<close> with \<open>g\<close> applied to the descriptors of a range of ports.\<close>

definition installs ::
  "'a port_bus_scheme \<Rightarrow> int \<Rightarrow> int \<Rightarrow> (ioport_data \<Rightarrow> ioport_data) \<Rightarrow> 'a port_bus_scheme \<Rightarrow> bool" where
  "installs m start len g m' \<longleftrightarrow> (\<exists>t. m' = m\<lparr>ioport_table := t\<rparr>)
     \<and> (\<forall>a. port_at m' a = (if start \<le> int a \<and> int a < start + len then g (port_at m a) else port_at m a))"

lemma fold_upd_table: "\<exists>t. fold (\<lambda>a. upd_port a f) ks m = m\<lparr>ioport_table := t\<rparr>"
proof (induction ks arbitrary: m)
  case Nil
  show ?case by (rule exI [of _ "ioport_table m"]) simp
next
  case (Cons k ks)
  obtain t where "fold (\<lambda>a. upd_port a f) ks (upd_port k f m) = (upd_port k f m)\<lparr>ioport_table := t\<rparr>" using Cons by blast
  moreover have "(upd_port k f m)\<lparr>ioport_table := t\<rparr> = m\<lparr>ioport_table := t\<rparr>" by (simp add: upd_port_def Let_def)
  ultimately show ?case by auto
qed

lemma register_loop_installs:
  assumes "0 \<le> start" "start + len \<le> 65536" "\<And>d. opaque (g d) = op"
    and "\<forall>a. start \<le> int a \<and> int a < start + len \<longrightarrow> opaque (port_at m a) = 0 \<or> opaque (port_at m a) = op"
  shows "\<exists>m'. register_loop g op 1 start (start + len) m = Inr m' \<and> installs m start len g m'"
proof -
  let ?ks = "visited start (start + len) 1"
  let ?m = "fold (\<lambda>a. upd_port a g) ?ks m"
  have mem: "a \<in> set ?ks \<longleftrightarrow> start \<le> int a \<and> int a < start + len" for a
    using visited_facts(2) [OF assms(1), of a "start + len" 1] by simp
  have "register_loop g op 1 start (start + len) m = Inr ?m"
    using assms mem by (intro register_loop_ok) auto
  moreover have "port_at ?m a = (if a \<in> set ?ks then g (port_at m a) else port_at m a)" for a
    by (rule ports.look_fold_upd [OF visited_facts(1)])
  ultimately show ?thesis using fold_upd_table [of g ?ks m] by (auto simp: installs_def mem)
qed

lemma register_installs:
  assumes "0 \<le> start" "start + len \<le> 65536"
    and "\<forall>a. start \<le> int a \<and> int a < start + len \<longrightarrow> opaque (port_at m a) = 0 \<or> opaque (port_at m a) = op"
  shows "\<exists>m'. register_ioport_read start len 1 fn op m = Inr m' \<and> installs m start len (set_reader 0 fn op) m'"
    and "\<exists>m'. register_ioport_write start len 1 fn op m = Inr m' \<and> installs m start len (set_writer 0 fn op) m'"
  using register_loop_installs [OF assms(1,2) _ assms(3), of "set_reader 0 fn op"]
    register_loop_installs [OF assms(1,2) _ assms(3), of "set_writer 0 fn op"]
  by (simp_all add: register_ioport_read_def register_ioport_write_def access_index_def set_reader_def set_writer_def)

lemma rtc_register_ports:
  assumes "\<forall>a. port_at m a = default_ioport"
  shows "\<exists>t. rtc_register 0x70 op m = Inr (m\<lparr>ioport_table := t\<rparr>) \<and> (\<forall>a. port_at (m\<lparr>ioport_table := t\<rparr>) a =
    (if a = 0x70 \<or> a = 0x71 then set_reader 0 CMOS_IOPORT_READ op (set_writer 0 CMOS_IOPORT_WRITE op default_ioport) else default_ioport))"
proof -
  obtain m1 where m1: "register_ioport_write 0x70 2 1 4 op m = Inr m1" "installs m 0x70 2 (set_writer 0 4 op) m1"
    using register_installs(2) [of "0x70" 2 m op 4] assms by auto
  obtain m2 where m2: "register_ioport_read 0x70 2 1 3 op m1 = Inr m2" "installs m1 0x70 2 (set_reader 0 3 op) m2"
    using register_installs(1) [of "0x70" 2 m1 op 3] m1(2) assms by (auto simp: installs_def set_writer_def)
  obtain t where t: "m2 = m\<lparr>ioport_table := t\<rparr>" using m1(2) m2(2) by (auto simp: installs_def)
  show ?thesis
  proof (intro exI [of _ t] conjI allI)
    show "rtc_register 0x70 op m = Inr (m\<lparr>ioport_table := t\<rparr>)" using m1(1) m2(1) t by (simp add: rtc_register_def)
    fix a
    have "0x70 \<le> int a \<and> int a < 0x70 + 2 \<longleftrightarrow> a = 0x70 \<or> a = 0x71" by auto
    then show "port_at (m\<lparr>ioport_table := t\<rparr>) a = (if a = 0x70 \<or> a = 0x71
        then set_reader 0 CMOS_IOPORT_READ op (set_writer 0 CMOS_IOPORT_WRITE op default_ioport) else default_ioport)"
      using m1(2) m2(2) assms unfolding t [symmetric] by (simp add: installs_def)
  qed
qed

lemma serial_register_ports:
  assumes "\<forall>a. 0x3f8 \<le> a \<and> a < 0x400 \<longrightarrow> port_at m a = default_ioport"
  shows "\<exists>t. serial_register 0x3f8 op m = Inr (m\<lparr>ioport_table := t\<rparr>) \<and> (\<forall>a. port_at (m\<lparr>ioport_table := t\<rparr>) a =
    (if 0x3f8 \<le> a \<and> a < 0x400 then set_reader 0 SERIAL_IOPORT_READ op (set_writer 0 SERIAL_IOPORT_WRITE op default_ioport)
     else port_at m a))"
proof -
  have rng: "0x3f8 \<le> int a \<and> int a < 0x3f8 + 8 \<longleftrightarrow> 0x3f8 \<le> a \<and> a < 0x400" for a by auto
  obtain m1 where m1: "register_ioport_write 0x3f8 8 1 2 op m = Inr m1" "installs m 0x3f8 8 (set_writer 0 2 op) m1"
    using register_installs(2) [of "0x3f8" 8 m op 2] assms by (auto simp: rng)
  obtain m2 where m2: "register_ioport_read 0x3f8 8 1 1 op m1 = Inr m2" "installs m1 0x3f8 8 (set_reader 0 1 op) m2"
    using register_installs(1) [of "0x3f8" 8 m1 op 1] m1(2) assms by (auto simp: installs_def set_writer_def rng)
  obtain t where t: "m2 = m\<lparr>ioport_table := t\<rparr>" using m1(2) m2(2) by (auto simp: installs_def)
  show ?thesis
  proof (intro exI [of _ t] conjI allI)
    show "serial_register 0x3f8 op m = Inr (m\<lparr>ioport_table := t\<rparr>)" using m1(1) m2(1) t by (simp add: serial_register_def)
    fix a
    show "port_at (m\<lparr>ioport_table := t\<rparr>) a = (if 0x3f8 \<le> a \<and> a < 0x400
        then set_reader 0 SERIAL_IOPORT_READ op (set_writer 0 SERIAL_IOPORT_WRITE op default_ioport) else port_at m a)"
      using m1(2) m2(2) assms unfolding t [symmetric] by (simp add: installs_def rng)
  qed
qed

lemma i8042_register_ports:
  assumes "port_at m 0x60 = default_ioport" "port_at m 0x64 = default_ioport"
  shows "\<exists>t. i8042_register 0x60 op m = Inr (m\<lparr>ioport_table := t\<rparr>) \<and> (\<forall>a. port_at (m\<lparr>ioport_table := t\<rparr>) a =
    (if a = 0x60 then set_writer 0 KBD_WRITE_DATA op (set_reader 0 KBD_READ_DATA op default_ioport)
     else if a = 0x64 then set_writer 0 KBD_WRITE_COMMAND op (set_reader 0 KBD_READ_STATUS op default_ioport) else port_at m a))"
proof -
  have rng: "96 \<le> a \<and> a < 97 \<longleftrightarrow> a = 96" "100 \<le> a \<and> a < 101 \<longleftrightarrow> a = 100" for a :: nat by auto
  obtain m1 where m1: "register_ioport_read 0x60 1 1 5 op m = Inr m1" "installs m 0x60 1 (set_reader 0 5 op) m1"
    using register_installs(1) [of "0x60" 1 m op 5] assms by (auto simp: rng)
  obtain m2 where m2: "register_ioport_write 0x60 1 1 6 op m1 = Inr m2" "installs m1 0x60 1 (set_writer 0 6 op) m2"
    using register_installs(2) [of "0x60" 1 m1 op 6] m1(2) assms by (auto simp: installs_def set_reader_def rng)
  obtain m3 where m3: "register_ioport_read 0x64 1 1 7 op m2 = Inr m3" "installs m2 0x64 1 (set_reader 0 7 op) m3"
    using register_installs(1) [of "0x64" 1 m2 op 7] m1(2) m2(2) assms by (auto simp: installs_def rng)
  obtain m4 where m4: "register_ioport_write 0x64 1 1 8 op m3 = Inr m4" "installs m3 0x64 1 (set_writer 0 8 op) m4"
    using register_installs(2) [of "0x64" 1 m3 op 8] m1(2) m2(2) m3(2) assms by (auto simp: installs_def set_reader_def rng)
  obtain t where t: "m4 = m\<lparr>ioport_table := t\<rparr>" using m1(2) m2(2) m3(2) m4(2) by (auto simp: installs_def)
  show ?thesis
  proof (intro exI [of _ t] conjI allI)
    show "i8042_register 0x60 op m = Inr (m\<lparr>ioport_table := t\<rparr>)"
      using m1(1) m2(1) m3(1) m4(1) t by (simp add: i8042_register_def)
    fix a
    show "port_at (m\<lparr>ioport_table := t\<rparr>) a = (if a = 0x60 then set_writer 0 KBD_WRITE_DATA op (set_reader 0 KBD_READ_DATA op default_ioport)
     else if a = 0x64 then set_writer 0 KBD_WRITE_COMMAND op (set_reader 0 KBD_READ_STATUS op default_ioport) else port_at m a)"
      using m1(2) m2(2) m3(2) m4(2) assms unfolding t [symmetric] by (simp add: installs_def rng)
  qed
qed

lemma port92_register_ports:
  assumes "port_at m 0x92 = default_ioport"
  shows "\<exists>t. port92_register m = Inr (m\<lparr>ioport_table := t\<rparr>) \<and> (\<forall>a. port_at (m\<lparr>ioport_table := t\<rparr>) a =
    (if a = 0x92 then set_writer 0 IOPORT92_WRITE 0 (set_reader 0 IOPORT92_READ 0 default_ioport) else port_at m a))"
proof -
  have rng: "146 \<le> a \<and> a < 147 \<longleftrightarrow> a = 146" for a :: nat by auto
  obtain m1 where m1: "register_ioport_read 0x92 1 1 9 0 m = Inr m1" "installs m 0x92 1 (set_reader 0 9 0) m1"
    using register_installs(1) [of "0x92" 1 m 0 9] assms by (auto simp: rng)
  obtain m2 where m2: "register_ioport_write 0x92 1 1 10 0 m1 = Inr m2" "installs m1 0x92 1 (set_writer 0 10 0) m2"
    using register_installs(2) [of "0x92" 1 m1 0 10] m1(2) assms by (auto simp: installs_def set_reader_def rng)
  obtain t where t: "m2 = m\<lparr>ioport_table := t\<rparr>" using m1(2) m2(2) by (auto simp: installs_def)
  show ?thesis
  proof (intro exI [of _ t] conjI allI)
    show "port92_register m = Inr (m\<lparr>ioport_table := t\<rparr>)" using m1(1) m2(1) t by (simp add: port92_register_def)
    fix a
    show "port_at (m\<lparr>ioport_table := t\<rparr>) a = (if a = 0x92
        then set_writer 0 IOPORT92_WRITE 0 (set_reader 0 IOPORT92_READ 0 default_ioport) else port_at m a)"
      using m1(2) m2(2) assms unfolding t [symmetric] by (simp add: installs_def rng)
  qed
qed

definition dma_descriptor :: "nat \<Rightarrow> dma_fn \<times> dma_fn \<Rightarrow> ioport_data" where
  "dma_descriptor op wr = set_reader 0 (dma_fn_code (snd wr)) op (set_writer 0 (dma_fn_code (fst wr)) op default_ioport)"

lemma dma_one_ports:
  assumes "port_at m p = default_ioport" "p < 65536"
  shows "\<exists>t. dma_register_one op (p, w, r) m = Inr (m\<lparr>ioport_table := t\<rparr>)
    \<and> (\<forall>a. port_at (m\<lparr>ioport_table := t\<rparr>) a = (if a = p then dma_descriptor op (w, r) else port_at m a))"
proof -
  have rng: "int p \<le> int a \<and> int a < int p + 1 \<longleftrightarrow> a = p" "p \<le> a \<and> a \<le> p \<longleftrightarrow> a = p" for a by auto
  obtain m1 where m1: "register_ioport_write (int p) 1 1 (dma_fn_code w) op m = Inr m1"
    "installs m (int p) 1 (set_writer 0 (dma_fn_code w) op) m1"
    using register_installs(2) [of "int p" 1 m op "dma_fn_code w"] assms by (auto simp: rng)
  obtain m2 where m2: "register_ioport_read (int p) 1 1 (dma_fn_code r) op m1 = Inr m2"
    "installs m1 (int p) 1 (set_reader 0 (dma_fn_code r) op) m2"
    using register_installs(1) [of "int p" 1 m1 op "dma_fn_code r"] m1(2) assms by (auto simp: installs_def set_writer_def rng)
  obtain t where t: "m2 = m\<lparr>ioport_table := t\<rparr>" using m1(2) m2(2) by (auto simp: installs_def)
  have "dma_register_one op (p, w, r) m = Inr m2" using m1(1) m2(1) by (simp add: dma_register_one_def)
  moreover have "port_at m2 a = (if a = p then dma_descriptor op (w, r) else port_at m a)" for a
    using m1(2) m2(2) assms(1) by (simp add: installs_def rng dma_descriptor_def)
  ultimately show ?thesis unfolding t by blast
qed

lemma dma_fold_ports:
  assumes "distinct (map fst ps)" "\<forall>(p, wr) \<in> set ps. port_at m p = default_ioport \<and> p < 65536"
  shows "\<exists>t. res_fold (dma_register_one op) ps m = Inr (m\<lparr>ioport_table := t\<rparr>) \<and> (\<forall>a. port_at (m\<lparr>ioport_table := t\<rparr>) a =
    (case map_of ps a of Some wr \<Rightarrow> dma_descriptor op wr | None \<Rightarrow> port_at m a))"
  using assms
proof (induction ps arbitrary: m)
  case Nil
  show ?case by (rule exI [of _ "ioport_table m"]) simp
next
  case (Cons x ps)
  obtain p w r where x: "x = (p, w, r)" by (cases x) auto
  obtain t1 where t1: "dma_register_one op (p, w, r) m = Inr (m\<lparr>ioport_table := t1\<rparr>)"
    "\<forall>a. port_at (m\<lparr>ioport_table := t1\<rparr>) a = (if a = p then dma_descriptor op (w, r) else port_at m a)"
    using dma_one_ports [of m p op w r] Cons.prems x by auto
  have "\<forall>(q, wr) \<in> set ps. port_at (m\<lparr>ioport_table := t1\<rparr>) q = default_ioport \<and> q < 65536"
  proof (intro ballI, clarify)
    fix q wa wb assume q: "(q, wa, wb) \<in> set ps"
    then have "q \<noteq> p" "port_at m q = default_ioport \<and> q < 65536" using Cons.prems x by force+
    then show "port_at (m\<lparr>ioport_table := t1\<rparr>) q = default_ioport \<and> q < 65536" using t1(2) by simp
  qed
  then obtain t where t: "res_fold (dma_register_one op) ps (m\<lparr>ioport_table := t1\<rparr>) = Inr (m\<lparr>ioport_table := t\<rparr>)"
    "\<forall>a. port_at (m\<lparr>ioport_table := t\<rparr>) a = (case map_of ps a of Some wr \<Rightarrow> dma_descriptor op wr | None \<Rightarrow> port_at (m\<lparr>ioport_table := t1\<rparr>) a)"
    using Cons.IH [of "m\<lparr>ioport_table := t1\<rparr>"] Cons.prems x by auto
  have "map_of ps p = None" using Cons.prems x by (simp add: map_of_eq_None_iff)
  then show ?case using t t1 by (intro exI [of _ t]) (auto simp: x split: option.split)
qed

lemma dma_ports2_facts:
  "distinct (map fst (dma_ports2 0 0 0x80))" "distinct (map fst (dma_ports2 0xc0 1 0x88))"
  "(p, wr) \<in> set (dma_ports2 0 0 0x80) \<Longrightarrow> p < 0x10 \<or> 0x80 < p \<and> p < 0x88"
  "(p, wr) \<in> set (dma_ports2 0xc0 1 0x88) \<Longrightarrow> 0x88 < p \<and> p < 0x90 \<or> 0xc0 \<le> p \<and> p < 0xe0"
  by (auto simp: dma_ports2_def page_port_list_def upt_rec push_bit_eq_mult)

lemma map_of_mapped: "map_of (map (\<lambda>(p, w, r). (p, w, r, i)) ps) a = map_option (\<lambda>(w, r). (w, r, i)) (map_of ps a)"
  by (induction ps) auto

lemma dma_ports2_disjoint: "(p, wr) \<in> set (dma_ports2 0xc0 1 0x88) \<Longrightarrow> map_of (dma_ports2 0 0 0x80) p = None"
proof (rule ccontr)
  assume "map_of (dma_ports2 0 0 0x80) p \<noteq> None"
  then obtain wr' where "(p, wr') \<in> set (dma_ports2 0 0 0x80)" by (auto dest: map_of_SomeD)
  from dma_ports2_facts(3) [OF this] show "(p, wr) \<in> set (dma_ports2 0xc0 1 0x88) \<Longrightarrow> False"
    using dma_ports2_facts(4) [of p wr] by auto
qed

lemma map_of_dma_ports: "map_of dma_ports a = (case map_of (dma_ports2 0xc0 1 0x88) a of
    Some (w, r) \<Rightarrow> Some (w, r, 1) | None \<Rightarrow> map_option (\<lambda>(w, r). (w, r, 0)) (map_of (dma_ports2 0 0 0x80) a))"
proof (cases "map_of (dma_ports2 0xc0 1 0x88) a")
  case (Some wr)
  then show ?thesis using dma_ports2_disjoint [OF map_of_SomeD [OF Some]]
    by (auto simp: dma_ports_def map_of_mapped map_add_def split: prod.split)
next
  case None
  then show ?thesis by (simp add: dma_ports_def map_of_mapped map_add_def del: One_nat_def split: option.split)
qed

lemma dma_ports_distinct: "(p, w, r, i) \<in> set dma_ports \<Longrightarrow> map_of dma_ports p = Some (w, r, i)"
  by (rule map_of_is_SomeI) (simp_all add: dma_ports_eq)

end
