(* ===== verification/Ioreq.thy ===== *)
theory Ioreq
  imports Phys_Mem
begin

text \<open>
  I/O requests from the hypervisor (\<^verbatim>\<open>i386-dm/helper2.c\<close>): the per-vcpu request slots of the shared
  page, the ring of buffered requests, and the handlers that turn a request into port accesses
  and memory transfers. The layout of the requests is that of Xen's public header
  \<^verbatim>\<open>hvm/ioreq.h\<close>; the number of ring slots (\<^verbatim>\<open>IOREQ_BUFFER_SLOT_NUM\<close>) is the length of the list.
  What the event channel, the clock and the run-state report is the environment \<open>dm_env\<close>; calls to
  libxc, the timers and xenstore are recorded in \<open>dm_events\<close>. The shared page is not written by
  the guest while a request is in service.
\<close>

section \<open>State\<close>

datatype ioreq_state = STATE_IOREQ_NONE | STATE_IOREQ_READY | STATE_IOREQ_INPROCESS | STATE_IORESP_READY

datatype ioreq_dir = IOREQ_WRITE | IOREQ_READ

datatype ioreq_type = IOREQ_TYPE_PIO | IOREQ_TYPE_COPY | IOREQ_TYPE_TIMEOFFSET | IOREQ_TYPE_INVALIDATE | Other_type u8

record ioreq =
  req_addr :: u64
  req_data :: u64
  req_count :: u32
  req_size :: u32
  req_state :: ioreq_state
  data_is_ptr :: bool
  req_dir :: ioreq_dir
  req_df :: bool
  req_type :: ioreq_type

record buf_ioreq =
  buf_type :: ioreq_type
  buf_dir :: ioreq_dir
  buf_size :: nat
  buf_addr :: u64
  buf_data :: u32

record buffered_iopage =
  read_pointer :: u32
  write_pointer :: u32
  buf_slots :: "buf_ioreq list"

datatype dm_event =
    Mod_buffered_timer int
  | Del_buffered_timer
  | Evtchn_unmask u32
  | Evtchn_notify u32
  | Set_rtc_timeoffset u64
  | Invalidate_map_cache
  | Destroy_hvm_domain
  | System_reset

record dm = mem_bus +
  vcpu_ioreq :: "ioreq list"
  ioreq_local_port :: "u32 list"
  bufioreq_local_port :: u32
  buffered_io_page :: "buffered_iopage option"
  send_vcpu :: nat
  time_offset :: u64
  a20_mask :: u32
  dm_events :: "dm_event list"

record dm_env =
  env_pending :: u32
  env_rt_clock :: int
  env_vm_running :: bool
  env_shutdown :: bool
  env_reset :: bool

abbreviation (input) "EVTCHN_PORT_INVALID \<equiv> (0xFFFFFFFF::u32)"
abbreviation (input) "BUFFER_IO_MAX_DELAY \<equiv> (100::int)"

definition dm_emit :: "dm_event \<Rightarrow> 'a dm_scheme \<Rightarrow> 'a dm_scheme" where
  "dm_emit e m = m\<lparr>dm_events := dm_events m @ [e]\<rparr>"

definition cpu_x86_set_a20 :: "int \<Rightarrow> 'a dm_scheme \<Rightarrow> 'a dm_scheme" where
  "cpu_x86_set_a20 a20_state m =
     (let a20 = (if a20_state \<noteq> 0 then 1 else 0) in
      if a20 \<noteq> drop_bit 20 (a20_mask m) AND 1
      then m\<lparr>a20_mask := 0xffefffff OR push_bit 20 a20\<rparr> else m)"

section \<open>Taking a request\<close>

definition get_ioreq_slot :: "nat \<Rightarrow> 'a dm_scheme \<Rightarrow> nat option \<times> 'a dm_scheme" where
  "get_ioreq_slot vcpu m =
     (if req_state (vcpu_ioreq m ! vcpu) \<noteq> STATE_IOREQ_READY then (None, m)
      else (Some vcpu, m\<lparr>vcpu_ioreq := (vcpu_ioreq m)
              [vcpu := (vcpu_ioreq m ! vcpu)\<lparr>req_state := STATE_IOREQ_INPROCESS\<rparr>]\<rparr>))"

definition cpu_get_ioreq :: "dm_env \<Rightarrow> 'a dm_scheme \<Rightarrow> (nat option \<times> 'a dm_scheme) res" where
  "cpu_get_ioreq e m =
     (let port = env_pending e in
      if bufioreq_local_port m \<noteq> EVTCHN_PORT_INVALID \<and> port = bufioreq_local_port m then
        Inr (None, dm_emit (Mod_buffered_timer (BUFFER_IO_MAX_DELAY + env_rt_clock e)) m)
      else if port \<noteq> 0xFFFFFFFF then
        (let i = first_index (\<lambda>p. p = port) (ioreq_local_port m) in
         if i = length (ioreq_local_port m) then Inl (Exit 1)
         else Inr (get_ioreq_slot i ((dm_emit (Evtchn_unmask port) m)\<lparr>send_vcpu := i\<rparr>)))
      else Inr (None, m))"

section \<open>Port and memory items\<close>

text \<open>\<^verbatim>\<open>cpu_inb\<close> and its siblings return \<^verbatim>\<open>int\<close>: the value is sign-extended to \<^verbatim>\<open>unsigned long\<close>.\<close>

definition do_inp where
  "do_inp c (addr::u64) (sz::u32) m =
     (if sz = 1 then res_bind (cpu_inb c (ucast addr) m) (\<lambda>(v, m). Inr (scast v :: u64, m))
      else if sz = 2 then res_bind (cpu_inw c (ucast addr) m) (\<lambda>(v, m). Inr (scast v, m))
      else if sz = 4 then res_bind (cpu_inl c (ucast addr) m) (\<lambda>(v, m). Inr (scast v, m))
      else Inl (Exit (-1)))"

definition do_outp where
  "do_outp c (addr::u64) (sz::u32) (val::u64) m =
     (if sz = 1 then cpu_outb c (ucast addr) (ucast val) m
      else if sz = 2 then cpu_outw c (ucast addr) (ucast val) m
      else if sz = 4 then cpu_outl c (ucast addr) (ucast val) m
      else Inl (Exit (-1)))"

definition item_addr :: "u64 \<Rightarrow> ioreq \<Rightarrow> u32 \<Rightarrow> u64" where
  "item_addr addr req i =
     (let offset = ucast (req_size req) * ucast i in if req_df req then addr - offset else addr + offset)"

text \<open>\<open>val\<close> is the 8-byte object the pointer argument designates.\<close>

definition rw_phys_req_item where
  "rw_phys_req_item c addr req i (val::u64) rw m =
     res_bind (cpu_physical_memory_rw c (item_addr addr req i) (le_store 8 val) (sint (req_size req)) rw m)
       (\<lambda>(bs, m). Inr (le_load bs, m))"

definition read_phys_req_item where
  "read_phys_req_item c addr req i val m = rw_phys_req_item c addr req i val False m"

definition write_phys_req_item where
  "write_phys_req_item c addr req i val m = res_bind (rw_phys_req_item c addr req i val True m) (\<lambda>(_, m). Inr m)"

text \<open>The values of the \<^verbatim>\<open>uint32_t\<close> loop counter.\<close>

definition items :: "ioreq \<Rightarrow> u32 list" where
  "items req = map of_nat [0..<unat (req_count req)]"

definition cpu_ioreq_pio where
  "cpu_ioreq_pio c req m =
     (case req_dir req of
        IOREQ_READ \<Rightarrow>
          if \<not> data_is_ptr req then
            res_bind (do_inp c (req_addr req) (req_size req) m) (\<lambda>(v, m). Inr (req\<lparr>req_data := v\<rparr>, m))
          else
            res_bind (res_fold (\<lambda>i m.
                res_bind (do_inp c (req_addr req) (req_size req) m) (\<lambda>(tmp, m).
                  write_phys_req_item c (req_data req) req i tmp m)) (items req) m) (\<lambda>m. Inr (req, m))
      | IOREQ_WRITE \<Rightarrow>
          if \<not> data_is_ptr req then
            res_bind (do_outp c (req_addr req) (req_size req) (req_data req) m) (\<lambda>m. Inr (req, m))
          else
            res_bind (res_fold (\<lambda>i m.
                res_bind (read_phys_req_item c (req_data req) req i 0 m) (\<lambda>(tmp, m).
                  do_outp c (req_addr req) (req_size req) tmp m)) (items req) m) (\<lambda>m. Inr (req, m)))"

text \<open>
  In the last two cases \<^verbatim>\<open>tmp\<close> starts indeterminate; the bytes that are written are those just read.
\<close>

definition cpu_ioreq_move where
  "cpu_ioreq_move c req m =
     (if \<not> data_is_ptr req then
        (case req_dir req of
           IOREQ_READ \<Rightarrow>
             res_bind (res_fold (\<lambda>i (data, m). read_phys_req_item c (req_addr req) req i data m)
                 (items req) (req_data req, m)) (\<lambda>(data, m). Inr (req\<lparr>req_data := data\<rparr>, m))
         | IOREQ_WRITE \<Rightarrow>
             res_bind (res_fold (\<lambda>i m. write_phys_req_item c (req_addr req) req i (req_data req) m)
                 (items req) m) (\<lambda>m. Inr (req, m)))
      else
        (let (src, dst) = (case req_dir req of IOREQ_READ \<Rightarrow> (req_addr req, req_data req)
                                             | IOREQ_WRITE \<Rightarrow> (req_data req, req_addr req))
         in res_bind (res_fold (\<lambda>i m.
                res_bind (read_phys_req_item c src req i 0 m) (\<lambda>(tmp, m).
                  write_phys_req_item c dst req i tmp m)) (items req) m) (\<lambda>m. Inr (req, m))))"

definition cpu_ioreq_timeoffset where
  "cpu_ioreq_timeoffset req m =
     dm_emit (Set_rtc_timeoffset (time_offset m + req_data req)) (m\<lparr>time_offset := time_offset m + req_data req\<rparr>)"

definition mask_data :: "ioreq \<Rightarrow> ioreq" where
  "mask_data req =
     (if \<not> data_is_ptr req \<and> req_dir req = IOREQ_WRITE \<and> req_size req < 8
      then req\<lparr>req_data := req_data req AND (push_bit (8 * unat (req_size req)) 1 - 1)\<rparr> else req)"

definition handle_ioreq where
  "handle_ioreq c req0 m =
     (let req = mask_data req0 in
      case req_type req of
        IOREQ_TYPE_PIO \<Rightarrow> cpu_ioreq_pio c req m
      | IOREQ_TYPE_COPY \<Rightarrow> cpu_ioreq_move c req m
      | IOREQ_TYPE_TIMEOFFSET \<Rightarrow> Inr (req, cpu_ioreq_timeoffset req m)
      | IOREQ_TYPE_INVALIDATE \<Rightarrow> Inr (req, dm_emit Invalidate_map_cache m)
      | Other_type t \<Rightarrow> Inl (Hw_error ''Invalid ioreq type''))"

section \<open>Buffered requests\<close>

definition buf_slot :: "buffered_iopage \<Rightarrow> u32 \<Rightarrow> buf_ioreq" where
  "buf_slot p n = buf_slots p ! (unat n mod length (buf_slots p))"

text \<open>The request rebuilt from the slot at the read pointer, and whether it takes two slots.\<close>

definition buf_request :: "buffered_iopage \<Rightarrow> ioreq \<times> bool" where
  "buf_request p =
     (let b = buf_slot p (read_pointer p);
          sz = push_bit (buf_size b) 1 :: u32;
          qw = (sz = 8);
          data = ucast (buf_data b) OR
            (if qw then push_bit 32 (ucast (buf_data (buf_slot p (read_pointer p + 1)))) else 0)
      in (\<lparr>req_addr = buf_addr b, req_data = data, req_count = 1, req_size = sz, req_state = STATE_IOREQ_READY,
           data_is_ptr = False, req_dir = buf_dir b, req_df = True, req_type = buf_type b\<rparr>, qw))"

text \<open>
  \<open>None\<close>: the loop has not ended within \<open>fuel\<close> rounds. The page is re-read from the state in every
  round, as the C code reads it through the global pointer.
\<close>

fun buffered_loop where
  "buffered_loop c 0 cnt m = None"
| "buffered_loop c (Suc fuel) cnt m =
     (case buffered_io_page m of
        None \<Rightarrow> Some (Inl Bad_access)
      | Some p \<Rightarrow>
          if read_pointer p = write_pointer p then Some (Inr (cnt, m))
          else
            (let (req, qw) = buf_request p in
             case handle_ioreq c req m of
               Inl e \<Rightarrow> Some (Inl e)
             | Inr (req', m1) \<Rightarrow>
                 (case buffered_io_page m1 of
                    None \<Rightarrow> Some (Inl Bad_access)
                  | Some p1 \<Rightarrow>
                      buffered_loop c fuel (req_count req') (m1\<lparr>buffered_io_page :=
                        Some (p1\<lparr>read_pointer := read_pointer p1 + (if qw then 2 else 1)\<rparr>)\<rparr>))))"

definition handle_buffered_iopage where
  "handle_buffered_iopage c fuel m =
     (case buffered_io_page m of None \<Rightarrow> Some (Inr (0, m)) | Some _ \<Rightarrow> buffered_loop c fuel 0 m)"

definition handle_buffered_io where
  "handle_buffered_io c e fuel m =
     map_option (\<lambda>r. res_bind r (\<lambda>(cnt, m).
       if cnt \<noteq> 0 \<or> bufioreq_local_port m = EVTCHN_PORT_INVALID
       then Inr (dm_emit (Mod_buffered_timer (BUFFER_IO_MAX_DELAY + env_rt_clock e)) m)
       else Inr (dm_emit (Evtchn_unmask (bufioreq_local_port m)) (dm_emit Del_buffered_timer m))))
     (handle_buffered_iopage c fuel m)"

section \<open>Serving a request\<close>

definition finish_ioreq :: "dm_env \<Rightarrow> nat \<Rightarrow> 'a dm_scheme \<Rightarrow> 'a dm_scheme" where
  "finish_ioreq e v m =
     (if req_state (vcpu_ioreq m ! v) \<noteq> STATE_IOREQ_INPROCESS then dm_emit Destroy_hvm_domain m
      else
        (let m1 = (if env_vm_running e \<and> env_shutdown e then dm_emit Destroy_hvm_domain m else m);
             m2 = (if env_vm_running e \<and> env_reset e then dm_emit System_reset m1 else m1);
             m3 = m2\<lparr>vcpu_ioreq := (vcpu_ioreq m2)[v := (vcpu_ioreq m2 ! v)\<lparr>req_state := STATE_IORESP_READY\<rparr>]\<rparr>
         in dm_emit (Evtchn_notify (ioreq_local_port m3 ! send_vcpu m3)) m3))"

definition cpu_handle_ioreq where
  "cpu_handle_ioreq c e fuel m =
     (case cpu_get_ioreq e m of
        Inl err \<Rightarrow> Some (Inl err)
      | Inr (req, m1) \<Rightarrow>
          map_option (\<lambda>r. res_bind r (\<lambda>(_, m2).
            case req of
              None \<Rightarrow> Inr m2
            | Some v \<Rightarrow>
                res_bind (handle_ioreq c (vcpu_ioreq m2 ! v) m2) (\<lambda>(req', m3).
                  Inr (finish_ioreq e v (m3\<lparr>vcpu_ioreq := (vcpu_ioreq m3)[v := req']\<rparr>)))))
          (handle_buffered_iopage c fuel m1))"

section \<open>Byte and value views of an item\<close>

lemma le_load_store: "le_load (le_store n v) = take_bit (8 * n) v"
proof (induction n arbitrary: v)
  case (Suc n)
  have "ucast (ucast v :: u8) OR push_bit 8 (take_bit (8 * n) (drop_bit 8 v)) = take_bit (8 * Suc n) v"
    by (rule bit_word_eqI) (auto simp: bit_simps)
  with Suc show ?case by simp
qed simp

lemma le_load_bits: "bit (le_load bs) n \<Longrightarrow> n < 8 * length bs"
proof (induction bs arbitrary: n)
  case (Cons b bs)
  then consider "bit b n" | "8 \<le> n" "bit (le_load bs) (n - 8)" by (auto simp: bit_simps)
  then show ?case using Cons.IH [of "n - 8"] by cases (auto dest: bit_imp_le_length)
qed simp

lemma le_store_load: "length bs \<le> 8 \<Longrightarrow> le_store (length bs) (le_load bs) = bs"
proof (induction bs)
  case (Cons b bs)
  have "bit (drop_bit 8 (ucast b OR push_bit 8 (le_load bs))) n = bit (le_load bs) n" for n
    using le_load_bits [of bs n] Cons.prems by (auto simp: bit_simps dest: bit_imp_le_length)
  then have "drop_bit 8 (ucast b OR push_bit 8 (le_load bs)) = le_load bs" by (rule bit_word_eqI)
  moreover have "ucast (ucast b OR push_bit 8 (le_load bs)) = b"
    by (rule bit_word_eqI) (auto simp: bit_simps)
  ultimately show ?case using Cons by simp
qed simp

lemma take_le_store: "n \<le> k \<Longrightarrow> take n (le_store k v) = le_store n v"
proof (induction n arbitrary: k v)
  case (Suc n)
  then obtain j where "k = Suc j" "n \<le> j" by (cases k) auto
  with Suc.IH show ?case by simp
qed simp

section \<open>Port requests\<close>

definition width_slot :: "u32 \<Rightarrow> nat option" where
  "width_slot sz = (if sz = 1 then Some 0 else if sz = 2 then Some 1 else if sz = 4 then Some 2 else None)"

lemma do_outp_slot:
  "do_outp c addr sz v m = (case width_slot sz of
     Some k \<Rightarrow> ioport_write c k (ucast addr) (ucast v) m | None \<Rightarrow> Inl (Exit (-1)))"
  by (simp add: do_outp_def width_slot_def cpu_outb_def cpu_outw_def cpu_outl_def)

lemma do_inp_slot:
  "do_inp c addr sz m = (case width_slot sz of
     Some k \<Rightarrow> res_bind (ioport_read c k (ucast addr) m) (\<lambda>(v, m). Inr (scast v, m)) | None \<Rightarrow> Inl (Exit (-1)))"
  by (simp add: do_inp_def width_slot_def cpu_inb_def cpu_inw_def cpu_inl_def)

lemma mask_is_take_bit:
  "\<not> data_is_ptr req \<Longrightarrow> req_dir req = IOREQ_WRITE \<Longrightarrow> req_size req < 8 \<Longrightarrow>
     req_data (mask_data req) = take_bit (8 * unat (req_size req)) (req_data req)"
  by (simp add: mask_data_def take_bit_eq_mask mask_eq_exp_minus_1 push_bit_eq_mult)

lemma mask_data_keeps [simp]:
  "req_addr (mask_data req) = req_addr req" "req_size (mask_data req) = req_size req"
  "req_dir (mask_data req) = req_dir req" "data_is_ptr (mask_data req) = data_is_ptr req"
  "req_type (mask_data req) = req_type req" "req_count (mask_data req) = req_count req"
  "req_df (mask_data req) = req_df req" "req_state (mask_data req) = req_state req"
  by (simp_all add: mask_data_def)

section \<open>Invariants of the machine under requests\<close>

text \<open>
  What the request code needs of the device handlers: a property of the machine that every handler
  keeps, and that does not look at guest RAM, the dirty log, the event log or the time offset, is
  kept by every request.
\<close>

locale handler_invariant =
  fixes c :: "('a dm_scheme, 'c) mem_code_scheme"
    and inv :: "'a dm_scheme \<Rightarrow> bool"
  assumes port_read_inv: "inv m \<Longrightarrow> call_port_read c fn op a m = Inr (v, m') \<Longrightarrow> inv m'"
    and port_write_inv: "inv m \<Longrightarrow> call_port_write c fn op a x m = Inr m' \<Longrightarrow> inv m'"
    and mem_read_inv: "inv m \<Longrightarrow> call_mem_read c fn op b m = Inr (v, m') \<Longrightarrow> inv m'"
    and mem_write_inv: "inv m \<Longrightarrow> call_mem_write c fn op b x m = Inr m' \<Longrightarrow> inv m'"
    and ram_inv: "inv m \<Longrightarrow> inv (m\<lparr>ram := r\<rparr>)" and modified_inv: "inv m \<Longrightarrow> inv (m\<lparr>modified := x'\<rparr>)"
    and event_inv: "inv m \<Longrightarrow> inv (dm_emit e m)" and offset_inv: "inv m \<Longrightarrow> inv (m\<lparr>time_offset := t\<rparr>)"
begin

lemma read_byte_inv: "inv m \<Longrightarrow> ioport_read_byte c a m = Inr (v, m') \<Longrightarrow> inv m'"
  by (auto simp: ioport_read_byte_def res_bind_Inr_iff default_ioport_readb_def intro: port_read_inv
      split: option.splits)

lemma write_byte_inv: "inv m \<Longrightarrow> ioport_write_byte c a v m = Inr m' \<Longrightarrow> inv m'"
  by (auto simp: ioport_write_byte_def res_bind_Inr_iff default_ioport_writeb_def intro: port_write_inv
      split: option.splits)

lemma default_read_inv: "inv m \<Longrightarrow> default_read c k op a m = Inr (v, m') \<Longrightarrow> inv m'"
  by (auto simp: default_read_def default_ioport_readb_def default_ioport_readl_def default_ioport_readw_def
      res_bind_Inr_iff intro: read_byte_inv split: if_splits)

lemma default_write_inv: "inv m \<Longrightarrow> default_write c k op a x m = Inr m' \<Longrightarrow> inv m'"
  by (auto simp: default_write_def default_ioport_writeb_def default_ioport_writel_def default_ioport_writew_def
      res_bind_Inr_iff intro: write_byte_inv split: if_splits)

lemma ioport_read_inv: "inv m \<Longrightarrow> ioport_read c k a m = Inr (v, m') \<Longrightarrow> inv m'"
  by (auto simp: ioport_read_def res_bind_Inr_iff intro: port_read_inv default_read_inv split: option.splits)

lemma ioport_write_inv: "inv m \<Longrightarrow> ioport_write c k a v m = Inr m' \<Longrightarrow> inv m'"
  by (auto simp: ioport_write_def res_bind_Inr_iff intro: port_write_inv default_write_inv split: option.splits)

lemma write_chunk_inv: "inv m \<Longrightarrow> mem_write_chunk c a buf m = Inr (n, m') \<Longrightarrow> inv m'"
  by (auto simp: mem_write_chunk_def Let_def log_dirty_def res_bind_Inr_iff intro: mem_write_inv ram_inv modified_inv
      split: if_splits option.splits)

lemma read_chunk_inv: "inv m \<Longrightarrow> mem_read_chunk c a n m = Inr (bs, m') \<Longrightarrow> inv m'"
  by (auto simp: mem_read_chunk_def Let_def res_bind_Inr_iff intro: mem_read_inv split: if_splits option.splits)

lemma write_loop_inv: "inv m \<Longrightarrow> mem_write_loop c a buf m = Inr m' \<Longrightarrow> inv m'"
proof (induction buf arbitrary: a m rule: length_induct)
  case (1 buf)
  show ?case
  proof (cases "buf = []")
    case True
    then show ?thesis using 1(2,3) by (simp add: mem_write_loop.simps)
  next
    case False
    then obtain n m1 where ch: "mem_write_chunk c a buf m = Inr (n, m1)"
      and rest: "mem_write_loop c (a + of_nat n) (drop n buf) m1 = Inr m'"
      using 1(3) by (subst (asm) mem_write_loop.simps) (auto split: sum.splits)
    have "length (drop n buf) < length buf" using write_chunk_progress [OF False ch] False by simp
    then show ?thesis using 1(1) rest write_chunk_inv [OF 1(2) ch] by blast
  qed
qed

lemma read_loop_inv: "inv m \<Longrightarrow> mem_read_loop c a n m = Inr (bs, m') \<Longrightarrow> inv m'"
proof (induction n arbitrary: a m bs rule: less_induct)
  case (less n)
  show ?case
  proof (cases "n = 0")
    case True
    then show ?thesis using less(2,3) by (simp add: mem_read_loop.simps)
  next
    case False
    then obtain xs m1 ys where ch: "mem_read_chunk c a n m = Inr (xs, m1)"
      and rest: "mem_read_loop c (a + of_nat (length xs)) (n - length xs) m1 = Inr (ys, m')"
      using less(3) by (subst (asm) mem_read_loop.simps) (auto simp: res_bind_Inr_iff split: sum.splits)
    have "n - length xs < n" using read_chunk_progress [OF _ ch] False by simp
    then show ?thesis using less(1) rest read_chunk_inv [OF less(2) ch] by blast
  qed
qed

lemma rw_inv: "inv m \<Longrightarrow> cpu_physical_memory_rw c a buf n w m = Inr (bs, m') \<Longrightarrow> inv m'"
  by (auto simp: cpu_physical_memory_rw_def res_bind_Inr_iff intro: write_loop_inv read_loop_inv split: if_splits)

lemma read_item_inv: "inv m \<Longrightarrow> read_phys_req_item c a req i v m = Inr (x, m') \<Longrightarrow> inv m'"
  by (auto simp: read_phys_req_item_def rw_phys_req_item_def res_bind_Inr_iff intro: rw_inv)

lemma write_item_inv: "inv m \<Longrightarrow> write_phys_req_item c a req i v m = Inr m' \<Longrightarrow> inv m'"
  by (auto simp: write_phys_req_item_def rw_phys_req_item_def res_bind_Inr_iff intro: rw_inv)

lemma do_inp_inv: "inv m \<Longrightarrow> do_inp c a sz m = Inr (x, m') \<Longrightarrow> inv m'"
  by (auto simp: do_inp_slot res_bind_Inr_iff intro: ioport_read_inv split: option.splits)

lemma do_outp_inv: "inv m \<Longrightarrow> do_outp c a sz x m = Inr m' \<Longrightarrow> inv m'"
  by (auto simp: do_outp_slot intro: ioport_write_inv split: option.splits)

lemmas item_invs = read_item_inv [rotated] write_item_inv [rotated] do_inp_inv [rotated] do_outp_inv [rotated]

lemma fold_inv:
  assumes "\<And>x m m'. inv m \<Longrightarrow> f x m = Inr m' \<Longrightarrow> inv m'"
  shows "inv m \<Longrightarrow> res_fold f xs m = Inr m' \<Longrightarrow> inv m'"
  by (induction xs arbitrary: m) (auto simp: res_bind_Inr_iff intro: assms)

lemma fold_snd_inv:
  assumes "\<And>x d m d' m'. inv m \<Longrightarrow> f x (d, m) = Inr (d', m') \<Longrightarrow> inv m'"
  shows "inv m \<Longrightarrow> res_fold f xs (d, m) = Inr (d', m') \<Longrightarrow> inv m'"
  by (induction xs arbitrary: m d) (auto simp: res_bind_Inr_iff intro: assms)

lemma pio_inv: "inv m \<Longrightarrow> cpu_ioreq_pio c req m = Inr (req', m') \<Longrightarrow> inv m'"
  by (auto simp: cpu_ioreq_pio_def res_bind_Inr_iff split: ioreq_dir.splits if_splits
      elim!: fold_inv [rotated 2] intro: item_invs) (blast intro: item_invs)+

lemma move_inv: "inv m \<Longrightarrow> cpu_ioreq_move c req m = Inr (req', m') \<Longrightarrow> inv m'"
  by (auto simp: cpu_ioreq_move_def res_bind_Inr_iff split: ioreq_dir.splits if_splits
      elim!: fold_inv [rotated 2] fold_snd_inv [rotated 2] intro: item_invs) (blast intro: item_invs)+

lemma request_inv: "inv m \<Longrightarrow> handle_ioreq c req m = Inr (req', m') \<Longrightarrow> inv m'"
  by (auto simp: handle_ioreq_def Let_def cpu_ioreq_timeoffset_def split: ioreq_type.splits
      intro: pio_inv move_inv event_inv offset_inv)

end

text \<open>A property of the devices alone also survives the bookkeeping of the request slots and the ring.\<close>

locale device_invariant = handler_invariant +
  assumes page_inv: "inv m \<Longrightarrow> inv (m\<lparr>buffered_io_page := p\<rparr>)"
    and slot_inv: "inv m \<Longrightarrow> inv (m\<lparr>vcpu_ioreq := s\<rparr>)"
    and send_inv: "inv m \<Longrightarrow> inv (m\<lparr>send_vcpu := n\<rparr>)"
begin

lemma loop_inv: "inv m \<Longrightarrow> buffered_loop c fuel cnt m = Some (Inr (k, m')) \<Longrightarrow> inv m'"
proof (induction fuel arbitrary: cnt m)
  case (Suc fuel)
  then show ?case
    by (auto simp: Let_def split: option.splits if_splits sum.splits prod.splits intro: request_inv page_inv)
      (metis request_inv page_inv)+
qed simp

lemma get_ioreq_inv: "inv m \<Longrightarrow> cpu_get_ioreq e m = Inr (r, m') \<Longrightarrow> inv m'"
  by (auto simp: cpu_get_ioreq_def get_ioreq_slot_def Let_def split: if_splits intro: event_inv slot_inv send_inv)

lemma finish_inv: "inv m \<Longrightarrow> inv (finish_ioreq e v m)"
  by (simp add: finish_ioreq_def Let_def event_inv slot_inv)

lemma buffered_inv: "inv m \<Longrightarrow> handle_buffered_iopage c fuel m = Some (Inr (k, m')) \<Longrightarrow> inv m'"
  by (auto simp: handle_buffered_iopage_def split: option.splits intro: loop_inv)

lemma handle_inv:
  assumes "inv m" "cpu_handle_ioreq c e fuel m = Some (Inr m')"
  shows "inv m'"
proof -
  obtain r m1 where g: "cpu_get_ioreq e m = Inr (r, m1)"
    using assms(2) by (auto simp: cpu_handle_ioreq_def split: sum.splits)
  have m1: "inv m1" using get_ioreq_inv [OF assms(1) g] .
  obtain k m2 where b: "handle_buffered_iopage c fuel m1 = Some (Inr (k, m2))"
    using assms(2) g by (auto simp: cpu_handle_ioreq_def res_bind_Inr_iff)
  have m2: "inv m2" using buffered_inv [OF m1 b] .
  show ?thesis
    using assms(2) g b m2
    by (auto simp: cpu_handle_ioreq_def res_bind_Inr_iff split: option.splits
        intro!: finish_inv slot_inv elim!: request_inv [rotated])
qed

end

section \<open>The request area\<close>

text \<open>Handlers that leave the shared request slots, the ring and their bookkeeping alone.\<close>

definition request_area where
  "request_area m = (buffered_io_page m, vcpu_ioreq m, ioreq_local_port m, send_vcpu m, bufioreq_local_port m)"

definition keeps_requests :: "('a dm_scheme, 'c) mem_code_scheme \<Rightarrow> bool" where
  "keeps_requests c \<longleftrightarrow>
     (\<forall>fn op a m v m'. call_port_read c fn op a m = Inr (v, m') \<longrightarrow> request_area m' = request_area m) \<and>
     (\<forall>fn op a x m m'. call_port_write c fn op a x m = Inr m' \<longrightarrow> request_area m' = request_area m) \<and>
     (\<forall>fn op b m v m'. call_mem_read c fn op b m = Inr (v, m') \<longrightarrow> request_area m' = request_area m) \<and>
     (\<forall>fn op b x m m'. call_mem_write c fn op b x m = Inr m' \<longrightarrow> request_area m' = request_area m)"

lemma area_invariant: "keeps_requests c \<Longrightarrow> handler_invariant c (\<lambda>m. request_area m = x)"
  unfolding handler_invariant_def keeps_requests_def
  by (auto simp: dm_emit_def request_area_def)

lemma request_keeps_area:
  "keeps_requests c \<Longrightarrow> handle_ioreq c req m = Inr (req', m') \<Longrightarrow> request_area m' = request_area m"
  using handler_invariant.request_inv [OF area_invariant [of c "request_area m"]] by blast

lemma request_keeps_count:
  "handle_ioreq c req m = Inr (req', m') \<Longrightarrow> req_count req' = req_count req \<and> req_state req' = req_state req"
  by (auto simp: handle_ioreq_def cpu_ioreq_pio_def cpu_ioreq_move_def Let_def res_bind_Inr_iff
      split: ioreq_type.splits ioreq_dir.splits if_splits)

section \<open>Draining the ring\<close>

text \<open>
  The reference reads the ring as the hypervisor fills it: \<open>ring_slots\<close> are the contents of the slots between the pointers, oldest
  first; \<open>entries\<close> groups them into requests. The size field is the logarithm of the width. An entry of size 3 takes two slots, of
  which the second has the upper half of the data, and \<open>None\<close> is a ring that ends in the middle of such an entry. The flag says whether an entry
  takes two slots.
\<close>

definition ring_slots :: "buffered_iopage \<Rightarrow> buf_ioreq list" where
  "ring_slots p = map (\<lambda>k. buf_slots p ! (unat (read_pointer p + of_nat k) mod length (buf_slots p)))
     [0..<unat (write_pointer p - read_pointer p)]"

definition entry :: "buf_ioreq \<Rightarrow> nat \<Rightarrow> ioreq" where
  "entry b data = \<lparr>req_addr = buf_addr b, req_data = of_nat data, req_count = 1, req_size = of_nat (2 ^ buf_size b),
     req_state = STATE_IOREQ_READY, data_is_ptr = False, req_dir = buf_dir b, req_df = True, req_type = buf_type b\<rparr>"

fun entries :: "buf_ioreq list \<Rightarrow> (ioreq \<times> bool) list option" where
  "entries [] = Some []"
| "entries [b] = (if buf_size b = 3 then None else Some [(entry b (unat (buf_data b)), False)])"
| "entries (b # hi # bs) =
     (if buf_size b = 3
      then map_option (Cons (entry b (unat (buf_data b) + 2 ^ 32 * unat (buf_data hi)), True)) (entries bs)
      else map_option (Cons (entry b (unat (buf_data b)), False)) (entries (hi # bs)))"

text \<open>The same walk on the page, as the code makes it.\<close>

fun ring_reqs :: "nat \<Rightarrow> buffered_iopage \<Rightarrow> (ioreq \<times> bool) list option" where
  "ring_reqs 0 p = Some []"
| "ring_reqs (Suc n) p =
     (let (req, qw) = buf_request p in
      if qw then (case n of 0 \<Rightarrow> None
                  | Suc k \<Rightarrow> map_option (Cons (req, qw)) (ring_reqs k (p\<lparr>read_pointer := read_pointer p + 2\<rparr>)))
      else map_option (Cons (req, qw)) (ring_reqs n (p\<lparr>read_pointer := read_pointer p + 1\<rparr>)))"

lemma exp_eq_8: "(2 ^ n :: u32) = 8 \<longleftrightarrow> n = 3"
proof
  assume "(2 ^ n :: u32) = 8"
  then have "(2 ^ n :: u32) = 2 ^ 3" by simp
  then have "bit (2 ^ n :: u32) 3" by (simp only:) (simp add: bit_exp_iff)
  then show "n = 3" by (simp add: bit_exp_iff)
qed simp

lemma join_halves: "ucast a OR push_bit 32 (ucast b) = (of_nat (unat a + 2 ^ 32 * unat b) :: u64)" for a b :: u32
proof -
  have d: "ucast a AND push_bit 32 (ucast b) = (0 :: u64)"
    by (rule bit_word_eqI) (auto simp: bit_simps dest: bit_imp_le_length)
  have "ucast a OR push_bit 32 (ucast b) = (ucast a + push_bit 32 (ucast b) :: u64)"
    using d by (rule disjunctive_add_eq_or [symmetric])
  then show ?thesis by (simp add: push_bit_eq_mult)
qed

lemma buf_request_entry:
  "buf_request p = (let b = buf_slot p (read_pointer p) in
     if buf_size b = 3 then (entry b (unat (buf_data b) + 2 ^ 32 * unat (buf_data (buf_slot p (read_pointer p + 1)))), True)
     else (entry b (unat (buf_data b)), False))"
proof -
  have "(push_bit n 1 :: u32) = of_nat (2 ^ n)" for n by (simp add: push_bit_eq_mult)
  moreover have "(of_nat (2 ^ n) :: u32) = 8 \<longleftrightarrow> n = 3" for n using exp_eq_8 [of n] by simp
  ultimately show ?thesis by (simp add: buf_request_def entry_def Let_def join_halves del: of_nat_add of_nat_mult of_nat_power push_bit_of_1)
qed

lemma ring_reqs_entries:
  "ring_reqs n p = entries (map (\<lambda>k. buf_slot p (read_pointer p + of_nat k)) [0..<n])"
proof (induction n p rule: ring_reqs.induct)
  case (2 n p)
  let ?b = "buf_slot p (read_pointer p)" and ?h = "buf_slot p (read_pointer p + 1)"
  have sl: "buf_slot (p\<lparr>read_pointer := x\<rparr>) = buf_slot p" for x by (rule ext) (simp add: buf_slot_def)
  have f: "map f [0..<Suc j] = f 0 # map (\<lambda>k. f (k + 1)) [0..<j]" for f :: "nat \<Rightarrow> buf_ioreq" and j
    by (simp only: upt_conv_Cons zero_less_Suc list.map map_Suc_upt [symmetric]) (simp add: comp_def)
  show ?case
  proof (cases n)
    case 0
    then show ?thesis using 2 by (simp add: buf_request_entry Let_def)
  next
    case (Suc k)
    show ?thesis
    proof (cases "buf_size ?b = 3")
      case True
      then have "buf_request p = (entry ?b (unat (buf_data ?b) + 2 ^ 32 * unat (buf_data ?h)), True)" by (simp add: buf_request_entry Let_def)
      then show ?thesis using 2(1) Suc True by (simp only: f ring_reqs.simps) (simp add: sl add.assoc)
    next
      case False
      then have "buf_request p = (entry ?b (unat (buf_data ?b)), False)" by (simp add: buf_request_entry Let_def)
      then show ?thesis using 2(2) Suc False by (simp only: f ring_reqs.simps) (simp add: sl add.assoc)
    qed
  qed
qed simp

definition bump :: "bool \<Rightarrow> 'a dm_scheme \<Rightarrow> 'a dm_scheme" where
  "bump qw m = m\<lparr>buffered_io_page :=
     map_option (\<lambda>p. p\<lparr>read_pointer := read_pointer p + (if qw then 2 else 1)\<rparr>) (buffered_io_page m)\<rparr>"

definition serve where
  "serve c = (\<lambda>(req, qw) m. res_bind (handle_ioreq c req m) (\<lambda>(r, m1). Inr (bump qw m1)))"

lemma unat_minus_one_u32: "unat (x::u32) = Suc n \<Longrightarrow> unat (x - 1) = n"
  by (metis diff_Suc_1 unat_0 unat_minus_one nat.distinct(1))

lemma unat_minus_two_u32: "unat (x::u32) = Suc (Suc n) \<Longrightarrow> unat (x - 2) = n"
proof -
  assume "unat x = Suc (Suc n)"
  then have "unat (x - 1 - 1) = n" using unat_minus_one_u32 by blast
  then show ?thesis by (simp add: diff_diff_eq)
qed

lemma loop_step:
  assumes "keeps_requests c" "buffered_io_page m = Some p" "read_pointer p \<noteq> write_pointer p"
    "buf_request p = (req, qw)"
  shows "buffered_loop c (Suc fuel) cnt m
    = (case serve c (req, qw) m of Inl e \<Rightarrow> Some (Inl e) | Inr m1 \<Rightarrow> buffered_loop c fuel 1 m1)"
    and "serve c (req, qw) m = Inr m1 \<Longrightarrow>
      buffered_io_page m1 = Some (p\<lparr>read_pointer := read_pointer p + (if qw then 2 else 1)\<rparr>)"
proof -
  have pg: "buffered_io_page m2 = Some p \<and> req_count r = 1" if "handle_ioreq c req m = Inr (r, m2)" for r m2
    using request_keeps_area [OF assms(1) that] request_keeps_count [OF that] assms(2,4)
    by (auto simp: request_area_def buf_request_def Let_def)
  show "buffered_loop c (Suc fuel) cnt m
    = (case serve c (req, qw) m of Inl e \<Rightarrow> Some (Inl e) | Inr m1 \<Rightarrow> buffered_loop c fuel 1 m1)"
  proof (cases "handle_ioreq c req m")
    case (Inr r)
    then show ?thesis using pg assms(2,3,4) by (cases r) (auto simp: serve_def bump_def)
  qed (use assms(2,3,4) in \<open>simp add: serve_def\<close>)
  show "buffered_io_page m1 = Some (p\<lparr>read_pointer := read_pointer p + (if qw then 2 else 1)\<rparr>)"
    if "serve c (req, qw) m = Inr m1"
    using that pg by (auto simp: serve_def bump_def res_bind_Inr_iff)
qed

lemma loop_drains:
  assumes "keeps_requests c"
  shows "ring_reqs n p = Some rs \<Longrightarrow> unat (write_pointer p - read_pointer p) = n \<Longrightarrow>
    buffered_io_page m = Some p \<Longrightarrow> length rs < fuel \<Longrightarrow>
    buffered_loop c fuel cnt m
      = Some (res_bind (res_fold (serve c) rs m) (\<lambda>m'. Inr (if rs = [] then cnt else 1, m')))
    \<and> (\<forall>m'. res_fold (serve c) rs m = Inr m' \<longrightarrow> buffered_io_page m' = Some (p\<lparr>read_pointer := write_pointer p\<rparr>))"
proof (induction n p arbitrary: rs m fuel cnt rule: ring_reqs.induct)
  case (1 p)
  then have "read_pointer p = write_pointer p" by (simp add: unat_eq_0)
  moreover from this have "p\<lparr>read_pointer := write_pointer p\<rparr> = p" by (cases p) simp
  moreover obtain f where "fuel = Suc f" using 1(4) by (cases fuel) auto
  ultimately show ?case using 1 by simp
next
  case (2 n p)
  obtain req qw where b: "buf_request p = (req, qw)" by fastforce
  let ?p1 = "p\<lparr>read_pointer := read_pointer p + (if qw then 2 else 1)\<rparr>"
  let ?n1 = "if qw then n - 1 else n"
  obtain rs1 where rs: "rs = (req, qw) # rs1" and r1: "ring_reqs ?n1 ?p1 = Some rs1" and n: "qw \<Longrightarrow> 0 < n"
    using 2(3) b by (auto split: if_splits nat.splits)
  obtain f where f: "fuel = Suc f" "length rs1 < f" using 2(6) rs by (cases fuel) auto
  have ne: "read_pointer p \<noteq> write_pointer p" using 2(4) by auto
  have u: "unat (write_pointer ?p1 - read_pointer ?p1) = ?n1"
    using 2(4) n unat_minus_one_u32 [of "write_pointer p - read_pointer p" n]
      unat_minus_two_u32 [of "write_pointer p - read_pointer p" "n - 1"] by (simp add: diff_diff_eq)
  note step = loop_step [OF assms 2(5) ne b]
  show ?case
  proof (cases "serve c (req, qw) m")
    case (Inl e)
    then show ?thesis using step(1) [of f cnt] rs f(1) by simp
  next
    case (Inr m1)
    have "buffered_loop c f 1 m1 = Some (res_bind (res_fold (serve c) rs1 m1) (\<lambda>m'. Inr (if rs1 = [] then 1 else 1, m')))
      \<and> (\<forall>m'. res_fold (serve c) rs1 m1 = Inr m' \<longrightarrow> buffered_io_page m' = Some (?p1\<lparr>read_pointer := write_pointer ?p1\<rparr>))"
    proof (cases qw)
      case True
      then obtain k where k: "n = Suc k" using n by (cases n) auto
      show ?thesis using 2(1) [OF b [symmetric] refl True k, of rs1 m1 f 1] True k r1 u step(2) [OF Inr] f(2) by simp
    next
      case False
      show ?thesis using 2(2) [OF b [symmetric] refl False, of rs1 m1 f 1] False r1 u step(2) [OF Inr] f(2) by simp
    qed
    then show ?thesis using step(1) [of f cnt] rs f(1) Inr by simp
  qed
qed

section \<open>Memory requests on RAM\<close>

lemma small_size:
  assumes "req_size req \<le> 8"
  shows "sint (req_size req) = uint (req_size req) \<and> uint (req_size req) \<le> 8 \<and> unat (req_size req) \<le> 8"
proof -
  have u: "unat (req_size req) \<le> 8" using assms by (simp add: word_le_nat_alt)
  then have "uint (req_size req) \<le> 8" using uint_nat [of "req_size req"] by linarith
  then show ?thesis using u sint_small_u32 [of "req_size req"] by simp
qed

lemma copy_item:
  assumes "req_size req \<le> 8" "backed m (item_addr src req i) (unat (req_size req))"
  shows "res_bind (read_phys_req_item c src req i v m) (\<lambda>(tmp, m). write_phys_req_item c dst req i tmp m)
    = res_bind (phys_load c (item_addr src req i) (unat (req_size req)) m)
        (\<lambda>(bs, m). phys_store c (item_addr dst req i) bs m)"
proof -
  let ?s = "unat (req_size req)"
  let ?bs = "ram_read (item_addr src req i) ?s (ram m)"
  let ?X = "?bs @ drop ?s (le_store 8 v)"
  note z = small_size [OF assms(1)]
  have rd: "read_phys_req_item c src req i v m = Inr (le_load ?X, m)"
    using z read_loop_ram [OF assms(2), of c]
    by (simp add: read_phys_req_item_def rw_phys_req_item_def cpu_physical_memory_rw_def)
  have "le_store 8 (le_load ?X) = ?X" using le_store_load [of ?X] z by simp
  then have tk: "take ?s (le_store 8 (le_load ?X)) = ?bs" by simp
  have "write_phys_req_item c dst req i (le_load ?X) m = phys_store c (item_addr dst req i) ?bs m"
    using z tk
    by (cases "mem_write_loop c (item_addr dst req i) ?bs m")
      (simp_all add: write_phys_req_item_def rw_phys_req_item_def cpu_physical_memory_rw_def phys_store_def)
  then show ?thesis unfolding rd phys.load_ok [OF assms(2)] res_bind.simps prod.case .
qed

lemma item_addr_up:
  "\<not> req_df req \<Longrightarrow> i < 2 ^ 32 \<Longrightarrow> item_addr a req (of_nat i) = a + of_nat (unat (req_size req) * i)"
  by (simp add: item_addr_def unsigned_of_nat take_bit_nat_eq_self)

definition disjoint_ranges :: "u64 \<Rightarrow> u64 \<Rightarrow> nat \<Rightarrow> bool" where
  "disjoint_ranges a b n \<longleftrightarrow> (\<forall>k<n. \<not> unat (a + of_nat k - b) < n)"

lemma copy_items:
  assumes "req_size req \<le> 8" "\<not> req_df req" "n = unat (req_size req) * k" "k \<le> 2 ^ 32"
    and "backed m src N" "backed m dst N" "disjoint_ranges src dst N" "n \<le> N"
  shows "\<exists>m'. res_fold (\<lambda>i m. res_bind (read_phys_req_item c src req i 0 m)
        (\<lambda>(tmp, m). write_phys_req_item c dst req i tmp m)) (map of_nat [0..<k]) m = Inr m'
    \<and> ram m' = ram_write dst (ram_read src n (ram m)) (ram m) \<and> (\<forall>a j. backed m' a j = backed m a j)"
  using assms(3,4,8)
proof (induction k arbitrary: n)
  case 0
  then show ?case by (simp add: ram_write_def ram_read_def)
next
  case (Suc k)
  let ?s = "unat (req_size req)" and ?r = "ram m"
  let ?n = "?s * k"
  have n: "n = ?n + ?s" "?n \<le> N" using Suc.prems by auto
  obtain m1 where m1: "res_fold (\<lambda>i m. res_bind (read_phys_req_item c src req i 0 m)
        (\<lambda>(tmp, m). write_phys_req_item c dst req i tmp m)) (map of_nat [0..<k]) m = Inr m1"
    "ram m1 = ram_write dst (ram_read src ?n ?r) ?r" "\<And>a j. backed m1 a j = backed m a j"
    using Suc.IH [of ?n] Suc.prems n(2) by auto
  have ia: "item_addr a req (of_nat k) = a + of_nat ?n" for a
    using item_addr_up [OF assms(2), of k a] Suc.prems(2) by simp
  have part: "backed m1 (a + of_nat ?n) ?s" if "backed m a N" for a
  proof -
    have "backed m (a + of_nat ?n) (N - ?n)" using backed_rest [OF that n(2)] .
    then show ?thesis using m1(3) n Suc.prems(3) unfolding backed_def by auto
  qed
  obtain m2 where m2: "res_bind (phys_load c (src + of_nat ?n) ?s m1) (\<lambda>(bs, m). phys_store c (dst + of_nat ?n) bs m) = Inr m2"
    "ram m2 = ram_write (dst + of_nat ?n) (ram_read (src + of_nat ?n) ?s (ram m1)) (ram m1)" "\<And>a j. backed m2 a j = backed m1 a j"
    using phys.copy_cells [OF part [OF assms(5)] part [OF assms(6)], of c] by blast
  have rd: "ram_read (src + of_nat ?n) ?s (ram m1) = ram_read (src + of_nat ?n) ?s ?r"
    unfolding m1(2)
  proof (rule ram_read_write_other)
    fix j assume "j < ?s"
    then have "?n + j < N" using n Suc.prems(3) by simp
    with assms(7) have "\<not> unat (src + of_nat (?n + j) - dst) < N" unfolding disjoint_ranges_def by blast
    then show "\<not> unat (src + of_nat ?n + of_nat j - dst) < length (ram_read src ?n ?r)"
      using n(2) by (simp add: add.assoc)
  qed
  have "ram m2 = ram_write dst (ram_read src n ?r) ?r"
    using ram_write_append [of "ram_read src ?n ?r" "ram_read (src + of_nat ?n) ?s ?r" dst ?r] assms(5) Suc.prems(3) n
    unfolding m2(2) unfolding rd unfolding m1(2) by (simp add: ram_read_append backed_def)
  then show ?case
    using m1 m2 copy_item [OF assms(1), of m1 src "of_nat k" c 0 dst] part [OF assms(5)] ia
    by (simp add: res_fold_append)
qed

section \<open>Properties\<close>

text \<open>C5: The buffered ring is drained completely and in order: when every 8-byte entry between the pointers
  has its second slot, the loop ends after serving each entry exactly once, in the order of the slots from the read to the write pointer, with
  the address, width, type and direction of its slot and the two halves of an 8-byte entry put together, and leaves the read pointer at the write
  pointer; it fails only if serving an entry fails. One round per entry and one more is enough fuel.\<close>

theorem buffered_ring_drained:
  assumes "keeps_requests c" "buffered_io_page m = Some p" "entries (ring_slots p) = Some rs" "length rs < fuel"
  shows "handle_buffered_iopage c fuel m
      = Some (res_bind (res_fold (serve c) rs m) (\<lambda>m'. Inr (if rs = [] then 0 else 1, m')))
    \<and> (\<forall>m'. res_fold (serve c) rs m = Inr m' \<longrightarrow> buffered_io_page m' = Some (p\<lparr>read_pointer := write_pointer p\<rparr>))"
proof -
  have "ring_reqs (unat (write_pointer p - read_pointer p)) p = Some rs"
    using assms(3) by (simp only: ring_reqs_entries ring_slots_def buf_slot_def)
  from loop_drains [OF assms(1) this refl assms(2,4), of 0] assms(2) show ?thesis by (simp add: handle_buffered_iopage_def)
qed

definition idle_dm :: dm where
  "idle_dm = \<lparr>ioport_table = (\<lambda>_. None), mmio = [], io_mem_read = (\<lambda>_ _. None), io_mem_write = (\<lambda>_ _. None),
     io_mem_opaque = (\<lambda>_. 0), io_mem_used = (\<lambda>_. False), ram = (\<lambda>_. 0), ram_page = (\<lambda>_. True),
     xen_logdirty_enable = True, modified = [], vcpu_ioreq = [], ioreq_local_port = [],
     bufioreq_local_port = EVTCHN_PORT_INVALID, buffered_io_page = None, send_vcpu = 0, time_offset = 0,
     a20_mask = 0xffffffff, dm_events = []\<rparr>"

definition nop_code :: "dm mem_code" where
  "nop_code = \<lparr>call_port_read = (\<lambda>fn op a m. Inr (0, m)), call_port_write = (\<lambda>fn op a v m. Inr m),
     call_mem_read = (\<lambda>fn op a m. Inr (0, m)), call_mem_write = (\<lambda>fn op a v m. Inr m)\<rparr>"

lemma nop_keeps: "keeps_requests nop_code"
  by (simp add: keeps_requests_def nop_code_def)

text \<open>A ring of three slots holding an 8-byte and a 1-byte write.\<close>

definition demo_ring :: buffered_iopage where
  "demo_ring = \<lparr>read_pointer = 0, write_pointer = 3, buf_slots =
     [\<lparr>buf_type = IOREQ_TYPE_COPY, buf_dir = IOREQ_WRITE, buf_size = 3, buf_addr = 0xa0000, buf_data = 1\<rparr>,
      \<lparr>buf_type = IOREQ_TYPE_COPY, buf_dir = IOREQ_WRITE, buf_size = 3, buf_addr = 0xa0000, buf_data = 2\<rparr>,
      \<lparr>buf_type = IOREQ_TYPE_COPY, buf_dir = IOREQ_WRITE, buf_size = 0, buf_addr = 0xa0008, buf_data = 7\<rparr>]\<rparr>"

theorem buffered_ring_drained_witness:
  "handle_buffered_iopage nop_code 3 (idle_dm\<lparr>buffered_io_page := Some demo_ring\<rparr>)
     = Some (res_bind (res_fold (serve nop_code)
         [(entry (buf_slots demo_ring ! 0) 0x200000001, True), (entry (buf_slots demo_ring ! 2) 7, False)]
         (idle_dm\<lparr>buffered_io_page := Some demo_ring\<rparr>))
         (\<lambda>m'. Inr (1, m')))"
proof -
  have "[0..<3] = [0, 1, 2 :: nat]" by (simp add: upt_rec)
  then have "entries (ring_slots demo_ring)
      = Some [(entry (buf_slots demo_ring ! 0) 0x200000001, True), (entry (buf_slots demo_ring ! 2) 7, False)]"
    by (simp add: ring_slots_def demo_ring_def)
  then show ?thesis
    using buffered_ring_drained [OF nop_keeps, of "idle_dm\<lparr>buffered_io_page := Some demo_ring\<rparr>" demo_ring _ 3] by fastforce
qed

lemma pio_write_dispatch:
  assumes "req_type req = IOREQ_TYPE_PIO" "req_dir req = IOREQ_WRITE" "\<not> data_is_ptr req"
  shows "handle_ioreq c req m = (case width_slot (req_size req) of
      None \<Rightarrow> Inl (Exit (-1))
    | Some k \<Rightarrow> res_bind (ioport_write c k (ucast (req_addr req))
          (ucast (take_bit (8 * unat (req_size req)) (req_data req))) m)
        (\<lambda>m'. Inr (req\<lparr>req_data := take_bit (8 * unat (req_size req)) (req_data req)\<rparr>, m')))"
proof (cases "width_slot (req_size req)")
  case None
  then show ?thesis using assms by (simp add: handle_ioreq_def cpu_ioreq_pio_def do_outp_slot)
next
  case (Some k)
  then have "req_size req < 8" by (auto simp: width_slot_def split: if_splits)
  then have "mask_data req = req\<lparr>req_data := take_bit (8 * unat (req_size req)) (req_data req)\<rparr>"
    using mask_is_take_bit [OF assms(3,2)] assms by (simp add: mask_data_def)
  then show ?thesis using Some assms by (simp add: handle_ioreq_def cpu_ioreq_pio_def do_outp_slot)
qed

lemma pio_read_dispatch:
  assumes "req_type req = IOREQ_TYPE_PIO" "req_dir req = IOREQ_READ" "\<not> data_is_ptr req"
  shows "handle_ioreq c req m = (case width_slot (req_size req) of
      None \<Rightarrow> Inl (Exit (-1))
    | Some k \<Rightarrow> res_bind (ioport_read c k (ucast (req_addr req)) m)
        (\<lambda>(v, m'). Inr (req\<lparr>req_data := scast v\<rparr>, m')))"
proof -
  have "mask_data req = req" using assms(2) by (simp add: mask_data_def)
  then show ?thesis using assms
    by (cases "width_slot (req_size req)"; cases "ioport_read c (the (width_slot (req_size req))) (ucast (req_addr req)) m")
      (auto simp: handle_ioreq_def cpu_ioreq_pio_def do_inp_slot)
qed

text \<open>A port write request reaches the port dispatcher with the access width of the request and with
  the data cut to that width; a width other than 1, 2 and 4 ends the process. The request is
  returned with its data cut but otherwise unchanged.\<close>

theorem pio_write_request:
  assumes "req_type req = IOREQ_TYPE_PIO" "req_dir req = IOREQ_WRITE" "\<not> data_is_ptr req"
  shows "handle_ioreq c req m = (case width_slot (req_size req) of
      None \<Rightarrow> Inl (Exit (-1))
    | Some k \<Rightarrow> res_bind (ioport_write c k (ucast (req_addr req))
          (ucast (take_bit (8 * unat (req_size req)) (req_data req))) m)
        (\<lambda>m'. Inr (req\<lparr>req_data := take_bit (8 * unat (req_size req)) (req_data req)\<rparr>, m')))"
  by (rule pio_write_dispatch [OF assms])

definition pio_demo :: ioreq where
  "pio_demo = \<lparr>req_addr = 0x3f8, req_data = 0x1234, req_count = 1, req_size = 1, req_state = STATE_IOREQ_INPROCESS,
     data_is_ptr = False, req_dir = IOREQ_WRITE, req_df = False, req_type = IOREQ_TYPE_PIO\<rparr>"

theorem pio_write_request_witness:
  "handle_ioreq nop_code pio_demo idle_dm
     = res_bind (ioport_write nop_code 0 0x3f8 0x34 idle_dm) (\<lambda>m'. Inr (pio_demo\<lparr>req_data := 0x34\<rparr>, m'))"
  using pio_write_request [of pio_demo nop_code idle_dm] by (simp add: pio_demo_def width_slot_def)

text \<open>A memory request whose item size exceeds 8 bytes overruns the 8-byte object it is copied
  through: the size of the request is never checked against it.\<close>

theorem copy_request_overrun:
  assumes "req_type req = IOREQ_TYPE_COPY" "8 < req_size req" "req_size req < 0x80000000" "req_count req \<noteq> 0"
  shows "handle_ioreq c req m = Inl Bad_access"
proof -
  have "8 < sint (req_size req)"
  proof -
    have "uint (req_size req) < 2 ^ 31" using assms(3) by (simp add: word_less_def)
    then have "signed_take_bit 31 (uint (req_size req)) = uint (req_size req)"
      using order_trans [OF _ uint_ge_0, of "- (2 ^ 31)" "req_size req"] by (intro signed_take_bit_int_eq_self) simp_all
    then show ?thesis using assms(2) by (simp add: sint_uint word_less_def)
  qed
  then have bad: "rw_phys_req_item c a req i v w m = Inl Bad_access" for a i v w m
    by (simp add: rw_phys_req_item_def cpu_physical_memory_rw_def)
  have "\<not> req_size req < 8" using assms(2) by simp
  then have mk: "mask_data req = req" by (simp add: mask_data_def)
  have "0 < unat (req_count req)" using assms(4) by (simp add: unat_gt_0)
  then obtain i xs where "items req = i # xs" unfolding items_def by (cases "[0..<unat (req_count req)]") auto
  then show ?thesis using assms(1) mk bad
    by (cases "req_dir req") (auto simp: handle_ioreq_def cpu_ioreq_move_def read_phys_req_item_def write_phys_req_item_def)
qed

theorem copy_request_overrun_witness:
  "handle_ioreq nop_code (pio_demo\<lparr>req_type := IOREQ_TYPE_COPY, req_size := 16\<rparr>) idle_dm = Inl Bad_access"
  using copy_request_overrun [of "pio_demo\<lparr>req_type := IOREQ_TYPE_COPY, req_size := 16\<rparr>" nop_code idle_dm]
  by (simp add: pio_demo_def)

text \<open>The machine once the request of a vcpu has been taken.\<close>

definition taken :: "nat \<Rightarrow> u32 \<Rightarrow> 'a dm_scheme \<Rightarrow> 'a dm_scheme" where
  "taken v port m = (dm_emit (Evtchn_unmask port) m)\<lparr>send_vcpu := v,
     vcpu_ioreq := (vcpu_ioreq m)[v := (vcpu_ioreq m ! v)\<lparr>req_state := STATE_IOREQ_INPROCESS\<rparr>]\<rparr>"

lemma first_index_distinct:
  "distinct xs \<Longrightarrow> v < length xs \<Longrightarrow> first_index (\<lambda>x. x = xs ! v) xs = v"
proof (induction xs arbitrary: v)
  case (Cons x xs)
  then show ?case by (cases v) auto
qed simp

lemma get_ready:
  assumes "distinct (ioreq_local_port m)" "v < length (ioreq_local_port m)" "ioreq_local_port m ! v = env_pending e"
    and "env_pending e \<noteq> 0xFFFFFFFF" "env_pending e \<noteq> bufioreq_local_port m"
    and "req_state (vcpu_ioreq m ! v) = STATE_IOREQ_READY"
  shows "cpu_get_ioreq e m = Inr (Some v, taken v (env_pending e) m)"
  using assms first_index_distinct [OF assms(1,2)]
  by (simp add: cpu_get_ioreq_def get_ioreq_slot_def taken_def dm_emit_def)

lemma finish_effect:
  "req_state (vcpu_ioreq m ! v) = STATE_IOREQ_INPROCESS \<Longrightarrow>
     vcpu_ioreq (finish_ioreq e v m) = (vcpu_ioreq m)[v := (vcpu_ioreq m ! v)\<lparr>req_state := STATE_IORESP_READY\<rparr>]
     \<and> last (dm_events (finish_ioreq e v m)) = Evtchn_notify (ioreq_local_port m ! send_vcpu m)"
  by (simp add: finish_ioreq_def Let_def dm_emit_def)

lemma serve_ready:
  assumes "distinct (ioreq_local_port m)" "v < length (ioreq_local_port m)"
    and "length (vcpu_ioreq m) = length (ioreq_local_port m)" "ioreq_local_port m ! v = env_pending e"
    and "env_pending e \<noteq> 0xFFFFFFFF" "env_pending e \<noteq> bufioreq_local_port m"
    and "req_state (vcpu_ioreq m ! v) = STATE_IOREQ_READY" "0 < fuel"
    and "\<forall>p. buffered_io_page m = Some p \<longrightarrow> read_pointer p = write_pointer p"
  shows "cpu_handle_ioreq c e fuel m = Some (res_bind
    (handle_ioreq c ((vcpu_ioreq m ! v)\<lparr>req_state := STATE_IOREQ_INPROCESS\<rparr>) (taken v (env_pending e) m))
    (\<lambda>(req, m3). Inr (finish_ioreq e v (m3\<lparr>vcpu_ioreq := (vcpu_ioreq m3)[v := req]\<rparr>))))"
proof -
  let ?m1 = "taken v (env_pending e) m" and ?slot = "(vcpu_ioreq m ! v)\<lparr>req_state := STATE_IOREQ_INPROCESS\<rparr>"
  have g: "cpu_get_ioreq e m = Inr (Some v, ?m1)" by (rule get_ready) (use assms in simp_all)
  have f: "buffered_io_page ?m1 = buffered_io_page m" "vcpu_ioreq ?m1 = (vcpu_ioreq m)[v := ?slot]"
    by (simp_all add: taken_def dm_emit_def)
  obtain f' where "fuel = Suc f'" using assms(8) by (cases fuel) auto
  then have b: "handle_buffered_iopage c fuel ?m1 = Some (Inr (0, ?m1))"
    using assms(9) f(1) by (auto simp: handle_buffered_iopage_def split: option.splits)
  have "vcpu_ioreq ?m1 ! v = ?slot" using f(2) assms(2,3) by simp
  then show ?thesis using g b by (simp add: cpu_handle_ioreq_def)
qed

lemma serve_effect:
  assumes "keeps_requests c" "v < length (ioreq_local_port m)" "length (vcpu_ioreq m) = length (ioreq_local_port m)"
    and "handle_ioreq c ((vcpu_ioreq m ! v)\<lparr>req_state := STATE_IOREQ_INPROCESS\<rparr>) (taken v port m) = Inr (req, m3)"
    and "ioreq_local_port m ! v = port"
  defines "m4 \<equiv> m3\<lparr>vcpu_ioreq := (vcpu_ioreq m3)[v := req]\<rparr>"
  shows "vcpu_ioreq (finish_ioreq e v m4) = (vcpu_ioreq m)[v := req\<lparr>req_state := STATE_IORESP_READY\<rparr>]
    \<and> last (dm_events (finish_ioreq e v m4)) = Evtchn_notify port"
proof -
  note k = request_keeps_area [OF assms(1,4)] request_keeps_count [OF assms(4)]
  have f: "vcpu_ioreq (taken v port m) = (vcpu_ioreq m)[v := (vcpu_ioreq m ! v)\<lparr>req_state := STATE_IOREQ_INPROCESS\<rparr>]"
    "send_vcpu (taken v port m) = v" "ioreq_local_port (taken v port m) = ioreq_local_port m"
    by (simp_all add: taken_def dm_emit_def)
  have "vcpu_ioreq m4 ! v = req" "vcpu_ioreq m4 = (vcpu_ioreq m)[v := req]"
    "ioreq_local_port m4 ! send_vcpu m4 = port"
    using k(1) f assms(2,3,5) by (auto simp: request_area_def m4_def)
  then show ?thesis using k(2) finish_effect [of m4 v e] by simp
qed

text \<open>C4: A request that is ready is served once and answered: when the event channel of a vcpu signals a
  ready request and the ring is empty, the request is handled in the state in-process, and if its
  handling succeeds its slot holds the handled request in the state response-ready, the slots of the
  other vcpus are untouched, and the last action is the notification of that vcpu's channel. If its
  handling fails, the whole step fails in the same way.\<close>

theorem ioreq_served:
  assumes "keeps_requests c" "distinct (ioreq_local_port m)" "v < length (ioreq_local_port m)"
    and "length (vcpu_ioreq m) = length (ioreq_local_port m)" "ioreq_local_port m ! v = env_pending e"
    and "env_pending e \<noteq> 0xFFFFFFFF" "env_pending e \<noteq> bufioreq_local_port m"
    and "req_state (vcpu_ioreq m ! v) = STATE_IOREQ_READY" "0 < fuel"
    and "\<forall>p. buffered_io_page m = Some p \<longrightarrow> read_pointer p = write_pointer p"
  shows "case handle_ioreq c ((vcpu_ioreq m ! v)\<lparr>req_state := STATE_IOREQ_INPROCESS\<rparr>) (taken v (env_pending e) m) of
      Inl err \<Rightarrow> cpu_handle_ioreq c e fuel m = Some (Inl err)
    | Inr (req, m3) \<Rightarrow> \<exists>m'. cpu_handle_ioreq c e fuel m = Some (Inr m')
        \<and> vcpu_ioreq m' = (vcpu_ioreq m)[v := req\<lparr>req_state := STATE_IORESP_READY\<rparr>]
        \<and> last (dm_events m') = Evtchn_notify (env_pending e)"
proof (cases "handle_ioreq c ((vcpu_ioreq m ! v)\<lparr>req_state := STATE_IOREQ_INPROCESS\<rparr>) (taken v (env_pending e) m)")
  case (Inl err)
  then show ?thesis using serve_ready [OF assms(2-10), of c] by simp
next
  case (Inr r)
  obtain req m3 where r: "r = (req, m3)" by fastforce
  show ?thesis
    using serve_ready [OF assms(2-10), of c] serve_effect [OF assms(1,3,4) Inr [unfolded r] assms(5), of e] Inr r by simp
qed

definition served_demo :: dm where
  "served_demo = idle_dm\<lparr>vcpu_ioreq := [pio_demo\<lparr>req_state := STATE_IOREQ_READY, req_type := IOREQ_TYPE_TIMEOFFSET\<rparr>],
     ioreq_local_port := [5]\<rparr>"

theorem ioreq_served_witness:
  "\<exists>m'. cpu_handle_ioreq nop_code \<lparr>env_pending = 5, env_rt_clock = 0, env_vm_running = True, env_shutdown = False,
       env_reset = False\<rparr> 1 served_demo = Some (Inr m') \<and> last (dm_events m') = Evtchn_notify 5"
proof -
  let ?e = "\<lparr>env_pending = 5, env_rt_clock = 0, env_vm_running = True, env_shutdown = False, env_reset = False\<rparr>"
  have "\<exists>r. handle_ioreq nop_code ((vcpu_ioreq served_demo ! 0)\<lparr>req_state := STATE_IOREQ_INPROCESS\<rparr>)
      (taken 0 5 served_demo) = Inr r"
    by (simp add: served_demo_def handle_ioreq_def pio_demo_def Let_def)
  then show ?thesis
    using ioreq_served [of nop_code served_demo 0 ?e 1, OF nop_keeps]
    by (auto simp: served_demo_def idle_dm_def pio_demo_def split: prod.splits)
qed

text \<open>C6: A forward string move between disjoint ranges of guest RAM is one flat copy: whatever the item
  size (up to 8 bytes) and count, after the request the destination range holds the bytes the source
  range held, and no other byte of RAM has changed.\<close>

theorem copy_request_moves_memory:
  assumes "req_type req = IOREQ_TYPE_COPY" "data_is_ptr req" "\<not> req_df req" "req_size req \<le> 8"
    and "N = unat (req_size req) * unat (req_count req)"
    and "backed m (req_addr req) N" "backed m (req_data req) N"
    and "disjoint_ranges (req_addr req) (req_data req) N" "disjoint_ranges (req_data req) (req_addr req) N"
  shows "\<exists>m'. handle_ioreq c req m = Inr (req, m') \<and> ram m' =
    (case req_dir req of IOREQ_READ \<Rightarrow> ram_write (req_data req) (ram_read (req_addr req) N (ram m)) (ram m)
                       | IOREQ_WRITE \<Rightarrow> ram_write (req_addr req) (ram_read (req_data req) N (ram m)) (ram m))"
proof -
  have mk: "mask_data req = req" using assms(2) by (simp add: mask_data_def)
  have "unat (req_count req) < 2 ^ LENGTH(32)" by (rule unsigned_less)
  then have cnt: "unat (req_count req) \<le> 2 ^ 32" by simp
  note cp = copy_items [OF assms(4,3,5) cnt _ _ _ order_refl, of m _ _ c]
  show ?thesis
  proof (cases "req_dir req")
    case IOREQ_WRITE
    then show ?thesis using cp [OF assms(7,6,9)] assms(1,2) mk
      by (auto simp: handle_ioreq_def cpu_ioreq_move_def items_def)
  next
    case IOREQ_READ
    then show ?thesis using cp [OF assms(6,7,8)] assms(1,2) mk
      by (auto simp: handle_ioreq_def cpu_ioreq_move_def items_def)
  qed
qed

definition move_demo :: ioreq where
  "move_demo = \<lparr>req_addr = 0x1000, req_data = 0x2000, req_count = 2, req_size = 4, req_state = STATE_IOREQ_INPROCESS,
     data_is_ptr = True, req_dir = IOREQ_READ, req_df = False, req_type = IOREQ_TYPE_COPY\<rparr>"

theorem copy_request_moves_memory_witness:
  "\<exists>m'. handle_ioreq nop_code move_demo idle_dm = Inr (move_demo, m')
     \<and> ram m' = ram_write 0x2000 (ram_read 0x1000 8 (ram idle_dm)) (ram idle_dm)"
proof -
  have b: "backed idle_dm a 8" for a by (simp add: backed_def idle_dm_def iomem_index_def)
  have "\<not> unat (0x1000 + of_nat k - 0x2000 :: u64) < 8 \<and> \<not> unat (0x2000 + of_nat k - 0x1000 :: u64) < 8"
    if k8: "k < 8" for k :: nat
  proof -
    consider "k = 0" | "k = 1" | "k = 2" | "k = 3" | "k = 4" | "k = 5" | "k = 6" | "k = 7"
      using k8 by linarith
    then show ?thesis by cases simp_all
  qed
  then have d: "disjoint_ranges 0x1000 0x2000 8" "disjoint_ranges 0x2000 0x1000 8"
    unfolding disjoint_ranges_def by blast+
  have f: "req_type move_demo = IOREQ_TYPE_COPY" "data_is_ptr move_demo" "\<not> req_df move_demo"
    "req_size move_demo \<le> 8" "8 = unat (req_size move_demo) * unat (req_count move_demo)"
    "req_addr move_demo = 0x1000" "req_data move_demo = 0x2000" "req_dir move_demo = IOREQ_READ"
    by (simp_all add: move_demo_def)
  show ?thesis
    using copy_request_moves_memory [OF f(1-5), of idle_dm nop_code, unfolded f(6,7,8), OF b b d]
    unfolding ioreq_dir.case .
qed

end
