(* ===== verification/Savevm.thy ===== *)
theory Savevm
  imports Qemu_File
begin

text \<open>
  The snapshot registry and the snapshot stream of \<^verbatim>\<open>savevm.c\<close>: registration of device handlers
  with unique instance numbers, the section format, saving, and loading of the current format
  and of format 2. The machine state the handlers work on is a type parameter; a handler is a
  function (\<open>None\<close> for a null pointer). Identifier strings are byte lists without their
  terminating zero. \<^verbatim>\<open>vm_stop\<close>, \<^verbatim>\<open>vm_start\<close> and \<^verbatim>\<open>bdrv_flush_all\<close> are not part of the model.
  Loops that depend on handlers or on the file have fuel: \<open>None\<close> means not ended yet.
\<close>

section \<open>Registry\<close>

record 's save_state_entry =
  idstr :: "u8 list"
  instance_id :: int
  version_id :: int
  section_id :: int
  save_live_state :: "('s \<Rightarrow> u8 \<Rightarrow> qemu_file \<Rightarrow> ((int \<times> 's) \<times> qemu_file) res) option"
  save_state :: "('s \<Rightarrow> qemu_file \<Rightarrow> qemu_file res) option"
  load_state :: "('s \<Rightarrow> int \<Rightarrow> qemu_file \<Rightarrow> ((int \<times> 's) \<times> qemu_file) res) option"

record 's savevm =
  first_se :: "'s save_state_entry list"
  global_section_id :: int

text \<open>The instance number after the walk along the list.\<close>

definition fresh_instance :: "u8 list \<Rightarrow> int \<Rightarrow> 's save_state_entry list \<Rightarrow> int \<Rightarrow> int" where
  "fresh_instance ids iid es start =
     fold (\<lambda>e n. if iid = -1 \<and> ids = idstr e \<and> n \<le> instance_id e then instance_id e + 1 else n) es start"

definition register_savevm_live where
  "register_savevm_live ids iid vid live sv ld R =
     (let name = take 255 ids;
          se = \<lparr>idstr = name, instance_id = fresh_instance name iid (first_se R) (if iid = -1 then 0 else iid),
                version_id = vid, section_id = global_section_id R, save_live_state = live,
                save_state = sv, load_state = ld\<rparr>
      in R\<lparr>first_se := first_se R @ [se], global_section_id := global_section_id R + 1\<rparr>)"

definition register_savevm where
  "register_savevm ids iid vid sv ld R = register_savevm_live ids iid vid None (Some sv) (Some ld) R"

definition find_se :: "u8 list \<Rightarrow> int \<Rightarrow> 's save_state_entry list \<Rightarrow> 's save_state_entry option" where
  "find_se ids iid es = find (\<lambda>e. idstr e = ids \<and> iid = instance_id e) es"

section \<open>Saving\<close>

abbreviation (input) "QEMU_VM_FILE_MAGIC \<equiv> (0x5145564d::u32)"
abbreviation (input) "QEMU_VM_FILE_VERSION \<equiv> (3::u32)"
abbreviation (input) "QEMU_VM_EOF \<equiv> (0::u8)"
abbreviation (input) "QEMU_VM_SECTION_START \<equiv> (1::u8)"
abbreviation (input) "QEMU_VM_SECTION_PART \<equiv> (2::u8)"
abbreviation (input) "QEMU_VM_SECTION_END \<equiv> (3::u8)"
abbreviation (input) "QEMU_VM_SECTION_FULL \<equiv> (4::u8)"
abbreviation (input) "EIO \<equiv> (5::int)"
abbreviation (input) "EINVAL \<equiv> (22::int)"
abbreviation (input) "ENOTSUP \<equiv> (95::int)"

definition put_short_header where
  "put_short_header t e f =
     res_bind (qemu_put_byte f t) (\<lambda>f. qemu_put_be32 (word_of_int (section_id e)) f)"

definition put_full_header where
  "put_full_header t e f =
     res_bind (put_short_header t e f) (\<lambda>f.
     res_bind (qemu_put_byte f (of_nat (length (idstr e)))) (\<lambda>f.
     res_bind (qemu_put_buffer f (idstr e)) (\<lambda>f.
     res_bind (qemu_put_be32 (word_of_int (instance_id e)) f) (\<lambda>f.
     qemu_put_be32 (word_of_int (version_id e)) f))))"

fun begin_loop where
  "begin_loop [] s f = Inr (s, f)"
| "begin_loop (e # es) s f =
     (case save_live_state e of
        None \<Rightarrow> begin_loop es s f
      | Some live \<Rightarrow>
          res_bind (put_full_header QEMU_VM_SECTION_START e f) (\<lambda>f.
          res_bind (live s QEMU_VM_SECTION_START f) (\<lambda>((_, s), f). begin_loop es s f)))"

definition qemu_savevm_state_begin where
  "qemu_savevm_state_begin R s f =
     res_bind (qemu_put_be32 QEMU_VM_FILE_MAGIC f) (\<lambda>f.
     res_bind (qemu_put_be32 QEMU_VM_FILE_VERSION f) (\<lambda>f.
     res_bind (begin_loop (first_se R) s f) (\<lambda>(s, f).
     Inr ((if qf_has_error f then - EIO else 0, s), f))))"

text \<open>\<open>ret\<close> is the conjunction of the handlers' results.\<close>

fun iterate_loop where
  "iterate_loop [] ret s f = Inr ((ret, s), f)"
| "iterate_loop (e # es) ret s f =
     (case save_live_state e of
        None \<Rightarrow> iterate_loop es ret s f
      | Some live \<Rightarrow>
          res_bind (put_short_header QEMU_VM_SECTION_PART e f) (\<lambda>f.
          res_bind (live s QEMU_VM_SECTION_PART f) (\<lambda>((r, s), f). iterate_loop es (ret \<and> r \<noteq> 0) s f)))"

definition qemu_savevm_state_iterate where
  "qemu_savevm_state_iterate R s f =
     res_bind (iterate_loop (first_se R) True s f) (\<lambda>((ret, s), f).
       Inr ((if ret then 1 else if qf_has_error f then - EIO else 0, s), f))"

fun end_loop where
  "end_loop [] s f = Inr (s, f)"
| "end_loop (e # es) s f =
     (case save_live_state e of
        None \<Rightarrow> end_loop es s f
      | Some live \<Rightarrow>
          res_bind (put_short_header QEMU_VM_SECTION_END e f) (\<lambda>f.
          res_bind (live s QEMU_VM_SECTION_END f) (\<lambda>((_, s), f). end_loop es s f)))"

fun full_loop where
  "full_loop [] s f = Inr f"
| "full_loop (e # es) s f =
     (case save_state e of
        None \<Rightarrow> full_loop es s f
      | Some sv \<Rightarrow>
          res_bind (put_full_header QEMU_VM_SECTION_FULL e f) (\<lambda>f.
          res_bind (sv s f) (\<lambda>f. full_loop es s f)))"

definition qemu_savevm_state_complete where
  "qemu_savevm_state_complete R s f =
     res_bind (end_loop (first_se R) s f) (\<lambda>(s, f).
     res_bind (full_loop (first_se R) s f) (\<lambda>f.
     res_bind (qemu_put_byte f QEMU_VM_EOF) (\<lambda>f.
     Inr ((if qf_has_error f then - EIO else 0, s), f))))"

fun iterate_until where
  "iterate_until 0 R s f = None"
| "iterate_until (Suc fuel) R s f =
     (case qemu_savevm_state_iterate R s f of
        Inl e \<Rightarrow> Some (Inl e)
      | Inr ((ret, s), f) \<Rightarrow> if ret = 0 then iterate_until fuel R s f else Some (Inr ((ret, s), f)))"

definition qemu_savevm_state where
  "qemu_savevm_state fuel R s f =
     (case qemu_savevm_state_begin R s f of
        Inl e \<Rightarrow> Some (Inl e)
      | Inr ((ret, s), f) \<Rightarrow>
          if ret < 0 then Some (Inr ((if qf_has_error f then - EIO else ret, s), f))
          else
            (case iterate_until fuel R s f of
               None \<Rightarrow> None
             | Some (Inl e) \<Rightarrow> Some (Inl e)
             | Some (Inr ((ret, s), f)) \<Rightarrow>
                 if ret < 0 then Some (Inr ((if qf_has_error f then - EIO else ret, s), f))
                 else Some (res_bind (qemu_savevm_state_complete R s f) (\<lambda>((ret, s), f).
                        Inr ((if qf_has_error f then - EIO else ret, s), f)))))"

section \<open>Loading\<close>

record 's load_state_entry =
  le_se :: "'s save_state_entry"
  le_section_id :: u32
  le_version_id :: u32

datatype 's section_result = Section_fail int | Section_next "'s load_state_entry list" 's

text \<open>
  The identifier buffer: the bytes read, then, when the file ended early, the indeterminate bytes of
  the stack buffer (\<open>junk\<close>); the string ends at the first zero.
\<close>

definition id_string :: "(nat \<Rightarrow> u8) \<Rightarrow> nat \<Rightarrow> u8 list \<Rightarrow> u8 list" where
  "id_string junk len bs = takeWhile (\<lambda>b. b \<noteq> 0) (bs @ map junk [length bs..<len])"

definition call_load where
  "call_load e s v f = (case load_state e of None \<Rightarrow> Inl Bad_access | Some ld \<Rightarrow> ld s v f)"

definition load_full where
  "load_full junk es les s f =
     res_bind (qemu_get_be32 f) (\<lambda>(sid, f).
     res_bind (qemu_get_byte f) (\<lambda>(len, f).
     res_bind (qemu_get_buffer f (unat len)) (\<lambda>(bs, f).
     res_bind (qemu_get_be32 f) (\<lambda>(iid, f).
     res_bind (qemu_get_be32 f) (\<lambda>(vid, f).
     case find_se (id_string junk (unat len) bs) (sint iid) es of
       None \<Rightarrow> Inr (Section_fail (- EINVAL), f)
     | Some e \<Rightarrow>
         if vid > word_of_int (version_id e) then Inr (Section_fail (- EINVAL), f)
         else res_bind (call_load e s (sint vid) f) (\<lambda>((ret, s), f).
           Inr (Section_next (\<lparr>le_se = e, le_section_id = sid, le_version_id = vid\<rparr> # les) s, f)))))))"

definition load_part where
  "load_part les s f =
     res_bind (qemu_get_be32 f) (\<lambda>(sid, f).
     case find (\<lambda>le. le_section_id le = sid) les of
       None \<Rightarrow> Inr (Section_fail (- EINVAL), f)
     | Some le \<Rightarrow> res_bind (call_load (le_se le) s (sint (le_version_id le)) f) (\<lambda>((ret, s), f).
         Inr (Section_next les s, f)))"

definition load_section where
  "load_section junk es t les s f =
     (if t = QEMU_VM_SECTION_START \<or> t = QEMU_VM_SECTION_FULL then load_full junk es les s f
      else if t = QEMU_VM_SECTION_PART \<or> t = QEMU_VM_SECTION_END then load_part les s f
      else Inr (Section_fail (- EINVAL), f))"

fun loadvm_loop where
  "loadvm_loop junk 0 es les s f = None"
| "loadvm_loop junk (Suc fuel) es les s f =
     (case qemu_get_byte f of
        Inl e \<Rightarrow> Some (Inl e)
      | Inr (t, f) \<Rightarrow>
          if t = QEMU_VM_EOF then Some (Inr ((0, s), f))
          else
            (case load_section junk es t les s f of
               Inl e \<Rightarrow> Some (Inl e)
             | Inr (Section_fail ret, f) \<Rightarrow> Some (Inr ((ret, s), f))
             | Inr (Section_next les s, f) \<Rightarrow> loadvm_loop junk fuel es les s f))"

text \<open>Format 2: records with a length, after which the reader seeks to the end of the record.\<close>

fun loadvm_v2_loop where
  "loadvm_v2_loop junk 0 es ver end_pos s f = None"
| "loadvm_v2_loop junk (Suc fuel) es ver end_pos s f =
     (if ver > 1 \<and> qemu_ftell f \<ge> end_pos then Some (Inr (s, f))
      else
        (case qemu_get_byte f of
           Inl e \<Rightarrow> Some (Inl e)
         | Inr (len, f) \<Rightarrow>
             if ver = 1 \<and> len = 0 then Some (Inr (s, f))
             else
               (case qemu_get_buffer f (unat len) of
                  Inl e \<Rightarrow> Some (Inl e)
                | Inr (bs, f) \<Rightarrow>
                    if bs = [] then Some (Inr (s, f))
                    else
                      (case res_bind (qemu_get_be32 f) (\<lambda>(iid, f).
                             res_bind (qemu_get_be32 f) (\<lambda>(vid, f).
                             res_bind (qemu_get_be32 f) (\<lambda>(record_len, f).
                             let cur_pos = qemu_ftell f in
                             case find_se (id_string junk (unat len) bs) (sint iid) es of
                               None \<Rightarrow> Inr (s, snd (qemu_fseek f (cur_pos + sint record_len) SEEK_SET))
                             | Some e \<Rightarrow> res_bind (call_load e s (sint vid) f) (\<lambda>((ret, s), f).
                                 Inr (s, snd (qemu_fseek f (cur_pos + sint record_len) SEEK_SET))))))
                       of Inl e \<Rightarrow> Some (Inl e)
                        | Inr (s, f) \<Rightarrow> loadvm_v2_loop junk fuel es ver end_pos s f))))"

definition qemu_loadvm_state_v2 where
  "qemu_loadvm_state_v2 junk fuel es (ver::u32) s f =
     (case (if ver > 1 then res_bind (qemu_get_be64 f) (\<lambda>(total, f). Inr (sint total + qemu_ftell f, f)) else Inr (0, f)) of
        Inl e \<Rightarrow> Some (Inl e)
      | Inr (end_pos, f) \<Rightarrow>
          map_option (\<lambda>r. res_bind r (\<lambda>(s, f). Inr ((if qf_has_error f then - EIO else 0, s), f)))
            (loadvm_v2_loop junk fuel es ver end_pos s f))"

definition qemu_loadvm_state where
  "qemu_loadvm_state junk fuel es s f =
     (case qemu_get_be32 f of
        Inl e \<Rightarrow> Some (Inl e)
      | Inr (v, f) \<Rightarrow>
          if v \<noteq> QEMU_VM_FILE_MAGIC then Some (Inr ((- EINVAL, s), f))
          else
            (case qemu_get_be32 f of
               Inl e \<Rightarrow> Some (Inl e)
             | Inr (ver, f) \<Rightarrow>
                 if ver < QEMU_VM_FILE_VERSION then qemu_loadvm_state_v2 junk fuel es ver s f
                 else if ver \<noteq> QEMU_VM_FILE_VERSION then Some (Inr ((- ENOTSUP, s), f))
                 else
                   map_option (\<lambda>r. res_bind r (\<lambda>((ret, s), f).
                       Inr ((if qf_has_error f then - EIO else ret, s), f)))
                     (loadvm_loop junk fuel es [] s f)))"

section \<open>Instance numbers\<close>

definition keys :: "'s save_state_entry list \<Rightarrow> (u8 list \<times> int) list" where
  "keys es = map (\<lambda>e. (idstr e, instance_id e)) es"

lemma fresh_instance_above:
  "start \<le> fresh_instance ids (-1) es start \<and>
   (\<forall>e \<in> set es. idstr e = ids \<longrightarrow> instance_id e < fresh_instance ids (-1) es start)"
proof (induction es arbitrary: start)
  case (Cons e es)
  let ?n = "if ids = idstr e \<and> start \<le> instance_id e then instance_id e + 1 else start"
  have "fresh_instance ids (-1) (e # es) start = fresh_instance ids (-1) es ?n"
    by (simp add: fresh_instance_def)
  with Cons.IH [of ?n] show ?case by (auto split: if_splits)
qed (simp add: fresh_instance_def)

lemma find_se_key:
  assumes "distinct (keys es)" "e \<in> set es"
  shows "find_se (idstr e) (instance_id e) es = Some e"
  using assms
proof (induction es)
  case (Cons a es)
  show ?case
  proof (cases "a = e")
    case False
    then have "e \<in> set es" using Cons.prems by simp
    moreover from this have "(idstr a, instance_id a) \<noteq> (idstr e, instance_id e)"
      using Cons.prems(1) by (auto simp: keys_def image_iff)
    ultimately show ?thesis using Cons by (auto simp: find_se_def keys_def)
  qed (simp add: find_se_def)
qed simp

section \<open>The stream of a machine without live sections\<close>

text \<open>The identifiers are C strings and numbers of their C types.\<close>

definition sane_ids :: "'s save_state_entry \<Rightarrow> bool" where
  "sane_ids e \<longleftrightarrow> length (idstr e) < 256 \<and> 0 \<notin> set (idstr e)
     \<and> - (2 ^ 31) \<le> instance_id e \<and> instance_id e < 2 ^ 31 \<and> 0 \<le> version_id e \<and> version_id e < 2 ^ 31"

text \<open>An entry whose handlers are a codec for the machine state \<open>s\<close>: the save handler emits \<open>bytes\<close>, and on
  every target \<open>t\<close> of the class \<open>T\<close> the load handler takes them and rebuilds \<open>restore t\<close>, again in \<open>T\<close>.\<close>

definition codec :: "'s \<Rightarrow> ('s \<Rightarrow> bool) \<Rightarrow> 's save_state_entry \<Rightarrow> u8 list \<Rightarrow> ('s \<Rightarrow> 's) \<Rightarrow> bool" where
  "codec s T e bytes restore \<longleftrightarrow>
     (\<exists>sv ld. save_state e = Some sv \<and> load_state e = Some ld
        \<and> emits qf_writer qf_written (sv s) bytes
        \<and> (\<forall>t. T t \<longrightarrow> T (restore t)
             \<and> consumes qf_reader qf_left (ld t (version_id e)) bytes (0, restore t)))
     \<and> save_live_state e = None \<and> sane_ids e"

definition header_bytes :: "'s save_state_entry \<Rightarrow> u8 list" where
  "header_bytes e = be32_bytes (word_of_int (section_id e)) @ [of_nat (length (idstr e))] @ idstr e
     @ be32_bytes (word_of_int (instance_id e)) @ be32_bytes (word_of_int (version_id e))"

definition sections :: "('s save_state_entry \<Rightarrow> u8 list) \<Rightarrow> 's save_state_entry list \<Rightarrow> u8 list" where
  "sections bytes es = concat (map (\<lambda>e. [QEMU_VM_SECTION_FULL] @ header_bytes e @ bytes e) es)"

lemma put_full_header_emits: "emits qf_writer qf_written (put_full_header t e) ([t] @ header_bytes e)"
proof -
  have "emits qf_writer qf_written (put_full_header t e)
      (([t] @ be32_bytes (word_of_int (section_id e))) @ [of_nat (length (idstr e))] @ idstr e
       @ be32_bytes (word_of_int (instance_id e)) @ be32_bytes (word_of_int (version_id e)))"
    unfolding put_full_header_def put_short_header_def by (intro emits_bind qemu_put_emits)
  then show ?thesis by (simp add: header_bytes_def)
qed

lemma full_loop_emits:
  "\<forall>e \<in> set es. \<exists>r. codec s T e (bytes e) r \<Longrightarrow> emits qf_writer qf_written (full_loop es s) (sections bytes es)"
proof (induction es)
  case Nil
  show ?case by (simp add: sections_def emits_def)
next
  case (Cons e es)
  obtain sv where sv: "save_state e = Some sv" "emits qf_writer qf_written (sv s) (bytes e)"
    using Cons.prems by (auto simp: codec_def)
  have "emits qf_writer qf_written (\<lambda>f. res_bind (put_full_header QEMU_VM_SECTION_FULL e f)
      (\<lambda>f. res_bind (sv s f) (full_loop es s)))
      (([QEMU_VM_SECTION_FULL] @ header_bytes e) @ bytes e @ sections bytes es)"
    using Cons by (intro emits_bind put_full_header_emits sv(2)) simp
  then show ?case using sv(1) by (simp add: sections_def)
qed

lemma loops_without_live:
  assumes "\<forall>e \<in> set es. save_live_state e = None"
  shows "begin_loop es s f = Inr (s, f)" "iterate_loop es r s f = Inr ((r, s), f)" "end_loop es s f = Inr (s, f)"
  using assms by (induction es) auto

lemma load_full_consumes:
  assumes "distinct (keys es)" "e \<in> set es" "sane_ids e" "load_state e = Some ld"
    and "consumes qf_reader qf_left (ld t (version_id e)) bs (ret, t')"
  shows "consumes qf_reader qf_left (load_full junk es les t) (header_bytes e @ bs)
    (Section_next (\<lparr>le_se = e, le_section_id = word_of_int (section_id e), le_version_id = word_of_int (version_id e)\<rparr> # les) t')"
proof -
  have id: "length (idstr e) < 256" "0 \<notin> set (idstr e)"
    and v: "- (2 ^ 31) \<le> instance_id e" "instance_id e < 2 ^ 31" "0 \<le> version_id e" "version_id e < 2 ^ 31"
    using assms(3) by (auto simp: sane_ids_def)
  have w: "sint (word_of_int x :: u32) = x" if "- (2 ^ 31) \<le> x" "x < 2 ^ 31" for x
    using that signed_take_bit_int_eq_self [of 31 x] by (simp add: signed_of_int)
  have len: "unat (of_nat (length (idstr e)) :: u8) = length (idstr e)" using id(1) by (simp add: unat_of_nat)
  have tw: "takeWhile (\<lambda>b. b \<noteq> 0) (idstr e) = idstr e" using id(2) by (auto simp: takeWhile_eq_all_conv)
  have fs: "find_se (id_string junk (unat (of_nat (length (idstr e)) :: u8)) (idstr e))
      (sint (word_of_int (instance_id e) :: u32)) es = Some e"
    unfolding len w [OF v(1,2)] using find_se_key [OF assms(1,2)] by (simp add: id_string_def tw)
  let ?r = "Section_next (\<lparr>le_se = e, le_section_id = word_of_int (section_id e),
      le_version_id = word_of_int (version_id e)\<rparr> # les) t'"
  have tail: "consumes qf_reader qf_left (\<lambda>f. res_bind (call_load e t (sint (word_of_int (version_id e) :: u32)) f)
      (\<lambda>((ret, s'), f). Inr (Section_next (\<lparr>le_se = e, le_section_id = word_of_int (section_id e),
         le_version_id = word_of_int (version_id e)\<rparr> # les) s', f))) (bs @ []) ?r"
  proof -
    have c: "call_load e t (sint (word_of_int (version_id e) :: u32)) = ld t (version_id e)"
      using w [of "version_id e"] v assms(4) by (intro ext) (simp add: call_load_def)
    show ?thesis unfolding c by (rule consumes_bind [OF assms(5)]) (simp add: consumes_return)
  qed
  have gb: "consumes qf_reader qf_left (\<lambda>f. qemu_get_buffer f (unat (of_nat (length (idstr e)) :: u8))) (idstr e) (idstr e)"
    unfolding len by (rule get_buffer_consumes)
  have "consumes qf_reader qf_left (load_full junk es les t)
    (be32_bytes (word_of_int (section_id e)) @ [of_nat (length (idstr e))] @ idstr e
     @ be32_bytes (word_of_int (instance_id e)) @ be32_bytes (word_of_int (version_id e)) @ (bs @ [])) ?r"
    unfolding load_full_def
    by (rule consumes_bind [OF get_be32_consumes] consumes_bind [OF get_byte_consumes] consumes_bind [OF gb])+
      (simp only: fs option.case less_irrefl if_False tail)
  then show ?thesis by (simp add: header_bytes_def)
qed

lemma loadvm_loop_sections:
  assumes "distinct (keys es)" "\<forall>e \<in> set es. codec s T e (bytes e) (restore e)"
  shows "set ss \<subseteq> set es \<Longrightarrow> length ss < fuel \<Longrightarrow> qf_reader f \<Longrightarrow> qf_left f = sections bytes ss @ [QEMU_VM_EOF] @ xs \<Longrightarrow> T t \<Longrightarrow>
    \<exists>f'. loadvm_loop junk fuel es les t f = Some (Inr ((0, fold restore ss t), f')) \<and> qf_reader f'"
proof (induction ss arbitrary: fuel f les t)
  case Nil
  obtain k where k: "fuel = Suc k" using Nil(2) by (cases fuel) auto
  obtain f1 where "qemu_get_byte f = Inr (QEMU_VM_EOF, f1)" "qf_reader f1"
    using consumesD [OF get_byte_consumes Nil(3), of QEMU_VM_EOF xs] Nil(4) by (auto simp: sections_def)
  then show ?case by (simp add: k)
next
  case (Cons e ss)
  obtain k where k: "fuel = Suc k" "length ss < k" using Cons.prems(2) by (cases fuel) auto
  have e: "e \<in> set es" "codec s T e (bytes e) (restore e)" using Cons.prems(1) assms(2) by auto
  let ?rest = "sections bytes ss @ [QEMU_VM_EOF] @ xs"
  have left: "qf_left f = [QEMU_VM_SECTION_FULL] @ (header_bytes e @ bytes e) @ ?rest"
    using Cons.prems(4) by (simp add: sections_def)
  obtain f1 where f1: "qemu_get_byte f = Inr (QEMU_VM_SECTION_FULL, f1)" "qf_reader f1"
    "qf_left f1 = (header_bytes e @ bytes e) @ ?rest"
    using consumesD [OF get_byte_consumes Cons.prems(3) left] by blast
  let ?les = "\<lparr>le_se = e, le_section_id = word_of_int (section_id e), le_version_id = word_of_int (version_id e)\<rparr> # les"
  obtain f2 where f2: "load_full junk es les t f1 = Inr (Section_next ?les (restore e t), f2)" "qf_reader f2" "qf_left f2 = ?rest"
  proof -
    obtain ld where "load_state e = Some ld" "sane_ids e"
      "consumes qf_reader qf_left (ld t (version_id e)) (bytes e) (0, restore e t)"
      using e(2) Cons.prems(5) by (auto simp: codec_def)
    from consumesD [OF load_full_consumes [OF assms(1) e(1) this(2,1,3)] f1(2,3)] show thesis using that by blast
  qed
  have tt: "T (restore e t)" using e(2) Cons.prems(5) by (auto simp: codec_def)
  obtain f3 where "loadvm_loop junk k es ?les (restore e t) f2
      = Some (Inr ((0, fold restore ss (restore e t)), f3))" "qf_reader f3"
    using Cons.IH [OF _ k(2) f2(2,3) tt] Cons.prems(1) by fastforce
  then show ?case using f1(1) f2(1) by (simp add: k load_section_def)
qed

definition stream :: "('s save_state_entry \<Rightarrow> u8 list) \<Rightarrow> 's save_state_entry list \<Rightarrow> u8 list" where
  "stream bytes es = be32_bytes QEMU_VM_FILE_MAGIC @ be32_bytes QEMU_VM_FILE_VERSION @ sections bytes es @ [QEMU_VM_EOF]"

lemma savevm_stream:
  assumes "\<forall>e \<in> set (first_se R). \<exists>r. codec s T e (bytes e) r" "qf_writer f" "0 < fuel"
  shows "\<exists>f'. qemu_savevm_state fuel R s f = Some (Inr ((0, s), f')) \<and> qf_writer f'
    \<and> qf_written f' = qf_written f @ stream bytes (first_se R)"
proof -
  let ?es = "first_se R"
  have live: "\<forall>e \<in> set ?es. save_live_state e = None" using assms(1) by (auto simp: codec_def)
  note nl = loops_without_live [OF live]
  have err: "qf_writer g \<Longrightarrow> \<not> qf_has_error g" for g by (simp add: qf_writer_def)
  obtain f0 f1 where f1: "qemu_put_be32 QEMU_VM_FILE_MAGIC f = Inr f0" "qemu_put_be32 QEMU_VM_FILE_VERSION f0 = Inr f1"
    "qf_writer f1" "qf_written f1 = qf_written f @ be32_bytes QEMU_VM_FILE_MAGIC @ be32_bytes QEMU_VM_FILE_VERSION"
    using emitsD [OF emits_bind [OF put_be32_emits [of QEMU_VM_FILE_MAGIC] put_be32_emits [of QEMU_VM_FILE_VERSION]] assms(2)] by (auto simp: res_bind_Inr_iff)
  obtain f2 f3 where f3: "full_loop ?es s f1 = Inr f2" "qemu_put_byte f2 QEMU_VM_EOF = Inr f3" "qf_writer f3"
    "qf_written f3 = qf_written f1 @ sections bytes ?es @ [QEMU_VM_EOF]"
    using emitsD [OF emits_bind [OF full_loop_emits [OF assms(1)] put_byte_emits [of QEMU_VM_EOF]] f1(3)] by (auto simp: res_bind_Inr_iff)
  obtain k where k: "fuel = Suc k" using assms(3) by (cases fuel) auto
  have "qemu_savevm_state_begin R s f = Inr ((0, s), f1)"
    using f1 nl err by (simp add: qemu_savevm_state_begin_def)
  moreover have "iterate_until fuel R s f1 = Some (Inr ((1, s), f1))"
    using nl by (simp add: k qemu_savevm_state_iterate_def)
  moreover have "qemu_savevm_state_complete R s f1 = Inr ((0, s), f3)"
    using f3 nl err by (simp add: qemu_savevm_state_complete_def)
  ultimately have "qemu_savevm_state fuel R s f = Some (Inr ((0, s), f3))"
    using err f3(3) by (simp add: qemu_savevm_state_def)
  then show ?thesis using f1(4) f3(3,4) by (simp add: stream_def)
qed

lemma loadvm_stream:
  assumes "distinct (keys es)" "\<forall>e \<in> set es. codec s T e (bytes e) (restore e)" "length es < fuel"
    and "qf_reader f" "qf_left f = stream bytes es" "T t"
  shows "\<exists>f'. qemu_loadvm_state junk fuel es t f = Some (Inr ((0, fold restore es t), f'))"
proof -
  obtain f1 where f1: "qemu_get_be32 f = Inr (QEMU_VM_FILE_MAGIC, f1)" "qf_reader f1"
    "qf_left f1 = be32_bytes QEMU_VM_FILE_VERSION @ sections bytes es @ [QEMU_VM_EOF]"
    using consumesD [OF get_be32_consumes assms(4)] assms(5) unfolding stream_def by blast
  obtain f2 where f2: "qemu_get_be32 f1 = Inr (QEMU_VM_FILE_VERSION, f2)" "qf_reader f2"
    "qf_left f2 = sections bytes es @ [QEMU_VM_EOF] @ []"
    using consumesD [OF get_be32_consumes f1(2,3)] by auto
  obtain f3 where "loadvm_loop junk fuel es [] t f2 = Some (Inr ((0, fold restore es t), f3))" "qf_reader f3"
    using loadvm_loop_sections [OF assms(1,2) subset_refl assms(3) f2(2,3) assms(6)] by blast
  then show ?thesis using f1(1) f2(1) by (simp add: qemu_loadvm_state_def qf_reader_def)
qed

section \<open>Properties\<close>

text \<open>A device that registers without an instance number gets one of its own: no entry of the same
  name has it, all identifier pairs stay distinct, and looking the pair up when a snapshot is loaded
  finds exactly the new entry.\<close>

theorem savevm_fresh_instance:
  assumes "distinct (keys (first_se R))"
  shows "let R' = register_savevm_live ids (-1) vid live sv ld R; e = last (first_se R') in
    distinct (keys (first_se R')) \<and> first_se R' = first_se R @ [e]
    \<and> find_se (idstr e) (instance_id e) (first_se R') = Some e"
proof -
  let ?R = "register_savevm_live ids (-1) vid live sv ld R"
  let ?e = "last (first_se ?R)"
  have e: "first_se ?R = first_se R @ [?e]" "idstr ?e = take 255 ids"
    "instance_id ?e = fresh_instance (take 255 ids) (-1) (first_se R) 0"
    by (simp_all add: register_savevm_live_def Let_def)
  have "(idstr ?e, instance_id ?e) \<notin> set (keys (first_se R))"
    using fresh_instance_above [of 0 "take 255 ids" "first_se R"] e(2,3) by (fastforce simp: keys_def)
  then have d: "distinct (keys (first_se ?R))" using assms by (subst e(1)) (simp add: keys_def)
  moreover have "?e \<in> set (first_se ?R)" using e(1) by (metis in_set_conv_decomp)
  ultimately show ?thesis using find_se_key [OF d] e(1) by (simp add: Let_def)
qed

theorem savevm_fresh_instance_witness:
  "let R = register_savevm_live [0x6e] (-1) 1 None None None
        \<lparr>first_se = [\<lparr>idstr = [0x6e], instance_id = 4, version_id = 1, section_id = 0, save_live_state = None,
           save_state = None, load_state = None\<rparr> :: unit save_state_entry], global_section_id = 1\<rparr>
   in instance_id (last (first_se R)) = 5 \<and> distinct (keys (first_se R))"
  using savevm_fresh_instance [of "\<lparr>first_se = [\<lparr>idstr = [0x6e], instance_id = 4, version_id = 1, section_id = 0,
      save_live_state = None, save_state = None, load_state = None\<rparr> :: unit save_state_entry], global_section_id = 1\<rparr>"
      "[0x6e]" 1 None None None]
  by (simp add: Let_def register_savevm_live_def keys_def fresh_instance_def)

text \<open>C15: Saving a machine and loading the snapshot restores it: when every registered device has matching
  save and load handlers (a codec for the saved state on targets of a class \<open>T\<close>) and the identifier pairs are distinct, \<^verbatim>\<open>qemu_savevm_state\<close> succeeds, its
  file can be opened again, and \<^verbatim>\<open>qemu_loadvm_state\<close> reads it to the end without error and hands
  every device its own section. One round per section and one more is enough fuel.\<close>

theorem savevm_roundtrip:
  assumes "distinct (keys (first_se R))" "\<forall>e \<in> set (first_se R). codec s T e (bytes e) (restore e)"
    and "qemu_fopen True old ''wb'' = Some f" "length (first_se R) < fuel" "T t"
  shows "\<exists>f1 g g1. qemu_savevm_state fuel R s f = Some (Inr ((0, s), f1))
    \<and> qemu_fopen True (fst (qemu_fclose f1)) ''rb'' = Some g
    \<and> qemu_loadvm_state junk fuel (first_se R) t g
        = Some (Inr ((0, fold restore (first_se R) t), g1))"
proof -
  have w: "qf_writer f" "qf_written f = []" using open_wb_writer [OF assms(3)] by auto
  obtain f1 where f1: "qemu_savevm_state fuel R s f = Some (Inr ((0, s), f1))" "qf_writer f1"
    "qf_written f1 = stream bytes (first_se R)"
    using savevm_stream [OF _ w(1), of R s T bytes fuel] assms(2,4) w(2) by auto
  obtain g where g: "qemu_fopen True (fst (qemu_fclose f1)) ''rb'' = Some g" by (simp add: qemu_fopen_def)
  then have "qf_reader g" "qf_left g = stream bytes (first_se R)"
    using open_rb_reader [OF g] fclose_file [OF f1(2)] f1(3) by auto
  from loadvm_stream [OF assms(1,2,4) this assms(5)] f1(1) g show ?thesis by blast
qed

definition demo_entry :: "u8 save_state_entry" where
  "demo_entry = \<lparr>idstr = [0x72], instance_id = 0, version_id = 1, section_id = 0, save_live_state = None,
     save_state = Some qemu_put_8s, load_state = Some (\<lambda>t v f. res_bind (qemu_get_byte f) (\<lambda>(b, f). Inr ((0, b), f)))\<rparr>"

lemma demo_entry_codec: "codec s (\<lambda>_. True) demo_entry [s] (\<lambda>_. s)"
proof -
  have "consumes qf_reader qf_left (\<lambda>f. res_bind (qemu_get_byte f) (\<lambda>(b, f). Inr ((0::int, b), f))) ([s] @ []) (0, s)" for s
    by (rule consumes_bind [OF get_byte_consumes]) (rule consumes_return)
  then show ?thesis using put_8s_emits by (simp add: codec_def sane_ids_def demo_entry_def)
qed

theorem savevm_roundtrip_witness:
  "\<exists>f1 g g1. qemu_savevm_state 2 \<lparr>first_se = [demo_entry], global_section_id = 1\<rparr> 0x5a (qemu_fopen_ops [] True False)
       = Some (Inr ((0, 0x5a), f1))
    \<and> qemu_fopen True (fst (qemu_fclose f1)) ''rb'' = Some g
    \<and> qemu_loadvm_state (\<lambda>_. 0) 2 [demo_entry] 0 g = Some (Inr ((0, 0x5a), g1))"
  using savevm_roundtrip [of "\<lparr>first_se = [demo_entry], global_section_id = 1\<rparr>" "0x5a" "\<lambda>_. True" "\<lambda>_. [0x5a]" "\<lambda>_ _. 0x5a"
      "[]" "qemu_fopen_ops [] True False" 2 0 "\<lambda>_. 0"] demo_entry_codec
  by (simp add: keys_def qemu_fopen_def)

text \<open>A device that rejects its section goes unnoticed: \<^verbatim>\<open>qemu_loadvm_state\<close> discards the result of the
  load handler, so a snapshot whose only section is refused with any error code still loads
  with result 0.\<close>

theorem loadvm_ignores_device_error:
  assumes "sane_ids e" "load_state e = Some ld"
    and "consumes qf_reader qf_left (ld t (version_id e)) bs (ret, t')"
    and "qemu_fopen True (be32_bytes 0x5145564d @ be32_bytes 3 @ [4] @ (header_bytes e @ bs) @ [0]) ''rb'' = Some f"
  shows "\<exists>f'. qemu_loadvm_state junk 2 [e] t f = Some (Inr ((0, t'), f'))"
proof -
  have r: "qf_reader f" "qf_left f = be32_bytes 0x5145564d @ be32_bytes 3 @ [4] @ (header_bytes e @ bs) @ [0]"
    using open_rb_reader [OF assms(4)] by auto
  obtain f1 where f1: "qemu_get_be32 f = Inr (0x5145564d, f1)" "qf_reader f1" "qf_left f1 = be32_bytes 3 @ [4] @ (header_bytes e @ bs) @ [0]"
    using consumesD [OF get_be32_consumes r] by blast
  obtain f2 where f2: "qemu_get_be32 f1 = Inr (3, f2)" "qf_reader f2" "qf_left f2 = [4] @ (header_bytes e @ bs) @ [0]"
    using consumesD [OF get_be32_consumes f1(2,3)] by blast
  obtain f3 where f3: "qemu_get_byte f2 = Inr (4, f3)" "qf_reader f3" "qf_left f3 = (header_bytes e @ bs) @ [0]"
    using consumesD [OF get_byte_consumes f2(2,3)] by blast
  have "distinct (keys [e])" "e \<in> set [e]" by (simp_all add: keys_def)
  from consumesD [OF load_full_consumes [OF this assms(1,2,3), of junk "[]"] f3(2,3)] obtain les f4 where
    f4: "load_full junk [e] [] t f3 = Inr (Section_next les t', f4)" "qf_reader f4" "qf_left f4 = [0] @ []" by auto
  obtain f5 where f5: "qemu_get_byte f4 = Inr (0, f5)" "qf_reader f5" using consumesD [OF get_byte_consumes f4(2,3)] by blast
  have "loadvm_loop junk 2 [e] [] t f2 = Some (Inr ((0, t'), f5))"
  proof -
    have two: "(2::nat) = Suc (Suc 0)" by simp
    show ?thesis unfolding two using f3(1) f4(1) f5(1) by (simp add: load_section_def)
  qed
  then show ?thesis using f1(1) f2(1) f5(2) by (simp add: qemu_loadvm_state_def qf_reader_def)
qed

theorem loadvm_ignores_device_error_witness:
  "\<exists>f'. qemu_loadvm_state (\<lambda>_. 0) 2 [demo_entry\<lparr>load_state := Some (\<lambda>t v f. Inr ((-22, t), f))\<rparr>] 7
      (qemu_fopen_ops (be32_bytes 0x5145564d @ be32_bytes 3 @ [4]
        @ (header_bytes (demo_entry\<lparr>load_state := Some (\<lambda>t v f. Inr ((-22, t), f))\<rparr>) @ []) @ [0]) False True)
      = Some (Inr ((0, 7), f'))"
proof -
  let ?e = "demo_entry\<lparr>load_state := Some (\<lambda>t v f. Inr ((-22, t), f))\<rparr>"
  have "sane_ids ?e" "load_state ?e = Some (\<lambda>t v f. Inr ((-22, t), f))" by (simp_all add: sane_ids_def demo_entry_def)
  from loadvm_ignores_device_error [OF this consumes_return] show ?thesis by (simp add: qemu_fopen_def)
qed

end
