(* ===== verification/Pc_Machine.thy ===== *)
theory Pc_Machine
  imports Serial Rtc Pckbd Pc_Bus Ioreq Savevm
begin

text \<open>
  The devices behind the I/O requests: the part of the PC that \<^verbatim>\<open>hw/pc.c\<close> builds for a domain with one
  serial port, i.e. the real-time clock at port 0x70, the first UART at port 0x3f8 and the keyboard
  controller at ports 0x60 and 0x64, put on the port bus and in the snapshot registry by their own
  registrations, and reached by the guest only through \<^verbatim>\<open>cpu_handle_ioreq\<close>. A function pointer is a
  number; \<open>pc_code\<close> says which C function it stands for. The interrupt outputs of the devices are event
  logs, as \<^verbatim>\<open>i386-dm/i8259.c\<close> forwards each change of a line to the hypervisor. The A20 gate the
  keyboard controller drives is the one of the processor state of \<^verbatim>\<open>helper2.c\<close>.
\<close>

section \<open>Registration and dispatch\<close>

record pc = dm +
  com1 :: serial_state
  cmos :: rtc_state
  kbdc :: i8042
  dmac :: dma_state

text \<open>No modelled device registers a DMA channel, so the only transfer handler is the phony one.\<close>

definition pc_dma_code :: "unit dma_code" where
  "pc_dma_code fn op nchan pos len sm = Inr (dma_phony_handler nchan pos len, sm)"

text \<open>The devices in the order of \<^verbatim>\<open>pc_init1\<close>; their opaque pointers are distinct and not null, except at
  port 0x92, which has none.\<close>

definition pc_power_on :: "uart_env \<Rightarrow> tm \<Rightarrow> pc \<Rightarrow> pc res" where
  "pc_power_on u host_tm m =
     res_bind (rtc_register 0x70 1 (m\<lparr>cmos := rtc_init host_tm 2000\<rparr>)) (\<lambda>m.
     res_bind (port92_register m) (\<lambda>m.
     res_bind (serial_register 0x3f8 2 (m\<lparr>com1 := serial_init u 115200\<rparr>)) (\<lambda>m.
     res_bind (i8042_register 0x60 3 (m\<lparr>kbdc := i8042_init\<rparr>)) (\<lambda>m.
     res_bind (dma_register 0x00 0 0x80 4 m) (\<lambda>m.
     res_bind (dma_register 0xc0 1 0x88 5 m) (\<lambda>m.
     res_bind (DMA_init pc_dma_code (dma_zero, ())) (\<lambda>sm. Inr (m\<lparr>dmac := fst sm\<rparr>))))))))"

text \<open>\<^verbatim>\<open>ioport_get_a20\<close> and \<^verbatim>\<open>ioport_set_a20\<close> work on the processor's mask.\<close>

definition kbd_sync :: "pc \<Rightarrow> i8042" where
  "kbd_sync m = upd_ctl (\<lambda>s. s\<lparr>a20_gate := (drop_bit 20 (a20_mask m) AND 1 \<noteq> 0)\<rparr>) (kbdc m)"

definition kbd_done :: "i8042 \<Rightarrow> pc \<Rightarrow> pc" where
  "kbd_done k m = cpu_x86_set_a20 (if a20_gate (ctl k) then 1 else 0) (m\<lparr>kbdc := k\<rparr>)"

definition ioport_get_a20 :: "pc \<Rightarrow> u32" where
  "ioport_get_a20 m = drop_bit 20 (a20_mask m) AND 1"

definition ioport92_write :: "u32 \<Rightarrow> pc \<Rightarrow> pc" where
  "ioport92_write val m = cpu_x86_set_a20 (uint (drop_bit 1 val AND 1)) m"

definition ioport92_read :: "pc \<Rightarrow> u32" where
  "ioport92_read m = push_bit 1 (ioport_get_a20 m)"

definition dma_fn_of :: "nat \<Rightarrow> dma_fn option" where
  "dma_fn_of fn = find (\<lambda>k. dma_fn_code k = fn) [Write_chan, Read_chan, Write_page, Read_page, Write_cont, Read_cont]"

definition pc_dma_read :: "nat \<Rightarrow> nat \<Rightarrow> u32 \<Rightarrow> pc \<Rightarrow> (u32 \<times> pc) res" where
  "pc_dma_read fn op a m = (case dma_fn_of fn of
       Some k \<Rightarrow> if op = 4 \<or> op = 5 then res_bind (dma_call_read k (op - 4) a (dmac m)) (\<lambda>(v, d). Inr (v, m\<lparr>dmac := d\<rparr>))
                 else Inl Bad_access
     | None \<Rightarrow> Inl Bad_access)"

definition pc_dma_write :: "nat \<Rightarrow> nat \<Rightarrow> u32 \<Rightarrow> u32 \<Rightarrow> pc \<Rightarrow> pc res" where
  "pc_dma_write fn op a v m = (case dma_fn_of fn of
       Some k \<Rightarrow> if op = 4 \<or> op = 5
                 then res_bind (dma_call_write pc_dma_code k (op - 4) a v (dmac m, ())) (\<lambda>sm. Inr (m\<lparr>dmac := fst sm\<rparr>))
                 else Inl Bad_access
     | None \<Rightarrow> Inl Bad_access)"

definition pc_code :: "uart_env \<Rightarrow> rtc_env \<Rightarrow> pc mem_code" where
  "pc_code u t =
     \<lparr>call_port_read = (\<lambda>fn op a m.
        if fn = SERIAL_IOPORT_READ then (let (v, s) = serial_ioport_read u (com1 m) a in Inr (v, m\<lparr>com1 := s\<rparr>))
        else if fn = CMOS_IOPORT_READ then res_bind (cmos_ioport_read a (cmos m)) (\<lambda>(v, s). Inr (v, m\<lparr>cmos := s\<rparr>))
        else if fn = KBD_READ_DATA then res_bind (kbd_read_data (kbd_sync m) a) (\<lambda>(v, k). Inr (v, kbd_done k m))
        else if fn = KBD_READ_STATUS then (let (v, k) = kbd_read_status (kbd_sync m) a in Inr (v, kbd_done k m))
        else if fn = IOPORT92_READ then Inr (ioport92_read m, m)
        else pc_dma_read fn op a m),
      call_port_write = (\<lambda>fn op a v m.
        if fn = SERIAL_IOPORT_WRITE then res_bind (serial_ioport_write u (com1 m) a v) (\<lambda>s. Inr (m\<lparr>com1 := s\<rparr>))
        else if fn = CMOS_IOPORT_WRITE then res_bind (cmos_ioport_write t a v (cmos m)) (\<lambda>s. Inr (m\<lparr>cmos := s\<rparr>))
        else if fn = KBD_WRITE_DATA then res_bind (kbd_write_data (kbd_sync m) a v) (\<lambda>k. Inr (kbd_done k m))
        else if fn = KBD_WRITE_COMMAND then res_bind (kbd_write_command (kbd_sync m) a v) (\<lambda>k. Inr (kbd_done k m))
        else if fn = IOPORT92_WRITE then Inr (ioport92_write v m)
        else pc_dma_write fn op a v m),
      call_mem_read = (\<lambda>fn op a m. Inl Bad_access),
      call_mem_write = (\<lambda>fn op a v m. Inl Bad_access)\<rparr>"

section \<open>The invariant of the machine\<close>

text \<open>Who answers byte accesses to a port.\<close>

definition port_handlers :: "nat \<Rightarrow> nat option \<times> nat option" where
  "port_handlers a =
     (if 0x3f8 \<le> a \<and> a < 0x400 then (Some SERIAL_IOPORT_READ, Some SERIAL_IOPORT_WRITE)
      else if a = 0x70 \<or> a = 0x71 then (Some CMOS_IOPORT_READ, Some CMOS_IOPORT_WRITE)
      else if a = 0x60 then (Some KBD_READ_DATA, Some KBD_WRITE_DATA)
      else if a = 0x64 then (Some KBD_READ_STATUS, Some KBD_WRITE_COMMAND)
      else if a = 0x92 then (Some IOPORT92_READ, Some IOPORT92_WRITE)
      else case map_of dma_ports a of Some (w, r, i) \<Rightarrow> (Some (dma_fn_code r), Some (dma_fn_code w)) | None \<Rightarrow> (None, None))"

definition pc_ports :: "'a port_bus_scheme \<Rightarrow> bool" where
  "pc_ports m \<longleftrightarrow> (\<forall>(p, w, r, i) \<in> set dma_ports. opaque (port_at m p) = 4 + i)
     \<and> (\<forall>a. (read_table (port_at m a) 0, write_table (port_at m a) 0) = port_handlers a
     \<and> read_table (port_at m a) 1 = None \<and> write_table (port_at m a) 1 = None
     \<and> read_table (port_at m a) 2 = None \<and> write_table (port_at m a) 2 = None)"

definition pc_inv :: "pc \<Rightarrow> bool" where
  "pc_inv m \<longleftrightarrow> uart_inv (com1 m) \<and> rtc_inv (cmos m) \<and> i8042_inv (kbdc m) \<and> dma_wf (dmac m) \<and> pc_ports m"

lemma pc_ports_table: "ioport_table m' = ioport_table m \<Longrightarrow> pc_ports m' = pc_ports m"
  using port_at_table [of m' m] by (simp add: pc_ports_def)

lemma pc_inv_cong:
  assumes "pc_inv m" "ioport_table m' = ioport_table m"
    and "com1 m' = com1 m \<or> uart_inv (com1 m')" "cmos m' = cmos m \<or> rtc_inv (cmos m')" "kbdc m' = kbdc m \<or> i8042_inv (kbdc m')"
    and "dmac m' = dmac m \<or> dma_wf (dmac m')"
  shows "pc_inv m'"
  using assms pc_ports_table [OF assms(2)] by (auto simp: pc_inv_def)

lemma cmos_read_inv: "rtc_inv s \<Longrightarrow> cmos_ioport_read a s = Inr (v, s') \<Longrightarrow> rtc_inv s'"
  by (auto simp: cmos_ioport_read_def rtc_inv_def Let_def split: if_splits)

lemma timer_update_inv: "rtc_inv s \<Longrightarrow> rtc_timer_update t now s = Inr s' \<Longrightarrow> rtc_inv s'"
  by (auto simp: rtc_timer_update_def rtc_inv_def res_bind_Inr_iff Let_def split: if_splits)

lemma cmos_write_inv: "rtc_inv s \<Longrightarrow> cmos_ioport_write t a v s = Inr s' \<Longrightarrow> rtc_inv s'"
proof -
  assume i: "rtc_inv s" and w: "cmos_ioport_write t a v s = Inr s'"
  show ?thesis
  proof (cases "a AND 1 = 0")
    case True
    then show ?thesis using i w index_byte [of v] by (auto simp: cmos_ioport_write_def rtc_inv_def)
  next
    case False
    then show ?thesis using i w
      by (auto simp: cmos_ioport_write_def cmos_write_data_def Let_def split: if_splits elim!: timer_update_inv [rotated])
  qed
qed

lemma kbd_sync_inv: "i8042_inv (kbdc m) \<Longrightarrow> i8042_inv (kbd_sync m)"
  unfolding kbd_sync_def by (rule ctl_inv) (simp_all add: ctl_ok_other)

lemma kbd_done_fields [simp]:
  "ioport_table (kbd_done k m) = ioport_table m" "com1 (kbd_done k m) = com1 m" "cmos (kbd_done k m) = cmos m"
  "kbdc (kbd_done k m) = k" "dmac (kbd_done k m) = dmac m" "request_area (kbd_done k m) = request_area m"
  by (simp_all add: kbd_done_def cpu_x86_set_a20_def request_area_def Let_def)

lemma port92_fields [simp]:
  "ioport_table (ioport92_write v m) = ioport_table m" "com1 (ioport92_write v m) = com1 m" "cmos (ioport92_write v m) = cmos m"
  "kbdc (ioport92_write v m) = kbdc m" "dmac (ioport92_write v m) = dmac m" "request_area (ioport92_write v m) = request_area m"
  by (simp_all add: ioport92_write_def cpu_x86_set_a20_def request_area_def Let_def)

lemma pc_dma_safe: "dma_handlers_safe pc_dma_code"
  by (simp add: dma_handlers_safe_def pc_dma_code_def)

lemma pc_dma_readE:
  assumes "pc_dma_read fn op a m = Inr (v, m')"
  obtains k d where "op - 4 < 2" "dma_call_read k (op - 4) a (dmac m) = Inr (v, d)" "m' = m\<lparr>dmac := d\<rparr>"
proof (cases "dma_fn_of fn")
  case (Some k)
  then have op: "op = 4 \<or> op = 5" using assms by (auto simp: pc_dma_read_def split: if_splits)
  then have "res_bind (dma_call_read k (op - 4) a (dmac m)) (\<lambda>(v, d). Inr (v, m\<lparr>dmac := d\<rparr>)) = Inr (v, m')"
    using assms Some by (simp add: pc_dma_read_def)
  then show ?thesis using that [of k] op unfolding res_bind_Inr_iff by force
qed (use assms in \<open>simp add: pc_dma_read_def\<close>)

lemma pc_dma_writeE:
  assumes "pc_dma_write fn op a v m = Inr m'"
  obtains k sm where "op - 4 < 2" "dma_call_write pc_dma_code k (op - 4) a v (dmac m, ()) = Inr sm" "m' = m\<lparr>dmac := fst sm\<rparr>"
proof (cases "dma_fn_of fn")
  case (Some k)
  then have op: "op = 4 \<or> op = 5" using assms by (auto simp: pc_dma_write_def split: if_splits)
  then have "res_bind (dma_call_write pc_dma_code k (op - 4) a v (dmac m, ())) (\<lambda>sm. Inr (m\<lparr>dmac := fst sm\<rparr>)) = Inr m'"
    using assms Some by (simp add: pc_dma_write_def)
  then show ?thesis using that [of k] op unfolding res_bind_Inr_iff by force
qed (use assms in \<open>simp add: pc_dma_write_def\<close>)

lemma pc_dma_read_inv:
  assumes "pc_inv m" "pc_dma_read fn op a m = Inr (v, m')"
  shows "pc_inv m'"
proof -
  have wf: "dma_wf (dmac m)" using assms(1) by (simp add: pc_inv_def)
  obtain k d where k: "op - 4 < 2" "dma_call_read k (op - 4) a (dmac m) = Inr (v, d)" "m' = m\<lparr>dmac := d\<rparr>"
    using pc_dma_readE [OF assms(2)] by blast
  have "dma_wf d" using dma_call_read_wf [OF wf k(1,2)] .
  then show ?thesis unfolding k(3) by (intro pc_inv_cong [OF assms(1)]) simp_all
qed

lemma pc_dma_write_inv:
  assumes "pc_inv m" "pc_dma_write fn op a v m = Inr m'"
  shows "pc_inv m'"
proof -
  have wf: "dma_wf (dmac m)" using assms(1) by (simp add: pc_inv_def)
  obtain k sm where k: "op - 4 < 2" "dma_call_write pc_dma_code k (op - 4) a v (dmac m, ()) = Inr sm" "m' = m\<lparr>dmac := fst sm\<rparr>"
    using pc_dma_writeE [OF assms(2)] by blast
  have "dma_wf (fst sm)" using dma_call_write_wf [OF pc_dma_safe _ k(1,2)] wf by simp
  then show ?thesis unfolding k(3) by (intro pc_inv_cong [OF assms(1)]) simp_all
qed

lemma pc_read_inv:
  assumes "pc_inv m" "call_port_read (pc_code u t) fn op a m = Inr (v, m')"
  shows "pc_inv m'"
proof -
  have d: "uart_inv (com1 m)" "rtc_inv (cmos m)" "i8042_inv (kbd_sync m)"
    using assms(1) kbd_sync_inv by (simp_all add: pc_inv_def)
  have "uart_inv (snd (serial_ioport_read u (com1 m) a))" using d(1) by (rule serial_read_inv)
  moreover have "i8042_inv k" if "kbd_read_data (kbd_sync m) a = Inr (v, k)" for k
    using read_data_inv [OF d(3), of a] that by auto
  moreover note cmos_read_inv [OF d(2)] pc_dma_read_inv [OF assms(1)]
  ultimately show ?thesis using assms(2) d(3)
    by (auto simp: pc_code_def res_bind_Inr_iff kbd_read_status_def split: if_splits prod.splits
        intro!: pc_inv_cong [OF assms(1)])
qed

lemma pc_write_inv:
  assumes "pc_inv m" "call_port_write (pc_code u t) fn op a v m = Inr m'"
  shows "pc_inv m'"
proof -
  have d: "uart_inv (com1 m)" "rtc_inv (cmos m)" "i8042_inv (kbd_sync m)"
    using assms(1) kbd_sync_inv by (simp_all add: pc_inv_def)
  have "i8042_inv k" if "kbd_write_data (kbd_sync m) a v = Inr k" for k
    using write_data_inv [OF d(3), of a v] that by auto
  moreover have "i8042_inv k" if "kbd_write_command (kbd_sync m) a v = Inr k" for k
    using write_command_inv [OF d(3), of a v] that by auto
  moreover note pc_dma_write_inv [OF assms(1)] cmos_write_inv [OF d(2)] uart_ports.wr_inv [OF d(1)]
  ultimately show ?thesis using assms(2)
    by (auto simp: pc_code_def res_bind_Inr_iff split: if_splits intro!: pc_inv_cong [OF assms(1)])
qed

interpretation pc_dev: device_invariant "pc_code u t" pc_inv for u t
proof (unfold_locales, goal_cases)
  case (1 m fn op a v m')
  then show ?case by (rule pc_read_inv)
next
  case (2 m fn op a x m')
  then show ?case by (rule pc_write_inv)
next
  case (3 m fn op b v m')
  then show ?case by (simp add: pc_code_def)
next
  case (4 m fn op b x m')
  then show ?case by (simp add: pc_code_def)
qed (erule pc_inv_cong; simp add: dm_emit_def)+

lemma pc_keeps_requests: "keeps_requests (pc_code u t)"
proof -
  have "request_area (m\<lparr>com1 := s\<rparr>) = request_area m" "request_area (m\<lparr>cmos := c\<rparr>) = request_area m"
    "request_area (m\<lparr>dmac := d\<rparr>) = request_area m" for m :: pc and s c d
    by (simp_all add: request_area_def)
  then show ?thesis
    by (auto elim!: pc_dma_readE pc_dma_writeE simp: keeps_requests_def pc_code_def res_bind_Inr_iff split: if_splits prod.splits)
qed

section \<open>Power-on\<close>

lemma rtc_init_inv: "rtc_inv (rtc_init t y)"
  by (simp add: rtc_inv_def rtc_init_def rtc_set_date_from_host_def rtc_set_date_def rtc_set_memory_def Let_def copy_date_regs)

text \<open>The descriptors after the registrations of the devices before the DMA controllers.\<close>

definition early_ports :: "nat \<Rightarrow> ioport_data" where
  "early_ports a =
     (if a = 0x60 then set_writer 0 KBD_WRITE_DATA 3 (set_reader 0 KBD_READ_DATA 3 default_ioport)
      else if a = 0x64 then set_writer 0 KBD_WRITE_COMMAND 3 (set_reader 0 KBD_READ_STATUS 3 default_ioport)
      else if 0x3f8 \<le> a \<and> a < 0x400 then set_reader 0 SERIAL_IOPORT_READ 2 (set_writer 0 SERIAL_IOPORT_WRITE 2 default_ioport)
      else if a = 0x92 then set_writer 0 IOPORT92_WRITE 0 (set_reader 0 IOPORT92_READ 0 default_ioport)
      else if a = 0x70 \<or> a = 0x71 then set_reader 0 CMOS_IOPORT_READ 1 (set_writer 0 CMOS_IOPORT_WRITE 1 default_ioport)
      else default_ioport)"

lemma power_early:
  assumes "\<forall>a. port_at m a = default_ioport"
  shows "\<exists>t1 t2 t3 t4. rtc_register 0x70 1 m = Inr (m\<lparr>ioport_table := t1\<rparr>)
    \<and> port92_register (m\<lparr>ioport_table := t1\<rparr>) = Inr (m\<lparr>ioport_table := t2\<rparr>)
    \<and> serial_register 0x3f8 2 (m\<lparr>ioport_table := t2, com1 := c\<rparr>) = Inr (m\<lparr>ioport_table := t3, com1 := c\<rparr>)
    \<and> i8042_register 0x60 3 (m\<lparr>ioport_table := t3, com1 := c, kbdc := k\<rparr>) = Inr (m\<lparr>ioport_table := t4, com1 := c, kbdc := k\<rparr>)
    \<and> (\<forall>a. port_at (m\<lparr>ioport_table := t4, com1 := c, kbdc := k\<rparr>) a = early_ports a)"
proof -
  obtain t1 where t1: "rtc_register 0x70 1 m = Inr (m\<lparr>ioport_table := t1\<rparr>)"
    "\<forall>a. port_at (m\<lparr>ioport_table := t1\<rparr>) a = (if a = 0x70 \<or> a = 0x71 then set_reader 0 3 1 (set_writer 0 4 1 default_ioport) else default_ioport)"
    using rtc_register_ports [OF assms, of 1] by blast
  obtain t2 where t2: "port92_register (m\<lparr>ioport_table := t1\<rparr>) = Inr (m\<lparr>ioport_table := t2\<rparr>)"
    "\<forall>a. port_at (m\<lparr>ioport_table := t2\<rparr>) a = (if a = 0x92 then set_writer 0 10 0 (set_reader 0 9 0 default_ioport) else port_at (m\<lparr>ioport_table := t1\<rparr>) a)"
    using port92_register_ports [of "m\<lparr>ioport_table := t1\<rparr>"] t1(2) by auto
  let ?m2 = "m\<lparr>ioport_table := t2, com1 := c\<rparr>"
  have p2: "port_at ?m2 a = port_at (m\<lparr>ioport_table := t2\<rparr>) a" for a by (rule port_at_table) simp
  obtain t3 where t3: "serial_register 0x3f8 2 ?m2 = Inr (?m2\<lparr>ioport_table := t3\<rparr>)"
    "\<forall>a. port_at (?m2\<lparr>ioport_table := t3\<rparr>) a = (if 0x3f8 \<le> a \<and> a < 0x400 then set_reader 0 1 2 (set_writer 0 2 2 default_ioport) else port_at ?m2 a)"
    using serial_register_ports [of ?m2 2] t1(2) t2(2) p2 by auto
  let ?m3 = "m\<lparr>ioport_table := t3, com1 := c, kbdc := k\<rparr>"
  have p3: "port_at ?m3 a = port_at (?m2\<lparr>ioport_table := t3\<rparr>) a" for a by (rule port_at_table) simp
  obtain t4 where t4: "i8042_register 0x60 3 ?m3 = Inr (?m3\<lparr>ioport_table := t4\<rparr>)"
    "\<forall>a. port_at (?m3\<lparr>ioport_table := t4\<rparr>) a = (if a = 0x60 then set_writer 0 6 3 (set_reader 0 5 3 default_ioport)
      else if a = 0x64 then set_writer 0 8 3 (set_reader 0 7 3 default_ioport) else port_at ?m3 a)"
    using i8042_register_ports [of ?m3 3] t1(2) t2(2) t3(2) p2 p3 by auto
  have e: "?m2\<lparr>ioport_table := t3\<rparr> = m\<lparr>ioport_table := t3, com1 := c\<rparr>" "?m3\<lparr>ioport_table := t4\<rparr> = m\<lparr>ioport_table := t4, com1 := c, kbdc := k\<rparr>"
    by simp_all
  have "port_at (?m3\<lparr>ioport_table := t4\<rparr>) a = early_ports a" for a
    unfolding t4(2) [rule_format] p3 t3(2) [rule_format] p2 t2(2) [rule_format] t1(2) [rule_format] by (simp add: early_ports_def)
  then show ?thesis using t1(1) t2(1) t3(1) t4(1) unfolding e by blast
qed

lemma early_ports_free: "(p, wr) \<in> set (dma_ports2 0 0 0x80) \<or> (p, wr) \<in> set (dma_ports2 0xc0 1 0x88) \<Longrightarrow> early_ports p = default_ioport \<and> p < 65536"
  using dma_ports2_facts(3) [of p wr] dma_ports2_facts(4) [of p wr] by (auto simp: early_ports_def)

lemma power_dma:
  assumes "\<forall>a. port_at m a = early_ports a"
  shows "\<exists>t5 t6. dma_register 0 0 0x80 4 m = Inr (m\<lparr>ioport_table := t5\<rparr>)
    \<and> dma_register 0xc0 1 0x88 5 (m\<lparr>ioport_table := t5\<rparr>) = Inr (m\<lparr>ioport_table := t6\<rparr>) \<and> pc_ports (m\<lparr>ioport_table := t6\<rparr>)"
proof -
  let ?A = "dma_ports2 0 0 0x80" and ?B = "dma_ports2 0xc0 1 0x88"
  have free0: "\<forall>(p, wr) \<in> set ?A. port_at m p = default_ioport \<and> p < 65536"
    unfolding assms [rule_format] using early_ports_free by blast
  obtain t5 where t5: "dma_register 0 0 0x80 4 m = Inr (m\<lparr>ioport_table := t5\<rparr>)"
    "\<forall>a. port_at (m\<lparr>ioport_table := t5\<rparr>) a = (case map_of ?A a of Some wr \<Rightarrow> dma_descriptor 4 wr | None \<Rightarrow> early_ports a)"
    using dma_fold_ports [OF dma_ports2_facts(1) free0, of 4] unfolding dma_register_def assms [rule_format] by blast
  have free: "\<forall>(p, wr) \<in> set ?B. port_at (m\<lparr>ioport_table := t5\<rparr>) p = default_ioport \<and> p < 65536"
  proof (intro ballI, clarify)
    fix p w r assume p: "(p, w, r) \<in> set ?B"
    then have "map_of ?A p = None" by (rule dma_ports2_disjoint)
    then show "port_at (m\<lparr>ioport_table := t5\<rparr>) p = default_ioport \<and> p < 65536" using t5(2) early_ports_free [OF disjI2 [OF p]] by simp
  qed
  obtain t6 where t6: "dma_register 0xc0 1 0x88 5 (m\<lparr>ioport_table := t5\<rparr>) = Inr (m\<lparr>ioport_table := t6\<rparr>)"
    "\<forall>a. port_at (m\<lparr>ioport_table := t6\<rparr>) a = (case map_of ?B a of Some wr \<Rightarrow> dma_descriptor 5 wr | None \<Rightarrow> port_at (m\<lparr>ioport_table := t5\<rparr>) a)"
    using dma_fold_ports [OF dma_ports2_facts(2) free, of 5] unfolding dma_register_def by fastforce
  have d: "port_at (m\<lparr>ioport_table := t6\<rparr>) a = (case map_of dma_ports a of Some (w, r, i) \<Rightarrow> dma_descriptor (4 + i) (w, r) | None \<Rightarrow> early_ports a)" for a
    unfolding map_of_dma_ports using t5(2) t6(2) by (auto split: option.split)
  have "pc_ports (m\<lparr>ioport_table := t6\<rparr>)" unfolding pc_ports_def
  proof (intro conjI allI ballI, clarify)
    fix p w r i assume "(p, w, r, i) \<in> set dma_ports"
    from dma_ports_distinct [OF this] show "opaque (port_at (m\<lparr>ioport_table := t6\<rparr>) p) = 4 + i"
      using d [of p] by (simp add: dma_descriptor_def set_reader_def)
  next
    fix a
    show "(read_table (port_at (m\<lparr>ioport_table := t6\<rparr>) a) 0, write_table (port_at (m\<lparr>ioport_table := t6\<rparr>) a) 0) = port_handlers a"
    proof (cases "map_of dma_ports a")
      case None
      then show ?thesis using d [of a] by (simp add: port_handlers_def early_ports_def set_reader_def set_writer_def)
    next
      case (Some x)
      obtain w r i where x: "x = (w, r, i)" by (cases x) auto
      have "(a, w, r, i) \<in> set dma_ports" using map_of_SomeD [OF Some] x by simp
      then have "a \<noteq> 0x60 \<and> a \<noteq> 0x64 \<and> a \<noteq> 0x92 \<and> a \<noteq> 0x70 \<and> a \<noteq> 0x71 \<and> a < 0x3f8"
        by (auto simp: dma_ports_eq)
      then show ?thesis using d [of a] Some x by (simp add: port_handlers_def dma_descriptor_def set_reader_def set_writer_def)
    qed
  qed (simp_all add: d early_ports_def dma_descriptor_def set_reader_def set_writer_def split: option.split)
  then show ?thesis using t5(1) t6(1) by blast
qed

lemma power_on:
  assumes "\<forall>a. port_at m a = default_ioport"
  shows "\<exists>m'. pc_power_on u host_tm m = Inr m' \<and> pc_inv m' \<and> (\<exists>t. m' = m\<lparr>ioport_table := t, com1 := serial_init u 115200,
    cmos := rtc_init host_tm 2000, kbdc := i8042_init, dmac := dma_fresh\<rparr>)"
proof -
  let ?m0 = "m\<lparr>cmos := rtc_init host_tm 2000\<rparr>"
  have p0: "\<forall>a. port_at ?m0 a = default_ioport" using assms port_at_table [of ?m0 m] by simp
  obtain t1 t2 t3 t4 where t: "rtc_register 0x70 1 ?m0 = Inr (?m0\<lparr>ioport_table := t1\<rparr>)"
    "port92_register (?m0\<lparr>ioport_table := t1\<rparr>) = Inr (?m0\<lparr>ioport_table := t2\<rparr>)"
    "serial_register 0x3f8 2 (?m0\<lparr>ioport_table := t2, com1 := serial_init u 115200\<rparr>) = Inr (?m0\<lparr>ioport_table := t3, com1 := serial_init u 115200\<rparr>)"
    "i8042_register 0x60 3 (?m0\<lparr>ioport_table := t3, com1 := serial_init u 115200, kbdc := i8042_init\<rparr>)
       = Inr (?m0\<lparr>ioport_table := t4, com1 := serial_init u 115200, kbdc := i8042_init\<rparr>)"
    "\<forall>a. port_at (?m0\<lparr>ioport_table := t4, com1 := serial_init u 115200, kbdc := i8042_init\<rparr>) a = early_ports a"
    using power_early [OF p0, of "serial_init u 115200" i8042_init] by blast
  let ?m4 = "?m0\<lparr>ioport_table := t4, com1 := serial_init u 115200, kbdc := i8042_init\<rparr>"
  obtain t5 t6 where d: "dma_register 0 0 0x80 4 ?m4 = Inr (?m4\<lparr>ioport_table := t5\<rparr>)"
    "dma_register 0xc0 1 0x88 5 (?m4\<lparr>ioport_table := t5\<rparr>) = Inr (?m4\<lparr>ioport_table := t6\<rparr>)" "pc_ports (?m4\<lparr>ioport_table := t6\<rparr>)"
    using power_dma [OF t(5)] by blast
  let ?m = "?m4\<lparr>ioport_table := t6, dmac := dma_fresh\<rparr>"
  have on: "pc_power_on u host_tm m = Inr ?m"
    unfolding pc_power_on_def using t(1-4) d(1,2) by (simp add: DMA_init_fresh)
  have "pc_ports ?m" using d(3) pc_ports_table [of ?m "?m4\<lparr>ioport_table := t6\<rparr>"] by simp
  then have "pc_inv ?m" using serial_init_inv [of 115200 u] i8042_init_inv rtc_init_inv dma_fresh_wf by (simp add: pc_inv_def)
  moreover have "?m = m\<lparr>ioport_table := t6, com1 := serial_init u 115200, cmos := rtc_init host_tm 2000, kbdc := i8042_init, dmac := dma_fresh\<rparr>"
    by simp
  ultimately show ?thesis using on by blast
qed

section \<open>Requests\<close>

lemma pc_port_read:
  assumes "pc_ports m" "unat a < 65536"
  shows "ioport_read (pc_code u t) 0 a m = (case fst (port_handlers (unat a)) of
    Some fn \<Rightarrow> call_port_read (pc_code u t) fn (opaque (port_at m (unat a))) a m | None \<Rightarrow> Inr (0xff, m))"
proof -
  have r: "read_table (port_at m (unat a)) 0 = fst (port_handlers (unat a))"
    using assms(1) unfolding pc_ports_def by (metis fst_conv)
  show ?thesis unfolding port_at_read [OF assms(2)] r
    by (simp add: default_read_def default_ioport_readb_def split: option.split)
qed

lemma pc_port_write:
  assumes "pc_ports m" "unat a < 65536"
  shows "ioport_write (pc_code u t) 0 a x m = (case snd (port_handlers (unat a)) of
    Some fn \<Rightarrow> call_port_write (pc_code u t) fn (opaque (port_at m (unat a))) a x m | None \<Rightarrow> Inr m)"
proof -
  have r: "write_table (port_at m (unat a)) 0 = snd (port_handlers (unat a))"
    using assms(1) unfolding pc_ports_def by (metis snd_conv)
  show ?thesis unfolding port_at_write [OF assms(2)] r
    by (simp add: default_write_def default_ioport_writeb_def split: option.split)
qed

text \<open>The vcpu whose event channel fired has a byte-wide, non-string port request, and the ring is empty.\<close>

definition byte_request :: "pc \<Rightarrow> dm_env \<Rightarrow> nat \<Rightarrow> bool" where
  "byte_request m e v \<longleftrightarrow> distinct (ioreq_local_port m) \<and> v < length (ioreq_local_port m)
     \<and> length (vcpu_ioreq m) = length (ioreq_local_port m) \<and> ioreq_local_port m ! v = env_pending e
     \<and> env_pending e \<noteq> 0xFFFFFFFF \<and> env_pending e \<noteq> bufioreq_local_port m
     \<and> (case buffered_io_page m of None \<Rightarrow> True | Some p \<Rightarrow> read_pointer p = write_pointer p)
     \<and> (let r = vcpu_ioreq m ! v in req_state r = STATE_IOREQ_READY \<and> req_type r = IOREQ_TYPE_PIO \<and> req_size r = 1
          \<and> \<not> data_is_ptr r \<and> req_addr r < 65536)"

lemma finish_devices [simp]:
  "com1 (finish_ioreq e v m) = com1 m" "cmos (finish_ioreq e v m) = cmos m" "kbdc (finish_ioreq e v m) = kbdc m"
  "dmac (finish_ioreq e v m) = dmac m"
  by (simp_all add: finish_ioreq_def dm_emit_def Let_def)

lemma taken_devices [simp]:
  "com1 (taken v port m) = com1 m" "cmos (taken v port m) = cmos m" "kbdc (taken v port m) = kbdc m" "dmac (taken v port m) = dmac m"
  "ioport_table (taken v port m) = ioport_table m" "a20_mask (taken v port m) = a20_mask m"
  by (simp_all add: taken_def dm_emit_def)

lemma low_port:
  assumes "(a::u64) < 65536"
  shows "unat (ucast a :: u32) = unat a"
proof -
  have "unat a < 2 ^ 32" using assms by (simp add: word_less_nat_alt)
  then show ?thesis by (simp add: unsigned_ucast_eq take_bit_nat_eq_self)
qed

lemma pc_serve:
  assumes "byte_request m e v" "0 < fuel"
  defines "r \<equiv> (vcpu_ioreq m ! v)\<lparr>req_state := STATE_IOREQ_INPROCESS\<rparr>"
  assumes "handle_ioreq (pc_code u t) r (taken v (env_pending e) m) = Inr (req, m3)"
  shows "\<exists>m'. cpu_handle_ioreq (pc_code u t) e fuel m = Some (Inr m') \<and> com1 m' = com1 m3 \<and> cmos m' = cmos m3
    \<and> kbdc m' = kbdc m3 \<and> dmac m' = dmac m3 \<and> vcpu_ioreq m' = (vcpu_ioreq m)[v := req\<lparr>req_state := STATE_IORESP_READY\<rparr>]
    \<and> last (dm_events m') = Evtchn_notify (env_pending e)"
proof -
  note b = assms(1) [unfolded byte_request_def Let_def]
  have ring: "\<forall>p. buffered_io_page m = Some p \<longrightarrow> read_pointer p = write_pointer p" using b by (auto split: option.splits)
  let ?m' = "finish_ioreq e v (m3\<lparr>vcpu_ioreq := (vcpu_ioreq m3)[v := req]\<rparr>)"
  have "cpu_handle_ioreq (pc_code u t) e fuel m = Some (Inr ?m')"
    using serve_ready [of m v e fuel "pc_code u t"] b ring assms(2,4) by (simp add: r_def)
  moreover have "vcpu_ioreq ?m' = (vcpu_ioreq m)[v := req\<lparr>req_state := STATE_IORESP_READY\<rparr>]
      \<and> last (dm_events ?m') = Evtchn_notify (env_pending e)"
    by (rule serve_effect [OF pc_keeps_requests]) (use b assms(4) in \<open>simp_all add: r_def\<close>)
  ultimately show ?thesis by auto
qed

section \<open>Reachable machines\<close>

text \<open>Power-on of a machine with an empty port bus; then, in any order, the guest filling its request slots and
  the ring, the device model serving requests, bytes and breaks arriving at the UART, its transmit, time-out and modem
  status timers, key strokes and mouse motions, and the bottom half of the DMA controllers.\<close>

inductive pc_reachable :: "pc \<Rightarrow> bool" where
  power: "\<forall>a. port_at m a = default_ioport \<Longrightarrow> pc_power_on u host_tm m = Inr m' \<Longrightarrow> pc_reachable m'"
| guest: "pc_reachable m \<Longrightarrow> pc_reachable (m\<lparr>vcpu_ioreq := rs, buffered_io_page := p\<rparr>)"
| serve: "pc_reachable m \<Longrightarrow> cpu_handle_ioreq (pc_code u t) e fuel m = Some (Inr m') \<Longrightarrow> pc_reachable m'"
| buffered: "pc_reachable m \<Longrightarrow> handle_buffered_iopage (pc_code u t) fuel m = Some (Inr (n, m')) \<Longrightarrow> pc_reachable m'"
| receive: "pc_reachable m \<Longrightarrow> pc_reachable (m\<lparr>com1 := serial_receive1 u buf (com1 m)\<rparr>)"
| transmit: "pc_reachable m \<Longrightarrow> pc_reachable (m\<lparr>com1 := serial_xmit u (com1 m)\<rparr>)"
| fifo_timeout: "pc_reachable m \<Longrightarrow> pc_reachable (m\<lparr>com1 := fifo_timeout_int (com1 m)\<rparr>)"
| uart_event: "pc_reachable m \<Longrightarrow> pc_reachable (m\<lparr>com1 := serial_event ev (com1 m)\<rparr>)"
| modem: "pc_reachable m \<Longrightarrow> pc_reachable (m\<lparr>com1 := serial_update_msl u (com1 m)\<rparr>)"
| key: "pc_reachable m \<Longrightarrow> on_kbd (\<lambda>upd. ps2_put_keycode upd c) (kbdc m) = Inr k \<Longrightarrow> pc_reachable (m\<lparr>kbdc := k\<rparr>)"
| motion: "pc_reachable m \<Longrightarrow> on_mouse (\<lambda>upd. ps2_mouse_event upd dx dy dz b) (kbdc m) = Inr k \<Longrightarrow> pc_reachable (m\<lparr>kbdc := k\<rparr>)"
| dma_bh: "pc_reachable m \<Longrightarrow> DMA_run_bh pc_dma_code (dmac m, ()) = Inr sm \<Longrightarrow> pc_reachable (m\<lparr>dmac := fst sm\<rparr>)"

lemma pc_reachable_inv: "pc_reachable m \<Longrightarrow> pc_inv m"
proof (induction rule: pc_reachable.induct)
  case (power m u host_tm m')
  then show ?case using power_on [of m u host_tm] by auto
next
  case (guest m rs p)
  then show ?case by (auto intro: pc_inv_cong)
next
  case (serve m u t e fuel m')
  then show ?case using pc_dev.handle_inv by blast
next
  case (buffered m u t fuel n m')
  then show ?case using pc_dev.buffered_inv by blast
next
  case (receive m u buf)
  have "uart_inv (serial_receive1 u buf (com1 m))" using receive(2) by (intro receive1_inv inv_core) (simp add: pc_inv_def)
  then show ?case using receive(2) by (auto intro: pc_inv_cong)
next
  case (transmit m u)
  have "uart_inv (serial_xmit u (com1 m))" using transmit(2) by (intro xmit_inv) (simp add: pc_inv_def)
  then show ?case using transmit(2) by (auto intro: pc_inv_cong)
next
  case (fifo_timeout m)
  have "uart_inv (fifo_timeout_int (com1 m))" using fifo_timeout(2) by (intro timeout_inv) (simp add: pc_inv_def)
  then show ?case using fifo_timeout(2) by (auto intro: pc_inv_cong)
next
  case (uart_event m ev)
  have "uart_inv (serial_event ev (com1 m))" using uart_event(2) by (intro event_inv) (simp add: pc_inv_def)
  then show ?case using uart_event(2) by (auto intro: pc_inv_cong)
next
  case (modem m u)
  have "uart_inv (serial_update_msl u (com1 m))" using modem(2) by (intro update_msl_inv) (simp add: pc_inv_def)
  then show ?case using modem(2) by (auto intro: pc_inv_cong)
next
  case (key m c k)
  have "i8042_inv k" using key(2,3) key_inv [of "kbdc m" c] by (auto simp: pc_inv_def)
  then show ?case using key(3) by (auto intro: pc_inv_cong)
next
  case (motion m dx dy dz b k)
  have "i8042_inv k" using motion(2,3) motion_inv [of "kbdc m" dx dy dz b] by (auto simp: pc_inv_def)
  then show ?case using motion(3) by (auto intro: pc_inv_cong)
next
  case (dma_bh m sm)
  have "dma_wf (fst sm)" using dma_bh(2,3) returnsD [OF DMA_run_wf [OF pc_dma_safe, of "(dmac m, ())"]]
    by (simp add: DMA_run_bh_def pc_inv_def)
  then show ?case using dma_bh(3) by (auto intro: pc_inv_cong)
qed

section \<open>Properties\<close>

text \<open>C2: Safety of the machine. From power-on, whatever the guest writes into its request slots and into the
  buffered ring, and however requests, timers, received bytes, key strokes and mouse motions interleave, the port
  table keeps exactly the registered handlers, the UART keeps its FIFOs in bounds and its interrupt line in step with
  its identification register, the clock's register index stays inside its 128 bytes, the keyboard
  controller stays consistent with its two devices, and the DMA controllers stay well formed.\<close>

theorem pc_reachable_safe:
  assumes "pc_reachable m"
  shows "pc_ports m \<and> uart_inv (com1 m) \<and> rtc_inv (cmos m) \<and> i8042_inv (kbdc m) \<and> dma_wf (dmac m)"
  using pc_reachable_inv [OF assms] by (simp add: pc_inv_def)

definition pc_off :: pc where
  "pc_off = dm.extend (idle_dm\<lparr>vcpu_ioreq := [], ioreq_local_port := [7]\<rparr>) \<lparr>com1 = serial_zero, cmos = rtc_demo, kbdc = i8042_init, dmac = dma_zero\<rparr>"

lemma pc_off_facts: "\<forall>a. port_at pc_off a = default_ioport" "ioreq_local_port pc_off = [7]"
  "bufioreq_local_port pc_off = 0xFFFFFFFF" "buffered_io_page pc_off = None"
  by (simp_all add: pc_off_def dm.defs idle_dm_def port_at_def alloc_page_def ioport_create_page_def)

definition pc_on :: pc where
  "pc_on = (case pc_power_on uart_demo_env leap_eve pc_off of Inr m \<Rightarrow> m | Inl _ \<Rightarrow> pc_off)"

lemma pc_on_facts:
  "pc_power_on uart_demo_env leap_eve pc_off = Inr pc_on" "com1 pc_on = serial_init uart_demo_env 115200"
  "cmos pc_on = rtc_init leap_eve 2000" "kbdc pc_on = i8042_init" "ioreq_local_port pc_on = [7]"
  "bufioreq_local_port pc_on = 0xFFFFFFFF" "buffered_io_page pc_on = None" "pc_reachable pc_on"
  "dmac pc_on = dma_fresh"
proof -
  obtain t where t: "pc_power_on uart_demo_env leap_eve pc_off = Inr (pc_off\<lparr>ioport_table := t,
      com1 := serial_init uart_demo_env 115200, cmos := rtc_init leap_eve 2000, kbdc := i8042_init, dmac := dma_fresh\<rparr>)"
    using power_on [OF pc_off_facts(1), of uart_demo_env leap_eve] by blast
  then show on: "pc_power_on uart_demo_env leap_eve pc_off = Inr pc_on" by (simp add: pc_on_def)
  have p: "pc_on = pc_off\<lparr>ioport_table := t, com1 := serial_init uart_demo_env 115200,
      cmos := rtc_init leap_eve 2000, kbdc := i8042_init, dmac := dma_fresh\<rparr>" using t by (simp add: pc_on_def)
  show "com1 pc_on = serial_init uart_demo_env 115200" "cmos pc_on = rtc_init leap_eve 2000" "kbdc pc_on = i8042_init"
    "ioreq_local_port pc_on = [7]" "bufioreq_local_port pc_on = 0xFFFFFFFF" "buffered_io_page pc_on = None" "dmac pc_on = dma_fresh"
    by (simp_all add: p pc_off_facts)
  show "pc_reachable pc_on" using pc_off_facts(1) on by (rule pc_reachable.power)
qed

theorem pc_reachable_safe_witness:
  "pc_ports (pc_on\<lparr>com1 := serial_receive1 uart_demo_env [65] (com1 pc_on)\<rparr>)
    \<and> uart_inv (serial_receive1 uart_demo_env [65] (com1 pc_on))"
  using pc_reachable_safe [OF pc_reachable.receive [OF pc_on_facts(8)], of uart_demo_env "[65]"] by simp

text \<open>C1: A guest access to the serial port, end to end. On a machine reached from power-on, when the event channel of
  a vcpu fires and its request slot holds a byte access to one of the ports 0x3f8 to 0x3ff, the device model finds
  the UART's handler, performs exactly the register read or write of the UART with the data of the request, leaves
  the clock, the keyboard controller and the DMA controllers alone, answers in the same slot and notifies the vcpu.\<close>

theorem pc_serial_request:
  assumes "pc_reachable m" "byte_request m e v" "0x3f8 \<le> req_addr (vcpu_ioreq m ! v)" "req_addr (vcpu_ioreq m ! v) < 0x400" "0 < fuel"
  shows "\<exists>m'. cpu_handle_ioreq (pc_code u t) e fuel m = Some (Inr m')
    \<and> (let r = vcpu_ioreq m ! v; p = ucast (req_addr r); byte = take_bit 8 (req_data r) in
       (req_dir r = IOREQ_READ \<longrightarrow> com1 m' = snd (serial_ioport_read u (com1 m) p)
          \<and> vcpu_ioreq m' = (vcpu_ioreq m)[v := r\<lparr>req_data := scast (fst (serial_ioport_read u (com1 m) p)), req_state := STATE_IORESP_READY\<rparr>])
       \<and> (req_dir r = IOREQ_WRITE \<longrightarrow> serial_ioport_write u (com1 m) p (ucast byte) = Inr (com1 m')
          \<and> vcpu_ioreq m' = (vcpu_ioreq m)[v := r\<lparr>req_data := byte, req_state := STATE_IORESP_READY\<rparr>]))
    \<and> cmos m' = cmos m \<and> kbdc m' = kbdc m \<and> dmac m' = dmac m \<and> last (dm_events m') = Evtchn_notify (env_pending e)"
proof -
  let ?r0 = "vcpu_ioreq m ! v"
  let ?r = "?r0\<lparr>req_state := STATE_IOREQ_INPROCESS\<rparr>"
  let ?m = "taken v (env_pending e) m"
  define p where "p = (ucast (req_addr ?r0) :: u32)"
  note b = assms(2) [unfolded byte_request_def Let_def]
  have inv: "uart_inv (com1 m)" "pc_ports ?m"
    using pc_reachable_inv [OF assms(1)] pc_ports_table [of ?m m] by (simp_all add: pc_inv_def)
  have up: "unat p = unat (req_addr ?r0)" unfolding p_def using b by (intro low_port) simp
  have h: "port_handlers (unat p) = (Some SERIAL_IOPORT_READ, Some SERIAL_IOPORT_WRITE)" "unat p < 65536"
    using assms(3,4) unfolding up by (simp_all add: port_handlers_def word_le_nat_alt word_less_nat_alt)
  have sl: "width_slot (req_size ?r) = Some 0" using b by (simp add: width_slot_def)
  show ?thesis
  proof (cases "req_dir ?r0")
    case IOREQ_READ
    obtain x s where xs: "serial_ioport_read u (com1 m) p = (x, s)" by fastforce
    have "ioport_read (pc_code u t) 0 p ?m = Inr (x, ?m\<lparr>com1 := s\<rparr>)"
      using pc_port_read [OF inv(2) h(2), of u t] xs by (simp add: h(1) pc_code_def)
    then have "handle_ioreq (pc_code u t) ?r ?m = Inr (?r\<lparr>req_data := scast x\<rparr>, ?m\<lparr>com1 := s\<rparr>)"
      using b IOREQ_READ sl by (subst pio_read_dispatch) (simp_all add: p_def)
    from pc_serve [OF assms(2,5) this] xs IOREQ_READ show ?thesis by (auto simp: Let_def p_def)
  next
    case IOREQ_WRITE
    obtain s where s: "serial_ioport_write u (com1 m) p (ucast (take_bit 8 (req_data ?r0))) = Inr s"
      using uart_ports.wr_total [OF inv(1)] by blast
    have "ioport_write (pc_code u t) 0 p (ucast (take_bit 8 (req_data ?r0))) ?m = Inr (?m\<lparr>com1 := s\<rparr>)"
      using pc_port_write [OF inv(2) h(2), of u t] s by (simp add: h(1) pc_code_def)
    then have "handle_ioreq (pc_code u t) ?r ?m = Inr (?r\<lparr>req_data := take_bit 8 (req_data ?r0)\<rparr>, ?m\<lparr>com1 := s\<rparr>)"
      using b IOREQ_WRITE sl by (subst pio_write_dispatch) (simp_all add: p_def)
    from pc_serve [OF assms(2,5) this] s IOREQ_WRITE show ?thesis by (auto simp: Let_def p_def)
  qed
qed

text \<open>The guest writes 0x5a to the scratch register.\<close>

definition scratch_request :: ioreq where
  "scratch_request = \<lparr>req_addr = 0x3ff, req_data = 0x5a, req_count = 1, req_size = 1, req_state = STATE_IOREQ_READY,
     data_is_ptr = False, req_dir = IOREQ_WRITE, req_df = False, req_type = IOREQ_TYPE_PIO\<rparr>"

definition fired :: dm_env where
  "fired = \<lparr>env_pending = 7, env_rt_clock = 0, env_vm_running = True, env_shutdown = False, env_reset = False\<rparr>"

definition demo_clock :: rtc_env where
  "demo_clock = \<lparr>rtc_hpet_legacy = False, rtc_now = 0, rtc_ticks = 1000000000\<rparr>"

theorem pc_serial_request_witness:
  "\<exists>m'. cpu_handle_ioreq (pc_code uart_demo_env demo_clock) fired 1
      (pc_on\<lparr>vcpu_ioreq := [scratch_request], buffered_io_page := None\<rparr>) = Some (Inr m')
    \<and> serial_ioport_write uart_demo_env (serial_init uart_demo_env 115200) 0x3ff 0x5a = Inr (com1 m')"
proof -
  let ?m = "pc_on\<lparr>vcpu_ioreq := [scratch_request], buffered_io_page := None\<rparr>"
  have "pc_reachable ?m" using pc_on_facts(8) by (rule pc_reachable.guest)
  moreover have "byte_request ?m fired 0"
    by (simp add: byte_request_def pc_on_facts scratch_request_def fired_def)
  ultimately show ?thesis using pc_serial_request [of ?m fired 0 1 uart_demo_env demo_clock]
    by (auto simp: scratch_request_def pc_on_facts)
qed

end
