(* ===== verification/Pc_Snapshot.thy ===== *)
theory Pc_Snapshot
  imports Pc_Machine
begin

text \<open>
  The snapshot of the machine of \<open>Pc_Machine\<close>: the \<^verbatim>\<open>register_savevm\<close> calls of the devices in the order
  of \<^verbatim>\<open>pc_init1\<close>, each device's save and load functions working on its part of the machine, and the round trip of
  the whole through \<^verbatim>\<open>qemu_savevm_state\<close> and \<^verbatim>\<open>qemu_loadvm_state\<close>.
\<close>

section \<open>Registration\<close>

text \<open>A load function of a device, called with the machine it is part of.\<close>

definition load_part_of ::
  "('m \<Rightarrow> 's) \<Rightarrow> ('s \<Rightarrow> 'm \<Rightarrow> 'm) \<Rightarrow> ('s \<Rightarrow> int \<Rightarrow> qemu_file \<Rightarrow> ((int \<times> 's) \<times> qemu_file) res)
    \<Rightarrow> 'm \<Rightarrow> int \<Rightarrow> qemu_file \<Rightarrow> ((int \<times> 'm) \<times> qemu_file) res" where
  "load_part_of get put ld m v f = res_bind (ld (get m) v f) (\<lambda>((r, s), f). Inr ((r, put s m), f))"

abbreviation (input) "put_cmos s m \<equiv> m\<lparr>cmos := s\<rparr> :: pc"
abbreviation (input) "put_com1 s m \<equiv> m\<lparr>com1 := s\<rparr> :: pc"
abbreviation (input) "put_ctl s m \<equiv> m\<lparr>kbdc := kbdc m\<lparr>ctl := s\<rparr>\<rparr> :: pc"
abbreviation (input) "put_kbd s m \<equiv> m\<lparr>kbdc := kbdc m\<lparr>kbd := s\<rparr>\<rparr> :: pc"
abbreviation (input) "put_dmac s m \<equiv> m\<lparr>dmac := s\<rparr> :: pc"
abbreviation (input) "put_mouse s m \<equiv> m\<lparr>kbdc := kbdc m\<lparr>mouse := s\<rparr>\<rparr> :: pc"

definition "name_rtc = map of_char ''mc146818rtc''"
definition "name_serial = map of_char ''serial''"
definition "name_pckbd = map of_char ''pckbd''"
definition "name_ps2kbd = map of_char ''ps2kbd''"
definition "name_ps2mouse = map of_char ''ps2mouse''"

definition "name_dma = map of_char ''dma''"

text \<open>The load function of a DMA controller, on the controllers alone: the phony handler does not touch the machine.\<close>

definition pc_dma_load :: "nat \<Rightarrow> dma_state \<Rightarrow> int \<Rightarrow> qemu_file \<Rightarrow> ((int \<times> dma_state) \<times> qemu_file) res" where
  "pc_dma_load i s v f = res_bind (dma_load pc_dma_code i (s, ()) v f) (\<lambda>((r, sm), f). Inr ((r, fst sm), f))"

definition rtc_savevm :: "pc savevm \<Rightarrow> pc savevm" where
  "rtc_savevm = register_savevm name_rtc 0x70 1 (\<lambda>m. rtc_save (cmos m)) (load_part_of cmos put_cmos rtc_load)"

definition serial_savevm :: "uart_env \<Rightarrow> pc savevm \<Rightarrow> pc savevm" where
  "serial_savevm u = register_savevm name_serial 0x3f8 2 (\<lambda>m. serial_save (com1 m)) (load_part_of com1 put_com1 (serial_load u))"

definition i8042_savevm :: "pc savevm \<Rightarrow> pc savevm" where
  "i8042_savevm R =
     register_savevm name_ps2mouse 0 2 (\<lambda>m. ps2_mouse_save (mouse (kbdc m))) (load_part_of (\<lambda>m. mouse (kbdc m)) put_mouse ps2_mouse_load)
       (register_savevm name_ps2kbd 0 3 (\<lambda>m. ps2_kbd_save (kbd (kbdc m))) (load_part_of (\<lambda>m. kbd (kbdc m)) put_kbd ps2_kbd_load)
         (register_savevm name_pckbd 0 3 (\<lambda>m. kbd_save (ctl (kbdc m))) (load_part_of (\<lambda>m. ctl (kbdc m)) put_ctl kbd_load) R))"

definition dma_savevm :: "pc savevm \<Rightarrow> pc savevm" where
  "dma_savevm R =
     register_savevm name_dma 1 1 (\<lambda>m. dma_save 1 (dmac m)) (load_part_of dmac put_dmac (pc_dma_load 1))
       (register_savevm name_dma 0 1 (\<lambda>m. dma_save 0 (dmac m)) (load_part_of dmac put_dmac (pc_dma_load 0)) R)"

definition pc_savevm :: "uart_env \<Rightarrow> pc savevm" where
  "pc_savevm u = dma_savevm (i8042_savevm (serial_savevm u (rtc_savevm \<lparr>first_se = [], global_section_id = 0\<rparr>)))"

section \<open>Every section is a codec of its part\<close>

definition entry_of ::
  "u8 list \<Rightarrow> int \<Rightarrow> int \<Rightarrow> int \<Rightarrow> ('m \<Rightarrow> 's) \<Rightarrow> ('s \<Rightarrow> 'm \<Rightarrow> 'm) \<Rightarrow> ('s \<Rightarrow> qemu_file \<Rightarrow> qemu_file res)
    \<Rightarrow> ('s \<Rightarrow> int \<Rightarrow> qemu_file \<Rightarrow> ((int \<times> 's) \<times> qemu_file) res) \<Rightarrow> 'm save_state_entry" where
  "entry_of name iid vid sid get put sv ld = \<lparr>idstr = name, instance_id = iid, version_id = vid, section_id = sid,
     save_live_state = None, save_state = Some (\<lambda>m. sv (get m)), load_state = Some (load_part_of get put ld)\<rparr>"

lemma entry_codec:
  assumes "emits qf_writer qf_written (sv (get m)) bs"
    and "\<And>t. T t \<Longrightarrow> consumes qf_reader qf_left (ld (get t) vid) bs (0, r t)" "\<And>t. T t \<Longrightarrow> T (put (r t) t)"
    and "sane_ids (entry_of name iid vid sid get put sv ld)"
  shows "codec m T (entry_of name iid vid sid get put sv ld) bs (\<lambda>t. put (r t) t)"
proof -
  have "consumes qf_reader qf_left (load_part_of get put ld t vid) (bs @ []) (0, put (r t) t)" if "T t" for t
  proof -
    have "load_part_of get put ld t vid = (\<lambda>f. res_bind (ld (get t) vid f) (\<lambda>((c, s), f). Inr ((c, put s t), f)))"
      by (intro ext) (simp add: load_part_of_def)
    then show ?thesis using consumes_bind [OF assms(2) [OF that], of "\<lambda>(c, s) f. Inr ((c, put s t), f)" "[]" "(0, put (r t) t)"]
      by (simp add: consumes_return split_def)
  qed
  then show ?thesis using assms by (simp add: codec_def entry_of_def)
qed

text \<open>The saved machine's values are in the range of the C types of the fields.\<close>

definition pc_fits :: "pc \<Rightarrow> bool" where
  "pc_fits m \<longleftrightarrow> rtc_fits (cmos m)
     \<and> ps2_fits (kbd (kbdc m)) \<and> fits 31 (scan_enabled (kbd (kbdc m))) \<and> fits 31 (translate (kbd (kbdc m))) \<and> fits 31 (scancode_set (kbd (kbdc m)))
     \<and> ps2_fits (mouse (kbdc m)) \<and> fits 31 (mouse_dx (mouse (kbdc m))) \<and> fits 31 (mouse_dy (mouse (kbdc m))) \<and> fits 31 (mouse_dz (mouse (kbdc m)))
     \<and> dma_fits 0 (dmac m) \<and> dma_fits 1 (dmac m)"

definition pc_target :: "pc \<Rightarrow> bool" where
  "pc_target t \<longleftrightarrow> length (cmos_data (cmos t)) = 128 \<and> length (q_data (kbd (kbdc t))) = 256 \<and> length (q_data (mouse (kbdc t))) = 256
     \<and> length (dma_controllers (dmac t)) = 2 \<and> length (dma_chans (cont_of 0 (dmac t))) = 4 \<and> length (dma_chans (cont_of 1 (dmac t))) = 4"

definition pc_entries :: "uart_env \<Rightarrow> pc save_state_entry list" where
  "pc_entries u = [entry_of name_rtc 0x70 1 0 cmos put_cmos rtc_save rtc_load,
     entry_of name_serial 0x3f8 2 1 com1 put_com1 serial_save (serial_load u),
     entry_of name_pckbd 0 3 2 (\<lambda>m. ctl (kbdc m)) put_ctl kbd_save kbd_load,
     entry_of name_ps2kbd 0 3 3 (\<lambda>m. kbd (kbdc m)) put_kbd ps2_kbd_save ps2_kbd_load,
     entry_of name_ps2mouse 0 2 4 (\<lambda>m. mouse (kbdc m)) put_mouse ps2_mouse_save ps2_mouse_load,
     entry_of name_dma 0 1 5 dmac put_dmac (dma_save 0) (pc_dma_load 0),
     entry_of name_dma 1 1 6 dmac put_dmac (dma_save 1) (pc_dma_load 1)]"

lemmas name_defs = name_rtc_def name_serial_def name_pckbd_def name_ps2kbd_def name_ps2mouse_def name_dma_def

lemma pc_registered: "first_se (pc_savevm u) = pc_entries u"
  by (simp add: pc_savevm_def dma_savevm_def i8042_savevm_def serial_savevm_def rtc_savevm_def pc_entries_def entry_of_def
      register_savevm_def register_savevm_live_def fresh_instance_def Let_def name_defs)

text \<open>The body of a section and its effect on the target, by name of the section.\<close>

definition pc_bytes :: "pc \<Rightarrow> pc save_state_entry \<Rightarrow> u8 list" where
  "pc_bytes m e = (if section_id e = 0 then rtc_bytes (cmos m) else if section_id e = 1 then serial_bytes (com1 m)
     else if section_id e = 2 then kbd_bytes (ctl (kbdc m)) else if section_id e = 3 then ps2_kbd_bytes (kbd (kbdc m))
     else if section_id e = 4 then ps2_mouse_bytes (mouse (kbdc m)) else if section_id e = 5 then dma_bytes 0 (dmac m)
     else dma_bytes 1 (dmac m))"

text \<open>The phony handler leaves the positions alone, so the run after a load only rearms the bottom half.\<close>

definition dma_rearmed :: "dma_state \<Rightarrow> dma_state" where
  "dma_rearmed s = s\<lparr>bh_scheduled := (bh_scheduled s \<or> active s \<noteq> [])\<rparr>"

lemma phony_channel: "channel_run pc_dma_code i c sm = Inr sm"
proof -
  have "upd_chan i c (\<lambda>r. r\<lparr>now_count := now_count (chan_of i c s)\<rparr>) s = s" for s
    by (simp add: upd_chan_def upd_cont_def chan_of_def cont_of_def)
  then show ?thesis
    by (cases sm) (simp add: channel_run_def Let_def call_handler_def pc_dma_code_def dma_phony_handler_def split: option.split dma_handler.split)
qed

lemma phony_run: "DMA_run pc_dma_code (s, ()) = Inr (dma_rearmed s, ())"
proof -
  have "dma_handlers_local pc_dma_code" by (simp add: dma_handlers_local_def pc_dma_code_def)
  moreover have "res_fold (\<lambda>(i, c). channel_run pc_dma_code i c) xs sm = Inr sm" for xs and sm :: "dma_state \<times> unit"
    by (induction xs) (auto simp: phony_channel)
  ultimately show ?thesis using run_exact [of pc_dma_code "(s, ())"] by (cases s) (simp add: dma_rearmed_def)
qed

lemma pc_dma_load_consumes:
  assumes "dma_fits i s" "length (dma_chans (cont_of i t)) = 4"
  shows "consumes qf_reader qf_left (pc_dma_load i t 1) (dma_bytes i s) (0, dma_rearmed (dma_restored i t s))"
proof -
  have "consumes qf_reader qf_left (dma_load pc_dma_code i (t, ()) 1) (dma_bytes i s) (0, dma_rearmed (dma_restored i t s), ())"
    using assms by (intro dma_load_consumes) (simp_all add: phony_run)
  then have "consumes qf_reader qf_left (pc_dma_load i t 1) (dma_bytes i s @ []) (0, dma_rearmed (dma_restored i t s))"
    unfolding pc_dma_load_def [abs_def] by (rule consumes_bind) (simp add: consumes_return)
  then show ?thesis by simp
qed

lemma dma_restored_shape:
  assumes "length (dma_controllers t) = 2" "i < 2" "length (dma_chans (cont_of i t)) = 4" "dma_fits i s"
  shows "length (dma_controllers (dma_rearmed (dma_restored i t s))) = 2"
    "length (dma_chans (cont_of j (dma_rearmed (dma_restored i t s)))) = (if j = i then 4 else length (dma_chans (cont_of j t)))"
    "j \<noteq> i \<Longrightarrow> cont_of j (dma_rearmed (dma_restored i t s)) = cont_of j t"
    "cont_of i (dma_rearmed (dma_restored i t s)) = (cont_of i s)\<lparr>dma_status := dma_status (cont_of i t),
       dma_chans := map2 chan_restored (dma_chans (cont_of i t)) (dma_chans (cont_of i s))\<rparr>"
  using assms by (auto simp: dma_rearmed_def dma_restored_def dma_fits_def)

definition pc_restore :: "pc \<Rightarrow> pc save_state_entry \<Rightarrow> pc \<Rightarrow> pc" where
  "pc_restore m e = (if section_id e = 0 then (\<lambda>t. put_cmos (rtc_restored (cmos t) (cmos m)) t)
     else if section_id e = 1 then (\<lambda>t. put_com1 (serial_restored (com1 t) (com1 m)) t)
     else if section_id e = 2 then (\<lambda>t. put_ctl (kbd_restored (ctl (kbdc t)) (ctl (kbdc m))) t)
     else if section_id e = 3 then (\<lambda>t. put_kbd (kbd (kbdc m)) t) else if section_id e = 4 then (\<lambda>t. put_mouse (mouse (kbdc m)) t)
     else if section_id e = 5 then (\<lambda>t. put_dmac (dma_rearmed (dma_restored 0 (dmac t) (dmac m))) t)
     else (\<lambda>t. put_dmac (dma_rearmed (dma_restored 1 (dmac t) (dmac m))) t))"

lemma dma_target:
  assumes "pc_target t" "dma_fits i s" "i < 2"
  shows "pc_target (put_dmac (dma_rearmed (dma_restored i (dmac t) s)) t)"
proof -
  have t: "length (dma_controllers (dmac t)) = 2" "length (dma_chans (cont_of i (dmac t))) = 4"
    using assms(1,3) by (auto simp: pc_target_def less_2_cases_iff)
  show ?thesis using assms(1) dma_restored_shape(1,2) [OF t(1) assms(3) t(2) assms(2)] by (simp add: pc_target_def)
qed

lemma pc_codecs:
  assumes "pc_fits m"
  shows "\<forall>e \<in> set (pc_entries u). codec m pc_target e (pc_bytes m e) (pc_restore m e)"
proof -
  note f = assms [unfolded pc_fits_def]
  have sane: "\<forall>e \<in> set (pc_entries u). sane_ids e"
    by (simp add: pc_entries_def sane_ids_def entry_of_def name_defs)
  have "codec m pc_target (entry_of name_rtc 0x70 1 0 cmos put_cmos rtc_save rtc_load) (rtc_bytes (cmos m))
      (\<lambda>t. put_cmos (rtc_restored (cmos t) (cmos m)) t)"
    using sane f by (intro entry_codec rtc_save_emits rtc_load_consumes)
      (simp_all add: pc_target_def pc_entries_def rtc_restored_def rtc_fits_def)
  moreover have "codec m pc_target (entry_of name_serial 0x3f8 2 1 com1 put_com1 serial_save (serial_load u)) (serial_bytes (com1 m))
      (\<lambda>t. put_com1 (serial_restored (com1 t) (com1 m)) t)"
    using sane by (intro entry_codec serial_save_emits serial_load_consumes) (simp_all add: pc_target_def pc_entries_def)
  moreover have "codec m pc_target (entry_of name_pckbd 0 3 2 (\<lambda>m. ctl (kbdc m)) put_ctl kbd_save kbd_load) (kbd_bytes (ctl (kbdc m)))
      (\<lambda>t. put_ctl (kbd_restored (ctl (kbdc t)) (ctl (kbdc m))) t)"
    using sane by (intro entry_codec kbd_snap.save_emits kbd_snap.load_consumes) (simp_all add: pc_target_def pc_entries_def)
  moreover have "codec m pc_target (entry_of name_ps2kbd 0 3 3 (\<lambda>m. kbd (kbdc m)) put_kbd ps2_kbd_save ps2_kbd_load) (ps2_kbd_bytes (kbd (kbdc m)))
      (\<lambda>t. put_kbd (kbd (kbdc m)) t)"
    using sane f by (intro entry_codec ps2_kbd_save_emits ps2_kbd_load_consumes)
      (simp_all add: pc_target_def pc_entries_def ps2_fits_def)
  moreover have "codec m pc_target (entry_of name_ps2mouse 0 2 4 (\<lambda>m. mouse (kbdc m)) put_mouse ps2_mouse_save ps2_mouse_load)
      (ps2_mouse_bytes (mouse (kbdc m))) (\<lambda>t. put_mouse (mouse (kbdc m)) t)"
    using sane f by (intro entry_codec ps2_mouse_save_emits ps2_mouse_load_consumes)
      (simp_all add: pc_target_def pc_entries_def ps2_fits_def)
  moreover have "codec m pc_target (entry_of name_dma 0 1 5 dmac put_dmac (dma_save 0) (pc_dma_load 0)) (dma_bytes 0 (dmac m))
      (\<lambda>t. put_dmac (dma_rearmed (dma_restored 0 (dmac t) (dmac m))) t)"
    using sane f by (intro entry_codec dma_save_emits pc_dma_load_consumes dma_target)
      (simp_all add: pc_target_def pc_entries_def)
  moreover have "codec m pc_target (entry_of name_dma 1 1 6 dmac put_dmac (dma_save 1) (pc_dma_load 1)) (dma_bytes 1 (dmac m))
      (\<lambda>t. put_dmac (dma_rearmed (dma_restored 1 (dmac t) (dmac m))) t)"
    using sane f by (intro entry_codec dma_save_emits pc_dma_load_consumes dma_target)
      (simp_all add: pc_target_def pc_entries_def)
  ultimately show ?thesis by (simp add: pc_entries_def pc_bytes_def pc_restore_def entry_of_def)
qed

lemma pc_keys_distinct: "distinct (keys (pc_entries u))"
  by (simp add: pc_entries_def keys_def entry_of_def name_defs)

text \<open>The machine \<open>t\<close> after the sections of \<open>m\<close> have been loaded into it.\<close>

definition dma_loaded :: "dma_state \<Rightarrow> dma_state \<Rightarrow> dma_state" where
  "dma_loaded s t = dma_rearmed (dma_restored 1 (dma_rearmed (dma_restored 0 t s)) s)"

definition pc_loaded :: "pc \<Rightarrow> pc \<Rightarrow> pc" where
  "pc_loaded m t = t\<lparr>cmos := rtc_restored (cmos t) (cmos m), com1 := serial_restored (com1 t) (com1 m),
     kbdc := \<lparr>ctl = kbd_restored (ctl (kbdc t)) (ctl (kbdc m)), kbd = kbd (kbdc m), mouse = mouse (kbdc m)\<rparr>,
     dmac := dma_loaded (dmac m) (dmac t)\<rparr>"

lemma restore_all: "fold (pc_restore m) (pc_entries u) t = pc_loaded m t"
  by (simp add: pc_entries_def pc_restore_def entry_of_def pc_loaded_def dma_loaded_def)

lemma dma_loaded_regs:
  assumes "length (dma_controllers t) = 2" "\<forall>j<2. length (dma_chans (cont_of j t)) = 4" "\<forall>j<2. dma_fits j s" "i < 2"
  shows "cont_of i (dma_loaded s t) = (cont_of i s)\<lparr>dma_status := dma_status (cont_of i t),
       dma_chans := map2 chan_restored (dma_chans (cont_of i t)) (dma_chans (cont_of i s))\<rparr>"
    "c < 4 \<Longrightarrow> chan_of i c (dma_loaded s t) = chan_restored (chan_of i c t) (chan_of i c s)"
proof -
  let ?t0 = "dma_rearmed (dma_restored 0 t s)"
  note sh0 = dma_restored_shape [OF assms(1), of 0 s]
  have t0: "length (dma_controllers ?t0) = 2" "length (dma_chans (cont_of 1 ?t0)) = 4"
    using sh0 assms(2,3) by simp_all
  note sh1 = dma_restored_shape [OF t0(1) _ t0(2), of s]
  have "i = 0 \<or> i = 1" using assms(4) by auto
  then show e: "cont_of i (dma_loaded s t) = (cont_of i s)\<lparr>dma_status := dma_status (cont_of i t),
       dma_chans := map2 chan_restored (dma_chans (cont_of i t)) (dma_chans (cont_of i s))\<rparr>"
    using sh0 sh1 assms(2,3) by (auto simp: dma_loaded_def)
  have "length (dma_chans (cont_of i s)) = 4" using assms(3,4) by (simp add: dma_fits_def)
  then show "c < 4 \<Longrightarrow> chan_of i c (dma_loaded s t) = chan_restored (chan_of i c t) (chan_of i c s)"
    using assms(2,4) e by (simp add: chan_of_def)
qed

lemma dma_loaded_same:
  assumes "pc_target t" "pc_fits m" "i < 2"
  shows "dma_mask (cont_of i (dmac (pc_loaded m t))) = dma_mask (cont_of i (dmac m))"
    "flip_flop (cont_of i (dmac (pc_loaded m t))) = flip_flop (cont_of i (dmac m))"
    "c < 4 \<Longrightarrow> chan_of i c (dmac (pc_loaded m t)) = chan_restored (chan_of i c (dmac t)) (chan_of i c (dmac m))"
proof -
  have "\<forall>j<2. length (dma_chans (cont_of j (dmac t))) = 4" "\<forall>j<2. dma_fits j (dmac m)" "length (dma_controllers (dmac t)) = 2"
    using assms(1,2) by (auto simp: pc_target_def pc_fits_def less_2_cases_iff)
  note r = dma_loaded_regs [OF this(3,1,2) assms(3)]
  show "dma_mask (cont_of i (dmac (pc_loaded m t))) = dma_mask (cont_of i (dmac m))"
    "flip_flop (cont_of i (dmac (pc_loaded m t))) = flip_flop (cont_of i (dmac m))"
    "c < 4 \<Longrightarrow> chan_of i c (dmac (pc_loaded m t)) = chan_restored (chan_of i c (dmac t)) (chan_of i c (dmac m))"
    using r by (simp_all add: pc_loaded_def)
qed

lemma reachable_target: "pc_reachable t \<Longrightarrow> pc_target t"
  using pc_reachable_inv [of t] by (simp add: pc_inv_def pc_target_def rtc_inv_def i8042_inv_def ps2_ok_def dma_wf_def dma_cont_ok_def)

lemma pc_save_load:
  assumes "pc_target t" "pc_fits m" "qemu_fopen True old ''wb'' = Some f" "7 < fuel"
  shows "\<exists>f1 g g1. qemu_savevm_state fuel (pc_savevm u) m f = Some (Inr ((0, m), f1))
    \<and> qemu_fopen True (fst (qemu_fclose f1)) ''rb'' = Some g
    \<and> qemu_loadvm_state junk fuel (first_se (pc_savevm u)) t g = Some (Inr ((0, pc_loaded m t), g1))"
proof -
  have len: "length (pc_entries u) < fuel" using assms(4) by (simp add: pc_entries_def)
  note c = pc_codecs [OF assms(2), of u]
  have w: "qf_writer f" "qf_written f = []" using open_wb_writer [OF assms(3)] by auto
  obtain f1 where f1: "qemu_savevm_state fuel (pc_savevm u) m f = Some (Inr ((0, m), f1))" "qf_writer f1"
    "qf_written f1 = stream (pc_bytes m) (pc_entries u)"
    using savevm_stream [OF _ w(1), of "pc_savevm u" m pc_target "pc_bytes m" fuel] c assms(4) w(2)
    unfolding pc_registered by auto
  obtain g where g: "qemu_fopen True (fst (qemu_fclose f1)) ''rb'' = Some g" by (simp add: qemu_fopen_def)
  then have "qf_reader g" "qf_left g = stream (pc_bytes m) (pc_entries u)"
    using open_rb_reader [OF g] fclose_file [OF f1(2)] f1(3) by auto
  from loadvm_stream [OF pc_keys_distinct c len this assms(1), of junk] f1(1) g show ?thesis
    unfolding pc_registered restore_all by blast
qed

section \<open>Property\<close>

text \<open>C3: A machine survives a snapshot. When a reachable machine is saved by \<^verbatim>\<open>qemu_savevm_state\<close> over the
  registry its devices built and the file is loaded by \<^verbatim>\<open>qemu_loadvm_state\<close> into another reachable machine, the load
  succeeds and the target has the source's clock registers and time, its UART registers, the keyboard controller's registers,
  the keyboard and the mouse with their queues exactly, and the programming and the positions of all DMA channels. Eight
  rounds of the section loop are enough.\<close>

theorem pc_snapshot:
  assumes "pc_reachable m" "pc_reachable t" "pc_fits m" "qemu_fopen True old ''wb'' = Some f" "7 < fuel"
  shows "\<exists>f1 g g1 t'. qemu_savevm_state fuel (pc_savevm u) m f = Some (Inr ((0, m), f1))
    \<and> qemu_fopen True (fst (qemu_fclose f1)) ''rb'' = Some g
    \<and> qemu_loadvm_state junk fuel (first_se (pc_savevm u)) t g = Some (Inr ((0, t'), g1))
    \<and> cmos_data (cmos t') = cmos_data (cmos m) \<and> current_tm (cmos t') = current_tm (cmos m)
    \<and> divider (com1 t') = divider (com1 m) \<and> lcr (com1 t') = lcr (com1 m) \<and> ier (com1 t') = ier (com1 m)
    \<and> rbr (com1 t') = rbr (com1 m) \<and> lsr (com1 t') = lsr (com1 m) \<and> mcr (com1 t') = mcr (com1 m)
    \<and> kbd_mode (ctl (kbdc t')) = kbd_mode (ctl (kbdc m)) \<and> kbd_status (ctl (kbdc t')) = kbd_status (ctl (kbdc m))
    \<and> kbd_pending (ctl (kbdc t')) = kbd_pending (ctl (kbdc m))
    \<and> kbd (kbdc t') = kbd (kbdc m) \<and> mouse (kbdc t') = mouse (kbdc m)
    \<and> (\<forall>i < 2. dma_mask (cont_of i (dmac t')) = dma_mask (cont_of i (dmac m)) \<and> flip_flop (cont_of i (dmac t')) = flip_flop (cont_of i (dmac m))
        \<and> (\<forall>c < 4. let r = chan_of i c (dmac t'); r0 = chan_of i c (dmac m) in now_addr r = now_addr r0 \<and> now_count r = now_count r0
             \<and> base_addr r = base_addr r0 \<and> base_count r = base_count r0 \<and> dma_mode r = dma_mode r0 \<and> dma_page r = dma_page r0))"
proof -
  note T = reachable_target [OF assms(2)]
  obtain f1 g g1 where r: "qemu_savevm_state fuel (pc_savevm u) m f = Some (Inr ((0, m), f1))"
    "qemu_fopen True (fst (qemu_fclose f1)) ''rb'' = Some g"
    "qemu_loadvm_state junk fuel (first_se (pc_savevm u)) t g = Some (Inr ((0, pc_loaded m t), g1))"
    using pc_save_load [OF T assms(3-5)] by blast
  show ?thesis
    by (rule exI [of _ f1], rule exI [of _ g], rule exI [of _ g1], rule exI [of _ "pc_loaded m t"])
      (simp add: r dma_loaded_same [OF T assms(3)] chan_restored_def,
       simp add: pc_loaded_def rtc_restored_def serial_restored_def kbd_restored_def)
qed

theorem pc_snapshot_witness:
  "\<exists>f1 g g1 t'. qemu_savevm_state 8 (pc_savevm uart_demo_env) pc_on (qemu_fopen_ops [] True False) = Some (Inr ((0, pc_on), f1))
    \<and> qemu_fopen True (fst (qemu_fclose f1)) ''rb'' = Some g
    \<and> qemu_loadvm_state (\<lambda>_. 0) 8 (first_se (pc_savevm uart_demo_env)) pc_on g = Some (Inr ((0, t'), g1))
    \<and> current_tm (cmos t') = leap_eve"
proof -
  have "pc_fits pc_on" unfolding pc_fits_def pc_on_facts by (intro conjI; code_simp)
  moreover have "qemu_fopen True [] ''wb'' = Some (qemu_fopen_ops [] True False)" by (simp add: qemu_fopen_def)
  moreover have "current_tm (cmos pc_on) = leap_eve" unfolding pc_on_facts by code_simp
  ultimately show ?thesis using pc_snapshot [OF pc_on_facts(8) pc_on_facts(8), of "[]" _ 8 uart_demo_env "\<lambda>_. 0"] by fastforce
qed

end
