(* ===== verification/Pci_Device.thy ===== *)
theory Pci_Device
  imports Phys_Mem Qemu_File
begin

text \<open>
  One PCI function as \<^verbatim>\<open>hw/pci.c\<close> keeps it: its configuration space, its base address registers, and how a write to
  configuration space moves the regions behind them in the port and memory maps of the machine. A device is a value
  and its functions return it updated, together with the machine. The function that maps a region (\<^verbatim>\<open>map_func\<close>) belongs to the
  device and is given by a \<open>pci_code\<close>; it sees the device and changes the machine, as \<^verbatim>\<open>hw/pci.h\<close> declares the fields of
  \<^verbatim>\<open>PCIDevice\<close> read-only for it. The host is little-endian. \<^verbatim>\<open>qemu_unregister_coalesced_mmio\<close> does nothing in
  \<^verbatim>\<open>i386-dm/exec-dm.c\<close>. The fields for option ROM files, which \<^verbatim>\<open>hw/pci.c\<close> does not use, are left out.
\<close>

section \<open>State\<close>

abbreviation (input) "PCI_ROM_SLOT \<equiv> (6::nat)"
abbreviation (input) "PCI_NUM_REGIONS \<equiv> (7::nat)"
abbreviation (input) "PCI_COMMAND \<equiv> (4::nat)"
abbreviation (input) "PCI_CONFIG_BYTES \<equiv> (4096::nat)"
abbreviation (input) "IO_MEM_UNASSIGNED \<equiv> (16::u64)"
abbreviation (input) "UNMAPPED \<equiv> (- 1 :: u32)"

record pci_io_region =
  rg_addr :: u32
  rg_size :: u32
  rg_type :: u8
  rg_map_func :: "nat option"

datatype config_reader = Pci_default_read | Device_read nat
datatype config_writer = Pci_default_write | Pci_bridge_write | Piix3_write | Device_write nat

record pci_device =
  config :: "nat \<Rightarrow> u8"
  dev_bus :: nat
  devfn :: nat
  dev_name :: string
  io_regions :: "pci_io_region list"
  config_read :: config_reader
  config_write :: config_writer
  unregister :: "nat option"
  irq_state :: "nat \<Rightarrow> int"

text \<open>
  The functions \<^verbatim>\<open>hw/pci.c\<close> calls through pointers, the hypervisor call that routes a link, and \<^verbatim>\<open>pci_mem_base\<close>, which
  no code of the device model assigns.
\<close>

record 'm pci_code =
  call_map_region :: "nat \<Rightarrow> pci_device \<Rightarrow> nat \<Rightarrow> u32 \<Rightarrow> u32 \<Rightarrow> u8 \<Rightarrow> 'm \<Rightarrow> 'm res"
  call_map_irq :: "nat \<Rightarrow> pci_device \<Rightarrow> int \<Rightarrow> int"
  call_set_irq :: "nat \<Rightarrow> nat \<Rightarrow> int \<Rightarrow> int \<Rightarrow> 'm \<Rightarrow> 'm res"
  call_config_read :: "nat \<Rightarrow> pci_device \<Rightarrow> u32 \<Rightarrow> nat \<Rightarrow> 'm \<Rightarrow> (u32 \<times> pci_device \<times> 'm) res"
  call_config_write :: "nat \<Rightarrow> pci_device \<Rightarrow> u32 \<Rightarrow> u32 \<Rightarrow> nat \<Rightarrow> 'm \<Rightarrow> (pci_device \<times> 'm) res"
  call_unregister :: "nat \<Rightarrow> pci_device \<Rightarrow> 'm \<Rightarrow> (int \<times> 'm) res"
  hvm_set_pci_link_route :: "nat \<Rightarrow> u8 \<Rightarrow> 'm \<Rightarrow> 'm"
  pci_mem_base :: u64

text \<open>Little-endian loads and stores in configuration space.\<close>

definition le16_at :: "(nat \<Rightarrow> u8) \<Rightarrow> nat \<Rightarrow> u16" where
  "le16_at cf a = push_bit 8 (ucast (cf (a + 1))) OR ucast (cf a)"

definition le32_at :: "(nat \<Rightarrow> u8) \<Rightarrow> nat \<Rightarrow> u32" where
  "le32_at cf a = push_bit 24 (ucast (cf (a + 3))) OR push_bit 16 (ucast (cf (a + 2)))
     OR push_bit 8 (ucast (cf (a + 1))) OR ucast (cf a)"

definition put_le16 :: "nat \<Rightarrow> u16 \<Rightarrow> (nat \<Rightarrow> u8) \<Rightarrow> nat \<Rightarrow> u8" where
  "put_le16 a v cf = cf(a := ucast v, a + 1 := ucast (drop_bit 8 v))"

definition put_le32 :: "nat \<Rightarrow> u32 \<Rightarrow> (nat \<Rightarrow> u8) \<Rightarrow> nat \<Rightarrow> u8" where
  "put_le32 a v cf = cf(a := ucast v, a + 1 := ucast (drop_bit 8 v),
     a + 2 := ucast (drop_bit 16 v), a + 3 := ucast (drop_bit 24 v))"

definition pci_config_set_vendor_id :: "u16 \<Rightarrow> (nat \<Rightarrow> u8) \<Rightarrow> nat \<Rightarrow> u8" where
  "pci_config_set_vendor_id v = put_le16 0x00 v"

definition pci_config_set_device_id :: "u16 \<Rightarrow> (nat \<Rightarrow> u8) \<Rightarrow> nat \<Rightarrow> u8" where
  "pci_config_set_device_id v = put_le16 0x02 v"

definition pci_config_set_class :: "u16 \<Rightarrow> (nat \<Rightarrow> u8) \<Rightarrow> nat \<Rightarrow> u8" where
  "pci_config_set_class v = put_le16 0x0a v"

definition pci_set_default_subsystem_id :: "pci_device \<Rightarrow> pci_device" where
  "pci_set_default_subsystem_id d = d\<lparr>config := put_le16 0x2e 0x1100 (put_le16 0x2c 0x1af4 (config d))\<rparr>"

section \<open>Regions\<close>

text \<open>The offset of the base address register of a region.\<close>

definition bar_ofs :: "nat \<Rightarrow> nat" where
  "bar_ofs i = (if i = PCI_ROM_SLOT then 0x30 else 0x10 + i * 4)"

definition pci_register_io_region :: "pci_device \<Rightarrow> int \<Rightarrow> u32 \<Rightarrow> u32 \<Rightarrow> nat option \<Rightarrow> pci_device res" where
  "pci_register_io_region d region_num sz type map_func =
     (if region_num < 0 \<or> region_num \<ge> int PCI_NUM_REGIONS then Inr d
      else if sz AND (sz - 1) \<noteq> 0 then Inl (Exit 1)
      else let i = nat region_num in
        Inr (d\<lparr>io_regions := (io_regions d)[i := \<lparr>rg_addr = UNMAPPED, rg_size = sz, rg_type = ucast type, rg_map_func = map_func\<rparr>],
               config := put_le32 (bar_ofs i) type (config d)\<rparr>))"

definition pci_to_cpu_addr :: "('m, 'c) pci_code_scheme \<Rightarrow> u32 \<Rightarrow> u64" where
  "pci_to_cpu_addr c addr = ucast addr + pci_mem_base c"

text \<open>The address a region should be at: what the base address register and the command register say.\<close>

definition region_new_addr :: "pci_device \<Rightarrow> nat \<Rightarrow> u32" where
  "region_new_addr d i =
     (let r = io_regions d ! i;
          cmd = le16_at (config d) PCI_COMMAND;
          bar = le32_at (config d) (bar_ofs i);
          new_addr = bar AND NOT (rg_size r - 1);
          last_addr = new_addr + rg_size r - 1
      in if rg_type r AND 1 \<noteq> 0 then
           (if cmd AND 1 \<noteq> 0 then
              (if last_addr \<le> new_addr \<or> new_addr = 0 \<or> last_addr \<ge> 0x10000 then UNMAPPED else new_addr)
            else UNMAPPED)
         else
           (if cmd AND 2 \<noteq> 0 then
              (if i = PCI_ROM_SLOT \<and> bar AND 1 = 0 then UNMAPPED
               else if last_addr \<le> new_addr \<or> new_addr = 0 \<or> last_addr = - 1 then UNMAPPED else new_addr)
            else UNMAPPED))"

definition set_region_addr :: "nat \<Rightarrow> u32 \<Rightarrow> pci_device \<Rightarrow> pci_device" where
  "set_region_addr i a d = d\<lparr>io_regions := (io_regions d)[i := (io_regions d ! i)\<lparr>rg_addr := a\<rparr>]\<rparr>"

definition dev_class :: "pci_device \<Rightarrow> u16" where
  "dev_class d = ucast (config d 0x0a) OR push_bit 8 (ucast (config d 0x0b))"

text \<open>Taking a region out of the maps, with the exception for the control ports of an IDE channel.\<close>

definition unmap_region ::
  "('a mem_bus_scheme, 'c) pci_code_scheme \<Rightarrow> pci_device \<Rightarrow> pci_io_region \<Rightarrow> 'a mem_bus_scheme \<Rightarrow> 'a mem_bus_scheme res" where
  "unmap_region c d r m =
     (if rg_type r AND 1 \<noteq> 0 then
        (if dev_class d = 0x0101 \<and> rg_size r = 4 then isa_unassign_ioport (sint (rg_addr r + 2)) 1 m
         else isa_unassign_ioport (sint (rg_addr r)) (sint (rg_size r)) m)
      else cpu_register_physical_memory (pci_to_cpu_addr c (rg_addr r)) (ucast (rg_size r)) IO_MEM_UNASSIGNED m)"

definition update_region ::
  "('a mem_bus_scheme, 'c) pci_code_scheme \<Rightarrow> nat \<Rightarrow> pci_device \<times> 'a mem_bus_scheme \<Rightarrow> (pci_device \<times> 'a mem_bus_scheme) res" where
  "update_region c i = (\<lambda>(d, m).
     let r = io_regions d ! i; new_addr = region_new_addr d i in
     if rg_size r = 0 \<or> new_addr = rg_addr r then Inr (d, m)
     else
       res_bind (if rg_addr r \<noteq> UNMAPPED then unmap_region c d r m else Inr m) (\<lambda>m.
         let d1 = set_region_addr i new_addr d in
         if new_addr = UNMAPPED then Inr (d1, m)
         else (case rg_map_func r of
                 None \<Rightarrow> Inl Bad_access
               | Some fn \<Rightarrow> res_bind (call_map_region c fn d1 i new_addr (rg_size r) (rg_type r) m) (\<lambda>m. Inr (d1, m)))))"

definition pci_update_mappings ::
  "('a mem_bus_scheme, 'c) pci_code_scheme \<Rightarrow> pci_device \<Rightarrow> 'a mem_bus_scheme \<Rightarrow> (pci_device \<times> 'a mem_bus_scheme) res" where
  "pci_update_mappings c d m = res_fold (update_region c) [0..<PCI_NUM_REGIONS] (d, m)"

definition unregister_region ::
  "('a mem_bus_scheme, 'c) pci_code_scheme \<Rightarrow> pci_io_region \<Rightarrow> 'a mem_bus_scheme \<Rightarrow> 'a mem_bus_scheme res" where
  "unregister_region c r m =
     (if rg_size r = 0 \<or> rg_addr r = UNMAPPED then Inr m
      else if rg_type r = 1 then isa_unassign_ioport (sint (rg_addr r)) (sint (rg_size r)) m
      else cpu_register_physical_memory (pci_to_cpu_addr c (rg_addr r)) (ucast (rg_size r)) IO_MEM_UNASSIGNED m)"

definition pci_unregister_io_regions ::
  "('a mem_bus_scheme, 'c) pci_code_scheme \<Rightarrow> pci_device \<Rightarrow> 'a mem_bus_scheme \<Rightarrow> 'a mem_bus_scheme res" where
  "pci_unregister_io_regions c d m =
     res_fold (\<lambda>i. unregister_region c (io_regions d ! i)) [0..<PCI_NUM_REGIONS] m"

section \<open>Configuration space\<close>

definition pci_default_read_config :: "pci_device \<Rightarrow> u32 \<Rightarrow> nat \<Rightarrow> u32 res" where
  "pci_default_read_config d address len =
     (if len \<noteq> 1 \<and> len \<noteq> 2 \<and> address \<le> 0xfc then Inr (le32_at (config d) (unat address))
      else if len \<noteq> 1 \<and> address \<le> 0xfe then Inr (ucast (le16_at (config d) (unat address)))
      else if unat address < PCI_CONFIG_BYTES then Inr (ucast (config d (unat address)))
      else Inl Bad_access)"

text \<open>The registers a byte write cannot change, for a function and for a bridge.\<close>

definition can_write :: "u8 \<Rightarrow> nat \<Rightarrow> bool" where
  "can_write header a =
     (if a \<in> {0x00, 0x01, 0x02, 0x03, 0x06, 0x07, 0x08, 0x09, 0x0a, 0x0b, 0x0e, 0x3d} \<or> 0x2c \<le> a \<and> a \<le> 0x2f then False
      else if header = 0x00 \<or> header = 0x80 then \<not> (0x10 \<le> a \<and> a \<le> 0x27 \<or> 0x30 \<le> a \<and> a \<le> 0x33)
      else \<not> (0x38 \<le> a \<and> a \<le> 0x3b))"

definition reserved_mask :: "nat \<Rightarrow> u32" where
  "reserved_mask a = (if a = 0x05 then 0xf8 else if a = 0x06 then 0xff else if a = 0x07 then 0x06 else 0)"

fun write_config_bytes :: "nat \<Rightarrow> nat \<Rightarrow> u32 \<Rightarrow> (nat \<Rightarrow> u8) \<Rightarrow> (nat \<Rightarrow> u8) res" where
  "write_config_bytes 0 a val cf = Inr cf"
| "write_config_bytes (Suc n) a val cf =
     (let w = can_write (cf 0x0e) a;
          v = (if w then val AND NOT (reserved_mask a) else val)
      in if w \<and> a \<ge> PCI_CONFIG_BYTES then Inl Bad_access
         else let cf1 = (if w then cf(a := ucast v) else cf)
              in if a + 1 > 0xff then Inr cf1 else write_config_bytes n (a + 1) (drop_bit 8 v) cf1)"

text \<open>The region a four-byte write to a base address register is for.\<close>

definition bar_write :: "u32 \<Rightarrow> nat \<Rightarrow> nat option" where
  "bar_write address len =
     (if len = 4 \<and> (address \<ge> 0x10 \<and> address < 0x28 \<or> address \<ge> 0x30 \<and> address < 0x34)
      then Some (if address \<ge> 0x30 then PCI_ROM_SLOT else unat (drop_bit 2 (address - 0x10)))
      else None)"

definition bar_value :: "nat \<Rightarrow> pci_io_region \<Rightarrow> u32 \<Rightarrow> u32" where
  "bar_value reg r val =
     (if reg = PCI_ROM_SLOT then val AND (NOT (rg_size r - 1) OR 1)
      else (val AND NOT (rg_size r - 1)) OR ucast (rg_type r))"

definition write_config_default ::
  "('a mem_bus_scheme, 'c) pci_code_scheme \<Rightarrow> pci_device \<Rightarrow> u32 \<Rightarrow> u32 \<Rightarrow> nat \<Rightarrow> 'a mem_bus_scheme
     \<Rightarrow> (pci_device \<times> 'a mem_bus_scheme) res" where
  "write_config_default c d address val len m =
     res_bind (write_config_bytes len (unat address) val (config d)) (\<lambda>cf.
       let d1 = d\<lparr>config := cf\<rparr> in
       if address + of_nat len > 4 \<and> address < 6 then pci_update_mappings c d1 m else Inr (d1, m))"

definition pci_default_write_config ::
  "('a mem_bus_scheme, 'c) pci_code_scheme \<Rightarrow> pci_device \<Rightarrow> u32 \<Rightarrow> u32 \<Rightarrow> nat \<Rightarrow> 'a mem_bus_scheme
     \<Rightarrow> (pci_device \<times> 'a mem_bus_scheme) res" where
  "pci_default_write_config c d address val len m =
     (case bar_write address len of
        None \<Rightarrow> write_config_default c d address val len m
      | Some reg \<Rightarrow>
          (let r = io_regions d ! reg in
           if rg_size r = 0 then write_config_default c d address val len m
           else pci_update_mappings c (d\<lparr>config := put_le32 (unat address) (bar_value reg r val) (config d)\<rparr>) m))"

section \<open>Powers of two\<close>

lemma bit_top: "2 ^ k \<le> unat w \<Longrightarrow> unat w < 2 ^ Suc k \<Longrightarrow> bit w k" for w :: "'a::len word"
proof -
  assume "2 ^ k \<le> unat w" "unat w < 2 ^ Suc k"
  then have "unat w div 2 ^ k = 1" by (intro div_nat_eqI) auto
  then have "bit (unat w) k" by (simp add: bit_iff_odd)
  then show ?thesis by (simp add: bit_unsigned_iff)
qed

lemma unat_pow2: "k < 32 \<Longrightarrow> unat (2 ^ k :: u32) = 2 ^ k"
proof -
  assume "k < 32"
  then have "(2::nat) ^ k < 2 ^ 32" by (intro power_strict_increasing) auto
  then show ?thesis using unat_of_nat [of "2 ^ k", where 'a = 32] by simp
qed

lemma pow2_sizeE:
  assumes "sz \<noteq> 0" "sz AND (sz - 1) = (0::u32)"
  obtains k where "k < 32" "sz = 2 ^ k"
proof -
  obtain k where k: "2 ^ k \<le> unat sz" "unat sz < 2 ^ Suc k"
    using ex_power_ivl1 [of 2 "unat sz"] assms(1) by (auto simp: Suc_le_eq unat_gt_0)
  have k32: "k < 32" using bit_imp_le_length [OF bit_top [OF k]] by simp
  have "unat sz = 2 ^ k"
  proof (rule ccontr)
    assume ne: "unat sz \<noteq> 2 ^ k"
    have "unat (sz - 1) = unat sz - 1" using assms(1) by (rule unat_minus_one)
    then have "bit (sz - 1) k" using k ne by (intro bit_top) auto
    then have "bit (sz AND (sz - 1)) k" using bit_top [OF k] by (simp add: bit_and_iff)
    then show False using assms(2) by simp
  qed
  then have "sz = 2 ^ k" using unat_pow2 [OF k32] by (metis unsigned_word_eqI)
  then show thesis using that k32 by blast
qed

lemma unat_all_ones: "unat (- 1 :: u32) = 2 ^ 32 - 1"
  by (simp add: unsigned_minus_1_eq_mask mask_eq_exp_minus_1)

text \<open>Clearing the bits below a power of two rounds down to a multiple of it.\<close>

lemma unat_round_down:
  assumes "k < 32"
  shows "unat (w AND NOT (2 ^ k - 1) :: u32) = unat w div 2 ^ k * 2 ^ k"
proof -
  have "w AND NOT (2 ^ k - 1) = push_bit k (drop_bit k w)"
    by (rule bit_word_eqI) (auto simp: bit_simps simp flip: mask_eq_exp_minus_1)
  moreover have d: "unat (drop_bit k w) = unat w div 2 ^ k"
    by (simp only: unsigned_drop_bit_eq) (use unat_bound [of w] in \<open>simp add: take_bit_nat_eq_self drop_bit_eq_div\<close>)
  moreover have "unat w div 2 ^ k * 2 ^ k < 2 ^ 32"
    by (rule le_less_trans [OF div_times_less_eq_dividend]) (use unat_bound [of w] in simp)
  ultimately show ?thesis
    by (simp only: unsigned_push_bit_eq) (simp add: push_bit_eq_mult take_bit_nat_eq_self)
qed

text \<open>A region of \<open>2 ^ k\<close> bytes rounded down ends below the top of the address space.\<close>

lemma region_end:
  assumes "k < 32"
  shows "unat (w AND NOT (2 ^ k - 1) :: u32) + 2 ^ k \<le> 2 ^ 32"
    and "unat ((w AND NOT (2 ^ k - 1)) + 2 ^ k - 1 :: u32) = unat (w AND NOT (2 ^ k - 1)) + (2 ^ k - 1)"
proof -
  let ?n = "w AND NOT (2 ^ k - 1) :: u32"
  have "(2::nat) ^ 32 = 2 ^ (32 - k) * 2 ^ k" using assms by (simp flip: power_add)
  moreover have "unat w div 2 ^ k < 2 ^ (32 - k)"
    using unat_bound [of w] assms by (simp add: div_less_iff_less_mult flip: power_add)
  ultimately show e: "unat ?n + 2 ^ k \<le> 2 ^ 32"
    using mult_le_mono1 [of "Suc (unat w div 2 ^ k)" "2 ^ (32 - k)" "2 ^ k"] by (simp only: unat_round_down [OF assms]) simp
  have "?n + 2 ^ k - 1 = ?n + (2 ^ k - 1)" by simp
  moreover have u: "unat (2 ^ k - 1 :: u32) = 2 ^ k - 1"
    using unat_minus_one [of "2 ^ k :: u32"] unat_pow2 [OF assms] by (metis unat_0 power_not_zero zero_neq_numeral)
  moreover have "unat ?n + (2 ^ k - 1) < 2 ^ 32" using e by (simp add: less_le_trans [OF _ e])
  ultimately show "unat (?n + 2 ^ k - 1) = unat ?n + (2 ^ k - 1)"
    by (simp only:) (simp add: unat_word_ariths u)
qed

section \<open>Address decoding\<close>

text \<open>
  What a base address register asks for, in the terms of the PCI specification: the enable bits are set, and the
  naturally aligned range of the region lies, without address 0, in the 64K ports or below the last byte of the
  4G of memory. A region of one byte is never decoded.
\<close>

definition decoded :: "pci_device \<Rightarrow> nat \<Rightarrow> u32 option" where
  "decoded d i =
     (let r = io_regions d ! i; io = bit (rg_type r) 0; bar = le32_at (config d) (bar_ofs i); a = bar AND NOT (rg_size r - 1) in
      if bit (le16_at (config d) PCI_COMMAND) (if io then 0 else 1) \<and> (\<not> io \<and> i = PCI_ROM_SLOT \<longrightarrow> bit bar 0)
         \<and> a \<noteq> 0 \<and> 2 \<le> unat (rg_size r)
         \<and> (if io then unat a + unat (rg_size r) \<le> 0x10000 else unat a + unat (rg_size r) < 2 ^ 32)
      then Some a else None)"

definition pow2_size :: "pci_io_region \<Rightarrow> bool" where
  "pow2_size r \<longleftrightarrow> rg_size r AND (rg_size r - 1) = 0"

lemma and_1_2_bit: "w AND 1 \<noteq> 0 \<longleftrightarrow> bit w 0" "w AND 1 = 0 \<longleftrightarrow> \<not> bit w 0"
  "v AND 2 \<noteq> 0 \<longleftrightarrow> bit v 1" for w :: "'a::len word" and v :: u16
  using and_exp_eq_0_iff_not_bit [of w 0] and_exp_eq_0_iff_not_bit [of v 1] by simp_all

lemma region_new_addr_decoded:
  assumes "rg_size (io_regions d ! i) \<noteq> 0" "pow2_size (io_regions d ! i)"
  shows "region_new_addr d i = (case decoded d i of Some a \<Rightarrow> a | None \<Rightarrow> UNMAPPED)"
proof -
  obtain k where k: "k < 32" "rg_size (io_regions d ! i) = 2 ^ k"
    using pow2_sizeE assms by (auto simp: pow2_size_def)
  define bar where "bar = le32_at (config d) (bar_ofs i)"
  define a where "a = bar AND NOT (2 ^ k - 1)"
  define l where "l = a + 2 ^ k - 1"
  have ul: "unat l = unat a + (2 ^ k - 1)" using region_end(2) [OF k(1)] by (simp add: l_def a_def)
  have ua: "unat a + 2 ^ k \<le> 2 ^ 32" using region_end(1) [OF k(1)] by (simp add: a_def)
  have two: "l \<le> a \<longleftrightarrow> \<not> 2 \<le> (2::nat) ^ k"
    using zero_less_power [of "2::nat" k] unfolding word_le_nat_alt ul by linarith
  have io: "0x10000 \<le> l \<longleftrightarrow> \<not> unat a + 2 ^ k \<le> 0x10000"
  proof -
    have "0x10000 \<le> l \<longleftrightarrow> 0x10000 \<le> unat a + (2 ^ k - 1)" by (simp add: word_le_nat_alt ul)
    also have "\<dots> \<longleftrightarrow> \<not> unat a + 2 ^ k \<le> 0x10000" using zero_less_power [of "2::nat" k] by linarith
    finally show ?thesis .
  qed
  have mem: "l = - 1 \<longleftrightarrow> \<not> unat a + 2 ^ k < 2 ^ 32"
  proof -
    have "l = - 1 \<longleftrightarrow> unat a + (2 ^ k - 1) = 2 ^ 32 - 1" by (metis ul unat_all_ones unsigned_word_eqI)
    also have "\<dots> \<longleftrightarrow> \<not> unat a + 2 ^ k < 2 ^ 32" using ua zero_less_power [of "2::nat" k] by linarith
    finally show ?thesis .
  qed
  show ?thesis
    unfolding region_new_addr_def decoded_def Let_def k(2) bar_def [symmetric]
    unfolding a_def [symmetric] l_def [symmetric] two io mem unat_pow2 [OF k(1)] and_1_2_bit
    by (simp split: option.split)
qed

text \<open>
  The regions of a device are where its configuration space puts them. \<open>fns\<close> are the map functions of the device, each with the
  type of the regions it is for.
\<close>

definition map_entry :: "pci_io_region \<Rightarrow> (nat \<times> u8) option" where
  "map_entry r = map_option (\<lambda>fn. (fn, rg_type r)) (rg_map_func r)"

definition regions_wf :: "(nat \<times> u8) set \<Rightarrow> pci_device \<Rightarrow> bool" where
  "regions_wf fns d \<longleftrightarrow> length (io_regions d) = PCI_NUM_REGIONS
     \<and> (\<forall>r \<in> set (io_regions d). pow2_size r \<and> (rg_size r \<noteq> 0 \<longrightarrow> map_entry r \<in> Some ` fns))"

definition synced :: "(nat \<times> u8) set \<Rightarrow> pci_device \<Rightarrow> bool" where
  "synced fns d \<longleftrightarrow> regions_wf fns d \<and> (\<forall>i < PCI_NUM_REGIONS. rg_size (io_regions d ! i) \<noteq> 0 \<longrightarrow>
     rg_addr (io_regions d ! i) = (case decoded d i of Some a \<Rightarrow> a | None \<Rightarrow> UNMAPPED))"

lemma regions_wf_nth:
  assumes "regions_wf fns d" "i < PCI_NUM_REGIONS"
  shows "pow2_size (io_regions d ! i)" "rg_size (io_regions d ! i) \<noteq> 0 \<longrightarrow> map_entry (io_regions d ! i) \<in> Some ` fns"
  using assms nth_mem [of i "io_regions d"] by (auto simp: regions_wf_def)

section \<open>Updating the maps\<close>

text \<open>The device after the first \<open>k\<close> rounds of the loop of \<^verbatim>\<open>pci_update_mappings\<close>.\<close>

definition moved_region :: "pci_device \<Rightarrow> nat \<Rightarrow> pci_io_region" where
  "moved_region d i = (let r = io_regions d ! i in if rg_size r = 0 then r else r\<lparr>rg_addr := region_new_addr d i\<rparr>)"

definition moved :: "nat \<Rightarrow> pci_device \<Rightarrow> pci_device" where
  "moved k d = d\<lparr>io_regions := map (\<lambda>i. if i < k then moved_region d i else io_regions d ! i) [0..<PCI_NUM_REGIONS]\<rparr>"

lemma region_new_addr_cong:
  assumes "config d' = config d" "rg_size (io_regions d' ! i) = rg_size (io_regions d ! i)"
    "rg_type (io_regions d' ! i) = rg_type (io_regions d ! i)"
  shows "region_new_addr d' i = region_new_addr d i" and "decoded d' i = decoded d i"
  unfolding region_new_addr_def decoded_def Let_def assms by (rule refl)+

lemma moved_simps:
  "config (moved k d) = config d" "length (io_regions (moved k d)) = PCI_NUM_REGIONS"
  "i < PCI_NUM_REGIONS \<Longrightarrow> io_regions (moved k d) ! i = (if i < k then moved_region d i else io_regions d ! i)"
  by (simp_all add: moved_def)

lemma moved_0: "length (io_regions d) = PCI_NUM_REGIONS \<Longrightarrow> moved 0 d = d"
  using map_nth [of "io_regions d"] by (simp add: moved_def)

lemma moved_region_simps:
  "rg_size (moved_region d i) = rg_size (io_regions d ! i)" "rg_type (moved_region d i) = rg_type (io_regions d ! i)"
  "rg_map_func (moved_region d i) = rg_map_func (io_regions d ! i)"
  by (simp_all add: moved_region_def Let_def)

lemma moved_new_addr:
  assumes "i < PCI_NUM_REGIONS"
  shows "region_new_addr (moved k d) i = region_new_addr d i" and "decoded (moved k d) i = decoded d i"
  using region_new_addr_cong [of "moved k d" d i] assms by (simp_all add: moved_simps moved_region_simps)

lemma moved_Suc:
  assumes "k < PCI_NUM_REGIONS"
  shows "moved (Suc k) d = (if rg_size (io_regions d ! k) = 0 \<or> region_new_addr d k = rg_addr (io_regions d ! k)
    then moved k d else set_region_addr k (region_new_addr d k) (moved k d))"
proof -
  have "io_regions (moved (Suc k) d) ! i = io_regions (if rg_size (io_regions d ! k) = 0
      \<or> region_new_addr d k = rg_addr (io_regions d ! k)
      then moved k d else set_region_addr k (region_new_addr d k) (moved k d)) ! i" if "i < PCI_NUM_REGIONS" for i
    using assms that by (auto simp: moved_simps moved_region_def set_region_addr_def Let_def nth_list_update less_Suc_eq)
  then have "io_regions (moved (Suc k) d) = io_regions (if rg_size (io_regions d ! k) = 0
      \<or> region_new_addr d k = rg_addr (io_regions d ! k)
      then moved k d else set_region_addr k (region_new_addr d k) (moved k d))"
    by (intro nth_equalityI) (auto simp: moved_simps set_region_addr_def)
  then show ?thesis by (auto simp: moved_def set_region_addr_def)
qed

lemma moved_wf: "regions_wf fns d \<Longrightarrow> regions_wf fns (moved k d)"
  using regions_wf_nth [of fns d] unfolding regions_wf_def all_set_conv_all_nth
  by (simp add: moved_simps moved_region_simps pow2_size_def map_entry_def)

lemma moved_synced:
  assumes "regions_wf fns d"
  shows "synced fns (moved PCI_NUM_REGIONS d)"
  unfolding synced_def
proof (intro conjI allI impI)
  show "regions_wf fns (moved PCI_NUM_REGIONS d)" by (rule moved_wf [OF assms])
  fix i assume i: "i < PCI_NUM_REGIONS" and "rg_size (io_regions (moved PCI_NUM_REGIONS d) ! i) \<noteq> 0"
  then show "rg_addr (io_regions (moved PCI_NUM_REGIONS d) ! i)
      = (case decoded (moved PCI_NUM_REGIONS d) i of Some a \<Rightarrow> a | None \<Rightarrow> UNMAPPED)"
    using region_new_addr_decoded [of d i] regions_wf_nth(1) [OF assms i]
    by (simp add: moved_simps moved_new_addr moved_region_def Let_def split: if_splits)
qed

lemma update_region_moved:
  assumes "k < PCI_NUM_REGIONS" "update_region c k (moved k d, m) = Inr (d', m')"
  shows "d' = moved (Suc k) d"
  using assms unfolding update_region_def moved_Suc [OF assms(1)]
  by (auto simp: Let_def moved_simps moved_new_addr res_bind_Inr_iff split: if_splits option.splits)

lemma update_rounds_moved:
  assumes "length (io_regions d) = PCI_NUM_REGIONS"
  shows "k \<le> PCI_NUM_REGIONS \<Longrightarrow> res_fold (update_region c) [0..<k] (d, m) = Inr (d', m') \<Longrightarrow> d' = moved k d"
proof (induction k arbitrary: d' m')
  case 0
  then show ?case using moved_0 [OF assms] by simp
next
  case (Suc k)
  from Suc.prems obtain d1 m1 where 1: "res_fold (update_region c) [0..<k] (d, m) = Inr (d1, m1)"
    "update_region c k (d1, m1) = Inr (d', m')"
    by (auto simp: res_fold_append res_bind_Inr_iff)
  with Suc.IH Suc.prems(1) have "d1 = moved k d" by simp
  with 1 Suc.prems(1) show ?case by (auto intro: update_region_moved)
qed

lemma update_mappings_moved:
  assumes "length (io_regions d) = PCI_NUM_REGIONS" "pci_update_mappings c d m = Inr (d', m')"
  shows "d' = moved PCI_NUM_REGIONS d"
  using update_rounds_moved [OF assms(1), of PCI_NUM_REGIONS c m d' m'] assms(2) by (simp add: pci_update_mappings_def)

definition region_ok :: "pci_io_region \<Rightarrow> bool" where
  "region_ok r \<longleftrightarrow> rg_addr r = UNMAPPED \<or> (bit (rg_type r) 0 \<longrightarrow> unat (rg_addr r) + unat (rg_size r) \<le> 0x10000)"

definition regions_ok :: "(nat \<times> u8) set \<Rightarrow> pci_device \<Rightarrow> bool" where
  "regions_ok fns d \<longleftrightarrow> regions_wf fns d \<and> (\<forall>r \<in> set (io_regions d). rg_size r \<noteq> 0 \<longrightarrow> region_ok r)"

lemma decoded_ports: "decoded d i = Some a \<Longrightarrow> bit (rg_type (io_regions d ! i)) 0 \<Longrightarrow>
    unat a + unat (rg_size (io_regions d ! i)) \<le> 0x10000"
  by (auto simp: decoded_def Let_def split: if_splits)

lemma synced_regions_ok: "synced fns d \<Longrightarrow> regions_ok fns d"
proof -
  assume s: "synced fns d"
  then have l: "length (io_regions d) = PCI_NUM_REGIONS" by (simp add: synced_def regions_wf_def)
  have "region_ok (io_regions d ! i)" if "i < PCI_NUM_REGIONS" "rg_size (io_regions d ! i) \<noteq> 0" for i
    using s that decoded_ports [of d i] by (auto simp: synced_def region_ok_def split: option.splits)
  with s l show ?thesis unfolding regions_ok_def all_set_conv_all_nth by (simp add: synced_def)
qed

lemma sint_port: "unat w \<le> 0x10000 \<Longrightarrow> sint w = int (unat w)" for w :: u32
proof -
  assume "unat w \<le> 0x10000"
  then have "int (unat w) < 2 ^ 31" by (rule le_less_trans [OF of_nat_mono]) simp
  then have "uint w < 2 ^ 31" by (simp only: uint_nat)
  then show ?thesis using sint_small_u32 [of w] uint_nat [of w] by presburger
qed

lemma unmap_ports:
  assumes "bit (rg_type r) 0" "unat (rg_addr r) + unat (rg_size r) \<le> 0x10000"
  shows "\<exists>start len. unmap_region c d r m = isa_unassign_ioport start len m \<and> 0 \<le> start \<and> start + len \<le> 65536"
proof (cases "dev_class d = 0x0101 \<and> rg_size r = 4")
  case True
  then have 4: "unat (rg_size r) = 4" by simp
  have "unat (rg_addr r + 2) = unat (rg_addr r) + 2" using assms(2) 4 by (simp add: unat_word_ariths)
  then have "sint (rg_addr r + 2) = int (unat (rg_addr r)) + 2" using assms(2) 4 sint_port [of "rg_addr r + 2"] by linarith
  then have "0 \<le> sint (rg_addr r + 2)" "sint (rg_addr r + 2) + 1 \<le> 65536" using assms(2) 4 by linarith+
  moreover have "unmap_region c d r m = isa_unassign_ioport (sint (rg_addr r + 2)) 1 m"
    using True assms(1) by (simp add: unmap_region_def and_1_2_bit)
  ultimately show ?thesis by blast
next
  case False
  have "sint (rg_addr r) = int (unat (rg_addr r))" "sint (rg_size r) = int (unat (rg_size r))"
    using assms(2) by (intro sint_port, linarith)+
  then have "0 \<le> sint (rg_addr r)" "sint (rg_addr r) + sint (rg_size r) \<le> 65536" using assms(2) by linarith+
  moreover have "unmap_region c d r m = isa_unassign_ioport (sint (rg_addr r)) (sint (rg_size r)) m"
    using False assms(1) by (auto simp: unmap_region_def and_1_2_bit)
  ultimately show ?thesis by blast
qed

lemma unassign_total: "0 \<le> start \<Longrightarrow> start + len \<le> 65536 \<Longrightarrow> \<exists>m'. isa_unassign_ioport start len m = Inr m'"
  by (simp add: isa_unassign_ioport_def unassign_loop_ok)

lemma register_memory_ends: "ends {Exit (- 1)} (\<lambda>_. True) (cpu_register_physical_memory a sz ph m)"
  by (simp add: cpu_register_physical_memory_def Let_def)

section \<open>Writes to configuration space\<close>

lemma can_write_header: "\<not> can_write h 0x0e"
  by (simp add: can_write_def)

lemma write_bytes_keeps:
  "write_config_bytes n a val cf = Inr cf' \<Longrightarrow> \<not> can_write (cf 0x0e) b \<or> b < a \<or> a + n \<le> b \<Longrightarrow> cf' b = cf b"
proof (induction n a val cf arbitrary: cf' rule: write_config_bytes.induct)
  case (2 n a val cf)
  let ?v = "if can_write (cf 0x0e) a then val AND NOT (reserved_mask a) else val"
  let ?cf = "if can_write (cf 0x0e) a then cf(a := ucast ?v) else cf"
  have h: "?cf 0x0e = cf 0x0e" using can_write_header by auto
  have "?cf b = cf b" using 2(3) by auto
  moreover have "cf' b = ?cf b"
  proof (cases "a + 1 > 0xff")
    case True
    then show ?thesis using 2(2) by (auto simp: Let_def split: if_splits)
  next
    case False
    then have "write_config_bytes n (a + 1) (drop_bit 8 ?v) ?cf = Inr cf'" and ok: "\<not> (can_write (cf 0x0e) a \<and> PCI_CONFIG_BYTES \<le> a)"
      using 2(2) unfolding write_config_bytes.simps Let_def by (auto split: if_splits)
    note ih = 2(1) [OF refl refl ok refl False this(1)]
    have "\<not> can_write (?cf 0x0e) b \<or> b < a + 1 \<or> a + 1 + n \<le> b" unfolding h using 2(3) by auto
    from ih [OF this] show ?thesis .
  qed
  ultimately show ?case by simp
qed simp

lemma write_bytes_total: "a \<le> 0xff \<Longrightarrow> \<exists>cf'. write_config_bytes n a val cf = Inr cf'"
proof (induction n arbitrary: a val cf)
  case (Suc n)
  show ?case
  proof (cases "a + 1 > 0xff")
    case False
    then have "a + 1 \<le> 0xff" by simp
    from Suc.IH [OF this] False show ?thesis by (simp add: Let_def)
  qed (use Suc.prems in \<open>simp add: Let_def\<close>)
qed simp

text \<open>The registers that identify a function: no write reaches them.\<close>

definition read_only :: "nat set" where
  "read_only = {0x00..0x03} \<union> {0x06..0x0b} \<union> {0x0e} \<union> {0x2c..0x2f} \<union> {0x3d}"

definition same_function :: "pci_device \<Rightarrow> pci_device \<Rightarrow> bool" where
  "same_function d d' \<longleftrightarrow> (\<forall>a \<in> read_only. config d' a = config d a)
     \<and> map (\<lambda>r. (rg_size r, rg_type r, rg_map_func r)) (io_regions d') = map (\<lambda>r. (rg_size r, rg_type r, rg_map_func r)) (io_regions d)
     \<and> d'\<lparr>config := config d, io_regions := io_regions d\<rparr> = d"

definition type0 :: "pci_device \<Rightarrow> bool" where
  "type0 d \<longleftrightarrow> config d 0x0e = 0x00 \<or> config d 0x0e = 0x80"

lemma read_only_can_write: "a \<in> read_only \<Longrightarrow> \<not> can_write h a"
proof -
  assume "a \<in> read_only"
  then have "a \<in> {0x00, 0x01, 0x02, 0x03, 0x06, 0x07, 0x08, 0x09, 0x0a, 0x0b, 0x0e, 0x3d} \<or> 0x2c \<le> a \<and> a \<le> 0x2f"
    unfolding read_only_def Un_iff atLeastAtMost_iff insert_iff empty_iff by presburger
  then show ?thesis unfolding can_write_def by simp
qed

lemma same_function_refl: "same_function d d"
  by (simp add: same_function_def)

lemma same_function_trans:
  assumes "same_function d d'" "same_function d' d''"
  shows "same_function d d''"
proof -
  have "d''\<lparr>config := config d, io_regions := io_regions d\<rparr>
      = (d''\<lparr>config := config d', io_regions := io_regions d'\<rparr>)\<lparr>config := config d, io_regions := io_regions d\<rparr>" by simp
  also have "\<dots> = d" using assms by (simp only: same_function_def)
  finally show ?thesis using assms unfolding same_function_def by simp
qed

lemma same_function_config: "(\<And>a. a \<in> read_only \<Longrightarrow> cf a = config d a) \<Longrightarrow> same_function d (d\<lparr>config := cf\<rparr>)"
  by (simp add: same_function_def)

lemma same_function_moved: "length (io_regions d) = PCI_NUM_REGIONS \<Longrightarrow> same_function d (moved k d)"
  unfolding same_function_def
  by (intro conjI nth_equalityI) (auto simp: moved_simps moved_region_simps moved_def)

lemma same_function_type0: "same_function d d' \<Longrightarrow> type0 d' = type0 d"
  by (simp add: same_function_def type0_def read_only_def)

lemma put_le32_other: "b < a \<or> a + 4 \<le> b \<Longrightarrow> put_le32 a v cf b = cf b"
  by (auto simp: put_le32_def)

lemma regions_ok_config [simp]: "regions_ok fns (d\<lparr>config := cf\<rparr>) = regions_ok fns d" "regions_wf fns (d\<lparr>config := cf\<rparr>) = regions_wf fns d"
  by (simp_all add: regions_ok_def regions_wf_def)

text \<open>Bytes outside the command register and the base address registers do not move a region.\<close>

lemma synced_config:
  assumes "synced fns d" "\<And>a. a \<in> {4, 5} \<union> {0x10..0x27} \<union> {0x30..0x33} \<Longrightarrow> cf a = config d a"
  shows "synced fns (d\<lparr>config := cf\<rparr>)"
proof -
  have "decoded (d\<lparr>config := cf\<rparr>) i = decoded d i" if "i < PCI_NUM_REGIONS" for i
  proof -
    have b: "cf (bar_ofs i + j) = config d (bar_ofs i + j)" if "j < 4" for j
      by (rule assms(2)) (use \<open>i < PCI_NUM_REGIONS\<close> that in \<open>auto simp: bar_ofs_def\<close>)
    then have "le32_at cf (bar_ofs i) = le32_at (config d) (bar_ofs i)"
      using b [of 0] b [of 1] b [of 2] b [of 3] by (simp add: le32_at_def del: One_nat_def)
    moreover have "le16_at cf PCI_COMMAND = le16_at (config d) PCI_COMMAND"
      using assms(2) [of 4] assms(2) [of 5] by (simp add: le16_at_def)
    ultimately show ?thesis by (simp add: decoded_def)
  qed
  then show ?thesis using assms(1) by (simp add: synced_def)
qed

lemma bar_write_range:
  assumes "bar_write address len = Some reg"
  shows "reg < PCI_NUM_REGIONS" "0x10 \<le> unat address" "unat address \<le> 0x27 \<or> 0x30 \<le> unat address \<and> unat address \<le> 0x33" "len = 4"
proof -
  have a: "address \<ge> 0x10 \<and> address < 0x28 \<or> address \<ge> 0x30 \<and> address < 0x34" "len = 4"
    "reg = (if address \<ge> 0x30 then PCI_ROM_SLOT else unat (drop_bit 2 (address - 0x10)))"
    using assms by (auto simp: bar_write_def split: if_splits)
  then show "len = 4" "0x10 \<le> unat address" "unat address \<le> 0x27 \<or> 0x30 \<le> unat address \<and> unat address \<le> 0x33"
    by (auto simp: word_le_nat_alt word_less_nat_alt)
  have "unat (address - 0x10) < 28" if "\<not> address \<ge> 0x30"
    using a(1) that by (auto simp: word_le_nat_alt word_less_nat_alt unat_sub_if')
  then have "unat (drop_bit 2 (address - 0x10)) < 7" if "\<not> address \<ge> 0x30"
    using that by (simp add: drop_bit_eq_div unat_div)
  then show "reg < PCI_NUM_REGIONS" using a(3) by simp
qed

text \<open>
  What \<^verbatim>\<open>hw/pci.c\<close> relies on when it moves a region: a map function, given a range of existing ports or a range of memory, returns or ends the process in one of the ways \<open>E\<close>;
  a full table of memory regions is one of them.
\<close>

locale region_mapper =
  fixes c :: "('a mem_bus_scheme, 'c) pci_code_scheme"
    and E :: "dm_error set"
    and okm :: "'a mem_bus_scheme \<Rightarrow> bool"
    and fns :: "(nat \<times> u8) set"
  assumes map_ends: "(fn, t) \<in> fns \<Longrightarrow> okm m \<Longrightarrow> (bit t 0 \<longrightarrow> unat a + unat sz \<le> 0x10000) \<Longrightarrow> ends E okm (call_map_region c fn d i a sz t m)"
    and unassign_ok: "okm m \<Longrightarrow> isa_unassign_ioport start len m = Inr m' \<Longrightarrow> okm m'"
    and register_ok: "okm m \<Longrightarrow> cpu_register_physical_memory addr sz64 IO_MEM_UNASSIGNED m = Inr m' \<Longrightarrow> okm m'"
    and table_full: "Exit (- 1) \<in> E"
begin

lemma register_ends: "okm m \<Longrightarrow> ends E okm (cpu_register_physical_memory a sz IO_MEM_UNASSIGNED m)"
  using register_memory_ends [of a sz IO_MEM_UNASSIGNED m] register_ok [of m a sz] table_full
  by (cases "cpu_register_physical_memory a sz IO_MEM_UNASSIGNED m") auto

lemma unassign_ends: "okm m \<Longrightarrow> 0 \<le> start \<Longrightarrow> start + len \<le> 65536 \<Longrightarrow> ends E okm (isa_unassign_ioport start len m)"
  using unassign_total [of start len m] unassign_ok [of m start len] by auto

lemma unmap_ends:
  assumes "okm m" "region_ok r" "rg_addr r \<noteq> UNMAPPED"
  shows "ends E okm (unmap_region c d r m)"
proof (cases "bit (rg_type r) 0")
  case True
  then show ?thesis using unmap_ports [of r c d m] unassign_ends [OF assms(1)] assms(2,3) by (auto simp: region_ok_def)
next
  case False
  then show ?thesis using register_ends [OF assms(1)] by (simp add: unmap_region_def and_1_2_bit)
qed

lemma update_region_ends:
  assumes "okm m" "k < PCI_NUM_REGIONS" "regions_ok fns d"
  shows "ends E (\<lambda>(d', m'). d' = moved (Suc k) d \<and> okm m') (update_region c k (moved k d, m))"
proof -
  let ?r = "io_regions d ! k" and ?a = "region_new_addr d k"
  have r: "rg_size ?r \<noteq> 0 \<Longrightarrow> region_ok ?r" "rg_size ?r \<noteq> 0 \<Longrightarrow> map_entry ?r \<in> Some ` fns" "pow2_size ?r"
    using assms(2,3) nth_mem [of k "io_regions d"] unfolding regions_ok_def regions_wf_def by auto
  have rng: "unat ?a + unat (rg_size ?r) \<le> 0x10000" if "bit (rg_type ?r) 0" "rg_size ?r \<noteq> 0" "?a \<noteq> UNMAPPED"
    using region_new_addr_decoded [OF that(2) r(3)] that decoded_ports [of d k] by (auto split: option.splits)
  have "ends E (\<lambda>(d', m'). okm m') (update_region c k (moved k d, m))"
    using r unmap_ends [OF assms(1)] assms(1,2) rng
    by (auto simp: update_region_def moved_simps moved_new_addr Let_def map_entry_def
        intro!: ends_bind [of E okm] ends_bind [of E okm "call_map_region c _ _ _ _ _ _ _"] map_ends)
  then show ?thesis by (rule ends_conj) (auto dest: update_region_moved [OF assms(2)])
qed

lemma update_mappings_ends:
  assumes "okm m" "regions_ok fns d"
  shows "ends E (\<lambda>(d', m'). d' = moved PCI_NUM_REGIONS d \<and> okm m') (pci_update_mappings c d m)"
proof -
  have l: "length (io_regions d) = PCI_NUM_REGIONS" using assms(2) by (simp add: regions_ok_def regions_wf_def)
  have "k \<le> PCI_NUM_REGIONS \<Longrightarrow> ends E (\<lambda>(d', m'). d' = moved k d \<and> okm m') (res_fold (update_region c) [0..<k] (d, m))" for k
  proof (induction k)
    case 0
    then show ?case using moved_0 [OF l] assms(1) by simp
  next
    case (Suc k)
    then show ?case using update_region_ends [OF _ _ assms(2), of _ k]
      by (auto simp: res_fold_append intro!: ends_bind [of E "\<lambda>(d', m'). d' = moved k d \<and> okm m'"])
  qed
  then show ?thesis by (simp add: pci_update_mappings_def)
qed

lemma update_config_ends:
  assumes "okm m" "regions_ok fns d" "\<And>a. a \<in> read_only \<Longrightarrow> cf a = config d a"
  shows "ends E (\<lambda>(d', m'). okm m' \<and> synced fns d' \<and> same_function d d' \<and> d' = moved PCI_NUM_REGIONS (d\<lparr>config := cf\<rparr>))
    (pci_update_mappings c (d\<lparr>config := cf\<rparr>) m)"
proof -
  have w: "regions_wf fns (d\<lparr>config := cf\<rparr>)" using assms(2) by (simp add: regions_ok_def)
  have "same_function d (moved PCI_NUM_REGIONS (d\<lparr>config := cf\<rparr>))"
    using same_function_moved [of "d\<lparr>config := cf\<rparr>" PCI_NUM_REGIONS] w
    by (intro same_function_trans [OF same_function_config [OF assms(3)]]) (simp_all add: regions_wf_def)
  then show ?thesis using moved_synced [OF w] assms(1,2)
    by (intro ends_mono [OF update_mappings_ends]) auto
qed

lemma default_ends:
  assumes "okm m" "synced fns d" "type0 d" "address < 0x100" "len \<le> 4"
  shows "ends E (\<lambda>(d', m'). okm m' \<and> synced fns d' \<and> same_function d d') (write_config_default c d address val len m)"
proof -
  have a: "unat address \<le> 0xff" using assms(4) by (simp add: word_less_nat_alt)
  then obtain cf where cf: "write_config_bytes len (unat address) val (config d) = Inr cf"
    using write_bytes_total by blast
  have ro: "cf b = config d b" if "b \<in> read_only" for b
    using write_bytes_keeps [OF cf] read_only_can_write [OF that] by blast
  have "unat (address + of_nat len) = unat address + len" using a assms(5) by (simp add: unat_word_ariths unat_of_nat)
  then have cmd: "address + of_nat len > 4 \<and> address < 6 \<longleftrightarrow> 4 < unat address + len \<and> unat address < 6"
    by (simp add: word_less_nat_alt)
  show ?thesis
  proof (cases "address + of_nat len > 4 \<and> address < 6")
    case True
    with cf show ?thesis
      by (auto simp: write_config_default_def intro!: ends_mono [OF update_config_ends [OF assms(1) synced_regions_ok [OF assms(2)] ro]])
  next
    case False
    have "cf b = config d b" if "b \<in> {4, 5} \<union> {0x10..0x27} \<union> {0x30..0x33}" for b
    proof (rule write_bytes_keeps [OF cf])
      have "can_write (config d 0x0e) b \<Longrightarrow> b = 4 \<or> b = 5" using that assms(3) by (auto simp: can_write_def type0_def)
      then show "\<not> can_write (config d 0x0e) b \<or> b < unat address \<or> unat address + len \<le> b"
        using False unfolding cmd by linarith
    qed
    then have "synced fns (d\<lparr>config := cf\<rparr>)" by (intro synced_config [OF assms(2)])
    then show ?thesis using cf False assms(1) same_function_config [of cf d, OF ro]
      by (auto simp: write_config_default_def Let_def)
  qed
qed

lemma write_config_ends:
  assumes "okm m" "synced fns d" "type0 d" "address < 0x100" "len \<le> 4"
  shows "ends E (\<lambda>(d', m'). okm m' \<and> synced fns d' \<and> same_function d d') (pci_default_write_config c d address val len m)"
proof (cases "\<exists>reg. bar_write address len = Some reg \<and> rg_size (io_regions d ! reg) \<noteq> 0")
  case True
  then obtain reg where reg: "bar_write address len = Some reg" "rg_size (io_regions d ! reg) \<noteq> 0" by blast
  let ?cf = "put_le32 (unat address) (bar_value reg (io_regions d ! reg) val) (config d)"
  have cf: "?cf b = config d b" if "b \<in> read_only" for b
    using that bar_write_range [OF reg(1)] by (intro put_le32_other) (auto simp: read_only_def)
  have "ends E (\<lambda>(d', m'). okm m' \<and> synced fns d' \<and> same_function d d') (pci_update_mappings c (d\<lparr>config := ?cf\<rparr>) m)"
    by (rule ends_mono [OF update_config_ends [OF assms(1) synced_regions_ok [OF assms(2)] cf]]) auto
  moreover have "pci_default_write_config c d address val len m = pci_update_mappings c (d\<lparr>config := ?cf\<rparr>) m"
    using reg by (simp add: pci_default_write_config_def)
  ultimately show ?thesis by (simp only:)
next
  case False
  then show ?thesis using default_ends [OF assms] by (auto simp: pci_default_write_config_def Let_def split: option.split)
qed

lemma write_sequence_ends:
  assumes "okm m" "synced fns d" "type0 d" "\<And>a v n. (a, v, n) \<in> set ws \<Longrightarrow> a < 0x100 \<and> n \<le> 4"
  shows "ends E (\<lambda>(d', m'). okm m' \<and> synced fns d' \<and> same_function d d')
    (res_fold (\<lambda>(a, v, n) (d, m). pci_default_write_config c d a v n m) ws (d, m))"
proof (rule ends_mono [OF ends_fold [where P = "\<lambda>(d', m'). okm m' \<and> synced fns d' \<and> type0 d' \<and> same_function d d'"]])
  fix w dm assume w: "w \<in> set ws" and dm: "case dm of (d', m') \<Rightarrow> okm m' \<and> synced fns d' \<and> type0 d' \<and> same_function d d'"
  obtain a v n where e: "w = (a, v, n)" by (cases w) auto
  obtain d1 m1 where e1: "dm = (d1, m1)" by (cases dm)
  have "ends E (\<lambda>(d', m'). okm m' \<and> synced fns d' \<and> same_function d1 d') (pci_default_write_config c d1 a v n m1)"
    using dm w assms(4) by (intro write_config_ends) (auto simp: e e1)
  then have "ends E (\<lambda>(d', m'). okm m' \<and> synced fns d' \<and> type0 d' \<and> same_function d d') (pci_default_write_config c d1 a v n m1)"
    by (rule ends_mono) (use dm in \<open>auto simp: e1 same_function_type0 intro: same_function_trans\<close>)
  then show "ends E (\<lambda>(d', m'). okm m' \<and> synced fns d' \<and> type0 d' \<and> same_function d d')
      ((\<lambda>(a, v, n) (d, m). pci_default_write_config c d a v n m) w dm)" by (simp add: e e1)
qed (use assms same_function_refl in auto)

end

section \<open>Properties\<close>

lemma mapperI:
  assumes "Exit (- 1) \<in> E" "\<forall>(fn, t)\<in>fns. \<forall>d i a sz m. (bit t 0 \<longrightarrow> unat a + unat sz \<le> 0x10000) \<longrightarrow> ends E (\<lambda>_. True) (call_map_region c fn d i a sz t m)"
  shows "region_mapper c E (\<lambda>_. True) fns"
  using assms by unfold_locales auto

text \<open>C25: For every sequence of guest writes to the configuration space of an ordinary function, whatever their addresses,
  widths and values, every region of the function ends up exactly where the command register and its base address
  register put it (enabled, naturally aligned, without wrapping around, ports below 64K), and the registers that identify the
  function never change. The only ways not to return are those of the function's own mapping callbacks and a full table of memory regions.\<close>

theorem pci_mappings_follow_config:
  fixes c :: "('a mem_bus_scheme, 'c) pci_code_scheme"
  assumes "Exit (- 1) \<in> E" "\<forall>(fn, t)\<in>fns. \<forall>d i a sz m. (bit t 0 \<longrightarrow> unat a + unat sz \<le> 0x10000) \<longrightarrow> ends E (\<lambda>_. True) (call_map_region c fn d i a sz t m)"
    and "synced fns d" "type0 d" "\<forall>(a, v, n) \<in> set ws. a < 0x100 \<and> n \<le> 4"
  shows "ends E (\<lambda>(d', m'). (\<forall>i < PCI_NUM_REGIONS. rg_size (io_regions d' ! i) \<noteq> 0 \<longrightarrow>
         rg_addr (io_regions d' ! i) = (case decoded d' i of Some a \<Rightarrow> a | None \<Rightarrow> UNMAPPED))
       \<and> (\<forall>a \<in> {0x00..0x03} \<union> {0x06..0x0b} \<union> {0x0e} \<union> {0x2c..0x2f} \<union> {0x3d}. config d' a = config d a))
    (res_fold (\<lambda>(a, v, n) (d, m). pci_default_write_config c d a v n m) ws (d, m))"
proof (rule ends_mono [OF region_mapper.write_sequence_ends [OF mapperI [OF assms(1,2)] TrueI assms(3,4)]])
  show "a < 0x100 \<and> n \<le> 4" if "(a, v, n) \<in> set ws" for a v n using assms(5) that by blast
qed (auto simp: synced_def same_function_def read_only_def)

text \<open>A function with one port region of 16 bytes, as after power on.\<close>

definition sample_device :: "u32 \<Rightarrow> u8 \<Rightarrow> pci_device" where
  "sample_device sz t =
     \<lparr>config = (\<lambda>_. 0)(0x10 := t), dev_bus = 0, devfn = 8, dev_name = [],
      io_regions = \<lparr>rg_addr = UNMAPPED, rg_size = sz, rg_type = t, rg_map_func = Some 1\<rparr>
        # replicate 6 \<lparr>rg_addr = 0, rg_size = 0, rg_type = 0, rg_map_func = None\<rparr>,
      config_read = Pci_default_read, config_write = Pci_default_write, unregister = None, irq_state = (\<lambda>_. 0)\<rparr>"

lemma sample_device_synced:
  assumes "sz AND (sz - 1) = 0"
  shows "synced {(1, t)} (sample_device sz t)" "type0 (sample_device sz t)"
proof -
  have c: "le16_at (config (sample_device sz t)) 4 = 0" by (simp add: le16_at_def sample_device_def)
  have "decoded (sample_device sz t) i = None" for i
    unfolding decoded_def c by (simp add: Let_def)
  moreover have "i = 0 \<or> rg_size (io_regions (sample_device sz t) ! i) = 0" if "i < 7" for i
    using that by (cases i) (auto simp: sample_device_def)
  moreover have "rg_addr (io_regions (sample_device sz t) ! 0) = - 1" by (simp add: sample_device_def)
  moreover have "regions_wf {(1, t)} (sample_device sz t)"
    using assms by (simp add: regions_wf_def sample_device_def pow2_size_def map_entry_def)
  ultimately show "synced {(1, t)} (sample_device sz t)" unfolding synced_def by (metis option.case(1))
  show "type0 (sample_device sz t)" by (simp add: type0_def sample_device_def)
qed

definition plain_map :: "mem_bus pci_code" where
  "plain_map = \<lparr>call_map_region = (\<lambda>fn d i a sz t m. cpu_register_physical_memory (ucast a) (ucast sz) 8 m),
     call_map_irq = (\<lambda>fn d n. n), call_set_irq = (\<lambda>fn op n l m. Inr m),
     call_config_read = (\<lambda>fn d a n m. Inl Bad_access), call_config_write = (\<lambda>fn d a v n m. Inl Bad_access),
     call_unregister = (\<lambda>fn d m. Inr (0, m)), hvm_set_pci_link_route = (\<lambda>l v m. m), pci_mem_base = 0\<rparr>"

lemma plain_map_ends: "ends {Exit (- 1)} (\<lambda>_. True) (call_map_region plain_map fn d i a sz t m)"
  by (simp add: plain_map_def register_memory_ends)

theorem pci_mappings_follow_config_witness:
  "ends {Exit (- 1)} (\<lambda>(d', m'). (\<forall>i < 7. rg_size (io_regions d' ! i) \<noteq> 0 \<longrightarrow>
         rg_addr (io_regions d' ! i) = (case decoded d' i of Some a \<Rightarrow> a | None \<Rightarrow> UNMAPPED))
       \<and> (\<forall>a \<in> {0x00..0x03} \<union> {0x06..0x0b} \<union> {0x0e} \<union> {0x2c..0x2f} \<union> {0x3d}. config d' a = config (sample_device 16 0) a))
    (res_fold (\<lambda>(a, v, n) (d, m). pci_default_write_config plain_map d a v n m)
       [(0x10, 0xffffffff, 4), (0x10, 0xf3000000, 4), (4, 2, 2)]
       (sample_device 16 0, \<lparr>ioport_table = (\<lambda>_. None), mmio = [], io_mem_read = (\<lambda>_ _. None), io_mem_write = (\<lambda>_ _. None),
          io_mem_opaque = (\<lambda>_. 0), io_mem_used = (\<lambda>_. False), ram = (\<lambda>_. 0), ram_page = (\<lambda>_. False),
          xen_logdirty_enable = False, modified = []\<rparr>))"
  by (rule pci_mappings_follow_config [of "{Exit (- 1)}" "{(1, 0)}"])
    (auto intro: plain_map_ends sample_device_synced simp del: One_nat_def)

lemma le32_put: "le32_at (put_le32 a v cf) a = v"
  by (simp add: le32_at_def put_le32_def be32_join del: One_nat_def)

lemma le32_put_other: "b + 4 \<le> a \<or> a + 4 \<le> b \<Longrightarrow> le32_at (put_le32 a v cf) b = le32_at cf b"
  by (auto simp: le32_at_def put_le32_def)

lemma bar_ofs_word:
  assumes "i < PCI_NUM_REGIONS"
  shows "unat (of_nat (bar_ofs i) :: u32) = bar_ofs i" "bar_write (of_nat (bar_ofs i)) 4 = Some i" "(of_nat (bar_ofs i) :: u32) \<le> 0xfc"
proof -
  have "i \<in> {0, 1, 2, 3, 4, 5, 6}" using assms by auto
  then show "unat (of_nat (bar_ofs i) :: u32) = bar_ofs i" "bar_write (of_nat (bar_ofs i)) 4 = Some i" "(of_nat (bar_ofs i) :: u32) \<le> 0xfc"
    by (elim insertE emptyE; simp add: bar_ofs_def bar_write_def drop_bit_eq_div)+
qed

lemma bar_ofs_apart: "i < PCI_NUM_REGIONS \<Longrightarrow> j < PCI_NUM_REGIONS \<Longrightarrow> i \<noteq> j \<Longrightarrow> bar_ofs j + 4 \<le> bar_ofs i \<or> bar_ofs i + 4 \<le> bar_ofs j"
  by (auto simp: bar_ofs_def)

text \<open>All ones in a base address register decode to no mapping.\<close>

lemma all_ones_undecoded:
  assumes "rg_size (io_regions d ! i) \<noteq> 0" "pow2_size (io_regions d ! i)" "i < PCI_ROM_SLOT"
    and "le32_at (config d) (bar_ofs i) = bar_value i (io_regions d ! i) (- 1)"
  shows "decoded d i = None"
proof -
  obtain k where k: "k < 32" "rg_size (io_regions d ! i) = 2 ^ k"
    using pow2_sizeE assms(1,2) by (auto simp: pow2_size_def)
  let ?t = "ucast (rg_type (io_regions d ! i)) :: u32"
  have "bar_value i (io_regions d ! i) (- 1) AND NOT (2 ^ k - 1) = (- 1) AND NOT (2 ^ k - 1)"
    using assms(3) by (intro bit_word_eqI) (auto simp: bar_value_def k bit_simps simp flip: mask_eq_exp_minus_1)
  then have a: "unat (bar_value i (io_regions d ! i) (- 1) AND NOT (2 ^ k - 1)) = unat (- 1 :: u32) div 2 ^ k * 2 ^ k"
    using unat_round_down [OF k(1), of "- 1"] by simp
  have "unat (- 1 :: u32) div 2 ^ k * 2 ^ k + 2 ^ k = 2 ^ 32"
  proof -
    let ?q = "unat (- 1 :: u32) div 2 ^ k * 2 ^ k"
    have "unat (- 1 :: u32) < ?q + 2 ^ k"
    proof -
      have "unat (- 1 :: u32) mod 2 ^ k < 2 ^ k" by simp
      then show ?thesis using div_mult_mod_eq [of "unat (- 1 :: u32)" "2 ^ k"] by linarith
    qed
    moreover have "?q + 2 ^ k \<le> 2 ^ 32" using region_end(1) [OF k(1), of "- 1"] unat_round_down [OF k(1), of "- 1"] by simp
    ultimately show ?thesis using unat_all_ones by linarith
  qed
  then show ?thesis unfolding decoded_def Let_def assms(4) k(2) a unat_pow2 [OF k(1)] by simp
qed

text \<open>A guest finds the size of a region by writing its base address register and reading it back: the read returns the
  written value with the bits below the region size cleared and the space type in the low bits. No other region
  moves. While the register holds all ones the region is not mapped, and the bits of the value read back give its size.\<close>

theorem pci_bar_readback:
  fixes c :: "('a mem_bus_scheme, 'c) pci_code_scheme"
  assumes "Exit (- 1) \<in> E" "\<forall>(fn, t)\<in>fns. \<forall>d i a sz m. (bit t 0 \<longrightarrow> unat a + unat sz \<le> 0x10000) \<longrightarrow> ends E (\<lambda>_. True) (call_map_region c fn d i a sz t m)"
    and "synced fns d" "i < PCI_ROM_SLOT" "rg_size (io_regions d ! i) \<noteq> 0"
  shows "ends E (\<lambda>(d', m').
       pci_default_read_config d' (of_nat (bar_ofs i)) 4
         = Inr ((v AND NOT (rg_size (io_regions d ! i) - 1)) OR ucast (rg_type (io_regions d ! i)))
     \<and> (\<forall>j < PCI_NUM_REGIONS. j \<noteq> i \<longrightarrow> io_regions d' ! j = io_regions d ! j)
     \<and> (v = - 1 \<longrightarrow> rg_addr (io_regions d' ! i) = UNMAPPED \<and> - (v AND NOT (rg_size (io_regions d ! i) - 1)) = rg_size (io_regions d ! i)))
    (pci_default_write_config c d (of_nat (bar_ofs i)) v 4 m)"
proof -
  define r where "r = io_regions d ! i"
  have i: "i < PCI_NUM_REGIONS" using assms(4) by simp
  note w = bar_ofs_word [OF i]
  define cf where "cf = put_le32 (bar_ofs i) (bar_value i r v) (config d)"
  define d1 where "d1 = d\<lparr>config := cf\<rparr>"
  have wf: "regions_wf fns d" using assms(3) by (simp add: synced_def)
  have e: "pci_default_write_config c d (of_nat (bar_ofs i)) v 4 m = pci_update_mappings c d1 m"
    using assms(5) w by (simp add: pci_default_write_config_def cf_def d1_def r_def)
  have ro: "cf b = config d b" if "b \<in> read_only" for b
    using that i unfolding cf_def by (intro put_le32_other) (auto simp: read_only_def bar_ofs_def)
  have "pci_default_read_config (moved 7 d1) (of_nat (bar_ofs i)) 4 = Inr (bar_value i r v)"
    using w by (simp add: pci_default_read_config_def moved_simps d1_def cf_def le32_put)
  then have rd: "pci_default_read_config (moved 7 d1) (of_nat (bar_ofs i)) 4 = Inr ((v AND NOT (rg_size r - 1)) OR ucast (rg_type r))"
    using assms(4) by (simp add: bar_value_def)
  have new: "region_new_addr d1 j = (case decoded d1 j of Some a \<Rightarrow> a | None \<Rightarrow> UNMAPPED)"
    if "j < PCI_NUM_REGIONS" "rg_size (io_regions d ! j) \<noteq> 0" for j
    using region_new_addr_decoded [of d1 j] regions_wf_nth(1) [OF wf that(1)] that by (simp add: d1_def)
  have "decoded d1 j = decoded d j" if "j < PCI_NUM_REGIONS" "j \<noteq> i" for j
  proof -
    have "le32_at cf (bar_ofs j) = le32_at (config d) (bar_ofs j)"
      unfolding cf_def using bar_ofs_apart [OF i that(1)] that by (intro le32_put_other) auto
    moreover have "le16_at cf 4 = le16_at (config d) 4"
      using put_le32_other [of _ "bar_ofs i" _ "config d"] by (simp add: cf_def le16_at_def bar_ofs_def)
    ultimately show ?thesis by (simp add: decoded_def d1_def)
  qed
  then have other: "io_regions (moved 7 d1) ! j = io_regions d ! j" if "j < PCI_NUM_REGIONS" "j \<noteq> i" for j
    using that new assms(3) by (auto simp: moved_simps moved_region_def Let_def synced_def d1_def)
  have ones: "rg_addr (io_regions (moved 7 d1) ! i) = UNMAPPED" if "v = - 1"
    using all_ones_undecoded [of d1 i] new [OF i] assms(4,5) regions_wf_nth(1) [OF wf i] that le32_put [of "bar_ofs i" "bar_value i r v" "config d"]
    by (simp add: moved_simps moved_region_def Let_def d1_def cf_def r_def)
  have sz: "- (v AND NOT (rg_size r - 1)) = rg_size r" if "v = - 1"
    using that by (simp add: not_eq_complement)
  have ok: "regions_ok fns d1" using synced_regions_ok [OF assms(3)] by (simp add: d1_def)
  have "ends E (\<lambda>(d', m'). d' = moved PCI_NUM_REGIONS d1 \<and> True) (pci_update_mappings c d1 m)"
    by (rule region_mapper.update_mappings_ends [OF mapperI [OF assms(1,2)] TrueI ok])
  then show ?thesis unfolding e r_def [symmetric]
  proof (rule ends_mono, clarify)
    show "pci_default_read_config (moved 7 d1) (of_nat (bar_ofs i)) 4 = Inr ((v AND NOT (rg_size r - 1)) OR ucast (rg_type r))
       \<and> (\<forall>j < PCI_NUM_REGIONS. j \<noteq> i \<longrightarrow> io_regions (moved 7 d1) ! j = io_regions d ! j)
       \<and> (v = - 1 \<longrightarrow> rg_addr (io_regions (moved 7 d1) ! i) = UNMAPPED \<and> - (v AND NOT (rg_size r - 1)) = rg_size r)"
      using rd other ones sz by blast
  qed
qed

theorem pci_bar_readback_witness:
  "ends {Exit (- 1)} (\<lambda>(d', m').
       pci_default_read_config d' 0x10 4 = Inr (0xfffff008)
     \<and> (\<forall>j < 7. j \<noteq> 0 \<longrightarrow> io_regions d' ! j = io_regions (sample_device 0x1000 8) ! j)
     \<and> rg_addr (io_regions d' ! 0) = UNMAPPED)
    (pci_default_write_config plain_map (sample_device 0x1000 8) 0x10 (- 1) 4
       \<lparr>ioport_table = (\<lambda>_. None), mmio = [], io_mem_read = (\<lambda>_ _. None), io_mem_write = (\<lambda>_ _. None),
          io_mem_opaque = (\<lambda>_. 0), io_mem_used = (\<lambda>_. False), ram = (\<lambda>_. 0), ram_page = (\<lambda>_. False),
          xen_logdirty_enable = False, modified = []\<rparr>)"
proof -
  let ?m = "\<lparr>ioport_table = (\<lambda>_. None), mmio = [], io_mem_read = (\<lambda>_ _. None), io_mem_write = (\<lambda>_ _. None),
          io_mem_opaque = (\<lambda>_. 0), io_mem_used = (\<lambda>_. False), ram = (\<lambda>_. 0), ram_page = (\<lambda>_. False),
          xen_logdirty_enable = False, modified = []\<rparr> :: mem_bus"
  have "synced {(1, 8)} (sample_device 0x1000 8)" by (rule sample_device_synced) simp
  moreover have r: "io_regions (sample_device 0x1000 8) ! 0 = \<lparr>rg_addr = - 1, rg_size = 0x1000, rg_type = 8, rg_map_func = Some 1\<rparr>"
    by (simp add: sample_device_def)
  moreover have "of_nat (bar_ofs 0) = (0x10 :: u32)" by (simp add: bar_ofs_def)
  ultimately have "ends {Exit (- 1)} (\<lambda>(d', m').
       pci_default_read_config d' 0x10 4 = Inr ((- 1 AND NOT (0x1000 - 1)) OR ucast (8 :: u8))
     \<and> (\<forall>j < 7. j \<noteq> 0 \<longrightarrow> io_regions d' ! j = io_regions (sample_device 0x1000 8) ! j)
     \<and> ((- 1 :: u32) = - 1 \<longrightarrow> rg_addr (io_regions d' ! 0) = UNMAPPED \<and> - (- 1 AND NOT (0x1000 - 1)) = (0x1000 :: u32)))
    (pci_default_write_config plain_map (sample_device 0x1000 8) 0x10 (- 1) 4 ?m)"
    using pci_bar_readback [of "{Exit (- 1)}" "{(1, 8)}" plain_map "sample_device 0x1000 8" 0 "- 1" ?m] plain_map_ends
    by (simp del: One_nat_def)
  then show ?thesis by (rule ends_mono) auto
qed

section \<open>Where unmapped memory goes\<close>

text \<open>A function with a single region: the loop has one round.\<close>

definition single_region :: "pci_device \<Rightarrow> bool" where
  "single_region d \<longleftrightarrow> length (io_regions d) = PCI_NUM_REGIONS \<and> (\<forall>j < PCI_NUM_REGIONS. 0 < j \<longrightarrow> rg_size (io_regions d ! j) = 0)"

lemma update_empty_regions:
  assumes "\<forall>j \<in> set js. rg_size (io_regions (fst dm) ! j) = 0"
  shows "res_fold (update_region c) js dm = Inr dm"
  using assms by (induction js) (auto simp: update_region_def split: prod.split)

lemma update_single:
  assumes "single_region d"
  shows "pci_update_mappings c d m = update_region c 0 (d, m)"
proof -
  have "[0..<PCI_NUM_REGIONS] = 0 # [1..<PCI_NUM_REGIONS]" by (simp add: upt_rec)
  then have "pci_update_mappings c d m = res_bind (update_region c 0 (d, m)) (res_fold (update_region c) [1..<PCI_NUM_REGIONS])"
    unfolding pci_update_mappings_def by (simp only: res_fold.simps)
  also have "\<dots> = res_bind (update_region c 0 (d, m)) Inr"
  proof (cases "update_region c 0 (d, m)")
    case (Inr dm)
    obtain d1 m1 where dm: "dm = (d1, m1)" by (cases dm)
    have "d1 = moved 1 d"
      using update_region_moved [of 0 c d m d1 m1] Inr dm assms moved_0 [of d] by (simp add: single_region_def)
    then have "res_fold (update_region c) [1..<PCI_NUM_REGIONS] dm = Inr dm"
      using assms by (intro update_empty_regions) (auto simp: dm single_region_def moved_simps)
    then show ?thesis by (simp add: Inr)
  qed simp
  finally show ?thesis by simp
qed

lemma command_write_zero:
  assumes "synced fns d"
  shows "pci_default_write_config c d 4 0 2 m = pci_update_mappings c (d\<lparr>config := (config d)(4 := 0, 5 := 0)\<rparr>) m"
proof -
  have "can_write h 4" "can_write h 5" for h by (simp_all add: can_write_def)
  then have "write_config_bytes 2 4 0 (config d) = Inr ((config d)(4 := 0, 5 := 0))"
    by (simp add: numeral_2_eq_2 Let_def fun_upd_def [symmetric])
  then show ?thesis by (simp add: pci_default_write_config_def bar_write_def write_config_default_def)
qed

text \<open>When a guest turns a memory region off, the addresses of the region are not released: they stay in the region table
  under handler row 2, which \<^verbatim>\<open>hw/pci.c\<close> takes for the row of unassigned memory. The device model never sets this
  row up, and its allocator hands row 2 to the second device that asks for one. So an access to the
  disabled region runs another device's handler, or calls a null pointer.\<close>

theorem pci_unmapped_memory_row2:
  fixes c :: "('a mem_bus_scheme, 'c) pci_code_scheme" and m :: "'a mem_bus_scheme"
  assumes "synced fns d" "single_region d" "\<not> bit (rg_type (io_regions d ! 0)) 0" "rg_size (io_regions d ! 0) \<noteq> 0"
    and "rg_addr (io_regions d ! 0) \<noteq> UNMAPPED" "\<exists>r \<in> set (mmio m). ms_start r = pci_to_cpu_addr c (rg_addr (io_regions d ! 0))"
    and "x - pci_to_cpu_addr c (rg_addr (io_regions d ! 0)) < ucast (rg_size (io_regions d ! 0))"
    and "distinct (map ms_start (mmio m))"
    and "\<forall>r \<in> set (mmio m). ms_start r \<noteq> pci_to_cpu_addr c (rg_addr (io_regions d ! 0)) \<longrightarrow> \<not> x - ms_start r < ms_size r"
    and "io_mem_used m0 1" "\<not> io_mem_used m0 2"
  shows "(\<exists>d' m'. pci_default_write_config c d 4 0 2 m = Inr (d', m') \<and> rg_addr (io_regions d' ! 0) = UNMAPPED
      \<and> cpu_physical_memory_rw k x [b] 1 True m' = (case io_mem_write m 2 0 of
           None \<Rightarrow> Inl Bad_access
         | Some fn \<Rightarrow> res_bind (call_mem_write k fn (io_mem_opaque m 2) x (ucast b) m') (\<lambda>m''. Inr ([b], m''))))
    \<and> fst (cpu_register_io_memory 0 rd wr opq (m0 :: 'a mem_bus_scheme)) = 16"
proof (rule conjI)
  let ?r = "io_regions d ! 0" and ?d = "d\<lparr>config := (config d)(4 := 0, 5 := 0)\<rparr>"
  have off: "region_new_addr ?d 0 = UNMAPPED" by (simp add: region_new_addr_def le16_at_def Let_def)
  obtain m' where m': "cpu_register_physical_memory (pci_to_cpu_addr c (rg_addr ?r)) (ucast (rg_size ?r)) IO_MEM_UNASSIGNED m = Inr m'"
    and same: "io_mem_write m' = io_mem_write m" "io_mem_opaque m' = io_mem_opaque m"
    using assms(6) by (auto simp: cpu_register_physical_memory_def Let_def first_index_less)
  have "unmap_region c ?d ?r m = Inr m'" using m' assms(3) by (simp add: unmap_region_def and_1_2_bit)
  then have "update_region c 0 (?d, m) = Inr (set_region_addr 0 UNMAPPED ?d, m')"
    using off assms(4,5) by (simp add: update_region_def Let_def)
  then have up: "pci_default_write_config c d 4 0 2 m = Inr (set_region_addr 0 UNMAPPED ?d, m')"
    using update_single [of ?d c m] assms(2) by (simp add: command_write_zero [OF assms(1)] single_region_def)
  have ix: "iomem_index x m' = 2" using mmio_register_lookup [OF m' assms(7,9,8)] by simp
  have pl: "page_left x (Suc 0) = Suc 0" using page_left_pos [of "Suc 0" x] page_left_le [of x "Suc 0"] by simp
  have uu: "ucast (ucast b :: u64) = (ucast b :: u32)" by (rule bit_word_eqI) (auto simp: bit_simps)
  have chunk: "mem_write_chunk k x [b] m' = (case io_mem_write m 2 0 of None \<Rightarrow> Inl Bad_access
      | Some fn \<Rightarrow> res_bind (call_mem_write k fn (io_mem_opaque m 2) x (ucast b) m') (\<lambda>m''. Inr (1, m'')))"
    using ix same pl by (simp add: mem_write_chunk_def Let_def io_width_def io_slot_def uu split: option.split)
  have len: "0 < length (io_regions d)" using assms(2) by (simp add: single_region_def)
  have "cpu_physical_memory_rw k x [b] 1 True m' = (case io_mem_write m 2 0 of None \<Rightarrow> Inl Bad_access
      | Some fn \<Rightarrow> res_bind (call_mem_write k fn (io_mem_opaque m 2) x (ucast b) m') (\<lambda>m''. Inr ([b], m'')))"
  proof (cases "io_mem_write m 2 0")
    case None
    then show ?thesis using chunk by (simp add: cpu_physical_memory_rw_def mem_write_loop.simps [of k x "[b]"])
  next
    case (Some fn)
    then show ?thesis using chunk
      by (cases "call_mem_write k fn (io_mem_opaque m 2) x (ucast b) m'")
        (simp_all add: cpu_physical_memory_rw_def mem_write_loop.simps [of k x "[b]"] mem_write_loop.simps [of k _ "[]"])
  qed
  then show "\<exists>d' m'. pci_default_write_config c d 4 0 2 m = Inr (d', m') \<and> rg_addr (io_regions d' ! 0) = UNMAPPED
      \<and> cpu_physical_memory_rw k x [b] 1 True m' = (case io_mem_write m 2 0 of
           None \<Rightarrow> Inl Bad_access
         | Some fn \<Rightarrow> res_bind (call_mem_write k fn (io_mem_opaque m 2) x (ucast b) m') (\<lambda>m''. Inr ([b], m'')))"
    by (intro exI [of _ "set_region_addr 0 UNMAPPED ?d"] exI [of _ m'])
      (simp only: up, use len in \<open>simp add: set_region_addr_def\<close>)
next
  have "[1..<512] = 1 # [2..<512::nat]" using upt_conv_Cons [of 1 512] by (simp only: Suc_1)
  moreover have "[2..<512] = 2 # [Suc 2..<512]" by (rule upt_conv_Cons) simp
  ultimately have "find (\<lambda>i. \<not> io_mem_used m0 i) [1..<512] = Some 2" using assms(10,11) by (simp del: One_nat_def)
  then show "fst (cpu_register_io_memory 0 rd wr opq m0) = 16"
    by (simp add: cpu_register_io_memory_def get_free_io_mem_idx_def)
qed

definition sample_bus :: "mmio_space list \<Rightarrow> mem_bus" where
  "sample_bus rs = \<lparr>ioport_table = (\<lambda>_. None), mmio = rs, io_mem_read = (\<lambda>_ _. None), io_mem_write = (\<lambda>_ _. None),
     io_mem_opaque = (\<lambda>_. 0), io_mem_used = (\<lambda>i. i = 1), ram = (\<lambda>_. 0), ram_page = (\<lambda>_. False),
     xen_logdirty_enable = False, modified = []\<rparr>"

text \<open>The sample function after its memory region has been placed and enabled.\<close>

definition placed_device :: pci_device where
  "placed_device = (sample_device 0x1000 0)\<lparr>config := (\<lambda>_. 0)(4 := 2, 0x13 := 0xf3),
     io_regions := (io_regions (sample_device 0x1000 0))[0 := \<lparr>rg_addr = 0xf3000000, rg_size = 0x1000, rg_type = 0, rg_map_func = Some 1\<rparr>]\<rparr>"

lemma placed_device_facts:
  "single_region placed_device" "type0 placed_device" "synced {(1, 0)} placed_device"
  "io_regions placed_device ! 0 = \<lparr>rg_addr = 0xf3000000, rg_size = 0x1000, rg_type = 0, rg_map_func = Some 1\<rparr>"
proof -
  have rs: "io_regions placed_device = \<lparr>rg_addr = 0xf3000000, rg_size = 0x1000, rg_type = 0, rg_map_func = Some 1\<rparr>
      # replicate 6 \<lparr>rg_addr = 0, rg_size = 0, rg_type = 0, rg_map_func = None\<rparr>"
    by (simp add: placed_device_def sample_device_def)
  then show r0: "io_regions placed_device ! 0 = \<lparr>rg_addr = 0xf3000000, rg_size = 0x1000, rg_type = 0, rg_map_func = Some 1\<rparr>" by simp
  have rest: "rg_size (io_regions placed_device ! j) = 0" if "0 < j" "j < 7" for j
    using that by (cases j) (auto simp: rs)
  then show "single_region placed_device" by (simp add: single_region_def rs)
  show "type0 placed_device" by (simp add: type0_def placed_device_def)
  have "le32_at (config placed_device) (bar_ofs 0) = 0xf3000000" "le16_at (config placed_device) 4 = 2"
    by (simp_all add: le32_at_def le16_at_def bar_ofs_def placed_device_def push_bit_eq_mult)
  then have "decoded placed_device 0 = Some 0xf3000000"
    using bit_exp_iff [of 1 1, where 'a = "16 word"] by (simp add: decoded_def r0 bit_simps)
  moreover have "regions_wf {(1, 0)} placed_device" by (simp add: regions_wf_def rs pow2_size_def map_entry_def)
  ultimately show "synced {(1, 0)} placed_device" unfolding synced_def
    by (metis r0 rest gr0I option.case(2) pci_io_region.select_convs(1))
qed

theorem pci_unmapped_memory_row2_witness:
  "(\<exists>d' m'. pci_default_write_config plain_map placed_device 4 0 2
        (sample_bus [\<lparr>ms_start = 0xf3000000, ms_size = 0x1000, ms_io_index = 8\<rparr>]) = Inr (d', m')
      \<and> rg_addr (io_regions d' ! 0) = UNMAPPED
      \<and> cpu_physical_memory_rw null_code 0xf3000010 [0x5a] 1 True m' = Inl Bad_access)
    \<and> fst (cpu_register_io_memory 0 (\<lambda>_. Some 3) (\<lambda>_. Some 4) 0 (sample_bus [])) = 16"
proof -
  have "io_mem_write (sample_bus rs) 2 0 = None" for rs by (simp add: sample_bus_def)
  then show ?thesis
    using pci_unmapped_memory_row2 [of "{(1, 0)}" placed_device "sample_bus [\<lparr>ms_start = 0xf3000000, ms_size = 0x1000, ms_io_index = 8\<rparr>]"
        plain_map "0xf3000010" "sample_bus []" null_code "0x5a" "\<lambda>_. Some 3" "\<lambda>_. Some 4" 0]
      placed_device_facts
    by (simp add: pci_to_cpu_addr_def plain_map_def) (simp add: sample_bus_def)
qed

section \<open>Moving a region forever\<close>

definition starts :: "'a mem_bus_scheme \<Rightarrow> u64 set" where
  "starts m = ms_start ` set (mmio m)"

lemma register_starts:
  assumes "cpu_register_physical_memory a sz ph m = Inr m'" "length (mmio m) \<le> MAX_MMIO"
  shows "starts m' = insert a (starts m)" "length (mmio m') \<le> MAX_MMIO"
proof -
  let ?i = "first_index (\<lambda>r. ms_start r = a) (mmio m)"
  have "starts m' = insert a (starts m) \<and> length (mmio m') \<le> MAX_MMIO"
  proof (cases "?i < length (mmio m)")
    case True
    then have st: "ms_start (mmio m ! ?i) = a" by (rule first_index_nth)
    have "map ms_start ((mmio m)[?i := (mmio m ! ?i)\<lparr>ms_io_index := ph, ms_size := sz\<rparr>]) = map ms_start (mmio m)"
      using True by (simp add: map_update list_update_same_conv)
    moreover have mm: "mmio m' = (mmio m)[?i := (mmio m ! ?i)\<lparr>ms_io_index := ph, ms_size := sz\<rparr>]"
      using assms(1) True by (auto simp: cpu_register_physical_memory_def Let_def)
    ultimately have "starts m' = starts m" unfolding starts_def set_map [symmetric] by simp
    moreover have "length (mmio m') = length (mmio m)" by (simp add: mm)
    moreover have "a \<in> starts m" using st nth_mem [OF True] unfolding starts_def by (metis image_eqI)
    ultimately show ?thesis using assms(2) by auto
  next
    case False
    then show ?thesis using assms by (auto simp: cpu_register_physical_memory_def Let_def starts_def split: if_splits)
  qed
  then show "starts m' = insert a (starts m)" "length (mmio m') \<le> MAX_MMIO" by blast+
qed

text \<open>The state while the guest moves the region of a function to one legal address after the other.\<close>

definition moving :: "('a mem_bus_scheme, 'c) pci_code_scheme \<Rightarrow> pci_device \<Rightarrow> 'a mem_bus_scheme \<Rightarrow> bool" where
  "moving c d m \<longleftrightarrow> single_region d \<and> bit (le16_at (config d) PCI_COMMAND) 1 \<and> length (mmio m) \<le> MAX_MMIO
     \<and> \<not> bit (rg_type (io_regions d ! 0)) 0 \<and> rg_size (io_regions d ! 0) = 0x1000 \<and> rg_map_func (io_regions d ! 0) = Some 1
     \<and> (rg_addr (io_regions d ! 0) = UNMAPPED \<or> pci_to_cpu_addr c (rg_addr (io_regions d ! 0)) \<in> starts m)"

lemma page_value:
  assumes "v AND 0xfff = (0::u32)"
  shows "((v AND NOT 0xfff) OR ucast (t::u8)) AND NOT 0xfff = v"
proof -
  have m: "0xfff = (mask 12 :: u32)" by (simp add: mask_numeral)
  have low: "12 \<le> n" if "bit v n" for n
  proof (rule ccontr)
    assume "\<not> 12 \<le> n"
    then have "bit (v AND mask 12) n" using that by (simp add: bit_simps)
    then show False using assms by (simp only: m [symmetric]) simp
  qed
  show ?thesis unfolding m
    by (rule bit_word_eqI) (use low in \<open>auto simp: bit_simps not_less dest: bit_imp_le_length\<close>)
qed

text \<open>One move: the region table gains the new address, or the process has ended.\<close>

lemma move_step:
  assumes "moving c d m" "v AND 0xfff = 0" "v \<noteq> 0" "unat v + 0x1000 < 2 ^ 32"
    and map: "\<And>d i a sz t m. call_map_region c 1 d i a sz t m = cpu_register_physical_memory (pci_to_cpu_addr c a) (ucast sz) row m"
  shows "ends {Exit (- 1)} (\<lambda>(d', m'). moving c d' m' \<and> insert (pci_to_cpu_addr c v) (starts m) \<subseteq> starts m')
    (pci_default_write_config c d 0x10 v 4 m)"
proof -
  let ?r = "io_regions d ! 0" and ?d = "d\<lparr>config := put_le32 0x10 (bar_value 0 (io_regions d ! 0) v) (config d)\<rparr>"
  note mv = assms(1) [unfolded moving_def]
  have sz: "rg_size ?r = 0x1000" "\<not> bit (rg_type ?r) 0" using mv by blast+
  have "bar_write 0x10 4 = Some 0" by (simp add: bar_write_def)
  then have e: "pci_default_write_config c d 0x10 v 4 m = update_region c 0 (?d, m)"
    using update_single [of ?d c m] mv by (simp add: pci_default_write_config_def single_region_def)
  have cmd: "le16_at (config ?d) PCI_COMMAND = le16_at (config d) PCI_COMMAND" by (simp add: le16_at_def put_le32_def)
  have bar: "le32_at (config ?d) (bar_ofs 0) AND NOT (rg_size ?r - 1) = v"
    using page_value [OF assms(2), of "rg_type ?r"] by (simp add: bar_ofs_def le32_put bar_value_def sz(1))
  have "decoded ?d 0 = Some v" unfolding decoded_def Let_def cmd using mv assms(3,4) bar by simp
  then have new: "region_new_addr ?d 0 = v"
    using region_new_addr_decoded [of ?d 0] sz by (simp add: pow2_size_def)
  have vne: "v \<noteq> UNMAPPED" using assms(4) unat_all_ones by auto
  have len: "0 < length (io_regions d)" using mv by (simp add: single_region_def)
  define d1 where "d1 = set_region_addr 0 v ?d"
  have ok: "moving c d1 m'" if "pci_to_cpu_addr c v \<in> starts m'" "length (mmio m') \<le> MAX_MMIO" for m'
    using mv that len cmd by (auto simp: moving_def d1_def set_region_addr_def single_region_def nth_list_update)
  let ?first = "if rg_addr ?r \<noteq> UNMAPPED then unmap_region c ?d ?r m else Inr m"
  have first: "ends {Exit (- 1)} (\<lambda>m'. starts m \<subseteq> starts m' \<and> length (mmio m') \<le> MAX_MMIO) ?first"
  proof (cases "rg_addr ?r = UNMAPPED")
    case False
    have "ends {Exit (- 1)} (\<lambda>m'. starts m \<subseteq> starts m' \<and> length (mmio m') \<le> MAX_MMIO)
        (cpu_register_physical_memory (pci_to_cpu_addr c (rg_addr ?r)) (ucast (rg_size ?r)) IO_MEM_UNASSIGNED m)"
      using register_starts [of _ _ _ m] mv by (intro ends_conj [OF register_memory_ends]) blast
    then show ?thesis using False sz(2) by (simp add: unmap_region_def and_1_2_bit)
  qed (use mv in simp)
  have second: "ends {Exit (- 1)} (\<lambda>(d', m'). moving c d' m' \<and> insert (pci_to_cpu_addr c v) (starts m) \<subseteq> starts m')
      (res_bind (call_map_region c 1 d1 0 v (rg_size ?r) (rg_type ?r) m1) (\<lambda>m. Inr (d1, m)))"
    if "starts m \<subseteq> starts m1" "length (mmio m1) \<le> MAX_MMIO" for m1
  proof (rule ends_bind [where Q = "\<lambda>m'. starts m' = insert (pci_to_cpu_addr c v) (starts m1) \<and> length (mmio m') \<le> MAX_MMIO"])
    show "ends {Exit (- 1)} (\<lambda>m'. starts m' = insert (pci_to_cpu_addr c v) (starts m1) \<and> length (mmio m') \<le> MAX_MMIO)
        (call_map_region c 1 d1 0 v (rg_size ?r) (rg_type ?r) m1)"
      unfolding map using register_starts [of _ _ _ m1] that by (intro ends_conj [OF register_memory_ends]) blast
  qed (use ok that in auto)
  show ?thesis
  proof (cases "rg_addr ?r = v")
    case True
    then have "?r\<lparr>rg_addr := v\<rparr> = ?r" by (cases ?r) simp
    then have "?d = d1" using len by (simp add: d1_def set_region_addr_def)
    moreover have in_starts: "pci_to_cpu_addr c v \<in> starts m" using True vne mv by blast
    moreover have "update_region c 0 (?d, m) = Inr (?d, m)" using True new by (simp add: update_region_def Let_def)
    ultimately show ?thesis using ok [OF in_starts] mv by (auto simp: e)
  next
    case False
    then have "update_region c 0 (?d, m) = res_bind ?first (\<lambda>m. res_bind (call_map_region c 1 d1 0 v (rg_size ?r) (rg_type ?r) m) (\<lambda>m. Inr (d1, m)))"
      using new vne mv by (simp add: update_region_def Let_def d1_def)
    then show ?thesis unfolding e by (simp only:) (rule ends_bind [OF first], rule second, blast+)
  qed
qed

text \<open>Memory regions that have been moved away are never taken out of the region table, which has 1024 entries. A guest that
  keeps moving a memory region of a device to new addresses, each of them legal, ends the device model process.\<close>

theorem pci_bar_moves_end_process:
  fixes c :: "('a mem_bus_scheme, 'c) pci_code_scheme"
  assumes "moving c d m" "distinct vs" "length vs > MAX_MMIO"
    and "\<forall>v \<in> set vs. v AND 0xfff = 0 \<and> v \<noteq> 0 \<and> unat v + 0x1000 < 2 ^ 32"
    and "\<forall>d i a sz t m. call_map_region c 1 d i a sz t m = cpu_register_physical_memory (pci_to_cpu_addr c a) (ucast sz) row m"
  shows "res_fold (\<lambda>v (d, m). pci_default_write_config c d 0x10 v 4 m) vs (d, m) = Inl (Exit (- 1))"
proof -
  let ?f = "\<lambda>v (d, m). pci_default_write_config c d 0x10 v 4 m"
  have run: "ends {Exit (- 1)} (\<lambda>(d', m'). moving c d' m' \<and> pci_to_cpu_addr c ` set us \<union> starts m \<subseteq> starts m') (res_fold ?f us (d, m))"
    if "moving c d m" "set us \<subseteq> set vs" for us d m
    using that
  proof (induction us arbitrary: d m)
    case (Cons u us)
    have "ends {Exit (- 1)} (\<lambda>(d', m'). moving c d' m' \<and> insert (pci_to_cpu_addr c u) (starts m) \<subseteq> starts m') (?f u (d, m))"
      using move_step [of c d m u row] Cons.prems assms(4,5) by auto
    then show ?case unfolding res_fold.simps
    proof (rule ends_bind, clarify)
      fix d1 m1 assume 1: "moving c d1 m1" "insert (pci_to_cpu_addr c u) (starts m) \<subseteq> starts m1"
      show "ends {Exit (- 1)} (\<lambda>(d', m'). moving c d' m' \<and> pci_to_cpu_addr c ` set (u # us) \<union> starts m \<subseteq> starts m') (res_fold ?f us (d1, m1))"
        by (rule ends_mono [OF Cons.IH [OF 1(1)]]) (use 1 Cons.prems in auto)
    qed
  qed simp
  have inj: "inj (pci_to_cpu_addr c)"
  proof (rule injI)
    fix x y :: u32 assume "pci_to_cpu_addr c x = pci_to_cpu_addr c y"
    moreover have "ucast (ucast z :: u64) = z" for z :: u32 by (rule bit_word_eqI) (simp add: bit_simps)
    ultimately show "x = y" by (metis pci_to_cpu_addr_def add_right_cancel)
  qed
  show ?thesis
  proof (cases "res_fold ?f vs (d, m)")
    case (Inr dm)
    obtain d' m' where dm: "dm = (d', m')" by (cases dm)
    have mv: "moving c d' m'" "pci_to_cpu_addr c ` set vs \<subseteq> starts m'" using run [OF assms(1) order_refl] Inr dm by auto
    have "length vs = card (pci_to_cpu_addr c ` set vs)"
      using assms(2) inj by (simp add: card_image inj_on_subset distinct_card)
    also have "\<dots> \<le> card (starts m')" using mv(2) by (intro card_mono) (simp_all add: starts_def)
    also have "\<dots> \<le> length (mmio m')" unfolding starts_def by (rule order_trans [OF card_image_le card_length]) simp
    also have "\<dots> \<le> MAX_MMIO" using mv(1) by (simp add: moving_def)
    finally show ?thesis using assms(3) by simp
  next
    case (Inl e)
    then show ?thesis using run [OF assms(1) order_refl] by simp
  qed
qed

theorem pci_bar_moves_end_process_witness:
  "res_fold (\<lambda>v (d, m). pci_default_write_config plain_map d 0x10 v 4 m)
     (map (\<lambda>k. of_nat (k * 0x1000)) [1..<1026]) (placed_device, sample_bus [\<lparr>ms_start = 0xf3000000, ms_size = 0x1000, ms_io_index = 8\<rparr>])
   = Inl (Exit (- 1))"
proof (rule pci_bar_moves_end_process [where row = 8])
  have u: "unat (of_nat (k * 0x1000) :: u32) = k * 0x1000" if "k < 1026" for k
    using that by (simp only: unat_of_nat) simp
  have "le16_at (config placed_device) 4 = 2" by (simp add: le16_at_def placed_device_def)
  then show "moving plain_map placed_device (sample_bus [\<lparr>ms_start = 0xf3000000, ms_size = 0x1000, ms_io_index = 8\<rparr>])"
    using placed_device_facts bit_exp_iff [of 1 1, where 'a = "16 word"]
    by (simp add: moving_def starts_def sample_bus_def pci_to_cpu_addr_def plain_map_def)
  have "inj_on (\<lambda>k. of_nat (k * 0x1000) :: u32) (set [1..<1026])"
    by (rule inj_onI) (metis u atLeastLessThan_iff mult_cancel_right set_upt zero_neq_numeral)
  then show "distinct (map (\<lambda>k. of_nat (k * 0x1000) :: u32) [1..<1026])" by (simp only: distinct_map distinct_upt simp_thms)
  show "\<forall>v :: u32 \<in> set (map (\<lambda>k. of_nat (k * 0x1000)) [1..<1026]). v AND 0xfff = 0 \<and> v \<noteq> 0 \<and> unat v + 0x1000 < 2 ^ 32"
  proof
    fix v :: u32 assume "v \<in> set (map (\<lambda>k. of_nat (k * 0x1000)) [1..<1026])"
    then obtain k where k: "v = of_nat (k * 0x1000)" "1 \<le> k" "k < 1026" by auto
    have "unat (take_bit 12 v) = 0" using u [OF k(3)] by (simp add: unat_take_bit k(1))
    then have "v AND 0xfff = 0" by (simp add: take_bit_eq_mask mask_numeral unat_eq_zero)
    moreover have "v \<noteq> 0" using u [OF k(3)] k by auto
    moreover have "unat v + 0x1000 < 2 ^ 32" using u [OF k(3)] k by simp
    ultimately show "v AND 0xfff = 0 \<and> v \<noteq> 0 \<and> unat v + 0x1000 < 2 ^ 32" by blast
  qed
qed (simp_all add: plain_map_def pci_to_cpu_addr_def)

end
