(* ===== verification/Pci_Bus.thy ===== *)
theory Pci_Bus
  imports Pci_Device Savevm
begin

text \<open>
  The PCI bus manager of \<^verbatim>\<open>hw/pci.c\<close>: buses and bridges, registration and removal of devices, configuration cycles, interrupt
  lines and the saved state of a device. Devices and buses are objects in two lists and pointers to them are
  positions, so that a device, its bus and the bridge above it can refer to each other; an object that has been freed
  keeps its place. No slot refers to it any more, but the bus behind a removed bridge still names it as its \<^verbatim>\<open>parent_dev\<close>; in C this is a
  dangling pointer, and here the walk to the root goes on with the values it had. The chain of buses (\<^verbatim>\<open>next\<close>) and the path from a bus to the root (\<^verbatim>\<open>parent_dev\<close>)
  are followed for as many steps as there are buses; a walk that has not ended then has met a bus
  twice and never ends. Fields that no code reads (\<^verbatim>\<open>config_reg\<close>, \<^verbatim>\<open>low_set_irq\<close>) are left out.
\<close>

section \<open>State\<close>

record pci_bus =
  bus_num :: nat
  devfn_min :: nat
  set_irq :: "nat option"
  map_irq :: nat
  irq_opaque :: nat
  devices :: "nat \<Rightarrow> nat option"
  parent_dev :: "nat option"
  next_bus :: "nat option"
  nirq :: nat
  irq_count :: "nat \<Rightarrow> int"

text \<open>\<open>bridge_bus\<close> is the \<^verbatim>\<open>bus\<close> field of a \<^verbatim>\<open>PCIBridge\<close>; \<open>php_valid\<close> the slots of assigned devices.\<close>

record pci_state =
  devs :: "pci_device list"
  buses :: "pci_bus list"
  first_bus :: "nat option"
  nbus :: int
  bridge_bus :: "nat \<Rightarrow> nat option"
  gfx_passthru :: bool
  php_valid :: "nat \<Rightarrow> bool"

definition upd_dev :: "nat \<Rightarrow> (pci_device \<Rightarrow> pci_device) \<Rightarrow> pci_state \<Rightarrow> pci_state" where
  "upd_dev h f s = s\<lparr>devs := (devs s)[h := f (devs s ! h)]\<rparr>"

definition upd_bus :: "nat \<Rightarrow> (pci_bus \<Rightarrow> pci_bus) \<Rightarrow> pci_state \<Rightarrow> pci_state" where
  "upd_bus b f s = s\<lparr>buses := (buses s)[b := f (buses s ! b)]\<rparr>"

section \<open>Buses\<close>

fun skip_be32 :: "nat \<Rightarrow> qemu_file \<Rightarrow> qemu_file res" where
  "skip_be32 0 f = Inr f"
| "skip_be32 (Suc n) f = res_bind (qemu_get_be32 f) (\<lambda>(_, f). skip_be32 n f)"

definition pcibus_load :: "'s \<Rightarrow> int \<Rightarrow> qemu_file \<Rightarrow> ((int \<times> 's) \<times> qemu_file) res" where
  "pcibus_load s version f =
     (if version \<noteq> 1 then Inr ((- EINVAL, s), f)
      else res_bind (qemu_get_be32 f) (\<lambda>(n, f).
           res_bind (skip_be32 (nat (sint n)) f) (\<lambda>f. Inr ((0, s), f))))"

definition new_bus :: pci_bus where
  "new_bus = \<lparr>bus_num = 0, devfn_min = 0, set_irq = None, map_irq = 0, irq_opaque = 0, devices = (\<lambda>_. None),
     parent_dev = None, next_bus = None, nirq = 0, irq_count = (\<lambda>_. 0)\<rparr>"

definition pci_register_bus :: "nat \<Rightarrow> nat \<Rightarrow> nat \<Rightarrow> nat \<Rightarrow> nat \<Rightarrow> pci_state \<Rightarrow> nat \<times> pci_state" where
  "pci_register_bus sirq mirq pic dmin n s =
     (let b = length (buses s) in
      (b, s\<lparr>buses := buses s @ [new_bus\<lparr>set_irq := Some sirq, map_irq := mirq, irq_opaque := pic, devfn_min := dmin, nirq := n\<rparr>],
            first_bus := Some b, nbus := nbus s + 1\<rparr>))"

text \<open>The registration with \<^verbatim>\<open>savevm.c\<close> that \<^verbatim>\<open>pci_register_bus\<close> makes: nothing is saved.\<close>

definition pcibus_savevm :: "u8 list \<Rightarrow> int \<Rightarrow> 's savevm \<Rightarrow> 's savevm" where
  "pcibus_savevm name n R = register_savevm_live name n 1 None None (Some pcibus_load) R"

definition pci_register_secondary_bus :: "nat \<Rightarrow> nat \<Rightarrow> pci_state \<Rightarrow> nat \<times> pci_state" where
  "pci_register_secondary_bus dev mirq s =
     (let b = length (buses s); up = dev_bus (devs s ! dev);
          s1 = s\<lparr>buses := buses s @ [new_bus\<lparr>map_irq := mirq, parent_dev := Some dev, next_bus := next_bus (buses s ! up)\<rparr>]\<rparr>
      in (b, upd_bus up (\<lambda>u. u\<lparr>next_bus := Some b\<rparr>) s1))"

definition pci_bus_num :: "nat \<Rightarrow> pci_state \<Rightarrow> nat" where
  "pci_bus_num b s = bus_num (buses s ! b)"

fun bus_walk :: "pci_bus list \<Rightarrow> nat \<Rightarrow> nat \<Rightarrow> nat option \<Rightarrow> nat option res" where
  "bus_walk bs num fuel None = Inr None"
| "bus_walk bs num 0 (Some b) = Inl Loops"
| "bus_walk bs num (Suc n) (Some b) =
     (if bus_num (bs ! b) = num then Inr (Some b) else bus_walk bs num n (next_bus (bs ! b)))"

definition pci_find_bus :: "nat \<Rightarrow> pci_state \<Rightarrow> nat option res" where
  "pci_find_bus num s = bus_walk (buses s) num (length (buses s)) (first_bus s)"

definition PCI_DEVFN :: "nat \<Rightarrow> nat \<Rightarrow> nat" where
  "PCI_DEVFN slot func = (slot mod 32) * 8 + func mod 8"

definition pci_find_device :: "nat \<Rightarrow> nat \<Rightarrow> nat \<Rightarrow> pci_state \<Rightarrow> nat option res" where
  "pci_find_device num slot function s =
     res_bind (pci_find_bus num s) (\<lambda>b.
       Inr (case b of None \<Rightarrow> None | Some b \<Rightarrow> devices (buses s ! b) (PCI_DEVFN slot function)))"

section \<open>Devices\<close>

definition pci_devfn_in_use :: "nat \<Rightarrow> nat \<Rightarrow> pci_state \<Rightarrow> bool" where
  "pci_devfn_in_use b n s \<longleftrightarrow> devices (buses s ! b) n \<noteq> None"

definition free_devfn :: "nat \<Rightarrow> pci_state \<Rightarrow> nat option" where
  "free_devfn b s =
     find (\<lambda>n. \<not> (gfx_passthru s \<and> n = 0x10) \<and> \<not> pci_devfn_in_use b n s)
       (filter (\<lambda>n. (n - devfn_min (buses s ! b)) mod 8 = 0) [devfn_min (buses s ! b)..<256])"

definition new_device :: "nat \<Rightarrow> nat \<Rightarrow> string \<Rightarrow> config_reader \<Rightarrow> config_writer \<Rightarrow> pci_device" where
  "new_device b n name rd wr = pci_set_default_subsystem_id
     \<lparr>config = (\<lambda>_. 0), dev_bus = b, devfn = n, dev_name = take 63 name,
      io_regions = replicate PCI_NUM_REGIONS \<lparr>rg_addr = 0, rg_size = 0, rg_type = 0, rg_map_func = None\<rparr>,
      config_read = rd, config_write = wr, unregister = None, irq_state = (\<lambda>_. 0)\<rparr>"

definition pci_register_device ::
  "nat \<Rightarrow> string \<Rightarrow> int \<Rightarrow> config_reader \<Rightarrow> config_writer \<Rightarrow> pci_state \<Rightarrow> (nat option \<times> pci_state) res" where
  "pci_register_device b name n rd wr s =
     (case (if n < 0 then free_devfn b s else Some (nat n)) of
        None \<Rightarrow> Inr (None, s)
      | Some k \<Rightarrow>
          if k \<ge> 256 then Inl Bad_access
          else let h = length (devs s) in
            Inr (Some h, upd_bus b (\<lambda>u. u\<lparr>devices := (devices u)(k \<mapsto> h)\<rparr>) (s\<lparr>devs := devs s @ [new_device b k name rd wr]\<rparr>)))"

definition pci_hide_device :: "nat \<Rightarrow> pci_state \<Rightarrow> pci_state" where
  "pci_hide_device h s = upd_bus (dev_bus (devs s ! h)) (\<lambda>u. u\<lparr>devices := (devices u)(devfn (devs s ! h) := None)\<rparr>) s"

definition pci_unregister_device ::
  "('a mem_bus_scheme, 'c) pci_code_scheme \<Rightarrow> nat \<Rightarrow> pci_state \<times> 'a mem_bus_scheme \<Rightarrow> (int \<times> pci_state \<times> 'a mem_bus_scheme) res" where
  "pci_unregister_device c h = (\<lambda>(s, m).
     let d = devs s ! h in
     res_bind (case unregister d of Some fn \<Rightarrow> call_unregister c fn d m | None \<Rightarrow> Inr (0, m)) (\<lambda>(ret, m).
       if ret \<noteq> 0 then Inr (ret, s, m)
       else res_bind (pci_unregister_io_regions c d m) (\<lambda>m. Inr (0, pci_hide_device h s, m))))"

definition test_pci_devfn :: "int \<Rightarrow> pci_state \<Rightarrow> int" where
  "test_pci_devfn n s = (if n < 0 \<or> n \<ge> 256 then - 1 else if php_valid s (nat n) then 1 else 0)"

definition pci_dev_unplug ::
  "('a mem_bus_scheme, 'c) pci_code_scheme \<Rightarrow> nat \<Rightarrow> pci_state \<times> 'a mem_bus_scheme \<Rightarrow> (pci_state \<times> 'a mem_bus_scheme) res" where
  "pci_dev_unplug c h = (\<lambda>(s, m).
     if test_pci_devfn (int (devfn (devs s ! h))) s = 1 then Inr (s, m)
     else res_bind (pci_unregister_io_regions c (devs s ! h) m) (\<lambda>m. Inr (pci_hide_device h s, m)))"

definition unplug_if_nic ::
  "('a mem_bus_scheme, 'c) pci_code_scheme \<Rightarrow> nat \<Rightarrow> nat \<Rightarrow> pci_state \<times> 'a mem_bus_scheme \<Rightarrow> (pci_state \<times> 'a mem_bus_scheme) res" where
  "unplug_if_nic c b n = (\<lambda>(s, m).
     case devices (buses s ! b) n of
       None \<Rightarrow> Inr (s, m)
     | Some h \<Rightarrow> if config (devs s ! h) 0xa = 0 \<and> config (devs s ! h) 0xb = 2 then pci_dev_unplug c h (s, m) else Inr (s, m))"

definition pci_unplug_all_netifs ::
  "('a mem_bus_scheme, 'c) pci_code_scheme \<Rightarrow> pci_state \<times> 'a mem_bus_scheme \<Rightarrow> (pci_state \<times> 'a mem_bus_scheme) res" where
  "pci_unplug_all_netifs c = (\<lambda>(s, m).
     case first_bus s of None \<Rightarrow> Inr (s, m) | Some b \<Rightarrow> res_fold (unplug_if_nic c b) [0..<256] (s, m))"

section \<open>Configuration cycles\<close>

definition pci_bridge_write_config ::
  "('a mem_bus_scheme, 'c) pci_code_scheme \<Rightarrow> nat \<Rightarrow> u32 \<Rightarrow> u32 \<Rightarrow> nat \<Rightarrow> pci_state \<times> 'a mem_bus_scheme
     \<Rightarrow> (pci_state \<times> 'a mem_bus_scheme) res" where
  "pci_bridge_write_config c h address val len = (\<lambda>(s, m).
     res_bind (if address = 0x19 \<or> address = 0x18 \<and> len > 1 then
                 (case bridge_bus s h of
                    None \<Rightarrow> Inl Bad_access
                  | Some b \<Rightarrow> Inr (upd_bus b (\<lambda>u. u\<lparr>bus_num :=
                      unat ((if address = 0x19 then val else drop_bit 8 val) AND 0xff)\<rparr>) s))
               else Inr s) (\<lambda>s.
     res_bind (pci_default_write_config c (devs s ! h) address val len m) (\<lambda>(d, m). Inr (upd_dev h (\<lambda>_. d) s, m))))"

text \<open>\<^verbatim>\<open>hw/piix_pci.c\<close>: the link registers of the ISA bridge go to the hypervisor.\<close>

definition link_value :: "u32 \<Rightarrow> nat \<Rightarrow> u8" where
  "link_value val i = (let v = ucast (drop_bit (8 * i) val AND 0xff) :: u8 in (if v AND 0x80 \<noteq> 0 then 0 else v) AND 0xf)"

definition piix3_write_config ::
  "('a mem_bus_scheme, 'c) pci_code_scheme \<Rightarrow> pci_device \<Rightarrow> u32 \<Rightarrow> u32 \<Rightarrow> nat \<Rightarrow> 'a mem_bus_scheme
     \<Rightarrow> (pci_device \<times> 'a mem_bus_scheme) res" where
  "piix3_write_config c d address val len m =
     pci_default_write_config c d address val len
       (fold (\<lambda>i m. if address + of_nat i \<ge> 0x60 \<and> address + of_nat i \<le> 0x63
                    then hvm_set_pci_link_route c (unat (address + of_nat i - 0x60)) (link_value val i) m else m) [0..<len] m)"

definition dev_config_write ::
  "('a mem_bus_scheme, 'c) pci_code_scheme \<Rightarrow> nat \<Rightarrow> u32 \<Rightarrow> u32 \<Rightarrow> nat \<Rightarrow> pci_state \<times> 'a mem_bus_scheme
     \<Rightarrow> (pci_state \<times> 'a mem_bus_scheme) res" where
  "dev_config_write c h address val len = (\<lambda>(s, m).
     let d = devs s ! h; put = (\<lambda>(d, m). Inr (upd_dev h (\<lambda>_. d) s, m)) in
     case config_write d of
       Pci_default_write \<Rightarrow> res_bind (pci_default_write_config c d address val len m) put
     | Pci_bridge_write \<Rightarrow> pci_bridge_write_config c h address val len (s, m)
     | Piix3_write \<Rightarrow> res_bind (piix3_write_config c d address val len m) put
     | Device_write fn \<Rightarrow> res_bind (call_config_write c fn d address val len m) put)"

definition dev_config_read ::
  "('a mem_bus_scheme, 'c) pci_code_scheme \<Rightarrow> nat \<Rightarrow> u32 \<Rightarrow> nat \<Rightarrow> pci_state \<times> 'a mem_bus_scheme
     \<Rightarrow> (u32 \<times> pci_state \<times> 'a mem_bus_scheme) res" where
  "dev_config_read c h address len = (\<lambda>(s, m).
     case config_read (devs s ! h) of
       Pci_default_read \<Rightarrow> res_bind (pci_default_read_config (devs s ! h) address len) (\<lambda>v. Inr (v, s, m))
     | Device_read fn \<Rightarrow> res_bind (call_config_read c fn (devs s ! h) address len m) (\<lambda>(v, d, m). Inr (v, upd_dev h (\<lambda>_. d) s, m)))"

text \<open>The device a configuration address selects: bus number, device and function from its bytes.\<close>

definition pci_target :: "nat \<Rightarrow> u32 \<Rightarrow> pci_state \<Rightarrow> nat option res" where
  "pci_target b addr s =
     res_bind (bus_walk (buses s) (unat (drop_bit 16 addr AND 0xff)) (length (buses s)) (Some b)) (\<lambda>b.
       Inr (case b of None \<Rightarrow> None | Some b \<Rightarrow> devices (buses s ! b) (unat (drop_bit 8 addr AND 0xff))))"

definition pci_data_write ::
  "('a mem_bus_scheme, 'c) pci_code_scheme \<Rightarrow> nat \<Rightarrow> u32 \<Rightarrow> u32 \<Rightarrow> nat \<Rightarrow> pci_state \<times> 'a mem_bus_scheme
     \<Rightarrow> (pci_state \<times> 'a mem_bus_scheme) res" where
  "pci_data_write c b addr val len sm =
     res_bind (pci_target b addr (fst sm)) (\<lambda>t.
       case t of None \<Rightarrow> Inr sm | Some h \<Rightarrow> dev_config_write c h (addr AND 0xff) val len sm)"

definition pci_data_read ::
  "('a mem_bus_scheme, 'c) pci_code_scheme \<Rightarrow> nat \<Rightarrow> u32 \<Rightarrow> nat \<Rightarrow> pci_state \<times> 'a mem_bus_scheme
     \<Rightarrow> (u32 \<times> pci_state \<times> 'a mem_bus_scheme) res" where
  "pci_data_read c b addr len sm =
     res_bind (pci_target b addr (fst sm)) (\<lambda>t.
       case t of
         None \<Rightarrow> Inr (if len = 1 then 0xff else if len = 2 then 0xffff else 0xffffffff, sm)
       | Some h \<Rightarrow> dev_config_read c h (addr AND 0xff) len sm)"

section \<open>Interrupt lines\<close>

text \<open>From a device up through the bridges to a bus with an interrupt controller.\<close>

fun irq_route ::
  "('m, 'c) pci_code_scheme \<Rightarrow> pci_state \<Rightarrow> nat \<Rightarrow> nat \<Rightarrow> int \<Rightarrow> (nat \<times> int) res" where
  "irq_route c s 0 h n = Inl Loops"
| "irq_route c s (Suc fuel) h n =
     (let d = devs s ! h; b = buses s ! dev_bus d; k = call_map_irq c (map_irq b) d n in
      case set_irq b of
        Some _ \<Rightarrow> Inr (dev_bus d, k)
      | None \<Rightarrow> (case parent_dev b of None \<Rightarrow> Inl Bad_access | Some p \<Rightarrow> irq_route c s fuel p k))"

text \<open>An \<^verbatim>\<open>int\<close> result out of range is undefined, as is an access outside \<^verbatim>\<open>irq_state\<close> or \<^verbatim>\<open>irq_count\<close>.\<close>

definition pci_set_irq ::
  "('m, 'c) pci_code_scheme \<Rightarrow> nat \<Rightarrow> nat \<Rightarrow> int \<Rightarrow> pci_state \<times> 'm \<Rightarrow> (pci_state \<times> 'm) res" where
  "pci_set_irq c h irq_num level = (\<lambda>(s, m).
     let change = level - irq_state (devs s ! h) irq_num in
     if irq_num \<ge> 4 \<or> \<not> fits 31 change then Inl Bad_access
     else if change = 0 then Inr (s, m)
     else
       let s1 = upd_dev h (\<lambda>d. d\<lparr>irq_state := (irq_state d)(irq_num := level)\<rparr>) s in
       res_bind (irq_route c s1 (length (buses s1)) h (int irq_num)) (\<lambda>(b, n).
         let bus = buses s1 ! b; count = irq_count bus (nat n) + change in
         if n < 0 \<or> n \<ge> int (nirq bus) \<or> \<not> fits 31 count then Inl Bad_access
         else
           (case set_irq bus of
              None \<Rightarrow> Inl Bad_access
            | Some fn \<Rightarrow> res_bind (call_set_irq c fn (irq_opaque bus) n (if count \<noteq> 0 then 1 else 0) m)
                (\<lambda>m. Inr (upd_bus b (\<lambda>u. u\<lparr>irq_count := (irq_count u)(nat n := count)\<rparr>) s1, m)))))"

section \<open>Saved state\<close>

fun put_irq_levels :: "int list \<Rightarrow> qemu_file \<Rightarrow> qemu_file res" where
  "put_irq_levels [] f = Inr f"
| "put_irq_levels (l # ls) f = res_bind (qemu_put_be32 (word_of_int l) f) (put_irq_levels ls)"

definition pci_device_save :: "pci_device \<Rightarrow> qemu_file \<Rightarrow> qemu_file res" where
  "pci_device_save d f =
     res_bind (qemu_put_be32 2 f) (\<lambda>f.
     res_bind (qemu_put_buffer f (map (config d) [0..<256])) (\<lambda>f.
     put_irq_levels (map (irq_state d) [0..<4]) f))"

definition load_config :: "u8 list \<Rightarrow> pci_device \<Rightarrow> pci_device" where
  "load_config bs d = d\<lparr>config := (\<lambda>a. if a < length bs then bs ! a else config d a)\<rparr>"

fun load_irq_levels ::
  "('m, 'c) pci_code_scheme \<Rightarrow> nat \<Rightarrow> nat list \<Rightarrow> pci_state \<times> 'm \<Rightarrow> qemu_file \<Rightarrow> ((pci_state \<times> 'm) \<times> qemu_file) res" where
  "load_irq_levels c h [] sm f = Inr (sm, f)"
| "load_irq_levels c h (i # is) sm f =
     res_bind (qemu_get_be32 f) (\<lambda>(v, f).
     res_bind (pci_set_irq c h i (sint v) sm) (\<lambda>sm. load_irq_levels c h is sm f))"

definition load_mapped ::
  "('a mem_bus_scheme, 'c) pci_code_scheme \<Rightarrow> nat \<Rightarrow> pci_state \<times> 'a mem_bus_scheme \<Rightarrow> qemu_file
     \<Rightarrow> ((pci_state \<times> 'a mem_bus_scheme) \<times> qemu_file) res" where
  "load_mapped c h = (\<lambda>(s, m) f.
     res_bind (qemu_get_buffer f 256) (\<lambda>(bs, f).
     res_bind (pci_update_mappings c (load_config bs (devs s ! h)) m) (\<lambda>(d, m).
     Inr ((upd_dev h (\<lambda>_. d) s, m), f))))"

text \<open>\<open>loadvm_version_id\<close> is the global of \<^verbatim>\<open>savevm.c\<close>: the version of the snapshot being loaded.\<close>

definition pci_device_load ::
  "('a mem_bus_scheme, 'c) pci_code_scheme \<Rightarrow> u32 \<Rightarrow> nat \<Rightarrow> pci_state \<times> 'a mem_bus_scheme \<Rightarrow> qemu_file
     \<Rightarrow> ((int \<times> pci_state \<times> 'a mem_bus_scheme) \<times> qemu_file) res" where
  "pci_device_load c loadvm_version_id h sm f =
     res_bind (if loadvm_version_id > 1 then qemu_get_be32 f else Inr (1, f)) (\<lambda>(version, f).
       if version > 2 then Inr ((- EINVAL, sm), f)
       else
         res_bind (load_mapped c h sm f) (\<lambda>(sm, f).
         res_bind (if version \<ge> 2 then load_irq_levels c h [0..<4] sm f else Inr (sm, f)) (\<lambda>(sm, f).
         Inr ((0, sm), f))))"

definition generic_pci_load ::
  "('a mem_bus_scheme, 'c) pci_code_scheme \<Rightarrow> nat \<Rightarrow> pci_state \<times> 'a mem_bus_scheme \<Rightarrow> int \<Rightarrow> qemu_file
     \<Rightarrow> ((int \<times> pci_state \<times> 'a mem_bus_scheme) \<times> qemu_file) res" where
  "generic_pci_load c h sm version f = res_bind (load_mapped c h sm f) (\<lambda>(sm, f). Inr ((0, sm), f))"

section \<open>Bridges\<close>

definition bridge_header :: "u16 \<Rightarrow> u16 \<Rightarrow> u8 \<Rightarrow> (nat \<Rightarrow> u8) \<Rightarrow> nat \<Rightarrow> u8" where
  "bridge_header vid did rid cf =
     (pci_config_set_class 0x0604
        ((pci_config_set_device_id did (pci_config_set_vendor_id vid cf))
           (4 := 0x06, 5 := 0x00, 6 := 0xa0, 7 := 0x00, 8 := rid, 9 := 0x00)))
       (0x0d := 0x10, 0x0e := 0x81, 0x1e := 0xa0)"

text \<open>The result of \<^verbatim>\<open>pci_register_device\<close> is used without a test for a null pointer.\<close>

definition pci_bridge_init ::
  "nat \<Rightarrow> int \<Rightarrow> u16 \<Rightarrow> u16 \<Rightarrow> u8 \<Rightarrow> nat \<Rightarrow> string \<Rightarrow> pci_state \<Rightarrow> (nat \<times> pci_state) res" where
  "pci_bridge_init b n vid did rid mirq name s =
     res_bind (pci_register_device b name n Pci_default_read Pci_bridge_write s) (\<lambda>(r, s).
       case r of
         None \<Rightarrow> Inl Bad_access
       | Some h \<Rightarrow>
           let s1 = upd_dev h (\<lambda>d. d\<lparr>config := bridge_header vid did rid (config d)\<rparr>) s;
               (nb, s2) = pci_register_secondary_bus h mirq s1
           in Inr (nb, s2\<lparr>bridge_bus := (bridge_bus s2)(h \<mapsto> nb)\<rparr>))"

definition pci_isa_bridge_init ::
  "nat \<Rightarrow> int \<Rightarrow> u16 \<Rightarrow> u16 \<Rightarrow> u8 \<Rightarrow> nat \<Rightarrow> string \<Rightarrow> pci_state \<Rightarrow> (nat \<times> pci_state) res" where
  "pci_isa_bridge_init b n vid did rid mirq name s =
     res_bind (pci_bridge_init b n vid did rid mirq name s) (\<lambda>(nb, s).
       case parent_dev (buses s ! nb) of
         None \<Rightarrow> Inl Bad_access
       | Some h \<Rightarrow> Inr (nb, upd_dev h (\<lambda>d. d\<lparr>config := (pci_config_set_class 0x0601 (config d))(0x0e := 0x80)\<rparr>) s))"

section \<open>Overlap of regions\<close>

definition regions_overlap :: "u32 \<Rightarrow> u32 \<Rightarrow> u8 \<Rightarrow> pci_io_region \<Rightarrow> bool" where
  "regions_overlap addr sz type r \<longleftrightarrow>
     \<not> (type \<noteq> rg_type r \<and> (type = 1 \<or> rg_type r = 1)) \<and> addr < rg_addr r + rg_size r \<and> addr + sz > rg_addr r"

definition pt_chk_bar_overlap :: "nat \<Rightarrow> nat \<Rightarrow> u32 \<Rightarrow> u32 \<Rightarrow> u8 \<Rightarrow> pci_state \<Rightarrow> bool" where
  "pt_chk_bar_overlap b n addr sz type s =
     list_ex (\<lambda>i. case devices (buses s ! b) i of
         None \<Rightarrow> False
       | Some h \<Rightarrow> devfn (devs s ! h) \<noteq> n \<and> list_ex (\<lambda>j. regions_overlap addr sz type (io_regions (devs s ! h) ! j)) [0..<PCI_NUM_REGIONS])
       [0..<256]"

section \<open>Well-formed bus systems\<close>

text \<open>A chain of buses, as \<^verbatim>\<open>next\<close> links them.\<close>

fun chain :: "pci_bus list \<Rightarrow> nat option \<Rightarrow> nat list \<Rightarrow> bool" where
  "chain bs p [] \<longleftrightarrow> p = None"
| "chain bs p (x # xs) \<longleftrightarrow> p = Some x \<and> x < length bs \<and> chain bs (next_bus (bs ! x)) xs"

lemma chain_bound: "chain bs p xs \<Longrightarrow> set xs \<subseteq> {..<length bs}"
  by (induction xs arbitrary: p) auto

lemma chain_length: "chain bs p xs \<Longrightarrow> distinct xs \<Longrightarrow> length xs \<le> length bs"
  using chain_bound [of bs p xs] card_mono [of "{..<length bs}" "set xs"] by (simp add: distinct_card)

lemma chain_cong:
  "chain bs p xs \<Longrightarrow> length bs' = length bs \<Longrightarrow> (\<And>i. i < length bs \<Longrightarrow> next_bus (bs' ! i) = next_bus (bs ! i)) \<Longrightarrow> chain bs' p xs"
  by (induction xs arbitrary: p) auto

lemma chain_append: "chain bs p xs \<Longrightarrow> chain (bs @ cs) p xs"
  by (induction xs arbitrary: p) (auto simp: nth_append)

lemma bus_walk_chain: "chain bs p xs \<Longrightarrow> length xs \<le> fuel \<Longrightarrow> bus_walk bs num fuel p = Inr (find (\<lambda>x. bus_num (bs ! x) = num) xs)"
proof (induction xs arbitrary: p fuel)
  case (Cons x xs)
  then obtain n where "fuel = Suc n" by (cases fuel) auto
  with Cons show ?case by auto
qed simp

text \<open>A secondary bus is linked in behind the bus of its bridge.\<close>

definition link_after :: "nat \<Rightarrow> nat \<Rightarrow> nat list \<Rightarrow> nat list" where
  "link_after up b xs = concat (map (\<lambda>x. if x = up then [x, b] else [x]) xs)"

lemma link_after_simps: "link_after up b [] = []" "link_after up b (x # xs) = (if x = up then [x, b] else [x]) @ link_after up b xs"
  by (simp_all add: link_after_def)

lemma link_after_set: "set (link_after up b xs) \<subseteq> insert b (set xs)"
  by (induction xs) (auto simp: link_after_simps)

lemma link_after_distinct: "distinct xs \<Longrightarrow> b \<notin> set xs \<Longrightarrow> distinct (link_after up b xs)"
proof (induction xs)
  case (Cons x xs)
  have "b \<in> set (link_after up b ys) \<Longrightarrow> up \<in> set ys \<or> b \<in> set ys" for ys by (induction ys) (auto simp: link_after_simps split: if_splits)
  with Cons link_after_set [of up b xs] show ?case by (auto simp: link_after_simps)
qed (simp add: link_after_simps)

lemma link_chain:
  assumes "chain bs p xs" "up < length bs"
    and "bs' = (bs @ [nb])[up := (bs ! up)\<lparr>next_bus := Some (length bs)\<rparr>]" "next_bus nb = next_bus (bs ! up)"
  shows "chain bs' p (link_after up (length bs) xs)"
  using assms(1)
proof (induction xs arbitrary: p)
  case (Cons x xs)
  then have x: "p = Some x" "x < length bs" "chain bs' (next_bus (bs ! x)) (link_after up (length bs) xs)" by auto
  show ?case
  proof (cases "x = up")
    case True
    then show ?thesis using x assms(2-4) by (simp add: link_after_simps nth_append nth_list_update)
  next
    case False
    then have "next_bus (bs' ! x) = next_bus (bs ! x)" using x assms(2,3) by (simp add: nth_append nth_list_update)
    then show ?thesis using x False assms(3) by (simp add: link_after_simps)
  qed
qed (simp add: link_after_simps)

definition buses_linked :: "pci_bus list \<Rightarrow> bool" where
  "buses_linked bs \<longleftrightarrow> (\<forall>b < length bs. \<exists>xs. chain bs (Some b) xs \<and> distinct xs)"

lemma walk_returns:
  assumes "buses_linked bs" "b < length bs"
  shows "\<exists>xs. set xs \<subseteq> {..<length bs} \<and> bus_walk bs num (length bs) (Some b) = Inr (find (\<lambda>x. bus_num (bs ! x) = num) xs)"
proof -
  obtain xs where xs: "chain bs (Some b) xs" "distinct xs" using assms by (auto simp: buses_linked_def)
  show ?thesis using bus_walk_chain [OF xs(1) chain_length [OF xs]] chain_bound [OF xs(1)] by blast
qed

lemma linked_cong:
  assumes "buses_linked bs" "length bs' = length bs" "\<And>i. i < length bs \<Longrightarrow> next_bus (bs' ! i) = next_bus (bs ! i)"
  shows "buses_linked bs'"
  using assms chain_cong [of bs _ _ bs'] unfolding buses_linked_def by metis

lemma linked_append:
  assumes "buses_linked bs" "next_bus nb = None"
  shows "buses_linked (bs @ [nb])"
  unfolding buses_linked_def
proof (intro allI impI)
  fix b assume "b < length (bs @ [nb])"
  then consider "b < length bs" | "b = length bs" by force
  then show "\<exists>xs. chain (bs @ [nb]) (Some b) xs \<and> distinct xs"
  proof cases
    case 1
    then show ?thesis using assms(1) chain_append unfolding buses_linked_def by blast
  next
    case 2
    then show ?thesis using assms(2) by (intro exI [of _ "[b]"]) simp
  qed
qed

lemma linked_link:
  assumes "buses_linked bs" "up < length bs" "next_bus nb = next_bus (bs ! up)"
  shows "buses_linked ((bs @ [nb])[up := (bs ! up)\<lparr>next_bus := Some (length bs)\<rparr>])" (is "buses_linked ?bs")
  unfolding buses_linked_def
proof (intro allI impI)
  fix b assume "b < length ?bs"
  then consider "b < length bs" | "b = length bs" by force
  then show "\<exists>xs. chain ?bs (Some b) xs \<and> distinct xs"
  proof cases
    case 1
    then obtain xs where xs: "chain bs (Some b) xs" "distinct xs" using assms(1) by (auto simp: buses_linked_def)
    then have "length bs \<notin> set xs" using chain_bound by fastforce
    with xs show ?thesis using link_chain [OF xs(1) assms(2) refl assms(3)] link_after_distinct by blast
  next
    case 2
    obtain xs where xs: "chain bs (Some up) xs" "distinct xs" using assms(1,2) by (auto simp: buses_linked_def)
    then obtain ys where ys: "xs = up # ys" by (cases xs) auto
    let ?ys = "link_after up (length bs) xs"
    have "chain ?bs (Some up) ?ys" "distinct ?ys"
      using link_chain [OF xs(1) assms(2) refl assms(3)] link_after_distinct [OF xs(2), of "length bs" up] chain_bound [OF xs(1)] by auto
    moreover have "?ys = up # length bs # link_after up (length bs) ys" by (simp add: ys link_after_simps)
    ultimately show ?thesis using 2 by (intro exI [of _ "length bs # link_after up (length bs) ys"]) auto
  qed
qed

definition pci_wf :: "pci_state \<Rightarrow> bool" where
  "pci_wf s \<longleftrightarrow> buses_linked (buses s) \<and> (\<forall>b. first_bus s = Some b \<longrightarrow> b < length (buses s))
     \<and> (\<forall>b < length (buses s). \<forall>k h. devices (buses s ! b) k = Some h \<longrightarrow>
          h < length (devs s) \<and> dev_bus (devs s ! h) = b \<and> devfn (devs s ! h) = k)
     \<and> (\<forall>h < length (devs s). dev_bus (devs s ! h) < length (buses s) \<and> devfn (devs s ! h) < 256
          \<and> length (io_regions (devs s ! h)) = PCI_NUM_REGIONS
          \<and> (config_write (devs s ! h) = Pci_bridge_write \<longrightarrow> (\<exists>b < length (buses s). bridge_bus s h = Some b)))
     \<and> (\<forall>b < length (buses s). case parent_dev (buses s ! b) of None \<Rightarrow> set_irq (buses s ! b) \<noteq> None
          | Some p \<Rightarrow> p < length (devs s) \<and> dev_bus (devs s ! p) < b)"

text \<open>What no operation on existing objects changes.\<close>

definition keeps :: "pci_device \<Rightarrow> pci_device \<Rightarrow> bool" where
  "keeps d d' \<longleftrightarrow> dev_bus d' = dev_bus d \<and> devfn d' = devfn d \<and> config_write d' = config_write d
     \<and> (length (io_regions d) = PCI_NUM_REGIONS \<longrightarrow> length (io_regions d') = PCI_NUM_REGIONS)"

definition frame :: "pci_state \<Rightarrow> pci_state \<Rightarrow> bool" where
  "frame s s' \<longleftrightarrow> first_bus s' = first_bus s \<and> bridge_bus s' = bridge_bus s
     \<and> length (devs s') = length (devs s) \<and> (\<forall>h < length (devs s). keeps (devs s ! h) (devs s' ! h))
     \<and> length (buses s') = length (buses s)
     \<and> (\<forall>b < length (buses s). next_bus (buses s' ! b) = next_bus (buses s ! b) \<and> parent_dev (buses s' ! b) = parent_dev (buses s ! b)
          \<and> set_irq (buses s' ! b) = set_irq (buses s ! b) \<and> map_irq (buses s' ! b) = map_irq (buses s ! b)
          \<and> nirq (buses s' ! b) = nirq (buses s ! b) \<and> devices (buses s' ! b) \<subseteq>\<^sub>m devices (buses s ! b))"

lemma nth_update_if: "xs[i := x] ! j = (if i = j \<and> j < length xs then x else xs ! j)"
  by (cases "i < length xs") (auto simp: nth_list_update list_update_beyond not_less)

lemma keeps_refl: "keeps d d"
  by (simp add: keeps_def)

lemma keeps_trans: "keeps d d' \<Longrightarrow> keeps d' d'' \<Longrightarrow> keeps d d''"
  by (auto simp: keeps_def)

lemma frame_refl: "frame s s"
  by (simp add: frame_def keeps_refl)

lemma frame_trans: "frame s s' \<Longrightarrow> frame s' s'' \<Longrightarrow> frame s s''"
  unfolding frame_def using keeps_trans map_le_trans by fastforce

lemma frame_wf:
  assumes "pci_wf s" "frame s s'"
  shows "pci_wf s'"
proof -
  note f = assms(2) [unfolded frame_def keeps_def]
  have "buses_linked (buses s)" using assms(1) by (simp add: pci_wf_def)
  then have "buses_linked (buses s')" by (rule linked_cong) (use f in blast)+
  moreover have "\<forall>b < length (buses s'). \<forall>k h. devices (buses s' ! b) k = Some h \<longrightarrow>
          h < length (devs s') \<and> dev_bus (devs s' ! h) = b \<and> devfn (devs s' ! h) = k"
  proof (intro allI impI)
    fix b k h assume b: "b < length (buses s')" and d: "devices (buses s' ! b) k = Some h"
    then have "devices (buses s ! b) k = Some h" using f by (metis map_le_def domI)
    then show "h < length (devs s') \<and> dev_bus (devs s' ! h) = b \<and> devfn (devs s' ! h) = k"
      using assms(1) b f by (auto simp: pci_wf_def)
  qed
  moreover have "\<forall>b < length (buses s'). case parent_dev (buses s' ! b) of None \<Rightarrow> set_irq (buses s' ! b) \<noteq> None
          | Some p \<Rightarrow> p < length (devs s') \<and> dev_bus (devs s' ! p) < b"
    using assms(1) f by (auto simp: pci_wf_def split: option.splits)
  ultimately show ?thesis using assms(1) f by (simp add: pci_wf_def)
qed

lemma frame_upd_dev: "(\<And>d. keeps d (f d)) \<Longrightarrow> frame s (upd_dev h f s)"
  by (auto simp: frame_def upd_dev_def nth_update_if keeps_refl)

lemma frame_put_dev: "keeps (devs s ! h) d \<Longrightarrow> frame s (upd_dev h (\<lambda>_. d) s)"
  by (auto simp: frame_def upd_dev_def nth_update_if keeps_refl)

lemma frame_upd_bus:
  assumes "\<And>u. next_bus (f u) = next_bus u \<and> parent_dev (f u) = parent_dev u \<and> set_irq (f u) = set_irq u \<and> map_irq (f u) = map_irq u
    \<and> nirq (f u) = nirq u \<and> devices (f u) \<subseteq>\<^sub>m devices u"
  shows "frame s (upd_bus b f s)"
  using assms by (auto simp: frame_def upd_bus_def nth_update_if keeps_refl)

lemma frame_hide: "frame s (pci_hide_device h s)"
  unfolding pci_hide_device_def by (rule frame_upd_bus) (auto simp: map_le_def)

section \<open>Operations keep well-formedness\<close>

lemma update_keeps:
  "length (io_regions d) = PCI_NUM_REGIONS \<Longrightarrow> pci_update_mappings c d m = Inr (d', m') \<Longrightarrow> keeps d d'"
  using update_mappings_moved [of d c m d' m'] by (auto simp: keeps_def moved_def)

lemma default_write_keeps:
  assumes "length (io_regions d) = PCI_NUM_REGIONS" "pci_default_write_config c d address val len m = Inr (d', m')"
  shows "keeps d d'"
proof -
  have "\<exists>cf. d' = d\<lparr>config := cf\<rparr> \<or> pci_update_mappings c (d\<lparr>config := cf\<rparr>) m = Inr (d', m')"
    using assms(2) unfolding pci_default_write_config_def write_config_default_def Let_def
    by (auto simp: res_bind_Inr_iff split: option.splits if_splits)
  then obtain cf where "d' = d\<lparr>config := cf\<rparr> \<or> pci_update_mappings c (d\<lparr>config := cf\<rparr>) m = Inr (d', m')" by blast
  then show ?thesis
    using update_keeps [of "d\<lparr>config := cf\<rparr>" c m d' m'] assms(1) by (auto simp: keeps_def)
qed

lemma set_irq_frame:
  assumes "pci_set_irq c h i level (s, m) = Inr (s', m')"
  shows "frame s s'"
proof -
  have d: "frame s (upd_dev h (\<lambda>d. d\<lparr>irq_state := (irq_state d)(i := level)\<rparr>) s)" by (rule frame_upd_dev) (simp add: keeps_def)
  have b: "frame t (upd_bus b (\<lambda>u. u\<lparr>irq_count := (irq_count u)(n := k)\<rparr>) t)" for t b n k by (rule frame_upd_bus) simp
  show ?thesis using assms
    by (auto simp: pci_set_irq_def Let_def res_bind_Inr_iff frame_refl split: if_splits option.splits intro!: frame_trans [OF d b])
qed

text \<open>What the bus manager relies on in the configuration callbacks of the devices: the fields it owns stay as they are.\<close>

locale pci_drivers =
  fixes c :: "('a mem_bus_scheme, 'c) pci_code_scheme"
  assumes driver_write: "call_config_write c fn d address val len m = Inr (d', m') \<Longrightarrow> keeps d d'"
    and driver_read: "call_config_read c fn d address len m = Inr (v, d', m') \<Longrightarrow> keeps d d'"
begin

lemma config_write_frame:
  assumes "pci_wf s" "h < length (devs s)" "dev_config_write c h address val len (s, m) = Inr (s', m')"
  shows "frame s s'"
proof -
  have l: "length (io_regions (devs s ! h)) = PCI_NUM_REGIONS" using assms(1,2) by (simp add: pci_wf_def)
  show ?thesis
  proof (cases "config_write (devs s ! h)")
    case Pci_bridge_write
    have num: "frame s (upd_bus b (\<lambda>u. u\<lparr>bus_num := n\<rparr>) s)" for b n by (rule frame_upd_bus) simp
    have dev: "devs (upd_bus b f s) = devs s" for b f by (simp add: upd_bus_def)
    show ?thesis using assms(3) Pci_bridge_write default_write_keeps [OF l]
      by (auto simp: dev_config_write_def pci_bridge_write_config_def res_bind_Inr_iff dev split: if_splits option.splits
          intro!: frame_put_dev frame_trans [OF num frame_put_dev])
  qed (use assms(3) default_write_keeps [OF l] driver_write in
      \<open>auto simp: dev_config_write_def piix3_write_config_def res_bind_Inr_iff intro!: frame_put_dev\<close>)
qed

lemma config_read_frame:
  "dev_config_read c h address len (s, m) = Inr (v, s', m') \<Longrightarrow> frame s s'"
  using driver_read [of _ "devs s ! h" address len m]
  by (auto simp: dev_config_read_def res_bind_Inr_iff frame_refl split: config_reader.splits intro!: frame_put_dev)

lemma data_read_frame: "pci_data_read c b addr len (s, m) = Inr (v, s', m') \<Longrightarrow> frame s s'"
  using config_read_frame by (fastforce simp: pci_data_read_def res_bind_Inr_iff frame_refl split: option.splits)

lemma target_valid:
  assumes "pci_wf s" "b < length (buses s)" "pci_target b addr s = Inr (Some h)"
  shows "h < length (devs s)"
proof -
  obtain xs where xs: "set xs \<subseteq> {..<length (buses s)}" "bus_walk (buses s) (unat (drop_bit 16 addr AND 0xff)) (length (buses s)) (Some b)
      = Inr (find (\<lambda>x. bus_num (buses s ! x) = unat (drop_bit 16 addr AND 0xff)) xs)"
    using walk_returns [of "buses s" b "unat (drop_bit 16 addr AND 0xff)"] assms(1,2) unfolding pci_wf_def by blast
  then obtain x where "find (\<lambda>x. bus_num (buses s ! x) = unat (drop_bit 16 addr AND 0xff)) xs = Some x"
    and h: "devices (buses s ! x) (unat (drop_bit 8 addr AND 0xff)) = Some h"
    using assms(3) by (auto simp: pci_target_def split: option.splits)
  then have "x < length (buses s)" using xs(1) by (auto simp: find_Some_iff dest: nth_mem)
  then show ?thesis using assms(1) h unfolding pci_wf_def by blast
qed

lemma data_write_frame:
  assumes "pci_wf s" "b < length (buses s)" "pci_data_write c b addr val len (s, m) = Inr (s', m')"
  shows "frame s s'"
proof (cases "pci_target b addr s")
  case (Inr t)
  show ?thesis
  proof (cases t)
    case (Some h)
    then show ?thesis
      using Inr assms(3) config_write_frame [OF assms(1) target_valid [OF assms(1,2)], of addr h "addr AND 0xff" val len m s' m']
      by (simp add: pci_data_write_def)
  qed (use Inr assms(3) in \<open>simp add: pci_data_write_def frame_refl\<close>)
qed (use assms(3) in \<open>simp add: pci_data_write_def\<close>)

end

text \<open>While a bridge is being created its bus does not exist yet: the part of well-formedness that holds all along.\<close>

definition pci_struct :: "pci_state \<Rightarrow> bool" where
  "pci_struct s \<longleftrightarrow> buses_linked (buses s) \<and> (\<forall>b. first_bus s = Some b \<longrightarrow> b < length (buses s))
     \<and> (\<forall>b < length (buses s). \<forall>k h. devices (buses s ! b) k = Some h \<longrightarrow>
          h < length (devs s) \<and> dev_bus (devs s ! h) = b \<and> devfn (devs s ! h) = k)
     \<and> (\<forall>h < length (devs s). dev_bus (devs s ! h) < length (buses s) \<and> devfn (devs s ! h) < 256
          \<and> length (io_regions (devs s ! h)) = PCI_NUM_REGIONS)
     \<and> (\<forall>b < length (buses s). case parent_dev (buses s ! b) of None \<Rightarrow> set_irq (buses s ! b) \<noteq> None
          | Some p \<Rightarrow> p < length (devs s) \<and> dev_bus (devs s ! p) < b)"

definition bridges_ok :: "pci_state \<Rightarrow> nat set \<Rightarrow> bool" where
  "bridges_ok s X \<longleftrightarrow> (\<forall>h < length (devs s). h \<notin> X \<longrightarrow> config_write (devs s ! h) = Pci_bridge_write \<longrightarrow>
     (\<exists>b < length (buses s). bridge_bus s h = Some b))"

lemma pci_wf_split: "pci_wf s \<longleftrightarrow> pci_struct s \<and> bridges_ok s {}"
  unfolding pci_wf_def pci_struct_def bridges_ok_def by blast

lemma new_device_simps [simp]:
  "dev_bus (new_device b k name rd wr) = b" "devfn (new_device b k name rd wr) = k" "config_write (new_device b k name rd wr) = wr"
  "length (io_regions (new_device b k name rd wr)) = PCI_NUM_REGIONS" "irq_state (new_device b k name rd wr) = (\<lambda>_. 0)"
  by (simp_all add: new_device_def pci_set_default_subsystem_id_def)

lemma register_device_cases:
  assumes "pci_register_device b name n rd wr s = Inr (r, s')"
  shows "r = None \<and> s' = s \<or> r = Some (length (devs s)) \<and> (\<exists>k < 256. s' = upd_bus b (\<lambda>u. u\<lparr>devices := (devices u)(k \<mapsto> length (devs s))\<rparr>)
    (s\<lparr>devs := devs s @ [new_device b k name rd wr]\<rparr>))"
proof (cases "if n < 0 then free_devfn b s else Some (nat n)")
  case None
  then show ?thesis using assms by (simp add: pci_register_device_def)
next
  case (Some k)
  then have "k < 256" using assms by (auto simp: pci_register_device_def split: if_splits)
  then show ?thesis using assms Some unfolding pci_register_device_def
    by (intro disjI2 conjI exI [of _ k]) (auto simp: Let_def)
qed

lemma add_device_struct:
  assumes "pci_struct s" "b < length (buses s)" "k < 256"
    and s': "s' = upd_bus b (\<lambda>u. u\<lparr>devices := (devices u)(k \<mapsto> length (devs s))\<rparr>) (s\<lparr>devs := devs s @ [new_device b k name rd wr]\<rparr>)"
  shows "pci_struct s'"
proof -
  have e: "devs s' = devs s @ [new_device b k name rd wr]" "length (buses s') = length (buses s)" "first_bus s' = first_bus s"
    "\<And>i. i < length (buses s) \<Longrightarrow> buses s' ! i = (if i = b then (buses s ! b)\<lparr>devices := (devices (buses s ! b))(k \<mapsto> length (devs s))\<rparr> else buses s ! i)"
    by (auto simp: s' upd_bus_def nth_update_if)
  have "buses_linked (buses s)" using assms(1) by (simp add: pci_struct_def)
  then have "buses_linked (buses s')" by (rule linked_cong) (use e in auto)
  then show ?thesis using assms(1-3) e unfolding pci_struct_def
    by (auto simp: nth_append less_Suc_eq split: if_splits option.splits)
qed

lemma add_device_bridges:
  assumes "bridges_ok s X" "length (devs s) \<in> X \<or> wr \<noteq> Pci_bridge_write"
    and s': "s' = upd_bus b (\<lambda>u. u\<lparr>devices := (devices u)(k \<mapsto> length (devs s))\<rparr>) (s\<lparr>devs := devs s @ [new_device b k name rd wr]\<rparr>)"
  shows "bridges_ok s' X"
  using assms(1,2) by (auto simp: bridges_ok_def s' upd_bus_def nth_append less_Suc_eq)

lemma register_device_wf:
  assumes "pci_wf s" "b < length (buses s)" "pci_register_device b name n rd wr s = Inr (r, s')" "wr \<noteq> Pci_bridge_write"
  shows "pci_wf s'"
  using register_device_cases [OF assms(3)] assms add_device_struct [of s b] add_device_bridges [of s "{}" wr]
  unfolding pci_wf_split by blast

lemma register_bus_wf:
  assumes "pci_wf s"
  shows "pci_wf (snd (pci_register_bus sirq mirq pic dmin n s))"
proof -
  let ?nb = "new_bus\<lparr>set_irq := Some sirq, map_irq := mirq, irq_opaque := pic, devfn_min := dmin, nirq := n\<rparr>"
  have "buses_linked (buses s @ [?nb])" using assms by (intro linked_append) (simp_all add: pci_wf_def new_bus_def)
  then show ?thesis using assms unfolding pci_wf_def
    by (auto simp: pci_register_bus_def Let_def nth_append new_bus_def less_Suc_eq split: option.splits)
qed

lemma secondary_bus_struct:
  assumes "pci_struct s" "h < length (devs s)"
  shows "pci_struct (snd (pci_register_secondary_bus h mirq s))"
proof -
  define up where "up = dev_bus (devs s ! h)"
  define nb where "nb = new_bus\<lparr>map_irq := mirq, parent_dev := Some h, next_bus := next_bus (buses s ! up)\<rparr>"
  define s' where "s' = snd (pci_register_secondary_bus h mirq s)"
  have up: "up < length (buses s)" using assms by (simp add: pci_struct_def up_def)
  then have e: "buses s' = (buses s @ [nb])[up := (buses s ! up)\<lparr>next_bus := Some (length (buses s))\<rparr>]" "devs s' = devs s" "first_bus s' = first_bus s"
    by (simp_all add: s'_def pci_register_secondary_bus_def Let_def upd_bus_def nb_def up_def nth_append)
  have "buses_linked (buses s)" using assms(1) by (simp add: pci_struct_def)
  then have l: "buses_linked (buses s')" unfolding e(1) by (intro linked_link [OF _ up]) (simp_all add: nb_def)
  have n: "buses s' ! i = (if i = up then (buses s ! up)\<lparr>next_bus := Some (length (buses s))\<rparr> else if i = length (buses s) then nb else buses s ! i)"
    if "i < Suc (length (buses s))" for i
    using that up by (auto simp: e nth_update_if nth_append)
  have len: "length (buses s') = Suc (length (buses s))" by (simp add: e)
  have "devices nb = (\<lambda>_. None)" "parent_dev nb = Some h" by (simp_all add: nb_def new_bus_def)
  then have d: "devices (buses s' ! i) = (if i < length (buses s) then devices (buses s ! i) else (\<lambda>_. None))"
    and p: "parent_dev (buses s' ! i) = (if i < length (buses s) then parent_dev (buses s ! i) else Some h)"
    and q: "i < length (buses s) \<Longrightarrow> set_irq (buses s' ! i) = set_irq (buses s ! i)" if "i < Suc (length (buses s))" for i
    using n [OF that] up that by auto
  note st = assms(1) [unfolded pci_struct_def]
  show ?thesis unfolding s'_def [symmetric] pci_struct_def e(2,3) len
  proof (intro conjI allI impI)
    fix b k h' assume b: "b < Suc (length (buses s))" and "devices (buses s' ! b) k = Some h'"
    then have "b < length (buses s)" "devices (buses s ! b) k = Some h'" using d [OF b] by (auto split: if_splits)
    then show "h' < length (devs s)" "dev_bus (devs s ! h') = b" "devfn (devs s ! h') = k" using st by blast+
  next
    fix b assume b: "b < Suc (length (buses s))"
    then show "case parent_dev (buses s' ! b) of None \<Rightarrow> set_irq (buses s' ! b) \<noteq> None | Some p \<Rightarrow> p < length (devs s) \<and> dev_bus (devs s ! p) < b"
    proof (cases "b < length (buses s)")
      case True
      then have "case parent_dev (buses s ! b) of None \<Rightarrow> set_irq (buses s ! b) \<noteq> None | Some p \<Rightarrow> p < length (devs s) \<and> dev_bus (devs s ! p) < b"
        using st by blast
      then show ?thesis using True p [OF b] q [OF b] by (simp split: option.splits)
    next
      case False
      then show ?thesis using st p [OF b] b assms(2) by (simp add: less_Suc_eq)
    qed
  qed (use l st in \<open>auto simp: less_SucI\<close>)
qed

lemma pci_struct_bridge: "pci_struct (s\<lparr>bridge_bus := x\<rparr>) = pci_struct s"
  unfolding pci_struct_def by (simp cong: option.case_cong)

lemma bridge_init_wf:
  assumes "pci_wf s" "b < length (buses s)" "pci_bridge_init b n vid did rid mirq name s = Inr (nb, s')"
  shows "pci_wf s'"
proof -
  obtain r s1 where r: "pci_register_device b name n Pci_default_read Pci_bridge_write s = Inr (r, s1)"
    using assms(3) by (auto simp: pci_bridge_init_def res_bind_Inr_iff)
  then have rh: "r = Some (length (devs s))"
    using register_device_cases [OF r] assms(3) by (auto simp: pci_bridge_init_def res_bind_Inr_iff)
  define h where "h = length (devs s)"
  obtain k where k: "k < 256" and s1: "s1 = upd_bus b (\<lambda>u. u\<lparr>devices := (devices u)(k \<mapsto> h)\<rparr>)
      (s\<lparr>devs := devs s @ [new_device b k name Pci_default_read Pci_bridge_write]\<rparr>)"
    using register_device_cases [OF r] rh by (auto simp: h_def)
  have "pci_struct s1" using add_device_struct [OF _ assms(2) k s1 [unfolded h_def]] assms(1) by (simp add: pci_wf_split)
  moreover have "bridges_ok s {h}" using assms(1) by (simp add: pci_wf_split bridges_ok_def)
  then have "bridges_ok s1 {h}" using add_device_bridges [OF _ _ s1 [unfolded h_def]] by (simp add: h_def)
  moreover have h1: "h < length (devs s1)" by (simp add: s1 upd_bus_def h_def)
  moreover define s2 where "s2 = upd_dev h (\<lambda>d. d\<lparr>config := bridge_header vid did rid (config d)\<rparr>) s1"
  ultimately have s2: "pci_struct s2" "bridges_ok s2 {h}" "h < length (devs s2)"
    by (auto simp: pci_struct_def bridges_ok_def s2_def upd_dev_def nth_update_if split: option.splits)
  have st3: "pci_struct (snd (pci_register_secondary_bus h mirq s2))" by (rule secondary_bus_struct [OF s2(1,3)])
  have e: "s' = (snd (pci_register_secondary_bus h mirq s2))\<lparr>bridge_bus := (bridge_bus (snd (pci_register_secondary_bus h mirq s2)))(h \<mapsto> nb)\<rparr>"
    "nb = length (buses s2)"
    using assms(3) r rh by (auto simp: pci_bridge_init_def h_def s2_def Let_def pci_register_secondary_bus_def split: prod.splits)
  have "pci_struct s'" using st3 by (simp add: e pci_struct_bridge)
  moreover have "bridges_ok s' {}"
    using s2(2) by (auto simp: bridges_ok_def e pci_register_secondary_bus_def Let_def upd_bus_def less_SucI)
  ultimately show ?thesis by (simp add: pci_wf_split)
qed

lemma isa_bridge_init_wf:
  assumes "pci_wf s" "b < length (buses s)" "pci_isa_bridge_init b n vid did rid mirq name s = Inr (nb, s')"
  shows "pci_wf s'"
proof -
  obtain s1 h where s1: "pci_bridge_init b n vid did rid mirq name s = Inr (nb, s1)"
    and s': "s' = upd_dev h (\<lambda>d. d\<lparr>config := (pci_config_set_class 0x0601 (config d))(0x0e := 0x80)\<rparr>) s1"
    using assms(3) by (auto simp: pci_isa_bridge_init_def res_bind_Inr_iff split: option.splits)
  have "frame s1 s'" unfolding s' by (rule frame_upd_dev) (simp add: keeps_def)
  then show ?thesis by (rule frame_wf [OF bridge_init_wf [OF assms(1,2) s1]])
qed

lemma unplug_frame: "pci_dev_unplug c h (s, m) = Inr (s', m') \<Longrightarrow> frame s s'"
  by (auto simp: pci_dev_unplug_def res_bind_Inr_iff frame_refl frame_hide split: if_splits)

lemma unplug_nics_frame:
  "res_fold (unplug_if_nic c b) ns (s, m) = Inr (s', m') \<Longrightarrow> frame s s'"
proof (induction ns arbitrary: s m)
  case Nil
  then show ?case by (simp add: frame_refl)
next
  case (Cons n ns)
  then obtain s1 m1 where 1: "unplug_if_nic c b n (s, m) = Inr (s1, m1)" "res_fold (unplug_if_nic c b) ns (s1, m1) = Inr (s', m')"
    by (auto simp: res_bind_Inr_iff)
  then have "frame s s1"
    by (auto simp: unplug_if_nic_def frame_refl split: option.splits if_splits intro: unplug_frame)
  with Cons.IH [OF 1(2)] show ?case by (rule frame_trans [rotated])
qed

lemma unregister_frame: "pci_unregister_device c h (s, m) = Inr (r, s', m') \<Longrightarrow> frame s s'"
  by (auto simp: pci_unregister_device_def Let_def res_bind_Inr_iff frame_refl frame_hide split: if_splits)

lemma load_mapped_frame:
  assumes "pci_wf s" "h < length (devs s)" "load_mapped c h (s, m) f = Inr ((s', m'), f')"
  shows "frame s s'"
proof -
  obtain bs d where "pci_update_mappings c (load_config bs (devs s ! h)) m = Inr (d, m')" and s': "s' = upd_dev h (\<lambda>_. d) s"
    using assms(3) by (auto simp: load_mapped_def res_bind_Inr_iff)
  moreover have l: "length (io_regions (load_config bs (devs s ! h))) = PCI_NUM_REGIONS"
    using assms(1,2) by (simp add: pci_wf_def load_config_def)
  ultimately have "keeps (load_config bs (devs s ! h)) d" by (auto intro: update_keeps)
  then have "keeps (devs s ! h) d" by (simp add: keeps_def load_config_def)
  then show ?thesis unfolding s' by (rule frame_put_dev)
qed

lemma load_irq_frame: "load_irq_levels c h is (s, m) f = Inr ((s', m'), f') \<Longrightarrow> frame s s'"
proof (induction "is" arbitrary: s m f)
  case Nil
  then show ?case by (simp add: frame_refl)
next
  case (Cons i "is")
  then obtain v f1 s1 m1 where 1: "pci_set_irq c h i (sint (v :: u32)) (s, m) = Inr (s1, m1)" "load_irq_levels c h is (s1, m1) f1 = Inr ((s', m'), f')"
    by (auto simp: res_bind_Inr_iff)
  from frame_trans [OF set_irq_frame [OF 1(1)] Cons.IH [OF 1(2)]] show ?case .
qed

lemma device_load_frame:
  assumes "pci_wf s" "h < length (devs s)" "pci_device_load c v h (s, m) f = Inr ((r, s', m'), f')"
  shows "frame s s'"
proof -
  consider "s' = s" | f1 s1 m1 f2 where "load_mapped c h (s, m) f1 = Inr ((s1, m1), f2)"
      "s' = s1 \<or> (\<exists>f3. load_irq_levels c h [0..<4] (s1, m1) f2 = Inr ((s', m'), f3))"
    using assms(3) unfolding pci_device_load_def by (auto simp: res_bind_Inr_iff split: if_splits)
  then show ?thesis
  proof cases
    case 2
    then have "frame s s1" using load_mapped_frame [OF assms(1,2)] by blast
    moreover have "frame s1 s'" using 2(2) load_irq_frame [of c h _ s1 m1 f2 s' m'] by (auto simp: frame_refl)
    ultimately show ?thesis by (rule frame_trans)
  qed (simp add: frame_refl)
qed

text \<open>Everything that happens to the buses and devices of a machine, from an empty system on.\<close>

definition empty_pci :: "bool \<Rightarrow> (nat \<Rightarrow> bool) \<Rightarrow> pci_state" where
  "empty_pci g v = \<lparr>devs = [], buses = [], first_bus = None, nbus = 0, bridge_bus = (\<lambda>_. None), gfx_passthru = g, php_valid = v\<rparr>"

inductive pci_reachable :: "('a mem_bus_scheme, 'c) pci_code_scheme \<Rightarrow> pci_state \<Rightarrow> bool" for c where
  start: "pci_reachable c (empty_pci g v)"
| add_bus: "pci_reachable c s \<Longrightarrow> pci_reachable c (snd (pci_register_bus sirq mirq pic dmin n s))"
| add_device: "pci_reachable c s \<Longrightarrow> b < length (buses s) \<Longrightarrow> wr \<noteq> Pci_bridge_write \<Longrightarrow>
    pci_register_device b name n rd wr s = Inr (r, s') \<Longrightarrow> pci_reachable c s'"
| add_bridge: "pci_reachable c s \<Longrightarrow> b < length (buses s) \<Longrightarrow>
    pci_bridge_init b n vid did rid mirq name s = Inr (nb, s') \<Longrightarrow> pci_reachable c s'"
| add_isa_bridge: "pci_reachable c s \<Longrightarrow> b < length (buses s) \<Longrightarrow>
    pci_isa_bridge_init b n vid did rid mirq name s = Inr (nb, s') \<Longrightarrow> pci_reachable c s'"
| config_cycle: "pci_reachable c s \<Longrightarrow> b < length (buses s) \<Longrightarrow>
    pci_data_write c b addr val len (s, m) = Inr (s', m') \<Longrightarrow> pci_reachable c s'"
| config_read: "pci_reachable c s \<Longrightarrow> b < length (buses s) \<Longrightarrow>
    pci_data_read c b addr len (s, m) = Inr (v, s', m') \<Longrightarrow> pci_reachable c s'"
| irq: "pci_reachable c s \<Longrightarrow> h < length (devs s) \<Longrightarrow> pci_set_irq c h i level (s, m) = Inr (s', m') \<Longrightarrow> pci_reachable c s'"
| hide: "pci_reachable c s \<Longrightarrow> h < length (devs s) \<Longrightarrow> pci_reachable c (pci_hide_device h s)"
| remove: "pci_reachable c s \<Longrightarrow> h < length (devs s) \<Longrightarrow> pci_unregister_device c h (s, m) = Inr (r, s', m') \<Longrightarrow> pci_reachable c s'"
| unplug_nics: "pci_reachable c s \<Longrightarrow> pci_unplug_all_netifs c (s, m) = Inr (s', m') \<Longrightarrow> pci_reachable c s'"
| restore: "pci_reachable c s \<Longrightarrow> h < length (devs s) \<Longrightarrow> pci_device_load c ver h (s, m) f = Inr ((r, s', m'), f') \<Longrightarrow> pci_reachable c s'"

lemma empty_wf: "pci_wf (empty_pci g v)"
  by (simp add: pci_wf_def empty_pci_def buses_linked_def)

lemma irq_route_returns:
  assumes "pci_wf s"
  shows "h < length (devs s) \<Longrightarrow> dev_bus (devs s ! h) < fuel \<Longrightarrow>
    \<exists>b k. irq_route c s fuel h n = Inr (b, k) \<and> b < length (buses s) \<and> set_irq (buses s ! b) \<noteq> None"
proof (induction fuel arbitrary: h n)
  case (Suc fuel)
  let ?b = "dev_bus (devs s ! h)" and ?k = "call_map_irq c (map_irq (buses s ! dev_bus (devs s ! h))) (devs s ! h) n"
  have b: "?b < length (buses s)" using assms Suc.prems(1) by (simp add: pci_wf_def)
  have par: "case parent_dev (buses s ! ?b) of None \<Rightarrow> set_irq (buses s ! ?b) \<noteq> None
      | Some p \<Rightarrow> p < length (devs s) \<and> dev_bus (devs s ! p) < ?b"
    using assms b unfolding pci_wf_def by blast
  show ?case
  proof (cases "set_irq (buses s ! ?b)")
    case None
    then obtain p where p: "parent_dev (buses s ! ?b) = Some p" "p < length (devs s)" "dev_bus (devs s ! p) < ?b"
      using par by (auto split: option.splits)
    with Suc.prems(2) have "dev_bus (devs s ! p) < fuel" by simp
    from Suc.IH [OF p(2) this, of ?k] None p show ?thesis by (auto simp: Let_def)
  qed (use b in \<open>auto simp: Let_def\<close>)
qed simp

lemma driversI:
  assumes "\<forall>fn d a v n m d' m'. call_config_write c fn d a v n m = Inr (d', m') \<longrightarrow> keeps d d'"
    and "\<forall>fn d a n m v d' m'. call_config_read c fn d a n m = Inr (v, d', m') \<longrightarrow> keeps d d'"
  shows "pci_drivers c"
  using assms by unfold_locales blast+

text \<open>C26: In every state that registrations, bridges, guest configuration cycles, interrupt changes, removals and
  snapshots can lead to, the bus structure is sound: every slot holds the device that believes to be there, every bridge leads to
  a bus registered after it, the chain of buses has no cycle. So the search for a bus number ends, whatever bus
  numbers the guest has programmed, and every interrupt pin leads to a bus with an interrupt controller.\<close>

theorem pci_reachable_wf:
  fixes c :: "('a mem_bus_scheme, 'c) pci_code_scheme"
  assumes "\<forall>fn d a v n m d' m'. call_config_write c fn d a v n m = Inr (d', m') \<longrightarrow> keeps d d'"
    and "\<forall>fn d a n m v d' m'. call_config_read c fn d a n m = Inr (v, d', m') \<longrightarrow> keeps d d'"
    and "pci_reachable c s"
  shows "pci_wf s \<and> (\<forall>num. \<exists>r. pci_find_bus num s = Inr r)
    \<and> (\<forall>h < length (devs s). \<forall>n. \<exists>b k. irq_route c s (length (buses s)) h n = Inr (b, k) \<and> set_irq (buses s ! b) \<noteq> None)"
proof -
  note dr = driversI [OF assms(1,2)]
  have wf: "pci_wf s" using assms(3)
  proof induction
    case (unplug_nics s m s' m')
    then have "frame s s'" using unplug_nics_frame [of c _ _ s m s' m'] frame_refl [of s]
      by (auto simp: pci_unplug_all_netifs_def split: option.splits)
    then show ?case using unplug_nics frame_wf by blast
  qed (auto simp: empty_wf register_bus_wf intro: register_device_wf bridge_init_wf isa_bridge_init_wf frame_hide unregister_frame
      frame_wf set_irq_frame device_load_frame pci_drivers.data_write_frame [OF dr] pci_drivers.data_read_frame [OF dr])
  have "\<exists>r. pci_find_bus num s = Inr r" for num
  proof (cases "first_bus s")
    case (Some b)
    then show ?thesis using wf walk_returns [of "buses s" b num] by (auto simp: pci_find_bus_def pci_wf_def)
  qed (simp add: pci_find_bus_def)
  moreover have "dev_bus (devs s ! h) < length (buses s)" if "h < length (devs s)" for h using wf that by (simp add: pci_wf_def)
  ultimately show ?thesis using wf irq_route_returns [OF wf] by metis
qed

theorem pci_reachable_wf_witness:
  "let s = snd (projr (pci_bridge_init 0 (- 1) 0x8086 0x244e 0xd0 3 ''bridge'' (snd (pci_register_bus 1 2 0 0 128 (empty_pci False (\<lambda>_. False))))))
   in pci_wf s \<and> (\<forall>num. \<exists>r. pci_find_bus num s = Inr r)
    \<and> (\<forall>h < length (devs s). \<forall>n. \<exists>b k. irq_route plain_map s (length (buses s)) h n = Inr (b, k) \<and> set_irq (buses s ! b) \<noteq> None)"
proof -
  let ?s = "snd (pci_register_bus 1 2 0 0 128 (empty_pci False (\<lambda>_. False)))"
  let ?r = "pci_bridge_init 0 (- 1) 0x8086 0x244e 0xd0 3 ''bridge'' ?s"
  have "pci_reachable plain_map ?s" by (intro pci_reachable.intros)
  moreover have b: "0 < length (buses ?s)" "devices (buses ?s ! 0) = (\<lambda>_. None)" "gfx_passthru ?s = False" "devfn_min (buses ?s ! 0) = 0"
    by (simp_all add: pci_register_bus_def empty_pci_def Let_def new_bus_def)
  have "[0..<256] = 0 # [Suc 0..<256]" by (rule upt_conv_Cons) simp
  then have "find (\<lambda>n. True) (filter (\<lambda>n. n mod 8 = 0) [0..<256]) = Some 0" by simp
  then have "free_devfn 0 ?s = Some 0" using b by (simp add: free_devfn_def pci_devfn_in_use_def)
  then have "\<exists>x. ?r = Inr x"
    by (simp add: pci_bridge_init_def pci_register_device_def Let_def case_prod_unfold del: One_nat_def)
  then obtain nb s' where r: "?r = Inr (nb, s')" by auto
  ultimately have "pci_reachable plain_map s'" using b(1) by (intro pci_reachable.add_bridge [OF _ _ r])
  then show ?thesis using pci_reachable_wf [of plain_map s'] unfolding r by (simp add: plain_map_def)
qed

section \<open>Shared interrupt lines\<close>

text \<open>The pins with a raised interrupt that lead to one line of a bus.\<close>

definition raised_on :: "('m, 'c) pci_code_scheme \<Rightarrow> pci_state \<Rightarrow> nat \<Rightarrow> int \<Rightarrow> (nat \<times> nat) set" where
  "raised_on c s b n = {(h, i). h < length (devs s) \<and> i < 4 \<and> irq_state (devs s ! h) i = 1
     \<and> irq_route c s (length (buses s)) h (int i) = Inr (b, n)}"

lemma raised_on_finite: "finite (raised_on c s b n)" "card (raised_on c s b n) \<le> 4 * length (devs s)"
proof -
  have sub: "raised_on c s b n \<subseteq> {..<length (devs s)} \<times> {..<4}" by (auto simp: raised_on_def)
  then show "finite (raised_on c s b n)" by (rule finite_subset) simp
  show "card (raised_on c s b n) \<le> 4 * length (devs s)" using card_mono [OF _ sub] by simp
qed

text \<open>Every pin of every device leads to one of the lines of bus \<open>b\<close>.\<close>

definition routed :: "('m, 'c) pci_code_scheme \<Rightarrow> pci_state \<Rightarrow> nat \<Rightarrow> bool" where
  "routed c s b \<longleftrightarrow> b < length (buses s) \<and> set_irq (buses s ! b) \<noteq> None \<and> length (devs s) < 2 ^ 28
     \<and> (\<forall>h < length (devs s). \<forall>i < 4. \<exists>n. irq_route c s (length (buses s)) h (int i) = Inr (b, n) \<and> 0 \<le> n \<and> n < int (nirq (buses s ! b)))"

text \<open>
  The contract between the bus manager and an interrupt controller: the mapping of a pin depends on the position of the device
  only, and \<open>lvl\<close>, what the controller has been told last, follows the calls.
\<close>

locale irq_wiring =
  fixes c :: "('m, 'c) pci_code_scheme"
    and lvl :: "'m \<Rightarrow> int \<Rightarrow> int"
  assumes map_devfn: "devfn d' = devfn d \<Longrightarrow> call_map_irq c fn d' n = call_map_irq c fn d n"
    and sink: "\<exists>m'. call_set_irq c fn opq n l m = Inr m' \<and> lvl m' = (lvl m)(n := l)"
begin

definition wired :: "pci_state \<Rightarrow> nat \<Rightarrow> 'm \<Rightarrow> bool" where
  "wired s b m \<longleftrightarrow> routed c s b \<and> (\<forall>h < length (devs s). \<forall>i < 4. irq_state (devs s ! h) i \<in> {0, 1})
     \<and> (\<forall>n \<ge> 0. irq_count (buses s ! b) (nat n) = int (card (raised_on c s b n))
          \<and> lvl m n = (if raised_on c s b n = {} then 0 else 1))"

lemma route_cong:
  assumes "\<And>h. dev_bus (devs s' ! h) = dev_bus (devs s ! h) \<and> devfn (devs s' ! h) = devfn (devs s ! h)"
    and "\<And>b. map_irq (buses s' ! b) = map_irq (buses s ! b) \<and> set_irq (buses s' ! b) = set_irq (buses s ! b)
      \<and> parent_dev (buses s' ! b) = parent_dev (buses s ! b)"
  shows "irq_route c s' fuel h n = irq_route c s fuel h n"
proof (induction fuel arbitrary: h n)
  case (Suc fuel)
  have "call_map_irq c fn (devs s' ! h) n = call_map_irq c fn (devs s ! h) n" for fn
    using map_devfn assms(1) by blast
  then show ?case using Suc assms by (simp add: Let_def split: option.split)
qed simp

lemma set_irq_wired:
  assumes w: "wired s b m" and hi: "h < length (devs s)" "i < 4" and l: "level = 0 \<or> level = 1"
  shows "returns (\<lambda>(s', m'). wired s' b m' \<and> length (devs s') = length (devs s)) (pci_set_irq c h i level (s, m))"
proof -
  define old where "old = irq_state (devs s ! h) i"
  have old: "old = 0 \<or> old = 1" using w hi by (auto simp: wired_def old_def)
  obtain n where n: "irq_route c s (length (buses s)) h (int i) = Inr (b, n)" "0 \<le> n" "n < int (nirq (buses s ! b))"
    using w hi unfolding wired_def routed_def by blast
  obtain fn where fn: "set_irq (buses s ! b) = Some fn" "b < length (buses s)" using w by (auto simp: wired_def routed_def)
  define s1 where "s1 = upd_dev h (\<lambda>d. d\<lparr>irq_state := (irq_state d)(i := level)\<rparr>) s"
  define cnt where "cnt = irq_count (buses s ! b) (nat n) + (level - old)"
  define s2 where "s2 = upd_bus b (\<lambda>u. u\<lparr>irq_count := (irq_count u)(nat n := cnt)\<rparr>) s1"
  have route: "irq_route c s1 f h' k = irq_route c s f h' k" "irq_route c s2 f h' k = irq_route c s f h' k" for f h' k
    by (rule route_cong; simp add: s1_def s2_def upd_dev_def upd_bus_def nth_update_if)+
  have len: "length (devs s2) = length (devs s)" "length (buses s2) = length (buses s)" "length (buses s1) = length (buses s)" "buses s1 = buses s"
    by (simp_all add: s1_def s2_def upd_dev_def upd_bus_def)
  have st: "irq_state (devs s2 ! h') = (if h' = h then (irq_state (devs s ! h))(i := level) else irq_state (devs s ! h'))" for h'
    using hi by (simp add: s1_def s2_def upd_dev_def upd_bus_def nth_update_if)
  have bus: "irq_count (buses s2 ! b) = (irq_count (buses s ! b))(nat n := cnt)" "nirq (buses s2 ! b) = nirq (buses s ! b)" "set_irq (buses s2 ! b) = Some fn"
    using fn by (simp_all add: s1_def s2_def upd_dev_def upd_bus_def nth_update_if)
  have R: "raised_on c s2 b k = (if k = n then (if level = 1 then insert (h, i) (raised_on c s b n) else raised_on c s b n - {(h, i)})
      else raised_on c s b k)" for k
    using n(1) hi l unfolding raised_on_def len route st by (auto split: if_splits)
  have mem: "(h, i) \<in> raised_on c s b n \<longleftrightarrow> old = 1" using n hi by (auto simp: raised_on_def old_def)
  have c0: "irq_count (buses s ! b) (nat n) = int (card (raised_on c s b n))" using w n(2) by (simp add: wired_def)
  have R': "cnt = int (card (raised_on c s2 b n))" if "level \<noteq> old"
    using that old l mem c0 raised_on_finite(1) [of c s b n] card_gt_0_iff [of "raised_on c s b n"]
    by (auto simp: cnt_def R card_Diff_singleton)
  have "card (raised_on c s2 b n) \<le> 4 * length (devs s)" using raised_on_finite(2) [of c s2 b n] len by simp
  then have fit: "fits 31 cnt" if "level \<noteq> old" using R' [OF that] w by (auto simp: fits_def wired_def routed_def)
  have zero: "cnt = 0 \<longleftrightarrow> raised_on c s2 b n = {}" if "level \<noteq> old" using R' [OF that] raised_on_finite(1) [of c s2 b n] by simp
  have rt: "routed c s2 b" using w len bus fn unfolding wired_def routed_def len route by simp
  obtain m' where m': "call_set_irq c fn (irq_opaque (buses s ! b)) n (if cnt \<noteq> 0 then 1 else 0) m = Inr m'"
    "lvl m' = (lvl m)(n := (if cnt \<noteq> 0 then 1 else 0))" using sink by blast
  show ?thesis
  proof (cases "level = old")
    case True
    then show ?thesis using w hi by (simp add: pci_set_irq_def old_def fits_def Let_def)
  next
    case False
    have f: "fits 31 (level - old)" using old l by (auto simp: fits_def)
    have "pci_set_irq c h i level (s, m) = Inr (s2, m')"
      using False hi f fit [OF False] n fn m'(1) route len(4)
      unfolding pci_set_irq_def by (simp add: old_def [symmetric] s1_def [symmetric] cnt_def [symmetric] s2_def Let_def)
    moreover have "wired s2 b m'"
      unfolding wired_def
    proof (intro conjI allI impI)
      fix k :: int assume k: "0 \<le> k"
      have e: "nat k = nat n \<longleftrightarrow> k = n" using k n(2) by auto
      show "irq_count (buses s2 ! b) (nat k) = int (card (raised_on c s2 b k))"
        using w k R [of k] R' [OF False] unfolding bus(1) wired_def by (auto simp: e)
      show "lvl m' k = (if raised_on c s2 b k = {} then 0 else 1)"
        using w k R [of k] zero [OF False] unfolding m'(2) wired_def by auto
    qed (use rt w l len st in \<open>auto simp: wired_def\<close>)
    ultimately show ?thesis by (simp add: len)
  qed
qed

lemma set_irq_wired_frame:
  assumes "wired s b m" "h < length (devs s)" "i < 4" "level = 0 \<or> level = 1"
  shows "returns (\<lambda>(s', m'). wired s' b m' \<and> frame s s') (pci_set_irq c h i level (s, m))"
  using set_irq_wired [OF assms] by (auto simp: returns_def intro: set_irq_frame)

lemma irq_events:
  assumes "wired s b m" "\<And>h i l. (h, i, l) \<in> set evs \<Longrightarrow> h < length (devs s) \<and> i < 4 \<and> (l = 0 \<or> l = 1)"
  shows "returns (\<lambda>(s', m'). wired s' b m' \<and> frame s s') (res_fold (\<lambda>(h, i, l). pci_set_irq c h i l) evs (s, m))"
proof (rule returns_fold)
  fix ev sm assume ev: "ev \<in> set evs" and sm: "case sm of (s', m') \<Rightarrow> wired s' b m' \<and> frame s s'"
  obtain h i l where e: "ev = (h, i, l)" by (cases ev) auto
  obtain s1 m1 where e1: "sm = (s1, m1)" by (cases sm)
  have f: "frame s s1" "wired s1 b m1" using sm by (simp_all add: e1)
  have "h < length (devs s1)" "i < 4" "l = 0 \<or> l = 1" using assms(2) ev f(1) by (auto simp: e frame_def)
  from set_irq_wired_frame [OF f(2) this]
  show "returns (\<lambda>(s', m'). wired s' b m' \<and> frame s s') ((\<lambda>(h, i, l). pci_set_irq c h i l) ev sm)"
    by (auto simp: e e1 intro: returns_mono frame_trans [OF f(1)])
qed (use assms frame_refl in auto)

end

end
