(* ===== verification/Piix_Pci.thy ===== *)
theory Piix_Pci
  imports Pci_Bus Pc_Bus
begin

text \<open>
  The host bridge of the PC (\<^verbatim>\<open>hw/piix_pci.c\<close> as built for the device model, \<^verbatim>\<open>CONFIG_DM\<close>) with its configuration ports
  (\<^verbatim>\<open>hw/pci_host.h\<close>), the interrupt routing to the hypervisor, and the PIIX3 ISA bridge. The machine is the port and memory
  bus extended by the state of the bridge, the PCI buses behind it, and the calls made to the hypervisor:
  \<open>intx\<close> the levels of interrupt pins, latest first, \<open>link_routes\<close> the programmed links. A \<open>pci_code\<close>
  parameter \<open>dv\<close> gives the callbacks of the devices on the bus.
\<close>

section \<open>State\<close>

record pci_host = mem_bus +
  config_reg :: u32
  host_bus :: nat
  pcis :: pci_state
  piix3_dev :: "nat option"
  intx :: "((int \<times> int) \<times> int) list"
  link_routes :: "(nat \<times> u8) list"

abbreviation (input) "I440FX_ADDR_WRITEL \<equiv> (20::nat)"
abbreviation (input) "I440FX_ADDR_READL \<equiv> (21::nat)"
abbreviation (input) "PCI_HOST_DATA_WRITEB \<equiv> (22::nat)"
abbreviation (input) "PCI_HOST_DATA_WRITEW \<equiv> (23::nat)"
abbreviation (input) "PCI_HOST_DATA_WRITEL \<equiv> (24::nat)"
abbreviation (input) "PCI_HOST_DATA_READB \<equiv> (25::nat)"
abbreviation (input) "PCI_HOST_DATA_READW \<equiv> (26::nat)"
abbreviation (input) "PCI_HOST_DATA_READL \<equiv> (27::nat)"

section \<open>Interrupt routing\<close>

definition pci_slot_get_pirq :: "pci_device \<Rightarrow> int \<Rightarrow> int" where
  "pci_slot_get_pirq d irq_num = irq_num + int (devfn d div 8) * 4"

definition i440fx_set_irq :: "int \<Rightarrow> int \<Rightarrow> 'a pci_host_scheme \<Rightarrow> 'a pci_host_scheme" where
  "i440fx_set_irq irq_num level m = m\<lparr>intx := ((irq_num div 4, irq_num mod 4), level) # intx m\<rparr>"

text \<open>The bridge's own functions put into the table of callbacks; every bus of this machine routes with \<^verbatim>\<open>pci_slot_get_pirq\<close>.\<close>

definition i440fx_code :: "'a pci_host_scheme pci_code \<Rightarrow> 'a pci_host_scheme pci_code" where
  "i440fx_code dv = dv\<lparr>call_map_irq := (\<lambda>fn d n. pci_slot_get_pirq d n),
     call_set_irq := (\<lambda>fn opq n l m. Inr (i440fx_set_irq n l m)),
     hvm_set_pci_link_route := (\<lambda>l v m. m\<lparr>link_routes := (l, v) # link_routes m\<rparr>), pci_mem_base := 0\<rparr>"

section \<open>Configuration ports\<close>

definition i440fx_addr_writel :: "u32 \<Rightarrow> u32 \<Rightarrow> 'a pci_host_scheme \<Rightarrow> 'a pci_host_scheme" where
  "i440fx_addr_writel addr val m = m\<lparr>config_reg := val\<rparr>"

definition i440fx_addr_readl :: "u32 \<Rightarrow> 'a pci_host_scheme \<Rightarrow> u32" where
  "i440fx_addr_readl addr m = config_reg m"

definition host_write :: "'a pci_host_scheme pci_code \<Rightarrow> u32 \<Rightarrow> u32 \<Rightarrow> nat \<Rightarrow> 'a pci_host_scheme \<Rightarrow> 'a pci_host_scheme res" where
  "host_write dv addr val len m =
     res_bind (pci_data_write (i440fx_code dv) (host_bus m) addr val len (pcis m, m)) (\<lambda>(s, m). Inr (m\<lparr>pcis := s\<rparr>))"

definition host_read :: "'a pci_host_scheme pci_code \<Rightarrow> u32 \<Rightarrow> nat \<Rightarrow> 'a pci_host_scheme \<Rightarrow> (u32 \<times> 'a pci_host_scheme) res" where
  "host_read dv addr len m =
     res_bind (pci_data_read (i440fx_code dv) (host_bus m) addr len (pcis m, m)) (\<lambda>(v, s, m). Inr (v, m\<lparr>pcis := s\<rparr>))"

definition pci_host_data_writeb where
  "pci_host_data_writeb dv addr val m = (if bit (config_reg m) 31 then host_write dv (config_reg m OR (addr AND 3)) val 1 m else Inr m)"

definition pci_host_data_writew where
  "pci_host_data_writew dv addr val m = (if bit (config_reg m) 31 then host_write dv (config_reg m OR (addr AND 3)) val 2 m else Inr m)"

definition pci_host_data_writel where
  "pci_host_data_writel dv (addr :: u32) val m = (if bit (config_reg m) 31 then host_write dv (config_reg m) val 4 m else Inr m)"

definition pci_host_data_readb where
  "pci_host_data_readb dv addr m = (if \<not> bit (config_reg m) 31 then Inr (0xff, m) else host_read dv (config_reg m OR (addr AND 3)) 1 m)"

definition pci_host_data_readw where
  "pci_host_data_readw dv addr m = (if \<not> bit (config_reg m) 31 then Inr (0xffff, m) else host_read dv (config_reg m OR (addr AND 3)) 2 m)"

definition pci_host_data_readl where
  "pci_host_data_readl dv addr m = (if \<not> bit (config_reg m) 31 then Inr (0xffffffff, m) else host_read dv (config_reg m OR (addr AND 3)) 4 m)"

definition host_port_code :: "'a pci_host_scheme pci_code \<Rightarrow> 'a pci_host_scheme port_code" where
  "host_port_code dv =
     \<lparr>call_port_read = (\<lambda>fn opq a m.
        if fn = I440FX_ADDR_READL then Inr (i440fx_addr_readl a m, m)
        else if fn = PCI_HOST_DATA_READB then pci_host_data_readb dv a m
        else if fn = PCI_HOST_DATA_READW then pci_host_data_readw dv a m
        else if fn = PCI_HOST_DATA_READL then pci_host_data_readl dv a m
        else Inl Bad_access),
      call_port_write = (\<lambda>fn opq a v m.
        if fn = I440FX_ADDR_WRITEL then Inr (i440fx_addr_writel a v m)
        else if fn = PCI_HOST_DATA_WRITEB then pci_host_data_writeb dv a v m
        else if fn = PCI_HOST_DATA_WRITEW then pci_host_data_writew dv a v m
        else if fn = PCI_HOST_DATA_WRITEL then pci_host_data_writel dv a v m
        else Inl Bad_access)\<rparr>"

section \<open>Initialisation\<close>

definition i440fx_register :: "nat \<Rightarrow> 'a port_bus_scheme \<Rightarrow> 'a port_bus_scheme res" where
  "i440fx_register s m =
     res_bind (register_ioport_write 0xcf8 4 4 I440FX_ADDR_WRITEL s m) (\<lambda>m.
     res_bind (register_ioport_read 0xcf8 4 4 I440FX_ADDR_READL s m) (\<lambda>m.
     res_bind (register_ioport_write 0xcfc 4 1 PCI_HOST_DATA_WRITEB s m) (\<lambda>m.
     res_bind (register_ioport_write 0xcfc 4 2 PCI_HOST_DATA_WRITEW s m) (\<lambda>m.
     res_bind (register_ioport_write 0xcfc 4 4 PCI_HOST_DATA_WRITEL s m) (\<lambda>m.
     res_bind (register_ioport_read 0xcfc 4 1 PCI_HOST_DATA_READB s m) (\<lambda>m.
     res_bind (register_ioport_read 0xcfc 4 2 PCI_HOST_DATA_READW s m)
       (register_ioport_read 0xcfc 4 4 PCI_HOST_DATA_READL s)))))))"

definition i440fx_header :: "(nat \<Rightarrow> u8) \<Rightarrow> nat \<Rightarrow> u8" where
  "i440fx_header cf =
     (pci_config_set_class 0x0600 ((pci_config_set_device_id 0x1237 (pci_config_set_vendor_id 0x8086 cf))(0x08 := 0x02)))
       (0x0e := 0x00)"

text \<open>
  \<open>rd\<close> and \<open>wr\<close> are the default functions, or with \<^verbatim>\<open>CONFIG_PASSTHROUGH\<close> those of \<^verbatim>\<open>hw/pt-graphics.c\<close>; \<open>opq\<close> is the address of
  the new bridge state. The results are the bus and the bridge's own device.
\<close>

definition i440fx_init :: "config_reader \<Rightarrow> config_writer \<Rightarrow> nat \<Rightarrow> 'a pci_host_scheme \<Rightarrow> ((nat \<times> nat) \<times> 'a pci_host_scheme) res" where
  "i440fx_init rd wr opq m =
     (let (b, s) = pci_register_bus 0 0 0 0 128 (pcis m) in
      res_bind (i440fx_register opq (m\<lparr>pcis := s, host_bus := b, config_reg := 0\<rparr>)) (\<lambda>m.
      res_bind (pci_register_device b ''i440FX'' 0 rd wr (pcis m)) (\<lambda>(r, s).
        case r of None \<Rightarrow> Inl Bad_access
        | Some d \<Rightarrow> Inr ((b, d), m\<lparr>pcis := upd_dev d (\<lambda>x. x\<lparr>config := i440fx_header (config x)\<rparr>) s\<rparr>))))"

definition piix3_reset :: "pci_device \<Rightarrow> pci_device" where
  "piix3_reset d = d\<lparr>config := (config d)(0x04 := 0x07, 0x05 := 0x00, 0x06 := 0x00, 0x07 := 0x02, 0x4c := 0x4d, 0x4e := 0x03, 0x4f := 0x00,
     0x60 := 0x80, 0x61 := 0x80, 0x62 := 0x80, 0x63 := 0x80, 0x69 := 0x02, 0x70 := 0x80, 0x76 := 0x0c, 0x77 := 0x0c,
     0x78 := 0x02, 0x79 := 0x00, 0x80 := 0x00, 0x82 := 0x00, 0xa0 := 0x08, 0xa2 := 0x00, 0xa3 := 0x00, 0xa4 := 0x00,
     0xa5 := 0x00, 0xa6 := 0x00, 0xa7 := 0x00, 0xa8 := 0x0f, 0xaa := 0x00, 0xab := 0x00, 0xac := 0x00, 0xae := 0x00)\<rparr>"

definition piix3_header :: "(nat \<Rightarrow> u8) \<Rightarrow> nat \<Rightarrow> u8" where
  "piix3_header cf = (pci_config_set_class 0x0601 (pci_config_set_device_id 0x7000 (pci_config_set_vendor_id 0x8086 cf)))(0x0e := 0x80)"

definition piix3_init :: "nat \<Rightarrow> int \<Rightarrow> 'a pci_host_scheme \<Rightarrow> (nat \<times> 'a pci_host_scheme) res" where
  "piix3_init b n m =
     res_bind (pci_register_device b ''PIIX3'' n Pci_default_read Piix3_write (pcis m)) (\<lambda>(r, s).
       case r of None \<Rightarrow> Inl Bad_access
       | Some d \<Rightarrow>
           let s1 = upd_dev d (\<lambda>x. piix3_reset (x\<lparr>config := piix3_header (config x)\<rparr>)) s
           in Inr (devfn (devs s1 ! d), m\<lparr>pcis := s1, piix3_dev := Some d\<rparr>))"

section \<open>Saved state\<close>

definition i440fx_save :: "nat \<Rightarrow> 'a pci_host_scheme \<Rightarrow> qemu_file \<Rightarrow> qemu_file res" where
  "i440fx_save d m f = pci_device_save (devs (pcis m) ! d) f"

definition host_device_load ::
  "'a pci_host_scheme pci_code \<Rightarrow> u32 \<Rightarrow> nat \<Rightarrow> 'a pci_host_scheme \<Rightarrow> qemu_file \<Rightarrow> ((int \<times> 'a pci_host_scheme) \<times> qemu_file) res" where
  "host_device_load dv ver d m f =
     res_bind (pci_device_load (i440fx_code dv) ver d (pcis m, m) f) (\<lambda>((r, s, m), f). Inr ((r, m\<lparr>pcis := s\<rparr>), f))"

definition i440fx_load ::
  "'a pci_host_scheme pci_code \<Rightarrow> u32 \<Rightarrow> nat \<Rightarrow> 'a pci_host_scheme \<Rightarrow> int \<Rightarrow> qemu_file \<Rightarrow> ((int \<times> 'a pci_host_scheme) \<times> qemu_file) res" where
  "i440fx_load dv ver d m version f =
     (if version > 2 then Inr ((- EINVAL, m), f)
      else res_bind (host_device_load dv ver d m f) (\<lambda>((r, m), f). if r < 0 then Inr ((r, m), f) else Inr ((0, m), f)))"

definition piix_save :: "nat \<Rightarrow> 'a pci_host_scheme \<Rightarrow> qemu_file \<Rightarrow> qemu_file res" where
  "piix_save d m f = pci_device_save (devs (pcis m) ! d) f"

definition piix_load ::
  "'a pci_host_scheme pci_code \<Rightarrow> u32 \<Rightarrow> nat \<Rightarrow> 'a pci_host_scheme \<Rightarrow> int \<Rightarrow> qemu_file \<Rightarrow> ((int \<times> 'a pci_host_scheme) \<times> qemu_file) res" where
  "piix_load dv ver d m version f = host_device_load dv ver d m f"

section \<open>Interrupt lines at the hypervisor\<close>

text \<open>The level the hypervisor has last been given for an interrupt line.\<close>

definition intx_level :: "'a pci_host_scheme \<Rightarrow> int \<Rightarrow> int" where
  "intx_level m n = (case map_of (intx m) (n div 4, n mod 4) of None \<Rightarrow> 0 | Some l \<Rightarrow> l)"

lemma intx_level_set: "intx_level (i440fx_set_irq n l m) = (intx_level m)(n := l)"
proof
  fix k :: int
  have "k div 4 = n div 4 \<and> k mod 4 = n mod 4 \<longleftrightarrow> k = n" by (metis div_mult_mod_eq)
  then show "intx_level (i440fx_set_irq n l m) k = ((intx_level m)(n := l)) k"
    by (auto simp: intx_level_def i440fx_set_irq_def)
qed

interpretation i440fx_irqs: irq_wiring "i440fx_code dv" intx_level for dv
  by unfold_locales (auto simp: i440fx_code_def pci_slot_get_pirq_def intx_level_set)

text \<open>On the root bus the route of a pin is one step.\<close>

definition on_root :: "pci_state \<Rightarrow> nat \<Rightarrow> bool" where
  "on_root s b \<longleftrightarrow> b < length (buses s) \<and> set_irq (buses s ! b) \<noteq> None \<and> nirq (buses s ! b) = 128
     \<and> (\<forall>h < length (devs s). dev_bus (devs s ! h) = b \<and> devfn (devs s ! h) < 256)"

lemma root_route:
  assumes "on_root s b" "h < length (devs s)"
  shows "irq_route (i440fx_code dv) s (length (buses s)) h n = Inr (b, n + int (devfn (devs s ! h) div 8) * 4)"
proof -
  obtain k where k: "length (buses s) = Suc k" using assms(1) by (cases "length (buses s)") (auto simp: on_root_def)
  obtain fn where "set_irq (buses s ! b) = Some fn" using assms(1) by (auto simp: on_root_def)
  then show ?thesis using assms unfolding k by (simp add: Let_def on_root_def i440fx_code_def pci_slot_get_pirq_def)
qed

lemma root_frame: "on_root s b \<Longrightarrow> frame s s' \<Longrightarrow> on_root s' b"
  by (auto simp: on_root_def frame_def keeps_def)

lemma root_routed:
  assumes "on_root s b" "length (devs s) < 2 ^ 28"
  shows "routed (i440fx_code dv) s b"
proof -
  have "int i + int (devfn (devs s ! h) div 8) * 4 < 128" if "h < length (devs s)" "i < 4" for h i
  proof -
    have "devfn (devs s ! h) < 256" using assms(1) that by (simp add: on_root_def)
    then have "devfn (devs s ! h) div 8 < 32" by simp
    then show ?thesis using that(2) by linarith
  qed
  then show ?thesis unfolding routed_def using root_route [OF assms(1), of _ dv] assms by (auto simp: on_root_def)
qed

lemma root_raised:
  assumes "on_root s b" "slot < 32" "pin < 4"
  shows "raised_on (i440fx_code dv) s b (int (slot * 4 + pin))
    = (\<lambda>h. (h, pin)) ` {h. h < length (devs s) \<and> devfn (devs s ! h) div 8 = slot \<and> irq_state (devs s ! h) pin = 1}"
proof -
  have "int i + int k * 4 = int (slot * 4 + pin) \<longleftrightarrow> i = pin \<and> k = slot" if "i < 4" for i k using that assms(3) by presburger
  then show ?thesis using root_route [OF assms(1), of _ dv] assms(3) by (auto simp: raised_on_def)
qed

text \<open>C27: Interrupts are wired together as PCI requires: after any sequence of level changes on the pins of the devices, the bus counts for
  each slot and pin exactly the functions of the slot that hold the pin, and the level the hypervisor has been
  given for the pin is their logical or. No sequence leads outside the array of counters.\<close>

theorem pci_irq_wired_or:
  assumes "on_root s b" "length (devs s) < 2 ^ 28" "\<forall>h < length (devs s). \<forall>i < 4. irq_state (devs s ! h) i = 0"
    and "irq_count (buses s ! b) = (\<lambda>_. 0)" "intx m = []"
    and "\<forall>(h, i, l) \<in> set evs. h < length (devs s) \<and> i < 4 \<and> (l = 0 \<or> l = 1)"
  shows "returns (\<lambda>(s', m'). \<forall>slot < 32. \<forall>pin < 4.
      let holders = {h. h < length (devs s') \<and> devfn (devs s' ! h) div 8 = slot \<and> irq_state (devs s' ! h) pin = 1} in
      irq_count (buses s' ! b) (slot * 4 + pin) = int (card holders)
      \<and> intx_level m' (int (slot * 4 + pin)) = (if holders = {} then 0 else 1))
    (res_fold (\<lambda>(h, i, l). pci_set_irq (i440fx_code dv) h i l) evs (s, m))"
proof -
  have none: "raised_on (i440fx_code dv) s b n = {}" for n using assms(3) by (auto simp: raised_on_def)
  have w: "i440fx_irqs.wired dv s b m"
    unfolding i440fx_irqs.wired_def using root_routed [OF assms(1,2)] assms(3-5) none by (simp add: intx_level_def)
  have key: "let holders = {h. h < length (devs s') \<and> devfn (devs s' ! h) div 8 = slot \<and> irq_state (devs s' ! h) pin = 1}
      in irq_count (buses s' ! b) (slot * 4 + pin) = int (card holders)
        \<and> intx_level m' (int (slot * 4 + pin)) = (if holders = {} then 0 else 1)"
    if s': "i440fx_irqs.wired dv s' b m'" "frame s s'" and sp: "slot < 32" "pin < 4" for s' m' slot pin
  proof -
    let ?H = "{h. h < length (devs s') \<and> devfn (devs s' ! h) div 8 = slot \<and> irq_state (devs s' ! h) pin = 1}"
    have R: "raised_on (i440fx_code dv) s' b (int (slot * 4 + pin)) = (\<lambda>h. (h, pin)) ` ?H"
      by (rule root_raised [OF root_frame [OF assms(1) s'(2)] sp])
    have "irq_count (buses s' ! b) (nat (int (slot * 4 + pin))) = int (card (raised_on (i440fx_code dv) s' b (int (slot * 4 + pin))))
        \<and> intx_level m' (int (slot * 4 + pin)) = (if raised_on (i440fx_code dv) s' b (int (slot * 4 + pin)) = {} then 0 else 1)"
      using s'(1) unfolding i440fx_irqs.wired_def by (metis of_nat_0_le_iff)
    moreover have c: "inj_on (\<lambda>h. (h, pin)) ?H" by (simp add: inj_on_def)
    ultimately show ?thesis unfolding R Let_def nat_int image_is_empty by (simp only: card_image [OF c])
  qed
  have "h < length (devs s) \<and> i < 4 \<and> (l = 0 \<or> l = 1)" if "(h, i, l) \<in> set evs" for h i l using assms(6) that by blast
  from i440fx_irqs.irq_events [OF w this] show ?thesis
    by (rule returns_mono) (simp only: split_paired_all prod.case, blast intro: key)
qed

section \<open>The configuration ports\<close>

definition changes_ports :: "'a port_bus_scheme \<Rightarrow> nat set \<Rightarrow> (ioport_data \<Rightarrow> ioport_data) \<Rightarrow> 'a port_bus_scheme \<Rightarrow> bool" where
  "changes_ports m A g m' \<longleftrightarrow> (\<exists>t. m' = m\<lparr>ioport_table := t\<rparr>) \<and> (\<forall>a. port_at m' a = (if a \<in> A then g (port_at m a) else port_at m a))"

lemma register_changes:
  assumes "access_index sz = Some k" "0 \<le> start" "start + len \<le> 65536" "A = set (visited start (start + len) sz)"
    and "\<forall>a \<in> A. opaque (port_at m a) = 0 \<or> opaque (port_at m a) = opq"
  shows "\<exists>m'. register_ioport_read start len sz fn opq m = Inr m' \<and> changes_ports m A (set_reader k fn opq) m'"
    and "\<exists>m'. register_ioport_write start len sz fn opq m = Inr m' \<and> changes_ports m A (set_writer k fn opq) m'"
proof -
  let ?ks = "visited start (start + len) sz"
  have "\<exists>m'. register_loop g opq sz start (start + len) m = Inr m' \<and> changes_ports m A g m'" if "\<And>d. opaque (g d) = opq" for g
  proof -
    have "register_loop g opq sz start (start + len) m = Inr (fold (\<lambda>a. upd_port a g) ?ks m)"
      using assms(4,5) by (intro register_loop_ok [OF assms(2,3) access_index_pos [OF assms(1)] that]) auto
    moreover have "port_at (fold (\<lambda>a. upd_port a g) ?ks m) a = (if a \<in> set ?ks then g (port_at m a) else port_at m a)" for a
      by (rule ports.look_fold_upd [OF visited_facts(1)])
    ultimately show ?thesis using fold_upd_table [of g ?ks m] assms(4) by (auto simp: changes_ports_def)
  qed
  from this [of "set_reader k fn opq"] this [of "set_writer k fn opq"]
  show "\<exists>m'. register_ioport_read start len sz fn opq m = Inr m' \<and> changes_ports m A (set_reader k fn opq) m'"
    "\<exists>m'. register_ioport_write start len sz fn opq m = Inr m' \<and> changes_ports m A (set_writer k fn opq) m'"
    using assms(1) by (simp_all add: register_ioport_read_def register_ioport_write_def set_reader_def set_writer_def)
qed

lemma access_indexes: "access_index 1 = Some 0" "access_index 2 = Some 1" "access_index 4 = Some 2"
  by (simp_all add: access_index_def)

lemma config_ports:
  "{0xcf8} = set (visited 0xcf8 (0xcf8 + 4) 4)" "{0xcfc, 0xcfd, 0xcfe, 0xcff} = set (visited 0xcfc (0xcfc + 4) 1)"
  "{0xcfc, 0xcfe} = set (visited 0xcfc (0xcfc + 4) 2)" "{0xcfc} = set (visited 0xcfc (0xcfc + 4) 4)"
  by (simp_all add: visited_def upt_conv_Cons)

definition host_ports :: "'a port_bus_scheme \<Rightarrow> bool" where
  "host_ports m \<longleftrightarrow> write_table (port_at m 0xcf8) 2 = Some I440FX_ADDR_WRITEL \<and> read_table (port_at m 0xcf8) 2 = Some I440FX_ADDR_READL
     \<and> (\<forall>a \<in> {0xcfc, 0xcfd, 0xcfe, 0xcff}. write_table (port_at m a) 0 = Some PCI_HOST_DATA_WRITEB \<and> read_table (port_at m a) 0 = Some PCI_HOST_DATA_READB)
     \<and> (\<forall>a \<in> {0xcfc, 0xcfe}. write_table (port_at m a) 1 = Some PCI_HOST_DATA_WRITEW \<and> read_table (port_at m a) 1 = Some PCI_HOST_DATA_READW)
     \<and> write_table (port_at m 0xcfc) 2 = Some PCI_HOST_DATA_WRITEL \<and> read_table (port_at m 0xcfc) 2 = Some PCI_HOST_DATA_READL"

text \<open>One registration on ports that are free or already the bridge's.\<close>

definition bridge_owns :: "nat \<Rightarrow> 'a port_bus_scheme \<Rightarrow> bool" where
  "bridge_owns opq m \<longleftrightarrow> (\<forall>a \<in> {0xcf8, 0xcfc, 0xcfd, 0xcfe, 0xcff}. opaque (port_at m a) = 0 \<or> opaque (port_at m a) = opq)"

lemma bridge_step:
  assumes "bridge_owns opq m" "access_index sz = Some k" "A = set (visited start (start + 4) sz)"
    and "A \<subseteq> {0xcf8, 0xcfc, 0xcfd, 0xcfe, 0xcff}" "start = 0xcf8 \<or> start = 0xcfc"
  shows "\<exists>m'. register_ioport_read start 4 sz fn opq m = Inr m' \<and> changes_ports m A (set_reader k fn opq) m' \<and> bridge_owns opq m'"
    and "\<exists>m'. register_ioport_write start 4 sz fn opq m = Inr m' \<and> changes_ports m A (set_writer k fn opq) m' \<and> bridge_owns opq m'"
proof -
  have o: "\<forall>a \<in> A. opaque (port_at m a) = 0 \<or> opaque (port_at m a) = opq" using assms(1,4) by (auto simp: bridge_owns_def)
  have st: "0 \<le> start" "start + 4 \<le> 65536" using assms(5) by auto
  have "bridge_owns opq m'" if "changes_ports m A g m'" "\<And>d. opaque (g d) = opq" for g m'
    using that assms(1) by (simp add: changes_ports_def bridge_owns_def)
  moreover have "opaque (set_reader k fn opq d) = opq" "opaque (set_writer k fn opq d) = opq" for d
    by (simp_all add: set_reader_def set_writer_def)
  ultimately show "\<exists>m'. register_ioport_read start 4 sz fn opq m = Inr m' \<and> changes_ports m A (set_reader k fn opq) m' \<and> bridge_owns opq m'"
    "\<exists>m'. register_ioport_write start 4 sz fn opq m = Inr m' \<and> changes_ports m A (set_writer k fn opq) m' \<and> bridge_owns opq m'"
    using register_changes [OF assms(2) st assms(3) o, of fn] by blast+
qed

lemma i440fx_register_ports:
  assumes "bridge_owns opq m"
  shows "\<exists>t. i440fx_register opq m = Inr (m\<lparr>ioport_table := t\<rparr>) \<and> host_ports (m\<lparr>ioport_table := t\<rparr>)"
proof -
  note ai = access_indexes and cp = config_ports
  obtain m1 where 1: "register_ioport_write 0xcf8 4 4 20 opq m = Inr m1" "changes_ports m {0xcf8} (set_writer 2 20 opq) m1" "bridge_owns opq m1"
    using bridge_step(2) [OF assms ai(3) cp(1)] by auto
  obtain m2 where 2: "register_ioport_read 0xcf8 4 4 21 opq m1 = Inr m2" "changes_ports m1 {0xcf8} (set_reader 2 21 opq) m2" "bridge_owns opq m2"
    using bridge_step(1) [OF 1(3) ai(3) cp(1)] by auto
  obtain m3 where 3: "register_ioport_write 0xcfc 4 1 22 opq m2 = Inr m3" "changes_ports m2 {0xcfc, 0xcfd, 0xcfe, 0xcff} (set_writer 0 22 opq) m3"
    "bridge_owns opq m3" using bridge_step(2) [OF 2(3) ai(1) cp(2)] by auto
  obtain m4 where 4: "register_ioport_write 0xcfc 4 2 23 opq m3 = Inr m4" "changes_ports m3 {0xcfc, 0xcfe} (set_writer 1 23 opq) m4" "bridge_owns opq m4"
    using bridge_step(2) [OF 3(3) ai(2) cp(3)] by auto
  obtain m5 where 5: "register_ioport_write 0xcfc 4 4 24 opq m4 = Inr m5" "changes_ports m4 {0xcfc} (set_writer 2 24 opq) m5" "bridge_owns opq m5"
    using bridge_step(2) [OF 4(3) ai(3) cp(4)] by auto
  obtain m6 where 6: "register_ioport_read 0xcfc 4 1 25 opq m5 = Inr m6" "changes_ports m5 {0xcfc, 0xcfd, 0xcfe, 0xcff} (set_reader 0 25 opq) m6"
    "bridge_owns opq m6" using bridge_step(1) [OF 5(3) ai(1) cp(2)] by auto
  obtain m7 where 7: "register_ioport_read 0xcfc 4 2 26 opq m6 = Inr m7" "changes_ports m6 {0xcfc, 0xcfe} (set_reader 1 26 opq) m7" "bridge_owns opq m7"
    using bridge_step(1) [OF 6(3) ai(2) cp(3)] by auto
  obtain m8 where 8: "register_ioport_read 0xcfc 4 4 27 opq m7 = Inr m8" "changes_ports m7 {0xcfc} (set_reader 2 27 opq) m8"
    using bridge_step(1) [OF 7(3) ai(3) cp(4)] by auto
  note ch = 1(2) 2(2) 3(2) 4(2) 5(2) 6(2) 7(2) 8(2)
  have "i440fx_register opq m = Inr m8" by (simp add: i440fx_register_def 1(1) 2(1) 3(1) 4(1) 5(1) 6(1) 7(1) 8(1))
  moreover obtain t where "m8 = m\<lparr>ioport_table := t\<rparr>" using ch unfolding changes_ports_def by auto
  moreover have "port_at m8 a = (if a = 0xcfc then set_reader 2 27 opq else id) ((if a = 0xcfc \<or> a = 0xcfe then set_reader 1 26 opq else id)
      ((if a \<in> {0xcfc, 0xcfd, 0xcfe, 0xcff} then set_reader 0 25 opq else id) ((if a = 0xcfc then set_writer 2 24 opq else id)
      ((if a = 0xcfc \<or> a = 0xcfe then set_writer 1 23 opq else id) ((if a \<in> {0xcfc, 0xcfd, 0xcfe, 0xcff} then set_writer 0 22 opq else id)
      ((if a = 0xcf8 then set_reader 2 21 opq \<circ> set_writer 2 20 opq else id) (port_at m a)))))))" for a
    using ch unfolding changes_ports_def by auto
  then have "host_ports m8" by (simp add: host_ports_def set_reader_def set_writer_def)
  ultimately show ?thesis by auto
qed

section \<open>Configuration cycles from the guest\<close>

text \<open>The address a guest puts into the address port: enable bit, function and register on bus 0.\<close>

definition config_address :: "u8 \<Rightarrow> u8 \<Rightarrow> u32" where
  "config_address dfn reg = 0x80000000 OR push_bit 8 (ucast dfn) OR ucast reg"

lemma config_address_bits: "bit (config_address dfn reg) n \<longleftrightarrow> n = 31 \<or> 8 \<le> n \<and> n < 16 \<and> bit dfn (n - 8) \<or> n < 8 \<and> bit reg n"
proof -
  have "bit (0x80000000 :: u32) n \<longleftrightarrow> n = 31" using bit_exp_iff [of 31 n, where 'a = "32 word"] by auto
  then show ?thesis by (auto simp: config_address_def bit_simps dest: bit_imp_le_length)
qed

lemma unat_ucast_u8: "unat (ucast (w :: u8) :: u32) = unat w"
  using unat_bound [of w] by (simp only: unsigned_ucast_eq) (simp add: take_bit_nat_eq_self)

lemma config_address_fields:
  "unat (drop_bit 16 (config_address dfn reg OR (w AND 3)) AND 0xff) = 0" "unat (drop_bit 8 (config_address dfn reg OR (w AND 3)) AND 0xff) = unat dfn"
    "(config_address dfn reg OR (w AND 3)) AND 0xff = ucast reg OR (w AND 3)" "bit (config_address dfn reg) 31"
proof -
  let ?a = "config_address dfn reg OR (w AND 3)"
  have w: "w AND 3 = take_bit 2 w" by (simp add: and_low_bits)
  have "drop_bit 16 ?a AND 0xff = 0"
    unfolding and_low_bits w by (rule bit_word_eqI) (auto simp: bit_simps config_address_bits)
  then show "unat (drop_bit 16 ?a AND 0xff) = 0" by simp
  have "drop_bit 8 ?a AND 0xff = ucast dfn"
    unfolding and_low_bits w by (rule bit_word_eqI) (auto simp: bit_simps config_address_bits dest: bit_imp_le_length)
  then show "unat (drop_bit 8 ?a AND 0xff) = unat dfn" by (simp only: unat_ucast_u8)
  show "?a AND 0xff = ucast reg OR (w AND 3)"
    unfolding and_low_bits w by (rule bit_word_eqI) (auto simp: bit_simps config_address_bits dest: bit_imp_le_length)
  show "bit (config_address dfn reg) 31" by (simp add: config_address_bits)
qed

lemma walk_first: "b < length bs \<Longrightarrow> bus_num (bs ! b) = num \<Longrightarrow> bus_walk bs num (length bs) (Some b) = Inr (Some b)"
  by (cases "length bs") auto

lemma host_target:
  assumes "host_bus m < length (buses (pcis m))" "bus_num (buses (pcis m) ! host_bus m) = 0"
  shows "pci_target (host_bus m) (config_address dfn reg OR (w AND 3)) (pcis m) = Inr (devices (buses (pcis m) ! host_bus m) (unat dfn))"
  using walk_first [OF assms] by (simp only: pci_target_def config_address_fields res_bind.simps option.case)

lemma host_slot_read:
  assumes "host_bus m < length (buses (pcis m))" "bus_num (buses (pcis m) ! host_bus m) = 0"
  shows "host_read dv (config_address dfn reg OR (w AND 3)) len m = (case devices (buses (pcis m) ! host_bus m) (unat dfn) of
      None \<Rightarrow> Inr (if len = 1 then 0xff else if len = 2 then 0xffff else 0xffffffff, m)
    | Some h \<Rightarrow> res_bind (dev_config_read (i440fx_code dv) h (ucast reg OR (w AND 3)) len (pcis m, m)) (\<lambda>(v, s, m). Inr (v, m\<lparr>pcis := s\<rparr>)))"
  unfolding host_read_def pci_data_read_def fst_conv host_target [OF assms] config_address_fields
  by (simp split: option.split)

lemma host_slot_write:
  assumes "host_bus m < length (buses (pcis m))" "bus_num (buses (pcis m) ! host_bus m) = 0"
  shows "host_write dv (config_address dfn reg OR (w AND 3)) val len m = (case devices (buses (pcis m) ! host_bus m) (unat dfn) of
      None \<Rightarrow> Inr m
    | Some h \<Rightarrow> res_bind (dev_config_write (i440fx_code dv) h (ucast reg OR (w AND 3)) val len (pcis m, m)) (\<lambda>(s, m). Inr (m\<lparr>pcis := s\<rparr>)))"
  unfolding host_write_def pci_data_write_def fst_conv host_target [OF assms] config_address_fields
  by (simp split: option.split)

lemma config_port_access:
  assumes "host_ports m"
  shows "cpu_outl (host_port_code dv) 0xcf8 a m = Inr (m\<lparr>config_reg := a\<rparr>)"
    "cpu_inl (host_port_code dv) 0xcfc m = pci_host_data_readl dv 0xcfc m"
    "cpu_outl (host_port_code dv) 0xcfc a m = pci_host_data_writel dv 0xcfc a m"
    "w \<in> {0xcfc, 0xcfd, 0xcfe, 0xcff} \<Longrightarrow> cpu_inb (host_port_code dv) w m = pci_host_data_readb dv w m"
proof -
  have p: "get_ioport (sint (0xcf8 :: u32)) m = Inr (port_at m 0xcf8)" "get_ioport (sint (0xcfc :: u32)) m = Inr (port_at m 0xcfc)"
    using get_ioport_u32 [of "0xcf8" m] get_ioport_u32 [of "0xcfc" m] by simp_all
  show "cpu_outl (host_port_code dv) 0xcf8 a m = Inr (m\<lparr>config_reg := a\<rparr>)"
    "cpu_inl (host_port_code dv) 0xcfc m = pci_host_data_readl dv 0xcfc m"
    "cpu_outl (host_port_code dv) 0xcfc a m = pci_host_data_writel dv 0xcfc a m"
    using assms by (simp_all only: cpu_outl_def cpu_inl_def ioport_write_def ioport_read_def p res_bind.simps)
      (simp_all add: host_ports_def host_port_code_def i440fx_addr_writel_def)
  assume "w \<in> {0xcfc, 0xcfd, 0xcfe, 0xcff}"
  then have u: "unat w \<in> {0xcfc, 0xcfd, 0xcfe, 0xcff}" by auto
  moreover have "get_ioport (sint w) m = Inr (port_at m (unat w))" by (rule get_ioport_u32) (use u in auto)
  ultimately show "cpu_inb (host_port_code dv) w m = pci_host_data_readb dv w m"
    using assms by (auto simp: cpu_inb_def ioport_read_def host_ports_def host_port_code_def)
qed

lemma host_ports_reg: "host_ports (m\<lparr>config_reg := a\<rparr>) = host_ports m"
  using port_at_table [of "m\<lparr>config_reg := a\<rparr>" m] by (simp add: host_ports_def)

lemma reg_aligned:
  assumes "reg AND 3 = (0 :: u8)"
  shows "unat (ucast reg :: u32) = unat reg" "(ucast reg :: u32) \<le> 0xfc"
proof -
  show u: "unat (ucast reg :: u32) = unat reg" by (rule unat_ucast_u8)
  have "unat (take_bit 2 reg) = 0" using assms by (simp add: and_low_bits)
  then have "unat reg mod 4 = 0" by (simp add: unat_take_bit)
  moreover have "unat reg < 256" using unat_bound [of reg] by simp
  ultimately have "unat reg \<le> 0xfc" by presburger
  then show "(ucast reg :: u32) \<le> 0xfc" by (simp add: word_le_nat_alt u)
qed

text \<open>C28: The guest reaches configuration space through two ports, and exactly the function it names: after an address has been written to port
  0xcf8, a read of port 0xcfc returns the register of the function in the named slot of the root bus, and a write there is a
  configuration write to that function, which leaves every other function as it is. An empty slot reads as all ones and
  ignores writes.\<close>

theorem pci_config_mechanism:
  assumes "host_ports m" "host_bus m < length (buses (pcis m))" "bus_num (buses (pcis m) ! host_bus m) = 0" "reg AND 3 = (0 :: u8)"
    and m1_def: "m1 = m\<lparr>config_reg := config_address dfn reg\<rparr>"
  shows "cpu_outl (host_port_code dv) 0xcf8 (config_address dfn reg) m = Inr m1
    \<and> (case devices (buses (pcis m) ! host_bus m) (unat dfn) of
         None \<Rightarrow> cpu_inl (host_port_code dv) 0xcfc m1 = Inr (0xffffffff, m1) \<and> cpu_inb (host_port_code dv) 0xcfc m1 = Inr (0xff, m1)
           \<and> cpu_outl (host_port_code dv) 0xcfc v m1 = Inr m1
       | Some h \<Rightarrow>
           (config_read (devs (pcis m) ! h) = Pci_default_read \<longrightarrow>
              cpu_inl (host_port_code dv) 0xcfc m1 = Inr (le32_at (config (devs (pcis m) ! h)) (unat reg), m1)
              \<and> cpu_inb (host_port_code dv) 0xcfc m1 = Inr (ucast (config (devs (pcis m) ! h) (unat reg)), m1))
           \<and> (config_write (devs (pcis m) ! h) = Pci_default_write \<longrightarrow>
              cpu_outl (host_port_code dv) 0xcfc v m1
                = res_bind (pci_default_write_config (i440fx_code dv) (devs (pcis m) ! h) (ucast reg) v 4 m1)
                    (\<lambda>(d, m2). Inr (m2\<lparr>pcis := (pcis m)\<lparr>devs := (devs (pcis m))[h := d]\<rparr>\<rparr>))))"
proof -
  have hp: "host_ports m1" using assms(1) by (simp add: m1_def host_ports_reg)
  have m1: "pcis m1 = pcis m" "host_bus m1 = host_bus m" "config_reg m1 = config_address dfn reg" by (simp_all add: m1_def)
  have hb: "host_bus m1 < length (buses (pcis m1))" "bus_num (buses (pcis m1) ! host_bus m1) = 0" using assms(2,3) by (simp_all add: m1)
  have w: "(0xcfc :: u32) AND 3 = 0" by simp
  note b31 = config_address_fields(4) and ra = reg_aligned [OF assms(4)]
  have rd: "host_read dv (config_address dfn reg) len m1 = (case devices (buses (pcis m) ! host_bus m) (unat dfn) of
      None \<Rightarrow> Inr (if len = 1 then 0xff else if len = 2 then 0xffff else 0xffffffff, m1)
    | Some h \<Rightarrow> res_bind (dev_config_read (i440fx_code dv) h (ucast reg) len (pcis m, m1)) (\<lambda>(v, s, m). Inr (v, m\<lparr>pcis := s\<rparr>)))" for len
    using host_slot_read [OF hb, of dv dfn reg "0xcfc" len] by (simp only: w or.right_neutral m1)
  have wr: "host_write dv (config_address dfn reg) v 4 m1 = (case devices (buses (pcis m) ! host_bus m) (unat dfn) of
      None \<Rightarrow> Inr m1
    | Some h \<Rightarrow> res_bind (dev_config_write (i440fx_code dv) h (ucast reg) v 4 (pcis m, m1)) (\<lambda>(s, m). Inr (m\<lparr>pcis := s\<rparr>)))"
    using host_slot_write [OF hb, of dv dfn reg "0xcfc" v 4] by (simp only: w or.right_neutral m1)
  have self: "m1\<lparr>pcis := pcis m\<rparr> = m1" by (simp add: m1_def)
  have l: "cpu_inl (host_port_code dv) 0xcfc m1 = host_read dv (config_address dfn reg) 4 m1"
    "cpu_inb (host_port_code dv) 0xcfc m1 = host_read dv (config_address dfn reg) 1 m1"
    "cpu_outl (host_port_code dv) 0xcfc v m1 = host_write dv (config_address dfn reg) v 4 m1"
    using config_port_access [OF hp] b31
    by (simp_all add: pci_host_data_readl_def pci_host_data_readb_def pci_host_data_writel_def m1(3))
  have o: "cpu_outl (host_port_code dv) 0xcf8 (config_address dfn reg) m = Inr m1"
    using config_port_access(1) [OF assms(1)] by (simp add: m1_def)
  have b: "pci_default_read_config d (ucast reg) 4 = Inr (le32_at (config d) (unat reg))"
    "pci_default_read_config d (ucast reg) 1 = Inr (ucast (config d (unat reg)))" for d
    using ra unat_bound [of reg] by (simp_all add: pci_default_read_config_def)
  show ?thesis
  proof (cases "devices (buses (pcis m) ! host_bus m) (unat dfn)")
    case None
    then show ?thesis using o l rd wr by simp
  next
    case (Some h)
    let ?d = "devs (pcis m) ! h"
    have "cpu_inl (host_port_code dv) 0xcfc m1 = Inr (le32_at (config ?d) (unat reg), m1)
        \<and> cpu_inb (host_port_code dv) 0xcfc m1 = Inr (ucast (config ?d (unat reg)), m1)" if "config_read ?d = Pci_default_read"
      unfolding l rd Some by (simp add: dev_config_read_def that b self del: One_nat_def)
    moreover have "cpu_outl (host_port_code dv) 0xcfc v m1 = res_bind (pci_default_write_config (i440fx_code dv) ?d (ucast reg) v 4 m1)
        (\<lambda>(d, m2). Inr (m2\<lparr>pcis := (pcis m)\<lparr>devs := (devs (pcis m))[h := d]\<rparr>\<rparr>))" if "config_write ?d = Pci_default_write"
      unfolding l wr Some
      by (cases "pci_default_write_config (i440fx_code dv) ?d (ucast reg) v 4 m1") (auto simp: dev_config_write_def that upd_dev_def)
    ultimately show ?thesis using o Some by simp
  qed
qed

section \<open>A machine with the two bridges\<close>

definition bare_host :: pci_host where
  "bare_host = \<lparr>ioport_table = (\<lambda>_. None), mmio = [], io_mem_read = (\<lambda>_ _. None), io_mem_write = (\<lambda>_ _. None),
     io_mem_opaque = (\<lambda>_. 0), io_mem_used = (\<lambda>_. False), ram = (\<lambda>_. 0), ram_page = (\<lambda>_. False), xen_logdirty_enable = False, modified = [],
     config_reg = 0, host_bus = 0, pcis = empty_pci False (\<lambda>_. False), piix3_dev = None, intx = [], link_routes = []\<rparr>"

definition no_drivers :: "pci_host pci_code" where
  "no_drivers = \<lparr>call_map_region = (\<lambda>fn d i a sz t m. Inl Bad_access), call_map_irq = (\<lambda>fn d n. n), call_set_irq = (\<lambda>fn opq n l m. Inr m),
     call_config_read = (\<lambda>fn d a n m. Inl Bad_access), call_config_write = (\<lambda>fn d a v n m. Inl Bad_access),
     call_unregister = (\<lambda>fn d m. Inr (0, m)), hvm_set_pci_link_route = (\<lambda>l v m. m), pci_mem_base = 0\<rparr>"

lemma bridges_init:
  "\<exists>m. res_bind (i440fx_init Pci_default_read Pci_default_write 6 bare_host) (\<lambda>((b, d), m). piix3_init b 8 m) = Inr (8, m)
     \<and> host_ports m \<and> host_bus m = 0 \<and> length (buses (pcis m)) = 1 \<and> bus_num (buses (pcis m) ! 0) = 0 \<and> on_root (pcis m) 0
     \<and> devices (buses (pcis m) ! 0) 0 = Some 0 \<and> devices (buses (pcis m) ! 0) 8 = Some 1 \<and> length (devs (pcis m)) = 2
     \<and> config_read (devs (pcis m) ! 0) = Pci_default_read \<and> le32_at (config (devs (pcis m) ! 0)) 0 = 0x12378086
     \<and> (\<forall>h. irq_state (devs (pcis m) ! h) = (\<lambda>_. 0) \<or> 2 \<le> h) \<and> irq_count (buses (pcis m) ! 0) = (\<lambda>_. 0) \<and> intx m = []"
proof -
  have own: "bridge_owns 6 (bare_host\<lparr>pcis := s, host_bus := b, config_reg := 0\<rparr>)" for s b
    by (simp add: bridge_owns_def bare_host_def port_at_def alloc_page_def ioport_create_page_def default_ioport_def)
  define s0 where "s0 = snd (pci_register_bus 0 0 0 0 128 (empty_pci False (\<lambda>_. False)))"
  let ?base = "bare_host\<lparr>pcis := s0, host_bus := 0, config_reg := 0\<rparr>"
  obtain t where t: "i440fx_register 6 ?base = Inr (?base\<lparr>ioport_table := t\<rparr>)" and hp: "host_ports (?base\<lparr>ioport_table := t\<rparr>)"
    using i440fx_register_ports [OF own [where s = s0 and b = 0]] by auto
  define d0 where "d0 = (let d = new_device 0 0 ''i440FX'' Pci_default_read Pci_default_write in d\<lparr>config := i440fx_header (config d)\<rparr>)"
  define d1 where "d1 = (let d = new_device 0 8 ''PIIX3'' Pci_default_read Piix3_write in piix3_reset (d\<lparr>config := piix3_header (config d)\<rparr>))"
  define bus where "bus = new_bus\<lparr>set_irq := Some 0, map_irq := 0, irq_opaque := 0, devfn_min := 0, nirq := 128, devices := [0 \<mapsto> 0, 8 \<mapsto> 1]\<rparr>"
  define S where "S = (empty_pci False (\<lambda>_. False))\<lparr>devs := [d0, d1], buses := [bus], first_bus := Some 0, nbus := 1\<rparr>"
  let ?fin = "?base\<lparr>ioport_table := t, pcis := S, piix3_dev := Some 1\<rparr>"
  have "pcis bare_host = empty_pci False (\<lambda>_. False)" by (simp add: bare_host_def)
  then have b0: "pci_register_bus 0 0 0 0 128 (pcis bare_host) = (0, s0)" by (simp add: s0_def pci_register_bus_def empty_pci_def Let_def)
  let ?sa = "(empty_pci False (\<lambda>_. False))\<lparr>devs := [d0], buses := [bus\<lparr>devices := [0 \<mapsto> 0]\<rparr>], first_bus := Some 0, nbus := 1\<rparr>"
  have ra: "pci_register_device 0 ''i440FX'' 0 Pci_default_read Pci_default_write s0 = Inr (Some 0,
      ?sa\<lparr>devs := [new_device 0 0 ''i440FX'' Pci_default_read Pci_default_write]\<rparr>)"
    by (simp add: pci_register_device_def Let_def s0_def pci_register_bus_def empty_pci_def upd_bus_def bus_def new_bus_def)
  have rb: "pci_register_device 0 ''PIIX3'' 8 Pci_default_read Piix3_write ?sa = Inr (Some 1,
      S\<lparr>devs := [d0, new_device 0 8 ''PIIX3'' Pci_default_read Piix3_write]\<rparr>)"
    by (simp add: pci_register_device_def Let_def empty_pci_def upd_bus_def bus_def new_bus_def S_def)
  have "i440fx_init Pci_default_read Pci_default_write 6 bare_host = Inr ((0, 0), ?base\<lparr>ioport_table := t, pcis := ?sa\<rparr>)"
    by (simp add: i440fx_init_def b0 t ra upd_dev_def d0_def Let_def)
  moreover have "devfn d1 = 8" by (simp add: d1_def Let_def piix3_reset_def new_device_def pci_set_default_subsystem_id_def)
  moreover have "piix3_init 0 8 (?base\<lparr>ioport_table := t, pcis := ?sa\<rparr>) = Inr (devfn d1, ?fin)"
    by (simp add: piix3_init_def rb upd_dev_def S_def d1_def Let_def)
  ultimately have "res_bind (i440fx_init Pci_default_read Pci_default_write 6 bare_host) (\<lambda>((b, d), m). piix3_init b 8 m) = Inr (8, ?fin)"
    by simp
  moreover have "host_ports ?fin"
    using hp port_at_table [of ?fin "?base\<lparr>ioport_table := t\<rparr>"] by (simp add: host_ports_def)
  moreover have "le32_at (config d0) 0 = 0x12378086"
    by (simp add: d0_def Let_def i440fx_header_def pci_config_set_class_def pci_config_set_device_id_def pci_config_set_vendor_id_def put_le16_def
        le32_at_def push_bit_eq_mult drop_bit_eq_div)
  moreover have "irq_state d0 = (\<lambda>_. 0)" "irq_state d1 = (\<lambda>_. 0)" "config_read d0 = Pci_default_read" "dev_bus d0 = 0" "dev_bus d1 = 0" "devfn d0 = 0" "devfn d1 = 8"
    by (simp_all add: d0_def d1_def Let_def piix3_reset_def new_device_def pci_set_default_subsystem_id_def)
  moreover have "h = 0 \<or> h = 1 \<or> 2 \<le> h" for h :: nat by auto
  ultimately show ?thesis
    by (intro exI [of _ ?fin] conjI) (auto simp: S_def bus_def new_bus_def on_root_def bare_host_def nth_Cons' less_Suc_eq)
qed

theorem pci_config_mechanism_witness:
  "\<exists>m. res_bind (i440fx_init Pci_default_read Pci_default_write 6 bare_host) (\<lambda>((b, d), m). piix3_init b 8 m) = Inr (8, m)
     \<and> res_bind (cpu_outl (host_port_code no_drivers) 0xcf8 (config_address 0 0) m) (cpu_inl (host_port_code no_drivers) 0xcfc)
       = Inr (0x12378086, m\<lparr>config_reg := config_address 0 0\<rparr>)"
proof -
  obtain m where m: "res_bind (i440fx_init Pci_default_read Pci_default_write 6 bare_host) (\<lambda>((b, d), m). piix3_init b 8 m) = Inr (8, m)"
    "host_ports m" "host_bus m = 0" "length (buses (pcis m)) = 1" "bus_num (buses (pcis m) ! 0) = 0" "devices (buses (pcis m) ! 0) 0 = Some 0"
    "config_read (devs (pcis m) ! 0) = Pci_default_read" "le32_at (config (devs (pcis m) ! 0)) 0 = 0x12378086"
    using bridges_init by auto
  show ?thesis
    using m pci_config_mechanism [of m 0 "m\<lparr>config_reg := config_address 0 0\<rparr>" 0 no_drivers] by (intro exI [of _ m]) simp
qed

theorem pci_irq_wired_or_witness:
  "\<exists>m. res_bind (i440fx_init Pci_default_read Pci_default_write 6 bare_host) (\<lambda>((b, d), m). piix3_init b 8 m) = Inr (8, m)
     \<and> returns (\<lambda>(s', m'). \<forall>slot < 32. \<forall>pin < 4.
      let holders = {h. h < length (devs s') \<and> devfn (devs s' ! h) div 8 = slot \<and> irq_state (devs s' ! h) pin = 1} in
      irq_count (buses s' ! 0) (slot * 4 + pin) = int (card holders)
      \<and> intx_level m' (int (slot * 4 + pin)) = (if holders = {} then 0 else 1))
    (res_fold (\<lambda>(h, i, l). pci_set_irq (i440fx_code no_drivers) h i l) [(1, 0, 1), (0, 2, 1), (1, 0, 0)] (pcis m, m))"
proof -
  obtain m where m: "res_bind (i440fx_init Pci_default_read Pci_default_write 6 bare_host) (\<lambda>((b, d), m). piix3_init b 8 m) = Inr (8, m)"
    "on_root (pcis m) 0" "length (devs (pcis m)) = 2" "\<forall>h. irq_state (devs (pcis m) ! h) = (\<lambda>_. 0) \<or> 2 \<le> h"
    "irq_count (buses (pcis m) ! 0) = (\<lambda>_. 0)" "intx m = []"
    using bridges_init by auto
  then have z: "\<forall>h < length (devs (pcis m)). \<forall>i < 4. irq_state (devs (pcis m) ! h) i = 0" by (metis not_less)
  show ?thesis by (intro exI [of _ m] conjI m(1) pci_irq_wired_or [OF m(2) _ z m(5,6)]) (simp_all add: m(3))
qed

end
