(* ===== verification/Unplug.thy ===== *)
theory Unplug
  imports Piix_Pci
begin

text \<open>
  Taking the emulated disks and network cards away from a guest that has drivers of its own: the unplug functions of
  \<^verbatim>\<open>hw/ide.c\<close>, \<^verbatim>\<open>hw/pci.c\<close> and \<^verbatim>\<open>net.c\<close>. Of a drive the model has the registers that \<^verbatim>\<open>ide_reset\<close> sets; block devices are numbers, and
  closing one is recorded in \<open>bdrv_closed\<close>. \<^verbatim>\<open>qemu_aio_flush\<close> and \<^verbatim>\<open>bdrv_flush\<close> complete requests of the block layer and have no effect on
  this state. A drive pointer outside the four drives of the controller is not a valid access.
\<close>

section \<open>State\<close>

record ide_drive =
  is_cdrom :: bool
  is_cf :: bool
  ide_bs :: "nat option"
  mult_sectors :: nat
  cur_drive :: nat
  ide_select :: u8
  ide_status :: u8
  nsector :: u32
  ide_sector :: u8
  lcyl :: u8
  hcyl :: u8
  dummy_transfer :: bool
  data_ptr :: nat
  data_end :: nat
  io_buffer :: "nat \<Rightarrow> u8"
  media_changed :: bool
  cdrom_changed :: bool

record nic_info =
  nd_vlan :: int
  nd_private :: "nat option"
  nd_used :: bool
  nd_devfn :: int

record tap_state =
  tap_fd :: int
  tap_vlan :: int

record unplug_host = pci_host +
  principal_ide_controller :: "ide_drive list option"
  drives_table :: "nat option list"
  bdrv_closed :: "nat list"
  nd_table :: "nic_info list"
  head_net_tap :: "tap_state list"

section \<open>Disks\<close>

definition ide_set_signature :: "ide_drive \<Rightarrow> ide_drive" where
  "ide_set_signature s =
     (let s1 = s\<lparr>ide_select := ide_select s AND 0xf0, nsector := 1, ide_sector := 1\<rparr> in
      if is_cdrom s1 then s1\<lparr>lcyl := 0x14, hcyl := 0xeb\<rparr>
      else if ide_bs s1 \<noteq> None then s1\<lparr>lcyl := 0, hcyl := 0\<rparr>
      else s1\<lparr>lcyl := 0xff, hcyl := 0xff\<rparr>)"

definition ide_dummy_transfer_stop :: "ide_drive \<Rightarrow> ide_drive" where
  "ide_dummy_transfer_stop s = s\<lparr>data_ptr := 0, data_end := 0, io_buffer := (io_buffer s)(0 := 0xff, 1 := 0xff, 2 := 0xff, 3 := 0xff)\<rparr>"

text \<open>\<open>i\<close> is the number of the drive itself.\<close>

definition ide_reset :: "nat \<Rightarrow> ide_drive \<Rightarrow> ide_drive" where
  "ide_reset i s =
     (let s1 = ide_set_signature (s\<lparr>mult_sectors := (if is_cf s then 0 else 16), cur_drive := i, ide_select := 0xa0, ide_status := 0x40 OR 0x10\<rparr>)
      in (ide_dummy_transfer_stop (s1\<lparr>dummy_transfer := True\<rparr>))\<lparr>media_changed := False, cdrom_changed := False\<rparr>)"

definition ide_unplug_harddisk :: "nat \<Rightarrow> 'a unplug_host_scheme \<Rightarrow> 'a unplug_host_scheme res" where
  "ide_unplug_harddisk i m =
     (case principal_ide_controller m of
        None \<Rightarrow> Inr m
      | Some ds \<Rightarrow>
          if i \<ge> length ds then Inl Bad_access
          else (case ide_bs (ds ! i) of
                  None \<Rightarrow> Inr m
                | Some b \<Rightarrow>
                    if is_cdrom (ds ! i) then Inr m
                    else Inr (m\<lparr>drives_table := map (\<lambda>d. if d = Some b then None else d) (drives_table m),
                                bdrv_closed := b # bdrv_closed m,
                                principal_ide_controller := Some (ds[i := ide_reset i ((ds ! i)\<lparr>ide_bs := None\<rparr>)])\<rparr>)))"

definition ide_unplug_aux_harddisks :: "'a unplug_host_scheme \<Rightarrow> 'a unplug_host_scheme res" where
  "ide_unplug_aux_harddisks m = res_fold ide_unplug_harddisk [1..<4] m"

definition ide_unplug_all_harddisks :: "'a unplug_host_scheme \<Rightarrow> 'a unplug_host_scheme res" where
  "ide_unplug_all_harddisks m = res_fold ide_unplug_harddisk [0..<4] m"

section \<open>Network cards\<close>

text \<open>The functions of \<^verbatim>\<open>hw/pci.c\<close> on the buses of the machine.\<close>

definition on_pci ::
  "(pci_state \<times> 'a pci_host_scheme \<Rightarrow> (pci_state \<times> 'a pci_host_scheme) res) \<Rightarrow> 'a pci_host_scheme \<Rightarrow> 'a pci_host_scheme res" where
  "on_pci f m = res_bind (f (pcis m, m)) (\<lambda>(s, m). Inr (m\<lparr>pcis := s\<rparr>))"

definition last_index :: "('a \<Rightarrow> bool) \<Rightarrow> 'a list \<Rightarrow> nat option" where
  "last_index P xs = (case filter (\<lambda>i. P (xs ! i)) [0..<length xs] of [] \<Rightarrow> None | ks \<Rightarrow> Some (last ks))"

definition pci_unplug_nic ::
  "('a unplug_host_scheme, 'c) pci_code_scheme \<Rightarrow> int \<Rightarrow> 'a unplug_host_scheme \<Rightarrow> (int \<times> 'a unplug_host_scheme) res" where
  "pci_unplug_nic c n m =
     (case last_index (\<lambda>nd. nd_devfn nd = n) (nd_table m) of
        None \<Rightarrow> Inr (- 1, m)
      | Some k \<Rightarrow>
          let nd = nd_table m ! k in
          if \<not> nd_used nd then Inr (- 1, m)
          else (case nd_private nd of
                  None \<Rightarrow> Inr (- 1, m)
                | Some h \<Rightarrow> res_bind (on_pci (pci_dev_unplug c h) m) (\<lambda>m.
                    Inr (nd_vlan nd, m\<lparr>nd_table := (nd_table m)[k := nd\<lparr>nd_used := False\<rparr>]\<rparr>))))"

definition net_tap_shutdown :: "tap_state \<Rightarrow> tap_state" where
  "net_tap_shutdown tap = (if tap_fd tap < 0 then tap else tap\<lparr>tap_fd := - 1\<rparr>)"

definition net_tap_shutdown_all :: "'a unplug_host_scheme \<Rightarrow> 'a unplug_host_scheme" where
  "net_tap_shutdown_all m = m\<lparr>head_net_tap := map net_tap_shutdown (head_net_tap m)\<rparr>"

definition net_tap_shutdown_vlan :: "int \<Rightarrow> 'a unplug_host_scheme \<Rightarrow> 'a unplug_host_scheme" where
  "net_tap_shutdown_vlan vid m = m\<lparr>head_net_tap := map (\<lambda>tap. if tap_vlan tap \<noteq> vid then tap else net_tap_shutdown tap) (head_net_tap m)\<rparr>"

section \<open>What is left\<close>

definition drive_out :: "nat \<Rightarrow> ide_drive \<Rightarrow> ide_drive" where
  "drive_out i d = (if ide_bs d = None \<or> is_cdrom d then d else ide_reset i (d\<lparr>ide_bs := None\<rparr>))"

definition drives_out :: "nat set \<Rightarrow> ide_drive list \<Rightarrow> ide_drive list" where
  "drives_out S ds = map (\<lambda>i. if i \<in> S then drive_out i (ds ! i) else ds ! i) [0..<length ds]"

lemma drives_out_empty: "drives_out {} ds = ds"
  by (simp add: drives_out_def map_nth)

lemma length_drives_out [simp]: "length (drives_out S ds) = length ds"
  by (simp add: drives_out_def)

lemma drives_out_nth: "i < length ds \<Longrightarrow> drives_out S ds ! i = (if i \<in> S then drive_out i (ds ! i) else ds ! i)"
  by (simp add: drives_out_def)

lemma reset_fields [simp]: "ide_bs (ide_reset i d) = ide_bs d" "is_cdrom (ide_reset i d) = is_cdrom d"
  by (simp_all add: ide_reset_def ide_set_signature_def ide_dummy_transfer_stop_def Let_def)

lemma drive_out_gone: "ide_bs (drive_out i d) \<noteq> None \<Longrightarrow> is_cdrom (drive_out i d)" "is_cdrom (drive_out i d) = is_cdrom d"
  by (auto simp: drive_out_def split: if_splits)

lemma drives_out_step:
  assumes "i < length ds" "i \<notin> S"
  shows "(drives_out S ds)[i := drive_out i (ds ! i)] = drives_out (insert i S) ds"
  using assms by (intro nth_equalityI) (auto simp: drives_out_nth nth_list_update)

text \<open>The loops over the drives.\<close>

lemma unplug_drives:
  assumes "principal_ide_controller m = Some ds" "set ks \<subseteq> {..<length ds}" "distinct ks"
  shows "\<exists>t cl. res_fold ide_unplug_harddisk ks m = Inr (m\<lparr>principal_ide_controller := Some (drives_out (set ks) ds), drives_table := t, bdrv_closed := cl\<rparr>)"
  using assms(2,3)
proof (induction ks rule: rev_induct)
  case Nil
  then show ?case using assms(1) by (intro exI [of _ "drives_table m"] exI [of _ "bdrv_closed m"]) (simp add: drives_out_empty)
next
  case (snoc k ks)
  then obtain t cl where 1: "res_fold ide_unplug_harddisk ks m = Inr (m\<lparr>principal_ide_controller := Some (drives_out (set ks) ds), drives_table := t, bdrv_closed := cl\<rparr>)"
    by auto
  let ?m = "m\<lparr>principal_ide_controller := Some (drives_out (set ks) ds), drives_table := t, bdrv_closed := cl\<rparr>"
  have k: "k < length ds" "k \<notin> set ks" using snoc.prems by auto
  have n: "drives_out (set ks) ds ! k = ds ! k" using k by (simp add: drives_out_nth)
  note step = drives_out_step [OF k]
  have "\<exists>t cl. ide_unplug_harddisk k ?m = Inr (m\<lparr>principal_ide_controller := Some (drives_out (insert k (set ks)) ds), drives_table := t, bdrv_closed := cl\<rparr>)"
  proof (cases "ide_bs (ds ! k) = None \<or> is_cdrom (ds ! k)")
    case True
    then have "drives_out (insert k (set ks)) ds = drives_out (set ks) ds"
      unfolding step [symmetric] using n by (simp add: drive_out_def list_update_same_conv k(1))
    then show ?thesis using True k(1) n by (auto simp: ide_unplug_harddisk_def split: option.splits)
  next
    case False
    then obtain y where y: "ide_bs (ds ! k) = Some y" "\<not> is_cdrom (ds ! k)" by auto
    show ?thesis unfolding step [symmetric]
      by (rule exI [of _ "map (\<lambda>d. if d = Some y then None else d) t"], rule exI [of _ "y # cl"])
        (use y k(1) n in \<open>simp add: ide_unplug_harddisk_def drive_out_def\<close>)
  qed
  then show ?case using 1 by (simp add: res_fold_append)
qed

lemma unplug_no_controller: "principal_ide_controller m = None \<Longrightarrow> res_fold ide_unplug_harddisk ks m = Inr m"
  by (induction ks) (simp_all add: ide_unplug_harddisk_def)

section \<open>Network functions on the first bus\<close>

lemma unassign_table: "unassign_loop i stop m = Inr m' \<Longrightarrow> \<exists>t. m' = m\<lparr>ioport_table := t\<rparr>"
proof (induction i stop m rule: unassign_loop.induct)
  case (1 i stop m)
  have u: "upd_port a f m = m\<lparr>ioport_table := ioport_table (upd_port a f m)\<rparr>" for a f by (simp add: upd_port_def Let_def)
  show ?case
  proof (cases "i < stop")
    case True
    then obtain x where "get_ioport i m = Inr x" "unassign_loop (i + 1) stop (upd_port (nat i) (\<lambda>_. default_ioport) m) = Inr m'"
      using 1(2) by (subst (asm) (2) unassign_loop.simps) (auto simp: res_bind_Inr_iff)
    then show ?thesis using 1(1) [OF True] u [of "nat i" "\<lambda>_. default_ioport"] by (metis port_bus.update_convs(1) port_bus.surjective)
  next
    case False
    then have "m' = m" using 1(2) unassign_loop.simps [of i stop m] by simp
    then show ?thesis by (intro exI [of _ "ioport_table m"]) simp
  qed
qed

lemma unregister_regions_tables:
  "pci_unregister_io_regions c d m = Inr m' \<Longrightarrow> \<exists>t r. m' = m\<lparr>ioport_table := t, mmio := r\<rparr>"
proof -
  have one: "unregister_region c r m = Inr m' \<Longrightarrow> \<exists>t r. m' = m\<lparr>ioport_table := t, mmio := r\<rparr>" for r m m'
  proof -
    assume "unregister_region c r m = Inr m'"
    then have "m' = m \<or> isa_unassign_ioport (sint (rg_addr r)) (sint (rg_size r)) m = Inr m'
        \<or> cpu_register_physical_memory (pci_to_cpu_addr c (rg_addr r)) (ucast (rg_size r)) IO_MEM_UNASSIGNED m = Inr m'"
      unfolding unregister_region_def by (metis sum.inject(2))
    then consider "m' = m" | "isa_unassign_ioport (sint (rg_addr r)) (sint (rg_size r)) m = Inr m'"
      | "cpu_register_physical_memory (pci_to_cpu_addr c (rg_addr r)) (ucast (rg_size r)) IO_MEM_UNASSIGNED m = Inr m'" by blast
    then show ?thesis
    proof cases
      case 1
      then show ?thesis by (intro exI [of _ "ioport_table m"] exI [of _ "mmio m"]) simp
    next
      case 2
      then obtain t where "m' = m\<lparr>ioport_table := t\<rparr>" using unassign_table [of _ _ m m'] unfolding isa_unassign_ioport_def by blast
      then show ?thesis by (intro exI [of _ t] exI [of _ "mmio m"]) simp
    next
      case 3
      then obtain r where "m' = m\<lparr>mmio := r\<rparr>" by (auto simp: cpu_register_physical_memory_def Let_def split: if_splits)
      then show ?thesis by (intro exI [of _ "ioport_table m"] exI [of _ r]) simp
    qed
  qed
  have "res_fold (\<lambda>i. unregister_region c (io_regions d ! i)) ks m = Inr m' \<Longrightarrow> \<exists>t r. m' = m\<lparr>ioport_table := t, mmio := r\<rparr>" for ks m'
  proof (induction ks arbitrary: m' rule: rev_induct)
    case Nil
    then show ?case by (intro exI [of _ "ioport_table m"] exI [of _ "mmio m"]) simp
  next
    case (snoc k ks)
    then obtain m1 where 1: "res_fold (\<lambda>i. unregister_region c (io_regions d ! i)) ks m = Inr m1" "unregister_region c (io_regions d ! k) m1 = Inr m'"
      by (auto simp: res_fold_append res_bind_Inr_iff)
    obtain t r where "m1 = m\<lparr>ioport_table := t, mmio := r\<rparr>" using snoc.IH [OF 1(1)] by blast
    then show ?case using one [OF 1(2)] by fastforce
  qed
  then show "pci_unregister_io_regions c d m = Inr m' \<Longrightarrow> \<exists>t r. m' = m\<lparr>ioport_table := t, mmio := r\<rparr>"
    unfolding pci_unregister_io_regions_def by blast
qed

definition nic_at :: "pci_state \<Rightarrow> nat \<Rightarrow> nat \<Rightarrow> bool" where
  "nic_at s b n \<longleftrightarrow> (\<exists>h. devices (buses s ! b) n = Some h \<and> config (devs s ! h) 0xa = 0 \<and> config (devs s ! h) 0xb = 2) \<and> \<not> php_valid s n"

text \<open>The buses after the first \<open>k\<close> rounds of \<^verbatim>\<open>pci_unplug_all_netifs\<close>.\<close>

definition nics_out :: "nat \<Rightarrow> nat \<Rightarrow> pci_state \<Rightarrow> pci_state" where
  "nics_out k b s = upd_bus b (\<lambda>u. u\<lparr>devices := (\<lambda>n. if n < k \<and> nic_at s b n then None else devices u n)\<rparr>) s"

lemma nics_out_0: "nics_out 0 b s = s"
  by (simp add: nics_out_def upd_bus_def)

lemma nics_out_skip: "\<not> nic_at s b k \<Longrightarrow> nics_out (Suc k) b s = nics_out k b s"
proof -
  assume "\<not> nic_at s b k"
  then have "(n < Suc k \<and> nic_at s b n) = (n < k \<and> nic_at s b n)" for n by (auto simp: less_Suc_eq)
  then show ?thesis unfolding nics_out_def by simp
qed

lemma nics_out_simps:
  "devs (nics_out k b s) = devs s" "php_valid (nics_out k b s) = php_valid s"
  "b < length (buses s) \<Longrightarrow> devices (buses (nics_out k b s) ! b) n = (if n < k \<and> nic_at s b n then None else devices (buses s ! b) n)"
  by (simp_all add: nics_out_def upd_bus_def)

lemma nics_out_hide:
  assumes "pci_wf s" "b < length (buses s)" "nic_at s b k" "devices (buses s ! b) k = Some h"
  shows "pci_hide_device h (nics_out k b s) = nics_out (Suc k) b s"
proof -
  have "dev_bus (devs s ! h) = b" "devfn (devs s ! h) = k" using assms unfolding pci_wf_def by blast+
  moreover have "(\<lambda>n. if n < Suc k \<and> nic_at s b n then None else d n) = (\<lambda>n. if n < k \<and> nic_at s b n then None else d n)(k := None)" for d :: "nat \<Rightarrow> nat option"
    using assms(3) by (auto simp: fun_eq_iff less_Suc_eq)
  ultimately show ?thesis using assms(2) by (simp add: pci_hide_device_def nics_out_def upd_bus_def)
qed

lemma unplug_if_nic_step:
  assumes "pci_wf s" "b < length (buses s)" "k < 256" "unplug_if_nic c b k (nics_out k b s, m) = Inr (s', m')"
  shows "s' = nics_out (Suc k) b s \<and> (\<exists>t r. m' = m\<lparr>ioport_table := t, mmio := r\<rparr>)"
proof -
  have refl: "\<exists>t r. m = m\<lparr>ioport_table := t, mmio := r\<rparr>" by (intro exI [of _ "ioport_table m"] exI [of _ "mmio m"]) simp
  have d: "devices (buses (nics_out k b s) ! b) k = devices (buses s ! b) k" using assms(2) by (simp add: nics_out_simps)
  show ?thesis
  proof (cases "nic_at s b k")
    case False
    have "s' = nics_out k b s \<and> m' = m"
    proof (cases "devices (buses s ! b) k")
      case (Some h)
      have "devfn (devs s ! h) = k" using assms(1,2) Some unfolding pci_wf_def by blast
      then show ?thesis using False Some assms(3,4) d
        by (auto simp: unplug_if_nic_def nics_out_simps pci_dev_unplug_def test_pci_devfn_def nic_at_def split: if_splits)
    qed (use assms(4) d in \<open>simp add: unplug_if_nic_def\<close>)
    then show ?thesis using nics_out_skip [OF False] refl by simp
  next
    case True
    then obtain h where h: "devices (buses s ! b) k = Some h" "config (devs s ! h) 0xa = 0" "config (devs s ! h) 0xb = 2" "\<not> php_valid s k"
      by (auto simp: nic_at_def)
    have "devfn (devs s ! h) = k" using assms(1,2) h(1) unfolding pci_wf_def by blast
    then have "res_bind (pci_unregister_io_regions c (devs s ! h) m) (\<lambda>m. Inr (pci_hide_device h (nics_out k b s), m)) = Inr (s', m')"
      using assms(3,4) h d by (simp add: unplug_if_nic_def nics_out_simps pci_dev_unplug_def test_pci_devfn_def)
    then show ?thesis using nics_out_hide [OF assms(1,2) True h(1)] unregister_regions_tables by (auto simp: res_bind_Inr_iff)
  qed
qed

lemma unplug_netifs:
  assumes "pci_wf s" "first_bus s = Some b" "pci_unplug_all_netifs c (s, m) = Inr (s', m')"
  shows "s' = nics_out 256 b s \<and> (\<exists>t r. m' = m\<lparr>ioport_table := t, mmio := r\<rparr>)"
proof -
  have b: "b < length (buses s)" using assms(1,2) unfolding pci_wf_def by blast
  have "k \<le> 256 \<Longrightarrow> res_fold (unplug_if_nic c b) [0..<k] (s, m) = Inr (s', m') \<Longrightarrow> s' = nics_out k b s \<and> (\<exists>t r. m' = m\<lparr>ioport_table := t, mmio := r\<rparr>)" for k s' m'
  proof (induction k arbitrary: s' m')
    case 0
    then show ?case by (auto simp: nics_out_0 intro!: exI [of _ "ioport_table m"] exI [of _ "mmio m"])
  next
    case (Suc k)
    then obtain s1 m1 where 1: "res_fold (unplug_if_nic c b) [0..<k] (s, m) = Inr (s1, m1)" "unplug_if_nic c b k (s1, m1) = Inr (s', m')"
      by (auto simp: res_fold_append res_bind_Inr_iff)
    then obtain t r where "s1 = nics_out k b s" "m1 = m\<lparr>ioport_table := t, mmio := r\<rparr>" using Suc by auto
    then show ?case using unplug_if_nic_step [OF assms(1) b, of k c m1 s' m'] Suc.prems(1) 1(2) by fastforce
  qed
  from this [of 256 s' m'] show ?thesis using assms(2,3) by (simp add: pci_unplug_all_netifs_def)
qed

end
