(* ===== verification/Platform_Log.thy ===== *)
theory Platform_Log
  imports Dm_Prelude "HOL-Library.Log_Nat"
begin

text \<open>
  The guest's log of \<^verbatim>\<open>hw/xen_platform.c\<close>: the line buffer behind the log port, the token bucket that limits how fast a guest
  can fill the log file of the host, and the messages of the device itself. The monotonic clock is a number of nanoseconds that
  the environment and \<^verbatim>\<open>nanosleep\<close> advance; \<open>oversleep\<close> is the time that passes, beyond the sleep asked for, before the clock is read again.
  \<^verbatim>\<open>throttle\<close> computes with doubles. The waiting time is a multiple of 1/256 second, which is a whole number of nanoseconds and exact in a double. The
  refill is rounded at each operation; \<open>round53\<close> is this rounding, to the nearest number of 53 significant bits and to the even one of two. The numbers that occur are
  multiples of \<open>2 ^ - 82\<close>, the last place of the constant \<^verbatim>\<open>1.0e-9\<close>, and are given in this unit.
  Conversion of a double outside the range of \<^verbatim>\<open>unsigned\<close> is undefined. Characters are classified as in the C locale.
\<close>

section \<open>State\<close>

abbreviation (input) "BUCKET_MAX_SIZE \<equiv> (131072::nat)"
abbreviation (input) "BUCKET_FILL_RATE \<equiv> (256::nat)"
abbreviation (input) "LOG_BUFFER_SIZE \<equiv> (4096::nat)"
abbreviation (input) "NS_PER_S \<equiv> (1000000000::int)"

datatype log_item = Guest_line "u8 list" | Rom_area bool | Rom_failed | Throttling bool | Throttled
  | Protocol_set u8 bool | Protocol_active u8 | Unplug_ide | Unplug_nic | Unplug_unrecognized u8
  | No_product | Product_build u16 u32 | Drivers_blacklisted bool | Mmio_warning u64

record timespec =
  tv_sec :: int
  tv_nsec :: int

record plog =
  throttling_disabled :: bool
  available :: u32
  last_refil :: timespec
  started :: bool
  warned :: bool
  log_buffer :: "u8 list"
  log_buffer_off :: nat
  logfile :: "log_item list"
  clock :: nat

definition clock_gettime :: "plog \<Rightarrow> timespec" where
  "clock_gettime l = \<lparr>tv_sec = int (clock l) div NS_PER_S, tv_nsec = int (clock l) mod NS_PER_S\<rparr>"

definition put_log :: "log_item \<Rightarrow> plog \<Rightarrow> plog" where
  "put_log i l = l\<lparr>logfile := logfile l @ [i]\<rparr>"

text \<open>The new value of the key in the store, if it has one; only its first character counts.\<close>

definition log_throttling :: "u8 list option \<Rightarrow> plog \<Rightarrow> plog" where
  "log_throttling throttling l =
     (case throttling of
        None \<Rightarrow> l
      | Some v \<Rightarrow>
          let off = (case v of [] \<Rightarrow> 0 | c # _ \<Rightarrow> c) = 0x30
          in put_log (Throttling (\<not> off)) (l\<lparr>throttling_disabled := off\<rparr>))"

section \<open>The token bucket\<close>

text \<open>When the bucket will hold \<open>count\<close> tokens.\<close>

definition waiting_for :: "nat \<Rightarrow> plog \<Rightarrow> timespec" where
  "waiting_for count l =
     (let n = int count - int (unat (available l));
          s = tv_sec (last_refil l) + n div 256;
          ns = tv_nsec (last_refil l) + n mod 256 * 3906250
      in if ns \<ge> NS_PER_S then \<lparr>tv_sec = s + 1, tv_nsec = ns - NS_PER_S\<rparr> else \<lparr>tv_sec = s, tv_nsec = ns\<rparr>)"

definition time_left :: "timespec \<Rightarrow> timespec \<Rightarrow> timespec" where
  "time_left w now =
     (let s = tv_sec w - tv_sec now; ns = tv_nsec w - tv_nsec now
      in if ns < 0 then \<lparr>tv_sec = s - 1, tv_nsec = ns + NS_PER_S\<rparr> else \<lparr>tv_sec = s, tv_nsec = ns\<rparr>)"

definition nanosleep :: "timespec \<Rightarrow> plog \<Rightarrow> plog" where
  "nanosleep ts l = l\<lparr>clock := clock l + nat (tv_sec ts * NS_PER_S + tv_nsec ts)\<rparr>"

definition wait_for_tokens :: "(nat \<Rightarrow> nat) \<Rightarrow> nat \<Rightarrow> plog \<Rightarrow> plog" where
  "wait_for_tokens oversleep count l =
     (let ts = time_left (waiting_for count l) (clock_gettime l);
          l1 = (if tv_sec ts > 0 \<or> tv_sec ts = 0 \<and> tv_nsec ts > 0
                then nanosleep ts (if \<not> warned l then (put_log Throttled l)\<lparr>warned := True\<rparr> else l)
                else l)
      in l1\<lparr>clock := clock l1 + oversleep (clock l1)\<rparr>)"

text \<open>Doubles in units of \<open>2 ^ - 82\<close>.\<close>

abbreviation (input) "ONE \<equiv> (2 ^ 82 :: int)"
abbreviation (input) "NANO \<equiv> (4835703278458517 :: int)"

definition round53 :: "int \<Rightarrow> int" where
  "round53 x =
     (let k = nat (bitlen \<bar>x\<bar> - 53); q = x div 2 ^ k; r = x mod 2 ^ k
      in (if 2 * r < 2 ^ k \<or> 2 * r = 2 ^ k \<and> even q then q else q + 1) * 2 ^ k)"

definition refill :: "plog \<Rightarrow> plog res" where
  "refill l =
     (let now = clock_gettime l;
          delay = round53 ((tv_sec now - tv_sec (last_refil l)) * ONE + round53 ((tv_nsec now - tv_nsec (last_refil l)) * NANO));
          total = round53 (int (unat (available l)) * ONE + int BUCKET_FILL_RATE * delay)
      in if total \<ge> 2 ^ 32 * ONE \<or> total \<le> - ONE then Inl Bad_access
         else Inr (l\<lparr>available := of_int (min (if total < 0 then 0 else total div ONE) (int BUCKET_MAX_SIZE)), last_refil := now\<rparr>))"

definition throttle :: "(nat \<Rightarrow> nat) \<Rightarrow> nat \<Rightarrow> plog \<Rightarrow> plog res" where
  "throttle oversleep count l =
     (if throttling_disabled l then Inr l
      else
        let l1 = (if \<not> started l
                  then l\<lparr>last_refil := clock_gettime l, available := of_nat BUCKET_MAX_SIZE, started := True\<rparr> else l) in
        if count > BUCKET_MAX_SIZE then Inl (Exit 1)
        else res_bind (if unat (available l1) < count then refill (wait_for_tokens oversleep count l1) else Inr l1) (\<lambda>l2.
          if unat (available l2) \<ge> count then Inr (l2\<lparr>available := available l2 - of_nat count\<rparr>) else Inl Abort))"

section \<open>The line buffer\<close>

definition isspace :: "u8 \<Rightarrow> bool" where
  "isspace c \<longleftrightarrow> c = 0x20 \<or> 0x09 \<le> c \<and> c \<le> 0x0d"

definition isgraph :: "u8 \<Rightarrow> bool" where
  "isgraph c \<longleftrightarrow> 0x21 \<le> c \<and> c \<le> 0x7e"

definition c_string :: "u8 list \<Rightarrow> u8 list" where
  "c_string bs = takeWhile (\<lambda>b. b \<noteq> 0) bs"

definition write_log :: "(nat \<Rightarrow> nat) \<Rightarrow> u8 \<Rightarrow> plog \<Rightarrow> plog res" where
  "write_log oversleep c l =
     (if c = 0x0a \<or> log_buffer_off l = LOG_BUFFER_SIZE - 1 then
        let l1 = l\<lparr>log_buffer := (log_buffer l)[log_buffer_off l := 0]\<rparr> in
        res_bind (throttle oversleep (log_buffer_off l1) l1) (\<lambda>l2.
          Inr ((put_log (Guest_line (c_string (log_buffer l2))) l2)\<lparr>log_buffer_off := 0\<rparr>))
      else
        let c1 = (if isspace c then 0x20 else c) in
        if c1 = 0x20 \<or> isgraph c1
        then Inr (l\<lparr>log_buffer := (log_buffer l)[log_buffer_off l := c1], log_buffer_off := log_buffer_off l + 1\<rparr>)
        else Inr l)"

text \<open>A guest that writes to the log port now and then.\<close>

datatype log_event = Wait nat | Char u8

fun log_step :: "(nat \<Rightarrow> nat) \<Rightarrow> log_event \<Rightarrow> plog \<Rightarrow> plog res" where
  "log_step oversleep (Wait d) l = Inr (l\<lparr>clock := clock l + d\<rparr>)"
| "log_step oversleep (Char c) l = write_log oversleep c l"

section \<open>Time\<close>









section \<open>Rounding\<close>

lemma bitlen_eqI:
  assumes "2 ^ n \<le> x" "x < 2 ^ (n + 1)"
  shows "bitlen x = int n + 1"
proof -
  have "bitlen x \<le> int (n + 1)" "\<not> bitlen x \<le> int n" using assms by (simp_all only: bitlen_le_iff_power nat_int of_nat_0_le_iff simp_thms not_less)
  then show ?thesis by simp
qed



section \<open>The rate limit\<close>














section \<open>Runs\<close>








section \<open>Properties\<close>

definition power_on_log :: "nat \<Rightarrow> plog" where
  "power_on_log t = \<lparr>throttling_disabled = False, available = 0, last_refil = \<lparr>tv_sec = 0, tv_nsec = 0\<rparr>, started = False, warned = False,
     log_buffer = replicate LOG_BUFFER_SIZE 0, log_buffer_off = 0, logfile = [], clock = t\<rparr>"




text \<open>The assertion fails: a bucket that was emptied at 0.99609375 seconds has its next token, by exact arithmetic, at one second, but \<^verbatim>\<open>- 996093750 * 1.0e-9\<close>
  is rounded to a number below \<^verbatim>\<open>- 0.99609375\<close>. If the clock reads one second at the refill, a guest's line of one character ends the device model.\<close>

theorem throttle_assertion_fails:
  "throttle (\<lambda>_. 0) 1 ((power_on_log 1000000000)\<lparr>started := True, last_refil := \<lparr>tv_sec = 0, tv_nsec = 996093750\<rparr>\<rparr>) = Inl Abort"
proof -
  have "bitlen 4816813812527038417968750 = 82" "bitlen 18889465931478043983872 = 74" "bitlen 4835703278458379259871232 = 82"
    by (intro bitlen_eqI [of 81, simplified] bitlen_eqI [of 73, simplified]; simp)+
  then have r: "round53 (- 4816813812527038417968750) = - 4816813812527038654840832" "round53 18889465931478043983872 = 18889465931478043983872"
    "round53 4835703278458379259871232 = 4835703278458379259871232"
    by (simp_all add: round53_def)
  show ?thesis
    by (simp add: throttle_def wait_for_tokens_def waiting_for_def time_left_def clock_gettime_def power_on_log_def refill_def Let_def r)
qed

text \<open>Empty lines are free: with an empty line buffer a guest can write any number of newlines, each of which adds a line to the log file of
  the host, without using a token and without being made to wait. The bucket is meant to hold one token for every byte of log.\<close>

theorem log_newlines_unthrottled:
  assumes "log_buffer_off l = 0" "started l" "log_buffer l = 0 # bs"
  shows "res_fold (log_step os) (replicate n (Char 0x0a)) l = Inr (l\<lparr>logfile := logfile l @ replicate n (Guest_line [])\<rparr>)"
  using assms
proof (induction n arbitrary: l)
  case (Suc n)
  have t: "throttle os 0 x = Inr x" if "started x" for x using that by (simp add: throttle_def)
  have w: "write_log os 0x0a l = Inr (l\<lparr>logfile := logfile l @ [Guest_line []]\<rparr>)"
    using Suc.prems by (cases l) (simp add: write_log_def put_log_def c_string_def t)
  show ?case using Suc.IH [of "l\<lparr>logfile := logfile l @ [Guest_line []]\<rparr>"] Suc.prems by (simp add: w)
qed simp

theorem log_newlines_unthrottled_witness:
  "res_fold (log_step (\<lambda>_. 0)) (replicate 1000000 (Char 0x0a)) ((power_on_log 0)\<lparr>started := True\<rparr>)
     = Inr ((power_on_log 0)\<lparr>started := True, logfile := replicate 1000000 (Guest_line [])\<rparr>)"
proof -
  have "replicate 4096 (0 :: u8) = 0 # replicate 4095 0" using replicate_Suc [of 4095 "0 :: u8"] by (simp del: replicate_Suc)
  then show ?thesis using log_newlines_unthrottled [of "(power_on_log 0)\<lparr>started := True\<rparr>" "replicate 4095 0" "\<lambda>_. 0" 1000000]
    by (simp add: power_on_log_def)
qed

end
