(* ===== verification/Xen_Platform.thy ===== *)
theory Xen_Platform
  imports Unplug Platform_Log
begin

text \<open>
  The Xen platform device (\<^verbatim>\<open>hw/xen_platform.c\<close>): the unplug protocol on the fixed ports 0x10 to 0x1f, the lock of the ROM area, the log port,
  and the PCI function with its two regions. \<open>plat_env\<close> is the world outside the process: how long a sleep overshoots, the result of
  the \<open>n\<close>th \<^verbatim>\<open>xc_hvm_set_mem_type\<close> call, whether the store has a blacklist key for a product and build (\<^verbatim>\<open>/mh/driver-blacklist\<close>), and the numbers in the \<^verbatim>\<open>platform\<close>
  keys of the domain. \<open>mem_types\<close> records the memory type calls (read-only or not, and the result), latest first, \<open>xs_written\<close> the keys
  set in the store. Messages go to the log; numbers in them are kept as values.
\<close>

section \<open>State\<close>

record platform = unplug_host +
  plat_log :: plog
  platform_flags :: u8
  unplug_version :: u8
  unplug_version_isset :: bool
  drivers_blacklisted :: bool
  product_id :: u16
  build_number :: u32
  unplug_type :: u8
  read_warnings :: nat
  write_warnings :: nat
  platform_device_id :: u16
  platform_revision :: u8
  mem_types :: "(bool \<times> int) list"
  xs_written :: "string list"

record plat_env =
  oversleep :: "nat \<Rightarrow> nat"
  xc_hvm_set_mem_type :: "nat \<Rightarrow> bool \<Rightarrow> int"
  blacklist_key :: "string \<Rightarrow> u32 \<Rightarrow> bool"
  pf_device_id :: "u64 option"
  pf_subsystem_id :: "u64 option"
  pf_revision :: "u64 option"

definition say :: "log_item \<Rightarrow> 'a platform_scheme \<Rightarrow> 'a platform_scheme" where
  "say i m = m\<lparr>plat_log := put_log i (plat_log m)\<rparr>"

section \<open>Flags and log\<close>

definition set_platform_flags :: "plat_env \<Rightarrow> u8 \<Rightarrow> 'a platform_scheme \<Rightarrow> 'a platform_scheme" where
  "set_platform_flags env flags m =
     (let ro = (flags AND 1 \<noteq> 0);
          rc = xc_hvm_set_mem_type env (length (mem_types m)) ro;
          m1 = m\<lparr>mem_types := (ro, rc) # mem_types m\<rparr>
      in if rc \<noteq> 0 then say Rom_failed m1 else say (Rom_area ro) (m1\<lparr>platform_flags := flags AND 1\<rparr>))"

definition platform_write_log :: "plat_env \<Rightarrow> u8 \<Rightarrow> 'a platform_scheme \<Rightarrow> 'a platform_scheme res" where
  "platform_write_log env c m = res_bind (write_log (oversleep env) c (plat_log m)) (\<lambda>l. Inr (m\<lparr>plat_log := l\<rparr>))"

section \<open>The unplug protocol\<close>

definition set_unplug_version :: "u8 \<Rightarrow> 'a platform_scheme \<Rightarrow> bool \<times> 'a platform_scheme" where
  "set_unplug_version version m =
     (if unplug_version_isset m then (False, m)
      else let m1 = m\<lparr>unplug_version := version, unplug_version_isset := True\<rparr>;
               m2 = (if version > 1 then m1\<lparr>drivers_blacklisted := True\<rparr> else m1)
           in (True, say (Protocol_set version (drivers_blacklisted m2)) m2))"

definition version_0_1_unplug ::
  "('a platform_scheme, 'c) pci_code_scheme \<Rightarrow> u16 \<Rightarrow> 'a platform_scheme \<Rightarrow> 'a platform_scheme res" where
  "version_0_1_unplug c mk m =
     (if drivers_blacklisted m then Inr m
      else
        res_bind (if bit mk 0 then ide_unplug_all_harddisks m else Inr m) (\<lambda>m.
        res_bind (if bit mk 1 then res_bind (on_pci (pci_unplug_all_netifs c) m) (\<lambda>m. Inr (net_tap_shutdown_all m)) else Inr m) (\<lambda>m.
        if bit mk 2 then ide_unplug_aux_harddisks m else Inr m)))"

definition version_2_unplug ::
  "('a platform_scheme, 'c) pci_code_scheme \<Rightarrow> u8 \<Rightarrow> u8 \<Rightarrow> 'a platform_scheme \<Rightarrow> 'a platform_scheme res" where
  "version_2_unplug c ty index m =
     (if drivers_blacklisted m then Inr m
      else if ty = 1 then ide_unplug_harddisk (unat index) (say Unplug_ide m)
      else if ty = 2 then
        res_bind (pci_unplug_nic c ((4 + int (unat index)) * 8) (say Unplug_nic m)) (\<lambda>(vid, m).
          Inr (if vid \<ge> 0 then net_tap_shutdown_vlan vid m else m))
      else Inr (say (Unplug_unrecognized ty) m))"

text \<open>\<^verbatim>\<open>xenstore.c\<close>: which drivers may be used.\<close>

definition product_name :: "u16 \<Rightarrow> string option" where
  "product_name p = (if p = 1 then Some ''xensource-windows'' else if p = 2 then Some ''gplpv-windows''
     else if p = 0xffff then Some ''experimental'' else None)"

definition xenstore_pv_driver_build_blacklisted :: "plat_env \<Rightarrow> u16 \<Rightarrow> u32 \<Rightarrow> 'a platform_scheme \<Rightarrow> bool" where
  "xenstore_pv_driver_build_blacklisted env product_nr build_nr m =
     (let keyed = (case product_name product_nr of None \<Rightarrow> False | Some n \<Rightarrow> blacklist_key env n build_nr);
          device_id = ucast (drop_bit 8 build_nr AND 0xffff) :: u16;
          revision = ucast (build_nr AND 0xff) :: u8
      in if product_nr = 1 then keyed \<or> platform_device_id m \<noteq> 1
         else if product_nr = 3 \<or> product_nr = 4 then
           keyed \<or> (if product_nr = 3 \<and> device_id = 0 then platform_device_id m \<noteq> 1
                    else device_id \<noteq> platform_device_id m \<or> revision < platform_revision m)
         else keyed)"

definition xenstore_notify_unplug :: "'a platform_scheme \<Rightarrow> 'a platform_scheme" where
  "xenstore_notify_unplug m = m\<lparr>xs_written := xs_written m @
     [''control/feature-suspend'', ''control/feature-shutdown'', ''control/feature-vcpu-hotplug'', ''data/updated'']\<rparr>"

definition set_product_id :: "u16 \<Rightarrow> 'a platform_scheme \<Rightarrow> 'a platform_scheme" where
  "set_product_id n m = m\<lparr>product_id := n\<rparr>"

definition set_build_number :: "plat_env \<Rightarrow> u32 \<Rightarrow> 'a platform_scheme \<Rightarrow> 'a platform_scheme" where
  "set_build_number env number m =
     (if product_id m = 0 then say No_product m
      else
        let m1 = say (Product_build (product_id m) number) (m\<lparr>build_number := number\<rparr>);
            bl = xenstore_pv_driver_build_blacklisted env (product_id m1) (build_number m1) m1;
            m2 = say (Drivers_blacklisted bl) (m1\<lparr>drivers_blacklisted := bl\<rparr>)
        in if product_id m2 = 3 \<and> build_number m2 \<le> 0xff \<and> \<not> drivers_blacklisted m2 then xenstore_notify_unplug m2 else m2)"

section \<open>The fixed ports\<close>

definition platform_fixed_ioport_read4 :: "u32 \<Rightarrow> u32" where
  "platform_fixed_ioport_read4 addr = 0xffffffff"

definition platform_fixed_ioport_read2 :: "u32 \<Rightarrow> 'a platform_scheme \<Rightarrow> u32" where
  "platform_fixed_ioport_read2 addr m = (if addr = 0x10 then (if \<not> drivers_blacklisted m then 0x49d2 else 0xd249) else 0xffff)"

definition platform_fixed_ioport_read1 :: "u32 \<Rightarrow> 'a platform_scheme \<Rightarrow> u32 \<times> 'a platform_scheme" where
  "platform_fixed_ioport_read1 addr m =
     (if addr = 0x10 then (ucast (platform_flags m), m)
      else if addr = 0x12 then
        (let m1 = snd (set_unplug_version 1 m) in (ucast (unplug_version m1), say (Protocol_active (unplug_version m1)) m1))
      else (0xff, m))"

definition platform_fixed_ioport_write4 :: "plat_env \<Rightarrow> u32 \<Rightarrow> u32 \<Rightarrow> 'a platform_scheme \<Rightarrow> 'a platform_scheme" where
  "platform_fixed_ioport_write4 env addr val m = (if unplug_version m \<noteq> 0 then set_build_number env val m else m)"

definition platform_fixed_ioport_write2 ::
  "('a platform_scheme, 'c) pci_code_scheme \<Rightarrow> u32 \<Rightarrow> u32 \<Rightarrow> 'a platform_scheme \<Rightarrow> 'a platform_scheme res" where
  "platform_fixed_ioport_write2 c addr val m =
     (if addr = 0x10 then (if unplug_version m = 0 \<or> unplug_version m = 1 then version_0_1_unplug c (ucast val) m else Inr m)
      else if addr = 0x12 then Inr (if unplug_version m \<noteq> 0 then set_product_id (ucast val) m else m)
      else Inr m)"

definition platform_fixed_ioport_write1 ::
  "plat_env \<Rightarrow> ('a platform_scheme, 'c) pci_code_scheme \<Rightarrow> u32 \<Rightarrow> u32 \<Rightarrow> 'a platform_scheme \<Rightarrow> 'a platform_scheme res" where
  "platform_fixed_ioport_write1 env c addr val m =
     (if addr = 0x10 then Inr (set_platform_flags env (ucast val) m)
      else if addr = 0x11 then Inr (if unplug_version m = 2 then m\<lparr>unplug_type := ucast val\<rparr> else m)
      else if addr = 0x12 then platform_write_log env (ucast val) m
      else if addr = 0x13 then
        (let (fresh, m1) = set_unplug_version (ucast val) m in
         if \<not> fresh \<and> unplug_version m1 = 2 then version_2_unplug c (unplug_type m1) (ucast val) m1 else Inr m1)
      else Inr m)"

definition platform_fixed_ioport_save :: "'a platform_scheme \<Rightarrow> qemu_file \<Rightarrow> qemu_file res" where
  "platform_fixed_ioport_save m f = qemu_put_8s (platform_flags m) f"

definition platform_fixed_ioport_load ::
  "plat_env \<Rightarrow> 'a platform_scheme \<Rightarrow> int \<Rightarrow> qemu_file \<Rightarrow> ((int \<times> 'a platform_scheme) \<times> qemu_file) res" where
  "platform_fixed_ioport_load env m version f =
     (if version > 1 then Inr ((- EINVAL, m), f)
      else res_bind (qemu_get_byte f) (\<lambda>(flags, f). Inr ((0, set_platform_flags env flags m), f)))"

abbreviation (input) "PLATFORM_WRITE4 \<equiv> (40::nat)"
abbreviation (input) "PLATFORM_WRITE2 \<equiv> (41::nat)"
abbreviation (input) "PLATFORM_WRITE1 \<equiv> (42::nat)"
abbreviation (input) "PLATFORM_READ4 \<equiv> (43::nat)"
abbreviation (input) "PLATFORM_READ2 \<equiv> (44::nat)"
abbreviation (input) "PLATFORM_READ1 \<equiv> (45::nat)"
abbreviation (input) "XEN_PLATFORM_WRITEB \<equiv> (46::nat)"
abbreviation (input) "XEN_PLATFORM_READB \<equiv> (47::nat)"
abbreviation (input) "PLATFORM_MMIO_READ \<equiv> (48::nat)"
abbreviation (input) "PLATFORM_MMIO_WRITE \<equiv> (49::nat)"
abbreviation (input) "PLATFORM_IOPORT_MAP \<equiv> (50::nat)"
abbreviation (input) "PLATFORM_MMIO_MAP \<equiv> (51::nat)"

definition platform_fixed_ioport_init :: "plat_env \<Rightarrow> 'a platform_scheme \<Rightarrow> 'a platform_scheme res" where
  "platform_fixed_ioport_init env m =
     res_bind (register_ioport_write 0x10 16 4 PLATFORM_WRITE4 0 m) (\<lambda>m.
     res_bind (register_ioport_write 0x10 16 2 PLATFORM_WRITE2 0 m) (\<lambda>m.
     res_bind (register_ioport_write 0x10 16 1 PLATFORM_WRITE1 0 m) (\<lambda>m.
     res_bind (register_ioport_read 0x10 16 4 PLATFORM_READ4 0 m) (\<lambda>m.
     res_bind (register_ioport_read 0x10 16 2 PLATFORM_READ2 0 m) (\<lambda>m.
     res_bind (register_ioport_read 0x10 16 1 PLATFORM_READ1 0 m) (\<lambda>m.
     Inr (set_platform_flags env 0 m)))))))"

section \<open>The PCI function\<close>

definition xen_platform_ioport_readb :: "u32 \<Rightarrow> 'a platform_scheme \<Rightarrow> u32 \<times> 'a platform_scheme" where
  "xen_platform_ioport_readb addr m = (if addr AND 0xff = 0 then platform_fixed_ioport_read1 0x10 m else (- 1, m))"

definition xen_platform_ioport_writeb :: "plat_env \<Rightarrow> u32 \<Rightarrow> u32 \<Rightarrow> 'a platform_scheme \<Rightarrow> 'a platform_scheme res" where
  "xen_platform_ioport_writeb env addr val m =
     (if addr AND 0xff = 0 then Inr (set_platform_flags env (ucast (val AND 0xff)) m)
      else if addr AND 0xff = 8 then platform_write_log env (ucast (val AND 0xff)) m
      else Inr m)"

text \<open>\<open>opq\<close> is the address of the device structure.\<close>

definition platform_ioport_map :: "nat \<Rightarrow> u32 \<Rightarrow> u32 \<Rightarrow> 'a port_bus_scheme \<Rightarrow> 'a port_bus_scheme res" where
  "platform_ioport_map opq addr sz m =
     res_bind (register_ioport_write (sint addr) (sint sz) 1 XEN_PLATFORM_WRITEB opq m)
       (register_ioport_read (sint addr) (sint sz) 1 XEN_PLATFORM_READB opq)"

definition platform_mmio_read :: "u64 \<Rightarrow> 'a platform_scheme \<Rightarrow> u32 \<times> 'a platform_scheme" where
  "platform_mmio_read addr m = (0, if read_warnings m < 5 then say (Mmio_warning addr) (m\<lparr>read_warnings := read_warnings m + 1\<rparr>) else m)"

definition platform_mmio_write :: "u64 \<Rightarrow> 'a platform_scheme \<Rightarrow> 'a platform_scheme" where
  "platform_mmio_write addr m = (if write_warnings m < 5 then say (Mmio_warning addr) (m\<lparr>write_warnings := write_warnings m + 1\<rparr>) else m)"

definition platform_mmio_map :: "u32 \<Rightarrow> 'a mem_bus_scheme \<Rightarrow> 'a mem_bus_scheme res" where
  "platform_mmio_map addr m =
     (let (mmio_io_addr, m1) = cpu_register_io_memory 0 (\<lambda>_. Some PLATFORM_MMIO_READ) (\<lambda>_. Some PLATFORM_MMIO_WRITE) 0 m
      in cpu_register_physical_memory (ucast addr) 0x1000000 (word_of_int mmio_io_addr) m1)"

text \<open>The callbacks of the platform function in the table of the bus, and the handlers of its ports and memory.\<close>

definition platform_pci_code :: "nat \<Rightarrow> 'a platform_scheme pci_code" where
  "platform_pci_code opq = \<lparr>call_map_region = (\<lambda>fn d i a sz t m.
       if fn = PLATFORM_IOPORT_MAP then platform_ioport_map opq a sz m
       else if fn = PLATFORM_MMIO_MAP then platform_mmio_map a m else Inl Bad_access),
     call_map_irq = (\<lambda>fn d n. pci_slot_get_pirq d n), call_set_irq = (\<lambda>fn opq n l m. Inr (i440fx_set_irq n l m)),
     call_config_read = (\<lambda>fn d a n m. Inl Bad_access), call_config_write = (\<lambda>fn d a v n m. Inl Bad_access),
     call_unregister = (\<lambda>fn d m. Inl Bad_access), hvm_set_pci_link_route = (\<lambda>l v m. m\<lparr>link_routes := (l, v) # link_routes m\<rparr>), pci_mem_base = 0\<rparr>"

definition platform_code :: "plat_env \<Rightarrow> nat \<Rightarrow> 'a platform_scheme mem_code" where
  "platform_code env opq =
     \<lparr>call_port_read = (\<lambda>fn p a m.
        if fn = PLATFORM_READ4 then Inr (platform_fixed_ioport_read4 a, m)
        else if fn = PLATFORM_READ2 then Inr (platform_fixed_ioport_read2 a m, m)
        else if fn = PLATFORM_READ1 then Inr (platform_fixed_ioport_read1 a m)
        else if fn = XEN_PLATFORM_READB then Inr (xen_platform_ioport_readb a m)
        else call_port_read (host_port_code (platform_pci_code opq)) fn p a m),
      call_port_write = (\<lambda>fn p a v m.
        if fn = PLATFORM_WRITE4 then Inr (platform_fixed_ioport_write4 env a v m)
        else if fn = PLATFORM_WRITE2 then platform_fixed_ioport_write2 (i440fx_code (platform_pci_code opq)) a v m
        else if fn = PLATFORM_WRITE1 then platform_fixed_ioport_write1 env (i440fx_code (platform_pci_code opq)) a v m
        else if fn = XEN_PLATFORM_WRITEB then xen_platform_ioport_writeb env a v m
        else call_port_write (host_port_code (platform_pci_code opq)) fn p a v m),
      call_mem_read = (\<lambda>fn p a m. if fn = PLATFORM_MMIO_READ then Inr (platform_mmio_read a m) else Inl Bad_access),
      call_mem_write = (\<lambda>fn p a v m. if fn = PLATFORM_MMIO_WRITE then Inr (platform_mmio_write a m) else Inl Bad_access)\<rparr>"

definition xen_pci_save :: "nat \<Rightarrow> 'a platform_scheme \<Rightarrow> qemu_file \<Rightarrow> qemu_file res" where
  "xen_pci_save d m f = res_bind (pci_device_save (devs (pcis m) ! d) f) (qemu_put_be64 0)"

definition xen_pci_load ::
  "plat_env \<Rightarrow> nat \<Rightarrow> u32 \<Rightarrow> nat \<Rightarrow> 'a platform_scheme \<Rightarrow> int \<Rightarrow> qemu_file \<Rightarrow> ((int \<times> 'a platform_scheme) \<times> qemu_file) res" where
  "xen_pci_load env opq ver d m version f =
     res_bind (host_device_load (platform_pci_code opq) ver d m f) (\<lambda>((ret, m), f).
       if ret < 0 then Inr ((ret, m), f)
       else if version \<ge> 2 then
         res_bind (if version = 2 then res_bind (qemu_get_byte f) (\<lambda>(flags, f). Inr (set_platform_flags env flags m, f)) else Inr (m, f)) (\<lambda>(m, f).
         res_bind (qemu_get_be64 f) (\<lambda>(_, f). Inr ((0, m), f)))
       else Inr ((0, m), f))"

definition xenstore_parse_pf_config :: "plat_env \<Rightarrow> (nat \<Rightarrow> u8) \<times> 'a platform_scheme \<Rightarrow> (nat \<Rightarrow> u8) \<times> 'a platform_scheme" where
  "xenstore_parse_pf_config env = (\<lambda>(cf, m).
     let (did, sid, rev) = (case pf_device_id env of
           None \<Rightarrow> (0x0001, 0x0001, 1)
         | Some v \<Rightarrow> (ucast v, (case pf_subsystem_id env of None \<Rightarrow> ucast v | Some w \<Rightarrow> ucast w),
                       (case pf_revision env of None \<Rightarrow> 2 | Some w \<Rightarrow> ucast w)))
     in ((put_le16 0x2e sid (put_le16 0x02 did (put_le16 0x2c 0x5853 (put_le16 0x00 0x5853 cf))))(0x08 := rev),
         m\<lparr>platform_device_id := did, platform_revision := rev\<rparr>))"

definition platform_header :: "(nat \<Rightarrow> u8) \<Rightarrow> nat \<Rightarrow> u8" where
  "platform_header cf = (put_le16 0x04 3 cf)(0x09 := 0, 0x0b := 0x1, 0x0a := 0x0, 0x0e := 0, 0x3d := 3)"

definition pci_xen_platform_init :: "plat_env \<Rightarrow> nat \<Rightarrow> int \<Rightarrow> 'a platform_scheme \<Rightarrow> (nat \<times> 'a platform_scheme) res" where
  "pci_xen_platform_init env b n m =
     res_bind (pci_register_device b ''xen-platform'' n Pci_default_read Pci_default_write (pcis m)) (\<lambda>(r, s).
       case r of None \<Rightarrow> Inl Bad_access
       | Some h \<Rightarrow>
           let (cf, m1) = xenstore_parse_pf_config env (config (devs s ! h), m);
               d = (devs s ! h)\<lparr>config := platform_header cf\<rparr>
           in res_bind (pci_register_io_region d 0 0x100 1 (Some PLATFORM_IOPORT_MAP)) (\<lambda>d.
              res_bind (pci_register_io_region d 1 0x1000000 8 (Some PLATFORM_MMIO_MAP)) (\<lambda>d.
                Inr (h, m1\<lparr>pcis := upd_dev h (\<lambda>_. d) s\<rparr>))))"

section \<open>The function on the bus\<close>

abbreviation (input) "PORT_CONFLICT \<equiv> Hw_error ''register_ioport_read: invalid opaque''"

lemma register_loop_ends:
  "0 \<le> i \<Longrightarrow> stop \<le> 65536 \<Longrightarrow> ends {PORT_CONFLICT} (\<lambda>_. True) (register_loop f op step i stop m)"
proof (induction f op step i stop m rule: register_loop.induct)
  case (1 f op step i stop m)
  show ?case
  proof (cases "i < stop \<and> 0 < step")
    case True
    have "ends {PORT_CONFLICT} (\<lambda>_. True) (register_one f op i m)"
      using True 1(2,3) by (simp add: register_one_def get_ioport_flat)
    then show ?thesis using True 1 by (subst register_loop.simps) (auto intro!: ends_bind [of _ "\<lambda>_. True"])
  next
    case False
    then show ?thesis using register_loop.simps [of f op step i stop m] by auto
  qed
qed

lemma platform_ioport_map_ends:
  assumes "unat a + unat sz \<le> 0x10000"
  shows "ends {PORT_CONFLICT} (\<lambda>_. True) (platform_ioport_map opq a sz m)"
proof -
  have "sint a = int (unat a)" "sint sz = int (unat sz)" using assms by (intro sint_port, linarith)+
  then have "0 \<le> sint a" "sint a + sint sz \<le> 65536" using assms by linarith+
  then show ?thesis unfolding platform_ioport_map_def register_ioport_write_def register_ioport_read_def access_index_def
    by (auto intro!: ends_bind [of _ "\<lambda>_. True"] register_loop_ends)
qed

lemma platform_mmio_map_ends: "ends {Exit (- 1)} (\<lambda>_. True) (platform_mmio_map a m)"
  by (simp add: platform_mmio_map_def register_memory_ends split: prod.split)

text \<open>The two map functions keep the contract \<^verbatim>\<open>hw/pci.c\<close> relies on, and the function has no configuration callbacks of its own.\<close>

interpretation platform_regions: region_mapper "i440fx_code (platform_pci_code opq)" "{Exit (- 1), PORT_CONFLICT}" "\<lambda>_. True"
    "{(PLATFORM_IOPORT_MAP, 1), (PLATFORM_MMIO_MAP, 8)}" for opq
proof unfold_locales
  fix fn d i m and a sz :: u32 and t :: u8
  assume "(fn, t) \<in> {(PLATFORM_IOPORT_MAP, 1), (PLATFORM_MMIO_MAP, 8)}" "bit t 0 \<longrightarrow> unat a + unat sz \<le> 0x10000"
  then consider "fn = PLATFORM_IOPORT_MAP" "unat a + unat sz \<le> 0x10000" | "fn = PLATFORM_MMIO_MAP" by auto
  then show "ends {Exit (- 1), PORT_CONFLICT} (\<lambda>_. True) (call_map_region (i440fx_code (platform_pci_code opq)) fn d i a sz t m)"
  proof cases
    case 1
    then show ?thesis using platform_ioport_map_ends [of a sz opq m] unfolding ends_def
      by (auto simp: i440fx_code_def platform_pci_code_def split: sum.splits)
  next
    case 2
    then show ?thesis using platform_mmio_map_ends [of a m] unfolding ends_def
      by (auto simp: i440fx_code_def platform_pci_code_def split: sum.splits)
  qed
qed simp_all

interpretation platform_drivers: pci_drivers "i440fx_code (platform_pci_code opq)" for opq
  by unfold_locales (simp_all add: i440fx_code_def platform_pci_code_def)

abbreviation (input) "PLATFORM_REGIONS \<equiv> {(PLATFORM_IOPORT_MAP, 1), (PLATFORM_MMIO_MAP, 8)}"

text \<open>The function as \<^verbatim>\<open>pci_xen_platform_init\<close> leaves it: identified, enabled, and with both regions unmapped.\<close>

lemma platform_init_device:
  assumes "pci_xen_platform_init env b n m = Inr (h, m1)"
  shows "synced PLATFORM_REGIONS (devs (pcis m1) ! h)" "type0 (devs (pcis m1) ! h)"
    "le16_at (config (devs (pcis m1) ! h)) 0 = 0x5853" "config (devs (pcis m1) ! h) 0x3d = 3"
proof -
  obtain s where s: "pci_register_device b ''xen-platform'' n Pci_default_read Pci_default_write (pcis m) = Inr (Some h, s)"
    using assms by (auto simp: pci_xen_platform_init_def res_bind_Inr_iff Let_def case_prod_beta split: option.splits)
  then obtain k where k: "h = length (devs (pcis m))" "devs s ! h = new_device b k ''xen-platform'' Pci_default_read Pci_default_write" "h < length (devs s)"
    using register_device_cases [OF s] by (auto simp: upd_bus_def)
  obtain cf m2 where cf: "xenstore_parse_pf_config env (config (devs s ! h), m) = (cf, m2)" by (cases "xenstore_parse_pf_config env (config (devs s ! h), m)")
  define d where "d = devs (pcis m1) ! h"
  let ?r0 = "\<lparr>rg_addr = UNMAPPED, rg_size = 0x100, rg_type = 1, rg_map_func = Some PLATFORM_IOPORT_MAP\<rparr>"
  let ?r1 = "\<lparr>rg_addr = UNMAPPED, rg_size = 0x1000000, rg_type = 8, rg_map_func = Some PLATFORM_MMIO_MAP\<rparr>"
  let ?z = "\<lparr>rg_addr = 0, rg_size = 0, rg_type = 0, rg_map_func = None\<rparr>"
  define d0 where "d0 = (devs s ! h)\<lparr>config := platform_header cf\<rparr>"
  have z: "io_regions d0 = [?z, ?z, ?z, ?z, ?z, ?z, ?z]"
    by (simp add: d0_def k(2) new_device_def pci_set_default_subsystem_id_def) (simp add: numeral_eq_Suc)
  define d1 where "d1 = d0\<lparr>io_regions := [?r0, ?z, ?z, ?z, ?z, ?z, ?z], config := put_le32 0x10 1 (platform_header cf)\<rparr>"
  have 1: "pci_register_io_region d0 0 0x100 1 (Some PLATFORM_IOPORT_MAP) = Inr d1"
    by (simp add: pci_register_io_region_def z d1_def bar_ofs_def) (simp add: d0_def)
  have 2: "pci_register_io_region d1 1 0x1000000 8 (Some PLATFORM_MMIO_MAP)
      = Inr (d1\<lparr>io_regions := [?r0, ?r1, ?z, ?z, ?z, ?z, ?z], config := put_le32 0x14 8 (put_le32 0x10 1 (platform_header cf))\<rparr>)"
    by (simp add: pci_register_io_region_def d1_def bar_ofs_def)
  have "d = d1\<lparr>io_regions := [?r0, ?r1, ?z, ?z, ?z, ?z, ?z], config := put_le32 0x14 8 (put_le32 0x10 1 (platform_header cf))\<rparr>"
    using assms s cf k(3) 1 2 by (auto simp: pci_xen_platform_init_def d_def upd_dev_def Let_def simp flip: d0_def)
  then have rs: "io_regions d = [?r0, ?r1, ?z, ?z, ?z, ?z, ?z]" and c: "config d = put_le32 0x14 8 (put_le32 0x10 1 (platform_header cf))" by simp_all
  have bars: "le32_at (config d) (bar_ofs 0) = 1" "le32_at (config d) (bar_ofs 1) = 8"
    by (simp_all add: c bar_ofs_def le32_put le32_put_other)
  have un: "decoded d 0 = None" "decoded d 1 = None"
    unfolding decoded_def bars Let_def by (simp_all add: rs)
  have split: "i = 0 \<or> i = 1 \<or> rg_size (io_regions d ! i) = 0" if "i < 7" for i
    using that by (cases i; cases "i - 1") (auto simp: rs nth_Cons')
  have "regions_wf PLATFORM_REGIONS d" by (simp add: regions_wf_def rs pow2_size_def map_entry_def)
  moreover have "rg_addr (io_regions d ! i) = (case decoded d i of Some a \<Rightarrow> a | None \<Rightarrow> UNMAPPED)" if "i < 7" "rg_size (io_regions d ! i) \<noteq> 0" for i
    using split [OF that(1)] that(2) un by (auto simp: rs)
  ultimately have "synced PLATFORM_REGIONS d" unfolding synced_def by blast
  then show "synced PLATFORM_REGIONS (devs (pcis m1) ! h)" by (simp only: d_def)
  have "config d 0x0e = 0" "config d 0x3d = 3" "config d 0 = cf 0" "config d 1 = cf 1" by (simp_all add: c put_le32_def platform_header_def put_le16_def)
  moreover have "cf 0 = 0x53" "cf 1 = 0x58"
    using cf by (auto simp: xenstore_parse_pf_config_def put_le16_def Let_def drop_bit_eq_div split: prod.splits)
  ultimately show "type0 (devs (pcis m1) ! h)" "le16_at (config (devs (pcis m1) ! h)) 0 = 0x5853" "config (devs (pcis m1) ! h) 0x3d = 3"
    unfolding d_def [symmetric] by (simp_all add: type0_def le16_at_def)
qed

text \<open>Whatever a guest writes to the configuration space of the platform function after start-up, its two regions are mapped where its
  registers say, and it stays identified as the Xen platform function with its interrupt pin. The only ways to end the process are to place the
  port region over ports of another device, and to fill the table of memory regions.\<close>

theorem platform_config_writes:
  assumes "pci_xen_platform_init env b n m = Inr (h, m1)" "\<forall>(a, v, len) \<in> set ws. a < 0x100 \<and> len \<le> 4"
  shows "ends {Exit (- 1), Hw_error ''register_ioport_read: invalid opaque''} (\<lambda>(d', m').
       (\<forall>i < 7. rg_size (io_regions d' ! i) \<noteq> 0 \<longrightarrow> rg_addr (io_regions d' ! i) = (case decoded d' i of Some a \<Rightarrow> a | None \<Rightarrow> UNMAPPED))
       \<and> le16_at (config d') 0 = 0x5853 \<and> config d' 0x3d = 3)
    (res_fold (\<lambda>(a, v, len) (d, m). pci_default_write_config (i440fx_code (platform_pci_code opq)) d a v len m) ws (devs (pcis m1) ! h, m1))"
proof (rule ends_mono [OF platform_regions.write_sequence_ends [OF TrueI platform_init_device(1,2) [OF assms(1)]]])
  show "a < 0x100 \<and> len \<le> 4" if "(a, v, len) \<in> set ws" for a v len using assms(2) that by blast
qed (use platform_init_device(3,4) [OF assms(1)] in \<open>auto simp: synced_def same_function_def read_only_def le16_at_def\<close>)

section \<open>A sample machine\<close>

definition sample_drive :: "nat option \<Rightarrow> bool \<Rightarrow> ide_drive" where
  "sample_drive b cd = \<lparr>is_cdrom = cd, is_cf = False, ide_bs = b, mult_sectors = 16, cur_drive = 0, ide_select = 0xa0, ide_status = 0x50,
     nsector = 1, ide_sector = 1, lcyl = 0, hcyl = 0, dummy_transfer = True, data_ptr = 0, data_end = 0, io_buffer = (\<lambda>_. 0xff),
     media_changed = False, cdrom_changed = False\<rparr>"

definition sample_platform :: "pci_state \<Rightarrow> platform" where
  "sample_platform s = \<lparr>ioport_table = (\<lambda>_. None), mmio = [], io_mem_read = (\<lambda>_ _. None), io_mem_write = (\<lambda>_ _. None),
     io_mem_opaque = (\<lambda>_. 0), io_mem_used = (\<lambda>_. False), ram = (\<lambda>_. 0), ram_page = (\<lambda>_. False), xen_logdirty_enable = False, modified = [],
     config_reg = 0, host_bus = 0, pcis = s, piix3_dev = None, intx = [], link_routes = [],
     principal_ide_controller = Some [sample_drive (Some 1) False, sample_drive (Some 2) False, sample_drive (Some 3) True, sample_drive None False],
     drives_table = [Some 1, Some 2, Some 3], bdrv_closed = [], nd_table = [], head_net_tap = [\<lparr>tap_fd = 5, tap_vlan = 0\<rparr>],
     plat_log = power_on_log 0, platform_flags = 0, unplug_version = 0, unplug_version_isset = False, drivers_blacklisted = False,
     product_id = 0, build_number = 0, unplug_type = 0, read_warnings = 0, write_warnings = 0, platform_device_id = 1, platform_revision = 1,
     mem_types = [], xs_written = []\<rparr>"

definition sample_env :: plat_env where
  "sample_env = \<lparr>oversleep = (\<lambda>_. 0), xc_hvm_set_mem_type = (\<lambda>_ _. 0), blacklist_key = (\<lambda>_ _. False), pf_device_id = None, pf_subsystem_id = None, pf_revision = None\<rparr>"

lemma platform_init_total:
  assumes "k < 256"
  shows "\<exists>m1. pci_xen_platform_init env b (int k) m = Inr (length (devs (pcis m)), m1)"
proof -
  obtain s where s: "pci_register_device b ''xen-platform'' (int k) Pci_default_read Pci_default_write (pcis m) = Inr (Some (length (devs (pcis m))), s)"
    using assms by (simp add: pci_register_device_def Let_def)
  obtain cf m2 where "xenstore_parse_pf_config env (config (devs s ! length (devs (pcis m))), m) = (cf, m2)"
    by (cases "xenstore_parse_pf_config env (config (devs s ! length (devs (pcis m))), m)")
  then show ?thesis by (simp add: pci_xen_platform_init_def s pci_register_io_region_def)
qed

theorem platform_config_writes_witness:
  "\<exists>h m1. pci_xen_platform_init sample_env 0 24 (sample_platform (snd (pci_register_bus 0 0 0 0 128 (empty_pci False (\<lambda>_. False))))) = Inr (h, m1)
     \<and> ends {Exit (- 1), Hw_error ''register_ioport_read: invalid opaque''} (\<lambda>(d', m').
       (\<forall>i < 7. rg_size (io_regions d' ! i) \<noteq> 0 \<longrightarrow> rg_addr (io_regions d' ! i) = (case decoded d' i of Some a \<Rightarrow> a | None \<Rightarrow> UNMAPPED))
       \<and> le16_at (config d') 0 = 0x5853 \<and> config d' 0x3d = 3)
    (res_fold (\<lambda>(a, v, len) (d, m). pci_default_write_config (i440fx_code (platform_pci_code 7)) d a v len m)
       [(0x10, 0xc000, 4), (0x14, 0xf2000000, 4), (0, 0x1234, 2)] (devs (pcis m1) ! h, m1))"
proof -
  let ?m = "sample_platform (snd (pci_register_bus 0 0 0 0 128 (empty_pci False (\<lambda>_. False))))"
  obtain h m1 where i: "pci_xen_platform_init sample_env 0 24 ?m = Inr (h, m1)"
    using platform_init_total [of 24 sample_env 0 ?m] by auto
  show ?thesis by (intro exI [of _ h] exI [of _ m1] conjI i platform_config_writes [OF i]) simp
qed

end
