(* ===== verification/Unplug_Protocol.thy ===== *)
theory Unplug_Protocol
  imports Xen_Platform
begin

text \<open>
  What a guest can do with the unplug protocol of the Xen platform device: guest accesses as events, the states in which nothing can be
  unplugged, and the effect of the protocol versions on the drives and cards.
\<close>

section \<open>Guest accesses to the fixed ports\<close>

datatype plat_access = In1 u32 | In2 u32 | In4 u32 | Out1 u32 u32 | Out2 u32 u32 | Out4 u32 u32

fun plat_step ::
  "plat_env \<Rightarrow> ('a platform_scheme, 'c) pci_code_scheme \<Rightarrow> plat_access \<Rightarrow> 'a platform_scheme \<Rightarrow> 'a platform_scheme res" where
  "plat_step env c (In1 a) m = Inr (snd (platform_fixed_ioport_read1 a m))"
| "plat_step env c (In2 a) m = Inr m"
| "plat_step env c (In4 a) m = Inr m"
| "plat_step env c (Out1 a v) m = platform_fixed_ioport_write1 env c a v m"
| "plat_step env c (Out2 a v) m = platform_fixed_ioport_write2 c a v m"
| "plat_step env c (Out4 a v) m = Inr (platform_fixed_ioport_write4 env a v m)"

text \<open>What unplugging changes: the drives, the cards and the maps.\<close>

definition hardware where
  "hardware m = (principal_ide_controller m, drives_table m, bdrv_closed m, nd_table m, head_net_tap m, pcis m, ioport_table m, mmio m)"

lemma say_simps [simp]:
  "hardware (say i m) = hardware m" "drivers_blacklisted (say i m) = drivers_blacklisted m" "unplug_version_isset (say i m) = unplug_version_isset m"
  "unplug_version (say i m) = unplug_version m" "product_id (say i m) = product_id m" "build_number (say i m) = build_number m"
  "platform_device_id (say i m) = platform_device_id m" "platform_revision (say i m) = platform_revision m"
  "unplug_type (say i m) = unplug_type m" "principal_ide_controller (say i m) = principal_ide_controller m"
  by (simp_all add: say_def hardware_def)

lemma blacklisted_cong:
  "platform_device_id m' = platform_device_id m \<Longrightarrow> platform_revision m' = platform_revision m \<Longrightarrow>
    xenstore_pv_driver_build_blacklisted env p b m' = xenstore_pv_driver_build_blacklisted env p b m"
  by (simp add: xenstore_pv_driver_build_blacklisted_def)

text \<open>A state in which the protocol version is fixed and the drivers have not been accepted; \<open>ps\<close> are the product numbers the guest has given.\<close>

definition locked :: "'a platform_scheme \<Rightarrow> u16 set \<Rightarrow> 'a platform_scheme \<Rightarrow> bool" where
  "locked m0 ps m \<longleftrightarrow> unplug_version_isset m \<and> drivers_blacklisted m \<and> hardware m = hardware m0
     \<and> platform_device_id m = platform_device_id m0 \<and> platform_revision m = platform_revision m0 \<and> product_id m \<in> insert 0 ps"

lemma hardware_upd [simp]:
  "hardware (m\<lparr>plat_log := l\<rparr>) = hardware m" "hardware (m\<lparr>unplug_type := t\<rparr>) = hardware m" "hardware (m\<lparr>mem_types := y\<rparr>) = hardware m"
  "hardware (m\<lparr>platform_flags := x\<rparr>) = hardware m" "hardware (m\<lparr>product_id := p\<rparr>) = hardware m" "hardware (m\<lparr>build_number := b\<rparr>) = hardware m"
  "hardware (m\<lparr>drivers_blacklisted := d\<rparr>) = hardware m" "hardware (m\<lparr>unplug_version_isset := i\<rparr>) = hardware m" "hardware (m\<lparr>unplug_version := v\<rparr>) = hardware m"
  by (simp_all add: hardware_def)

lemma locked_upd [simp]:
  "locked m0 ps (say i m) = locked m0 ps m" "locked m0 ps (m\<lparr>plat_log := l\<rparr>) = locked m0 ps m" "locked m0 ps (m\<lparr>unplug_type := t\<rparr>) = locked m0 ps m"
  "locked m0 ps (m\<lparr>mem_types := y\<rparr>) = locked m0 ps m" "locked m0 ps (m\<lparr>platform_flags := x\<rparr>) = locked m0 ps m"
  "locked m0 ps (m\<lparr>build_number := b\<rparr>) = locked m0 ps m"
  by (simp_all add: locked_def)

lemma locked_flags [simp]: "locked m0 ps (set_platform_flags env f m) = locked m0 ps m"
  by (simp add: set_platform_flags_def Let_def)

definition accepted :: "plat_env \<Rightarrow> 'a platform_scheme \<Rightarrow> u16 set \<Rightarrow> plat_access \<Rightarrow> bool" where
  "accepted env m0 ps x \<longleftrightarrow> (\<exists>a b p. x = Out4 a b \<and> p \<in> ps \<and> p \<noteq> 0 \<and> \<not> xenstore_pv_driver_build_blacklisted env p b m0)"

text \<open>The product number an access gives.\<close>

definition products :: "plat_access set \<Rightarrow> u16 set" where
  "products X = {ucast v | v. Out2 0x12 v \<in> X}"

lemma throttle_ends: "ends {Exit 1, Abort, Bad_access} (\<lambda>_. True) (throttle os n l)"
  by (auto simp: throttle_def refill_def Let_def intro!: ends_bind [of _ "\<lambda>_. True"])

lemma write_log_ends: "ends {Exit 1, Abort, Bad_access} (\<lambda>_. True) (write_log os c l)"
  by (auto simp: write_log_def Let_def intro!: ends_bind [of _ "\<lambda>_. True"] throttle_ends)

lemma locked_write1:
  assumes "locked m0 ps m"
  shows "ends {Exit 1, Abort, Bad_access} (locked m0 ps) (platform_fixed_ioport_write1 env c a v m)
    \<and> (a \<noteq> 0x12 \<longrightarrow> returns (locked m0 ps) (platform_fixed_ioport_write1 env c a v m))"
proof -
  have "ends {Exit 1, Abort, Bad_access} (locked m0 ps) (platform_write_log env x m)" for x
    unfolding platform_write_log_def using assms by (intro ends_bind [OF write_log_ends]) simp
  moreover have "set_unplug_version x m = (False, m)" "version_2_unplug c t x m = Inr m" for t x
    using assms by (simp_all add: set_unplug_version_def version_2_unplug_def locked_def)
  ultimately show ?thesis using assms by (simp add: platform_fixed_ioport_write1_def)
qed

lemma locked_write2:
  assumes "locked m0 ps m" "a = 0x12 \<Longrightarrow> ucast v \<in> ps"
  shows "returns (locked m0 ps) (platform_fixed_ioport_write2 c a v m)"
proof -
  have "locked m0 ps (set_product_id (ucast v) m)" if "a = 0x12" using assms that by (simp add: locked_def set_product_id_def hardware_def)
  moreover have "version_0_1_unplug c x m = Inr m" for x using assms(1) by (simp add: version_0_1_unplug_def locked_def)
  ultimately show ?thesis using assms(1) by (simp add: platform_fixed_ioport_write2_def)
qed

lemma locked_write4:
  assumes "locked m0 ps m" "\<not> accepted env m0 ps (Out4 a v)"
  shows "locked m0 ps (platform_fixed_ioport_write4 env a v m)"
proof (cases "unplug_version m = 0 \<or> product_id m = 0")
  case True
  then show ?thesis using assms(1) by (auto simp: platform_fixed_ioport_write4_def set_build_number_def)
next
  case False
  define m1 where "m1 = say (Product_build (product_id m) v) (m\<lparr>build_number := v\<rparr>)"
  have l: "locked m0 ps m1" "product_id m1 = product_id m" "build_number m1 = v" using assms(1) by (simp_all add: m1_def)
  have "xenstore_pv_driver_build_blacklisted env (product_id m) v m0" using assms False by (auto simp: accepted_def locked_def)
  moreover have "xenstore_pv_driver_build_blacklisted env (product_id m) v m1 = xenstore_pv_driver_build_blacklisted env (product_id m) v m0"
    using l(1) by (intro blacklisted_cong) (simp_all add: locked_def)
  ultimately have "platform_fixed_ioport_write4 env a v m = say (Drivers_blacklisted True) (m1\<lparr>drivers_blacklisted := True\<rparr>)"
    using False l(2,3) by (simp add: platform_fixed_ioport_write4_def set_build_number_def Let_def flip: m1_def)
  moreover have "locked m0 ps (m1\<lparr>drivers_blacklisted := True\<rparr>)" using l(1) by (simp add: locked_def)
  ultimately show ?thesis by simp
qed

lemma locked_step:
  assumes "locked m0 ps m" "products {x} \<subseteq> ps" "\<not> accepted env m0 ps x"
  shows "ends {Exit 1, Abort, Bad_access} (locked m0 ps) (plat_step env c x m)
    \<and> ((\<forall>v. x \<noteq> Out1 0x12 v) \<longrightarrow> returns (locked m0 ps) (plat_step env c x m))"
proof (cases x)
  case (Out1 a v)
  then show ?thesis using locked_write1 [OF assms(1), of env c a v] by auto
next
  case (Out2 a v)
  then have "a = 0x12 \<Longrightarrow> ucast v \<in> ps" using assms(2) by (auto simp: products_def)
  from locked_write2 [OF assms(1), of a v c, OF this] show ?thesis using Out2 by (auto simp: returns_def)
next
  case (Out4 a v)
  then show ?thesis using locked_write4 assms(1,3) by simp
qed (use assms(1) in \<open>auto simp: platform_fixed_ioport_read1_def set_unplug_version_def Let_def locked_def\<close>)

lemma locked_run:
  assumes "locked m0 ps m" "products (set xs) \<subseteq> ps" "\<forall>x \<in> set xs. \<not> accepted env m0 ps x"
  shows "ends {Exit 1, Abort, Bad_access} (locked m0 ps) (res_fold (plat_step env c) xs m)"
    and "(\<forall>v. Out1 0x12 v \<notin> set xs) \<Longrightarrow> returns (locked m0 ps) (res_fold (plat_step env c) xs m)"
proof -
  have p: "products {x} \<subseteq> ps" if "x \<in> set xs" for x using assms(2) that by (auto simp: products_def)
  show "ends {Exit 1, Abort, Bad_access} (locked m0 ps) (res_fold (plat_step env c) xs m)"
    by (rule ends_fold) (use locked_step p assms in blast)+
  show "returns (locked m0 ps) (res_fold (plat_step env c) xs m)" if "\<forall>v. Out1 0x12 v \<notin> set xs"
    by (rule returns_fold) (use locked_step p assms that in blast)+
qed

text \<open>C30: A guest that chooses version 2 of the unplug protocol, or a later one, cannot take a disk or a card away before it has
  given a product number and a build number that are not blacklisted: as long as no build number it writes is acceptable for
  any product number it writes, no sequence of accesses to the fixed ports changes the drives, the cards or the maps, and the
  accesses return. Only the log port can end the process before, when its rate limit fails.\<close>

theorem platform_unplug_needs_accepted_driver:
  fixes m :: "'a platform_scheme"
  assumes "\<not> unplug_version_isset m" "product_id m = 0" "ucast v > (1 :: u8)"
    and "\<forall>p a b. p \<in> products (set xs) \<and> p \<noteq> 0 \<and> Out4 a b \<in> set xs \<longrightarrow> xenstore_pv_driver_build_blacklisted env p b m"
  shows "ends {Exit 1, Abort, Bad_access} (\<lambda>m'. hardware m' = hardware m \<and> drivers_blacklisted m')
      (res_fold (plat_step env c) (Out1 0x13 v # xs) m)
    \<and> ((\<forall>w. Out1 0x12 w \<notin> set xs) \<longrightarrow> returns (\<lambda>m'. hardware m' = hardware m \<and> drivers_blacklisted m')
      (res_fold (plat_step env c) (Out1 0x13 v # xs) m))"
proof -
  let ?ps = "products (set xs)"
  obtain m1 where m1: "platform_fixed_ioport_write1 env c 0x13 v m = Inr m1" "locked m ?ps m1"
    using assms(1-3) by (auto simp: platform_fixed_ioport_write1_def set_unplug_version_def Let_def locked_def)
  have na: "\<forall>x \<in> set xs. \<not> accepted env m ?ps x" using assms(4) by (auto simp: accepted_def)
  note run = locked_run [OF m1(2) order_refl na, of c]
  have l: "locked m ?ps m' \<Longrightarrow> hardware m' = hardware m \<and> drivers_blacklisted m'" for m' by (simp add: locked_def)
  show ?thesis using ends_mono [OF run(1) l] returns_mono [OF run(2) l] m1(1) by simp
qed

text \<open>A driver for device number 2 is not acceptable on a platform with device number 1.\<close>

theorem platform_unplug_needs_accepted_driver_witness:
  "returns (\<lambda>m'. hardware m' = hardware (sample_platform (empty_pci False (\<lambda>_. False))) \<and> drivers_blacklisted m')
    (res_fold (plat_step sample_env (i440fx_code (platform_pci_code 7))) [Out1 0x13 2, Out2 0x12 3, Out4 0x10 0x201, Out1 0x11 1, Out1 0x13 0, Out2 0x10 3]
      (sample_platform (empty_pci False (\<lambda>_. False))))"
proof -
  let ?m = "sample_platform (empty_pci False (\<lambda>_. False))"
  let ?xs = "[Out2 0x12 3, Out4 0x10 0x201, Out1 0x11 1, Out1 0x13 0, Out2 0x10 3]"
  have "products (set ?xs) = {3}" by (auto simp: products_def)
  moreover have "xenstore_pv_driver_build_blacklisted sample_env 3 0x201 ?m"
    by (simp add: xenstore_pv_driver_build_blacklisted_def product_name_def sample_platform_def drop_bit_eq_div)
  ultimately have "\<forall>p a b. p \<in> products (set ?xs) \<and> p \<noteq> 0 \<and> Out4 a b \<in> set ?xs \<longrightarrow> xenstore_pv_driver_build_blacklisted sample_env p b ?m" by auto
  then show ?thesis
    using platform_unplug_needs_accepted_driver [of ?m 2 ?xs sample_env "i440fx_code (platform_pci_code 7)"] by (simp add: sample_platform_def)
qed

section \<open>The index of version 2\<close>

text \<open>C32: In version 2 of the protocol the guest names the disk to unplug by an index that is not compared with the number of drives: after the
  five port writes below, which need nothing but the driver identification every Linux guest uses, an index of 4 or more makes the device model read, and
  if it looks like a disk change, memory behind the four drives of the controller.\<close>

theorem platform_unplug_index_unchecked:
  assumes "\<not> unplug_version_isset m" "platform_device_id m = 1" "principal_ide_controller m = Some ds" "length ds = 4"
    and "b \<le> 0xff" "4 \<le> unat index"
  shows "res_fold (plat_step env c) [Out1 0x13 2, Out2 0x12 3, Out4 0x10 b, Out1 0x11 1, Out1 0x13 (ucast (index :: u8))] m = Inl Bad_access"
proof -
  have "unat b div 256 = 0" using assms(5) by (simp add: word_le_nat_alt)
  then have "unat (drop_bit 8 b) = 0" by (simp add: drop_bit_eq_div unat_div)
  then have z: "drop_bit 8 b = 0" by (simp add: unat_eq_zero)
  define m1 where "m1 = say (Protocol_set 2 True) (m\<lparr>unplug_version := 2, unplug_version_isset := True, drivers_blacklisted := True\<rparr>)"
  define m2 where "m2 = m1\<lparr>product_id := 3\<rparr>"
  define m3 where "m3 = platform_fixed_ioport_write4 env 0x10 b m2"
  define m4 where "m4 = m3\<lparr>unplug_type := 1\<rparr>"
  have 1: "platform_fixed_ioport_write1 env c 0x13 2 m = Inr m1"
    using assms(1) by (simp add: platform_fixed_ioport_write1_def set_unplug_version_def m1_def)
  have m2: "unplug_version m2 = 2" "unplug_version_isset m2" "product_id m2 = 3" "platform_device_id m2 = 1" "principal_ide_controller m2 = Some ds"
    using assms by (simp_all add: m2_def m1_def)
  have 2: "platform_fixed_ioport_write2 c 0x12 3 m1 = Inr m2"
    by (simp add: platform_fixed_ioport_write2_def m1_def m2_def set_product_id_def)
  have m3: "unplug_version m3 = 2" "unplug_version_isset m3" "principal_ide_controller m3 = Some ds" "\<not> drivers_blacklisted m3"
    using m2 assms(5) z
    by (simp_all add: m3_def platform_fixed_ioport_write4_def set_build_number_def Let_def xenstore_pv_driver_build_blacklisted_def
        product_name_def xenstore_notify_unplug_def)
  have 4: "platform_fixed_ioport_write1 env c 0x11 1 m3 = Inr m4" using m3 by (simp add: platform_fixed_ioport_write1_def m4_def)
  have "ucast (ucast index :: u32) = index" by (simp add: ucast_up_ucast_id is_up)
  then have 5: "platform_fixed_ioport_write1 env c 0x13 (ucast index) m4 = Inl Bad_access"
    using m3 assms(4,6)
    by (simp add: platform_fixed_ioport_write1_def set_unplug_version_def m4_def version_2_unplug_def ide_unplug_harddisk_def)
  show ?thesis by (simp add: 1 2 4 5 flip: m3_def)
qed

theorem platform_unplug_index_unchecked_witness:
  "res_fold (plat_step sample_env (i440fx_code (platform_pci_code 7))) [Out1 0x13 2, Out2 0x12 3, Out4 0x10 0, Out1 0x11 1, Out1 0x13 0xff]
     (sample_platform (empty_pci False (\<lambda>_. False))) = Inl Bad_access"
  using platform_unplug_index_unchecked [of "sample_platform (empty_pci False (\<lambda>_. False))" _ 0 "0xff" sample_env "i440fx_code (platform_pci_code 7)"]
  by (simp add: sample_platform_def)

section \<open>The mask of versions 0 and 1\<close>

lemma unregister_region_ends:
  assumes "rg_size r \<noteq> 0 \<longrightarrow> region_ok r"
  shows "ends {Exit (- 1)} (\<lambda>_. True) (unregister_region c r m)"
proof (cases "rg_size r = 0 \<or> rg_addr r = UNMAPPED")
  case False
  show ?thesis
  proof (cases "rg_type r = 1")
    case True
    then have "unat (rg_addr r) + unat (rg_size r) \<le> 0x10000" using assms False by (simp add: region_ok_def)
    moreover from this have "sint (rg_addr r) = int (unat (rg_addr r))" "sint (rg_size r) = int (unat (rg_size r))" by (intro sint_port, linarith)+
    ultimately have "0 \<le> sint (rg_addr r)" "sint (rg_addr r) + sint (rg_size r) \<le> 65536" by linarith+
    then show ?thesis using True False unassign_total [of "sint (rg_addr r)" "sint (rg_size r)" m] by (auto simp: unregister_region_def)
  qed (use False register_memory_ends in \<open>simp add: unregister_region_def\<close>)
qed (simp add: unregister_region_def)

lemma unregister_regions_ends:
  assumes "length (io_regions d) = PCI_NUM_REGIONS" "\<forall>r \<in> set (io_regions d). rg_size r \<noteq> 0 \<longrightarrow> region_ok r"
  shows "ends {Exit (- 1)} (\<lambda>_. True) (pci_unregister_io_regions c d m)"
  unfolding pci_unregister_io_regions_def
proof (rule ends_fold)
  fix i m assume "i \<in> set [0..<PCI_NUM_REGIONS]"
  then have "io_regions d ! i \<in> set (io_regions d)" using assms(1) by simp
  then show "ends {Exit (- 1)} (\<lambda>_. True) (unregister_region c (io_regions d ! i) m)" using assms(2) by (intro unregister_region_ends) blast
qed simp

lemma netifs_ends:
  assumes "pci_wf s" "first_bus s = Some b" "\<forall>d \<in> set (devs s). \<forall>r \<in> set (io_regions d). rg_size r \<noteq> 0 \<longrightarrow> region_ok r"
  shows "ends {Exit (- 1)} (\<lambda>(s', m'). s' = nics_out 256 b s \<and> (\<exists>t r. m' = m\<lparr>ioport_table := t, mmio := r\<rparr>)) (pci_unplug_all_netifs c (s, m))"
proof -
  have b: "b < length (buses s)" using assms(1,2) unfolding pci_wf_def by blast
  let ?P = "\<lambda>(s', m'). devs s' = devs s \<and> length (buses s') = length (buses s) \<and> (\<forall>n h. devices (buses s' ! b) n = Some h \<longrightarrow> h < length (devs s))"
  have step: "ends {Exit (- 1)} ?P (unplug_if_nic c b n (s', m'))" if P: "?P (s', m')" for n s' m'
  proof (cases "devices (buses s' ! b) n")
    case (Some h)
    then have h: "h < length (devs s)" using P by blast
    have l: "length (io_regions (devs s ! h)) = PCI_NUM_REGIONS" using assms(1) h unfolding pci_wf_def by blast
    have hide: "?P (pci_hide_device h s', x)" for x using P by (auto simp: pci_hide_device_def upd_bus_def nth_update_if)
    have "ends {Exit (- 1)} ?P (res_bind (pci_unregister_io_regions c (devs s ! h) m') (\<lambda>m. Inr (pci_hide_device h s', m)))"
      using assms(3) h l hide by (intro ends_bind [OF unregister_regions_ends]) (auto simp: nth_mem)
    then show ?thesis using Some P by (auto simp: unplug_if_nic_def pci_dev_unplug_def)
  qed (use P in \<open>simp add: unplug_if_nic_def\<close>)
  have "ends {Exit (- 1)} ?P (res_fold (unplug_if_nic c b) [0..<256] (s, m))"
  proof (rule ends_fold)
    show "?P (s, m)" using assms(1) b unfolding pci_wf_def by auto
    fix n and sm :: "pci_state \<times> 'a mem_bus_scheme" assume "?P sm"
    then show "ends {Exit (- 1)} ?P (unplug_if_nic c b n sm)" by (cases sm) (simp only: step)
  qed
  then have "ends {Exit (- 1)} ?P (pci_unplug_all_netifs c (s, m))" using assms(2) by (simp add: pci_unplug_all_netifs_def)
  then show ?thesis by (rule ends_conj) (auto dest: unplug_netifs [OF assms(1,2)])
qed

lemma drives_out_again: "drives_out B (drives_out A ds) = drives_out (A \<union> B) ds"
  by (rule nth_equalityI) (auto simp: drives_out_nth drive_out_def)

lemma disks_selected:
  assumes "principal_ide_controller x = Some (drives_out S ds)" "length ds = 4" "set ks \<subseteq> {..<4}" "distinct ks"
  shows "\<exists>t cl. (if g then res_fold ide_unplug_harddisk ks x else Inr x)
    = Inr (x\<lparr>principal_ide_controller := Some (drives_out (S \<union> (if g then set ks else {})) ds), drives_table := t, bdrv_closed := cl\<rparr>)"
proof (cases g)
  case True
  then show ?thesis using unplug_drives [OF assms(1), of ks] assms(2-4) by (simp add: drives_out_again)
next
  case False
  then show ?thesis using assms(1) by (intro exI [of _ "drives_table x"] exI [of _ "bdrv_closed x"]) simp
qed

lemma cards_selected:
  assumes "pci_wf (pcis x)" "first_bus (pcis x) = Some b" "\<forall>d \<in> set (devs (pcis x)). \<forall>r \<in> set (io_regions d). rg_size r \<noteq> 0 \<longrightarrow> region_ok r"
  shows "ends {Exit (- 1)} (\<lambda>y. principal_ide_controller y = principal_ide_controller x \<and> pcis y = (if g then nics_out 256 b (pcis x) else pcis x)
      \<and> head_net_tap y = (if g then map net_tap_shutdown (head_net_tap x) else head_net_tap x))
    (if g then res_bind (on_pci (pci_unplug_all_netifs c) x) (\<lambda>m. Inr (net_tap_shutdown_all m)) else Inr x)"
proof (cases g)
  case True
  show ?thesis unfolding on_pci_def res_bind_assoc if_P [OF True]
    by (rule ends_bind [OF netifs_ends [OF assms]]) (auto simp: net_tap_shutdown_all_def)
qed simp

lemma drives_selected:
  assumes "i < 4" "length ds = 4"
  shows "if (x \<or> y \<and> i \<noteq> 0) \<and> \<not> is_cdrom (ds ! i)
    then ide_bs (drives_out ((if x then {0, 1, 2, 3} else {}) \<union> (if y then {1, 2, 3} else {})) ds ! i) = None
    else drives_out ((if x then {0, 1, 2, 3} else {}) \<union> (if y then {1, 2, 3} else {})) ds ! i = ds ! i"
proof -
  have "i \<in> (if x then {0, 1, 2, 3} else {}) \<union> (if y then {1, 2, 3} else {}) \<longleftrightarrow> x \<or> y \<and> i \<noteq> 0"
    using assms(1) by (auto simp: less_Suc_eq numeral_eq_Suc)
  then show ?thesis using assms drive_out_gone [of i "ds ! i"] by (auto simp: drives_out_nth drive_out_def)
qed

text \<open>C31: In versions 0 and 1 of the protocol one write unplugs what its mask selects and nothing else: bit 0 all hard disks, bit 2 all but the
  first, bit 1 all network functions of the first bus that were not hot-plugged, with all tap devices. CD-ROM drives stay. The only way not
  to return is a full table of memory regions.\<close>

theorem platform_unplug_mask:
  assumes "\<not> drivers_blacklisted m" "unplug_version m = 0 \<or> unplug_version m = 1"
    and "principal_ide_controller m = Some ds" "length ds = 4" "pci_wf (pcis m)" "first_bus (pcis m) = Some b"
    and "\<forall>d \<in> set (devs (pcis m)). \<forall>r \<in> set (io_regions d). rg_size r \<noteq> 0 \<longrightarrow> region_ok r"
  shows "ends {Exit (- 1)} (\<lambda>m'.
      (\<exists>ds'. principal_ide_controller m' = Some ds' \<and> length ds' = 4 \<and>
        (\<forall>i < 4. if (bit v 0 \<or> bit v 2 \<and> i \<noteq> 0) \<and> \<not> is_cdrom (ds ! i) then ide_bs (ds' ! i) = None else ds' ! i = ds ! i))
      \<and> (\<forall>n < 256. devices (buses (pcis m') ! b) n = (if bit v 1 \<and> nic_at (pcis m) b n then None else devices (buses (pcis m) ! b) n))
      \<and> (if bit v 1 then \<forall>t \<in> set (head_net_tap m'). tap_fd t < 0 else head_net_tap m' = head_net_tap m))
    (platform_fixed_ioport_write2 c 0x10 v m)"
    (is "ends _ ?P _")
proof -
  let ?A = "if bit v 0 then {0, 1, 2, 3} else {}" and ?B = "if bit v 2 then {1, 2, 3} else {} :: nat set"
  have bits: "bit (ucast v :: u16) k = bit v k" if "k < 16" for k using that by (simp add: bit_simps)
  have u: "[0..<4] = [0, 1, 2, 3 :: nat]" "[1..<4] = [1, 2, 3 :: nat]" by (simp_all add: upt_rec)
  have bb: "b < length (buses (pcis m))" using assms(5,6) unfolding pci_wf_def by blast
  obtain ta ca where ma: "(if bit v 0 then res_fold ide_unplug_harddisk [0, 1, 2, 3] m else Inr m)
      = Inr (m\<lparr>principal_ide_controller := Some (drives_out ?A ds), drives_table := ta, bdrv_closed := ca\<rparr>)"
    using disks_selected [of m "{}" ds "[0, 1, 2, 3]" "bit v 0"] assms(3,4) by (auto simp: drives_out_empty cong: if_cong)
  let ?m = "m\<lparr>principal_ide_controller := Some (drives_out ?A ds), drives_table := ta, bdrv_closed := ca\<rparr>"
  have "platform_fixed_ioport_write2 c 0x10 v m = res_bind (if bit v 0 then res_fold ide_unplug_harddisk [0, 1, 2, 3] m else Inr m) (\<lambda>m. res_bind
      (if bit v 1 then res_bind (on_pci (pci_unplug_all_netifs c) m) (\<lambda>m. Inr (net_tap_shutdown_all m)) else Inr m)
      (\<lambda>x. if bit v 2 then res_fold ide_unplug_harddisk [1, 2, 3] x else Inr x))"
    using assms(1,2) unfolding platform_fixed_ioport_write2_def version_0_1_unplug_def ide_unplug_all_harddisks_def ide_unplug_aux_harddisks_def u
    by (auto simp: bits)
  note e = this [unfolded ma res_bind.simps]
  have tp: "tap_fd (net_tap_shutdown t) < 0" for t by (simp add: net_tap_shutdown_def)
  show ?thesis unfolding e
  proof (rule ends_bind [OF cards_selected [of _ b]])
    fix x :: "'a platform_scheme"
    assume x: "principal_ide_controller x = principal_ide_controller ?m \<and> pcis x = (if bit v 1 then nics_out 256 b (pcis ?m) else pcis ?m)
      \<and> head_net_tap x = (if bit v 1 then map net_tap_shutdown (head_net_tap ?m) else head_net_tap ?m)"
    then obtain t cl where t: "(if bit v 2 then res_fold ide_unplug_harddisk [1, 2, 3] x else Inr x)
        = Inr (x\<lparr>principal_ide_controller := Some (drives_out (?A \<union> ?B) ds), drives_table := t, bdrv_closed := cl\<rparr>)"
      using disks_selected [of x ?A ds "[1, 2, 3]" "bit v 2"] assms(4) by (auto cong: if_cong)
    show "ends {Exit (- 1)} ?P (if bit v 2 then res_fold ide_unplug_harddisk [1, 2, 3] x else Inr x)"
      unfolding t ends_simps
      by (intro conjI exI [of _ "drives_out (?A \<union> ?B) ds"] allI impI drives_selected)
        (use x assms(4) bb tp in \<open>auto simp: nics_out_simps\<close>)
  qed (use assms(5-7) in simp_all)
qed

text \<open>A bus with a network card in slot 4.\<close>

definition card_bus :: pci_state where
  "card_bus = (let d = new_device 0 32 ''rtl8139'' Pci_default_read Pci_default_write in
     (empty_pci False (\<lambda>_. False))\<lparr>devs := [d\<lparr>config := (config d)(0xb := 2)\<rparr>],
       buses := [new_bus\<lparr>set_irq := Some 0, map_irq := 0, irq_opaque := 0, devfn_min := 0, nirq := 128, devices := [32 \<mapsto> 0]\<rparr>], first_bus := Some 0, nbus := 1\<rparr>)"

lemma card_bus_facts:
  "pci_wf card_bus" "first_bus card_bus = Some 0" "nic_at card_bus 0 32" "\<forall>d \<in> set (devs card_bus). \<forall>r \<in> set (io_regions d). rg_size r = 0"
proof -
  have "chain (buses card_bus) (Some 0) [0]" by (simp add: card_bus_def Let_def new_bus_def)
  then have l: "buses_linked (buses card_bus)" unfolding buses_linked_def by (auto simp: card_bus_def Let_def intro!: exI [of _ "[0]"])
  then show "pci_wf card_bus" unfolding pci_wf_def by (simp add: card_bus_def Let_def new_bus_def)
  show "first_bus card_bus = Some 0" by (simp add: card_bus_def Let_def)
  show "nic_at card_bus 0 32" by (simp add: nic_at_def card_bus_def Let_def empty_pci_def new_device_def pci_set_default_subsystem_id_def put_le16_def)
  show "\<forall>d \<in> set (devs card_bus). \<forall>r \<in> set (io_regions d). rg_size r = 0"
    by (simp add: card_bus_def Let_def new_device_def pci_set_default_subsystem_id_def)
qed

theorem platform_unplug_mask_witness:
  "ends {Exit (- 1)} (\<lambda>m'. (\<exists>ds'. principal_ide_controller m' = Some ds' \<and> ide_bs (ds' ! 0) = None \<and> ide_bs (ds' ! 2) = Some 3)
      \<and> devices (buses (pcis m') ! 0) 32 = None \<and> (\<forall>t \<in> set (head_net_tap m'). tap_fd t < 0))
    (platform_fixed_ioport_write2 (i440fx_code (platform_pci_code 7)) 0x10 3 (sample_platform card_bus))"
proof -
  let ?m = "sample_platform card_bus"
  let ?ds = "[sample_drive (Some 1) False, sample_drive (Some 2) False, sample_drive (Some 3) True, sample_drive None False]"
  have m: "\<not> drivers_blacklisted ?m" "unplug_version ?m = 0" "principal_ide_controller ?m = Some ?ds" "length ?ds = 4" "pcis ?m = card_bus"
    by (simp_all add: sample_platform_def)
  have b: "bit (3 :: u32) 0" "bit (3 :: u32) 1" by (simp_all add: bit_numeral_rec)
  have d: "is_cdrom (?ds ! 2)" "\<not> is_cdrom (?ds ! 0)" "ide_bs (?ds ! 2) = Some 3" by (simp_all add: sample_drive_def)
  show ?thesis
  proof (rule ends_mono [OF platform_unplug_mask [of ?m ?ds 0 3 "i440fx_code (platform_pci_code 7)"]])
    fix m' assume h: "(\<exists>ds'. principal_ide_controller m' = Some ds' \<and> length ds' = 4 \<and>
        (\<forall>i < 4. if (bit (3 :: u32) 0 \<or> bit (3 :: u32) 2 \<and> i \<noteq> 0) \<and> \<not> is_cdrom (?ds ! i) then ide_bs (ds' ! i) = None else ds' ! i = ?ds ! i))
      \<and> (\<forall>n < 256. devices (buses (pcis m') ! 0) n = (if bit (3 :: u32) 1 \<and> nic_at (pcis ?m) 0 n then None else devices (buses (pcis ?m) ! 0) n))
      \<and> (if bit (3 :: u32) 1 then \<forall>t \<in> set (head_net_tap m'). tap_fd t < 0 else head_net_tap m' = head_net_tap ?m)"
    then obtain ds' where ds': "principal_ide_controller m' = Some ds'"
      "\<And>i. i < 4 \<Longrightarrow> if (bit (3 :: u32) 0 \<or> bit (3 :: u32) 2 \<and> i \<noteq> 0) \<and> \<not> is_cdrom (?ds ! i) then ide_bs (ds' ! i) = None else ds' ! i = ?ds ! i" by blast
    have "ide_bs (ds' ! 0) = None" "ide_bs (ds' ! 2) = Some 3" using ds'(2) [of 0] ds'(2) [of 2] b d by simp_all
    moreover have "devices (buses (pcis m') ! 0) 32 = None" using h b m(5) card_bus_facts(3) by simp
    moreover have "\<forall>t \<in> set (head_net_tap m'). tap_fd t < 0" using h b by simp
    ultimately show "(\<exists>ds'. principal_ide_controller m' = Some ds' \<and> ide_bs (ds' ! 0) = None \<and> ide_bs (ds' ! 2) = Some 3)
      \<and> devices (buses (pcis m') ! 0) 32 = None \<and> (\<forall>t \<in> set (head_net_tap m'). tap_fd t < 0)" using ds'(1) by blast
  qed (use m card_bus_facts in auto)
qed

end
