(* ===== verification/Map_Cache.thy ===== *)
theory Map_Cache
  imports Phys_Mem
begin

text \<open>
  The map cache of \<^verbatim>\<open>hw/xen_machine_fv.c\<close>: guest memory is mapped into the process in buckets of 1 MB, on demand. A bucket of guest
  addresses is looked up in a hash table whose slots are chains; entries that are locked stay mapped until they are released. On top of it
  stand \<^verbatim>\<open>cpu_physical_memory_map\<close> and \<^verbatim>\<open>cpu_physical_memory_unmap\<close> of \<^verbatim>\<open>i386-dm/exec-dm.c\<close>. The constants are those of the 64-bit
  build. A chain is a list whose head is the slot of the table; addresses of the process are natural numbers, 0 is the null pointer.
  \<open>mmaps\<close> records what the process has mapped: a base address and, for each of the 256 pages, the guest frame behind it.
  \<^verbatim>\<open>xc_map_foreign_bulk\<close> is a parameter; \<open>foreign_bulk\<close> states what its callers rely on.
\<close>

section \<open>State\<close>

abbreviation (input) "XC_PAGE_SHIFT \<equiv> (12::nat)"
abbreviation (input) "MCACHE_BUCKET_SHIFT \<equiv> (20::nat)"
abbreviation (input) "MCACHE_BUCKET_SIZE \<equiv> (0x100000::nat)"
abbreviation (input) "BUCKET_PAGES \<equiv> (256::nat)"
abbreviation (input) "BITS_PER_LONG \<equiv> (64::nat)"

record map_cache =
  paddr_index :: u64
  vaddr_base :: nat
  valid_mapping :: "u64 list"
  mc_lock :: u8

record map_cache_rev =
  vaddr_req :: nat
  rev_index :: u64

type_synonym host_maps = "(nat \<times> u64 option list) list"
type_synonym bulk_fn = "host_maps \<Rightarrow> (u64 \<Rightarrow> bool) \<Rightarrow> u64 list \<Rightarrow> (nat \<times> int list) option"

record mc_state =
  mapcache_entry :: "nat \<Rightarrow> map_cache list"
  nr_buckets :: u64
  locked_entries :: "map_cache_rev list"
  last_address_page :: u64
  last_address_vaddr :: nat
  mmaps :: host_maps
  guest_frames :: "u64 \<Rightarrow> bool"

definition test_bit :: "nat \<Rightarrow> u64 list \<Rightarrow> bool" where
  "test_bit n w = ((w ! (n div BITS_PER_LONG)) AND push_bit (n mod BITS_PER_LONG) 1 \<noteq> 0)"

definition zero_entry :: map_cache where
  "zero_entry = \<lparr>paddr_index = 0, vaddr_base = 0, valid_mapping = replicate 4 0, mc_lock = 0\<rparr>"

definition qemu_map_cache_init :: "(u64 \<Rightarrow> bool) \<Rightarrow> mc_state" where
  "qemu_map_cache_init frames = \<lparr>mapcache_entry = (\<lambda>_. [zero_entry]),
     nr_buckets = drop_bit (MCACHE_BUCKET_SHIFT - XC_PAGE_SHIFT)
       (drop_bit XC_PAGE_SHIFT 0x1000000000 + push_bit (MCACHE_BUCKET_SHIFT - XC_PAGE_SHIFT) 1 - 1),
     locked_entries = [], last_address_page = - 1, last_address_vaddr = 0, mmaps = [], guest_frames = frames\<rparr>"

section \<open>Operations\<close>

text \<open>\<^verbatim>\<open>munmap\<close> removes every mapping that lies in the range, and fails on an address that is not the start of a page.\<close>

definition munmap :: "nat \<Rightarrow> mc_state \<Rightarrow> mc_state res" where
  "munmap b s = (if b mod 4096 \<noteq> 0 then Inl (Exit (- 1))
     else Inr (s\<lparr>mmaps := filter (\<lambda>(x, _). x + MCACHE_BUCKET_SIZE \<le> b \<or> b + MCACHE_BUCKET_SIZE \<le> x) (mmaps s)\<rparr>))"

text \<open>A word of the bitmap, built from the error codes from the last one down.\<close>

fun valid_word :: "int list \<Rightarrow> nat \<Rightarrow> nat \<Rightarrow> u64 \<Rightarrow> u64" where
  "valid_word err i 0 w = w"
| "valid_word err i (Suc j) w = valid_word err i j (push_bit 1 w OR of_bool (err ! (i + j) = 0))"

definition valid_words :: "int list \<Rightarrow> u64 list" where
  "valid_words err = map (\<lambda>k. let i = k * BITS_PER_LONG in
     valid_word err i (if i + BITS_PER_LONG > BUCKET_PAGES then BUCKET_PAGES mod BITS_PER_LONG else BITS_PER_LONG) 0)
     [0..<BUCKET_PAGES div BITS_PER_LONG]"

definition bucket_pfns :: "u64 \<Rightarrow> u64 list" where
  "bucket_pfns index = map (\<lambda>i. push_bit (MCACHE_BUCKET_SHIFT - XC_PAGE_SHIFT) index + of_nat i) [0..<BUCKET_PAGES]"

definition qemu_remap_bucket :: "bulk_fn \<Rightarrow> map_cache \<Rightarrow> u64 \<Rightarrow> mc_state \<Rightarrow> (map_cache \<times> mc_state) res" where
  "qemu_remap_bucket bulk e index s =
     res_bind (if vaddr_base e \<noteq> 0 then munmap (vaddr_base e) s else Inr s) (\<lambda>s.
     case bulk (mmaps s) (guest_frames s) (bucket_pfns index) of
       None \<Rightarrow> Inl (Exit (- 1))
     | Some (b, err) \<Rightarrow> Inr (e\<lparr>vaddr_base := b, paddr_index := index, valid_mapping := valid_words err\<rparr>,
         s\<lparr>mmaps := (b, map2 (\<lambda>p c. if c = 0 then Some p else None) (bucket_pfns index) err) # mmaps s\<rparr>))"

definition bucket_of :: "u64 \<Rightarrow> mc_state \<Rightarrow> nat" where
  "bucket_of index s = unat (index mod nr_buckets s)"

definition put_bucket :: "nat \<Rightarrow> map_cache list \<Rightarrow> mc_state \<Rightarrow> mc_state" where
  "put_bucket n es s = s\<lparr>mapcache_entry := (mapcache_entry s)(n := es)\<rparr>"

text \<open>The entry a request for a bucket works on: its place in the chain, after an entry has been added or mapped again where necessary.\<close>

definition find_entry :: "bulk_fn \<Rightarrow> u64 \<Rightarrow> nat \<Rightarrow> mc_state \<Rightarrow> (nat \<times> mc_state) res" where
  "find_entry bulk index page s =
     (let n = bucket_of index s; es = mapcache_entry s n;
          k = first_index (\<lambda>e. \<not> (mc_lock e \<noteq> 0 \<and> paddr_index e \<noteq> index \<and> vaddr_base e \<noteq> 0)) es in
      if k = length es then
        res_bind (qemu_remap_bucket bulk zero_entry index s) (\<lambda>(e, s). Inr (k, put_bucket n (es @ [e]) s))
      else if mc_lock (es ! k) = 0 \<and>
          (vaddr_base (es ! k) = 0 \<or> paddr_index (es ! k) \<noteq> index \<or> \<not> test_bit page (valid_mapping (es ! k))) then
        res_bind (qemu_remap_bucket bulk (es ! k) index s) (\<lambda>(e, s). Inr (k, put_bucket n (es[k := e]) s))
      else Inr (k, s))"

definition answer_request :: "u64 \<Rightarrow> u8 \<Rightarrow> nat \<Rightarrow> mc_state \<Rightarrow> nat \<times> mc_state" where
  "answer_request phys_addr lk k s =
     (let index = drop_bit MCACHE_BUCKET_SHIFT phys_addr; offset = unat (phys_addr AND (0x100000 - 1));
          n = bucket_of index s; es = mapcache_entry s n; e = es ! k in
      if \<not> test_bit (offset div 4096) (valid_mapping e) then (0, s\<lparr>last_address_page := - 1, last_address_vaddr := 0\<rparr>)
      else let s = s\<lparr>last_address_page := drop_bit XC_PAGE_SHIFT phys_addr, last_address_vaddr := vaddr_base e\<rparr> in
        (last_address_vaddr s + offset,
          if lk \<noteq> 0 then (put_bucket n (es[k := e\<lparr>mc_lock := mc_lock e + 1\<rparr>]) s)
            \<lparr>locked_entries := locked_entries s @ [\<lparr>vaddr_req = last_address_vaddr s + offset, rev_index = index\<rparr>]\<rparr>
          else s))"

definition qemu_map_cache :: "bulk_fn \<Rightarrow> u64 \<Rightarrow> u8 \<Rightarrow> mc_state \<Rightarrow> (nat \<times> mc_state) res" where
  "qemu_map_cache bulk phys_addr lk s =
     (let index = drop_bit MCACHE_BUCKET_SHIFT phys_addr; offset = unat (phys_addr AND (0x100000 - 1)) in
      if drop_bit XC_PAGE_SHIFT phys_addr = last_address_page s \<and> lk = 0 then Inr (last_address_vaddr s + offset, s)
      else res_bind (find_entry bulk index (offset div 4096) s) (\<lambda>(k, s). Inr (answer_request phys_addr lk k s)))"

fun drop_at :: "nat \<Rightarrow> 'a list \<Rightarrow> 'a list" where
  "drop_at _ [] = []"
| "drop_at 0 (x # xs) = xs"
| "drop_at (Suc n) (x # xs) = x # drop_at n xs"

definition drop_lock :: "u64 \<Rightarrow> mc_state \<Rightarrow> mc_state res" where
  "drop_lock index s =
     (let n = bucket_of index s; es = mapcache_entry s n; k = first_index (\<lambda>e. paddr_index e = index) es in
      if k = length es then Inr s
      else let e = (es ! k)\<lparr>mc_lock := mc_lock (es ! k) - 1\<rparr> in
        if mc_lock e > 0 \<or> k = 0 then Inr (put_bucket n (es[k := e]) s)
        else munmap (vaddr_base e) (put_bucket n (drop_at k es) s))"

definition qemu_invalidate_entry :: "nat \<Rightarrow> mc_state \<Rightarrow> mc_state res" where
  "qemu_invalidate_entry buffer s =
     (let r = first_index (\<lambda>r. vaddr_req r = buffer) (locked_entries s) in
      if r = length (locked_entries s) then Inr s
      else let index = rev_index (locked_entries s ! r);
          s = s\<lparr>locked_entries := drop_at r (locked_entries s)\<rparr> in
        drop_lock index (if drop_bit (MCACHE_BUCKET_SHIFT - XC_PAGE_SHIFT) (last_address_page s) = index
          then s\<lparr>last_address_page := - 1, last_address_vaddr := 0\<rparr> else s))"

text \<open>One round of the loop that empties the cache. It looks at the slot of the table only, not at its chain.\<close>

definition empty_slot :: "nat \<Rightarrow> mc_state \<Rightarrow> mc_state res" where
  "empty_slot i s = (let es = mapcache_entry s i; e = hd es in
     if vaddr_base e = 0 then Inr s
     else res_bind (munmap (vaddr_base e) s) (\<lambda>s. Inr (put_bucket i (e\<lparr>paddr_index := 0, vaddr_base := 0\<rparr> # tl es) s)))"

definition qemu_invalidate_map_cache :: "mc_state \<Rightarrow> mc_state res" where
  "qemu_invalidate_map_cache s =
     res_bind (res_fold empty_slot [0..<unat (nr_buckets s)] s) (\<lambda>s. Inr (s\<lparr>last_address_page := - 1, last_address_vaddr := 0\<rparr>))"

section \<open>What a pointer stands for\<close>

text \<open>The guest physical address behind an address of the process.\<close>

definition guest_at :: "host_maps \<Rightarrow> nat \<Rightarrow> nat option" where
  "guest_at mm p = (case find (\<lambda>(b, _). b \<le> p \<and> p < b + MCACHE_BUCKET_SIZE) mm of None \<Rightarrow> None
     | Some (b, ps) \<Rightarrow> map_option (\<lambda>f. unat f * 4096 + (p - b) mod 4096) (ps ! ((p - b) div 4096)))"

definition apart :: "nat \<Rightarrow> nat \<Rightarrow> bool" where
  "apart x b \<longleftrightarrow> x + MCACHE_BUCKET_SIZE \<le> b \<or> b + MCACHE_BUCKET_SIZE \<le> x"

text \<open>What the callers of \<^verbatim>\<open>xc_map_foreign_bulk\<close> rely on: the new mapping is page aligned and does not overlap an older one, and the error code of a page is 0 exactly
  when the guest has the frame.\<close>

definition foreign_bulk :: "bulk_fn \<Rightarrow> bool" where
  "foreign_bulk bulk \<longleftrightarrow> (\<forall>mm fr ps b err. length ps = BUCKET_PAGES \<longrightarrow> bulk mm fr ps = Some (b, err) \<longrightarrow>
     0 < b \<and> b mod 4096 = 0 \<and> length err = BUCKET_PAGES \<and> (\<forall>i < BUCKET_PAGES. err ! i = 0 \<longleftrightarrow> fr (ps ! i)) \<and> (\<forall>x \<in> fst ` set mm. apart x b))"

definition maps_ok :: "host_maps \<Rightarrow> bool" where
  "maps_ok mm \<longleftrightarrow> (\<forall>b ps. (b, ps) \<in> set mm \<longrightarrow> 0 < b \<and> b mod 4096 = 0) \<and>
     (\<forall>b ps b' ps'. (b, ps) \<in> set mm \<longrightarrow> (b', ps') \<in> set mm \<longrightarrow> b = b' \<and> ps = ps' \<or> apart b b')"

definition pfn_at :: "u64 \<Rightarrow> nat \<Rightarrow> u64" where
  "pfn_at index i = push_bit 8 index + of_nat i"

definition bucket_pages :: "map_cache \<Rightarrow> u64 option list" where
  "bucket_pages e = map (\<lambda>i. if test_bit i (valid_mapping e) then Some (pfn_at (paddr_index e) i) else None) [0..<BUCKET_PAGES]"

definition live :: "host_maps \<Rightarrow> map_cache \<Rightarrow> bool" where
  "live mm e \<longleftrightarrow> (vaddr_base e, bucket_pages e) \<in> set mm"

lemma apart_sym: "apart x b = apart b x"
  by (auto simp: apart_def)

lemma apart_irrefl [simp]: "\<not> apart b b"
  by (simp add: apart_def)

lemma guest_at_mapped:
  assumes "maps_ok mm" "(b, ps) \<in> set mm" "i < MCACHE_BUCKET_SIZE"
  shows "guest_at mm (b + i) = map_option (\<lambda>f. unat f * 4096 + i mod 4096) (ps ! (i div 4096))"
proof -
  have "\<exists>y \<in> set mm. (\<lambda>(x, _). x \<le> b + i \<and> b + i < x + MCACHE_BUCKET_SIZE) y" using assms(2,3) by (intro bexI [of _ "(b, ps)"]) simp_all
  then have "find (\<lambda>(x, _). x \<le> b + i \<and> b + i < x + MCACHE_BUCKET_SIZE) mm \<noteq> None" unfolding find_None_iff by blast
  then obtain x qs where f: "find (\<lambda>(x, _). x \<le> b + i \<and> b + i < x + MCACHE_BUCKET_SIZE) mm = Some (x, qs)" by force
  then have "(x, qs) \<in> set mm" "x \<le> b + i" "b + i < x + MCACHE_BUCKET_SIZE" by (auto simp: find_Some_iff) (metis nth_mem)
  moreover from this have "\<not> apart x b" using assms(3) by (auto simp: apart_def)
  ultimately have "x = b" "qs = ps" using assms(1,2) unfolding maps_ok_def by blast+
  then show ?thesis using f by (simp add: guest_at_def)
qed

lemma guest_at_keeps:
  assumes "maps_ok mm" "maps_ok mm'" "(b, ps) \<in> set mm" "(b, ps) \<in> set mm'" "b \<le> p" "p < b + MCACHE_BUCKET_SIZE"
  shows "guest_at mm' p = guest_at mm p"
  using guest_at_mapped [OF assms(1,3), of "p - b"] guest_at_mapped [OF assms(2,4), of "p - b"] assms(5,6) by simp

section \<open>The bitmap of valid pages\<close>

lemma valid_word_bit:
  "j + k \<le> 64 \<Longrightarrow> (\<forall>n. bit w n \<longleftrightarrow> n < k \<and> err ! (i + j + n) = 0) \<Longrightarrow>
    bit (valid_word err i j w) n \<longleftrightarrow> n < j + k \<and> err ! (i + n) = 0"
proof (induction j arbitrary: w k)
  case (Suc j)
  have "bit (push_bit 1 w OR of_bool (err ! (i + j) = 0)) n \<longleftrightarrow> n < Suc k \<and> err ! (i + j + n) = 0" for n
  proof (cases n)
    case (Suc m)
    have b: "bit w m \<longleftrightarrow> m < k \<and> err ! (i + j + Suc m) = 0" using Suc.prems(2) by simp
    have "bit (push_bit 1 w OR of_bool (err ! (i + j) = 0)) (Suc m) \<longleftrightarrow> m < 63 \<and> bit w m"
      unfolding bit_or_iff bit_push_bit_iff by (auto simp: bit_simps)
    then show ?thesis unfolding Suc using b Suc.prems(1) by auto
  next
    case 0
    show ?thesis unfolding 0 bit_or_iff bit_push_bit_iff by (simp add: bit_simps)
  qed
  then show ?case using Suc.IH [of "Suc k" "push_bit 1 w OR of_bool (err ! (i + j) = 0)"] Suc.prems(1) by simp
qed simp

lemma test_bit_valid_words: "n < BUCKET_PAGES \<Longrightarrow> test_bit n (valid_words err) \<longleftrightarrow> err ! n = 0"
proof -
  assume n: "n < BUCKET_PAGES"
  then have d: "n div 64 < 4" by simp
  have "bit (valid_word err (n div 64 * 64) 64 0) (n mod 64) \<longleftrightarrow> n mod 64 < 64 + 0 \<and> err ! (n div 64 * 64 + n mod 64) = 0"
    by (rule valid_word_bit) simp_all
  moreover have "n div 64 * 64 + 64 \<le> 256" using d by simp
  ultimately have "bit (valid_words err ! (n div 64)) (n mod 64) \<longleftrightarrow> err ! n = 0"
    using d by (simp add: valid_words_def Let_def)
  then show ?thesis by (simp add: test_bit_def and_exp_eq_0_iff_not_bit)
qed

section \<open>Mapping a bucket\<close>

lemma maps_ok_subset: "maps_ok mm \<Longrightarrow> set mm' \<subseteq> set mm \<Longrightarrow> maps_ok mm'"
  unfolding maps_ok_def by blast

lemma munmap_ok:
  assumes "maps_ok (mmaps s)" "(b, ps) \<in> set (mmaps s)"
  obtains mm where "munmap b s = Inr (s\<lparr>mmaps := mm\<rparr>)" "maps_ok mm" "set mm = {x \<in> set (mmaps s). fst x \<noteq> b}"
proof
  let ?mm = "filter (\<lambda>(x, _). x + MCACHE_BUCKET_SIZE \<le> b \<or> b + MCACHE_BUCKET_SIZE \<le> x) (mmaps s)"
  show "munmap b s = Inr (s\<lparr>mmaps := ?mm\<rparr>)" using assms by (auto simp: munmap_def maps_ok_def)
  show "set ?mm = {x \<in> set (mmaps s). fst x \<noteq> b}"
  proof (rule set_eqI)
    fix y :: "nat \<times> u64 option list"
    obtain x qs where y: "y = (x, qs)" by (cases y)
    have "(x, qs) \<in> set (mmaps s) \<Longrightarrow> x = b \<or> apart x b" using assms unfolding maps_ok_def by blast
    then show "y \<in> set ?mm \<longleftrightarrow> y \<in> {x \<in> set (mmaps s). fst x \<noteq> b}" unfolding y by (auto simp: apart_def)
  qed
  then show "maps_ok ?mm" by (intro maps_ok_subset [OF assms(1)]) auto
qed

lemma maps_ok_Cons:
  assumes "maps_ok mm" "0 < b" "b mod 4096 = 0" "\<forall>x \<in> fst ` set mm. apart x b"
  shows "maps_ok ((b, ps) # mm)"
proof -
  have "apart x b" "apart b x" if "(x, qs) \<in> set mm" for x qs using assms(4) that by (force simp: apart_sym)+
  then show ?thesis using assms(1-3) unfolding maps_ok_def by auto
qed

text \<open>How a call of the library may end the process: only if it fails to map.\<close>

definition map_failure :: "bulk_fn \<Rightarrow> dm_error set" where
  "map_failure bulk = {e. e = Exit (- 1) \<and> (\<exists>mm fr ps. bulk mm fr ps = None)}"

definition remapped :: "u64 \<Rightarrow> map_cache \<Rightarrow> mc_state \<Rightarrow> map_cache \<times> mc_state \<Rightarrow> bool" where
  "remapped index e s = (\<lambda>(e', s'). \<exists>mm. s' = s\<lparr>mmaps := mm\<rparr> \<and> maps_ok mm \<and> live mm e' \<and> vaddr_base e' \<noteq> 0 \<and> paddr_index e' = index \<and> mc_lock e' = mc_lock e
     \<and> {x \<in> set (mmaps s). fst x \<noteq> vaddr_base e} \<subseteq> set mm
     \<and> (vaddr_base e' = vaddr_base e \<or> vaddr_base e' \<notin> fst ` set (mmaps s))
     \<and> (\<forall>i < BUCKET_PAGES. test_bit i (valid_mapping e') \<longleftrightarrow> guest_frames s (pfn_at index i)))"

lemma remap_ends:
  assumes "foreign_bulk bulk" "maps_ok (mmaps s)" "vaddr_base e \<noteq> 0 \<Longrightarrow> live (mmaps s) e"
  shows "ends (map_failure bulk) (remapped index e s) (qemu_remap_bucket bulk e index s)"
proof -
  obtain mm where mm: "(if vaddr_base e \<noteq> 0 then munmap (vaddr_base e) s else Inr s) = Inr (s\<lparr>mmaps := mm\<rparr>)"
    "maps_ok mm" "set mm = {x \<in> set (mmaps s). fst x \<noteq> vaddr_base e}"
  proof (cases "vaddr_base e = 0")
    case True
    have "0 < fst x" if "x \<in> set (mmaps s)" for x using assms(2) that unfolding maps_ok_def by (metis prod.collapse)
    then have "{x \<in> set (mmaps s). fst x \<noteq> vaddr_base e} = set (mmaps s)" using True by auto
    then show thesis using that [of "mmaps s"] assms(2) True by simp
  next
    case False
    from munmap_ok [OF assms(2) assms(3) [OF this, unfolded live_def]] obtain mm where
      "munmap (vaddr_base e) s = Inr (s\<lparr>mmaps := mm\<rparr>)" "maps_ok mm" "set mm = {x \<in> set (mmaps s). fst x \<noteq> vaddr_base e}" .
    then show thesis using that False by simp
  qed
  show ?thesis
  proof (cases "bulk mm (guest_frames s) (bucket_pfns index)")
    case None
    then show ?thesis unfolding qemu_remap_bucket_def mm(1) by (auto simp: map_failure_def)
  next
    case (Some r)
    then obtain b err where r: "bulk mm (guest_frames s) (bucket_pfns index) = Some (b, err)" by (cases r) auto
    let ?ps = "map2 (\<lambda>p c. if c = 0 then Some p else None) (bucket_pfns index) err"
    let ?e = "e\<lparr>vaddr_base := b, paddr_index := index, valid_mapping := valid_words err\<rparr>"
    have l: "length (bucket_pfns index) = BUCKET_PAGES" "\<And>i. i < BUCKET_PAGES \<Longrightarrow> bucket_pfns index ! i = pfn_at index i"
      by (simp_all add: bucket_pfns_def pfn_at_def)
    have b: "0 < b" "b mod 4096 = 0" "length err = BUCKET_PAGES" "\<forall>i < BUCKET_PAGES. err ! i = 0 \<longleftrightarrow> guest_frames s (bucket_pfns index ! i)" "\<forall>x \<in> fst ` set mm. apart x b"
      using assms(1) r l(1) unfolding foreign_bulk_def by blast+
    have "?ps = bucket_pages ?e"
      by (rule nth_equalityI) (use l b(3) in \<open>simp_all add: bucket_pages_def test_bit_valid_words\<close>)
    then have lv: "live ((b, ?ps) # mm) ?e" by (simp add: live_def)
    have ok: "maps_ok ((b, ?ps) # mm)" by (rule maps_ok_Cons [OF mm(2) b(1,2,5)])
    have fr: "b \<notin> fst ` set mm" using b(5) by force
    then have "b = vaddr_base e \<or> b \<notin> fst ` set (mmaps s)" unfolding mm(3) by force
    then have "remapped index e s (?e, s\<lparr>mmaps := (b, ?ps) # mm\<rparr>)" unfolding remapped_def prod.case
      using lv ok b(1,4) l(2) mm(3) by (intro exI [of _ "(b, ?ps) # mm"]) (auto simp: test_bit_valid_words)
    then show ?thesis unfolding qemu_remap_bucket_def mm(1) by (simp add: r)
  qed
qed

section \<open>The invariant\<close>

definition bases :: "map_cache list \<Rightarrow> nat list" where
  "bases es = filter (\<lambda>b. b \<noteq> 0) (map vaddr_base es)"

text \<open>A chain: mapped entries are live, locked entries are mapped, and the entries behind the slot of the table are mapped.\<close>

definition chain_ok :: "host_maps \<Rightarrow> map_cache list \<Rightarrow> bool" where
  "chain_ok mm es \<longleftrightarrow> es \<noteq> [] \<and> distinct (bases es) \<and> (\<forall>e \<in> set (tl es). vaddr_base e \<noteq> 0)
     \<and> (\<forall>e \<in> set es. (vaddr_base e \<noteq> 0 \<longrightarrow> live mm e) \<and> (mc_lock e \<noteq> 0 \<longrightarrow> vaddr_base e \<noteq> 0))"

definition mc_inv :: "mc_state \<Rightarrow> bool" where
  "mc_inv s \<longleftrightarrow> maps_ok (mmaps s) \<and> (\<forall>n. chain_ok (mmaps s) (mapcache_entry s n))
     \<and> (\<forall>n n'. n \<noteq> n' \<longrightarrow> set (bases (mapcache_entry s n)) \<inter> set (bases (mapcache_entry s n')) = {})
     \<and> (\<forall>r \<in> set (locked_entries s). unat (rev_index r) < 2 ^ 44 \<and> vaddr_base (hd (mapcache_entry s (bucket_of (rev_index r) s))) \<noteq> 0)"

text \<open>The page of the last request is behind the pointer that is kept for it.\<close>

definition last_ok :: "mc_state \<Rightarrow> bool" where
  "last_ok s \<longleftrightarrow> last_address_page s = - 1 \<or>
     (\<exists>ps. (last_address_vaddr s, ps) \<in> set (mmaps s) \<and> ps ! (unat (last_address_page s) mod 256) = Some (last_address_page s))"

lemma bases_simps [simp]:
  "bases [] = []" "bases (e # es) = (if vaddr_base e = 0 then bases es else vaddr_base e # bases es)" "bases (es @ fs) = bases es @ bases fs"
  by (simp_all add: bases_def)

lemma set_bases: "set (bases es) = {vaddr_base e | e. e \<in> set es \<and> vaddr_base e \<noteq> 0}"
  by (auto simp: bases_def)

lemma live_base: "live mm e \<Longrightarrow> vaddr_base e \<in> fst ` set mm"
  by (force simp: live_def)

text \<open>Changing one chain and the mappings: the entries of the chain keep their place or take a new one, and the mappings of the other chains stay.\<close>

lemma inv_put:
  assumes "mc_inv s" "maps_ok mm" "chain_ok mm es'"
    and "set (bases es') \<subseteq> set (bases (mapcache_entry s n)) \<union> - fst ` set (mmaps s)"
    and "{x \<in> set (mmaps s). fst x \<notin> set (bases (mapcache_entry s n))} \<subseteq> set mm"
    and "locked_entries s = [] \<or> vaddr_base (hd (mapcache_entry s n)) = 0 \<or> vaddr_base (hd es') \<noteq> 0"
  shows "mc_inv (put_bucket n es' (s\<lparr>mmaps := mm\<rparr>))"
proof -
  let ?E = "mapcache_entry s"
  have chain: "chain_ok (mmaps s) (?E k)" for k using assms(1) unfolding mc_inv_def by blast
  have dis: "k \<noteq> k' \<Longrightarrow> set (bases (?E k)) \<inter> set (bases (?E k')) = {}" for k k' using assms(1) unfolding mc_inv_def by blast
  have other: "chain_ok mm (?E k)" if "k \<noteq> n" for k
  proof -
    have "live mm e" if e: "e \<in> set (?E k)" "vaddr_base e \<noteq> 0" for e
    proof -
      have "vaddr_base e \<in> set (bases (?E k))" using e by (auto simp: set_bases)
      then have "vaddr_base e \<notin> set (bases (?E n))" using dis [OF \<open>k \<noteq> n\<close>] by blast
      moreover have "live (mmaps s) e" using chain [of k] e by (simp add: chain_ok_def)
      ultimately show ?thesis using assms(5) by (auto simp: live_def)
    qed
    then show ?thesis using chain [of k] by (simp add: chain_ok_def)
  qed
  have old: "set (bases (?E k)) \<subseteq> fst ` set (mmaps s)" for k using chain [of k] live_base by (fastforce simp: set_bases chain_ok_def)
  have new: "k \<noteq> n \<Longrightarrow> set (bases es') \<inter> set (bases (?E k)) = {}" for k using assms(4) old [of k] dis [of k n] by blast
  show ?thesis using assms(1,2,3,6) other dis new unfolding mc_inv_def put_bucket_def bucket_of_def by (auto simp: Int_commute)
qed

text \<open>What a search leaves: the entry for the bucket at its place, with the state around it unchanged.\<close>

definition found :: "u64 \<Rightarrow> nat \<Rightarrow> mc_state \<Rightarrow> nat \<times> mc_state \<Rightarrow> bool" where
  "found index page s = (\<lambda>(k, s'). \<exists>es mm. s' = put_bucket (bucket_of index s) es (s\<lparr>mmaps := mm\<rparr>) \<and> mc_inv s' \<and> k < length es
     \<and> vaddr_base (hd es) \<noteq> 0 \<and> vaddr_base (es ! k) \<noteq> 0 \<and> paddr_index (es ! k) = index
     \<and> (test_bit page (valid_mapping (es ! k)) \<or> \<not> guest_frames s (pfn_at index page) \<or> mc_lock (es ! k) \<noteq> 0)
     \<and> map mc_lock es = map mc_lock (mapcache_entry s (bucket_of index s))
         @ (if \<forall>e \<in> set (mapcache_entry s (bucket_of index s)). mc_lock e \<noteq> 0 \<and> paddr_index e \<noteq> index then [0] else [])
     \<and> (\<forall>j < length (mapcache_entry s (bucket_of index s)). mc_lock (mapcache_entry s (bucket_of index s) ! j) \<noteq> 0 \<longrightarrow> es ! j = mapcache_entry s (bucket_of index s) ! j)
     \<and> (\<forall>x \<in> set (mmaps s). x \<in> set mm \<or> (\<exists>e \<in> set (mapcache_entry s (bucket_of index s)). mc_lock e = 0 \<and> fst x = vaddr_base e)))"

lemma first_index_le: "first_index P xs \<le> length xs"
  by (induction xs) auto

lemma first_index_end: "first_index P xs = length xs \<longleftrightarrow> (\<forall>x \<in> set xs. \<not> P x)"
  by (induction xs) auto

lemma live_mono: "live mm e \<Longrightarrow> {x \<in> set mm. fst x \<noteq> b} \<subseteq> set mm' \<Longrightarrow> vaddr_base e \<noteq> b \<Longrightarrow> live mm' e"
  by (auto simp: live_def)

lemma chain_bases: "chain_ok mm es \<Longrightarrow> set (bases es) \<subseteq> fst ` set mm"
  using live_base by (fastforce simp: set_bases chain_ok_def)

lemma chain_snoc:
  assumes "chain_ok mm es" "set mm \<subseteq> set mm'" "live mm' e" "vaddr_base e \<noteq> 0" "vaddr_base e \<notin> fst ` set mm"
  shows "chain_ok mm' (es @ [e])"
proof -
  have "vaddr_base e \<notin> set (bases es)" using chain_bases [OF assms(1)] assms(5) by blast
  then show ?thesis using assms(1-4) by (auto simp: chain_ok_def live_def)
qed

lemma chain_update:
  assumes "chain_ok mm es" "k < length es" "{x \<in> set mm. fst x \<noteq> vaddr_base (es ! k)} \<subseteq> set mm'" "live mm' e" "vaddr_base e \<noteq> 0"
    "vaddr_base e = vaddr_base (es ! k) \<or> vaddr_base e \<notin> fst ` set mm"
  shows "chain_ok mm' (es[k := e])"
proof -
  define l r where "l = take k es" and "r = drop (Suc k) es"
  have es: "es = l @ es ! k # r" "es[k := e] = l @ e # r" using assms(2) by (simp_all add: l_def r_def id_take_nth_drop upd_conv_take_nth_drop)
  have d: "distinct (bases (l @ es ! k # r))" using assms(1) es(1) by (simp add: chain_ok_def)
  have sub: "set (bases (l @ r)) \<subseteq> fst ` set mm" using chain_bases [OF assms(1)] by (subst (asm) es(1)) (auto split: if_splits)
  have fresh: "vaddr_base e \<notin> set (bases (l @ r))" using assms(5,6) d sub by (auto split: if_splits)
  have lv: "live mm' x" if x: "x \<in> set (l @ r)" "vaddr_base x \<noteq> 0" for x
  proof (rule live_mono [OF _ assms(3)])
    have "x \<in> set es" using x(1) by (subst es(1)) auto
    then show "live mm x" using assms(1) x(2) by (simp add: chain_ok_def)
    have "vaddr_base x \<in> set (bases (l @ r))" using x by (auto simp: set_bases)
    then show "vaddr_base x \<noteq> vaddr_base (es ! k)" using d x(2) by (auto split: if_splits)
  qed
  have "set (tl (es[k := e])) \<subseteq> insert e (set (tl es))" by (cases es; cases k) (auto dest: subsetD [OF set_update_subset_insert])
  then have t: "\<forall>x \<in> set (tl (es[k := e])). vaddr_base x \<noteq> 0" using assms(1,5) by (auto simp: chain_ok_def)
  have b: "distinct (bases (es[k := e]))" unfolding es(2) using d fresh assms(5) by (auto split: if_splits)
  have lk: "mc_lock x \<noteq> 0 \<Longrightarrow> vaddr_base x \<noteq> 0" if "x \<in> set (l @ r)" for x
  proof -
    have "x \<in> set es" using that by (subst es(1)) auto
    then show "mc_lock x \<noteq> 0 \<Longrightarrow> vaddr_base x \<noteq> 0" using assms(1) by (auto simp: chain_ok_def)
  qed
  have "set (es[k := e]) = insert e (set (l @ r))" unfolding es(2) by auto
  then show ?thesis unfolding chain_ok_def using t b lv lk assms(2,4,5) by auto
qed

lemma inv_pos: "mc_inv s \<Longrightarrow> x \<in> set (mmaps s) \<Longrightarrow> fst x \<noteq> 0"
  unfolding mc_inv_def maps_ok_def by (metis gr_implies_not_zero prod.collapse)

lemma found_existing:
  assumes "mc_inv s" "es = mapcache_entry s (bucket_of index s)" "k < length es" "\<not> (mc_lock (es ! k) \<noteq> 0 \<and> paddr_index (es ! k) \<noteq> index \<and> vaddr_base (es ! k) \<noteq> 0)"
    "\<not> (mc_lock (es ! k) = 0 \<and> (vaddr_base (es ! k) = 0 \<or> paddr_index (es ! k) \<noteq> index \<or> \<not> test_bit page (valid_mapping (es ! k))))"
    "k = 0 \<or> vaddr_base (hd es) \<noteq> 0"
  shows "found index page s (k, s)"
proof -
  have ok: "chain_ok (mmaps s) es" using assms(1,2) by (simp add: mc_inv_def)
  have e: "es ! k \<in> set es" using assms(3) by simp
  then have b: "vaddr_base (es ! k) \<noteq> 0" "paddr_index (es ! k) = index" using ok assms(4,5) by (auto simp: chain_ok_def)
  then have "\<not> (\<forall>e \<in> set es. mc_lock e \<noteq> 0 \<and> paddr_index e \<noteq> index)" using e by blast
  moreover have "put_bucket (bucket_of index s) es (s\<lparr>mmaps := mmaps s\<rparr>) = s" by (simp add: put_bucket_def assms(2))
  ultimately show ?thesis unfolding found_def prod.case using assms b
    by (intro exI [of _ es] exI [of _ "mmaps s"]) (auto simp: hd_conv_nth)
qed

lemma found_remapped:
  assumes "mc_inv s" "es = mapcache_entry s (bucket_of index s)" "k < length es" "mc_lock (es ! k) = 0" "remapped index (es ! k) s (e, s')" "page < BUCKET_PAGES"
    "k = 0 \<or> vaddr_base (hd es) \<noteq> 0"
  shows "found index page s (k, put_bucket (bucket_of index s) (es[k := e]) s')"
proof -
  let ?n = "bucket_of index s"
  obtain mm where m: "s' = s\<lparr>mmaps := mm\<rparr>" "maps_ok mm" "live mm e" "vaddr_base e \<noteq> 0" "paddr_index e = index" "mc_lock e = 0"
    "{x \<in> set (mmaps s). fst x \<noteq> vaddr_base (es ! k)} \<subseteq> set mm" "vaddr_base e = vaddr_base (es ! k) \<or> vaddr_base e \<notin> fst ` set (mmaps s)"
    "test_bit page (valid_mapping e) \<longleftrightarrow> guest_frames s (pfn_at index page)"
    using assms(4-6) by (auto simp: remapped_def)
  have h: "vaddr_base (hd (es[k := e])) \<noteq> 0" using assms(3,7) m(4) by (cases es; cases k) auto
  have ok: "chain_ok (mmaps s) es" using assms(1,2) by (simp add: mc_inv_def)
  have e: "es ! k \<in> set es" using assms(3) by simp
  have old: "vaddr_base (es ! k) \<in> set (bases es) \<or> vaddr_base (es ! k) = 0" using e by (auto simp: set_bases)
  have sub: "set (bases (es[k := e])) \<subseteq> set (bases es) \<union> {vaddr_base e}" using subsetD [OF set_update_subset_insert, of _ es k e] by (fastforce simp: set_bases)
  have "mc_inv (put_bucket ?n (es[k := e]) (s\<lparr>mmaps := mm\<rparr>))"
  proof (rule inv_put [OF assms(1) m(2) chain_update [OF ok assms(3) m(7,3,4,8)]], goal_cases)
    case 1
    have "vaddr_base e \<in> set (bases es) \<or> vaddr_base e \<notin> fst ` set (mmaps s)" using m(4,8) old by auto
    then show ?case unfolding assms(2) [symmetric] by (intro order_trans [OF sub]) auto
  next
    case 2
    have "\<forall>x \<in> set (mmaps s). fst x \<notin> set (bases es) \<longrightarrow> fst x \<noteq> vaddr_base (es ! k)" using inv_pos [OF assms(1)] old by metis
    then show ?case unfolding assms(2) [symmetric] by (intro order_trans [OF _ m(7)]) blast
  next
    case 3
    show ?case using h by simp
  qed
  moreover have "map mc_lock (es[k := e]) = map mc_lock es" using assms(4) m(6) by (metis list_update_id map_update)
  moreover have "\<not> (\<forall>e \<in> set es. mc_lock e \<noteq> 0 \<and> paddr_index e \<noteq> index)" using e assms(4) by blast
  moreover have "\<forall>j < length es. mc_lock (es ! j) \<noteq> 0 \<longrightarrow> es[k := e] ! j = es ! j" using assms(4) by (metis nth_list_update_neq)
  ultimately show ?thesis unfolding found_def prod.case m(1) using m assms e h
    by (intro exI [of _ "es[k := e]"] exI [of _ mm]) auto
qed

lemma found_added:
  assumes "mc_inv s" "es = mapcache_entry s (bucket_of index s)" "\<forall>e \<in> set es. mc_lock e \<noteq> 0 \<and> paddr_index e \<noteq> index" "remapped index zero_entry s (e, s')" "page < BUCKET_PAGES"
  shows "found index page s (length es, put_bucket (bucket_of index s) (es @ [e]) s')"
proof -
  let ?n = "bucket_of index s"
  have pos: "{x \<in> set (mmaps s). fst x \<noteq> vaddr_base zero_entry} = set (mmaps s)" using inv_pos [OF assms(1)] by (auto simp: zero_entry_def)
  obtain mm where m: "s' = s\<lparr>mmaps := mm\<rparr>" "maps_ok mm" "live mm e" "vaddr_base e \<noteq> 0" "paddr_index e = index" "mc_lock e = 0"
    "set (mmaps s) \<subseteq> set mm" "vaddr_base e \<notin> fst ` set (mmaps s)" "test_bit page (valid_mapping e) \<longleftrightarrow> guest_frames s (pfn_at index page)"
    using assms(4,5) unfolding remapped_def pos prod.case by (auto simp: zero_entry_def)
  have ok: "chain_ok (mmaps s) es" using assms(1,2) by (simp add: mc_inv_def)
  then have "es \<noteq> []" and h: "vaddr_base (hd es) \<noteq> 0" using assms(3) by (auto simp: chain_ok_def)
  then have "vaddr_base (hd es) = 0 \<or> vaddr_base (hd (es @ [e])) \<noteq> 0" by auto
  moreover have "set (bases (es @ [e])) \<subseteq> set (bases es) \<union> - fst ` set (mmaps s)" using m(8) by auto
  moreover have "{x \<in> set (mmaps s). fst x \<notin> set (bases es)} \<subseteq> set mm" using m(7) by blast
  ultimately have "mc_inv (put_bucket ?n (es @ [e]) (s\<lparr>mmaps := mm\<rparr>))"
    by (intro inv_put [OF assms(1) m(2) chain_snoc [OF ok m(7,3,4,8)]]) (simp_all only: assms(2) [symmetric], simp)
  then show ?thesis unfolding found_def prod.case m(1) using m(4-7,9) assms(2,3) h \<open>es \<noteq> []\<close> by (intro exI [of _ "es @ [e]"] exI [of _ mm]) (auto simp: nth_append)
qed

lemma find_entry_ends:
  assumes "foreign_bulk bulk" "mc_inv s" "page < BUCKET_PAGES"
  shows "ends (map_failure bulk) (found index page s) (find_entry bulk index page s)"
proof -
  define n where "n = bucket_of index s"
  define es where "es = mapcache_entry s n"
  define P where "P e \<longleftrightarrow> \<not> (mc_lock e \<noteq> 0 \<and> paddr_index e \<noteq> index \<and> vaddr_base e \<noteq> 0)" for e :: map_cache
  define k where "k = first_index P es"
  have mm: "maps_ok (mmaps s)" and ok: "chain_ok (mmaps s) es" using assms(2) by (simp_all add: mc_inv_def es_def)
  have def: "find_entry bulk index page s =
      (if k = length es then res_bind (qemu_remap_bucket bulk zero_entry index s) (\<lambda>(e, s). Inr (k, put_bucket n (es @ [e]) s))
       else if mc_lock (es ! k) = 0 \<and> (vaddr_base (es ! k) = 0 \<or> paddr_index (es ! k) \<noteq> index \<or> \<not> test_bit page (valid_mapping (es ! k)))
       then res_bind (qemu_remap_bucket bulk (es ! k) index s) (\<lambda>(e, s). Inr (k, put_bucket n (es[k := e]) s))
       else Inr (k, s))"
    unfolding find_entry_def Let_def k_def P_def es_def n_def ..
  show ?thesis
  proof (cases "k = length es")
    case True
    then have a: "\<forall>e \<in> set es. mc_lock e \<noteq> 0 \<and> paddr_index e \<noteq> index" by (simp add: k_def first_index_end P_def)
    have new: "ends (map_failure bulk) (remapped index zero_entry s) (qemu_remap_bucket bulk zero_entry index s)"
      by (rule remap_ends [OF assms(1) mm]) (simp add: zero_entry_def)
    show ?thesis unfolding def using found_added [OF assms(2) _ a _ assms(3)] True
      by (auto intro!: ends_bind [OF new] simp: es_def n_def)
  next
    case False
    have "k \<le> length es" unfolding k_def by (rule first_index_le)
    then have k: "k < length es" using False by simp
    then have P: "P (es ! k)" using first_index_nth by (metis k_def)
    have h: "k = 0 \<or> vaddr_base (hd es) \<noteq> 0" using k by (cases es) (auto simp: k_def P_def)
    have re: "ends (map_failure bulk) (remapped index (es ! k) s) (qemu_remap_bucket bulk (es ! k) index s)"
      using ok k by (intro remap_ends [OF assms(1) mm]) (simp add: chain_ok_def)
    have "found index page s (k, put_bucket n (es[k := e]) s')" if "mc_lock (es ! k) = 0" "remapped index (es ! k) s (e, s')" for e s'
      using found_remapped [OF assms(2) _ k that assms(3) h] by (simp add: es_def n_def)
    moreover have "found index page s (k, s)"
      if "\<not> (mc_lock (es ! k) = 0 \<and> (vaddr_base (es ! k) = 0 \<or> paddr_index (es ! k) \<noteq> index \<or> \<not> test_bit page (valid_mapping (es ! k))))"
      using found_existing [OF assms(2) _ k P [unfolded P_def] that h] by (simp add: es_def n_def)
    ultimately show ?thesis unfolding def using False by (auto intro!: ends_bind [OF re])
  qed
qed

section \<open>Requests\<close>

lemma offset_value: "unat ((a :: u64) AND (0x100000 - 1)) = unat a mod MCACHE_BUCKET_SIZE"
proof -
  have "a AND (0x100000 - 1) = take_bit 20 a" by (simp add: take_bit_eq_mask mask_numeral)
  then show ?thesis by (simp only: unat_take_bit) simp
qed

lemma unat_drop_bit: "unat (drop_bit n (a :: u64)) = unat a div 2 ^ n"
  by (simp only: unat_drop_bit_eq) (simp add: drop_bit_eq_div)

lemma page_nat: "u mod MCACHE_BUCKET_SIZE div 4096 = u div 4096 mod 256"
proof -
  have "u mod (4096 * 256) = 4096 * (u div 4096 mod 256) + u mod 4096" by (rule mod_mult2_eq)
  then show ?thesis by simp
qed

lemma page_of_address: "unat (drop_bit 12 (a :: u64)) mod 256 = unat a mod MCACHE_BUCKET_SIZE div 4096"
  by (simp add: unat_drop_bit page_nat)

lemma pfn_of_address: "pfn_at (drop_bit 20 a) (unat a mod MCACHE_BUCKET_SIZE div 4096) = drop_bit 12 a"
proof (rule word_unat_eq_iff [THEN iffD2])
  let ?i = "unat a mod MCACHE_BUCKET_SIZE div 4096"
  have b: "unat a < 2 ^ 64" using unat_bound [of a] by simp
  have "unat (push_bit 8 (drop_bit 20 a)) = unat a div 2 ^ 20 * 256"
    using less_mult_imp_div_less [of "unat a" "2 ^ 44" "2 ^ 20"] b unat_mult_lem [of "drop_bit 20 a" 256] by (simp add: push_bit_eq_mult unat_drop_bit)
  moreover have i: "unat (of_nat ?i :: u64) = ?i" by (simp add: unsigned_of_nat take_bit_eq_mod)
  moreover have s: "unat a div 2 ^ 20 * 256 + ?i = unat a div 4096"
    using div_mult2_eq [of "unat a" 4096 256] by (simp add: page_nat)
  ultimately have "unat (pfn_at (drop_bit 20 a) ?i) = unat a div 4096"
    using le_less_trans [OF div_le_dividend b, of 4096] unfolding pfn_at_def by (subst unat_add_lem [THEN iffD1]) simp_all
  then show "unat (pfn_at (drop_bit 20 a) ?i) = unat (drop_bit 12 a)" by (simp add: unat_drop_bit)
qed

lemma index_bound: "unat (drop_bit 20 (a :: u64)) < 2 ^ 44"
  using unat_bound [of a] less_mult_imp_div_less [of "unat a" "2 ^ 44" "2 ^ 20"] by (simp add: unat_drop_bit)

lemma page_not_all_ones: "drop_bit 12 (a :: u64) \<noteq> - 1"
proof
  assume "drop_bit 12 a = - 1"
  then have "unat a div 2 ^ 12 = unat (- 1 :: u64)" by (metis unat_drop_bit)
  moreover have "unat a < 2 ^ 64" using unat_bound [of a] by simp
  ultimately show False by (simp add: unsigned_minus_1_eq_mask mask_eq_exp_minus_1)
qed

lemma pages_nth: "i < BUCKET_PAGES \<Longrightarrow> test_bit i (valid_mapping e) \<Longrightarrow> bucket_pages e ! i = Some (pfn_at (paddr_index e) i)"
  by (simp add: bucket_pages_def)

text \<open>A pointer into the page that was looked for stands for the address.\<close>

lemma guest_at_page:
  assumes "maps_ok mm" "(b, ps) \<in> set mm" "ps ! (unat (drop_bit 12 a) mod 256) = Some (drop_bit 12 a)"
  shows "guest_at mm (b + unat a mod MCACHE_BUCKET_SIZE) = Some (unat a)"
proof -
  have "unat a mod MCACHE_BUCKET_SIZE mod 4096 = unat a mod 4096" by (simp add: mod_mod_cancel)
  then show ?thesis using guest_at_mapped [OF assms(1,2), of "unat a mod MCACHE_BUCKET_SIZE"] assms(3) [unfolded page_of_address]
    by (simp add: unat_drop_bit)
qed

lemma put_bucket_simps [simp]:
  "mmaps (put_bucket n es s) = mmaps s" "nr_buckets (put_bucket n es s) = nr_buckets s" "locked_entries (put_bucket n es s) = locked_entries s"
  "mapcache_entry (put_bucket n es s) = (mapcache_entry s)(n := es)" "guest_frames (put_bucket n es s) = guest_frames s"
  "last_address_page (put_bucket n es s) = last_address_page s" "last_address_vaddr (put_bucket n es s) = last_address_vaddr s"
  "bucket_of i (put_bucket n fs s) = bucket_of i s"
  by (simp_all add: put_bucket_def bucket_of_def)

lemma bucket_of_upd [simp]:
  "bucket_of i (s\<lparr>mmaps := mm\<rparr>) = bucket_of i s" "bucket_of i (s\<lparr>locked_entries := r\<rparr>) = bucket_of i s"
  "bucket_of i (s\<lparr>last_address_page := p\<rparr>) = bucket_of i s" "bucket_of i (s\<lparr>last_address_vaddr := v\<rparr>) = bucket_of i s"
  "bucket_of i (s\<lparr>guest_frames := fr\<rparr>) = bucket_of i s"
  by (simp_all add: bucket_of_def)

lemma inv_upd [simp]:
  "mc_inv (s\<lparr>last_address_page := p\<rparr>) = mc_inv s" "mc_inv (s\<lparr>last_address_vaddr := v\<rparr>) = mc_inv s" "mc_inv (s\<lparr>guest_frames := fr\<rparr>) = mc_inv s"
  by (simp_all add: mc_inv_def)

lemma bucket_pages_lock [simp]: "bucket_pages (e\<lparr>mc_lock := l\<rparr>) = bucket_pages e"
  by (simp add: bucket_pages_def cong: if_cong)

lemma inv_relock:
  assumes "mc_inv s" "k < length (mapcache_entry s n)" "vaddr_base (mapcache_entry s n ! k) \<noteq> 0"
  shows "mc_inv (put_bucket n ((mapcache_entry s n)[k := (mapcache_entry s n ! k)\<lparr>mc_lock := l\<rparr>]) s)"
proof -
  let ?es = "mapcache_entry s n" and ?e = "(mapcache_entry s n ! k)\<lparr>mc_lock := l\<rparr>"
  have ok: "chain_ok (mmaps s) ?es" "maps_ok (mmaps s)" using assms(1) by (simp_all add: mc_inv_def)
  have "live (mmaps s) (?es ! k)" using ok(1) assms(2,3) by (simp add: chain_ok_def)
  then have "chain_ok (mmaps s) (?es[k := ?e])" using assms(2,3) by (intro chain_update [OF ok(1)]) (auto simp: live_def)
  moreover have m: "map vaddr_base (?es[k := ?e]) = map vaddr_base ?es"
    by (metis (no_types, lifting) list_update_id map_cache.select_convs(2) map_cache.surjective map_cache.update_convs(4) map_update)
  moreover have "vaddr_base (hd (?es[k := ?e])) = vaddr_base (hd ?es)" using assms(2) by (cases ?es; cases k) auto
  ultimately have "mc_inv (put_bucket n (?es[k := ?e]) (s\<lparr>mmaps := mmaps s\<rparr>))"
    using ok(2) by (intro inv_put [OF assms(1)]) (auto simp: bases_def)
  then show ?thesis by simp
qed

lemma inv_locked:
  assumes "mc_inv s" "\<forall>r \<in> set rs. r \<in> set (locked_entries s) \<or> unat (rev_index r) < 2 ^ 44 \<and> vaddr_base (hd (mapcache_entry s (bucket_of (rev_index r) s))) \<noteq> 0"
  shows "mc_inv (s\<lparr>locked_entries := rs\<rparr>)"
  using assms unfolding mc_inv_def by auto

text \<open>What a request returns: a pointer for the address, or null.\<close>

definition answered :: "u64 \<Rightarrow> u8 \<Rightarrow> mc_state \<Rightarrow> nat \<times> mc_state \<Rightarrow> bool" where
  "answered a l s = (\<lambda>(p, s'). mc_inv s' \<and> last_ok s' \<and> nr_buckets s' = nr_buckets s \<and> guest_frames s' = guest_frames s
     \<and> (if p \<noteq> 0 then guest_at (mmaps s') p = Some (unat a)
        else \<not> guest_frames s (drop_bit 12 a) \<or>
          (\<exists>e \<in> set (mapcache_entry s' (bucket_of (drop_bit 20 a) s')). mc_lock e \<noteq> 0 \<and> paddr_index e = drop_bit 20 a))
     \<and> (p \<noteq> 0 \<and> l \<noteq> 0 \<longrightarrow> (\<exists>e. live (mmaps s') e \<and> paddr_index e = drop_bit 20 a \<and> p = vaddr_base e + unat a mod MCACHE_BUCKET_SIZE)))"

lemma answer_found:
  assumes "found (drop_bit 20 a) (unat a mod MCACHE_BUCKET_SIZE div 4096) s (k, s')"
  shows "answered a l s (answer_request a l k s')"
proof -
  let ?i = "drop_bit 20 a" and ?o = "unat a mod MCACHE_BUCKET_SIZE"
  let ?pg = "?o div 4096" and ?n = "bucket_of (drop_bit 20 a) s"
  obtain es mm where f: "s' = put_bucket ?n es (s\<lparr>mmaps := mm\<rparr>)" "mc_inv s'" "k < length es" "vaddr_base (hd es) \<noteq> 0" "vaddr_base (es ! k) \<noteq> 0"
    "paddr_index (es ! k) = ?i" "test_bit ?pg (valid_mapping (es ! k)) \<or> \<not> guest_frames s (pfn_at ?i ?pg) \<or> mc_lock (es ! k) \<noteq> 0"
    using assms unfolding found_def by blast
  have es: "mapcache_entry s' ?n = es" "bucket_of ?i s' = ?n" and e: "es ! k \<in> set es" using f(1,3) by simp_all
  have pg: "?pg < BUCKET_PAGES" by (simp add: less_mult_imp_div_less)
  show ?thesis
  proof (cases "test_bit ?pg (valid_mapping (es ! k))")
    case False
    then have "\<not> guest_frames s (drop_bit 12 a) \<or> mc_lock (es ! k) \<noteq> 0" using f(7) by (simp add: pfn_of_address)
    moreover have "mc_inv (s'\<lparr>last_address_page := - 1, last_address_vaddr := 0\<rparr>)" using f(2) by simp
    ultimately show ?thesis unfolding answer_request_def offset_value Let_def es using False f(1,6) e
      by (auto simp: answered_def last_ok_def)
  next
    case True
    have "chain_ok (mmaps s') (mapcache_entry s' ?n)" using f(2) unfolding mc_inv_def by blast
    then have "live mm (es ! k)" using f(1,5) e unfolding es by (simp add: chain_ok_def)
    then have m: "(vaddr_base (es ! k), bucket_pages (es ! k)) \<in> set (mmaps s')" using f(1) by (simp add: live_def)
    have p: "bucket_pages (es ! k) ! (unat (drop_bit 12 a) mod 256) = Some (drop_bit 12 a)"
      using pages_nth [OF pg True] by (simp add: page_of_address f(6) pfn_of_address)
    have ok: "maps_ok (mmaps s')" using f(2) by (simp add: mc_inv_def)
    let ?s = "s'\<lparr>last_address_page := drop_bit 12 a, last_address_vaddr := vaddr_base (es ! k)\<rparr>"
    let ?r = "\<lparr>vaddr_req = vaddr_base (es ! k) + ?o, rev_index = ?i\<rparr>"
    have s: "mc_inv ?s" "mapcache_entry ?s ?n = es" using f(2) es by simp_all
    have "mc_inv (put_bucket ?n (es[k := (es ! k)\<lparr>mc_lock := mc_lock (es ! k) + 1\<rparr>]) ?s)" using inv_relock [OF s(1), of k ?n] f(3,5) s(2) by simp
    moreover have "vaddr_base (hd (es[k := (es ! k)\<lparr>mc_lock := mc_lock (es ! k) + 1\<rparr>])) \<noteq> 0" using f(3,4) by (cases es; cases k) auto
    ultimately have "mc_inv ((put_bucket ?n (es[k := (es ! k)\<lparr>mc_lock := mc_lock (es ! k) + 1\<rparr>]) ?s)\<lparr>locked_entries := locked_entries ?s @ [?r]\<rparr>)"
      using f(1) index_bound [of a] by (intro inv_locked) auto
    then show ?thesis unfolding answer_request_def offset_value Let_def es using True f(1) s(1) m p f(5,6) guest_at_page [OF ok m p]
      by (auto simp: answered_def last_ok_def live_def)
  qed
qed

lemma lookup_ends:
  assumes "foreign_bulk bulk" "mc_inv s" "last_ok s"
  shows "ends (map_failure bulk) (answered a l s) (qemu_map_cache bulk a l s)"
proof (cases "drop_bit 12 a = last_address_page s \<and> l = 0")
  case True
  then obtain ps where ps: "(last_address_vaddr s, ps) \<in> set (mmaps s)" "ps ! (unat (drop_bit 12 a) mod 256) = Some (drop_bit 12 a)"
    using assms(3) page_not_all_ones [of a] by (auto simp: last_ok_def)
  have "maps_ok (mmaps s)" using assms(2) by (simp add: mc_inv_def)
  from guest_at_page [OF this ps] have "answered a l s (last_address_vaddr s + unat a mod MCACHE_BUCKET_SIZE, s)"
    using assms(2,3) inv_pos [OF assms(2) ps(1)] True by (simp add: answered_def)
  then show ?thesis unfolding qemu_map_cache_def offset_value Let_def using True by simp
next
  case False
  have "unat a mod MCACHE_BUCKET_SIZE div 4096 < BUCKET_PAGES" by (simp add: less_mult_imp_div_less)
  from find_entry_ends [OF assms(1,2) this, of "drop_bit 20 a"] show ?thesis
    unfolding qemu_map_cache_def offset_value Let_def using False answer_found [of a s _ _ l] by (auto intro!: ends_bind)
qed

section \<open>Releasing and emptying\<close>

lemma unat_pfn_at:
  assumes a: "unat index < 2 ^ 44" "i < BUCKET_PAGES"
  shows "unat (pfn_at index i) = unat index * 256 + i"
proof -
  have "unat (push_bit 8 index) = unat index * 256" using a unat_mult_lem [of index 256] by (simp add: push_bit_eq_mult)
  moreover have "unat (of_nat i :: u64) = i" using a by (simp add: unsigned_of_nat take_bit_eq_mod)
  ultimately show ?thesis using a unfolding pfn_at_def by (subst unat_add_lem [THEN iffD1]) simp_all
qed

lemma pfn_index: "unat index < 2 ^ 44 \<Longrightarrow> i < BUCKET_PAGES \<Longrightarrow> drop_bit 8 (pfn_at index i) = index"
  by (rule word_unat_eq_iff [THEN iffD2]) (simp add: unat_drop_bit unat_pfn_at)

lemma set_drop_at: "set (drop_at k xs) \<subseteq> set xs"
  by (induction k xs rule: drop_at.induct) auto

lemma drop_at_split: "drop_at (length l) (l @ x # r) = l @ r"
  by (induction l) auto

lemma put_bucket_mmaps: "(put_bucket n es s)\<lparr>mmaps := mm\<rparr> = put_bucket n es (s\<lparr>mmaps := mm\<rparr>)"
  by (simp add: put_bucket_def)

lemma chain_drop:
  assumes "chain_ok mm (l @ e # r)" "l \<noteq> []" "vaddr_base e \<noteq> 0" "{x \<in> set mm. fst x \<noteq> vaddr_base e} \<subseteq> set mm'"
  shows "chain_ok mm' (l @ r)"
proof -
  have d: "distinct (bases (l @ e # r))" using assms(1) by (simp add: chain_ok_def)
  have "live mm' x" if x: "x \<in> set (l @ r)" "vaddr_base x \<noteq> 0" for x
  proof (rule live_mono [OF _ assms(4)])
    show "live mm x" using assms(1) x by (auto simp: chain_ok_def)
    have "vaddr_base x \<in> set (bases (l @ r))" using x by (auto simp: set_bases)
    then show "vaddr_base x \<noteq> vaddr_base e" using d assms(3) by auto
  qed
  then show ?thesis using assms(1,2) d by (auto simp: chain_ok_def split: if_splits)
qed

lemma inv_free:
  assumes "mc_inv s" "mapcache_entry s n = l @ e # r" "l \<noteq> []"
  obtains mm where "munmap (vaddr_base e) (put_bucket n (l @ r) s) = Inr (put_bucket n (l @ r) (s\<lparr>mmaps := mm\<rparr>))"
    "mc_inv (put_bucket n (l @ r) (s\<lparr>mmaps := mm\<rparr>))" "set mm = {x \<in> set (mmaps s). fst x \<noteq> vaddr_base e}"
proof -
  have ok: "chain_ok (mmaps s) (l @ e # r)" "maps_ok (mmaps s)" using assms(1,2) unfolding mc_inv_def by metis+
  have "e \<in> set (tl (l @ e # r))" using assms(3) by (cases l) auto
  then have b: "vaddr_base e \<noteq> 0" using ok(1) by (simp add: chain_ok_def)
  then have "live (mmaps s) e" using ok(1) by (simp add: chain_ok_def)
  then have "(vaddr_base e, bucket_pages e) \<in> set (mmaps (put_bucket n (l @ r) s))" by (simp add: live_def)
  from munmap_ok [OF _ this] ok(2) obtain mm where mm: "munmap (vaddr_base e) (put_bucket n (l @ r) s) = Inr (put_bucket n (l @ r) (s\<lparr>mmaps := mm\<rparr>))"
    "maps_ok mm" "set mm = {x \<in> set (mmaps s). fst x \<noteq> vaddr_base e}" by (auto simp: put_bucket_mmaps)
  have "mc_inv (put_bucket n (l @ r) (s\<lparr>mmaps := mm\<rparr>))"
    using chain_drop [OF ok(1) assms(3) b, of mm] mm(3) b assms(3) by (intro inv_put [OF assms(1) mm(2)]) (auto simp: assms(2))
  then show thesis using that mm by blast
qed

lemma last_survives:
  assumes "mc_inv s" "last_ok s" "live (mmaps s) e" "unat (paddr_index e) < 2 ^ 44"
    "last_address_page s = - 1 \<or> drop_bit 8 (last_address_page s) \<noteq> paddr_index e" "{x \<in> set (mmaps s). fst x \<noteq> vaddr_base e} \<subseteq> set mm"
  shows "last_ok (put_bucket n es (s\<lparr>mmaps := mm\<rparr>))"
proof (cases "last_address_page s = - 1")
  case False
  then obtain ps where ps: "(last_address_vaddr s, ps) \<in> set (mmaps s)" "ps ! (unat (last_address_page s) mod 256) = Some (last_address_page s)"
    using assms(2) by (auto simp: last_ok_def)
  have "last_address_vaddr s \<noteq> vaddr_base e"
  proof
    assume "last_address_vaddr s = vaddr_base e"
    then have "ps = bucket_pages e" using ps(1) assms(1,3) apart_irrefl unfolding mc_inv_def maps_ok_def live_def by metis
    then have "last_address_page s = pfn_at (paddr_index e) (unat (last_address_page s) mod 256)"
      using ps(2) by (auto simp: bucket_pages_def split: if_splits)
    then have "drop_bit 8 (last_address_page s) = paddr_index e" by (metis assms(4) mod_less_divisor pfn_index zero_less_numeral)
    then show False using assms(5) False by blast
  qed
  then show ?thesis using ps assms(6) by (auto simp: last_ok_def)
qed (simp add: last_ok_def)

definition calm :: "mc_state \<Rightarrow> mc_state \<Rightarrow> bool" where
  "calm s s' \<longleftrightarrow> mc_inv s' \<and> last_ok s' \<and> nr_buckets s' = nr_buckets s"

lemma drop_lock_returns:
  assumes "mc_inv s" "last_ok s" "unat index < 2 ^ 44" "vaddr_base (hd (mapcache_entry s (bucket_of index s))) \<noteq> 0"
    "last_address_page s = - 1 \<or> drop_bit 8 (last_address_page s) \<noteq> index"
  shows "returns (calm s) (drop_lock index s)"
proof -
  define n where "n = bucket_of index s"
  define es where "es = mapcache_entry s n"
  define k where "k = first_index (\<lambda>e. paddr_index e = index) es"
  define e where "e = (es ! k)\<lparr>mc_lock := mc_lock (es ! k) - 1\<rparr>"
  have def: "drop_lock index s = (if k = length es then Inr s else if mc_lock e > 0 \<or> k = 0 then Inr (put_bucket n (es[k := e]) s)
      else munmap (vaddr_base e) (put_bucket n (drop_at k es) s))"
    unfolding drop_lock_def Let_def n_def es_def k_def e_def ..
  have ok: "chain_ok (mmaps s) es" using assms(1) by (simp add: mc_inv_def es_def)
  have le: "k \<le> length es" unfolding k_def by (rule first_index_le)
  show ?thesis
  proof (cases "k = length es")
    case True
    then show ?thesis unfolding def using assms(1,2) by (simp add: calm_def)
  next
    case False
    then have k: "k < length es" using le by simp
    have idx: "paddr_index (es ! k) = index" using k unfolding k_def by (rule first_index_nth)
    have split: "es = take k es @ es ! k # drop (Suc k) es" using k by (rule id_take_nth_drop)
    then have es: "mapcache_entry s n = take k es @ es ! k # drop (Suc k) es" by (simp add: es_def)
    have b: "vaddr_base (es ! k) \<noteq> 0"
    proof (cases k)
      case 0
      then show ?thesis using assms(4) ok by (simp add: es_def n_def chain_ok_def hd_conv_nth)
    next
      case (Suc j)
      then have "es ! k = tl es ! j" "j < length (tl es)" using k by (simp_all add: nth_tl)
      then show ?thesis using ok by (simp add: chain_ok_def)
    qed
    have relock: "calm s (put_bucket n (es[k := e]) s)"
      using inv_relock [OF assms(1), of k n] k b assms(2) by (simp add: calm_def es_def e_def last_ok_def)
    show ?thesis
    proof (cases "mc_lock e > 0 \<or> k = 0")
      case True
      then show ?thesis unfolding def using relock False by simp
    next
      case False
      then have "take k es \<noteq> []" using k by (cases es) auto
      from inv_free [OF assms(1) es this] obtain mm where
        mm: "munmap (vaddr_base (es ! k)) (put_bucket n (take k es @ drop (Suc k) es) s) = Inr (put_bucket n (take k es @ drop (Suc k) es) (s\<lparr>mmaps := mm\<rparr>))"
        "mc_inv (put_bucket n (take k es @ drop (Suc k) es) (s\<lparr>mmaps := mm\<rparr>))" "set mm = {x \<in> set (mmaps s). fst x \<noteq> vaddr_base (es ! k)}"
        .
      have "live (mmaps s) (es ! k)" using ok k b by (simp add: chain_ok_def)
      then have "last_ok (put_bucket n (take k es @ drop (Suc k) es) (s\<lparr>mmaps := mm\<rparr>))"
        using assms(3,5) mm(3) idx by (intro last_survives [OF assms(1,2)]) auto
      moreover have "drop_at k es = take k es @ drop (Suc k) es" using drop_at_split [of "take k es" "es ! k" "drop (Suc k) es"] split k by simp
      ultimately show ?thesis unfolding def using mm(1,2) False \<open>k \<noteq> length es\<close> by (simp add: calm_def e_def)
    qed
  qed
qed

lemma release_returns:
  assumes "mc_inv s" "last_ok s"
  shows "returns (calm s) (qemu_invalidate_entry p s)"
proof (cases "first_index (\<lambda>r. vaddr_req r = p) (locked_entries s) = length (locked_entries s)")
  case True
  then show ?thesis using assms by (simp add: qemu_invalidate_entry_def calm_def)
next
  case False
  define r where "r = first_index (\<lambda>r. vaddr_req r = p) (locked_entries s)"
  define index where "index = rev_index (locked_entries s ! r)"
  define t where "t = s\<lparr>locked_entries := drop_at r (locked_entries s)\<rparr>"
  define u where "u = (if drop_bit 8 (last_address_page t) = index then t\<lparr>last_address_page := - 1, last_address_vaddr := 0\<rparr> else t)"
  have "r \<le> length (locked_entries s)" unfolding r_def by (rule first_index_le)
  then have "locked_entries s ! r \<in> set (locked_entries s)" using False by (simp add: r_def)
  then have i: "unat index < 2 ^ 44" "vaddr_base (hd (mapcache_entry s (bucket_of index s))) \<noteq> 0" using assms(1) by (simp_all add: mc_inv_def index_def)
  have "mc_inv t" unfolding t_def using set_drop_at [of r "locked_entries s"] by (intro inv_locked [OF assms(1)]) blast
  moreover have "last_ok t" using assms(2) by (simp add: last_ok_def t_def)
  ultimately have u: "mc_inv u" "last_ok u" by (simp_all add: u_def last_ok_def)
  have "qemu_invalidate_entry p s = drop_lock index u"
    unfolding qemu_invalidate_entry_def Let_def using False by (simp add: index_def u_def t_def flip: r_def)
  moreover have "returns (calm u) (drop_lock index u)"
    using i by (intro drop_lock_returns [OF u]) (auto simp: u_def t_def)
  moreover have "calm u = calm s" by (rule ext) (simp add: calm_def u_def t_def)
  ultimately show ?thesis by simp
qed

lemma empty_slot_returns:
  assumes "mc_inv s" "locked_entries s = []" "mc_lock (hd (mapcache_entry s n)) = 0"
  shows "returns (\<lambda>s'. mc_inv s' \<and> locked_entries s' = [] \<and> nr_buckets s' = nr_buckets s
    \<and> (\<exists>i. mapcache_entry s' = (mapcache_entry s)(n := (hd (mapcache_entry s n))\<lparr>paddr_index := i, vaddr_base := 0\<rparr> # tl (mapcache_entry s n)))) (empty_slot n s)"
proof (cases "vaddr_base (hd (mapcache_entry s n)) = 0")
  case True
  let ?h = "hd (mapcache_entry s n)"
  have "mapcache_entry s n \<noteq> []" using assms(1) unfolding mc_inv_def chain_ok_def by blast
  moreover have "?h\<lparr>paddr_index := paddr_index ?h, vaddr_base := 0\<rparr> = ?h" using True by simp
  ultimately have "mapcache_entry s = (mapcache_entry s)(n := ?h\<lparr>paddr_index := paddr_index ?h, vaddr_base := 0\<rparr> # tl (mapcache_entry s n))" by simp
  then have "\<exists>i. mapcache_entry s = (mapcache_entry s)(n := ?h\<lparr>paddr_index := i, vaddr_base := 0\<rparr> # tl (mapcache_entry s n))" by (rule exI)
  then show ?thesis using assms True by (simp add: empty_slot_def Let_def)
next
  case False
  have ok: "chain_ok (mmaps s) (mapcache_entry s n)" "maps_ok (mmaps s)" using assms(1) by (simp_all add: mc_inv_def)
  then obtain e r where es: "mapcache_entry s n = e # r" by (cases "mapcache_entry s n") (auto simp: chain_ok_def)
  let ?e = "e\<lparr>paddr_index := 0, vaddr_base := 0\<rparr>"
  have b: "vaddr_base e \<noteq> 0" "mc_lock e = 0" using False assms(3) by (simp_all add: es)
  then have "(vaddr_base e, bucket_pages e) \<in> set (mmaps s)" using ok(1) by (simp add: chain_ok_def es live_def)
  from munmap_ok [OF ok(2) this] obtain mm where mm: "munmap (vaddr_base e) s = Inr (s\<lparr>mmaps := mm\<rparr>)" "maps_ok mm"
    "set mm = {x \<in> set (mmaps s). fst x \<noteq> vaddr_base e}" .
  have "live mm x" if x: "x \<in> set r" "vaddr_base x \<noteq> 0" for x
  proof (rule live_mono)
    show "live (mmaps s) x" using ok(1) x by (simp add: chain_ok_def es)
    show "vaddr_base x \<noteq> vaddr_base e" using ok(1) x b(1) by (auto simp: chain_ok_def es set_bases)
  qed (simp add: mm(3))
  then have c: "chain_ok mm (?e # r)" using ok(1) b by (auto simp: chain_ok_def es)
  have "mc_inv (put_bucket n (?e # r) (s\<lparr>mmaps := mm\<rparr>))"
    using assms(2) b mm(3) by (intro inv_put [OF assms(1) mm(2) c]) (auto simp: es)
  then show ?thesis using mm(1) b assms(2) by (auto simp: empty_slot_def Let_def es)
qed

lemma empty_returns:
  assumes "mc_inv s" "locked_entries s = []" "\<forall>n < unat (nr_buckets s). mc_lock (hd (mapcache_entry s n)) = 0"
  shows "returns (calm s) (qemu_invalidate_map_cache s)"
proof -
  let ?P = "\<lambda>s'. mc_inv s' \<and> locked_entries s' = [] \<and> (\<forall>n < unat (nr_buckets s). mc_lock (hd (mapcache_entry s' n)) = 0) \<and> nr_buckets s' = nr_buckets s"
  have "returns ?P (res_fold empty_slot [0..<unat (nr_buckets s)] s)"
  proof (rule returns_fold)
    fix n m assume n: "n \<in> set [0..<unat (nr_buckets s)]" "?P m"
    then have "mc_lock (hd (mapcache_entry m n)) = 0" by simp
    with n show "returns ?P (empty_slot n m)" by (intro returns_mono [OF empty_slot_returns [of m n]]) auto
  qed (use assms in simp)
  then show ?thesis unfolding qemu_invalidate_map_cache_def by (rule returns_bind) (simp add: calm_def last_ok_def)
qed

section \<open>Reachable caches\<close>

text \<open>The cache after any use of it. The guest may gain and lose frames at any time; the cache is emptied only while nothing is locked, as its code asks for.\<close>

inductive mc_reach :: "bulk_fn \<Rightarrow> mc_state \<Rightarrow> bool" for bulk where
  start: "mc_reach bulk (qemu_map_cache_init fr)"
| request: "mc_reach bulk s \<Longrightarrow> qemu_map_cache bulk a l s = Inr (p, s') \<Longrightarrow> mc_reach bulk s'"
| release: "mc_reach bulk s \<Longrightarrow> qemu_invalidate_entry p s = Inr s' \<Longrightarrow> mc_reach bulk s'"
| empty: "mc_reach bulk s \<Longrightarrow> locked_entries s = [] \<Longrightarrow> (\<forall>n < unat (nr_buckets s). mc_lock (hd (mapcache_entry s n)) = 0) \<Longrightarrow>
    qemu_invalidate_map_cache s = Inr s' \<Longrightarrow> mc_reach bulk s'"
| frames: "mc_reach bulk s \<Longrightarrow> mc_reach bulk (s\<lparr>guest_frames := fr\<rparr>)"

lemma init_inv: "mc_inv (qemu_map_cache_init fr)" "last_ok (qemu_map_cache_init fr)"
  by (simp_all add: qemu_map_cache_init_def mc_inv_def last_ok_def maps_ok_def chain_ok_def zero_entry_def)

lemma reach_inv:
  assumes "foreign_bulk bulk"
  shows "mc_reach bulk s \<Longrightarrow> mc_inv s \<and> last_ok s"
proof (induction rule: mc_reach.induct)
  case (start fr)
  show ?case using init_inv by simp
next
  case (request s a l p s')
  then show ?case using lookup_ends [OF assms, of s a l] by (simp add: answered_def)
next
  case (release s p s')
  then show ?case using release_returns [of s p] by (simp add: calm_def)
next
  case (empty s s')
  then show ?case using empty_returns [of s] by (simp add: calm_def)
next
  case (frames s fr)
  then show ?case by (simp add: last_ok_def)
qed

text \<open>C33: Guest memory through the map cache. Whatever requests, locks and releases came before, for any guest addresses and with the guest changing its memory meanwhile, a
  request for a guest address returns a pointer that stands for exactly this address, or null. Null is returned only if the guest has no memory at the address, or
  if the bucket is locked and was mapped earlier. The process ends only if the hypervisor library cannot map, and a release never ends it.\<close>

theorem map_cache_translates:
  assumes "foreign_bulk bulk" "mc_reach bulk s"
  shows "ends (map_failure bulk) (\<lambda>(p, s').
      if p \<noteq> 0 then guest_at (mmaps s') p = Some (unat a)
      else \<not> guest_frames s (drop_bit XC_PAGE_SHIFT a) \<or>
        (\<exists>e \<in> set (mapcache_entry s' (bucket_of (drop_bit MCACHE_BUCKET_SHIFT a) s')). mc_lock e \<noteq> 0 \<and> paddr_index e = drop_bit MCACHE_BUCKET_SHIFT a))
      (qemu_map_cache bulk a l s)
    \<and> returns (\<lambda>_. True) (qemu_invalidate_entry q s)"
proof -
  have i: "mc_inv s" "last_ok s" using reach_inv [OF assms] by simp_all
  show ?thesis
  proof (rule conjI [OF ends_mono [OF lookup_ends [OF assms(1) i]] returns_mono [OF release_returns [OF i] TrueI]])
    fix x assume "answered a l s x"
    then show "case x of (p, s') \<Rightarrow> if p \<noteq> 0 then guest_at (mmaps s') p = Some (unat a)
      else \<not> guest_frames s (drop_bit XC_PAGE_SHIFT a) \<or>
        (\<exists>e \<in> set (mapcache_entry s' (bucket_of (drop_bit MCACHE_BUCKET_SHIFT a) s')). mc_lock e \<noteq> 0 \<and> paddr_index e = drop_bit MCACHE_BUCKET_SHIFT a)"
      by (cases x) (auto simp: answered_def split: if_splits)
  qed
qed

text \<open>A mapper that places each new mapping behind all others.\<close>

definition bump_bulk :: bulk_fn where
  "bump_bulk mm fr ps = Some ((2 + foldr max (map fst mm) 0 div MCACHE_BUCKET_SIZE) * MCACHE_BUCKET_SIZE, map (\<lambda>p. if fr p then 0 else -22) ps)"

lemma foldr_max: "x \<in> set xs \<Longrightarrow> x \<le> foldr max xs (0 :: nat)"
  by (induction xs) auto

lemma bump_bulk_ok: "foreign_bulk bump_bulk" "map_failure bump_bulk = {}"
proof -
  have "apart x ((2 + foldr max (map fst mm) 0 div MCACHE_BUCKET_SIZE) * MCACHE_BUCKET_SIZE)" if "x \<in> fst ` set mm" for x and mm :: host_maps
  proof -
    define y where "y = foldr max (map fst mm) 0"
    have "x \<le> y" unfolding y_def using that by (intro foldr_max) simp
    moreover have "y < (1 + y div MCACHE_BUCKET_SIZE) * MCACHE_BUCKET_SIZE" by (simp add: dividend_less_div_times)
    ultimately show ?thesis unfolding apart_def y_def [symmetric] by (simp add: algebra_simps)
  qed
  moreover have "((2 + y) * MCACHE_BUCKET_SIZE) mod 4096 = 0" for y
  proof -
    have "(2 + y) * MCACHE_BUCKET_SIZE = (2 + y) * 256 * 4096" by simp
    then show ?thesis by (simp only: mod_mult_self2_is_0)
  qed
  ultimately show "foreign_bulk bump_bulk" unfolding foreign_bulk_def bump_bulk_def by auto
  show "map_failure bump_bulk = {}" by (simp add: map_failure_def bump_bulk_def)
qed

section \<open>An example\<close>

definition full_bitmap :: "u64 list" where
  "full_bitmap = valid_words (replicate BUCKET_PAGES 0)"

definition next_base :: "host_maps \<Rightarrow> nat" where
  "next_base mm = (2 + foldr max (map fst mm) 0 div MCACHE_BUCKET_SIZE) * MCACHE_BUCKET_SIZE"

lemma remap_bump:
  assumes "guest_frames s = (\<lambda>_. True)"
  shows "qemu_remap_bucket bump_bulk e index s = res_bind (if vaddr_base e \<noteq> 0 then munmap (vaddr_base e) s else Inr s) (\<lambda>s.
    Inr (e\<lparr>vaddr_base := next_base (mmaps s), paddr_index := index, valid_mapping := full_bitmap\<rparr>, s\<lparr>mmaps := (next_base (mmaps s), map Some (bucket_pfns index)) # mmaps s\<rparr>))"
proof -
  have "map (\<lambda>p. if True then 0 else -22 :: int) (bucket_pfns index) = replicate BUCKET_PAGES 0" by (rule nth_equalityI) (simp_all add: bucket_pfns_def)
  moreover have "map2 (\<lambda>p c. if c = (0 :: int) then Some p else None) (bucket_pfns index) (replicate BUCKET_PAGES 0) = map Some (bucket_pfns index)"
    by (rule nth_equalityI) (simp_all add: bucket_pfns_def)
  ultimately show ?thesis using assms unfolding qemu_remap_bucket_def bump_bulk_def full_bitmap_def next_base_def by (simp add: munmap_def)
qed

text \<open>A state of the example: slot 0, the locked pointers and the mappings.\<close>

definition clash :: "map_cache list \<Rightarrow> map_cache_rev list \<Rightarrow> u64 \<Rightarrow> nat \<Rightarrow> host_maps \<Rightarrow> mc_state" where
  "clash es rs pg v mm = (qemu_map_cache_init (\<lambda>_. True))\<lparr>mapcache_entry := (\<lambda>_. [zero_entry])(0 := es), locked_entries := rs,
     last_address_page := pg, last_address_vaddr := v, mmaps := mm\<rparr>"

definition bucket_at :: "u64 \<Rightarrow> nat \<Rightarrow> u8 \<Rightarrow> map_cache" where
  "bucket_at index b lk = \<lparr>paddr_index = index, vaddr_base = b, valid_mapping = full_bitmap, mc_lock = lk\<rparr>"

definition bucket_map :: "nat \<Rightarrow> u64 \<Rightarrow> nat \<times> u64 option list" where
  "bucket_map b index = (b, map Some (bucket_pfns index))"

lemma full_bit: "test_bit 0 full_bitmap"
  by (simp add: full_bitmap_def test_bit_valid_words)

lemma clash_simps:
  "mapcache_entry (clash es rs pg v mm) 0 = es" "locked_entries (clash es rs pg v mm) = rs" "last_address_page (clash es rs pg v mm) = pg"
  "last_address_vaddr (clash es rs pg v mm) = v" "mmaps (clash es rs pg v mm) = mm" "guest_frames (clash es rs pg v mm) = (\<lambda>_. True)"
  "nr_buckets (clash es rs pg v mm) = 0x10000"
  "(clash es rs pg v mm)\<lparr>mmaps := mm'\<rparr> = clash es rs pg v mm'" "put_bucket 0 es' (clash es rs pg v mm) = clash es' rs pg v mm"
  "(clash es rs pg v mm)\<lparr>locked_entries := rs'\<rparr> = clash es rs' pg v mm"
  "(clash es rs pg v mm)\<lparr>last_address_page := pg', last_address_vaddr := v'\<rparr> = clash es rs pg' v' mm"
  by (simp_all add: clash_def qemu_map_cache_init_def put_bucket_def drop_bit_eq_div)

lemma clash_init: "qemu_map_cache_init (\<lambda>_. True) = clash [zero_entry] [] (- 1) 0 []"
  by (simp add: clash_def qemu_map_cache_init_def fun_upd_idem)

lemmas clash_run = clash_simps qemu_map_cache_def answer_request_def find_entry_def Let_def bucket_of_def remap_bump next_base_def zero_entry_def bucket_at_def bucket_map_def
  full_bit munmap_def qemu_invalidate_entry_def drop_lock_def unat_mod

lemma clash_1: "qemu_map_cache bump_bulk 0 1 (clash [zero_entry] [] (- 1) 0 []) =
  Inr (0x200000, clash [bucket_at 0 0x200000 1] [\<lparr>vaddr_req = 0x200000, rev_index = 0\<rparr>] 0 0x200000 [bucket_map 0x200000 0])"
  by (simp add: clash_run)

text \<open>The second request of the example.\<close>

theorem map_cache_translates_witness:
  "\<exists>p s. qemu_map_cache bump_bulk 0x1000000fff 1 (clash [bucket_at 0 0x200000 1] [\<lparr>vaddr_req = 0x200000, rev_index = 0\<rparr>] 0 0x200000 [bucket_map 0x200000 0]) = Inr (p, s)
     \<and> guest_at (mmaps s) p = Some 0x1000000fff"
proof -
  let ?s = "clash [bucket_at 0 0x200000 1] [\<lparr>vaddr_req = 0x200000, rev_index = 0\<rparr>] 0 0x200000 [bucket_map 0x200000 0]"
  have r: "mc_reach bump_bulk ?s" by (rule mc_reach.request [where a = 0 and l = 1 and p = "0x200000", OF mc_reach.start [of _ "\<lambda>_. True"]]) (simp add: clash_init clash_1)
  have "\<exists>s. qemu_map_cache bump_bulk 0x1000000fff 1 ?s = Inr (0x400fff, s)" by (simp add: clash_run)
  then show ?thesis using map_cache_translates [OF bump_bulk_ok(1) r, where a = "0x1000000fff" and l = 1] by auto
qed

end
