(* ===== verification/Map_Lock.thy ===== *)
theory Map_Lock
  imports Map_Cache
begin

text \<open>
  Pointers that stay valid: a locked bucket of the map cache is not unmapped before it is released, as long as no two buckets of guest memory in
  use share a slot of the table and no bucket is locked 256 times. Guest addresses below 64 GB have a slot for each bucket. Above, the theory
  shows how a pointer in use is lost. It also holds \<^verbatim>\<open>cpu_physical_memory_map\<close> and its counterpart of \<^verbatim>\<open>i386-dm/exec-dm.c\<close>.
\<close>

section \<open>One bucket for each slot\<close>

definition holders :: "nat \<Rightarrow> map_cache_rev list \<Rightarrow> map_cache_rev list" where
  "holders n rs = filter (\<lambda>r. unat (rev_index r) = n) rs"

definition slot_ok :: "map_cache_rev list \<Rightarrow> nat \<Rightarrow> map_cache list \<Rightarrow> bool" where
  "slot_ok rs n es \<longleftrightarrow> (\<exists>e. es = [e] \<and> (vaddr_base e \<noteq> 0 \<longrightarrow> unat (paddr_index e) = n) \<and> unat (mc_lock e) = length (holders n rs)
     \<and> (\<forall>r \<in> set (holders n rs). vaddr_base e \<le> vaddr_req r \<and> vaddr_req r < vaddr_base e + MCACHE_BUCKET_SIZE))"

definition slots_ok :: "mc_state \<Rightarrow> bool" where
  "slots_ok s \<longleftrightarrow> nr_buckets s = 0x10000 \<and> length (locked_entries s) \<le> 255 \<and> (\<forall>r \<in> set (locked_entries s). unat (rev_index r) < 0x10000)
     \<and> (\<forall>n < 0x10000. slot_ok (locked_entries s) n (mapcache_entry s n))"

definition all_ok :: "mc_state \<Rightarrow> bool" where
  "all_ok s \<longleftrightarrow> mc_inv s \<and> last_ok s \<and> slots_ok s"

lemma bucket_small: "slots_ok s \<Longrightarrow> unat i < 0x10000 \<Longrightarrow> bucket_of i s = unat i"
  by (simp add: slots_ok_def bucket_of_def unat_mod)

lemma init_slots: "slots_ok (qemu_map_cache_init fr)"
  by (simp add: slots_ok_def slot_ok_def qemu_map_cache_init_def zero_entry_def holders_def drop_bit_eq_div)

lemma slotE:
  assumes "slots_ok s" "n < 0x10000"
  obtains e where "mapcache_entry s n = [e]" "vaddr_base e \<noteq> 0 \<Longrightarrow> unat (paddr_index e) = n" "unat (mc_lock e) = length (holders n (locked_entries s))"
    "\<And>r. r \<in> set (locked_entries s) \<Longrightarrow> unat (rev_index r) = n \<Longrightarrow> vaddr_base e \<le> vaddr_req r \<and> vaddr_req r < vaddr_base e + MCACHE_BUCKET_SIZE"
  using assms unfolding slots_ok_def slot_ok_def holders_def by auto

text \<open>The pointers that are locked in both states stand for the same address in both.\<close>

definition keeps :: "mc_state \<Rightarrow> mc_state \<Rightarrow> bool" where
  "keeps s s' \<longleftrightarrow> (\<forall>r \<in> set (locked_entries s). r \<in> set (locked_entries s') \<longrightarrow> guest_at (mmaps s') (vaddr_req r) = guest_at (mmaps s) (vaddr_req r))"

lemma keepsI:
  assumes "all_ok s" "mc_inv s'"
    and "\<And>r e. r \<in> set (locked_entries s) \<Longrightarrow> mapcache_entry s (unat (rev_index r)) = [e] \<Longrightarrow> mc_lock e \<noteq> 0 \<Longrightarrow> live (mmaps s) e \<Longrightarrow> live (mmaps s') e"
  shows "keeps s s'"
  unfolding keeps_def
proof (intro ballI impI)
  fix r assume r: "r \<in> set (locked_entries s)"
  have inv: "mc_inv s" "slots_ok s" using assms(1) by (simp_all add: all_ok_def)
  then have n: "unat (rev_index r) < 0x10000" using r by (simp add: slots_ok_def)
  obtain e where e: "mapcache_entry s (unat (rev_index r)) = [e]" "unat (mc_lock e) = length (holders (unat (rev_index r)) (locked_entries s))"
    "vaddr_base e \<le> vaddr_req r" "vaddr_req r < vaddr_base e + MCACHE_BUCKET_SIZE"
    using slotE [OF inv(2) n] r by metis
  have "r \<in> set (holders (unat (rev_index r)) (locked_entries s))" using r by (simp add: holders_def)
  then have l: "mc_lock e \<noteq> 0" using e(2) by (auto simp: length_pos_if_in_set)
  have "chain_ok (mmaps s) [e]" using inv(1) e(1) unfolding mc_inv_def by metis
  then have lv: "live (mmaps s) e" using l by (simp add: chain_ok_def)
  from guest_at_keeps [OF _ _ lv [unfolded live_def] assms(3) [OF r e(1) l lv, unfolded live_def] e(3,4)]
  show "guest_at (mmaps s') (vaddr_req r) = guest_at (mmaps s) (vaddr_req r)" using inv(1) assms(2) by (simp add: mc_inv_def)
qed

lemma unat_index_small: "unat a < 2 ^ 36 \<Longrightarrow> unat (drop_bit 20 (a :: u64)) < 0x10000"
  by (simp add: unat_drop_bit less_mult_imp_div_less)

lemma slots_put:
  assumes "slots_ok s" "n < 0x10000" "length rs \<le> 255" "\<forall>r \<in> set rs. unat (rev_index r) < 0x10000" "slot_ok rs n es"
    "\<And>m. m \<noteq> n \<Longrightarrow> holders m rs = holders m (locked_entries s)"
  shows "slots_ok (put_bucket n es s\<lparr>locked_entries := rs\<rparr>)"
  using assms unfolding slots_ok_def slot_ok_def by simp

lemma slots_upd [simp]:
  "slots_ok (s\<lparr>last_address_page := pg\<rparr>) = slots_ok s" "slots_ok (s\<lparr>last_address_vaddr := v\<rparr>) = slots_ok s" "slots_ok (s\<lparr>mmaps := mm\<rparr>) = slots_ok s"
  "slots_ok (s\<lparr>guest_frames := fr\<rparr>) = slots_ok s"
  by (simp_all add: slots_ok_def)

lemma found_slot:
  assumes "all_ok s" "unat index < 0x10000" "found index page s (k, s')"
  obtains e mm where "s' = put_bucket (unat index) [e] (s\<lparr>mmaps := mm\<rparr>)" "k = 0" "vaddr_base e \<noteq> 0" "slots_ok s'" "keeps s s'" "mc_inv s'"
    "slot_ok (locked_entries s) (unat index) [e]"
proof -
  have inv: "mc_inv s" "slots_ok s" using assms(1) by (simp_all add: all_ok_def)
  note n = bucket_small [OF inv(2) assms(2)]
  obtain d where d: "mapcache_entry s (unat index) = [d]" "vaddr_base d \<noteq> 0 \<Longrightarrow> unat (paddr_index d) = unat index"
    "unat (mc_lock d) = length (holders (unat index) (locked_entries s))"
    "\<And>r. r \<in> set (locked_entries s) \<Longrightarrow> unat (rev_index r) = unat index \<Longrightarrow> vaddr_base d \<le> vaddr_req r \<and> vaddr_req r < vaddr_base d + MCACHE_BUCKET_SIZE"
    by (rule slotE [OF inv(2) assms(2)]) blast
  obtain es mm where f: "s' = put_bucket (unat index) es (s\<lparr>mmaps := mm\<rparr>)" "mc_inv s'" "k < length es" "vaddr_base (es ! k) \<noteq> 0" "paddr_index (es ! k) = index"
    "map mc_lock es = [mc_lock d] @ (if mc_lock d \<noteq> 0 \<and> paddr_index d \<noteq> index then [0] else [])" "mc_lock d \<noteq> 0 \<Longrightarrow> es ! 0 = d"
    "\<forall>x \<in> set (mmaps s). x \<in> set mm \<or> mc_lock d = 0 \<and> fst x = vaddr_base d"
    using assms(3) unfolding found_def n d(1) prod.case by (elim exE conjE) (rule that, simp_all)
  have "chain_ok (mmaps s) [d]" using inv(1) d(1) unfolding mc_inv_def by metis
  then have lo: "mc_lock d \<noteq> 0 \<Longrightarrow> paddr_index d = index" "vaddr_base d \<noteq> 0 \<Longrightarrow> live (mmaps s) d" using d(2) by (auto simp: chain_ok_def word_unat_eq_iff)
  then have "length es = 1" using arg_cong [OF f(6), of length] by (auto split: if_splits)
  then obtain e where e: "es = [e]" "k = 0" using f(3) by (cases es) auto
  have le: "mc_lock e = mc_lock d" "mc_lock d \<noteq> 0 \<Longrightarrow> e = d" using f(6,7) e by (auto split: if_splits)
  have lock: "holders (unat index) (locked_entries s) \<noteq> [] \<Longrightarrow> mc_lock d \<noteq> 0" using d(3) by auto
  have slot: "slot_ok (locked_entries s) (unat index) [e]"
  proof (cases "holders (unat index) (locked_entries s) = []")
    case True
    then show ?thesis using f(5) e d(3) le(1) by (simp add: slot_ok_def)
  next
    case False
    then have "e = d" using lock le(2) by blast
    then show ?thesis using d by (auto simp: slot_ok_def holders_def)
  qed
  have "slots_ok (put_bucket (unat index) [e] (s\<lparr>mmaps := mm\<rparr>)\<lparr>locked_entries := locked_entries s\<rparr>)"
    using inv(2) assms(2) slot by (intro slots_put) (auto simp: slots_ok_def)
  then have sl: "slots_ok s'" unfolding f(1) e(1) by (simp add: put_bucket_def)
  have "keeps s s'"
  proof (rule keepsI [OF assms(1) f(2)])
    fix r x assume x: "r \<in> set (locked_entries s)" "mapcache_entry s (unat (rev_index r)) = [x]" "mc_lock x \<noteq> 0" "live (mmaps s) x"
    have "\<not> (mc_lock d = 0 \<and> vaddr_base x = vaddr_base d)"
    proof
      assume a: "mc_lock d = 0 \<and> vaddr_base x = vaddr_base d"
      then have "unat (rev_index r) \<noteq> unat index" using x(2,3) d(1) by auto
      then have "set (bases [x]) \<inter> set (bases [d]) = {}" using inv(1) x(2) d(1) unfolding mc_inv_def by metis
      moreover have "vaddr_base x \<noteq> 0" using inv_pos [OF inv(1) x(4) [unfolded live_def]] by simp
      ultimately show False using a by simp
    qed
    then show "live (mmaps s') x" using f(1,8) x(4) by (auto simp: live_def)
  qed
  then show thesis using that f(1,2,4) e sl slot by auto
qed

lemma request_ok:
  assumes "foreign_bulk bulk" "all_ok s" "unat a < 2 ^ 36" "length (locked_entries s) < 255" "qemu_map_cache bulk a l s = Inr (p, s')"
  shows "all_ok s' \<and> keeps s s' \<and> set (locked_entries s) \<subseteq> set (locked_entries s') \<and> (l \<noteq> 0 \<and> p \<noteq> 0 \<longrightarrow> (\<exists>r \<in> set (locked_entries s'). vaddr_req r = p))"
proof -
  have inv: "mc_inv s" "last_ok s" "slots_ok s" using assms(2) by (simp_all add: all_ok_def)
  have ans: "mc_inv s' \<and> last_ok s'" using lookup_ends [OF assms(1) inv(1,2), of a l] assms(5) by (simp add: answered_def)
  show ?thesis
  proof (cases "drop_bit 12 a = last_address_page s \<and> l = 0")
    case True
    then have "s' = s" using assms(5) by (simp add: qemu_map_cache_def Let_def)
    then show ?thesis using assms(2) True by (simp add: keeps_def)
  next
    case False
    let ?i = "drop_bit 20 a" and ?o = "unat a mod MCACHE_BUCKET_SIZE"
    note i = unat_index_small [OF assms(3)]
    have pg: "?o div 4096 < BUCKET_PAGES" by (simp add: less_mult_imp_div_less)
    obtain k t where f: "find_entry bulk ?i (?o div 4096) s = Inr (k, t)" "(p, s') = answer_request a l k t"
      using assms(5) False unfolding qemu_map_cache_def offset_value Let_def by (auto simp: res_bind_Inr_iff split: prod.splits)
    then have "found ?i (?o div 4096) s (k, t)" using find_entry_ends [OF assms(1) inv(1) pg, of ?i] by simp
    from found_slot [OF assms(2) i this] obtain e mm where e: "t = put_bucket (unat ?i) [e] (s\<lparr>mmaps := mm\<rparr>)" "k = 0" "vaddr_base e \<noteq> 0" "slots_ok t" "keeps s t"
      "slot_ok (locked_entries s) (unat ?i) [e]" by metis
    have tn: "bucket_of ?i t = unat ?i" "mapcache_entry t (unat ?i) = [e]" "locked_entries t = locked_entries s" using bucket_small [OF e(4) i] e(1) by simp_all
    show ?thesis
    proof (cases "test_bit (?o div 4096) (valid_mapping e) \<and> l \<noteq> 0")
      case False
      then have "slots_ok s'" "mmaps s' = mmaps t" "locked_entries s' = locked_entries s" "l \<noteq> 0 \<longrightarrow> p = 0"
        using f(2) e(4) unfolding answer_request_def offset_value Let_def tn(1,2) e(2) by (auto simp: tn(3) split: if_splits)
      then show ?thesis using ans e(5) tn(3) by (auto simp: all_ok_def keeps_def)
    next
      case True
      let ?r = "\<lparr>vaddr_req = vaddr_base e + ?o, rev_index = ?i\<rparr>"
      let ?t = "t\<lparr>last_address_page := drop_bit 12 a, last_address_vaddr := vaddr_base e\<rparr>"
      let ?e = "e\<lparr>mc_lock := mc_lock e + 1\<rparr>"
      have s': "s' = put_bucket (unat ?i) [?e] ?t\<lparr>locked_entries := locked_entries s @ [?r]\<rparr>" "p = vaddr_base e + ?o"
        using f(2) True unfolding answer_request_def offset_value Let_def tn(1,2) e(2) by (simp_all add: tn(3))
      have le: "unat (mc_lock e) = length (holders (unat ?i) (locked_entries s))" using e(6) by (simp add: slot_ok_def)
      then have "unat (mc_lock e) < 255" using assms(4) length_filter_le [of _ "locked_entries s"] unfolding holders_def by (metis le_less_trans)
      then have "unat (mc_lock e + 1) = unat (mc_lock e) + 1" by (subst unat_add_lem [THEN iffD1]) simp_all
      then have "slot_ok (locked_entries s @ [?r]) (unat ?i) [?e]" using e(6) by (auto simp: slot_ok_def holders_def)
      then have "slots_ok s'" unfolding s'(1) using e(4) i assms(4) inv(3)
        by (intro slots_put) (auto simp: holders_def slots_ok_def tn(3))
      then show ?thesis using ans e(5) s' tn(3) by (auto simp: all_ok_def keeps_def)
    qed
  qed
qed

lemma holders_drop:
  "k < length rs \<Longrightarrow> holders m (drop_at k rs) = (if unat (rev_index (rs ! k)) = m then drop_at (length (holders m (take k rs))) (holders m rs) else holders m rs)"
proof -
  assume k: "k < length rs"
  have rs: "rs = take k rs @ rs ! k # drop (Suc k) rs" using k by (rule id_take_nth_drop)
  have d: "drop_at k rs = take k rs @ drop (Suc k) rs" using drop_at_split [of "take k rs" "rs ! k" "drop (Suc k) rs"] rs k by simp
  have h: "holders m rs = holders m (take k rs) @ (if unat (rev_index (rs ! k)) = m then [rs ! k] else []) @ holders m (drop (Suc k) rs)"
    by (subst rs) (simp add: holders_def)
  show ?thesis unfolding d h by (simp add: drop_at_split) (simp add: holders_def)
qed

lemma length_drop_at: "k < length xs \<Longrightarrow> length (drop_at k xs) = length xs - 1"
  by (induction k xs rule: drop_at.induct) auto

lemma holders_one_less:
  assumes "k < length rs"
  shows "length (holders (unat (rev_index (rs ! k))) (drop_at k rs)) = length (holders (unat (rev_index (rs ! k))) rs) - 1"
proof -
  let ?n = "unat (rev_index (rs ! k))"
  have "length (holders ?n (take k rs)) < length (holders ?n rs)"
    by (subst (3) id_take_nth_drop [OF assms]) (simp add: holders_def)
  then show ?thesis using holders_drop [OF assms, of ?n] by (simp add: length_drop_at)
qed

lemma drop_at_keeps:
  assumes "k < length xs" "x \<in> set xs" "x \<noteq> xs ! k"
  shows "x \<in> set (drop_at k xs)"
proof -
  have "x \<in> set (take k xs @ drop (Suc k) xs)" using assms(2,3) by (subst (asm) id_take_nth_drop [OF assms(1)]) auto
  moreover have "drop_at k xs = take k xs @ drop (Suc k) xs"
    using drop_at_split [of "take k xs" "xs ! k" "drop (Suc k) xs"] id_take_nth_drop [OF assms(1)] assms(1) by simp
  ultimately show ?thesis by simp
qed

lemma release_ok:
  assumes "all_ok s" "qemu_invalidate_entry p s = Inr s'"
  shows "all_ok s' \<and> keeps s s' \<and> (\<forall>r \<in> set (locked_entries s). vaddr_req r \<noteq> p \<longrightarrow> r \<in> set (locked_entries s'))"
proof -
  let ?L = "locked_entries s"
  define k where "k = first_index (\<lambda>r. vaddr_req r = p) ?L"
  have inv: "mc_inv s" "last_ok s" "slots_ok s" using assms(1) by (simp_all add: all_ok_def)
  have ok: "mc_inv s'" "last_ok s'" using release_returns [OF inv(1,2), of p] assms(2) by (simp_all add: calm_def)
  show ?thesis
  proof (cases "k = length ?L")
    case True
    then have "s' = s" using assms(2) by (simp add: qemu_invalidate_entry_def k_def)
    then show ?thesis using assms(1) by (simp add: keeps_def)
  next
    case False
    then have k: "k < length ?L" using first_index_le [of "\<lambda>r. vaddr_req r = p" ?L] by (simp add: k_def)
    then have kp: "vaddr_req (?L ! k) = p" unfolding k_def by (rule first_index_nth)
    define index where "index = rev_index (?L ! k)"
    have i: "unat index < 0x10000" using inv(3) k by (simp add: slots_ok_def index_def)
    obtain d where d: "mapcache_entry s (unat index) = [d]" "vaddr_base d \<noteq> 0 \<Longrightarrow> unat (paddr_index d) = unat index"
      "unat (mc_lock d) = length (holders (unat index) ?L)"
      "\<And>r. r \<in> set ?L \<Longrightarrow> unat (rev_index r) = unat index \<Longrightarrow> vaddr_base d \<le> vaddr_req r \<and> vaddr_req r < vaddr_base d + MCACHE_BUCKET_SIZE"
      by (rule slotE [OF inv(3) i]) blast
    have hk: "?L ! k \<in> set (holders (unat index) ?L)" using k by (simp add: holders_def index_def)
    then have pos: "0 < unat (mc_lock d)" unfolding d(3) by (rule length_pos_if_in_set)
    then have "mc_lock d \<noteq> 0" by auto
    moreover have "chain_ok (mmaps s) [d]" using inv(1) d(1) unfolding mc_inv_def by metis
    ultimately have pd: "paddr_index d = index" using d(2) by (auto simp: chain_ok_def word_unat_eq_iff)
    define t where "t = s\<lparr>locked_entries := drop_at k ?L\<rparr>"
    define u where "u = (if drop_bit 8 (last_address_page t) = index then t\<lparr>last_address_page := - 1, last_address_vaddr := 0\<rparr> else t)"
    have b: "bucket_of index u = unat index" "mapcache_entry u (unat index) = [d]" "mmaps u = mmaps s"
      using bucket_small [OF inv(3) i] d(1) by (simp_all add: u_def t_def)
    have "qemu_invalidate_entry p s = drop_lock index u"
      using False unfolding qemu_invalidate_entry_def Let_def by (simp add: u_def t_def index_def flip: k_def)
    also have "\<dots> = Inr (put_bucket (unat index) [d\<lparr>mc_lock := mc_lock d - 1\<rparr>] u)" by (simp add: drop_lock_def b pd)
    finally have s': "s' = put_bucket (unat index) [d\<lparr>mc_lock := mc_lock d - 1\<rparr>] u" using assms(2) by simp
    have "unat (mc_lock d - 1) = unat (mc_lock d) - 1" using pos by (simp add: unat_minus_one unat_gt_0)
    then have l1: "unat (mc_lock d - 1) = length (holders (unat index) (drop_at k ?L))"
      using holders_one_less [OF k] d(3) by (simp add: index_def)
    have sub: "set (drop_at k ?L) \<subseteq> set ?L" by (rule set_drop_at)
    have sl: "slot_ok (drop_at k ?L) (unat index) [d\<lparr>mc_lock := mc_lock d - 1\<rparr>]"
      using l1 d(2,4) sub by (auto simp: slot_ok_def holders_def)
    have "slots_ok (put_bucket (unat index) [d\<lparr>mc_lock := mc_lock d - 1\<rparr>] s\<lparr>locked_entries := drop_at k ?L\<rparr>)"
    proof (rule slots_put [OF inv(3) i _ _ sl])
      show "length (drop_at k ?L) \<le> 255" using inv(3) k unfolding slots_ok_def by (simp add: length_drop_at le_diff_conv)
      show "\<forall>r \<in> set (drop_at k ?L). unat (rev_index r) < 0x10000" using inv(3) sub by (auto simp: slots_ok_def)
      show "holders m (drop_at k ?L) = holders m ?L" if "m \<noteq> unat index" for m using holders_drop [OF k, of m] that by (simp add: index_def)
    qed
    then have "slots_ok s'" unfolding s' by (auto simp: u_def t_def put_bucket_def slots_ok_def split: if_splits)
    moreover have "keeps s s'" unfolding s' by (simp add: keeps_def b(3))
    moreover have "r \<in> set (locked_entries s')" if "r \<in> set ?L" "vaddr_req r \<noteq> p" for r
      using drop_at_keeps [OF k that(1)] that(2) kp by (auto simp: s' u_def t_def)
    ultimately show ?thesis using ok by (simp add: all_ok_def)
  qed
qed

lemma empty_ok:
  assumes "all_ok s" "locked_entries s = []" "qemu_invalidate_map_cache s = Inr s'"
  shows "all_ok s'"
proof -
  let ?P = "\<lambda>s. mc_inv s \<and> slots_ok s \<and> locked_entries s = []"
  have step: "returns ?P (empty_slot n t)" if t: "?P t" "n < 0x10000" for t n
  proof -
    obtain d where d: "mapcache_entry t n = [d]" "unat (mc_lock d) = length (holders n (locked_entries t))" by (rule slotE [OF conjunct1 [OF conjunct2 [OF t(1)]] t(2)])
    then have l: "mc_lock d = 0" using t(1) by (simp add: holders_def unat_eq_0)
    have ok: "slot_ok [] n [d\<lparr>paddr_index := i, vaddr_base := 0\<rparr>]" for i using l by (simp add: slot_ok_def holders_def)
    have "mc_inv t" "locked_entries t = []" "mc_lock (hd (mapcache_entry t n)) = 0" using t(1) d(1) l by simp_all
    from empty_slot_returns [OF this] show ?thesis
      by (rule returns_mono) (use t d(1) ok in \<open>auto simp: slots_ok_def\<close>)
  qed
  have "returns ?P (res_fold empty_slot [0..<unat (nr_buckets s)] s)"
    by (rule returns_fold) (use step assms(1,2) in \<open>auto simp: all_ok_def slots_ok_def\<close>)
  then have "returns all_ok (qemu_invalidate_map_cache s)" unfolding qemu_invalidate_map_cache_def
    by (rule returns_bind) (simp add: all_ok_def last_ok_def)
  then show ?thesis using assms(3) by simp
qed

section \<open>Pointers in use\<close>

text \<open>The use of the cache by a guest with less than 64 GB of address space: up to 255 pointers are locked at a time, those of \<open>K\<close> are not released, and the cache is
  emptied when nothing is locked.\<close>

inductive uses :: "bulk_fn \<Rightarrow> nat set \<Rightarrow> mc_state \<Rightarrow> mc_state \<Rightarrow> bool" for bulk K where
  request: "unat a < 2 ^ 36 \<Longrightarrow> length (locked_entries s) < 255 \<Longrightarrow> qemu_map_cache bulk a l s = Inr (p, s') \<Longrightarrow> uses bulk K s s'"
| release: "p \<notin> K \<Longrightarrow> qemu_invalidate_entry p s = Inr s' \<Longrightarrow> uses bulk K s s'"
| empty: "locked_entries s = [] \<Longrightarrow> qemu_invalidate_map_cache s = Inr s' \<Longrightarrow> uses bulk K s s'"
| frames: "uses bulk K s (s\<lparr>guest_frames := fr\<rparr>)"

lemma uses_ok:
  assumes "foreign_bulk bulk" "uses bulk K s s'" "all_ok s"
  shows "all_ok s' \<and> keeps s s' \<and> (\<forall>r \<in> set (locked_entries s). vaddr_req r \<in> K \<longrightarrow> r \<in> set (locked_entries s'))"
  using assms(2)
proof cases
  case (request a l p)
  then show ?thesis using request_ok [OF assms(1,3)] by blast
next
  case (release p)
  from release_ok [OF assms(3) release(2)] show ?thesis using release(1) by metis
next
  case empty
  then show ?thesis using empty_ok [OF assms(3)] by (simp add: keeps_def)
next
  case (frames fr)
  then show ?thesis using assms(3) by (simp add: keeps_def all_ok_def last_ok_def)
qed

lemma uses_star_ok:
  assumes "foreign_bulk bulk" "(uses bulk K)\<^sup>*\<^sup>* s s'" "all_ok s" "r \<in> set (locked_entries s)" "vaddr_req r \<in> K"
  shows "r \<in> set (locked_entries s') \<and> guest_at (mmaps s') (vaddr_req r) = guest_at (mmaps s) (vaddr_req r) \<and> all_ok s'"
  using assms(2)
proof induction
  case base
  show ?case using assms(3,4) by simp
next
  case (step t u)
  then show ?case using uses_ok [OF assms(1) step(2)] assms(5) by (auto simp: keeps_def)
qed

lemma uses_star_all_ok: "foreign_bulk bulk \<Longrightarrow> (uses bulk K)\<^sup>*\<^sup>* s s' \<Longrightarrow> all_ok s \<Longrightarrow> all_ok s'"
  by (rotate_tac 1, induction rule: rtranclp_induct) (use uses_ok in blast)+

text \<open>C34: A pointer that a device model component has locked stays valid until it is released: for guest addresses below 64 GB and with at most 255
  pointers locked at a time, no sequence of requests, releases of other pointers and changes of the guest memory makes it stand for another address or unmaps it. Emptying the
  cache while nothing is locked does not disturb this.\<close>

theorem map_cache_locked_stays:
  assumes "foreign_bulk bulk" "(uses bulk {})\<^sup>*\<^sup>* (qemu_map_cache_init fr) s" "unat a < 2 ^ 36" "length (locked_entries s) < 255" "l \<noteq> 0"
    and "qemu_map_cache bulk a l s = Inr (p, t)" "p \<noteq> 0" "(uses bulk {p})\<^sup>*\<^sup>* t u"
  shows "guest_at (mmaps u) p = Some (unat a)"
proof -
  have "all_ok (qemu_map_cache_init fr)" using init_inv init_slots by (simp add: all_ok_def)
  then have s: "all_ok s" by (rule uses_star_all_ok [OF assms(1,2)])
  then obtain r where t: "all_ok t" "r \<in> set (locked_entries t)" "vaddr_req r = p" using request_ok [OF assms(1) s assms(3,4,6)] assms(5,7) by blast
  have "guest_at (mmaps t) p = Some (unat a)" using lookup_ends [OF assms(1), of s a l] s assms(6,7) by (simp add: answered_def all_ok_def)
  then show ?thesis using uses_star_ok [OF assms(1,8) t(1,2)] t(3) by simp
qed

text \<open>A second pointer is locked while the first is in use.\<close>

theorem map_cache_locked_stays_witness:
  "\<exists>p t q u. qemu_map_cache bump_bulk 0 1 (qemu_map_cache_init (\<lambda>_. True)) = Inr (p, t) \<and> qemu_map_cache bump_bulk 0x12345678 1 t = Inr (q, u) \<and> guest_at (mmaps u) p = Some 0"
proof -
  let ?t = "clash [bucket_at 0 0x200000 1] [\<lparr>vaddr_req = 0x200000, rev_index = 0\<rparr>] 0 0x200000 [bucket_map 0x200000 0]"
  have 1: "qemu_map_cache bump_bulk 0 1 (qemu_map_cache_init (\<lambda>_. True)) = Inr (0x200000, ?t)" by (simp add: clash_init clash_1)
  have "mc_reach bump_bulk ?t" by (rule mc_reach.request [OF mc_reach.start 1])
  then have "ends {} (answered 0x12345678 1 ?t) (qemu_map_cache bump_bulk 0x12345678 1 ?t)"
    using lookup_ends [OF bump_bulk_ok(1)] reach_inv [OF bump_bulk_ok(1)] bump_bulk_ok(2) by metis
  then obtain q u where 2: "qemu_map_cache bump_bulk 0x12345678 1 ?t = Inr (q, u)" by (cases "qemu_map_cache bump_bulk 0x12345678 1 ?t") auto
  have "(uses bump_bulk {0x200000})\<^sup>*\<^sup>* ?t u" by (rule r_into_rtranclp, rule uses.request [OF _ _ 2]) (simp_all add: clash_simps)
  then have "guest_at (mmaps u) 0x200000 = Some 0"
    using map_cache_locked_stays [OF bump_bulk_ok(1) rtranclp.rtrancl_refl _ _ _ 1, of u] by (simp add: clash_init clash_simps)
  then show ?thesis using 1 2 by blast
qed

section \<open>Buckets that share a slot\<close>

lemma clash_2: "qemu_map_cache bump_bulk 0x1000000000 1 (clash [bucket_at 0 0x200000 1] [\<lparr>vaddr_req = 0x200000, rev_index = 0\<rparr>] 0 0x200000 [bucket_map 0x200000 0]) =
  Inr (0x400000, clash [bucket_at 0 0x200000 1, bucket_at 0x10000 0x400000 1]
    [\<lparr>vaddr_req = 0x200000, rev_index = 0\<rparr>, \<lparr>vaddr_req = 0x400000, rev_index = 0x10000\<rparr>] 0x1000000 0x400000 [bucket_map 0x400000 0x10000, bucket_map 0x200000 0])"
  by (simp add: clash_run)

lemma clash_3: "qemu_invalidate_entry 0x200000 (clash [bucket_at 0 0x200000 1, bucket_at 0x10000 0x400000 1]
    [\<lparr>vaddr_req = 0x200000, rev_index = 0\<rparr>, \<lparr>vaddr_req = 0x400000, rev_index = 0x10000\<rparr>] 0x1000000 0x400000 [bucket_map 0x400000 0x10000, bucket_map 0x200000 0]) =
  Inr (clash [bucket_at 0 0x200000 0, bucket_at 0x10000 0x400000 1] [\<lparr>vaddr_req = 0x400000, rev_index = 0x10000\<rparr>] 0x1000000 0x400000
    [bucket_map 0x400000 0x10000, bucket_map 0x200000 0])"
  by (simp add: clash_run)

lemma clash_4: "qemu_map_cache bump_bulk 0x1000000000 1 (clash [bucket_at 0 0x200000 0, bucket_at 0x10000 0x400000 1] [\<lparr>vaddr_req = 0x400000, rev_index = 0x10000\<rparr>]
    0x1000000 0x400000 [bucket_map 0x400000 0x10000, bucket_map 0x200000 0]) =
  Inr (0x600000, clash [bucket_at 0x10000 0x600000 1, bucket_at 0x10000 0x400000 1]
    [\<lparr>vaddr_req = 0x400000, rev_index = 0x10000\<rparr>, \<lparr>vaddr_req = 0x600000, rev_index = 0x10000\<rparr>] 0x1000000 0x600000
    [bucket_map 0x600000 0x10000, bucket_map 0x400000 0x10000])"
  by (simp add: clash_run)

lemma clash_5: "qemu_invalidate_entry 0x400000 (clash [bucket_at 0x10000 0x600000 1, bucket_at 0x10000 0x400000 1]
    [\<lparr>vaddr_req = 0x400000, rev_index = 0x10000\<rparr>, \<lparr>vaddr_req = 0x600000, rev_index = 0x10000\<rparr>] 0x1000000 0x600000
    [bucket_map 0x600000 0x10000, bucket_map 0x400000 0x10000]) =
  Inr (clash [bucket_at 0x10000 0x600000 0, bucket_at 0x10000 0x400000 1] [\<lparr>vaddr_req = 0x600000, rev_index = 0x10000\<rparr>] (- 1) 0
    [bucket_map 0x600000 0x10000, bucket_map 0x400000 0x10000])"
  by (simp add: clash_run)

lemma clash_6: "qemu_map_cache bump_bulk 0x2000000000 0 (clash [bucket_at 0x10000 0x600000 0, bucket_at 0x10000 0x400000 1] [\<lparr>vaddr_req = 0x600000, rev_index = 0x10000\<rparr>] (- 1) 0
    [bucket_map 0x600000 0x10000, bucket_map 0x400000 0x10000]) =
  Inr (0x600000, clash [bucket_at 0x20000 0x600000 0, bucket_at 0x10000 0x400000 1] [\<lparr>vaddr_req = 0x600000, rev_index = 0x10000\<rparr>] 0x2000000 0x600000
    [bucket_map 0x600000 0x20000, bucket_map 0x400000 0x10000])"
  by (simp add: clash_run)

text \<open>C36: Above 64 GB a pointer in use can be lost. The search for a bucket stops at the first unlocked entry of a chain, so a bucket that is mapped further down is mapped a second time, and a release takes the
  lock of the first entry for the bucket, whichever pointer is released. In the sequence below the guest addresses 0, 64 GB and 128 GB share a slot. The pointer \<open>r\<close>, locked for the address 64 GB and
  not released, stands for the address 128 GB in the end: a transfer in progress to it hits other guest memory.\<close>

theorem map_cache_clash_moves_locked:
  "res_bind (qemu_map_cache bump_bulk 0 1 (qemu_map_cache_init (\<lambda>_. True))) (\<lambda>(p, s).
   res_bind (qemu_map_cache bump_bulk 0x1000000000 1 s) (\<lambda>(q, s).
   res_bind (qemu_invalidate_entry p s) (\<lambda>s.
   res_bind (qemu_map_cache bump_bulk 0x1000000000 1 s) (\<lambda>(r, s).
   res_bind (qemu_invalidate_entry q s) (\<lambda>s.
   res_bind (qemu_map_cache bump_bulk 0x2000000000 0 s) (\<lambda>(_, s).
   Inr (r \<noteq> q \<and> r \<in> vaddr_req ` set (locked_entries s), guest_at (mmaps s) r))))))) = Inr (True, Some 0x2000000000)"
proof -
  have "guest_at [bucket_map 0x600000 0x20000, bucket_map 0x400000 0x10000] 0x600000 = Some 0x2000000000"
    by (simp add: guest_at_def bucket_map_def bucket_pfns_def)
  then show ?thesis by (simp add: clash_init clash_1 clash_2 clash_3 clash_4 clash_5 clash_6) (simp add: clash_simps)
qed

section \<open>Mapping a range\<close>

text \<open>\<^verbatim>\<open>cpu_physical_memory_map\<close>: the range is cut at the end of the bucket, the rest of the bucket is reported as modified while modified pages are tracked, and the address is
  locked in the cache.\<close>

definition cpu_physical_memory_map :: "bulk_fn \<Rightarrow> u64 \<Rightarrow> u64 \<Rightarrow> 'a mem_bus_scheme \<times> mc_state \<Rightarrow> (nat \<times> u64 \<times> 'a mem_bus_scheme \<times> mc_state) res" where
  "cpu_physical_memory_map bulk addr plen = (\<lambda>(m, s).
     let l = 0x100000 - (addr AND (0x100000 - 1)); plen = (if plen > l then l else plen);
         m = (if xen_logdirty_enable m
              then m\<lparr>modified := modified m @ [(drop_bit TARGET_PAGE_BITS addr, drop_bit TARGET_PAGE_BITS (addr + l + 4096 - 1) - drop_bit TARGET_PAGE_BITS addr)]\<rparr> else m) in
     res_bind (qemu_map_cache bulk addr 1 s) (\<lambda>(p, s). Inr (p, plen, m, s)))"

lemma live_range:
  assumes "maps_ok mm" "live mm e" "paddr_index e = drop_bit 20 a" "unat a mod MCACHE_BUCKET_SIZE + k < MCACHE_BUCKET_SIZE" "unat a < 2 ^ 52"
  shows "guest_at mm (vaddr_base e + unat a mod MCACHE_BUCKET_SIZE + k) \<in> {None, Some (unat a + k)}"
proof -
  let ?i = "unat a mod MCACHE_BUCKET_SIZE + k"
  have j: "?i div 4096 < BUCKET_PAGES" using assms(4) by (simp add: less_mult_imp_div_less)
  have u: "unat (drop_bit 20 a) = unat a div MCACHE_BUCKET_SIZE" by (simp add: unat_drop_bit)
  then have "unat (drop_bit 20 a) < 2 ^ 32" using assms(5) less_mult_imp_div_less [of "unat a" "2 ^ 32" "2 ^ 20"] by simp
  then have "unat (pfn_at (drop_bit 20 a) (?i div 4096)) = unat (drop_bit 20 a) * 256 + ?i div 4096" using unat_pfn_at [OF _ j] by simp
  moreover have "unat a div MCACHE_BUCKET_SIZE * MCACHE_BUCKET_SIZE + unat a mod MCACHE_BUCKET_SIZE = unat a" by (rule div_mult_mod_eq)
  moreover have "?i div 4096 * 4096 + ?i mod 4096 = ?i" by (rule div_mult_mod_eq)
  ultimately have "unat (pfn_at (drop_bit 20 a) (?i div 4096)) * 4096 + ?i mod 4096 = unat a + k" unfolding u by linarith
  then show ?thesis using guest_at_mapped [OF assms(1) assms(2) [unfolded live_def] assms(4)] j assms(3) by (simp add: bucket_pages_def add.assoc)
qed

text \<open>The pages of a range are among those reported.\<close>

definition logged :: "u64 \<times> u64 \<Rightarrow> nat \<Rightarrow> bool" where
  "logged = (\<lambda>(first, n) page. unat first \<le> page \<and> page < unat first + unat n)"

lemma bucket_rest:
  assumes "unat addr < 2 ^ 52"
  shows "unat (0x100000 - (addr AND (0x100000 - 1)) :: u64) = MCACHE_BUCKET_SIZE - unat addr mod MCACHE_BUCKET_SIZE"
proof -
  have "unat (addr AND (0x100000 - 1)) \<le> unat (0x100000 :: u64)" unfolding offset_value using mod_less_divisor [of MCACHE_BUCKET_SIZE "unat addr"] by simp
  then have "unat (0x100000 - (addr AND (0x100000 - 1)) :: u64) = unat (0x100000 :: u64) - unat (addr AND (0x100000 - 1))" by (simp only: unat_sub_if' if_True)
  then show ?thesis unfolding offset_value by simp
qed

lemma rest_logged:
  fixes addr :: u64
  defines "l \<equiv> 0x100000 - (addr AND (0x100000 - 1))"
  assumes "unat addr < 2 ^ 52" "k < unat l"
  shows "logged (drop_bit TARGET_PAGE_BITS addr, drop_bit TARGET_PAGE_BITS (addr + l + 4096 - 1) - drop_bit TARGET_PAGE_BITS addr) ((unat addr + k) div 4096)"
proof -
  have l: "unat l \<le> MCACHE_BUCKET_SIZE" unfolding l_def bucket_rest [OF assms(2)] by simp
  then have "unat (addr + l) = unat addr + unat l" using assms(2) by (subst unat_add_lem [THEN iffD1]) simp_all
  then have "unat (addr + l + 4095) = unat addr + unat l + 4095" using assms(2) l by (subst unat_add_lem [THEN iffD1]) simp_all
  moreover have "addr + l + 4096 - 1 = addr + l + 4095" by simp
  ultimately have e: "unat (drop_bit 12 (addr + l + 4096 - 1)) = (unat addr + unat l + 4095) div 4096" by (simp only: unat_drop_bit) simp
  moreover have "unat addr div 4096 \<le> (unat addr + unat l + 4095) div 4096" by (rule div_le_mono) simp
  ultimately have "unat (drop_bit 12 (addr + l + 4096 - 1) - drop_bit 12 addr) = (unat addr + unat l + 4095) div 4096 - unat addr div 4096"
    by (simp add: unat_sub_if' unat_drop_bit)
  moreover have "unat addr div 4096 \<le> (unat addr + k) div 4096" by (rule div_le_mono) simp
  moreover have "(unat addr + k) div 4096 < (unat addr + unat l + 4095) div 4096"
    using div_le_mono [of "unat addr + k + 4096" "unat addr + unat l + 4095" 4096] assms(3) by simp
  ultimately show ?thesis by (simp add: logged_def unat_drop_bit)
qed

text \<open>C35: A mapped range. \<^verbatim>\<open>cpu_physical_memory_map\<close> gives a pointer for the first bytes of the range that was asked for, up to the next 1 MB boundary: each byte from the pointer on stands for the
  guest address it should, or is not backed, and the first byte is backed. While modified pages are tracked, every page of the range has been reported to the hypervisor. Only the first page of the range has been checked: behind it the
  pointer may lead to unmapped pages.\<close>

theorem memory_map_range:
  assumes "foreign_bulk bulk" "mc_reach bulk s" "unat addr < 2 ^ 52" "cpu_physical_memory_map bulk addr plen (m, s) = Inr (p, len, m', s')" "p \<noteq> 0"
  shows "unat len = min (unat plen) (MCACHE_BUCKET_SIZE - unat addr mod MCACHE_BUCKET_SIZE)
    \<and> guest_at (mmaps s') p = Some (unat addr)
    \<and> (\<forall>k < unat len. guest_at (mmaps s') (p + k) \<in> {None, Some (unat addr + k)})
    \<and> (xen_logdirty_enable m \<longrightarrow> (\<exists>w. modified m' = modified m @ [w] \<and> (\<forall>k < unat len. logged w ((unat addr + k) div 4096))))"
proof -
  let ?l = "0x100000 - (addr AND (0x100000 - 1))"
  let ?w = "(drop_bit TARGET_PAGE_BITS addr, drop_bit TARGET_PAGE_BITS (addr + ?l + 4096 - 1) - drop_bit TARGET_PAGE_BITS addr)"
  have i: "mc_inv s" "last_ok s" using reach_inv [OF assms(1,2)] by simp_all
  have c: "qemu_map_cache bulk addr 1 s = Inr (p, s')" "len = (if plen > ?l then ?l else plen)"
    "m' = (if xen_logdirty_enable m then m\<lparr>modified := modified m @ [?w]\<rparr> else m)"
    using assms(4) unfolding cpu_physical_memory_map_def prod.case Let_def res_bind_Inr_iff by (auto split: prod.splits)
  have a: "answered addr 1 s (p, s')" using lookup_ends [OF assms(1) i, of addr 1] c(1) by simp
  then obtain e where e: "live (mmaps s') e" "paddr_index e = drop_bit 20 addr" "p = vaddr_base e + unat addr mod MCACHE_BUCKET_SIZE"
    using assms(5) by (auto simp: answered_def)
  have ok: "maps_ok (mmaps s')" "guest_at (mmaps s') p = Some (unat addr)" using a assms(5) by (simp_all add: answered_def mc_inv_def)
  have len: "unat len = min (unat plen) (MCACHE_BUCKET_SIZE - unat addr mod MCACHE_BUCKET_SIZE)"
    unfolding c(2) bucket_rest [OF assms(3), symmetric] by (simp add: word_less_nat_alt min_def)
  have "guest_at (mmaps s') (p + k) \<in> {None, Some (unat addr + k)}" if "k < unat len" for k
    unfolding e(3) using that unfolding len by (intro live_range [OF ok(1) e(1,2) _ assms(3)]) linarith
  moreover have "logged ?w ((unat addr + k) div 4096)" if "k < unat len" for k
    using that unfolding len bucket_rest [OF assms(3), symmetric] by (intro rest_logged [OF assms(3)]) simp
  ultimately show ?thesis using len ok(2) c(3) by auto
qed

theorem memory_map_range_witness:
  "\<exists>p len m' s'. cpu_physical_memory_map bump_bulk 0 0x200000 (demo_mem\<lparr>xen_logdirty_enable := True\<rparr>, qemu_map_cache_init (\<lambda>_. True)) = Inr (p, len, m', s')
     \<and> unat len = MCACHE_BUCKET_SIZE \<and> (\<exists>w. modified m' = modified demo_mem @ [w] \<and> logged w 255)"
proof -
  let ?m = "demo_mem\<lparr>xen_logdirty_enable := True\<rparr>"
  obtain len m' s' where c: "cpu_physical_memory_map bump_bulk 0 0x200000 (?m, qemu_map_cache_init (\<lambda>_. True)) = Inr (0x200000, len, m', s')"
    unfolding cpu_physical_memory_map_def Let_def prod.case clash_init clash_1 by simp
  note r = memory_map_range [OF bump_bulk_ok(1) mc_reach.start _ c]
  have "unat len = MCACHE_BUCKET_SIZE" using r by simp
  moreover obtain w where "modified m' = modified demo_mem @ [w]" "\<forall>k < unat len. logged w ((unat (0 :: u64) + k) div 4096)" using r by auto
  moreover from this have "logged w ((unat (0 :: u64) + 0xff000) div 4096)" using calculation(1) by (elim allE [of _ "0xff000"]) simp
  ultimately show ?thesis using c by (intro exI [of _ "0x200000"] exI [of _ len] exI [of _ m'] exI [of _ s']) auto
qed

end
