(* ===== verification/Acpi.thy ===== *)
theory Acpi
  imports Piix_Pci
begin

text \<open>
  The ACPI controller of \<^verbatim>\<open>hw/piix4acpi.c\<close>: the general purpose event block with the SCI interrupt, the PCI hot-plug registers, the map of present processors, the power management control register
  with the sleep states, and the saved sections. The controller extends the PCI host of \<open>Piix_Pci\<close>. What it asks of others (the interrupt line, the hypervisor, the system, the pass-through code, the
  store) is appended to \<open>acpi_log\<close>. The addresses of the register blocks come from a header of the hypervisor and are the parameter \<open>acpi_env\<close>, as are the clock and the guest state the hypervisor
  returns. Extended battery management is taken to be off, as it is without its entry in the store.
\<close>

section \<open>State\<close>

datatype acpi_event = Sci bool | Power_on int | Power_off int | Dm_parameter string | Dm_state string
  | Domain_pause | Domain_unpause | S_state nat | System_reset bool | S3_resume | Reset_request | Shutdown_request | Mod_timer int

record gpe_state =
  gpe0_sts :: "u8 list"
  gpe0_en :: "u8 list"
  cpus_sts :: "u8 list"
  sci_asserted :: u8
  gpe0_blk_address :: u32
  gpe0_blk_half_len :: u32

record php_devfn =
  php_status :: "u8 list"
  plug_evt :: u8
  plug_devfn :: u8

record acpi_host = pci_host +
  gpe :: gpe_state
  php :: php_devfn
  pm_dev :: nat
  pm1_control :: u16
  pm1a_evt_blk_address :: u32
  vcpus :: int
  acpi_log :: "acpi_event list"

datatype hvm_record = Hvm_end | Hvm_pmtimer u16 | Hvm_rtc "nat \<Rightarrow> u8" | Hvm_other

record acpi_env =
  PM1A_EVT_BLK_ADDRESS_V0 :: u32
  PM1A_EVT_BLK_ADDRESS_V1 :: u32
  GPE0_BLK_ADDRESS_V0 :: u32
  GPE0_BLK_LEN_V0 :: nat
  GPE0_BLK_ADDRESS_V1 :: u32
  GPE0_BLK_LEN_V1 :: nat
  hvm_context :: "hvm_record list option"
  vm_clock_ns :: int
  vcpu_avail :: "nat \<Rightarrow> u8"

abbreviation (input) "ACPI_PHP_IO_ADDR \<equiv> (0x10c0::u32)"
abbreviation (input) "PHP_EVT_ADD \<equiv> (0::u8)"
abbreviation (input) "PHP_EVT_REMOVE \<equiv> (3::u8)"
abbreviation (input) "ACPI_PHP_GPE_BIT \<equiv> (3::nat)"
abbreviation (input) "NR_PHP_SLOT_REG \<equiv> (128::nat)"
abbreviation (input) "PROC_BASE \<equiv> (0xaf00::u32)"
abbreviation (input) "SLP_EN \<equiv> (0x2000::u16)"
abbreviation (input) "GBL_RLS \<equiv> (4::u16)"

definition acpi_emit :: "acpi_event \<Rightarrow> 'a acpi_host_scheme \<Rightarrow> 'a acpi_host_scheme" where
  "acpi_emit x m = m\<lparr>acpi_log := acpi_log m @ [x]\<rparr>"

text \<open>An array access of C.\<close>

definition arr_get :: "'a list \<Rightarrow> nat \<Rightarrow> 'a res" where
  "arr_get xs i = (if i < length xs then Inr (xs ! i) else Inl Bad_access)"

definition arr_set :: "'a list \<Rightarrow> nat \<Rightarrow> 'a \<Rightarrow> 'a list res" where
  "arr_set xs i v = (if i < length xs then Inr (xs[i := v]) else Inl Bad_access)"

section \<open>Hot-plug registers\<close>

definition php_reg_set :: "nat \<Rightarrow> u8 \<Rightarrow> php_devfn \<Rightarrow> php_devfn res" where
  "php_reg_set n val p =
     res_bind (arr_get (php_status p) (n div 2)) (\<lambda>reg.
       let val = val AND 0xf;
           reg = (if odd n then (reg AND 0x0f) OR push_bit 4 val else (reg AND 0xf0) OR val) in
       res_bind (arr_set (php_status p) (n div 2) reg) (\<lambda>st. Inr (p\<lparr>php_status := st\<rparr>)))"

definition php_reg_get :: "nat \<Rightarrow> php_devfn \<Rightarrow> u8 res" where
  "php_reg_get n p = res_bind (arr_get (php_status p) (n div 2)) (\<lambda>reg.
     Inr (if odd n then drop_bit 4 (reg AND 0xf0) else reg AND 0x0f))"

definition acpi_php_readb :: "u32 \<Rightarrow> php_devfn \<Rightarrow> u32 res" where
  "acpi_php_readb addr p =
     (if addr = ACPI_PHP_IO_ADDR then Inr (ucast (plug_evt p))
      else if addr = ACPI_PHP_IO_ADDR + 1 then Inr (ucast (plug_devfn p))
      else res_bind (arr_get (php_status p) (unat (addr - ACPI_PHP_IO_ADDR - 2))) (\<lambda>v. Inr (ucast v)))"

text \<open>A function of the slot that is ejected: no longer present, and powered off.\<close>

definition eject_function :: "nat \<Rightarrow> 'a acpi_host_scheme \<Rightarrow> 'a acpi_host_scheme res" where
  "eject_function i m = res_bind (php_reg_set i 0 (php m)) (\<lambda>p. Inr (acpi_emit (Power_off (int i)) (m\<lparr>php := p\<rparr>)))"

definition slot_function :: "nat \<Rightarrow> nat \<Rightarrow> nat" where
  "slot_function n func = (n div 8 mod 32) * 8 + func"

definition acpi_php_writeb :: "u32 \<Rightarrow> u32 \<Rightarrow> 'a acpi_host_scheme \<Rightarrow> 'a acpi_host_scheme res" where
  "acpi_php_writeb addr val m =
     (if addr = ACPI_PHP_IO_ADDR \<or> addr = ACPI_PHP_IO_ADDR + 1 then Inr m
      else if val = 0x01 \<or> val = 0x10 then
        let num = unat (addr - ACPI_PHP_IO_ADDR - 2); n = 2 * num + (if val = 0x01 then 0 else 1) in
        if plug_evt (php m) \<noteq> PHP_EVT_REMOVE \<or> unat (plug_devfn (php m)) \<noteq> n then Inr m
        else res_bind (res_fold eject_function (map (slot_function n) (rev [0..<8])) (m\<lparr>php := (php m)\<lparr>plug_evt := 0\<rparr>\<rparr>))
          (\<lambda>m. Inr (acpi_emit (Dm_state ''pci-removed'') m))
      else Inr m)"

section \<open>General purpose events\<close>

definition gpe_sts_read :: "u32 \<Rightarrow> gpe_state \<Rightarrow> u32 res" where
  "gpe_sts_read addr g = res_bind (arr_get (gpe0_sts g) (unat (addr - gpe0_blk_address g))) (\<lambda>v. Inr (ucast v))"

definition gpe_sts_write :: "u32 \<Rightarrow> u32 \<Rightarrow> 'a acpi_host_scheme \<Rightarrow> 'a acpi_host_scheme res" where
  "gpe_sts_write addr val m =
     (let g = gpe m; i = unat (addr - gpe0_blk_address g) in
      res_bind (arr_get (gpe0_sts g) 0) (\<lambda>first.
      res_bind (arr_get (gpe0_sts g) i) (\<lambda>old.
      res_bind (arr_set (gpe0_sts g) i (old AND NOT (ucast val))) (\<lambda>sts.
      let m = m\<lparr>gpe := g\<lparr>gpe0_sts := sts\<rparr>\<rparr> in
      Inr (if sci_asserted g \<noteq> 0 \<and> bit first ACPI_PHP_GPE_BIT \<and> \<not> bit (sts ! 0) ACPI_PHP_GPE_BIT then acpi_emit (Sci False) m else m)))))"

definition gpe_en_read :: "u32 \<Rightarrow> gpe_state \<Rightarrow> u32 res" where
  "gpe_en_read addr g = res_bind (arr_get (gpe0_en g) (unat (addr - (gpe0_blk_address g + gpe0_blk_half_len g)))) (\<lambda>v. Inr (ucast v))"

definition gpe_en_write :: "u32 \<Rightarrow> u32 \<Rightarrow> 'a acpi_host_scheme \<Rightarrow> 'a acpi_host_scheme res" where
  "gpe_en_write addr val m =
     (let g = gpe m; i = unat (addr - (gpe0_blk_address g + gpe0_blk_half_len g)) in
      res_bind (arr_set (gpe0_en g) i (ucast val)) (\<lambda>en.
      let g = g\<lparr>gpe0_en := en\<rparr> in
      Inr (if sci_asserted g \<noteq> 0 \<and> i = ACPI_PHP_GPE_BIT div 8 \<and> \<not> bit val (ACPI_PHP_GPE_BIT mod 8)
           then acpi_emit (Sci False) (m\<lparr>gpe := g\<lparr>sci_asserted := 0\<rparr>\<rparr>) else m\<lparr>gpe := g\<rparr>)))"

definition gpe_cpus_readb :: "u32 \<Rightarrow> gpe_state \<Rightarrow> u32" where
  "gpe_cpus_readb addr g = (if PROC_BASE \<le> addr \<and> addr \<le> PROC_BASE + 31 then ucast (cpus_sts g ! unat (addr - PROC_BASE)) else 0)"

definition gpe_cpus_writeb :: "u32 \<Rightarrow> u32 \<Rightarrow> gpe_state \<Rightarrow> gpe_state" where
  "gpe_cpus_writeb addr val g = g"

definition acpi_sci_intr :: "'a acpi_host_scheme \<Rightarrow> 'a acpi_host_scheme res" where
  "acpi_sci_intr m = (let g = gpe m in
     res_bind (arr_get (gpe0_sts g) 0) (\<lambda>sts. res_bind (arr_get (gpe0_en g) 0) (\<lambda>en.
     Inr (if \<not> bit sts ACPI_PHP_GPE_BIT \<and> bit en ACPI_PHP_GPE_BIT
          then acpi_emit (Sci True) (m\<lparr>gpe := g\<lparr>gpe0_sts := (gpe0_sts g)[0 := sts OR push_bit ACPI_PHP_GPE_BIT 1], sci_asserted := 1\<rparr>\<rparr>) else m))))"

section \<open>Hot plug by the tools\<close>

definition acpi_php_del :: "int \<Rightarrow> 'a acpi_host_scheme \<Rightarrow> 'a acpi_host_scheme res" where
  "acpi_php_del n m =
     (if test_pci_devfn n (pcis m) < 0 then Inr m
      else if nat n mod 8 \<noteq> 0 then Inr m
      else acpi_sci_intr (m\<lparr>php := (php m)\<lparr>plug_evt := PHP_EVT_REMOVE, plug_devfn := of_int n\<rparr>\<rparr>))"

definition hex_digit :: "nat \<Rightarrow> char" where
  "hex_digit d = (''0123456789abcdef'' ! d)"

text \<open>The message for a number below \<open>-2\<close> is not initialised in the source; its length is taken all the same.\<close>

definition acpi_php_add :: "int \<Rightarrow> 'a acpi_host_scheme \<Rightarrow> 'a acpi_host_scheme res" where
  "acpi_php_add n m =
     (if n = - 1 then Inr (acpi_emit (Dm_parameter ''no free hotplug devfn'') m)
      else if n = - 2 then Inr (acpi_emit (Dm_parameter ''wrong bdf or vdevfn'') m)
      else if n < 0 then Inl Bad_access
      else
        let m = (if nat n mod 8 = 0 then m\<lparr>php := (php m)\<lparr>plug_evt := PHP_EVT_ADD, plug_devfn := of_int n\<rparr>\<rparr> else m) in
        res_bind (php_reg_set (nat n) 0xf (php m)) (\<lambda>p.
        let m = acpi_emit (Power_on n) (m\<lparr>php := p\<rparr>);
            m = acpi_emit (Dm_parameter (''0x'' @ [hex_digit (nat n div 16), hex_digit (nat n mod 16)])) m;
            m = acpi_emit (Dm_state ''pci-inserted'') m in
        if nat n mod 8 = 0 then acpi_sci_intr m else Inr m))"

section \<open>Processors\<close>

definition set_processor :: "bool \<Rightarrow> nat \<Rightarrow> gpe_state \<Rightarrow> (bool \<times> gpe_state) res" where
  "set_processor on cpu g =
     res_bind (arr_get (cpus_sts g) (cpu div 8)) (\<lambda>b.
       if bit b (cpu mod 8) = on then Inr (False, g)
       else res_bind (arr_get (gpe0_sts g) 0) (\<lambda>sts.
         Inr (True, g\<lparr>gpe0_sts := (gpe0_sts g)[0 := sts OR 4],
           cpus_sts := (cpus_sts g)[cpu div 8 := (if on then b OR push_bit (cpu mod 8) 1 else b AND NOT (push_bit (cpu mod 8) 1))]\<rparr>)))"

definition enable_processor :: "nat \<Rightarrow> gpe_state \<Rightarrow> (bool \<times> gpe_state) res" where
  "enable_processor = set_processor True"

definition disable_processor :: "nat \<Rightarrow> gpe_state \<Rightarrow> (bool \<times> gpe_state) res" where
  "disable_processor = set_processor False"

definition qemu_cpu_add_remove :: "int \<Rightarrow> bool \<Rightarrow> 'a acpi_host_scheme \<Rightarrow> (int \<times> 'a acpi_host_scheme) res" where
  "qemu_cpu_add_remove cpu on m =
     (if cpu < 0 \<or> cpu \<ge> vcpus m then Inr (- EINVAL, m)
      else res_bind (if on then enable_processor (nat cpu) (gpe m) else disable_processor (nat cpu) (gpe m)) (\<lambda>(dn, g).
        Inr (if dn then 1 else 0, m\<lparr>gpe := g\<rparr>)))"

definition qemu_cpu_notify :: "'a acpi_host_scheme \<Rightarrow> 'a acpi_host_scheme" where
  "qemu_cpu_notify m = (if gpe0_en (gpe m) ! 0 AND 4 \<noteq> 0 then acpi_emit (Sci False) (acpi_emit (Sci True) m) else m)"

section \<open>Waking by the real-time clock\<close>

definition unbcd :: "bool \<Rightarrow> int \<Rightarrow> int" where
  "unbcd coded val = (if \<not> coded then val else (val div 16) * 10 + val mod 16)"

function add_days :: "int \<Rightarrow> int" where
  "add_days w = (if w < 0 then add_days (w + 86400) else w)"
  by pat_completeness auto
termination by (relation "measure (\<lambda>w. nat (- w))") auto

function reduce_above :: "int \<Rightarrow> int \<Rightarrow> int" where
  "reduce_above step w = (if 0 < step \<and> w > step then reduce_above step (w - step) else w)"
  by pat_completeness auto
termination by (relation "measure (\<lambda>(step, w). nat w)") auto

text \<open>Seconds of the clock and of the alarm, from the registers of the real-time clock.\<close>

definition clock_hours :: "(nat \<Rightarrow> u8) \<Rightarrow> int" where
  "clock_hours r = unbcd (\<not> bit (r 0xb) 2) (uint (r 4 AND 0x7f)) + (if \<not> bit (r 0xb) 1 \<and> bit (r 4) 7 then 12 else 0)"

definition calculate_wait :: "(nat \<Rightarrow> u8) \<Rightarrow> int" where
  "calculate_wait r =
     (if \<not> bit (r 0xb) 5 then - 1
      else let bcd = \<not> bit (r 0xb) 2;
        cs = unbcd bcd (uint (r 0)); cm = unbcd bcd (uint (r 2)); ch = clock_hours r;
        now = cs + cm * 60 + ch * 3600;
        s = uint (r 1); mi = uint (r 3); h = uint (r 5);
        pm = (if \<not> bit (r 0xb) 1 \<and> bit (r 5) 7 then 43200 else 0);
        alarm = (if s < 0xc0 then unbcd bcd s else cs) + (if mi < 0xc0 then unbcd bcd mi * 60 else cm * 60)
          + (if h < 0xc0 then unbcd bcd (uint (r 5 AND 0x7f)) * 3600 + pm else ch * 3600);
        wait = add_days (alarm - now) in
      if h \<ge> 0xc0 then
        let wait = reduce_above 3600 wait in
        if mi \<ge> 0xc0 then let wait = reduce_above 60 wait in if s \<ge> 0xc0 then 0 else wait
        else if s \<ge> 0xc0 \<and> wait > cs then wait - cs else wait
      else
        let wait = (if mi \<ge> 0xc0 \<and> wait > cm * 60 then wait - cm * 60 else wait) in
        if s \<ge> 0xc0 \<and> wait > cs then wait - cs else wait)"

section \<open>Sleep states\<close>

text \<open>The records of the guest state up to its end: whether the clock may wake the guest, and when.\<close>

fun scan_context :: "hvm_record list \<Rightarrow> bool \<times> int \<Rightarrow> bool \<times> int" where
  "scan_context [] a = a"
| "scan_context (Hvm_end # rs) a = a"
| "scan_context (Hvm_pmtimer en # rs) (wake, wait) = scan_context rs (bit en 10, wait)"
| "scan_context (Hvm_rtc r # rs) (wake, wait) = scan_context rs (wake, calculate_wait r)"
| "scan_context (Hvm_other # rs) a = scan_context rs a"

definition wake_up :: "acpi_env \<Rightarrow> bool \<times> int" where
  "wake_up env = (case hvm_context env of None \<Rightarrow> (False, - 1) | Some rs \<Rightarrow> scan_context rs (False, - 1))"

abbreviation (input) "ticks_per_sec \<equiv> (1000000000::int)"

definition acpi_s3 :: "acpi_env \<Rightarrow> 'a acpi_host_scheme \<Rightarrow> 'a acpi_host_scheme" where
  "acpi_s3 env m =
     (let m = acpi_emit Domain_pause m; (wake, wait) = wake_up env;
          m = acpi_emit (S_state 3) (acpi_emit S3_resume (acpi_emit (System_reset True) m)) in
      if \<not> wake \<or> wait < 0 then acpi_emit Domain_unpause m
      else acpi_emit (Mod_timer (vm_clock_ns env + wait * ticks_per_sec)) m)"

definition acpi_s4 :: "acpi_env \<Rightarrow> 'a acpi_host_scheme \<Rightarrow> 'a acpi_host_scheme" where
  "acpi_s4 env m =
     (let m = acpi_emit Domain_pause m; (wake, wait) = wake_up env in
      if \<not> wake \<or> wait < 0 then acpi_emit Shutdown_request (acpi_emit Domain_unpause m)
      else acpi_emit Reset_request (acpi_emit (Mod_timer (vm_clock_ns env + wait * ticks_per_sec)) m))"

definition acpi_s5 :: "'a acpi_host_scheme \<Rightarrow> 'a acpi_host_scheme" where
  "acpi_s5 m = acpi_emit Shutdown_request m"

definition wake_from_s3 :: "'a acpi_host_scheme \<Rightarrow> 'a acpi_host_scheme" where
  "wake_from_s3 m = acpi_emit Domain_unpause (acpi_emit (S_state 0) m)"

definition wake_from_s4 :: "'a acpi_host_scheme \<Rightarrow> 'a acpi_host_scheme" where
  "wake_from_s4 m = acpi_emit Domain_unpause m"

definition sleep_type :: "'a acpi_host_scheme \<Rightarrow> nat" where
  "sleep_type m = unat (pm1_control m) div 1024 mod 8"

definition rtc_wake :: "'a acpi_host_scheme \<Rightarrow> 'a acpi_host_scheme" where
  "rtc_wake m = (if sleep_type m = 5 \<or> sleep_type m = 1 then wake_from_s3 m else if sleep_type m = 6 then wake_from_s4 m else m)"

definition acpi_shutdown :: "acpi_env \<Rightarrow> 'a acpi_host_scheme \<Rightarrow> 'a acpi_host_scheme" where
  "acpi_shutdown env m =
     (if sleep_type m = 5 \<or> sleep_type m = 1 then acpi_s3 env m
      else if sleep_type m = 6 then acpi_s4 env m
      else if sleep_type m = 7 \<or> sleep_type m = 0 then acpi_s5 m else m)"

definition acpiPm1Control_writeb :: "u32 \<Rightarrow> 'a acpi_host_scheme \<Rightarrow> 'a acpi_host_scheme" where
  "acpiPm1Control_writeb val m = m\<lparr>pm1_control := (pm1_control m AND 0xff00) OR ucast (val AND 0xff)\<rparr>"

definition acpiPm1Control_readb :: "'a acpi_host_scheme \<Rightarrow> u32" where
  "acpiPm1Control_readb m = ucast (ucast (pm1_control m AND NOT (GBL_RLS OR SLP_EN)) :: u8)"

definition acpiPm1ControlP1_writeb :: "acpi_env \<Rightarrow> u32 \<Rightarrow> 'a acpi_host_scheme \<Rightarrow> 'a acpi_host_scheme" where
  "acpiPm1ControlP1_writeb env val m =
     (let val = push_bit 8 val;
          m = m\<lparr>pm1_control := ((pm1_control m AND 0xff) OR ucast val) AND NOT SLP_EN\<rparr> in
      if bit val 13 then acpi_shutdown env m else m)"

definition acpiPm1ControlP1_readb :: "'a acpi_host_scheme \<Rightarrow> u32" where
  "acpiPm1ControlP1_readb m = ucast (ucast (drop_bit 8 (pm1_control m AND NOT (GBL_RLS OR SLP_EN))) :: u8)"

definition acpiPm1Control_writew :: "acpi_env \<Rightarrow> u32 \<Rightarrow> 'a acpi_host_scheme \<Rightarrow> 'a acpi_host_scheme" where
  "acpiPm1Control_writew env val m =
     (let m = m\<lparr>pm1_control := ucast val AND NOT SLP_EN\<rparr> in if bit val 13 then acpi_shutdown env m else m)"

definition acpiPm1Control_readw :: "'a acpi_host_scheme \<Rightarrow> u32" where
  "acpiPm1Control_readw m = ucast (pm1_control m AND NOT (GBL_RLS OR SLP_EN))"

section \<open>Ports and start-up\<close>

abbreviation (input) "ACPI_PM1_WRITEB \<equiv> (60::nat)"
abbreviation (input) "ACPI_PM1_READB \<equiv> (61::nat)"
abbreviation (input) "ACPI_PM1P1_WRITEB \<equiv> (62::nat)"
abbreviation (input) "ACPI_PM1P1_READB \<equiv> (63::nat)"
abbreviation (input) "ACPI_PM1_WRITEW \<equiv> (64::nat)"
abbreviation (input) "ACPI_PM1_READW \<equiv> (65::nat)"
abbreviation (input) "GPE_STS_READ \<equiv> (66::nat)"
abbreviation (input) "GPE_STS_WRITE \<equiv> (67::nat)"
abbreviation (input) "GPE_EN_READ \<equiv> (68::nat)"
abbreviation (input) "GPE_EN_WRITE \<equiv> (69::nat)"
abbreviation (input) "GPE_CPUS_READB \<equiv> (70::nat)"
abbreviation (input) "GPE_CPUS_WRITEB \<equiv> (71::nat)"
abbreviation (input) "ACPI_PHP_READB \<equiv> (72::nat)"
abbreviation (input) "ACPI_PHP_WRITEB \<equiv> (73::nat)"
abbreviation (input) "ACPI_DBG_WRITEB \<equiv> (74::nat)"

definition acpi_port_read :: "nat \<Rightarrow> u32 \<Rightarrow> 'a acpi_host_scheme \<Rightarrow> (u32 \<times> 'a acpi_host_scheme) res" where
  "acpi_port_read fn addr m =
     (let r = (if fn = ACPI_PM1_READB then Inr (acpiPm1Control_readb m)
        else if fn = ACPI_PM1P1_READB then Inr (acpiPm1ControlP1_readb m)
        else if fn = ACPI_PM1_READW then Inr (acpiPm1Control_readw m)
        else if fn = GPE_STS_READ then gpe_sts_read addr (gpe m)
        else if fn = GPE_EN_READ then gpe_en_read addr (gpe m)
        else if fn = GPE_CPUS_READB then Inr (gpe_cpus_readb addr (gpe m))
        else if fn = ACPI_PHP_READB then acpi_php_readb addr (php m)
        else Inl Bad_access) in
      res_bind r (\<lambda>v. Inr (v, m)))"

definition acpi_port_write :: "acpi_env \<Rightarrow> nat \<Rightarrow> u32 \<Rightarrow> u32 \<Rightarrow> 'a acpi_host_scheme \<Rightarrow> 'a acpi_host_scheme res" where
  "acpi_port_write env fn addr val m =
     (if fn = ACPI_PM1_WRITEB then Inr (acpiPm1Control_writeb val m)
      else if fn = ACPI_PM1P1_WRITEB then Inr (acpiPm1ControlP1_writeb env val m)
      else if fn = ACPI_PM1_WRITEW then Inr (acpiPm1Control_writew env val m)
      else if fn = GPE_STS_WRITE then gpe_sts_write addr val m
      else if fn = GPE_EN_WRITE then gpe_en_write addr val m
      else if fn = GPE_CPUS_WRITEB then Inr (m\<lparr>gpe := gpe_cpus_writeb addr val (gpe m)\<rparr>)
      else if fn = ACPI_PHP_WRITEB then acpi_php_writeb addr val m
      else if fn = ACPI_DBG_WRITEB then Inr m
      else Inl Bad_access)"

text \<open>The handlers are registered with the number of the structure they are called with: \<open>PM_OPAQUE\<close> for the PCI function, \<open>GPE_OPAQUE\<close> and \<open>PHP_OPAQUE\<close> for the two global ones.\<close>

abbreviation (input) "PM_OPAQUE \<equiv> (30::nat)"
abbreviation (input) "GPE_OPAQUE \<equiv> (31::nat)"
abbreviation (input) "PHP_OPAQUE \<equiv> (32::nat)"

definition acpi_map :: "int \<Rightarrow> 'a acpi_host_scheme \<Rightarrow> 'a acpi_host_scheme res" where
  "acpi_map addr m =
     res_bind (register_ioport_write (addr + 4) 1 1 ACPI_PM1_WRITEB PM_OPAQUE m) (\<lambda>m.
     res_bind (register_ioport_read (addr + 4) 1 1 ACPI_PM1_READB PM_OPAQUE m) (\<lambda>m.
     res_bind (register_ioport_write (addr + 5) 1 1 ACPI_PM1P1_WRITEB PM_OPAQUE m) (\<lambda>m.
     res_bind (register_ioport_read (addr + 5) 1 1 ACPI_PM1P1_READB PM_OPAQUE m) (\<lambda>m.
     res_bind (register_ioport_write (addr + 4) 2 2 ACPI_PM1_WRITEW PM_OPAQUE m) (\<lambda>m.
     register_ioport_read (addr + 4) 2 2 ACPI_PM1_READW PM_OPAQUE m)))))"

definition gpe_ports :: "gpe_state \<Rightarrow> 'a acpi_host_scheme \<Rightarrow> 'a acpi_host_scheme res" where
  "gpe_ports g m =
     (let a = sint (gpe0_blk_address g); n = sint (gpe0_blk_half_len g); b = sint (gpe0_blk_address g + gpe0_blk_half_len g) in
      res_bind (register_ioport_read a n 1 GPE_STS_READ GPE_OPAQUE m) (\<lambda>m.
      res_bind (register_ioport_read b n 1 GPE_EN_READ GPE_OPAQUE m) (\<lambda>m.
      res_bind (register_ioport_write a n 1 GPE_STS_WRITE GPE_OPAQUE m) (\<lambda>m.
      register_ioport_write b n 1 GPE_EN_WRITE GPE_OPAQUE m))))"

text \<open>The bytes of the map of processors that are present at start-up.\<close>

definition boot_cpus :: "acpi_env \<Rightarrow> int \<Rightarrow> u8 list res" where
  "boot_cpus env n = (let k = nat ((n + 7) div 8) in
     if k > 32 then Inl Bad_access else Inr (map (\<lambda>i. if i < k then vcpu_avail env i else 0) [0..<32]))"

definition gpe_acpi_init :: "acpi_env \<Rightarrow> 'a acpi_host_scheme \<Rightarrow> 'a acpi_host_scheme res" where
  "gpe_acpi_init env m =
     res_bind (boot_cpus env (vcpus m)) (\<lambda>cs.
     res_bind (register_ioport_read (uint PROC_BASE) 32 1 GPE_CPUS_READB GPE_OPAQUE m) (\<lambda>m.
     res_bind (register_ioport_write (uint PROC_BASE) 32 1 GPE_CPUS_WRITEB GPE_OPAQUE m) (\<lambda>m.
     let g = \<lparr>gpe0_sts = replicate (GPE0_BLK_LEN_V0 env div 2) 0, gpe0_en = replicate (GPE0_BLK_LEN_V0 env div 2) 0, cpus_sts = cs, sci_asserted = 0,
              gpe0_blk_address = GPE0_BLK_ADDRESS_V1 env, gpe0_blk_half_len = of_nat (GPE0_BLK_LEN_V1 env div 2)\<rparr> in
     gpe_ports g (m\<lparr>gpe := g\<rparr>))))"

definition mark_present :: "nat \<Rightarrow> 'a acpi_host_scheme \<Rightarrow> 'a acpi_host_scheme res" where
  "mark_present i m = (if test_pci_devfn (int i) (pcis m) \<noteq> 0 then res_bind (php_reg_set i 0xf (php m)) (\<lambda>p. Inr (m\<lparr>php := p\<rparr>)) else Inr m)"

definition php_devfn_init :: "'a acpi_host_scheme \<Rightarrow> 'a acpi_host_scheme res" where
  "php_devfn_init m =
     res_bind (res_fold mark_present [0..<256] (m\<lparr>php := \<lparr>php_status = replicate NR_PHP_SLOT_REG 0, plug_evt = 0, plug_devfn = 0\<rparr>\<rparr>)) (\<lambda>m.
     res_bind (register_ioport_read (uint ACPI_PHP_IO_ADDR) (int NR_PHP_SLOT_REG + 2) 1 ACPI_PHP_READB PHP_OPAQUE m) (\<lambda>m.
     register_ioport_write (uint ACPI_PHP_IO_ADDR) (int NR_PHP_SLOT_REG + 2) 1 ACPI_PHP_WRITEB PHP_OPAQUE m))"

definition pm_header :: "(nat \<Rightarrow> u8) \<Rightarrow> nat \<Rightarrow> u8" where
  "pm_header c = c(0x00 := 0x86, 0x01 := 0x80, 0x02 := 0x13, 0x03 := 0x71, 0x08 := 0x01, 0x09 := 0x00, 0x0a := 0x80, 0x0b := 0x06, 0x0e := 0x00,
     0x3d := 0x01, 0x40 := 0x41, 0x41 := 0x1f, 0x42 := 0x00, 0x43 := 0x00)"

definition piix4_pm_init :: "acpi_env \<Rightarrow> nat \<Rightarrow> int \<Rightarrow> 'a acpi_host_scheme \<Rightarrow> 'a acpi_host_scheme res" where
  "piix4_pm_init env b n m =
     res_bind (pci_register_device b ''PIIX4 ACPI'' n Pci_default_read Pci_default_write (pcis m)) (\<lambda>(r, s).
       case r of None \<Rightarrow> Inl Bad_access
       | Some h \<Rightarrow>
           let m = m\<lparr>pcis := upd_dev h (\<lambda>d. d\<lparr>config := pm_header (config d)\<rparr>) s, pm_dev := h, pm1_control := 1,
                 pm1a_evt_blk_address := PM1A_EVT_BLK_ADDRESS_V1 env\<rparr> in
           res_bind (acpi_map (uint (PM1A_EVT_BLK_ADDRESS_V1 env)) m) (\<lambda>m.
           res_bind (gpe_acpi_init env m) (\<lambda>m.
           res_bind (php_devfn_init m) (\<lambda>m.
           register_ioport_write 0xb044 4 1 ACPI_DBG_WRITEB PM_OPAQUE m))))"

section \<open>Saved sections\<close>

fun put_pairs :: "(u8 \<times> u8) list \<Rightarrow> qemu_file \<Rightarrow> qemu_file res" where
  "put_pairs [] f = Inr f"
| "put_pairs ((a, b) # xs) f = res_bind (qemu_put_8s a f) (\<lambda>f. res_bind (qemu_put_8s b f) (put_pairs xs))"

definition gpe_save :: "gpe_state \<Rightarrow> qemu_file \<Rightarrow> qemu_file res" where
  "gpe_save g f =
     res_bind (put_pairs (zip (gpe0_sts g) (gpe0_en g)) f) (\<lambda>f.
     res_bind (qemu_put_8s (sci_asserted g) f) (\<lambda>f.
     res_bind (qemu_put_be32 (gpe0_blk_address g) f) (\<lambda>f.
     qemu_put_be32 (gpe0_blk_half_len g) f)))"

fun get_pairs :: "nat \<Rightarrow> qemu_file \<Rightarrow> ((u8 \<times> u8) list \<times> qemu_file) res" where
  "get_pairs 0 f = Inr ([], f)"
| "get_pairs (Suc n) f = res_bind (qemu_get_byte f) (\<lambda>(a, f). res_bind (qemu_get_byte f) (\<lambda>(b, f).
     res_bind (get_pairs n f) (\<lambda>(xs, f). Inr ((a, b) # xs, f))))"

definition gpe_move :: "gpe_state \<Rightarrow> 'a acpi_host_scheme \<Rightarrow> 'a acpi_host_scheme res" where
  "gpe_move g m =
     (if gpe0_blk_address (gpe m) \<noteq> gpe0_blk_address g \<or> gpe0_blk_half_len (gpe m) \<noteq> gpe0_blk_half_len g
      then res_bind (isa_unassign_ioport (sint (gpe0_blk_address (gpe m))) (sint (gpe0_blk_half_len (gpe m) * 2)) (m\<lparr>gpe := g\<rparr>)) (gpe_ports g)
      else Inr (m\<lparr>gpe := g\<rparr>))"

definition gpe_load :: "acpi_env \<Rightarrow> int \<Rightarrow> 'a acpi_host_scheme \<Rightarrow> qemu_file \<Rightarrow> ((int \<times> 'a acpi_host_scheme) \<times> qemu_file) res" where
  "gpe_load env version m f =
     (if version > 2 then Inr ((- EINVAL, m), f)
      else res_bind (get_pairs (GPE0_BLK_LEN_V0 env div 2) f) (\<lambda>(xs, f).
        res_bind (qemu_get_byte f) (\<lambda>(sci, f).
        let g = (gpe m)\<lparr>gpe0_sts := map fst xs, gpe0_en := map snd xs, sci_asserted := sci\<rparr> in
        res_bind (if version \<le> 1 then Inr ((GPE0_BLK_ADDRESS_V0 env, of_nat (GPE0_BLK_LEN_V0 env div 2)), f)
          else res_bind (qemu_get_be32 f) (\<lambda>(a, f). res_bind (qemu_get_be32 f) (\<lambda>(l, f). Inr ((a, l), f)))) (\<lambda>((a, l), f).
        res_bind (gpe_move (g\<lparr>gpe0_blk_address := a, gpe0_blk_half_len := l\<rparr>) m) (\<lambda>m. Inr ((0, m), f))))))"

definition pci_devfn_save :: "php_devfn \<Rightarrow> qemu_file \<Rightarrow> qemu_file res" where
  "pci_devfn_save p f = res_bind (res_fold qemu_put_8s (php_status p) f) (\<lambda>f. res_bind (qemu_put_8s (plug_evt p) f) (qemu_put_8s (plug_devfn p)))"

fun get_bytes :: "nat \<Rightarrow> qemu_file \<Rightarrow> (u8 list \<times> qemu_file) res" where
  "get_bytes 0 f = Inr ([], f)"
| "get_bytes (Suc n) f = res_bind (qemu_get_byte f) (\<lambda>(a, f). res_bind (get_bytes n f) (\<lambda>(xs, f). Inr (a # xs, f)))"

definition pci_devfn_load :: "int \<Rightarrow> php_devfn \<Rightarrow> qemu_file \<Rightarrow> ((int \<times> php_devfn) \<times> qemu_file) res" where
  "pci_devfn_load version p f =
     (if version \<noteq> 1 then Inr ((- EINVAL, p), f)
      else res_bind (get_bytes NR_PHP_SLOT_REG f) (\<lambda>(st, f). res_bind (qemu_get_byte f) (\<lambda>(e, f). res_bind (qemu_get_byte f) (\<lambda>(d, f).
        Inr ((0, \<lparr>php_status = st, plug_evt = e, plug_devfn = d\<rparr>), f)))))"

definition pcislots_load_dummy :: "int \<Rightarrow> qemu_file \<Rightarrow> (int \<times> qemu_file) res" where
  "pcislots_load_dummy version f = (if version \<noteq> 1 then Inr (- EINVAL, f) else res_bind (get_bytes 34 f) (\<lambda>(_, f). Inr (0, f)))"

definition piix4acpi_save :: "'a acpi_host_scheme \<Rightarrow> qemu_file \<Rightarrow> qemu_file res" where
  "piix4acpi_save m f =
     res_bind (pci_device_save (devs (pcis m) ! pm_dev m) f) (\<lambda>f.
     res_bind (qemu_put_be16 (pm1_control m) f) (qemu_put_be32 (pm1a_evt_blk_address m)))"

definition pm1_move :: "u32 \<Rightarrow> 'a acpi_host_scheme \<Rightarrow> 'a acpi_host_scheme res" where
  "pm1_move a m =
     (if a \<noteq> pm1a_evt_blk_address m
      then res_bind (isa_unassign_ioport (sint (pm1a_evt_blk_address m + 4)) 2 (m\<lparr>pm1a_evt_blk_address := a\<rparr>)) (acpi_map (sint a))
      else Inr m)"

definition piix4acpi_load ::
  "acpi_env \<Rightarrow> ('a acpi_host_scheme, 'c) pci_code_scheme \<Rightarrow> u32 \<Rightarrow> int \<Rightarrow> 'a acpi_host_scheme \<Rightarrow> qemu_file \<Rightarrow> ((int \<times> 'a acpi_host_scheme) \<times> qemu_file) res" where
  "piix4acpi_load env c loadvm_version version m f =
     (if version > 3 then Inr ((- EINVAL, m), f)
      else res_bind (if loadvm_version > 1
          then res_bind (pci_device_load c loadvm_version (pm_dev m) (pcis m, m) f) (\<lambda>((r, s, m), f). Inr ((r, m\<lparr>pcis := s\<rparr>), f))
          else Inr ((0, m), f)) (\<lambda>((r, m), f).
        if r < 0 then Inr ((r, m), f)
        else res_bind (qemu_get_be16 f) (\<lambda>(v, f).
          let m = m\<lparr>pm1_control := v\<rparr> in
          res_bind (if version \<le> 2 then Inr (PM1A_EVT_BLK_ADDRESS_V0 env, f) else qemu_get_be32 f) (\<lambda>(a, f).
          res_bind (pm1_move a m) (\<lambda>m. Inr ((0, m), f))))))"

end
