(* ===== verification/Acpi_Guest.thy ===== *)
theory Acpi_Guest
  imports Acpi
begin

text \<open>
  What a guest and the tools can do with the ACPI controller: the interrupt line follows the event block, a guest ejects only what the tools asked it to, and the time until the alarm of the
  clock.
\<close>

section \<open>Well-formed states\<close>

definition gpe_wf :: "gpe_state \<Rightarrow> bool" where
  "gpe_wf g \<longleftrightarrow> gpe0_sts g \<noteq> [] \<and> length (gpe0_en g) = length (gpe0_sts g) \<and> unat (gpe0_blk_half_len g) = length (gpe0_sts g) \<and> length (cpus_sts g) = 32"

text \<open>The level of the interrupt line.\<close>

definition sci_line :: "acpi_event list \<Rightarrow> bool" where
  "sci_line l = foldl (\<lambda>b x. case x of Sci v \<Rightarrow> v | _ \<Rightarrow> b) False l"

definition hotplug_pending :: "gpe_state \<Rightarrow> bool" where
  "hotplug_pending g \<longleftrightarrow> bit (gpe0_sts g ! 0) ACPI_PHP_GPE_BIT \<and> bit (gpe0_en g ! 0) ACPI_PHP_GPE_BIT"

definition acpi_inv :: "'a acpi_host_scheme \<Rightarrow> bool" where
  "acpi_inv m \<longleftrightarrow> gpe_wf (gpe m) \<and> length (php_status (php m)) = NR_PHP_SLOT_REG
     \<and> (sci_line (acpi_log m) \<longrightarrow> hotplug_pending (gpe m) \<and> sci_asserted (gpe m) \<noteq> 0)"

lemma sci_line_snoc [simp]: "sci_line (l @ [x]) = (case x of Sci v \<Rightarrow> v | _ \<Rightarrow> sci_line l)"
  by (cases x) (simp_all add: sci_line_def)

lemma emit_simps [simp]:
  "gpe (acpi_emit x m) = gpe m" "php (acpi_emit x m) = php m" "sci_line (acpi_log (acpi_emit x m)) = (case x of Sci v \<Rightarrow> v | _ \<Rightarrow> sci_line (acpi_log m))" "pcis (acpi_emit x m) = pcis m" "vcpus (acpi_emit x m) = vcpus m"
  by (simp_all add: acpi_emit_def)

lemma arr_set_ok: "i < length xs \<Longrightarrow> arr_set xs i v = Inr (xs[i := v])" "i < length xs \<Longrightarrow> arr_get xs i = Inr (xs ! i)"
  by (simp_all add: arr_set_def arr_get_def)

lemma php_set_ok:
  assumes "length (php_status p) = NR_PHP_SLOT_REG" "n < 256"
  shows "returns (\<lambda>p'. length (php_status p') = NR_PHP_SLOT_REG \<and> plug_evt p' = plug_evt p \<and> plug_devfn p' = plug_devfn p) (php_reg_set n v p)"
proof -
  have "n div 2 < length (php_status p)" using assms by (simp add: less_mult_imp_div_less)
  then show ?thesis using assms(1) by (simp add: php_reg_set_def arr_set_ok Let_def)
qed

lemma bit_nibbles: "bit (0xf :: u8) k \<longleftrightarrow> k < 4" "bit (0xf0 :: u8) k \<longleftrightarrow> 4 \<le> k \<and> k < 8"
proof -
  have "(0xf :: u8) = mask 4" "(0xf0 :: u8) = push_bit 4 (mask 4)" by (simp_all add: mask_numeral)
  then show "bit (0xf :: u8) k \<longleftrightarrow> k < 4" "bit (0xf0 :: u8) k \<longleftrightarrow> 4 \<le> k \<and> k < 8" by (auto simp only: bit_mask_iff bit_push_bit_iff) auto
qed

text \<open>A nibble reads back what was written, and the others are unchanged.\<close>

lemma php_reg_get_set:
  assumes "length (php_status p) = NR_PHP_SLOT_REG" "n < 256" "k < 256" "php_reg_set n v p = Inr p'"
  shows "php_reg_get k p' = (if k = n then Inr (v AND 0xf) else php_reg_get k p)"
proof -
  have l: "n div 2 < length (php_status p)" "k div 2 < length (php_status p)" using assms by (simp_all add: less_mult_imp_div_less)
  define r where "r = php_status p ! (n div 2)"
  define w where "w = (if odd n then (r AND 0x0f) OR push_bit 4 (v AND 0xf) else (r AND 0xf0) OR (v AND 0xf))"
  have p': "p' = p\<lparr>php_status := (php_status p)[n div 2 := w]\<rparr>"
    using assms(4) l(1) by (simp add: php_reg_set_def arr_set_ok Let_def w_def r_def split: if_splits)
  have nib: "drop_bit 4 (((r AND 0x0f) OR push_bit 4 (v AND 0xf)) AND 0xf0) = v AND 0xf" "((r AND 0x0f) OR push_bit 4 (v AND 0xf)) AND 0x0f = r AND 0x0f"
    "drop_bit 4 (((r AND 0xf0) OR (v AND 0xf)) AND 0xf0) = drop_bit 4 (r AND 0xf0)" "((r AND 0xf0) OR (v AND 0xf)) AND 0x0f = v AND 0xf"
    by (rule bit_word_eqI; unfold bit_drop_bit_eq bit_and_iff bit_or_iff bit_push_bit_iff bit_nibbles comp_def; auto simp: bit_nibbles)+
  show ?thesis
  proof (cases "k div 2 = n div 2")
    case True
    then have "k = n \<or> odd k \<noteq> odd n" by presburger
    then show ?thesis using l nib True by (auto simp: php_reg_get_def p' arr_set_ok w_def r_def)
  next
    case False
    then show ?thesis using l by (auto simp: php_reg_get_def p' arr_set_ok)
  qed
qed

section \<open>Steps\<close>

text \<open>The port handlers are called for the ports they are registered for.\<close>

definition registered_for :: "nat \<Rightarrow> u32 \<Rightarrow> 'a acpi_host_scheme \<Rightarrow> bool" where
  "registered_for fn addr m \<longleftrightarrow>
     (if fn = GPE_STS_READ \<or> fn = GPE_STS_WRITE then unat (addr - gpe0_blk_address (gpe m)) < unat (gpe0_blk_half_len (gpe m))
      else if fn = GPE_EN_READ \<or> fn = GPE_EN_WRITE then unat (addr - (gpe0_blk_address (gpe m) + gpe0_blk_half_len (gpe m))) < unat (gpe0_blk_half_len (gpe m))
      else if fn = ACPI_PHP_READB \<or> fn = ACPI_PHP_WRITEB then unat (addr - ACPI_PHP_IO_ADDR) < NR_PHP_SLOT_REG + 2
      else fn \<in> {60..65} \<union> {70, 71, 74})"

abbreviation (input) "ACPI_READERS \<equiv> {ACPI_PM1_READB, ACPI_PM1P1_READB, ACPI_PM1_READW, GPE_STS_READ, GPE_EN_READ, GPE_CPUS_READB, ACPI_PHP_READB}"
abbreviation (input) "ACPI_WRITERS \<equiv> {ACPI_PM1_WRITEB, ACPI_PM1P1_WRITEB, ACPI_PM1_WRITEW, GPE_STS_WRITE, GPE_EN_WRITE, GPE_CPUS_WRITEB, ACPI_PHP_WRITEB, ACPI_DBG_WRITEB}"

lemma php_num: "unat ((addr :: u32) - ACPI_PHP_IO_ADDR) < NR_PHP_SLOT_REG + 2 \<Longrightarrow> addr \<noteq> ACPI_PHP_IO_ADDR \<Longrightarrow> addr \<noteq> ACPI_PHP_IO_ADDR + 1 \<Longrightarrow>
  unat (addr - ACPI_PHP_IO_ADDR - 2) < NR_PHP_SLOT_REG"
proof -
  assume a: "unat (addr - ACPI_PHP_IO_ADDR) < NR_PHP_SLOT_REG + 2" "addr \<noteq> ACPI_PHP_IO_ADDR" "addr \<noteq> ACPI_PHP_IO_ADDR + 1"
  define d where "d = addr - ACPI_PHP_IO_ADDR"
  have d: "addr = ACPI_PHP_IO_ADDR + d" by (simp add: d_def)
  have "d \<noteq> 0" "d \<noteq> 1" using a(2,3) unfolding d by auto
  then have "unat d \<noteq> unat (0 :: u32)" "unat d \<noteq> unat (1 :: u32)" unfolding word_unat_eq_iff by simp_all
  then have "unat (2 :: u32) \<le> unat d" by simp
  then have "unat (d - 2) = unat d - 2" by (simp add: unat_sub_if')
  then show ?thesis using a(1) unfolding d_def by simp
qed

lemma acpi_read_returns:
  assumes "acpi_inv m" "fn \<in> ACPI_READERS" "registered_for fn addr m"
  shows "returns (\<lambda>(v, m'). m' = m) (acpi_port_read fn addr m)"
proof -
  have l: "gpe_wf (gpe m)" "length (php_status (php m)) = NR_PHP_SLOT_REG" using assms(1) by (simp_all add: acpi_inv_def)
  have "returns (\<lambda>_. True) (acpi_php_readb addr (php m))" if "unat (addr - ACPI_PHP_IO_ADDR) < NR_PHP_SLOT_REG + 2"
    using php_num [OF that] l(2) by (simp add: acpi_php_readb_def arr_set_ok)
  then show ?thesis using assms(2,3) l(1)
    by (auto simp: acpi_port_read_def registered_for_def gpe_wf_def gpe_sts_read_def gpe_en_read_def arr_set_ok returns_def)
qed

text \<open>Only the event block decides about the line: what leaves it and the line alone keeps the invariant.\<close>

lemma acpi_inv_cong:
  "gpe m' = gpe m \<Longrightarrow> length (php_status (php m')) = length (php_status (php m)) \<Longrightarrow> sci_line (acpi_log m') = sci_line (acpi_log m) \<Longrightarrow> acpi_inv m \<Longrightarrow> acpi_inv m'"
  by (simp add: acpi_inv_def)

lemma eject_ok:
  assumes "length (php_status (php m)) = NR_PHP_SLOT_REG" "\<forall>i \<in> set is. i < 256"
  shows "\<exists>p. res_fold eject_function is m = Inr (m\<lparr>php := p, acpi_log := acpi_log m @ map (\<lambda>i. Power_off (int i)) is\<rparr>)
    \<and> length (php_status p) = NR_PHP_SLOT_REG \<and> plug_evt p = plug_evt (php m) \<and> plug_devfn p = plug_devfn (php m)
    \<and> (\<forall>k < 256. php_reg_get k p = (if k \<in> set is then Inr 0 else php_reg_get k (php m)))"
  using assms
proof (induction "is" arbitrary: m)
  case (Cons i "is")
  obtain p where p: "php_reg_set i 0 (php m) = Inr p" "length (php_status p) = NR_PHP_SLOT_REG" "plug_evt p = plug_evt (php m)" "plug_devfn p = plug_devfn (php m)"
    using php_set_ok [OF Cons.prems(1), of i 0] Cons.prems(2) by (auto simp: returns_def)
  have g: "\<forall>k < 256. php_reg_get k p = (if k = i then Inr 0 else php_reg_get k (php m))" using php_reg_get_set [OF Cons.prems(1) _ _ p(1)] Cons.prems(2) by simp
  let ?m = "acpi_emit (Power_off (int i)) (m\<lparr>php := p\<rparr>)"
  obtain q where q: "res_fold eject_function is ?m = Inr (?m\<lparr>php := q, acpi_log := acpi_log ?m @ map (\<lambda>i. Power_off (int i)) is\<rparr>)"
    "length (php_status q) = NR_PHP_SLOT_REG" "plug_evt q = plug_evt p" "plug_devfn q = plug_devfn p"
    "\<forall>k < 256. php_reg_get k q = (if k \<in> set is then Inr 0 else php_reg_get k p)"
    using Cons.IH [of ?m] p(2) Cons.prems(2) by auto
  have "res_fold eject_function (i # is) m = Inr (m\<lparr>php := q, acpi_log := acpi_log m @ map (\<lambda>i. Power_off (int i)) (i # is)\<rparr>)"
    using p(1) q(1) by (simp add: eject_function_def acpi_emit_def)
  then show ?case using p(3,4) q(2-5) g by (intro exI [of _ q]) auto
next
  case Nil
  have "m = m\<lparr>php := php m, acpi_log := acpi_log m @ map (\<lambda>i. Power_off (int i)) []\<rparr>" by simp
  with Nil(1) show ?case by (intro exI [of _ "php m"]) (simp only: res_fold.simps list.set empty_iff if_False simp_thms)
qed

lemma slot_function_less: "func < 8 \<Longrightarrow> slot_function n func < 256"
  using mod_less_divisor [of 32 "n div 8"] unfolding slot_function_def by linarith

lemma sci_line_off: "sci_line (l @ map (\<lambda>i. Power_off (int i)) is) = sci_line l"
  by (induction "is" arbitrary: l) (simp_all add: sci_line_def)

definition offs :: "'a acpi_host_scheme \<Rightarrow> acpi_event list" where
  "offs m = filter (\<lambda>x. case x of Power_off _ \<Rightarrow> True | _ \<Rightarrow> False) (acpi_log m)"

text \<open>What an access of the guest does to the slots: nothing, or it ejects the slot it was asked to eject and the request is done.\<close>

definition slot_offs :: "nat \<Rightarrow> acpi_event list" where
  "slot_offs n = map (\<lambda>f. Power_off (int (slot_function n f))) (rev [0..<8])"

definition ejects :: "'a acpi_host_scheme \<Rightarrow> 'a acpi_host_scheme \<Rightarrow> bool" where
  "ejects m m' \<longleftrightarrow> offs m' = offs m \<and> php m' = php m
     \<or> plug_evt (php m) = PHP_EVT_REMOVE \<and> plug_evt (php m') = 0 \<and> offs m' = offs m @ slot_offs (unat (plug_devfn (php m)))
       \<and> (\<forall>k < 256. php_reg_get k (php m') = (if k div 8 = unat (plug_devfn (php m)) div 8 then Inr 0 else php_reg_get k (php m)))"

lemma offs_emit [simp]: "offs (acpi_emit x m) = offs m @ (case x of Power_off i \<Rightarrow> [x] | _ \<Rightarrow> [])"
  by (cases x) (simp_all add: offs_def acpi_emit_def)

lemma offs_upd [simp]: "offs (m\<lparr>gpe := g\<rparr>) = offs m" "offs (m\<lparr>php := p\<rparr>) = offs m" "offs (m\<lparr>pm1_control := v\<rparr>) = offs m"
  by (simp_all add: offs_def)

lemma ejects_same: "offs m' = offs m \<Longrightarrow> php m' = php m \<Longrightarrow> ejects m m'"
  by (simp add: ejects_def)

lemma sts_write_ok:
  assumes "acpi_inv m" "registered_for GPE_STS_WRITE addr m"
  shows "returns (\<lambda>m'. acpi_inv m' \<and> ejects m m') (gpe_sts_write addr val m)"
proof -
  let ?g = "gpe m" and ?i = "unat (addr - gpe0_blk_address (gpe m))"
  let ?sts = "(gpe0_sts ?g)[?i := gpe0_sts ?g ! ?i AND NOT (ucast val)]"
  have w: "gpe_wf ?g" "length (php_status (php m)) = NR_PHP_SLOT_REG" "sci_line (acpi_log m) \<Longrightarrow> hotplug_pending ?g \<and> sci_asserted ?g \<noteq> 0"
    using assms(1) by (simp_all add: acpi_inv_def)
  have i: "?i < length (gpe0_sts ?g)" "0 < length (gpe0_sts ?g)" using assms(2) w(1) by (auto simp: registered_for_def gpe_wf_def)
  have g: "gpe_wf (?g\<lparr>gpe0_sts := ?sts\<rparr>)" using w(1) by (auto simp: gpe_wf_def)
  show ?thesis
  proof (cases "sci_asserted ?g \<noteq> 0 \<and> bit (gpe0_sts ?g ! 0) 3 \<and> \<not> bit (?sts ! 0) 3")
    case True
    then show ?thesis using g w(2) i by (simp add: gpe_sts_write_def Let_def arr_set_ok acpi_inv_def ejects_def)
  next
    case False
    then have "sci_line (acpi_log m) \<Longrightarrow> hotplug_pending (?g\<lparr>gpe0_sts := ?sts\<rparr>)" using w(3) by (auto simp: hotplug_pending_def)
    then show ?thesis using False g w(2,3) i by (simp add: gpe_sts_write_def Let_def arr_set_ok acpi_inv_def ejects_def)
  qed
qed

lemma en_write_ok:
  assumes "acpi_inv m" "registered_for GPE_EN_WRITE addr m"
  shows "returns (\<lambda>m'. acpi_inv m' \<and> ejects m m') (gpe_en_write addr val m)"
proof -
  let ?g = "gpe m" and ?i = "unat (addr - (gpe0_blk_address (gpe m) + gpe0_blk_half_len (gpe m)))"
  let ?en = "(gpe0_en ?g)[?i := ucast val]"
  have w: "gpe_wf ?g" "length (php_status (php m)) = NR_PHP_SLOT_REG" "sci_line (acpi_log m) \<Longrightarrow> hotplug_pending ?g \<and> sci_asserted ?g \<noteq> 0"
    using assms(1) by (simp_all add: acpi_inv_def)
  have i: "?i < length (gpe0_en ?g)" "0 < length (gpe0_en ?g)" using assms(2) w(1) by (auto simp: registered_for_def gpe_wf_def)
  have g: "gpe_wf (?g\<lparr>gpe0_en := ?en\<rparr>)" "gpe_wf (?g\<lparr>gpe0_en := ?en, sci_asserted := 0\<rparr>)" using w(1) by (auto simp: gpe_wf_def)
  have b: "bit (ucast val :: u8) 3 = bit val 3" by (simp add: bit_simps)
  show ?thesis
  proof (cases "sci_asserted ?g \<noteq> 0 \<and> ?i = 0 \<and> \<not> bit val 3")
    case True
    then show ?thesis using g w(2) i by (simp add: gpe_en_write_def Let_def arr_set_ok acpi_inv_def ejects_def)
  next
    case False
    then have "sci_line (acpi_log m) \<Longrightarrow> hotplug_pending (?g\<lparr>gpe0_en := ?en\<rparr>)" using w(3) i b by (cases "?i = 0") (auto simp: hotplug_pending_def)
    then show ?thesis using False g w(2,3) i by (auto simp: gpe_en_write_def Let_def arr_set_ok acpi_inv_def ejects_def)
  qed
qed

lemma php_write_ok:
  assumes "acpi_inv m" "registered_for ACPI_PHP_WRITEB addr m"
  shows "returns (\<lambda>m'. acpi_inv m' \<and> ejects m m') (acpi_php_writeb addr val m)"
proof (cases "addr = ACPI_PHP_IO_ADDR \<or> addr = ACPI_PHP_IO_ADDR + 1 \<or> \<not> (val = 0x01 \<or> val = 0x10)")
  case True
  then show ?thesis using assms(1) by (auto simp: acpi_php_writeb_def ejects_def)
next
  case False
  define n where "n = 2 * unat (addr - ACPI_PHP_IO_ADDR - 2) + (if val = 0x01 then 0 else 1)"
  let ?m = "m\<lparr>php := (php m)\<lparr>plug_evt := 0\<rparr>\<rparr>" and ?is = "map (slot_function n) (rev [0..<8])"
  have w: "length (php_status (php m)) = NR_PHP_SLOT_REG" using assms(1) by (simp add: acpi_inv_def)
  show ?thesis
  proof (cases "plug_evt (php m) \<noteq> PHP_EVT_REMOVE \<or> unat (plug_devfn (php m)) \<noteq> n")
    case True
    then have "acpi_php_writeb addr val m = Inr m" using False unfolding acpi_php_writeb_def Let_def n_def [symmetric] by auto
    then show ?thesis using assms(1) by (simp add: ejects_def)
  next
    case rem: False
    then have n: "n < 256" using unat_bound [of "plug_devfn (php m)"] by simp
    have "\<forall>i \<in> set ?is. i < 256" using slot_function_less by auto
    then obtain p where p: "res_fold eject_function ?is ?m = Inr (?m\<lparr>php := p, acpi_log := acpi_log ?m @ map (\<lambda>i. Power_off (int i)) ?is\<rparr>)"
      "length (php_status p) = NR_PHP_SLOT_REG" "plug_evt p = 0" "\<forall>k < 256. php_reg_get k p = (if k \<in> set ?is then Inr 0 else php_reg_get k (php m))"
      using eject_ok [of ?m ?is] w by (auto simp: php_reg_get_def)
    have s: "k \<in> set ?is \<longleftrightarrow> k div 8 = n div 8" if "k < 256" for k
    proof -
      have "n div 8 mod 32 = n div 8" using n by (simp add: less_mult_imp_div_less)
      then have "k \<in> set ?is \<longleftrightarrow> n div 8 * 8 \<le> k \<and> k < 8 + n div 8 * 8" by (simp add: slot_function_def)
      moreover have "q * 8 \<le> k \<and> k < 8 + q * 8 \<longleftrightarrow> k div 8 = q" for q
        using div_nat_eqI [of 8 q k] div_mult_mod_eq [of k 8] mod_less_divisor [of 8 k] by auto
      ultimately show ?thesis by blast
    qed
    define m' where "m' = acpi_emit (Dm_state ''pci-removed'') (?m\<lparr>php := p, acpi_log := acpi_log ?m @ map (\<lambda>i. Power_off (int i)) ?is\<rparr>)"
    have c: "acpi_php_writeb addr val m = Inr m'"
      using False rem p(1) unfolding acpi_php_writeb_def Let_def n_def [symmetric] m'_def by auto
    have "filter (\<lambda>x. case x of Power_off _ \<Rightarrow> True | _ \<Rightarrow> False) (map (\<lambda>i. Power_off (int i)) xs) = map (\<lambda>i. Power_off (int i)) xs" for xs :: "nat list"
      by (induction xs) simp_all
    then have "offs m' = offs m @ slot_offs n" by (simp add: m'_def acpi_emit_def offs_def slot_offs_def comp_def)
    then have "ejects m m'" using rem p(3,4) s by (simp add: ejects_def m'_def)
    moreover have "acpi_inv m'" using assms(1) p(2) sci_line_off [of "acpi_log m" ?is] by (simp add: acpi_inv_def m'_def)
    ultimately show ?thesis using c by simp
  qed
qed

lemma pm_write_keeps:
  "gpe (acpi_shutdown env m) = gpe m" "php (acpi_shutdown env m) = php m" "offs (acpi_shutdown env m) = offs m" "sci_line (acpi_log (acpi_shutdown env m)) = sci_line (acpi_log m)"
  by (simp_all add: acpi_shutdown_def acpi_s3_def acpi_s4_def acpi_s5_def Let_def split: prod.splits)

lemma acpi_write_ok:
  assumes "acpi_inv m" "fn \<in> ACPI_WRITERS" "registered_for fn addr m"
  shows "returns (\<lambda>m'. acpi_inv m' \<and> ejects m m') (acpi_port_write env fn addr val m)"
proof -
  have keep: "acpi_inv m' \<and> ejects m m'" if "gpe m' = gpe m" "php m' = php m" "offs m' = offs m" "sci_line (acpi_log m') = sci_line (acpi_log m)" for m'
    using that assms(1) by (simp add: acpi_inv_def ejects_def)
  have pm: "acpi_inv m' \<and> ejects m m'" if "m' = acpiPm1Control_writeb val m \<or> m' = acpiPm1ControlP1_writeb env val m \<or> m' = acpiPm1Control_writew env val m" for m'
    using that by (intro keep) (auto simp: acpiPm1Control_writeb_def acpiPm1ControlP1_writeb_def acpiPm1Control_writew_def Let_def pm_write_keeps split: if_splits)
  have "acpi_inv (m\<lparr>gpe := gpe_cpus_writeb addr val (gpe m)\<rparr>) \<and> ejects m (m\<lparr>gpe := gpe_cpus_writeb addr val (gpe m)\<rparr>)" "acpi_inv m \<and> ejects m m"
    by (intro keep; simp add: gpe_cpus_writeb_def)+
  with assms(2) show ?thesis
    using pm sts_write_ok [OF assms(1), of addr val] en_write_ok [OF assms(1), of addr val] php_write_ok [OF assms(1), of addr val] assms(3)
    by (elim insertE emptyE) (simp_all add: acpi_port_write_def)
qed

section \<open>The tools\<close>

lemma sci_intr_ok:
  assumes "acpi_inv m"
  shows "returns acpi_inv (acpi_sci_intr m)"
proof -
  have w: "gpe_wf (gpe m)" "length (php_status (php m)) = NR_PHP_SLOT_REG" using assms by (simp_all add: acpi_inv_def)
  then have l: "0 < length (gpe0_sts (gpe m))" "0 < length (gpe0_en (gpe m))" by (auto simp: gpe_wf_def)
  have "bit (x OR push_bit 3 1) 3" for x :: u8 by (simp add: bit_or_iff bit_push_bit_iff)
  then show ?thesis using assms w l by (auto simp: acpi_sci_intr_def Let_def arr_set_ok acpi_inv_def hotplug_pending_def gpe_wf_def)
qed

lemma del_ok: "acpi_inv m \<Longrightarrow> returns acpi_inv (acpi_php_del n m)"
  using sci_intr_ok [of "m\<lparr>php := (php m)\<lparr>plug_evt := PHP_EVT_REMOVE, plug_devfn := of_int n\<rparr>\<rparr>"] by (simp add: acpi_php_del_def acpi_inv_def)

lemma add_ok:
  assumes "acpi_inv m" "- 2 \<le> n" "n < 256"
  shows "returns acpi_inv (acpi_php_add n m)"
proof (cases "n < 0")
  case True
  then have "n = - 1 \<or> n = - 2" using assms(2) by auto
  then show ?thesis using assms(1) by (auto simp: acpi_php_add_def acpi_inv_def)
next
  case False
  define m1 where "m1 = (if nat n mod 8 = 0 then m\<lparr>php := (php m)\<lparr>plug_evt := PHP_EVT_ADD, plug_devfn := of_int n\<rparr>\<rparr> else m)"
  have m1: "length (php_status (php m1)) = NR_PHP_SLOT_REG" "gpe m1 = gpe m" "acpi_log m1 = acpi_log m" using assms(1) by (simp_all add: m1_def acpi_inv_def)
  obtain p where p: "php_reg_set (nat n) 0xf (php m1) = Inr p" "length (php_status p) = NR_PHP_SLOT_REG"
    using php_set_ok [OF m1(1), of "nat n" "0xf"] assms(3) False by (auto simp: returns_def nat_less_iff)
  define m2 where "m2 = acpi_emit (Dm_state ''pci-inserted'') (acpi_emit (Dm_parameter (''0x'' @ [hex_digit (nat n div 16), hex_digit (nat n mod 16)]))
    (acpi_emit (Power_on n) (m1\<lparr>php := p\<rparr>)))"
  have "acpi_inv m2" using assms(1) p(2) m1(2,3) by (simp add: acpi_inv_def m2_def)
  moreover have "acpi_php_add n m = (if nat n mod 8 = 0 then acpi_sci_intr m2 else Inr m2)"
    unfolding acpi_php_add_def Let_def m1_def [symmetric] p(1) m2_def using False p(1) by simp
  ultimately show ?thesis using sci_intr_ok [of m2] by simp
qed

lemma cpu_ok:
  assumes "acpi_inv m" "vcpus m \<le> 256"
  shows "returns (\<lambda>(r, m'). acpi_inv m') (qemu_cpu_add_remove cpu on m)"
proof (cases "cpu < 0 \<or> cpu \<ge> vcpus m")
  case False
  have w: "gpe_wf (gpe m)" using assms(1) by (simp add: acpi_inv_def)
  have c: "nat cpu div 8 < length (cpus_sts (gpe m))" "0 < length (gpe0_sts (gpe m))" using False assms(2) w by (auto simp: gpe_wf_def)
  have b: "bit (x OR 4) 3 = bit x 3" for x :: u8 by (simp add: bit_or_iff bit_numeral_rec numeral_3_eq_3)
  have "returns (\<lambda>(r, g). gpe_wf g \<and> (hotplug_pending (gpe m) \<longrightarrow> hotplug_pending g) \<and> sci_asserted g = sci_asserted (gpe m)) (set_processor on (nat cpu) (gpe m))"
    using w c b by (auto simp: set_processor_def arr_set_ok gpe_wf_def hotplug_pending_def)
  then obtain r g where g: "set_processor on (nat cpu) (gpe m) = Inr (r, g)" "gpe_wf g" "hotplug_pending (gpe m) \<Longrightarrow> hotplug_pending g" "sci_asserted g = sci_asserted (gpe m)"
    by (auto simp: returns_def)
  then have "(if on then enable_processor (nat cpu) (gpe m) else disable_processor (nat cpu) (gpe m)) = Inr (r, g)"
    by (cases on) (simp_all add: enable_processor_def disable_processor_def)
  then show ?thesis using assms(1) False g(2-4) unfolding qemu_cpu_add_remove_def by (simp add: acpi_inv_def)
qed (use assms in \<open>simp add: qemu_cpu_add_remove_def\<close>)

lemma notify_ok: "acpi_inv m \<Longrightarrow> acpi_inv (qemu_cpu_notify m)"
  by (simp add: qemu_cpu_notify_def acpi_inv_def)

section \<open>Start-up\<close>

definition same_acpi :: "'a acpi_host_scheme \<Rightarrow> 'a acpi_host_scheme \<Rightarrow> bool" where
  "same_acpi m m' \<longleftrightarrow> gpe m' = gpe m \<and> php m' = php m \<and> acpi_log m' = acpi_log m \<and> vcpus m' = vcpus m \<and> pcis m' = pcis m"

lemma register_loop_keeps:
  fixes m m' :: "'a acpi_host_scheme"
  shows "register_loop f op step i stop m = Inr m' \<Longrightarrow> same_acpi m m'"
proof (induction f op step i stop m rule: register_loop.induct)
  case (1 f op step i stop m)
  have u: "same_acpi m (upd_port a f m)" for a by (simp add: upd_port_def Let_def same_acpi_def)
  show ?case
  proof (cases "i < stop \<and> 0 < step")
    case True
    then obtain x where x: "register_one f op i m = Inr x" "register_loop f op step (i + step) stop x = Inr m'"
      using 1(2) by (subst (asm) register_loop.simps) (auto simp: res_bind_Inr_iff)
    then have "x = upd_port (nat i) f m" by (auto simp: register_one_def res_bind_Inr_iff split: if_splits)
    then show ?thesis using 1(1) [OF True x(2)] u [of "nat i"] by (simp add: same_acpi_def)
  next
    case False
    then show ?thesis using 1(2) by (subst (asm) register_loop.simps) (auto simp: same_acpi_def)
  qed
qed

lemma register_keeps:
  fixes m m' :: "'a acpi_host_scheme"
  shows "register_ioport_read start len sz fn op m = Inr m' \<Longrightarrow> same_acpi m m'" "register_ioport_write start len sz fn op m = Inr m' \<Longrightarrow> same_acpi m m'"
  using register_loop_keeps by (auto simp: register_ioport_read_def register_ioport_write_def split: option.splits)

lemma same_acpi_trans: "same_acpi m m' \<Longrightarrow> same_acpi m' m'' \<Longrightarrow> same_acpi m m''"
  by (simp add: same_acpi_def)

lemma mark_present_ok:
  "length (php_status (php m)) = NR_PHP_SLOT_REG \<Longrightarrow> i < 256 \<Longrightarrow>
    returns (\<lambda>m'. length (php_status (php m')) = NR_PHP_SLOT_REG \<and> gpe m' = gpe m \<and> acpi_log m' = acpi_log m \<and> vcpus m' = vcpus m) (mark_present i m)"
  using php_set_ok [of "php m" i "0xf"] by (auto simp: mark_present_def returns_def)

lemma gpe_ports_keeps: "gpe_ports g m = Inr m' \<Longrightarrow> same_acpi m m'"
  unfolding gpe_ports_def Let_def res_bind_Inr_iff by (auto dest!: register_keeps intro: same_acpi_trans)

lemma acpi_map_keeps: "acpi_map a m = Inr m' \<Longrightarrow> same_acpi m m'"
  unfolding acpi_map_def res_bind_Inr_iff by (auto dest!: register_keeps simp: same_acpi_def)

definition acpi_env_ok :: "acpi_env \<Rightarrow> bool" where
  "acpi_env_ok env \<longleftrightarrow> 2 \<le> GPE0_BLK_LEN_V0 env \<and> GPE0_BLK_LEN_V1 env = GPE0_BLK_LEN_V0 env \<and> GPE0_BLK_LEN_V0 env < 256"

lemma gpe_init_ok:
  assumes "acpi_env_ok env" "gpe_acpi_init env m = Inr m'"
  shows "gpe_wf (gpe m') \<and> php m' = php m \<and> acpi_log m' = acpi_log m \<and> vcpus m' = vcpus m \<and> vcpus m \<le> 256"
proof -
  obtain cs m1 m2 g where c: "boot_cpus env (vcpus m) = Inr cs" "register_ioport_read (uint PROC_BASE) 32 1 GPE_CPUS_READB GPE_OPAQUE m = Inr m1"
    "register_ioport_write (uint PROC_BASE) 32 1 GPE_CPUS_WRITEB GPE_OPAQUE m1 = Inr m2" "gpe_ports g (m2\<lparr>gpe := g\<rparr>) = Inr m'"
    "g = \<lparr>gpe0_sts = replicate (GPE0_BLK_LEN_V0 env div 2) 0, gpe0_en = replicate (GPE0_BLK_LEN_V0 env div 2) 0, cpus_sts = cs, sci_asserted = 0,
              gpe0_blk_address = GPE0_BLK_ADDRESS_V1 env, gpe0_blk_half_len = of_nat (GPE0_BLK_LEN_V1 env div 2)\<rparr>"
    using assms(2) unfolding gpe_acpi_init_def Let_def res_bind_Inr_iff by blast
  have cs: "length cs = 32" "vcpus m \<le> 256" using c(1) by (auto simp: boot_cpus_def Let_def split: if_splits)
  have "unat (of_nat (GPE0_BLK_LEN_V1 env div 2) :: u32) = GPE0_BLK_LEN_V0 env div 2" using assms(1) by (auto simp: acpi_env_ok_def unsigned_of_nat take_bit_eq_mod intro!: mod_less)
  then have "gpe_wf g" using assms(1) cs(1) by (auto simp: c(5) gpe_wf_def acpi_env_ok_def)
  then show ?thesis using register_keeps(1) [OF c(2)] register_keeps(2) [OF c(3)] gpe_ports_keeps [OF c(4)] cs(2) by (simp add: same_acpi_def)
qed

lemma php_init_ok:
  assumes "php_devfn_init m = Inr m'"
  shows "length (php_status (php m')) = NR_PHP_SLOT_REG \<and> gpe m' = gpe m \<and> acpi_log m' = acpi_log m \<and> vcpus m' = vcpus m"
proof -
  let ?m = "m\<lparr>php := \<lparr>php_status = replicate NR_PHP_SLOT_REG 0, plug_evt = 0, plug_devfn = 0\<rparr>\<rparr>"
  let ?P = "\<lambda>m'. length (php_status (php m')) = NR_PHP_SLOT_REG \<and> gpe m' = gpe m \<and> acpi_log m' = acpi_log m \<and> vcpus m' = vcpus m"
  have "returns ?P (res_fold mark_present [0..<256] ?m)"
  proof (rule returns_fold)
    fix x t assume "x \<in> set [0..<256]" "?P t"
    then show "returns ?P (mark_present x t)" using mark_present_ok [of t x] by simp
  qed simp
  then obtain m1 where m1: "res_fold mark_present [0..<256] ?m = Inr m1" "?P m1" by (auto simp: returns_def)
  then obtain m2 where "register_ioport_read (uint ACPI_PHP_IO_ADDR) (int NR_PHP_SLOT_REG + 2) 1 ACPI_PHP_READB PHP_OPAQUE m1 = Inr m2"
    "register_ioport_write (uint ACPI_PHP_IO_ADDR) (int NR_PHP_SLOT_REG + 2) 1 ACPI_PHP_WRITEB PHP_OPAQUE m2 = Inr m'"
    using assms unfolding php_devfn_init_def res_bind_Inr_iff by auto
  then show ?thesis using m1(2) register_keeps(1) register_keeps(2) unfolding same_acpi_def by metis
qed

lemma pm_init_inv:
  assumes "acpi_env_ok env" "piix4_pm_init env b n m = Inr m'" "acpi_log m = []"
  shows "acpi_inv m' \<and> vcpus m' \<le> 256"
proof -
  obtain s h t m1 m2 m3 where c: "t = m\<lparr>pcis := s, pm_dev := h, pm1_control := 1, pm1a_evt_blk_address := PM1A_EVT_BLK_ADDRESS_V1 env\<rparr>"
    "acpi_map (uint (PM1A_EVT_BLK_ADDRESS_V1 env)) t = Inr m1" "gpe_acpi_init env m1 = Inr m2" "php_devfn_init m2 = Inr m3"
    "register_ioport_write 0xb044 4 1 ACPI_DBG_WRITEB PM_OPAQUE m3 = Inr m'"
    using assms(2) unfolding piix4_pm_init_def Let_def res_bind_Inr_iff by (auto simp: res_bind_Inr_iff split: option.splits)
  note k = acpi_map_keeps [OF c(2)] gpe_init_ok [OF assms(1) c(3)] php_init_ok [OF c(4)] register_keeps(2) [OF c(5)]
  have "acpi_log t = []" using assms(3) by (simp add: c(1))
  then show ?thesis using k by (simp add: acpi_inv_def same_acpi_def sci_line_def)
qed

section \<open>The interrupt line\<close>

text \<open>The states after start-up that accesses of the guest to the registered ports and the actions of the tools lead to.\<close>

inductive acpi_reach :: "acpi_env \<Rightarrow> 'a acpi_host_scheme \<Rightarrow> bool" for env where
  start: "piix4_pm_init env b n m = Inr m' \<Longrightarrow> acpi_log m = [] \<Longrightarrow> acpi_reach env m'"
| guest: "acpi_reach env m \<Longrightarrow> fn \<in> ACPI_WRITERS \<Longrightarrow> registered_for fn addr m \<Longrightarrow> acpi_port_write env fn addr val m = Inr m' \<Longrightarrow> acpi_reach env m'"
| plug: "acpi_reach env m \<Longrightarrow> - 2 \<le> n \<Longrightarrow> n < 256 \<Longrightarrow> acpi_php_add n m = Inr m' \<Longrightarrow> acpi_reach env m'"
| unplug: "acpi_reach env m \<Longrightarrow> acpi_php_del n m = Inr m' \<Longrightarrow> acpi_reach env m'"
| cpu: "acpi_reach env m \<Longrightarrow> qemu_cpu_add_remove c on m = Inr (r, m') \<Longrightarrow> acpi_reach env m'"
| notify: "acpi_reach env m \<Longrightarrow> acpi_reach env (qemu_cpu_notify m)"

lemma vcpus_keeps:
  "acpi_port_write env fn addr val m = Inr m' \<Longrightarrow> vcpus m' = vcpus m" "acpi_php_add n m = Inr m' \<Longrightarrow> vcpus m' = vcpus m" "acpi_php_del n m = Inr m' \<Longrightarrow> vcpus m' = vcpus m"
  "qemu_cpu_add_remove c on m = Inr (r, m') \<Longrightarrow> vcpus m' = vcpus m" "vcpus (qemu_cpu_notify m) = vcpus m"
proof -
  have sci: "acpi_sci_intr x = Inr y \<Longrightarrow> vcpus y = vcpus x" for x y :: "'a acpi_host_scheme" by (auto simp: acpi_sci_intr_def Let_def res_bind_Inr_iff)
  have sh: "vcpus (acpi_shutdown env x) = vcpus x" for x :: "'a acpi_host_scheme"
    by (simp add: acpi_shutdown_def acpi_s3_def acpi_s4_def acpi_s5_def Let_def split: prod.splits)
  have ej: "res_fold eject_function is x = Inr y \<Longrightarrow> vcpus y = vcpus x" for "is" and x y :: "'a acpi_host_scheme"
    by (induction "is" arbitrary: x) (auto simp: eject_function_def res_bind_Inr_iff)
  have "vcpus (acpiPm1Control_writeb val m) = vcpus m" "vcpus (acpiPm1ControlP1_writeb env val m) = vcpus m" "vcpus (acpiPm1Control_writew env val m) = vcpus m"
    by (simp_all add: acpiPm1Control_writeb_def acpiPm1ControlP1_writeb_def acpiPm1Control_writew_def Let_def sh)
  moreover have "gpe_sts_write addr val m = Inr m' \<Longrightarrow> vcpus m' = vcpus m" "gpe_en_write addr val m = Inr m' \<Longrightarrow> vcpus m' = vcpus m"
    by (auto simp: gpe_sts_write_def gpe_en_write_def Let_def res_bind_Inr_iff)
  moreover have "acpi_php_writeb addr val m = Inr m' \<Longrightarrow> vcpus m' = vcpus m"
    unfolding acpi_php_writeb_def Let_def by (auto simp: res_bind_Inr_iff dest!: ej split: if_splits)
  ultimately have "acpi_port_write env fn addr val m = Inr m' \<Longrightarrow> fn \<noteq> GPE_CPUS_WRITEB \<Longrightarrow> vcpus m' = vcpus m"
    unfolding acpi_port_write_def by (simp split: if_splits)
  moreover have "acpi_port_write env GPE_CPUS_WRITEB addr val m = Inr m' \<Longrightarrow> vcpus m' = vcpus m" by (auto simp: acpi_port_write_def)
  ultimately show "acpi_port_write env fn addr val m = Inr m' \<Longrightarrow> vcpus m' = vcpus m" by blast
  have "ends UNIV (\<lambda>y. vcpus y = vcpus x) (acpi_sci_intr x)" for x :: "'a acpi_host_scheme" using sci [of x] by (cases "acpi_sci_intr x") auto
  then have e: "ends UNIV (\<lambda>y. vcpus y = c) (acpi_sci_intr x)" if "vcpus x = c" for x :: "'a acpi_host_scheme" and c using that by metis
  have t: "ends UNIV (\<lambda>_. True) r" for r :: "php_devfn res" by (cases r) simp_all
  have "ends UNIV (\<lambda>y. vcpus y = vcpus m) (acpi_php_add n m)"
    unfolding acpi_php_add_def Let_def by (auto intro!: ends_bind [OF t] e)
  then show "acpi_php_add n m = Inr m' \<Longrightarrow> vcpus m' = vcpus m" by simp
  have "ends UNIV (\<lambda>y. vcpus y = vcpus m) (acpi_php_del n m)" unfolding acpi_php_del_def by (auto intro!: e)
  then show "acpi_php_del n m = Inr m' \<Longrightarrow> vcpus m' = vcpus m" by simp
  have u: "ends UNIV (\<lambda>_. True) q" for q :: "(bool \<times> gpe_state) res" by (cases q) simp_all
  have "ends UNIV (\<lambda>(r, y). vcpus y = vcpus m) (qemu_cpu_add_remove c on m)" unfolding qemu_cpu_add_remove_def by (auto intro!: ends_bind [OF u])
  then show "qemu_cpu_add_remove c on m = Inr (r, m') \<Longrightarrow> vcpus m' = vcpus m" by simp
  show "vcpus (qemu_cpu_notify m) = vcpus m" by (simp add: qemu_cpu_notify_def)
qed

lemma acpi_reach_inv:
  assumes "acpi_env_ok env"
  shows "acpi_reach env m \<Longrightarrow> acpi_inv m \<and> vcpus m \<le> 256"
proof (induction rule: acpi_reach.induct)
  case (start b n m m')
  then show ?case using pm_init_inv [OF assms] by blast
next
  case (guest m fn addr val m')
  then show ?case using returnsD [OF acpi_write_ok guest(4)] vcpus_keeps(1) [OF guest(4)] by simp
next
  case (plug m n m')
  then show ?case using returnsD [OF add_ok plug(4)] vcpus_keeps(2) [OF plug(4)] by simp
next
  case (unplug m n m')
  then show ?case using returnsD [OF del_ok unplug(2)] vcpus_keeps(3) [OF unplug(2)] by simp
next
  case (cpu m c on r m')
  then show ?case using returnsD [OF cpu_ok cpu(2)] vcpus_keeps(4) [OF cpu(2)] by simp
next
  case (notify m)
  then show ?case using notify_ok [of m] vcpus_keeps(5) [of m] by simp
qed

text \<open>C37: The ACPI interrupt. Whatever the guest writes to the ports of the controller and whatever the tools plug and unplug, every access to a registered port returns, and the interrupt line is high only
  while a hot-plug event is pending in the status register and enabled in the enable register: clearing the one or the other always lowers the line.\<close>

theorem acpi_sci_level:
  assumes "acpi_env_ok env" "acpi_reach env m"
  shows "(sci_line (acpi_log m) \<longrightarrow> hotplug_pending (gpe m) \<and> sci_asserted (gpe m) \<noteq> 0)
    \<and> (\<forall>fn addr val. fn \<in> ACPI_WRITERS \<and> registered_for fn addr m \<longrightarrow> returns (\<lambda>_. True) (acpi_port_write env fn addr val m))
    \<and> (\<forall>fn addr. fn \<in> ACPI_READERS \<and> registered_for fn addr m \<longrightarrow> returns (\<lambda>_. True) (acpi_port_read fn addr m))"
proof -
  have i: "acpi_inv m" using acpi_reach_inv [OF assms] by simp
  show ?thesis
  proof (intro conjI allI impI)
    show "returns (\<lambda>_. True) (acpi_port_write env fn addr val m)" if "fn \<in> ACPI_WRITERS \<and> registered_for fn addr m" for fn addr val
      using returns_mono [OF acpi_write_ok [OF i conjunct1 [OF that] conjunct2 [OF that]] TrueI] .
    show "returns (\<lambda>_. True) (acpi_port_read fn addr m)" if "fn \<in> ACPI_READERS \<and> registered_for fn addr m" for fn addr
      using returns_mono [OF acpi_read_returns [OF i conjunct1 [OF that] conjunct2 [OF that]] TrueI] .
  qed (use i in \<open>simp_all add: acpi_inv_def\<close>)
qed

subsection \<open>A machine\<close>

text \<open>The block addresses of the hypervisor's public header, and the structures that own the ports.\<close>

definition sample_acpi_env :: acpi_env where
  "sample_acpi_env = \<lparr>PM1A_EVT_BLK_ADDRESS_V0 = 0x1f40, PM1A_EVT_BLK_ADDRESS_V1 = 0xb000, GPE0_BLK_ADDRESS_V0 = 0x1f60, GPE0_BLK_LEN_V0 = 4,
     GPE0_BLK_ADDRESS_V1 = 0xafe0, GPE0_BLK_LEN_V1 = 4, hvm_context = None, vm_clock_ns = 0, vcpu_avail = (\<lambda>_. 3)\<rparr>"

definition port_owner :: "nat \<Rightarrow> nat" where
  "port_owner a = (if 0xb000 \<le> a then PM_OPAQUE else if a < 0x2000 then PHP_OPAQUE else GPE_OPAQUE)"

definition owned :: "'a acpi_host_scheme \<Rightarrow> bool" where
  "owned m \<longleftrightarrow> (\<forall>a. opaque (port_at m a) = 0 \<or> opaque (port_at m a) = port_owner a)"

lemma register_owned:
  fixes m :: "'a acpi_host_scheme"
  assumes "owned m" "access_index sz = Some k" "0 \<le> start" "start + len \<le> 65536" "\<forall>a. start \<le> int a \<and> int a < start + len \<longrightarrow> port_owner a = op"
  shows "returns (\<lambda>m'. owned m' \<and> same_acpi m m') (register_ioport_read start len sz fn op m)"
    and "returns (\<lambda>m'. owned m' \<and> same_acpi m m') (register_ioport_write start len sz fn op m)"
proof -
  let ?A = "set (visited start (start + len) sz)"
  have A: "port_owner a = op" if "a \<in> ?A" for a using assms(5) that visited_facts(2) [OF assms(3), of a "start + len" sz] by simp
  then have "\<forall>a \<in> ?A. opaque (port_at m a) = 0 \<or> opaque (port_at m a) = op" using assms(1) by (auto simp: owned_def)
  note r = register_changes [OF assms(2-4) refl this, of fn]
  have o: "owned m'" if "changes_ports m ?A g m'" "\<And>d. opaque (g d) = op" for g m'
    using that assms(1) A by (auto simp: owned_def changes_ports_def)
  show "returns (\<lambda>m'. owned m' \<and> same_acpi m m') (register_ioport_read start len sz fn op m)"
    using r(1) o [of "set_reader k fn op"] register_keeps(1) by (fastforce simp: returns_def set_reader_def)
  show "returns (\<lambda>m'. owned m' \<and> same_acpi m m') (register_ioport_write start len sz fn op m)"
    using r(2) o [of "set_writer k fn op"] register_keeps(2) by (fastforce simp: returns_def set_writer_def)
qed

lemma owned_upd [simp]:
  "owned (m\<lparr>gpe := g\<rparr>) = owned m" "owned (m\<lparr>php := p\<rparr>) = owned m" "owned (m\<lparr>pcis := s, pm_dev := h, pm1_control := v, pm1a_evt_blk_address := a\<rparr>) = owned m"
  by (simp_all add: owned_def port_at_def alloc_page_def)

lemma same_acpi_refl [simp]: "same_acpi m m"
  by (simp add: same_acpi_def)

text \<open>Registrations one after the other.\<close>

lemma owned_bind:
  assumes "returns (\<lambda>m'. owned m' \<and> same_acpi m m') r" "\<And>m'. owned m' \<Longrightarrow> same_acpi m m' \<Longrightarrow> returns (\<lambda>m''. owned m'' \<and> same_acpi m' m'') (f m')"
  shows "returns (\<lambda>m'. owned m' \<and> same_acpi m m') (res_bind r f)"
  by (rule returns_bind [OF assms(1)]) (use assms(2) same_acpi_trans in \<open>fastforce intro: returns_mono\<close>)

lemma acpi_map_total: "owned m \<Longrightarrow> returns (\<lambda>m'. owned m' \<and> same_acpi m m') (acpi_map 0xb000 m)"
  unfolding acpi_map_def by (intro owned_bind register_owned; (assumption | simp add: port_owner_def access_index_def)?)

lemma gpe_ports_total:
  "owned m \<Longrightarrow> gpe0_blk_address g = 0xafe0 \<Longrightarrow> gpe0_blk_half_len g = 2 \<Longrightarrow> returns (\<lambda>m'. owned m' \<and> same_acpi m m') (gpe_ports g m)"
  unfolding gpe_ports_def Let_def by (intro owned_bind register_owned; (assumption | simp add: port_owner_def access_index_def)?)

lemma gpe_init_total:
  assumes "owned m" "vcpus m \<le> 256"
  shows "returns owned (gpe_acpi_init sample_acpi_env m)"
proof -
  have "nat ((vcpus m + 7) div 8) \<le> 32" using assms(2) by auto
  then obtain cs where cs: "boot_cpus sample_acpi_env (vcpus m) = Inr cs" by (simp add: boot_cpus_def Let_def)
  have "returns (\<lambda>m'. owned m' \<and> same_acpi m m') (res_bind (register_ioport_read (uint PROC_BASE) 32 1 GPE_CPUS_READB GPE_OPAQUE m)
      (register_ioport_write (uint PROC_BASE) 32 1 GPE_CPUS_WRITEB GPE_OPAQUE))"
    using assms(1) by (intro owned_bind register_owned; (assumption | simp add: port_owner_def access_index_def)?)
  then obtain m1 m2 where r: "register_ioport_read (uint PROC_BASE) 32 1 GPE_CPUS_READB GPE_OPAQUE m = Inr m1"
    "register_ioport_write (uint PROC_BASE) 32 1 GPE_CPUS_WRITEB GPE_OPAQUE m1 = Inr m2" "owned m2" by (auto simp: returns_def res_bind_Inr_iff)
  show ?thesis unfolding gpe_acpi_init_def Let_def cs r(1,2) res_bind.simps
    by (rule returns_mono [OF gpe_ports_total]) (use r(3) in \<open>simp_all add: sample_acpi_env_def\<close>)
qed

lemma php_init_total:
  assumes "owned m"
  shows "returns owned (php_devfn_init m)"
proof -
  let ?P = "\<lambda>m. owned m \<and> length (php_status (php m)) = NR_PHP_SLOT_REG"
  have "returns ?P (mark_present i t)" if "i < 256" "?P t" for i t
    using php_set_ok [of "php t" i "0xf"] that by (auto simp: mark_present_def returns_def)
  then have "returns ?P (res_fold mark_present [0..<256] (m\<lparr>php := \<lparr>php_status = replicate NR_PHP_SLOT_REG 0, plug_evt = 0, plug_devfn = 0\<rparr>\<rparr>))"
    using assms by (intro returns_fold) auto
  then obtain t where t: "res_fold mark_present [0..<256] (m\<lparr>php := \<lparr>php_status = replicate NR_PHP_SLOT_REG 0, plug_evt = 0, plug_devfn = 0\<rparr>\<rparr>) = Inr t" "owned t"
    by (auto simp: returns_def)
  have "returns (\<lambda>m'. owned m' \<and> same_acpi t m') (res_bind (register_ioport_read (uint ACPI_PHP_IO_ADDR) (int NR_PHP_SLOT_REG + 2) 1 ACPI_PHP_READB PHP_OPAQUE t)
      (register_ioport_write (uint ACPI_PHP_IO_ADDR) (int NR_PHP_SLOT_REG + 2) 1 ACPI_PHP_WRITEB PHP_OPAQUE))"
    using t(2) by (intro owned_bind register_owned; (assumption | simp add: port_owner_def access_index_def)?)
  then show ?thesis unfolding php_devfn_init_def t(1) res_bind.simps by (rule returns_mono) simp
qed

lemma pm_init_total:
  assumes "owned m" "vcpus m \<le> 256" "pci_register_device b ''PIIX4 ACPI'' n Pci_default_read Pci_default_write (pcis m) = Inr (Some h, s)"
  shows "\<exists>m'. piix4_pm_init sample_acpi_env b n m = Inr m'"
proof -
  let ?t = "m\<lparr>pcis := upd_dev h (\<lambda>d. d\<lparr>config := pm_header (config d)\<rparr>) s, pm_dev := h, pm1_control := 1, pm1a_evt_blk_address := PM1A_EVT_BLK_ADDRESS_V1 sample_acpi_env\<rparr>"
  have "returns (\<lambda>m'. owned m' \<and> same_acpi ?t m') (acpi_map (uint (PM1A_EVT_BLK_ADDRESS_V1 sample_acpi_env)) ?t)"
    using acpi_map_total [of ?t] assms(1) by (simp add: sample_acpi_env_def)
  then obtain m1 where m1: "acpi_map (uint (PM1A_EVT_BLK_ADDRESS_V1 sample_acpi_env)) ?t = Inr m1" "owned m1" "vcpus m1 \<le> 256"
    using assms(2) by (auto simp: returns_def same_acpi_def)
  obtain m2 where m2: "gpe_acpi_init sample_acpi_env m1 = Inr m2" "owned m2" using gpe_init_total [OF m1(2,3)] by (auto simp: returns_def)
  obtain m3 where m3: "php_devfn_init m2 = Inr m3" "owned m3" using php_init_total [OF m2(2)] by (auto simp: returns_def)
  have "\<exists>m4. register_ioport_write 0xb044 4 1 ACPI_DBG_WRITEB PM_OPAQUE m3 = Inr m4"
    using register_owned(2) [OF m3(2), of 1 0 "0xb044" 4 PM_OPAQUE ACPI_DBG_WRITEB] by (auto simp: returns_def port_owner_def access_index_def)
  then show ?thesis using m1(1) m2(1) m3(1) by (simp add: piix4_pm_init_def assms(3) Let_def)
qed

definition sample_acpi :: acpi_host where
  "sample_acpi = \<lparr>ioport_table = (\<lambda>_. None), mmio = [], io_mem_read = (\<lambda>_ _. None), io_mem_write = (\<lambda>_ _. None),
     io_mem_opaque = (\<lambda>_. 0), io_mem_used = (\<lambda>_. False), ram = (\<lambda>_. 0), ram_page = (\<lambda>_. False), xen_logdirty_enable = False, modified = [],
     config_reg = 0, host_bus = 0, pcis = snd (pci_register_bus 0 0 0 0 128 (empty_pci False (\<lambda>_. False))), piix3_dev = None, intx = [], link_routes = [],
     gpe = \<lparr>gpe0_sts = [], gpe0_en = [], cpus_sts = [], sci_asserted = 0, gpe0_blk_address = 0, gpe0_blk_half_len = 0\<rparr>,
     php = \<lparr>php_status = [], plug_evt = 0, plug_devfn = 0\<rparr>, pm_dev = 0, pm1_control = 0, pm1a_evt_blk_address = 0, vcpus = 2, acpi_log = []\<rparr>"

lemma sample_acpi_starts: "\<exists>m. piix4_pm_init sample_acpi_env 0 11 sample_acpi = Inr m"
proof (rule pm_init_total)
  have "port_at sample_acpi a = default_ioport" for a by (simp add: port_at_def alloc_page_def ioport_create_page_def sample_acpi_def)
  then show "owned sample_acpi" by (simp add: owned_def default_ioport_def)
  show "pci_register_device 0 ''PIIX4 ACPI'' 11 Pci_default_read Pci_default_write (pcis sample_acpi) =
      Inr (Some (length (devs (pcis sample_acpi))), snd (case pci_register_device 0 ''PIIX4 ACPI'' 11 Pci_default_read Pci_default_write (pcis sample_acpi) of Inr r \<Rightarrow> r))"
    by (simp add: pci_register_device_def Let_def)
qed (simp add: sample_acpi_def)

lemma sample_env_ok: "acpi_env_ok sample_acpi_env"
  by (simp add: acpi_env_ok_def sample_acpi_env_def)

theorem acpi_sci_level_witness:
  "\<exists>m. piix4_pm_init sample_acpi_env 0 11 sample_acpi = Inr m \<and> (sci_line (acpi_log m) \<longrightarrow> hotplug_pending (gpe m) \<and> sci_asserted (gpe m) \<noteq> 0)
     \<and> returns (\<lambda>_. True) (acpi_port_write sample_acpi_env ACPI_PHP_WRITEB 0x10c2 1 m)"
proof -
  obtain m where m: "piix4_pm_init sample_acpi_env 0 11 sample_acpi = Inr m" using sample_acpi_starts by blast
  have "acpi_reach sample_acpi_env m" by (rule acpi_reach.start [OF m]) (simp add: sample_acpi_def)
  note t = acpi_sci_level [OF sample_env_ok this]
  have "registered_for ACPI_PHP_WRITEB 0x10c2 m" by (simp add: registered_for_def)
  then show ?thesis using m t by blast
qed

section \<open>Ejecting\<close>

inductive guest_write :: "acpi_env \<Rightarrow> 'a acpi_host_scheme \<Rightarrow> 'a acpi_host_scheme \<Rightarrow> bool" for env where
  "fn \<in> ACPI_WRITERS \<Longrightarrow> registered_for fn addr m \<Longrightarrow> acpi_port_write env fn addr val m = Inr m' \<Longrightarrow> guest_write env m m'"

lemma guest_write_ejects: "guest_write env m m' \<Longrightarrow> acpi_inv m \<Longrightarrow> acpi_inv m' \<and> ejects m m'"
proof -
  assume i: "acpi_inv m" and "guest_write env m m'"
  then obtain fn addr val where w: "fn \<in> ACPI_WRITERS" "registered_for fn addr m" "acpi_port_write env fn addr val m = Inr m'" by (elim guest_write.cases) blast
  show ?thesis by (rule returnsD [OF acpi_write_ok [OF i w(1,2)] w(3)])
qed

lemma ejects_trans: "ejects m x \<Longrightarrow> ejects x y \<Longrightarrow> ejects m y"
  unfolding ejects_def by auto

lemma guest_writes_eject:
  assumes "(guest_write env)\<^sup>*\<^sup>* m m'" "acpi_inv m"
  shows "acpi_inv m' \<and> ejects m m'"
  using assms(1)
proof induction
  case base
  show ?case using assms(2) by (simp add: ejects_def)
next
  case (step y z)
  then show ?case using guest_write_ejects [OF step(2)] ejects_trans by blast
qed

text \<open>C38: Ejecting a device. No sequence of port writes of the guest powers off a function or changes the presence registers unless the tools have asked for the removal of a slot and the request is still
  open. Then the guest can do one thing: power off the eight functions of that slot, once, which clears their presence registers, leaves those of the other slots alone and closes the request.\<close>

theorem acpi_eject_requested:
  assumes "acpi_env_ok env" "acpi_reach env m" "(guest_write env)\<^sup>*\<^sup>* m m'"
  shows "offs m' = offs m \<and> php m' = php m
    \<or> plug_evt (php m) = PHP_EVT_REMOVE \<and> plug_evt (php m') = 0
      \<and> offs m' = offs m @ map (\<lambda>f. Power_off (int (slot_function (unat (plug_devfn (php m))) f))) [7, 6, 5, 4, 3, 2, 1, 0]
      \<and> (\<forall>k < 256. php_reg_get k (php m') = (if k div 8 = unat (plug_devfn (php m)) div 8 then Inr 0 else php_reg_get k (php m)))"
proof -
  have "rev [0..<8] = [7, 6, 5, 4, 3, 2, 1, 0 :: nat]" by (simp add: upt_rec)
  then show ?thesis using guest_writes_eject [OF assms(3)] acpi_reach_inv [OF assms(1,2)] unfolding ejects_def slot_offs_def by metis
qed

text \<open>Without a request the eject command does nothing.\<close>

theorem acpi_eject_requested_witness:
  "\<exists>m m'. piix4_pm_init sample_acpi_env 0 11 sample_acpi = Inr m \<and> acpi_port_write sample_acpi_env ACPI_PHP_WRITEB 0x10c2 1 m = Inr m'
     \<and> (offs m' = offs m \<or> plug_evt (php m) = PHP_EVT_REMOVE)"
proof -
  obtain m where m: "piix4_pm_init sample_acpi_env 0 11 sample_acpi = Inr m" using sample_acpi_starts by blast
  have r: "acpi_reach sample_acpi_env m" by (rule acpi_reach.start [OF m]) (simp add: sample_acpi_def)
  have g: "registered_for ACPI_PHP_WRITEB 0x10c2 m" by (simp add: registered_for_def)
  obtain m' where m': "acpi_port_write sample_acpi_env ACPI_PHP_WRITEB 0x10c2 1 m = Inr m'"
    using acpi_write_ok [of m ACPI_PHP_WRITEB "0x10c2" sample_acpi_env 1] g acpi_reach_inv [OF sample_env_ok r] by (auto simp: returns_def)
  have "guest_write sample_acpi_env m m'" by (rule guest_write.intros [OF _ g m']) simp
  then have "offs m' = offs m \<or> plug_evt (php m) = PHP_EVT_REMOVE"
    using acpi_eject_requested [OF sample_env_ok r, of m'] r_into_rtranclp by fast
  then show ?thesis using m m' by blast
qed

section \<open>A lost interrupt\<close>

text \<open>Plugging a processor can lose a hot-plug interrupt of a PCI device. The notification for processors pulses the interrupt line that the two kinds of event share: if the line is high for a pending PCI event, it
  is low after the pulse while the event is still pending and enabled, and a further PCI event does not raise it again.\<close>

theorem acpi_cpu_notify_drops_line:
  assumes "gpe_wf (gpe m)" "hotplug_pending (gpe m)" "bit (gpe0_en (gpe m) ! 0) 2"
  shows "\<not> sci_line (acpi_log (qemu_cpu_notify m)) \<and> hotplug_pending (gpe (qemu_cpu_notify m))
    \<and> acpi_sci_intr (qemu_cpu_notify m) = Inr (qemu_cpu_notify m)"
proof -
  have "gpe0_en (gpe m) ! 0 AND 2 ^ 2 \<noteq> 0" using assms(3) by (simp only: and_exp_eq_0_iff_not_bit) simp
  moreover have "0 < length (gpe0_sts (gpe m))" "0 < length (gpe0_en (gpe m))" using assms(1) by (auto simp: gpe_wf_def)
  ultimately show ?thesis using assms(2) by (simp add: qemu_cpu_notify_def hotplug_pending_def acpi_sci_intr_def Let_def arr_set_ok)
qed

theorem acpi_cpu_notify_drops_line_witness:
  "\<exists>m :: acpi_host. sci_line (acpi_log m) \<and> \<not> sci_line (acpi_log (qemu_cpu_notify m)) \<and> hotplug_pending (gpe (qemu_cpu_notify m))"
proof -
  let ?g = "\<lparr>gpe0_sts = [8, 0], gpe0_en = [0xc, 0], cpus_sts = replicate 32 0, sci_asserted = 1, gpe0_blk_address = 0xafe0, gpe0_blk_half_len = 2\<rparr>"
  let ?m = "sample_acpi\<lparr>gpe := ?g, acpi_log := [Sci True]\<rparr>"
  have "bit (8 :: u8) 3" "bit (0xc :: u8) 3" "bit (0xc :: u8) 2" by (simp_all add: bit_numeral_rec numeral_3_eq_3 numeral_2_eq_2)
  then have "gpe_wf (gpe ?m)" "hotplug_pending (gpe ?m)" "bit (gpe0_en (gpe ?m) ! 0) 2" "sci_line (acpi_log ?m)"
    by (simp_all add: gpe_wf_def hotplug_pending_def sci_line_def)
  then show ?thesis using acpi_cpu_notify_drops_line [of ?m] by blast
qed

section \<open>The alarm\<close>

lemma add_days_mod: "w < 86400 \<Longrightarrow> add_days w = w mod 86400"
proof (induction w rule: add_days.induct)
  case (1 w)
  show ?case
  proof (cases "w < 0")
    case True
    then have "add_days w = (w + 86400) mod 86400" using 1(1) [OF True] by (subst add_days.simps) simp
    then show ?thesis by simp
  next
    case False
    then show ?thesis using 1(2) by (subst add_days.simps) simp
  qed
qed

text \<open>A value in a register of the clock, in BCD or binary.\<close>

definition clock_byte :: "bool \<Rightarrow> int \<Rightarrow> u8" where
  "clock_byte coded v = of_int (if coded then v div 10 * 16 + v mod 10 else v)"

lemma clock_byte_value:
  assumes "0 \<le> v" "v < 60"
  shows "uint (clock_byte coded v) = (if coded then v div 10 * 16 + v mod 10 else v)" "unbcd coded (uint (clock_byte coded v)) = v" "uint (clock_byte coded v) < 0xc0"
proof -
  have d: "v div 10 < 6" "0 \<le> v div 10" "v mod 10 < 10" "0 \<le> v mod 10" using assms by auto
  then have "0 \<le> v div 10 * 16 + v mod 10" "v div 10 * 16 + v mod 10 < 256" by auto
  then show u: "uint (clock_byte coded v) = (if coded then v div 10 * 16 + v mod 10 else v)"
    using assms by (auto simp: clock_byte_def uint_word_of_int intro!: mod_pos_pos_trivial)
  have "(v div 10 * 16 + v mod 10) div 16 = v div 10" "(v div 10 * 16 + v mod 10) mod 16 = v mod 10" using d by auto
  then show "unbcd coded (uint (clock_byte coded v)) = v" by (simp add: unbcd_def u)
  show "uint (clock_byte coded v) < 0xc0" using d assms by (simp add: u) linarith
qed

lemma clock_byte_hours:
  assumes "0 \<le> v" "v < 24"
  shows "unbcd coded (uint (clock_byte coded v AND 0x7f)) = v" "\<not> bit (clock_byte coded v) 7"
proof -
  have "v div 10 < 3" "0 \<le> v div 10" "v mod 10 < 10" "0 \<le> v mod 10" using assms by auto
  then have s: "uint (clock_byte coded v) < 128" using clock_byte_value(1) [of v coded] assms by (auto split: if_splits)
  have "clock_byte coded v AND 0x7f = take_bit 7 (clock_byte coded v)" by (simp add: take_bit_eq_mask mask_numeral)
  moreover have "take_bit 7 (clock_byte coded v) = clock_byte coded v"
    using s by (intro word_uint_eq_iff [THEN iffD2]) (simp add: take_bit_eq_mod uint_mod)
  ultimately show "unbcd coded (uint (clock_byte coded v AND 0x7f)) = v" using clock_byte_value(2) [of v coded] assms by simp
  show "\<not> bit (clock_byte coded v) 7" using \<open>take_bit 7 _ = _\<close> bit_take_bit_iff [of 7 "clock_byte coded v" 7] by simp
qed

text \<open>The register for an hour, in 24-hour mode or in 12-hour mode, in which bit 7 stands for PM; and an alarm register, which is wild from 0xc0 on.\<close>

definition hour_byte :: "bool \<Rightarrow> bool \<Rightarrow> int \<Rightarrow> u8" where
  "hour_byte twelve coded h =
     (if twelve then clock_byte coded ((h + 11) mod 12 + 1) OR (if 12 \<le> h then 0x80 else 0) else clock_byte coded h)"

definition alarm_coded :: "(int \<Rightarrow> u8) \<Rightarrow> int \<Rightarrow> int option \<Rightarrow> u8 \<Rightarrow> bool" where
  "alarm_coded code limit v b = (case v of None \<Rightarrow> 0xc0 \<le> b | Some x \<Rightarrow> 0 \<le> x \<and> x < limit \<and> b = code x)"

text \<open>The times of day an alarm is set for, and the first of them from a time of day on.\<close>

definition alarm_time :: "int option \<Rightarrow> int option \<Rightarrow> int option \<Rightarrow> int \<Rightarrow> bool" where
  "alarm_time ph pm ps x \<longleftrightarrow> (\<exists>h m s. 0 \<le> h \<and> h < 24 \<and> 0 \<le> m \<and> m < 60 \<and> 0 \<le> s \<and> s < 60 \<and> x = h * 3600 + m * 60 + s
     \<and> (ph = None \<or> ph = Some h) \<and> (pm = None \<or> pm = Some m) \<and> (ps = None \<or> ps = Some s))"

definition first_alarm :: "int \<Rightarrow> int option \<Rightarrow> int option \<Rightarrow> int option \<Rightarrow> int \<Rightarrow> bool" where
  "first_alarm now ph pm ps d \<longleftrightarrow> (\<exists>x. alarm_time ph pm ps x \<and> d = (x - now) mod 86400)
     \<and> (\<forall>x. alarm_time ph pm ps x \<longrightarrow> d \<le> (x - now) mod 86400)"

lemma or_128: "(x OR 0x80) AND 0x7f = x AND 0x7f" "bit (x OR 0x80) 7" for x :: u8
proof -
  show "(x OR 0x80) AND 0x7f = x AND 0x7f" by (simp add: bit.conj_disj_distrib2)
  have "bit (0x80 :: u8) 7" by simp
  then show "bit (x OR 0x80) 7" by (simp only: bit_or_iff) simp
qed

lemma uint_or_128: "uint x < 64 \<Longrightarrow> uint (x OR 0x80) < 0xc0" for x :: u8
proof -
  assume x: "uint x < 64"
  have "uint (x OR 0x80) = uint x OR 128" by (simp add: unsigned_or_eq)
  moreover have "(uint x AND 128) + (uint x OR 128) = uint x + 128" by (rule plus_and_or)
  moreover have "0 \<le> uint x AND 128" by simp
  ultimately show ?thesis using x by linarith
qed

lemma hour_byte_value:
  assumes "0 \<le> h" "h < 24"
  shows "unbcd coded (uint (hour_byte twelve coded h AND 0x7f)) = (if twelve then (h + 11) mod 12 + 1 else h)"
    and "bit (hour_byte twelve coded h) 7 \<longleftrightarrow> twelve \<and> 12 \<le> h" and "uint (hour_byte twelve coded h) < 0xc0"
proof -
  let ?v = "(h + 11) mod 12 + 1"
  have v: "0 \<le> ?v" "?v < 24" "?v < 60" "?v \<le> 12" using pos_mod_bound [of 12 "h + 11"] pos_mod_sign [of 12 "h + 11"] by linarith+
  show "unbcd coded (uint (hour_byte twelve coded h AND 0x7f)) = (if twelve then (h + 11) mod 12 + 1 else h)"
    using clock_byte_hours(1) [OF v(1,2), of coded] clock_byte_hours(1) [OF assms, of coded] by (simp add: hour_byte_def or_128)
  show "bit (hour_byte twelve coded h) 7 \<longleftrightarrow> twelve \<and> 12 \<le> h"
    using clock_byte_hours(2) [OF v(1,2), of coded] clock_byte_hours(2) [OF assms, of coded] by (simp add: hour_byte_def or_128)
  have "x div 10 * 16 + x mod 10 < 64" if "0 \<le> x" "x \<le> 12" for x :: int using that by presburger
  from this [OF v(1,4)] have "uint (clock_byte coded ?v) < 64" using clock_byte_value(1) [OF v(1,3), of coded] v(4) by simp
  then show "uint (hour_byte twelve coded h) < 0xc0"
    using uint_or_128 [of "clock_byte coded ?v"] clock_byte_value(3) [of h coded] assms by (auto simp: hour_byte_def)
qed

text \<open>What the code computes, in numbers: hours are those of the code, which counts 12 AM as 12 and 12 PM as 24.\<close>

definition code_hour :: "bool \<Rightarrow> int \<Rightarrow> int" where
  "code_hour twelve h = h + (if twelve \<and> h mod 12 = 0 then 12 else 0)"

definition wait_of :: "int \<Rightarrow> int \<Rightarrow> int \<Rightarrow> int option \<Rightarrow> int option \<Rightarrow> int option \<Rightarrow> int" where
  "wait_of h m s ph pm ps =
     (let w = add_days (((case ps of None \<Rightarrow> s | Some x \<Rightarrow> x) + (case pm of None \<Rightarrow> m | Some x \<Rightarrow> x) * 60 + (case ph of None \<Rightarrow> h | Some x \<Rightarrow> x) * 3600)
          - (s + m * 60 + h * 3600)) in
      if ph = None then
        let w = reduce_above 3600 w in
        if pm = None then let w = reduce_above 60 w in if ps = None then 0 else w
        else if ps = None \<and> w > s then w - s else w
      else
        let w = (if pm = None \<and> w > m * 60 then w - m * 60 else w) in
        if ps = None \<and> w > s then w - s else w)"

lemma code_hour_value:
  assumes "0 \<le> h" "h < 24"
  shows "(if twelve then (h + 11) mod 12 + 1 else h) + (if twelve \<and> 12 \<le> h then 12 else 0) = code_hour twelve h"
proof (cases twelve)
  case True
  have "(h + 11) mod 12 + 1 + (if 12 \<le> h then 12 else 0) = h + (if h mod 12 = 0 then 12 else 0)" using assms by presburger
  then show ?thesis using True by (simp add: code_hour_def)
qed (simp add: code_hour_def)

lemma calculate_wait_value:
  assumes "coded = (\<not> bit (r 0xb) 2)" "twelve = (\<not> bit (r 0xb) 1)" "bit (r 0xb) 5"
    and "0 \<le> h" "h < 24" "0 \<le> m" "m < 60" "0 \<le> s" "s < 60"
    and "r 4 = hour_byte twelve coded h" "r 2 = clock_byte coded m" "r 0 = clock_byte coded s"
    and "alarm_coded (hour_byte twelve coded) 24 ph (r 5)" "alarm_coded (clock_byte coded) 60 pm (r 3)" "alarm_coded (clock_byte coded) 60 ps (r 1)"
  shows "calculate_wait r = wait_of (code_hour twelve h) m s (map_option (code_hour twelve) ph) pm ps"
proof -
  have wild: "0xc0 \<le> uint b \<longleftrightarrow> 0xc0 \<le> b" for b :: u8 by (simp add: word_le_def)
  have now: "unbcd coded (uint (r 0)) = s" "unbcd coded (uint (r 2)) = m" using assms clock_byte_value(2) by simp_all
  have ch: "clock_hours r = code_hour twelve h"
    using hour_byte_value(1) [OF assms(4,5), of coded twelve] hour_byte_value(2) [OF assms(4,5), of twelve coded] code_hour_value [OF assms(4,5), of twelve] assms(1,2,10) by (simp add: clock_hours_def)
  have fld: "(0xc0 \<le> uint b) = (v = None)" "v = Some x \<Longrightarrow> unbcd coded (uint b) = x" if "alarm_coded (clock_byte coded) 60 v b" for v x b
    using that clock_byte_value(2,3) [of _ coded] by (auto simp: alarm_coded_def not_le split: option.splits simp flip: wild)
  have hw: "(0xc0 \<le> uint (r 5)) = (ph = None)"
    using assms(13) hour_byte_value(3) [of _ twelve coded] by (auto simp: alarm_coded_def not_le split: option.splits simp flip: wild)
  have ah: "unbcd coded (uint (r 5 AND 0x7f)) * 3600 + (if twelve \<and> bit (r 5) 7 then 43200 else 0) = code_hour twelve x * 3600" if "ph = Some x" for x
  proof -
    have x: "0 \<le> x" "x < 24" "r 5 = hour_byte twelve coded x" using assms(13) that by (auto simp: alarm_coded_def)
    show ?thesis using hour_byte_value(1) [OF x(1,2), of coded twelve] hour_byte_value(2) [OF x(1,2), of twelve coded] code_hour_value [OF x(1,2), of twelve] by (auto simp: x(3))
  qed
  note f = fld [OF assms(14)] fld [OF assms(15)]
  show ?thesis
    unfolding calculate_wait_def wait_of_def assms(1) [symmetric] assms(2) [symmetric] now ch Let_def
    using assms(3) hw ah f
    by (cases ph; cases pm; cases ps) (simp_all add: not_le [symmetric])
qed

lemma reduce_above_value: "0 < k \<Longrightarrow> 0 \<le> w \<Longrightarrow> reduce_above k w = (if w = 0 then 0 else (w - 1) mod k + 1)"
proof (induction k w rule: reduce_above.induct)
  case (1 k w)
  show ?case
  proof (cases "w > k")
    case True
    then have "reduce_above k w = reduce_above k (w - k)" using 1(2) by (subst reduce_above.simps) simp
    also have "\<dots> = (w - k - 1) mod k + 1" using 1 True by simp
    also have "(w - k - 1) mod k = (w - 1) mod k" using mod_add_self2 [of "w - k - 1" k] by simp
    finally show ?thesis using True 1(2) by simp
  next
    case False
    then show ?thesis using 1 by (subst reduce_above.simps) (auto simp: mod_pos_pos_trivial)
  qed
qed

lemma reduced_waits:
  "- 3600 < x \<Longrightarrow> x < 3600 \<Longrightarrow> reduce_above 3600 (add_days x) = (if 0 \<le> x then x else x + 3600)"
  "- 60 < x \<Longrightarrow> x < 60 \<Longrightarrow> reduce_above 60 (reduce_above 3600 (add_days x)) = (if 0 \<le> x then x else x + 60)"
proof -
  have d: "add_days x = (if 0 \<le> x then x else x + 86400)" if "- 3600 < x" "x < 3600" for x
    using that by (subst add_days.simps, subst add_days.simps) simp
  have r: "reduce_above 3600 (add_days x) = (if 0 \<le> x then x else x + 3600)" if x: "- 3600 < x" "x < 3600" for x
  proof (cases "0 \<le> x")
    case True
    then show ?thesis using d [OF x] x by (subst reduce_above.simps) simp
  next
    case False
    have "(x + 86400 - 1) mod 3600 = (x + 3599) mod 3600" using mod_mult_self2 [of "x + 3599" 3600 23] by (simp add: algebra_simps)
    also have "\<dots> = x + 3599" using x False by (intro mod_pos_pos_trivial) simp_all
    finally show ?thesis using d [OF x] x False by (simp add: reduce_above_value)
  qed
  show "- 3600 < x \<Longrightarrow> x < 3600 \<Longrightarrow> reduce_above 3600 (add_days x) = (if 0 \<le> x then x else x + 3600)" by (rule r)
  assume x: "- 60 < x" "x < 60"
  show "reduce_above 60 (reduce_above 3600 (add_days x)) = (if 0 \<le> x then x else x + 60)"
  proof (cases "0 \<le> x")
    case True
    then have "reduce_above 3600 (add_days x) = x" using r [of x] x by simp
    moreover have "reduce_above 60 x = x" using x by (subst reduce_above.simps) simp
    ultimately show ?thesis using True by simp
  next
    case False
    have "(x + 3600 - 1) mod 60 = (x + 59) mod 60" using mod_mult_self2 [of "x + 59" 60 59] by (simp add: algebra_simps)
    also have "\<dots> = x + 59" using x False by (intro mod_pos_pos_trivial) simp_all
    finally show ?thesis using r [of x] x False by (simp add: reduce_above_value)
  qed
qed

text \<open>Seconds from one time of day to the next time it is another.\<close>

definition secs_to :: "int \<Rightarrow> int \<Rightarrow> int" where
  "secs_to t x = (if t \<le> x then x - t else x - t + 86400)"

lemma day_mod: "- 86400 < x \<Longrightarrow> x < 86400 \<Longrightarrow> x mod 86400 = (if 0 \<le> x then x else x + 86400)" for x :: int
  using mod_pos_pos_trivial [of x 86400] mod_pos_pos_trivial [of "x + 86400" 86400] by auto

lemma wait_in_day: "- 86400 < x \<Longrightarrow> x < 86400 \<Longrightarrow> add_days x = (if 0 \<le> x then x else x + 86400)"
  using add_days_mod [of x] day_mod [of x] by simp

lemma first_alarmI:
  assumes t: "t = h * 3600 + m * 60 + s" "0 \<le> h" "h < 24" "0 \<le> m" "m < 60" "0 \<le> s" "s < 60"
    and x: "0 \<le> h1" "h1 < 24" "0 \<le> m1" "m1 < 60" "0 \<le> s1" "s1 < 60"
      "ph = None \<or> ph = Some h1" "pm = None \<or> pm = Some m1" "ps = None \<or> ps = Some s1" "d = secs_to t (h1 * 3600 + m1 * 60 + s1)"
    and least: "\<And>h2 m2 s2. 0 \<le> h2 \<Longrightarrow> h2 < 24 \<Longrightarrow> 0 \<le> m2 \<Longrightarrow> m2 < 60 \<Longrightarrow> 0 \<le> s2 \<Longrightarrow> s2 < 60 \<Longrightarrow>
      ph = None \<or> ph = Some h2 \<Longrightarrow> pm = None \<or> pm = Some m2 \<Longrightarrow> ps = None \<or> ps = Some s2 \<Longrightarrow> d \<le> secs_to t (h2 * 3600 + m2 * 60 + s2)"
  shows "first_alarm t ph pm ps d"
proof -
  have e: "(h2 * 3600 + m2 * 60 + s2 - t) mod 86400 = secs_to t (h2 * 3600 + m2 * 60 + s2)"
    if "0 \<le> h2" "h2 < 24" "0 \<le> m2" "m2 < 60" "0 \<le> s2" "s2 < 60" for h2 m2 s2
    using that t by (subst day_mod) (auto simp: secs_to_def)
  show ?thesis unfolding first_alarm_def
  proof (intro conjI allI impI)
    have "alarm_time ph pm ps (h1 * 3600 + m1 * 60 + s1)" unfolding alarm_time_def using x by blast
    then show "\<exists>y. alarm_time ph pm ps y \<and> d = (y - t) mod 86400" using x(10) e [OF x(1-6)] by (intro exI [of _ "h1 * 3600 + m1 * 60 + s1"]) simp
    fix y assume "alarm_time ph pm ps y"
    then obtain h2 m2 s2 where "0 \<le> h2" "h2 < 24" "0 \<le> m2" "m2 < 60" "0 \<le> s2" "s2 < 60" "y = h2 * 3600 + m2 * 60 + s2"
      "ph = None \<or> ph = Some h2" "pm = None \<or> pm = Some m2" "ps = None \<or> ps = Some s2" unfolding alarm_time_def by blast
    then show "d \<le> (y - t) mod 86400" using least [of h2 m2 s2] e [of h2 m2 s2] by simp
  qed
qed

text \<open>The ways of setting an alarm, on hours from 0 to 23.\<close>

lemma wait_hour_wild:
  assumes t: "0 \<le> h" "h < 24" "0 \<le> m" "m < 60" "0 \<le> s" "s < 60"
    and p: "pm = None \<or> pm = Some am \<and> 0 \<le> am \<and> am < 60" "ps = None \<or> ps = Some as \<and> 0 \<le> as \<and> as < 60"
  shows "first_alarm (h * 3600 + m * 60 + s) None pm ps (wait_of h m s None pm ps)"
proof -
  let ?t = "h * 3600 + m * 60 + s" and ?n = "if h < 23 then h + 1 else 0"
  consider "pm = Some am" "ps = Some as" | "pm = None" "ps = Some as" | "pm = None" "ps = None" | "pm = Some am" "ps = None" using p by blast
  then show ?thesis
  proof cases
    case 1
    let ?x = "(am - m) * 60 + as - s"
    have w: "wait_of h m s None pm ps = (if 0 \<le> ?x then ?x else ?x + 3600)"
      using 1 t p reduced_waits(1) [of ?x] by (simp add: wait_of_def algebra_simps)
    have "(if 0 \<le> ?x then ?x else ?x + 3600) = secs_to ?t ((if 0 \<le> ?x then h else ?n) * 3600 + am * 60 + as)"
      using t p 1 by (auto simp: secs_to_def)
    moreover have "(if 0 \<le> ?x then ?x else ?x + 3600) \<le> secs_to ?t (h2 * 3600 + am * 60 + as)" if "0 \<le> h2" "h2 < 24" for h2
      by (cases "h2 < h"; cases "h2 = h") (use that t p 1 in \<open>auto simp: secs_to_def\<close>)
    ultimately show ?thesis unfolding w using 1 t p
      by (intro first_alarmI [OF refl t, where ?h1.0 = "if 0 \<le> ?x then h else ?n" and ?m1.0 = am and ?s1.0 = as]) auto
  next
    case 2
    let ?x = "as - s"
    have w: "wait_of h m s None pm ps = (if 0 \<le> ?x then ?x else ?x + 60)"
      using 2 t p reduced_waits(2) [of ?x] by (simp add: wait_of_def algebra_simps)
    let ?h = "if 0 \<le> ?x \<or> m < 59 then h else ?n" and ?m = "if 0 \<le> ?x then m else if m < 59 then m + 1 else 0"
    have "(if 0 \<le> ?x then ?x else ?x + 60) = secs_to ?t (?h * 3600 + ?m * 60 + as)"
      using t p 2 by (auto simp: secs_to_def)
    moreover have "(if 0 \<le> ?x then ?x else ?x + 60) \<le> secs_to ?t (h2 * 3600 + m2 * 60 + as)" if "0 \<le> h2" "h2 < 24" "0 \<le> m2" "m2 < 60" for h2 m2
      by (cases "h2 < h"; cases "h2 = h"; cases "m2 < m"; cases "m2 = m") (use that t p 2 in \<open>auto simp: secs_to_def\<close>)
    ultimately show ?thesis unfolding w using 2 t p
      by (intro first_alarmI [OF refl t, where ?h1.0 = ?h and ?m1.0 = ?m and ?s1.0 = as]) auto
  next
    case 3
    then have "wait_of h m s None pm ps = 0" by (simp add: wait_of_def Let_def)
    then show ?thesis using 3 t p by (intro first_alarmI [OF refl t, where ?h1.0 = h and ?m1.0 = m and ?s1.0 = s]) (auto simp: secs_to_def)
  next
    case 4
    let ?x = "(am - m) * 60"
    have w: "wait_of h m s None pm ps = (if am = m then 0 else if 0 \<le> ?x then ?x - s else ?x + 3600 - s)"
      using 4 t p reduced_waits(1) [of ?x] by (auto simp: wait_of_def algebra_simps)
    let ?h = "if m \<le> am then h else ?n" and ?s = "if am = m then s else 0"
    have "(if am = m then 0 else if 0 \<le> ?x then ?x - s else ?x + 3600 - s) = secs_to ?t (?h * 3600 + am * 60 + ?s)"
      using t p 4 by (auto simp: secs_to_def)
    moreover have "(if am = m then 0 else if 0 \<le> ?x then ?x - s else ?x + 3600 - s) \<le> secs_to ?t (h2 * 3600 + am * 60 + s2)"
      if "0 \<le> h2" "h2 < 24" "0 \<le> s2" "s2 < 60" for h2 s2
      by (cases "h2 < h"; cases "h2 = h") (use that t p 4 in \<open>auto simp: secs_to_def\<close>)
    ultimately show ?thesis unfolding w using 4 t p
      by (intro first_alarmI [OF refl t, where ?h1.0 = ?h and ?m1.0 = am and ?s1.0 = ?s]) auto
  qed
qed

lemma wait_hour_set:
  assumes t: "0 \<le> h" "h < 24" "0 \<le> m" "m < 60" "0 \<le> s" "s < 60"
    and p: "0 \<le> ah" "ah < 24" "pm = None \<or> pm = Some am \<and> 0 \<le> am \<and> am < 60" "ps = None \<or> ps = Some as \<and> 0 \<le> as \<and> as < 60"
    and ok: "\<not> (ah = h \<and> pm = None \<and> (\<exists>c. ps = Some c \<and> c < s) \<and> m < 59)"
  shows "first_alarm (h * 3600 + m * 60 + s) (Some ah) pm ps (wait_of h m s (Some ah) pm ps)"
proof -
  consider "pm = Some am" "ps = Some as" | "pm = None" "ps = None" "ah = h" | "pm = None" "ps = None" "ah \<noteq> h"
    | "pm = Some am" "ps = None" "am = m" "ah = h" | "pm = Some am" "ps = None" "ah \<noteq> h \<or> am \<noteq> m"
    | "pm = None" "ps = Some as" "ah \<noteq> h" | "pm = None" "ps = Some as" "ah = h" "s \<le> as" | "pm = None" "ps = Some as" "ah = h" "as < s" "m = 59"
    using p(3,4) ok t(4) by fastforce
  then show ?thesis
  proof cases
    case 1
    then have "wait_of h m s (Some ah) pm ps = secs_to (h * 3600 + m * 60 + s) (ah * 3600 + am * 60 + as)"
      using t p by (auto simp: wait_of_def wait_in_day secs_to_def)
    then show ?thesis using 1 t p by (intro first_alarmI [OF refl t, where ?h1.0 = ah and ?m1.0 = am and ?s1.0 = as]) auto
  next
    case 2
    then have "wait_of h m s (Some ah) pm ps = 0" using t by (simp add: wait_of_def wait_in_day)
    then show ?thesis using 2 t p by (intro first_alarmI [OF refl t, where ?h1.0 = h and ?m1.0 = m and ?s1.0 = s]) (auto simp: secs_to_def)
  next
    case 3
    have "wait_of h m s (Some ah) pm ps = secs_to (h * 3600 + m * 60 + s) (ah * 3600 + 0 * 60 + 0)"
      using 3 t p by (auto simp: wait_of_def wait_in_day secs_to_def)
    then show ?thesis using 3 t p by (intro first_alarmI [OF refl t, where ?h1.0 = ah and ?m1.0 = 0 and ?s1.0 = 0]) (auto simp: secs_to_def)
  next
    case 4
    then have "wait_of h m s (Some ah) pm ps = 0" using t by (simp add: wait_of_def wait_in_day)
    then show ?thesis using 4 t p by (intro first_alarmI [OF refl t, where ?h1.0 = h and ?m1.0 = m and ?s1.0 = s]) (auto simp: secs_to_def)
  next
    case 5
    have "wait_of h m s (Some ah) pm ps = secs_to (h * 3600 + m * 60 + s) (ah * 3600 + am * 60 + 0)"
      by (cases "ah < h"; cases "ah = h"; cases "am < m"; cases "am = m") (use 5 t p in \<open>auto simp: wait_of_def wait_in_day secs_to_def Let_def\<close>)
    moreover have "secs_to (h * 3600 + m * 60 + s) (ah * 3600 + am * 60 + 0) \<le> secs_to (h * 3600 + m * 60 + s) (ah * 3600 + am * 60 + s2)"
      if "0 \<le> s2" "s2 < 60" for s2
      by (cases "ah < h"; cases "ah = h"; cases "am < m"; cases "am = m") (use that 5 t p in \<open>auto simp: secs_to_def\<close>)
    ultimately show ?thesis using 5 t p by (intro first_alarmI [OF refl t, where ?h1.0 = ah and ?m1.0 = am and ?s1.0 = 0]) auto
  next
    case 6
    have "wait_of h m s (Some ah) pm ps = secs_to (h * 3600 + m * 60 + s) (ah * 3600 + 0 * 60 + as)"
      using 6 t p by (auto simp: wait_of_def wait_in_day secs_to_def)
    then show ?thesis using 6 t p by (intro first_alarmI [OF refl t, where ?h1.0 = ah and ?m1.0 = 0 and ?s1.0 = as]) (auto simp: secs_to_def)
  next
    case 7
    have "wait_of h m s (Some ah) pm ps = secs_to (h * 3600 + m * 60 + s) (h * 3600 + m * 60 + as)"
      by (cases "m = 0") (use 7 t p in \<open>auto simp: wait_of_def wait_in_day secs_to_def Let_def\<close>)
    then show ?thesis using 7 t p by (intro first_alarmI [OF refl t, where ?h1.0 = h and ?m1.0 = m and ?s1.0 = as]) (auto simp: secs_to_def)
  next
    case 8
    have "wait_of h m s (Some ah) pm ps = secs_to (h * 3600 + m * 60 + s) (h * 3600 + 0 * 60 + as)"
      using 8 t p by (auto simp: wait_of_def wait_in_day secs_to_def)
    then show ?thesis using 8 t p by (intro first_alarmI [OF refl t, where ?h1.0 = h and ?m1.0 = 0 and ?s1.0 = as]) (auto simp: secs_to_def)
  qed
qed

lemma wait_of_shift: "wait_of (h + k) m s (Some (ah + k)) pm ps = wait_of h m s (Some ah) pm ps" "wait_of (h + k) m s None pm ps = wait_of h m s None pm ps"
  by (simp_all add: wait_of_def algebra_simps)

lemma wait_of_code_hour:
  assumes "\<not> (twelve \<and> (\<exists>a. ph = Some a \<and> (a mod 12 = 0) \<noteq> (h mod 12 = 0)))"
  shows "wait_of (code_hour twelve h) m s (map_option (code_hour twelve) ph) pm ps = wait_of h m s ph pm ps"
  using assms wait_of_shift(1) [of h 12 m s _ pm ps] wait_of_shift(2) [of h 12 m s pm ps]
  by (cases ph) (auto simp: code_hour_def)

text \<open>Twelve o'clock: the code counts it as the hour twelve hours later, so that it exchanges noon and midnight.\<close>

definition noon_swap :: "int \<Rightarrow> int" where
  "noon_swap x = (if x mod 12 = 0 then 12 - x else x)"

lemma noon_swap_hour:
  assumes "0 \<le> x" "x < 24"
  shows "0 \<le> noon_swap x" "noon_swap x < 24" "1 \<le> code_hour True x" "code_hour True x \<le> 24"
    "code_hour True x = noon_swap x + (if x = 12 then 1 else 0) * 24" "noon_swap x mod 12 = 0 \<longleftrightarrow> x mod 12 = 0"
proof -
  have "x mod 12 = 0 \<longleftrightarrow> x = 0 \<or> x = 12" using assms by presburger
  then show "0 \<le> noon_swap x" "noon_swap x < 24" "1 \<le> code_hour True x" "code_hour True x \<le> 24"
    "code_hour True x = noon_swap x + (if x = 12 then 1 else 0) * 24" "noon_swap x mod 12 = 0 \<longleftrightarrow> x mod 12 = 0"
    using assms by (auto simp: noon_swap_def code_hour_def)
qed

lemma wait_of_noon:
  assumes "0 \<le> h" "h < 24" "0 \<le> m" "m < 60" "0 \<le> s" "s < 60" "0 \<le> a" "a < 24"
    and "pm = None \<or> pm = Some am \<and> 0 \<le> am \<and> am < 60" "ps = None \<or> ps = Some as \<and> 0 \<le> as \<and> as < 60"
  shows "wait_of (code_hour True h) m s (Some (code_hour True a)) pm ps = wait_of (noon_swap h) m s (Some (noon_swap a)) pm ps"
proof -
  define b c where bc: "b = (case pm of None \<Rightarrow> m | Some x \<Rightarrow> x)" "c = (case ps of None \<Rightarrow> s | Some x \<Rightarrow> x)"
  have t: "0 \<le> b" "b < 60" "0 \<le> c" "c < 60" using assms by (auto simp: bc)
  note H = noon_swap_hour [OF assms(1,2)] and A = noon_swap_hour [OF assms(7,8)]
  let ?x = "c + b * 60 + code_hour True a * 3600 - (s + m * 60 + code_hour True h * 3600)"
    and ?y = "c + b * 60 + noon_swap a * 3600 - (s + m * 60 + noon_swap h * 3600)"
  have "?x = ?y + ((if a = 12 then 1 else 0) - (if h = 12 then 1 else 0)) * 86400" unfolding H(5) A(5) by (simp add: algebra_simps)
  then have "?x mod 86400 = ?y mod 86400" by (simp only: mod_mult_self1)
  moreover have "?x < 86400" "?y < 86400" using H(1-4) A(1-4) t assms(1-8) by linarith+
  ultimately have "add_days ?x = add_days ?y" by (simp only: add_days_mod)
  then show ?thesis unfolding wait_of_def option.case bc by (simp only: option.distinct if_False simp_thms)
qed

text \<open>C39: The time until the alarm. For every setting of the clock, in BCD or binary, in 24-hour or 12-hour mode, with alarm registers set to a value or
  wild in every combination, the controller waits until the first time of day, from now on, at which the registers that are not wild agree with
  the clock. There are two exceptions, in which the code does something else: in 12-hour mode, if one of the two hours is a twelve and the other is
  not, it waits for the first alarm of a clock on which noon and midnight are exchanged; and if the hour is the current one, the minute is wild and
  the second has passed, it waits for the next day instead of the next minute. With the alarm disabled it does not wait.\<close>

theorem acpi_alarm_wait:
  fixes h m s :: int
  assumes "coded = (\<not> bit (r 0xb) 2)" "twelve = (\<not> bit (r 0xb) 1)"
    and "0 \<le> h" "h < 24" "0 \<le> m" "m < 60" "0 \<le> s" "s < 60"
    and "r 4 = hour_byte twelve coded h" "r 2 = clock_byte coded m" "r 0 = clock_byte coded s"
    and "alarm_coded (hour_byte twelve coded) 24 ph (r 5)" "alarm_coded (clock_byte coded) 60 pm (r 3)" "alarm_coded (clock_byte coded) 60 ps (r 1)"
  shows "if \<not> bit (r 0xb) 5 then calculate_wait r = - 1
    else if twelve \<and> (\<exists>a. ph = Some a \<and> (a mod 12 = 0) \<noteq> (h mod 12 = 0)) then
      first_alarm (noon_swap h * 3600 + m * 60 + s) (map_option noon_swap ph) pm ps (calculate_wait r)
    else if ph = Some h \<and> pm = None \<and> (\<exists>c. ps = Some c \<and> c < s) \<and> m < 59 then
      calculate_wait r = 86400 - m * 60 + the ps - s
    else first_alarm (h * 3600 + m * 60 + s) ph pm ps (calculate_wait r)"
proof (cases "bit (r 0xb) 5")
  case True
  note w = calculate_wait_value [OF assms(1,2) True assms(3-14)]
  have f: "pm = None \<or> (\<exists>x. pm = Some x \<and> 0 \<le> x \<and> x < 60)" "ps = None \<or> (\<exists>x. ps = Some x \<and> 0 \<le> x \<and> x < 60)" "ph = None \<or> (\<exists>x. ph = Some x \<and> 0 \<le> x \<and> x < 24)"
    using assms(12-14) by (auto simp: alarm_coded_def split: option.splits)
  then obtain am as where p: "pm = None \<or> pm = Some am \<and> 0 \<le> am \<and> am < 60" "ps = None \<or> ps = Some as \<and> 0 \<le> as \<and> as < 60" by blast
  consider (twelve) "twelve \<and> (\<exists>a. ph = Some a \<and> (a mod 12 = 0) \<noteq> (h mod 12 = 0))"
    | (day) "\<not> (twelve \<and> (\<exists>a. ph = Some a \<and> (a mod 12 = 0) \<noteq> (h mod 12 = 0)))" "ph = Some h \<and> pm = None \<and> (\<exists>c. ps = Some c \<and> c < s) \<and> m < 59"
    | (first) "\<not> (twelve \<and> (\<exists>a. ph = Some a \<and> (a mod 12 = 0) \<noteq> (h mod 12 = 0)))" "\<not> (ph = Some h \<and> pm = None \<and> (\<exists>c. ps = Some c \<and> c < s) \<and> m < 59)"
    by blast
  then show ?thesis
  proof cases
    case twelve
    then obtain a where a: "ph = Some a" "(a mod 12 = 0) \<noteq> (h mod 12 = 0)" and t: twelve by (elim conjE exE)
    then have r: "0 \<le> a" "a < 24" using f(3) by simp_all
    have "noon_swap a \<noteq> noon_swap h" using a(2) noon_swap_hour(6) [OF r] noon_swap_hour(6) [OF assms(3,4)] by argo
    then have "first_alarm (noon_swap h * 3600 + m * 60 + s) (Some (noon_swap a)) pm ps (wait_of (noon_swap h) m s (Some (noon_swap a)) pm ps)"
      using wait_hour_set [OF noon_swap_hour(1,2) [OF assms(3,4)] assms(5-8) noon_swap_hour(1,2) [OF r] p] by blast
    then show ?thesis using True twelve a(1) t by (simp add: w wait_of_noon [OF assms(3-8) r p])
  next
    case day
    then obtain c where "ps = Some c" "c < s" "0 \<le> c" using f(2) by auto
    then have "wait_of h m s ph pm ps = 86400 - m * 60 + c - s" using day(2) assms(3-8) by (auto simp: wait_of_def wait_in_day)
    then show ?thesis using True day w wait_of_code_hour [OF day(1)] \<open>ps = Some c\<close> by simp
  next
    case first
    have "first_alarm (h * 3600 + m * 60 + s) ph pm ps (wait_of h m s ph pm ps)"
    proof (cases ph)
      case (Some ah)
      then show ?thesis using wait_hour_set [OF assms(3-8) _ _ p, of ah] f(3) first(2) by simp
    qed (use wait_hour_wild [OF assms(3-8) p] in simp)
    then have "first_alarm (h * 3600 + m * 60 + s) ph pm ps (calculate_wait r)" by (simp only: w wait_of_code_hour [OF first(1)])
    then show ?thesis by (simp only: True not_True_eq_False if_False if_not_P [OF first(1)] if_not_P [OF first(2)])
  qed
qed (simp add: calculate_wait_def)

text \<open>From 23:59:30 the alarm for ten minutes past an hour is 630 seconds away; the alarm is wild in the hour.\<close>

theorem acpi_alarm_wait_witness:
  "first_alarm (23 * 3600 + 59 * 60 + 30) None (Some 10) (Some 0)
     (calculate_wait (\<lambda>i. if i = 4 then 0x23 else if i = 2 then 0x59 else if i = 0 then 0x30 else if i = 3 then 0x10 else if i = 5 then 0xff else if i = 0xb then 0x22 else 0))"
proof -
  let ?r = "\<lambda>i :: nat. if i = 4 then 0x23 else if i = 2 then 0x59 else if i = 0 then 0x30 else if i = 3 then 0x10 else if i = 5 then 0xff else if i = 0xb then 0x22 else 0 :: u8"
  have b: "\<not> bit (0x22 :: u8) 2" "bit (0x22 :: u8) 1" "bit (0x22 :: u8) 5" by (simp_all add: bit_numeral_rec numeral_2_eq_2)
  show ?thesis using acpi_alarm_wait [of True ?r False 23 59 30 None "Some 10" "Some 0"] b by (simp add: clock_byte_def hour_byte_def alarm_coded_def)
qed

end
