(* ===== verification/Buffered_File.thy ===== *)
theory Buffered_File
  imports Qemu_File
begin

text \<open>
  The rate-limited output of a migration: the buffered file of \<^verbatim>\<open>buffered_file.c\<close> that \<^verbatim>\<open>QEMUFile\<close> writes to, on the descriptor of
  \<^verbatim>\<open>migration.c\<close>. The buffered file is parametrised by its \<^verbatim>\<open>put_buffer\<close>, \<^verbatim>\<open>put_ready\<close>, \<^verbatim>\<open>wait_for_unfreeze\<close> and \<^verbatim>\<open>close\<close> pointers (\<open>buffered_ops\<close>); the
  locales \<open>put_backend\<close> and \<open>prompt_backend\<close> say what it needs of \<^verbatim>\<open>put_buffer\<close>, and the descriptor of a migration provides it. The first
  \<^verbatim>\<open>buffer_size\<close> bytes of the buffer are the list \<open>bf_buffer\<close>. Allocation succeeds. The tick timer is the time it is set to, \<open>None\<close> when it has been
  deleted. \<open>fd_write\<close> and \<open>fd_errno\<close> are what the host answers to the \<open>n\<close>th write to the descriptor; error numbers are those of Linux.
\<close>

section \<open>The buffered file\<close>

abbreviation (input) "EINTR \<equiv> (4::int)"
abbreviation (input) "EAGAIN \<equiv> (11::int)"
abbreviation (input) "EWOULDBLOCK \<equiv> (11::int)"
abbreviation (input) "EINVAL \<equiv> (22::int)"

record 'o buffered =
  bf_opaque :: 'o
  bf_has_error :: bool
  freeze_output :: bool
  bytes_xfer :: u64
  xfer_limit :: u64
  bf_buffer :: "u8 list"
  buffer_capacity :: nat
  bf_timer :: "int option"

type_synonym 'o put_fn = "u8 list \<Rightarrow> 'o \<Rightarrow> (int \<times> 'o) res"

record 'o buffered_ops =
  op_put :: "'o put_fn"
  op_ready :: "'o buffered \<Rightarrow> 'o buffered res"
  op_wait :: "'o buffered \<Rightarrow> 'o buffered res"
  op_close :: "'o \<Rightarrow> int \<times> 'o"

definition buffered_append :: "u8 list \<Rightarrow> 'o buffered \<Rightarrow> 'o buffered" where
  "buffered_append data s =
     (let s = (if length data > buffer_capacity s - length (bf_buffer s)
               then s\<lparr>buffer_capacity := buffer_capacity s + length data + 1024\<rparr> else s)
      in s\<lparr>bf_buffer := bf_buffer s @ data\<rparr>)"

text \<open>The loop of \<^verbatim>\<open>buffered_flush\<close> on the bytes not yet sent. A return value above the number of bytes offered would make the final move
  of the buffer negative.\<close>

function flush_loop :: "'o put_fn \<Rightarrow> u8 list \<Rightarrow> 'o buffered \<Rightarrow> (u8 list \<times> 'o buffered) res" where
  "flush_loop put rest s =
     (if rest = [] then Inr ([], s)
      else res_bind (put rest (bf_opaque s)) (\<lambda>(ret, q).
        let s = s\<lparr>bf_opaque := q\<rparr> in
        if ret = - EAGAIN then Inr (rest, s\<lparr>freeze_output := True\<rparr>)
        else if ret \<le> 0 then Inr (rest, s\<lparr>bf_has_error := True\<rparr>)
        else if nat ret > length rest then Inl Bad_access
        else flush_loop put (drop (nat ret) rest) s))"
  by pat_completeness auto
termination
  by (relation "measure (\<lambda>(put, rest, s). length rest)") auto

declare flush_loop.simps [simp del]

definition buffered_flush :: "'o put_fn \<Rightarrow> 'o buffered \<Rightarrow> 'o buffered res" where
  "buffered_flush put s =
     (if bf_has_error s then Inr s
      else res_bind (flush_loop put (bf_buffer s) s) (\<lambda>(rest, s). Inr (s\<lparr>bf_buffer := rest\<rparr>)))"

text \<open>The loop of \<^verbatim>\<open>buffered_put_buffer\<close>; \<open>None\<close> is the negative offset after an error.\<close>

function put_loop :: "'o put_fn \<Rightarrow> u8 list \<Rightarrow> 'o buffered \<Rightarrow> (u8 list option \<times> 'o buffered) res" where
  "put_loop put rest s =
     (if freeze_output s \<or> rest = [] \<or> bytes_xfer s > xfer_limit s then Inr (Some rest, s)
      else res_bind (put rest (bf_opaque s)) (\<lambda>(ret, q).
        let s = s\<lparr>bf_opaque := q\<rparr> in
        if ret = - EAGAIN then Inr (Some rest, s\<lparr>freeze_output := True\<rparr>)
        else if ret \<le> 0 then Inr (None, s\<lparr>bf_has_error := True\<rparr>)
        else if nat ret > length rest then Inl Bad_access
        else put_loop put (drop (nat ret) rest) (s\<lparr>bytes_xfer := bytes_xfer s + word_of_int ret\<rparr>)))"
  by pat_completeness auto
termination
  by (relation "measure (\<lambda>(put, rest, s). length rest)") auto

declare put_loop.simps [simp del]

definition buffered_put_buffer :: "'o put_fn \<Rightarrow> u8 list \<Rightarrow> 'o buffered \<Rightarrow> (int \<times> 'o buffered) res" where
  "buffered_put_buffer put data s =
     (if bf_has_error s then Inr (- EINVAL, s)
      else res_bind (buffered_flush put (s\<lparr>freeze_output := False\<rparr>)) (\<lambda>s.
        res_bind (put_loop put data s) (\<lambda>(rest, s).
        Inr (case rest of None \<Rightarrow> (- EINVAL, s) | Some rest \<Rightarrow> (int (length data), buffered_append rest s)))))"

text \<open>The loop of \<^verbatim>\<open>buffered_close\<close> goes on while the back end is not ready; \<open>None\<close> means that it has not ended after \<open>n\<close> rounds.\<close>

fun close_loop :: "nat \<Rightarrow> 'o buffered_ops \<Rightarrow> 'o buffered \<Rightarrow> 'o buffered res option" where
  "close_loop n p s =
     (if bf_has_error s \<or> bf_buffer s = [] then Some (Inr s)
      else case n of 0 \<Rightarrow> None
      | Suc n \<Rightarrow> (case res_bind (buffered_flush (op_put p) s) (\<lambda>s. if freeze_output s then op_wait p s else Inr s) of
          Inl e \<Rightarrow> Some (Inl e)
        | Inr s \<Rightarrow> close_loop n p s))"

declare close_loop.simps [simp del]

definition buffered_close :: "nat \<Rightarrow> 'o buffered_ops \<Rightarrow> 'o buffered \<Rightarrow> (int \<times> 'o) res option" where
  "buffered_close n p s =
     map_option (\<lambda>r. res_bind r (\<lambda>s. Inr (op_close p (bf_opaque s)))) (close_loop n p s)"

definition buffered_rate_limit :: "'o buffered \<Rightarrow> bool" where
  "buffered_rate_limit s \<longleftrightarrow> \<not> bf_has_error s \<and> (freeze_output s \<or> bytes_xfer s > xfer_limit s)"

definition buffered_rate_tick :: "'o buffered_ops \<Rightarrow> int \<Rightarrow> 'o buffered \<Rightarrow> 'o buffered res" where
  "buffered_rate_tick p now s =
     (if bf_has_error s then Inr s
      else let s = s\<lparr>bf_timer := Some (now + 100)\<rparr> in
        if freeze_output s then Inr s
        else res_bind (buffered_flush (op_put p) (s\<lparr>bytes_xfer := 0\<rparr>)) (op_ready p))"

definition qemu_fopen_ops_buffered :: "'o \<Rightarrow> u64 \<Rightarrow> int \<Rightarrow> 'o buffered" where
  "qemu_fopen_ops_buffered opq bytes_per_sec now =
     \<lparr>bf_opaque = opq, bf_has_error = False, freeze_output = False, bytes_xfer = 0, xfer_limit = bytes_per_sec div 10,
      bf_buffer = [], buffer_capacity = 0, bf_timer = Some (now + 100)\<rparr>"

section \<open>The descriptor of a migration\<close>

record fd_migration =
  fd_write :: "nat \<Rightarrow> u8 list \<Rightarrow> int"
  fd_errno :: "nat \<Rightarrow> int"
  fd_calls :: nat
  fd_sent :: "u8 list"
  fd_notify :: bool

text \<open>\<^verbatim>\<open>migrate_fd_put_buffer\<close> repeats a write as long as the host reports one of two transient errors; \<open>None\<close> means that it does so for ever.\<close>

definition fd_transient :: "fd_migration \<Rightarrow> nat \<Rightarrow> u8 list \<Rightarrow> bool" where
  "fd_transient s n data \<longleftrightarrow> fd_write s n data = - 1 \<and> (fd_errno s n = EINTR \<or> fd_errno s n = EWOULDBLOCK)"

partial_function (option) migrate_fd_put_buffer :: "u8 list \<Rightarrow> fd_migration \<Rightarrow> (int \<times> fd_migration) option" where
  "migrate_fd_put_buffer data s =
     (let n = fd_calls s; ret = fd_write s n data; s1 = s\<lparr>fd_calls := n + 1, fd_sent := fd_sent s @ take (nat ret) data\<rparr> in
      if fd_transient s n data then migrate_fd_put_buffer data s1
      else let ret = (if ret = - 1 then - fd_errno s n else ret) in
        Some (ret, if ret = - EAGAIN then s1\<lparr>fd_notify := True\<rparr> else s1))"

declare migrate_fd_put_buffer.simps [code]

definition fd_put :: "u8 list \<Rightarrow> fd_migration \<Rightarrow> (int \<times> fd_migration) res" where
  "fd_put data s = (case migrate_fd_put_buffer data s of None \<Rightarrow> Inl Loops | Some r \<Rightarrow> Inr r)"

text \<open>The call-backs of a migration. \<^verbatim>\<open>buffered_close\<close> hands the buffered file itself to \<^verbatim>\<open>wait_for_unfreeze\<close>, where \<^verbatim>\<open>migrate_fd_wait_for_unfreeze\<close> expects
  the state of the migration: an access to the wrong object. \<open>ready\<close> stands for the next round of the snapshot.\<close>

definition migrate_ops ::
  "(fd_migration buffered \<Rightarrow> fd_migration buffered res) \<Rightarrow> (fd_migration \<Rightarrow> int \<times> fd_migration) \<Rightarrow> fd_migration buffered_ops" where
  "migrate_ops ready cl = \<lparr>op_put = fd_put, op_ready = ready, op_wait = (\<lambda>_. Inl Bad_access), op_close = cl\<rparr>"

section \<open>Uses of the file\<close>

text \<open>\<^verbatim>\<open>QEMUFile\<close> puts blocks; at a tick \<^verbatim>\<open>put_ready\<close> may put more. \<open>event_bytes\<close> are the bytes of the blocks.\<close>

definition put_block :: "'o put_fn \<Rightarrow> u8 list \<Rightarrow> 'o buffered \<Rightarrow> 'o buffered res" where
  "put_block put data s = res_bind (buffered_put_buffer put data s) (\<lambda>(r, s). Inr s)"

datatype bf_event = Put "u8 list" | Tick int "u8 list list"

fun bf_step :: "'o buffered_ops \<Rightarrow> bf_event \<Rightarrow> 'o buffered \<Rightarrow> 'o buffered res" where
  "bf_step p (Put data) s = put_block (op_put p) data s"
| "bf_step p (Tick now blocks) s = buffered_rate_tick (p\<lparr>op_ready := res_fold (put_block (op_put p)) blocks\<rparr>) now s"

fun event_bytes :: "bf_event \<Rightarrow> u8 list" where
  "event_bytes (Put data) = data"
| "event_bytes (Tick now blocks) = concat blocks"

section \<open>What the file needs of its back end\<close>

text \<open>\<open>put_backend\<close>: a call sends a prefix of what it is offered, and an error other than \<^verbatim>\<open>EAGAIN\<close> is a failure that lasts. \<open>prompt_backend\<close>:
  calls return, and the back end waits itself until it can send.\<close>

locale put_backend =
  fixes put :: "'o put_fn"
    and ok :: "'o \<Rightarrow> bool"
    and sent :: "'o \<Rightarrow> u8 list"
    and failed :: "'o \<Rightarrow> bool"
  assumes put_law: "ok q \<Longrightarrow> data \<noteq> [] \<Longrightarrow> put data q = Inr (r, q') \<Longrightarrow>
    ok q' \<and> r \<le> int (length data) \<and> sent q' = sent q @ take (nat r) data
      \<and> (r \<le> 0 \<and> r \<noteq> - EAGAIN \<longrightarrow> failed q') \<and> (failed q \<longrightarrow> failed q')"
begin

text \<open>What has been sent and what is still to be sent; and the states between two calls.\<close>

definition stream :: "'o buffered \<Rightarrow> u8 list" where
  "stream s = sent (bf_opaque s) @ bf_buffer s"

definition fine :: "'o buffered \<Rightarrow> bool" where
  "fine s \<longleftrightarrow> ok (bf_opaque s) \<and> (bf_has_error s \<longrightarrow> failed (bf_opaque s))"

lemma flush_loop_stream:
  "fine s \<Longrightarrow> \<not> bf_has_error s \<Longrightarrow> flush_loop put rest s = Inr (rest', s') \<Longrightarrow>
     fine s' \<and> sent (bf_opaque s') @ rest' = sent (bf_opaque s) @ rest
     \<and> (bf_has_error s' \<or> freeze_output s' \<or> rest' = []) \<and> xfer_limit s' = xfer_limit s \<and> bytes_xfer s' = bytes_xfer s"
proof (induction "length rest" arbitrary: rest s rule: less_induct)
  case less
  show ?case
  proof (cases "rest = []")
    case False
    then obtain r q where put: "put rest (bf_opaque s) = Inr (r, q)"
      using less.prems(3) by (subst (asm) flush_loop.simps) (auto simp: res_bind_Inr_iff)
    note law = put_law [OF _ False put]
    let ?s = "s\<lparr>bf_opaque := q\<rparr>"
    have fine: "fine ?s" using law less.prems(1,2) by (simp add: fine_def)
    show ?thesis
    proof (cases "0 < r")
      case True
      then have "flush_loop put (drop (nat r) rest) ?s = Inr (rest', s')"
        using less.prems(3) put False by (subst (asm) flush_loop.simps) (auto simp: Let_def split: if_splits)
      from less.hyps [OF _ fine _ this] True False less.prems(1,2) law show ?thesis by (auto simp: fine_def)
    next
      case neg: False
      then show ?thesis using less.prems put False law
        by (subst (asm) flush_loop.simps) (auto simp: Let_def fine_def split: if_splits)
    qed
  qed (use less.prems in \<open>subst (asm) flush_loop.simps, auto\<close>)
qed

lemma put_loop_stream:
  "fine s \<Longrightarrow> put_loop put rest s = Inr (r, s') \<Longrightarrow>
     fine s' \<and> bf_buffer s' = bf_buffer s \<and> (bf_has_error s \<longrightarrow> bf_has_error s')
     \<and> (case r of None \<Rightarrow> bf_has_error s' | Some rest' \<Rightarrow> sent (bf_opaque s') @ rest' = sent (bf_opaque s) @ rest)"
proof (induction "length rest" arbitrary: rest s rule: less_induct)
  case less
  show ?case
  proof (cases "freeze_output s \<or> rest = [] \<or> bytes_xfer s > xfer_limit s")
    case False
    then obtain ret q where put: "put rest (bf_opaque s) = Inr (ret, q)"
      using less.prems(2) by (subst (asm) put_loop.simps) (auto simp: res_bind_Inr_iff)
    have law: "ok q \<and> ret \<le> int (length rest) \<and> sent q = sent (bf_opaque s) @ take (nat ret) rest
        \<and> (ret \<le> 0 \<and> ret \<noteq> - EAGAIN \<longrightarrow> failed q) \<and> (failed (bf_opaque s) \<longrightarrow> failed q)"
      using put_law [OF _ _ put] less.prems(1) False by (simp add: fine_def)
    show ?thesis
    proof (cases "0 < ret")
      case True
      let ?s = "s\<lparr>bf_opaque := q, bytes_xfer := bytes_xfer s + word_of_int ret\<rparr>"
      have l: "put_loop put (drop (nat ret) rest) ?s = Inr (r, s')"
        using less.prems(2) put False True by (subst (asm) put_loop.simps) (auto simp: Let_def split: if_splits)
      have "fine ?s" using law less.prems(1) by (simp add: fine_def)
      from less.hyps [OF _ this l] True False law show ?thesis by (auto split: option.splits)
    next
      case neg: False
      then show ?thesis using less.prems put False law
        by (subst (asm) put_loop.simps) (auto simp: Let_def fine_def split: if_splits)
    qed
  qed (use less.prems in \<open>subst (asm) put_loop.simps, auto\<close>)
qed

lemma flush_stream:
  assumes "fine s" "buffered_flush put s = Inr s'"
  shows "fine s' \<and> stream s' = stream s \<and> (bf_has_error s' \<or> freeze_output s' \<or> bf_buffer s' = [])"
proof (cases "bf_has_error s")
  case False
  then obtain rest t where "flush_loop put (bf_buffer s) s = Inr (rest, t)" "s' = t\<lparr>bf_buffer := rest\<rparr>"
    using assms(2) by (auto simp: buffered_flush_def res_bind_Inr_iff)
  then show ?thesis using flush_loop_stream [OF assms(1) False] by (simp add: stream_def fine_def)
qed (use assms in \<open>simp add: buffered_flush_def\<close>)

lemma append_simps [simp]:
  "bf_opaque (buffered_append d s) = bf_opaque s" "bf_has_error (buffered_append d s) = bf_has_error s"
  "bf_buffer (buffered_append d s) = bf_buffer s @ d" "freeze_output (buffered_append d s) = freeze_output s"
  by (simp_all add: buffered_append_def Let_def)

lemma put_buffer_stream:
  assumes "fine s" "buffered_put_buffer put data s = Inr (r, s')"
  shows "fine s' \<and> (\<not> bf_has_error s' \<longrightarrow> \<not> bf_has_error s \<and> stream s' = stream s @ data)"
proof (cases "bf_has_error s")
  case False
  then obtain t rest u where t: "buffered_flush put (s\<lparr>freeze_output := False\<rparr>) = Inr t" "put_loop put data t = Inr (rest, u)"
    "s' = (case rest of None \<Rightarrow> u | Some rest \<Rightarrow> buffered_append rest u)"
    using assms(2) by (auto simp: buffered_put_buffer_def res_bind_Inr_iff split: option.splits)
  have "fine (s\<lparr>freeze_output := False\<rparr>)" using assms(1) by (simp add: fine_def)
  note fl = flush_stream [OF this t(1)]
  have pl: "freeze_output t \<Longrightarrow> rest = Some data \<and> u = t" using t(2) by (subst (asm) put_loop.simps) auto
  show ?thesis using fl put_loop_stream [OF _ t(2)] pl t(3) False
    by (cases rest; cases "freeze_output t") (auto simp: stream_def fine_def)
qed (use assms in \<open>simp add: buffered_put_buffer_def\<close>)

end

locale prompt_backend = put_backend +
  assumes put_returns: "ok q \<Longrightarrow> data \<noteq> [] \<Longrightarrow> \<exists>r q'. put data q = Inr (r, q') \<and> r \<noteq> - EAGAIN"
begin

lemma flush_loop_returns:
  "ok (bf_opaque s) \<Longrightarrow> returns (\<lambda>(rest', s'). freeze_output s' = freeze_output s) (flush_loop put rest s)"
proof (induction "length rest" arbitrary: rest s rule: less_induct)
  case less
  show ?case
  proof (cases "rest = []")
    case False
    obtain r q where put: "put rest (bf_opaque s) = Inr (r, q)" "r \<noteq> - EAGAIN" using put_returns [OF less.prems False] by blast
    let ?s = "s\<lparr>bf_opaque := q\<rparr>"
    have law: "ok q \<and> r \<le> int (length rest)" using put_law [OF less.prems False put(1)] by simp
    then have "0 < r \<Longrightarrow> returns (\<lambda>(rest', s'). freeze_output s' = freeze_output ?s) (flush_loop put (drop (nat r) rest) ?s)"
      using False by (intro less.hyps) auto
    then show ?thesis using put False law by (subst flush_loop.simps) (auto simp: Let_def)
  qed (subst flush_loop.simps, simp)
qed

lemma put_loop_returns:
  "ok (bf_opaque s) \<Longrightarrow> returns (\<lambda>(rest', s'). freeze_output s' = freeze_output s) (put_loop put rest s)"
proof (induction "length rest" arbitrary: rest s rule: less_induct)
  case less
  show ?case
  proof (cases "freeze_output s \<or> rest = [] \<or> bytes_xfer s > xfer_limit s")
    case False
    then have ne: "rest \<noteq> []" by simp
    obtain r q where put: "put rest (bf_opaque s) = Inr (r, q)" "r \<noteq> - EAGAIN" using put_returns [OF less.prems ne] by blast
    let ?s = "s\<lparr>bf_opaque := q, bytes_xfer := bytes_xfer s + word_of_int r\<rparr>"
    have law: "ok q \<and> r \<le> int (length rest)" using put_law [OF less.prems ne put(1)] by simp
    then have "0 < r \<Longrightarrow> returns (\<lambda>(rest', s'). freeze_output s' = freeze_output ?s) (put_loop put (drop (nat r) rest) ?s)"
      using ne by (intro less.hyps) auto
    then show ?thesis using put False law by (subst put_loop.simps) (auto simp: Let_def)
  qed (subst put_loop.simps, auto)
qed

definition running :: "u8 list \<Rightarrow> 'a buffered \<Rightarrow> bool" where
  "running bs s \<longleftrightarrow> fine s \<and> \<not> freeze_output s \<and> (bf_has_error s \<or> stream s = bs)"

lemma flush_running:
  assumes "running bs s"
  shows "returns (\<lambda>s. running bs s \<and> (bf_has_error s \<or> bf_buffer s = [])) (buffered_flush put s)"
proof (cases "bf_has_error s")
  case False
  have "ok (bf_opaque s)" using assms by (simp add: running_def fine_def)
  then have "returns (\<lambda>s'. freeze_output s' = freeze_output s) (buffered_flush put s)"
    using flush_loop_returns [of s "bf_buffer s"] False by (auto simp: buffered_flush_def elim!: returnsE)
  then show ?thesis using assms flush_stream [of s] False by (auto simp: running_def elim!: returnsE)
qed (use assms in \<open>simp add: buffered_flush_def\<close>)

lemma put_running:
  assumes "running bs s"
  shows "returns (running (bs @ data)) (put_block put data s)"
proof (cases "bf_has_error s")
  case False
  have "running bs (s\<lparr>freeze_output := False\<rparr>)" using assms by (simp add: running_def fine_def stream_def)
  then obtain t where t: "buffered_flush put (s\<lparr>freeze_output := False\<rparr>) = Inr t" "running bs t" by (blast dest: flush_running elim: returnsE)
  then obtain rest u where u: "put_loop put data t = Inr (rest, u)" "\<not> freeze_output u"
    using put_loop_returns [of t data] by (auto simp: running_def fine_def elim!: returnsE)
  let ?s = "case rest of None \<Rightarrow> u | Some rest \<Rightarrow> buffered_append rest u"
  have b: "buffered_put_buffer put data s = Inr (case rest of None \<Rightarrow> - EINVAL | _ \<Rightarrow> int (length data), ?s)"
    using False t(1) u(1) by (simp add: buffered_put_buffer_def split: option.split)
  have f: "\<not> freeze_output ?s" using u(2) by (simp split: option.split)
  have "put_block put data s = Inr ?s" by (simp add: put_block_def b)
  then show ?thesis using put_buffer_stream [OF _ b] f assms False by (auto simp: running_def)
qed (use assms in \<open>simp add: put_block_def buffered_put_buffer_def running_def\<close>)

lemma blocks_running: "running bs s \<Longrightarrow> returns (running (bs @ concat ds)) (res_fold (put_block put) ds s)"
proof (induction ds arbitrary: bs s)
  case (Cons d ds)
  show ?case using put_running [OF Cons.prems, of d] by (auto dest: Cons.IH elim!: returnsE)
qed simp

lemma step_running:
  assumes "op_put p = put" "running bs s"
  shows "returns (running (bs @ event_bytes ev)) (bf_step p ev s)"
proof (cases ev)
  case (Tick now ds)
  have "running bs (s\<lparr>bf_timer := Some (now + 100), bytes_xfer := 0\<rparr>)" using assms(2) by (simp add: running_def fine_def stream_def)
  then have "returns (running (bs @ concat ds)) (res_bind (buffered_flush put (s\<lparr>bf_timer := Some (now + 100), bytes_xfer := 0\<rparr>)) (res_fold (put_block put) ds))"
    by (rule returns_bind [OF flush_running]) (blast intro: blocks_running)
  then show ?thesis using assms Tick by (auto simp: buffered_rate_tick_def Let_def running_def)
qed (use assms put_running in simp)

lemma run_running: "op_put p = put \<Longrightarrow> running bs s \<Longrightarrow> returns (running (bs @ concat (map event_bytes evs))) (res_fold (bf_step p) evs s)"
proof (induction evs arbitrary: bs s)
  case (Cons ev evs)
  show ?case using step_running [OF Cons.prems, of ev] by (auto dest: Cons.IH [OF Cons.prems(1)] elim!: returnsE)
qed simp

lemma close_running:
  assumes "op_put p = put" "running bs s"
  shows "\<exists>s'. close_loop 1 p s = Some (Inr s') \<and> ok (bf_opaque s') \<and> (failed (bf_opaque s') \<or> sent (bf_opaque s') = bs)"
proof (cases "bf_has_error s \<or> bf_buffer s = []")
  case False
  obtain t where t: "buffered_flush put s = Inr t" "running bs t" "bf_has_error t \<or> bf_buffer t = []" using flush_running [OF assms(2)] by (blast elim: returnsE)
  then have "close_loop 1 p s = Some (Inr t)" using False assms(1)
    by (subst close_loop.simps) (simp add: running_def, subst close_loop.simps, simp)
  then show ?thesis using t(2,3) by (auto simp: running_def fine_def stream_def)
qed (use assms in \<open>subst close_loop.simps, auto simp: running_def fine_def stream_def\<close>)

lemma fopen_running: "ok q \<Longrightarrow> running (sent q) (qemu_fopen_ops_buffered q lim now)"
  by (simp add: running_def fine_def stream_def qemu_fopen_ops_buffered_def)

end

section \<open>The descriptor is such a back end\<close>

text \<open>What \<^verbatim>\<open>write\<close> promises: it returns -1 and an error number, or at most the number of bytes it was given. \<open>fd_ok\<close> adds that transient errors
  come to an end.\<close>

definition fd_posix :: "fd_migration \<Rightarrow> bool" where
  "fd_posix s \<longleftrightarrow> (\<forall>n d. - 1 \<le> fd_write s n d \<and> fd_write s n d \<le> int (length d)) \<and> (\<forall>n. 0 < fd_errno s n)"

definition fd_ok :: "fd_migration \<Rightarrow> bool" where
  "fd_ok s \<longleftrightarrow> fd_posix s \<and> (\<forall>n d. \<exists>k \<ge> n. \<not> fd_transient s k d)"

definition fd_failed :: "fd_migration \<Rightarrow> bool" where
  "fd_failed s \<longleftrightarrow> (\<exists>n < fd_calls s. \<exists>d. d \<noteq> [] \<and> fd_write s n d \<le> 0 \<and> \<not> fd_transient s n d)"

definition fd_result :: "u8 list \<Rightarrow> fd_migration \<Rightarrow> int \<times> fd_migration \<Rightarrow> bool" where
  "fd_result d s = (\<lambda>(r, s'). r \<noteq> - EAGAIN \<and> r \<le> int (length d) \<and> fd_sent s' = fd_sent s @ take (nat r) d
     \<and> fd_write s' = fd_write s \<and> fd_errno s' = fd_errno s \<and> (r \<le> 0 \<or> fd_failed s \<longrightarrow> fd_failed s'))"

lemma fd_put_last:
  assumes "fd_posix s" "\<not> fd_transient s (fd_calls s) d" "d \<noteq> []"
  shows "\<exists>x. migrate_fd_put_buffer d s = Some x \<and> fd_result d s x"
proof -
  let ?n = "fd_calls s"
  let ?w = "fd_write s ?n d"
  have w: "- 1 \<le> ?w" "?w \<le> int (length d)" "0 < fd_errno s ?n" "?w = - 1 \<Longrightarrow> fd_errno s ?n \<noteq> EAGAIN"
    using assms(1,2) by (auto simp: fd_posix_def fd_transient_def)
  have e: "migrate_fd_put_buffer d s
      = Some (if ?w = - 1 then - fd_errno s ?n else ?w, s\<lparr>fd_calls := ?n + 1, fd_sent := fd_sent s @ take (nat ?w) d\<rparr>)"
    using assms(2) w by (subst migrate_fd_put_buffer.simps) (auto simp: Let_def)
  have f: "?w \<le> 0 \<or> fd_failed s \<Longrightarrow> fd_failed (s\<lparr>fd_calls := ?n + 1, fd_sent := fd_sent s @ take (nat ?w) d\<rparr>)"
    using assms(2,3) by (auto simp: fd_failed_def fd_transient_def less_Suc_eq)
  show ?thesis unfolding e using w f by (auto simp: fd_result_def)
qed

lemma fd_put_again:
  assumes "fd_transient s (fd_calls s) d"
  shows "migrate_fd_put_buffer d s = migrate_fd_put_buffer d (s\<lparr>fd_calls := fd_calls s + 1\<rparr>)"
  using assms by (subst migrate_fd_put_buffer.simps) (simp add: Let_def fd_transient_def)

lemma fd_put_ends:
  assumes "fd_posix s" "d \<noteq> []" "\<not> fd_transient s k d" "fd_calls s \<le> k"
  shows "\<exists>x. migrate_fd_put_buffer d s = Some x \<and> fd_result d s x"
  using assms
proof (induction "k - fd_calls s" arbitrary: s)
  case 0
  then show ?case by (intro fd_put_last) auto
next
  case (Suc j)
  let ?s = "s\<lparr>fd_calls := fd_calls s + 1\<rparr>"
  have "\<exists>x. migrate_fd_put_buffer d ?s = Some x \<and> fd_result d ?s x"
    using Suc.hyps(2) Suc.prems by (intro Suc.hyps(1)) (simp_all add: fd_posix_def fd_transient_def)
  moreover have "fd_failed s \<Longrightarrow> fd_failed ?s" by (auto simp: fd_failed_def fd_transient_def less_Suc_eq)
  then have "fd_result d ?s x \<Longrightarrow> fd_result d s x" for x by (auto simp: fd_result_def)
  ultimately show ?case using fd_put_again [of s d] fd_put_last [OF Suc.prems(1) _ Suc.prems(2)] by metis
qed

lemma fd_put_spins: "migrate_fd_put_buffer d s = Some y \<Longrightarrow> \<exists>n \<ge> fd_calls s. \<not> fd_transient s n d"
proof (rule migrate_fd_put_buffer.raw_induct [where P = "\<lambda>d s y. \<exists>n \<ge> fd_calls s. \<not> fd_transient s n d"])
  fix f :: "u8 list \<Rightarrow> fd_migration \<Rightarrow> (int \<times> fd_migration) option" and d y and s :: fd_migration
  let ?s = "s\<lparr>fd_calls := fd_calls s + 1, fd_sent := fd_sent s @ take (nat (fd_write s (fd_calls s) d)) d\<rparr>"
  assume IH: "\<And>d s y. f d s = Some y \<Longrightarrow> \<exists>n \<ge> fd_calls s. \<not> fd_transient s n d"
    and r: "(let n = fd_calls s; ret = fd_write s n d; s1 = s\<lparr>fd_calls := n + 1, fd_sent := fd_sent s @ take (nat ret) d\<rparr> in
      if fd_transient s n d then f d s1
      else let ret = (if ret = - 1 then - fd_errno s n else ret) in
        Some (ret, if ret = - EAGAIN then s1\<lparr>fd_notify := True\<rparr> else s1)) = Some y"
  show "\<exists>n \<ge> fd_calls s. \<not> fd_transient s n d"
  proof (cases "fd_transient s (fd_calls s) d")
    case True
    then have "f d ?s = Some y" using r by (simp add: Let_def)
    from IH [OF this] show ?thesis by (auto simp: fd_transient_def intro: Suc_leD)
  qed auto
qed

definition same_fd :: "fd_migration \<Rightarrow> fd_migration \<Rightarrow> bool" where
  "same_fd q0 q \<longleftrightarrow> fd_ok q \<and> fd_write q = fd_write q0 \<and> fd_errno q = fd_errno q0"

lemma same_fd_put: "same_fd q0 q \<Longrightarrow> data \<noteq> [] \<Longrightarrow> \<exists>x. fd_put data q = Inr x \<and> fd_result data q x"
  unfolding same_fd_def fd_ok_def fd_put_def using fd_put_ends by fastforce

lemma same_fd_result: "same_fd q0 q \<Longrightarrow> fd_result data q (r, q') \<Longrightarrow> same_fd q0 q'"
  by (auto simp: same_fd_def fd_ok_def fd_posix_def fd_result_def fd_transient_def)

interpretation fd_backend: prompt_backend fd_put "same_fd q0" fd_sent fd_failed for q0
proof unfold_locales
  fix q data r q' assume a: "same_fd q0 q" "data \<noteq> []" "fd_put data q = Inr (r, q')"
  then have "fd_result data q (r, q')" using same_fd_put [OF a(1,2)] by simp
  then show "same_fd q0 q' \<and> r \<le> int (length data) \<and> fd_sent q' = fd_sent q @ take (nat r) data
      \<and> (r \<le> 0 \<and> r \<noteq> - EAGAIN \<longrightarrow> fd_failed q') \<and> (fd_failed q \<longrightarrow> fd_failed q')"
    using same_fd_result [OF a(1)] by (auto simp: fd_result_def)
next
  fix q :: fd_migration and data :: "u8 list" assume "same_fd q0 q" "data \<noteq> []"
  from same_fd_put [OF this] show "\<exists>r q'. fd_put data q = Inr (r, q') \<and> r \<noteq> - EAGAIN" by (auto simp: fd_result_def)
qed

section \<open>The stream of a migration\<close>

text \<open>C40: The stream of a migration is complete. When transient errors of the descriptor come to an end, every sequence of blocks and ticks
  returns, output is never frozen, and closing the file ends within one round of its loop; then all bytes have been sent, in the
  order they were put and once each, unless a write has failed for good.\<close>

theorem migration_stream_complete:
  assumes "fd_ok q" "fd_sent q = []"
  shows "\<exists>s s'. res_fold (bf_step (migrate_ops rd cl)) evs (qemu_fopen_ops_buffered q lim now) = Inr s \<and> \<not> freeze_output s
    \<and> close_loop 1 (migrate_ops rd cl) s = Some (Inr s')
    \<and> buffered_close 1 (migrate_ops rd cl) s = Some (Inr (cl (bf_opaque s')))
    \<and> ((\<exists>n < fd_calls (bf_opaque s'). \<exists>d. d \<noteq> [] \<and> fd_write q n d \<le> 0 \<and> \<not> fd_transient q n d)
      \<or> fd_sent (bf_opaque s') = concat (map event_bytes evs))"
proof -
  have p: "op_put (migrate_ops rd cl) = fd_put" by (simp add: migrate_ops_def)
  have "same_fd q q" using assms(1) by (simp add: same_fd_def)
  from fd_backend.fopen_running [OF this] have "fd_backend.running q [] (qemu_fopen_ops_buffered q lim now)" using assms(2) by simp
  from fd_backend.run_running [OF p this, of evs] obtain s where s: "res_fold (bf_step (migrate_ops rd cl)) evs (qemu_fopen_ops_buffered q lim now) = Inr s"
    "fd_backend.running q (concat (map event_bytes evs)) s" by (auto elim: returnsE)
  from fd_backend.close_running [OF p s(2)] obtain s' where c: "close_loop 1 (migrate_ops rd cl) s = Some (Inr s')" "same_fd q (bf_opaque s')"
    "fd_failed (bf_opaque s') \<or> fd_sent (bf_opaque s') = concat (map event_bytes evs)" by blast
  have "buffered_close 1 (migrate_ops rd cl) s = Some (Inr (cl (bf_opaque s')))"
    unfolding buffered_close_def c(1) by (simp add: migrate_ops_def)
  moreover have "\<not> freeze_output s" using s(2) by (simp add: fd_backend.running_def)
  ultimately show ?thesis using s(1) c by (auto simp: same_fd_def fd_failed_def fd_transient_def)
qed

text \<open>A descriptor that takes two bytes at a time and is interrupted at every third write.\<close>

definition slow_fd :: fd_migration where
  "slow_fd = \<lparr>fd_write = (\<lambda>n d. if n mod 3 = 2 then - 1 else min 2 (int (length d))), fd_errno = (\<lambda>_. EINTR), fd_calls = 0, fd_sent = [],
     fd_notify = False\<rparr>"

lemma slow_fd_ok: "fd_ok slow_fd"
proof -
  have "\<exists>k \<ge> n. \<not> fd_transient slow_fd k d" for n d
    by (intro exI [of _ "3 * n"]) (simp add: slow_fd_def fd_transient_def)
  then show ?thesis by (auto simp: fd_ok_def fd_posix_def slow_fd_def)
qed

lemma slow_fd_never_fails: "d \<noteq> [] \<Longrightarrow> fd_write slow_fd n d \<le> 0 \<Longrightarrow> fd_transient slow_fd n d"
  by (auto simp: slow_fd_def fd_transient_def min_def split: if_splits)

theorem migration_stream_complete_witness:
  "\<exists>s q'. res_fold (bf_step (migrate_ops Inr (\<lambda>q. (0, q)))) [Put [1, 2, 3, 4, 5], Tick 100 [[6], [7, 8]], Put []] (qemu_fopen_ops_buffered slow_fd 20 0) = Inr s
    \<and> buffered_close 1 (migrate_ops Inr (\<lambda>q. (0, q))) s = Some (Inr (0, q')) \<and> fd_sent q' = [1, 2, 3, 4, 5, 6, 7, 8]"
proof -
  define evs where "evs = [Put [1, 2, 3, 4, 5], Tick 100 [[6], [7, 8]], Put []]"
  define p where "p = migrate_ops Inr (\<lambda>q. (0, q))"
  have "fd_sent slow_fd = []" by (simp add: slow_fd_def)
  from migration_stream_complete [OF slow_fd_ok this, of Inr "\<lambda>q. (0, q)" evs 20 0, folded p_def] obtain s q' where s: "res_fold (bf_step p) evs (qemu_fopen_ops_buffered slow_fd 20 0) = Inr s"
    "buffered_close 1 p s = Some (Inr (0, q'))"
    "(\<exists>n < fd_calls q'. \<exists>d. d \<noteq> [] \<and> fd_write slow_fd n d \<le> 0 \<and> \<not> fd_transient slow_fd n d) \<or> fd_sent q' = concat (map event_bytes evs)"
    by (metis (no_types))
  have "concat (map event_bytes evs) = [1, 2, 3, 4, 5, 6, 7, 8]" by (simp add: evs_def)
  then have "fd_sent q' = [1, 2, 3, 4, 5, 6, 7, 8]" using s(3) slow_fd_never_fails by metis
  with s(1,2) show ?thesis unfolding evs_def p_def by blast
qed

text \<open>The retry loop of \<^verbatim>\<open>migrate_fd_put_buffer\<close> ends exactly if some later write is not answered with \<^verbatim>\<open>EINTR\<close> or \<^verbatim>\<open>EWOULDBLOCK\<close>. As the
  latter is \<^verbatim>\<open>EAGAIN\<close>, the function never returns \<^verbatim>\<open>-EAGAIN\<close>: a full socket makes the process spin, and the buffered file is never told to wait.\<close>

theorem migrate_put_returns:
  assumes "fd_posix q" "data \<noteq> []"
  shows "((\<exists>n \<ge> fd_calls q. \<not> fd_transient q n data) \<longleftrightarrow> (\<exists>r q'. migrate_fd_put_buffer data q = Some (r, q')))
    \<and> (\<nexists>q'. migrate_fd_put_buffer data q = Some (- EAGAIN, q'))"
proof (cases "\<exists>n \<ge> fd_calls q. \<not> fd_transient q n data")
  case True
  then obtain x where "migrate_fd_put_buffer data q = Some x" "fd_result data q x" using fd_put_ends [OF assms] by blast
  then show ?thesis using True by (cases x) (auto simp: fd_result_def)
next
  case False
  then have "migrate_fd_put_buffer data q = None" using fd_put_spins by (cases "migrate_fd_put_buffer data q") auto
  then show ?thesis using False by simp
qed

theorem migrate_put_returns_witness: "\<exists>r q'. migrate_fd_put_buffer [1, 2, 3] (slow_fd\<lparr>fd_calls := 2\<rparr>) = Some (r, q')"
proof -
  have "fd_posix (slow_fd\<lparr>fd_calls := 2\<rparr>)" by (simp add: fd_posix_def slow_fd_def)
  then have "(\<exists>n \<ge> 2. \<not> fd_transient slow_fd n [1, 2, 3]) \<longleftrightarrow> (\<exists>r q'. migrate_fd_put_buffer [1, 2, 3] (slow_fd\<lparr>fd_calls := 2\<rparr>) = Some (r, q'))"
    using migrate_put_returns [of "slow_fd\<lparr>fd_calls := 2\<rparr>" "[1, 2, 3]"] by (simp add: fd_transient_def)
  moreover have "\<not> fd_transient slow_fd 3 [1, 2, 3]" by (simp add: fd_transient_def slow_fd_def)
  ultimately show ?thesis by (auto intro: exI [of _ 3])
qed

end
