(* ===== verification/Spec2Isabelle.thy ===== *)
theory Spec2Isabelle
  imports I8259 Pc_Snapshot Unplug_Protocol Map_Lock Acpi_Guest Buffered_File
begin

text \<open>
  A verification development of the Xen device model, the process that emulates the hardware of an HVM guest. It models
  the core of the process: how a guest access to a port or to memory travels from the shared request page to a
  device and back, how guest memory is mapped, the devices a PC needs to boot, the PCI bus with the Xen platform device and
  the ACPI controller, and how the whole is saved, restored and sent to another host.

  \<^bold>\<open>The program and its parts.\<close> The hypervisor puts each trapped guest access into a slot of a shared page and
  fires an event channel (\<^verbatim>\<open>i386-dm/helper2.c\<close>). The device model takes the request, splits it into port or memory
  accesses, and sends these through the I/O port table of \<^verbatim>\<open>vl.c\<close> or the region table of \<^verbatim>\<open>i386-dm/exec-dm.c\<close> to the
  handler a device has registered; then it answers the slot and notifies the vcpu. Writes that need no answer come in a ring and are
  drained in batches. Devices raise interrupt lines, arm timers of \<^verbatim>\<open>vl.c\<close> and register themselves with
  \<^verbatim>\<open>savevm.c\<close>, which writes and reads snapshots through a buffered file. Devices that reach into guest memory get pointers
  from the map cache of \<^verbatim>\<open>hw/xen_machine_fv.c\<close>. PCI functions are configured through the ports of the host bridge
  (\<^verbatim>\<open>hw/piix_pci.c\<close>); a write to their configuration moves their regions in the two tables above (\<^verbatim>\<open>hw/pci.c\<close>). The platform device
  (\<^verbatim>\<open>hw/xen_platform.c\<close>) is a PCI function by which paravirtual drivers take emulated disks and cards away, and the ACPI controller
  (\<^verbatim>\<open>hw/piix4acpi.c\<close>) the one by which the tools plug functions and processors and the guest goes to sleep.

  \<^bold>\<open>Theories.\<close>
  \<^item> \<open>Dm_Prelude\<close>: C integers as words, outcomes of C functions that do not return (\<open>dm_error\<close>), the error
    monad, \<open>returns\<close> (a computation ends with a result that satisfies a predicate), bit lemmas.
  \<^item> \<open>Qemu_File\<close> (\<^verbatim>\<open>savevm.c\<close>): \<^verbatim>\<open>QEMUFile\<close>, its 32 KiB buffer and the big-endian transfers. The predicates \<open>emits\<close>
    and \<open>consumes\<close> say what a save function appends and a load function takes; the locale \<open>snapshot_device\<close> is the
    contract between the two, interpreted by the devices.
  \<^item> \<open>Savevm\<close> (\<^verbatim>\<open>savevm.c\<close>): the registry of savable devices, the section format, saving in full and in rounds,
    loading of version 3 and version 2 snapshots.
  \<^item> \<open>Timers\<close> (\<^verbatim>\<open>vl.c\<close>): the ordered lists of active timers, the run loop, \<^verbatim>\<open>muldiv64\<close>.
  \<^item> \<open>Keyed_Table\<close>, \<open>Ioport\<close> (\<^verbatim>\<open>vl.c\<close>): the port table with lazily allocated pages as an instance of a table contract,
    registration, dispatch and the default handlers.
  \<^item> \<open>Phys_Mem\<close> (\<^verbatim>\<open>i386-dm/exec-dm.c\<close>): guest RAM, memory-mapped regions and \<^verbatim>\<open>cpu_physical_memory_rw\<close>; the locale
    \<open>byte_memory\<close> is what the request code relies on.
  \<^item> \<open>Ioreq\<close> (\<^verbatim>\<open>i386-dm/helper2.c\<close>): requests and the buffered ring; \<open>handler_invariant\<close> and \<open>device_invariant\<close> carry an
    invariant of the devices through every request.
  \<^item> \<open>Port_Device\<close>, \<open>Bounded_Queue\<close>: contracts of a device on ports and of a bounded FIFO, interpreted by the UART
    and by the keyboard and mouse queues.
  \<^item> \<open>I8259\<close> (\<^verbatim>\<open>hw/i8259.c\<close>), \<open>Serial\<close> (\<^verbatim>\<open>hw/serial.c\<close>), \<open>Rtc\<close> (\<^verbatim>\<open>hw/mc146818rtc.c\<close>), \<open>Ps2\<close> (\<^verbatim>\<open>hw/ps2.c\<close>),
    \<open>Pckbd\<close> (\<^verbatim>\<open>hw/pckbd.c\<close>), \<open>Dma\<close> (\<^verbatim>\<open>hw/dma.c\<close>): the devices, one record per C struct and one definition per C function,
    in the order of the source.
  \<^item> \<open>Pc_Bus\<close>, \<open>Pc_Machine\<close>, \<open>Pc_Snapshot\<close> (\<^verbatim>\<open>hw/pc.c\<close> and the init functions of the devices): the machine put together,
    its ports, its reachable states and its snapshot.
  \<^item> \<open>Pci_Device\<close>, \<open>Pci_Bus\<close> (\<^verbatim>\<open>hw/pci.c\<close>): a PCI function with its configuration space and regions; buses, bridges,
    registration, configuration cycles and interrupt lines. The locale \<open>region_mapper\<close> is what a function's \<^verbatim>\<open>map_func\<close> promises,
    \<open>pci_drivers\<close> what the call-backs of all functions on a bus promise, \<open>irq_wiring\<close> what the host bridge does with a level.
  \<^item> \<open>Piix_Pci\<close> (\<^verbatim>\<open>hw/piix_pci.c\<close>, \<^verbatim>\<open>hw/pci_host.h\<close>): the host and ISA bridges; interprets \<open>irq_wiring\<close>.
  \<^item> \<open>Platform_Log\<close>, \<open>Unplug\<close>, \<open>Xen_Platform\<close>, \<open>Unplug_Protocol\<close> (\<^verbatim>\<open>hw/xen_platform.c\<close>, and the unplug functions of \<^verbatim>\<open>hw/ide.c\<close>,
    \<^verbatim>\<open>hw/pci.c\<close>, \<^verbatim>\<open>net.c\<close>): the log port with its token bucket, the unplugging of drives and cards, the device, and what a guest can do
    with it. Interprets \<open>region_mapper\<close> and \<open>pci_drivers\<close>.
  \<^item> \<open>Map_Cache\<close>, \<open>Map_Lock\<close> (\<^verbatim>\<open>hw/xen_machine_fv.c\<close>, \<^verbatim>\<open>cpu_physical_memory_map\<close> of \<^verbatim>\<open>i386-dm/exec-dm.c\<close>): the map cache, and which
    pointers into it stay valid.
  \<^item> \<open>Acpi\<close>, \<open>Acpi_Guest\<close> (\<^verbatim>\<open>hw/piix4acpi.c\<close>): the ACPI controller on top of the PCI host, and what the guest and the tools can do with it.
  \<^item> \<open>Buffered_File\<close> (\<^verbatim>\<open>buffered_file.c\<close>, \<^verbatim>\<open>migration.c\<close>): the rate-limited stream of a migration. The locales \<open>put_backend\<close> and
    \<open>prompt_backend\<close> are what it needs of its back end, interpreted by the descriptor of a migration.

  \<^bold>\<open>How code is rendered.\<close> A struct is a record, extended where one C object contains another (\<open>pc\<close> extends the request state
  \<open>dm\<close>, which extends the memory and the port bus). A function that may abort, trap or leave its C object returns a
  value of \<open>dm_error + 'a\<close>; \<open>Bad_access\<close> stands for undefined behaviour. Function pointers are numbers, and the
  parameter \<open>c\<close> of the dispatchers says what they do; \<open>pc_code\<close> gives it for the machine. Interrupt lines, timers and calls to the
  hypervisor are event logs or fields of an environment record, as their receivers are outside the modelled code.
  Code outside the repository is a parameter with a named hypothesis where something is required of it: \<open>foreign_bulk\<close> for
  \<^verbatim>\<open>xc_map_foreign_bulk\<close>, \<open>acpi_env_ok\<close> for the length of the event block in the hypervisor's header, \<open>fd_posix\<close> and \<open>fd_ok\<close> for \<^verbatim>\<open>write\<close>.

  \<^bold>\<open>Loops and fuel.\<close> Loops over data are structural or have a termination proof. Three loops depend on others: the
  ring (the guest may keep writing), the section loop of a load (the file decides) and the timer loop (a callback may re-arm).
  They take fuel, \<open>None\<close> means not ended yet, and the properties state how much is enough: the number of ring slots,
  one round per section and one more, the number of due timers and one more. Closing a buffered file takes fuel too, and one
  round is enough on the descriptor of a migration; the retry loop of the descriptor is a partial function,
  which returns exactly if a write is answered with something else than a transient error. The walks over PCI buses
  stop after as many steps as there are buses: a longer one would be in a cycle, which well-formed states exclude.

  \<^bold>\<open>What is shown.\<close> Requests are served exactly, once, in order and with the right width; a guest access to the serial
  port on any reachable machine performs exactly that register access. Transfers to RAM are flat copies whatever pages they cross, and
  complete in the dirty log. The 8259 resolves priorities as specified and stays well formed. The UART, the keyboard
  controller and the DMA controllers survive every guest access sequence with their queues, lines and addresses in bounds.
  The clock steps through the Gregorian calendar and its registers decode to the time they were set from. Timers fire in
  order. Every device state, and the machine as a whole, survives a snapshot, and the stream of a migration is complete and in
  order when it is closed. After any configuration writes every PCI region is where its registers put it, every
  reachable bus state is well formed, and an interrupt line is high exactly while a function holds it. The lines
  a guest logs are bounded in length and rate, newlines apart; its unplug requests remove what they select, and only for drivers that have been accepted.
  Pointers of the map cache stand for the guest address asked for, and locked ones stay below 64 GB of guest memory. A guest ejects
  only what the tools asked it to, the ACPI interrupt line is high only for a pending event, and the alarm is at the
  first time its registers allow, but for two settings that are stated. Where the code does not do what it means
  to, a theorem states what it does instead.

  \<^bold>\<open>Not modelled.\<close> Concurrency with the hypervisor inside a request; host I/O (files other than through \<^verbatim>\<open>QEMUFile\<close>,
  sockets, terminals, displays, sound); the block layer and the devices that need it (disks beyond their unplugging, floppy
  drives), network cards, USB and assigned devices, whose behaviour lies in asynchronous host calls or in real hardware;
  of the modelled parts the map client list of \<^verbatim>\<open>exec-dm.c\<close>, extended battery management, the initialisation of the machine
  around the devices and the state machine of a migration. The map cache has the constants of the 64-bit build. The doubles of
  the log's token bucket are integers rounded to 53 bits, and \<open>oversleep\<close> is the time until the clock is read after a wait. The interval
  timer is the hypervisor's; the instruction translators, the user-mode emulators and the boards of other architectures
  are other programs of the repository.
\<close>

end
